(* ===== verification/Prelude.thy ===== *)
theory Prelude
  imports Main "HOL-Library.Char_ord" "HOL-Library.List_Lexorder" "HOL-Library.Sublist"
    "HOL-Library.Code_Target_Nat"
begin

text \<open>
  Shared material of the development: the text type and the functions of Go's packages
  strings and unicode that the modelled code calls, Go's maps as sorted association lists,
  and the lemmas about them that the component theories share.

  A rune is a \<open>char\<close>, read as the code point U+0000 to U+00FF; a Go string is the list of its
  runes. The predicates of package unicode are given exactly on that range.
\<close>

named_theorems str_simps \<open>characterisations of the text functions\<close>
named_theorems gomap_simps \<open>the laws of Go's maps\<close>

type_synonym rune = char
type_synonym str = "char list"

subsection \<open>Runes\<close>

abbreviation NL :: rune where "NL \<equiv> CHR 0x0A"
abbreviation TAB :: rune where "TAB \<equiv> CHR 0x09"
abbreviation CR :: rune where "CR \<equiv> CHR 0x0D"
abbreviation SP :: rune where "SP \<equiv> CHR 0x20"
abbreviation DQUOTE :: rune where "DQUOTE \<equiv> CHR 0x22"
abbreviation BSLASH :: rune where "BSLASH \<equiv> CHR 0x5C"

definition code :: "rune \<Rightarrow> nat" where
  "code c = of_char c"

definition is_lower :: "rune \<Rightarrow> bool" where
  "is_lower c \<longleftrightarrow> CHR ''a'' \<le> c \<and> c \<le> CHR ''z''"

definition is_upper :: "rune \<Rightarrow> bool" where
  "is_upper c \<longleftrightarrow> CHR ''A'' \<le> c \<and> c \<le> CHR ''Z''"

definition is_digit :: "rune \<Rightarrow> bool" where
  "is_digit c \<longleftrightarrow> CHR ''0'' \<le> c \<and> c \<le> CHR ''9''"

text \<open>unicode.IsLetter on U+0000 to U+00FF: the ASCII letters, U+00AA, U+00B5, U+00BA and the
  Latin-1 letters, without the multiplication and division signs.\<close>

definition unicode_is_letter :: "rune \<Rightarrow> bool" where
  "unicode_is_letter c \<longleftrightarrow> is_lower c \<or> is_upper c
     \<or> c = CHR 0xAA \<or> c = CHR 0xB5 \<or> c = CHR 0xBA
     \<or> (CHR 0xC0 \<le> c \<and> c \<noteq> CHR 0xD7 \<and> c \<noteq> CHR 0xF7)"

definition unicode_is_digit :: "rune \<Rightarrow> bool" where
  "unicode_is_digit c \<longleftrightarrow> is_digit c"

definition unicode_is_space :: "rune \<Rightarrow> bool" where
  "unicode_is_space c \<longleftrightarrow>
     c \<in> {TAB, NL, CHR 0x0B, CHR 0x0C, CR, SP, CHR 0x85, CHR 0xA0}"

text \<open>unicode.ToLower on U+0000 to U+00FF.\<close>

definition rune_lower :: "rune \<Rightarrow> rune" where
  "rune_lower c = (if is_upper c \<or> (CHR 0xC0 \<le> c \<and> c \<le> CHR 0xDE \<and> c \<noteq> CHR 0xD7)
                   then char_of (code c + 32) else c)"

text \<open>unicode.ToUpper on U+0000 to U+00FF, but for U+00B5 and U+00FF, whose upper case lies
  outside the range; they are kept.\<close>

definition rune_upper :: "rune \<Rightarrow> rune" where
  "rune_upper c = (if is_lower c \<or> (CHR 0xE0 \<le> c \<and> c \<le> CHR 0xFE \<and> c \<noteq> CHR 0xF7)
                   then char_of (code c - 32) else c)"

subsection \<open>Package strings\<close>

definition to_lower :: "str \<Rightarrow> str" where
  "to_lower s = map rune_lower s"

definition to_upper :: "str \<Rightarrow> str" where
  "to_upper s = map rune_upper s"

definition trim_right_fn :: "(rune \<Rightarrow> bool) \<Rightarrow> str \<Rightarrow> str" where
  "trim_right_fn p s = rev (dropWhile p (rev s))"

definition trim_fn :: "(rune \<Rightarrow> bool) \<Rightarrow> str \<Rightarrow> str" where
  "trim_fn p s = trim_right_fn p (dropWhile p s)"

definition trim_space :: "str \<Rightarrow> str" where
  "trim_space s = trim_fn unicode_is_space s"

definition has_prefix :: "str \<Rightarrow> str \<Rightarrow> bool" where
  "has_prefix s p \<longleftrightarrow> prefix p s"

definition has_suffix :: "str \<Rightarrow> str \<Rightarrow> bool" where
  "has_suffix s p \<longleftrightarrow> suffix p s"

fun contains :: "str \<Rightarrow> str \<Rightarrow> bool" where
  "contains [] sub = (sub = [])"
| "contains (c # cs) sub = (prefix sub (c # cs) \<or> contains cs sub)"

fun split_on :: "rune \<Rightarrow> str \<Rightarrow> str list" where
  "split_on sep [] = [[]]"
| "split_on sep (c # cs) =
     (if c = sep then [] # split_on sep cs
      else (case split_on sep cs of [] \<Rightarrow> [[c]] | w # ws \<Rightarrow> (c # w) # ws))"

fun join :: "str \<Rightarrow> str list \<Rightarrow> str" where
  "join sep [] = []"
| "join sep [w] = w"
| "join sep (w # v # ws) = w @ sep @ join sep (v # ws)"

text \<open>strings.Fields: the maximal runs of runes that are not white space.\<close>

function fields :: "str \<Rightarrow> str list" where
  "fields s = (let s' = dropWhile unicode_is_space s in
     if s' = [] then []
     else takeWhile (\<lambda>c. \<not> unicode_is_space c) s'
          # fields (dropWhile (\<lambda>c. \<not> unicode_is_space c) s'))"
  by pat_completeness auto
termination
proof (relation "measure length", simp)
  fix s s' :: str
  assume s': "s' = dropWhile unicode_is_space s" and ne: "s' \<noteq> []"
  then obtain c cs where c: "s' = c # cs" by (meson neq_Nil_conv)
  have "\<not> unicode_is_space c" using s' c by (metis hd_dropWhile list.sel(1) ne)
  then have "length (dropWhile (\<lambda>c. \<not> unicode_is_space c) s') \<le> length cs"
    using c by (simp add: length_dropWhile_le)
  also have "length cs < length s'" using c by simp
  also have "length s' \<le> length s" using s' by (simp add: length_dropWhile_le)
  finally show "(dropWhile (\<lambda>c. \<not> unicode_is_space c) s', s) \<in> measure length" by simp
qed

declare fields.simps [simp del]

text \<open>strings.ReplaceAll for a pattern that is not empty.\<close>

function replace_all :: "str \<Rightarrow> str \<Rightarrow> str \<Rightarrow> str" where
  "replace_all old new [] = []"
| "replace_all old new (c # cs) =
     (if old \<noteq> [] \<and> prefix old (c # cs) then new @ replace_all old new (drop (length old) (c # cs))
      else c # replace_all old new cs)"
  by pat_completeness auto
termination by (relation "measure (\<lambda>(old, new, s). length s)") (auto simp: prefix_def)

text \<open>strings.ReplaceAll: an empty pattern matches before every rune and at the end.\<close>

definition strings_replace_all :: "str \<Rightarrow> str \<Rightarrow> str \<Rightarrow> str" where
  "strings_replace_all s old new =
     (if old = [] then concat (map (\<lambda>c. new @ [c]) s) @ new else replace_all old new s)"

text \<open>The number of bytes of a Go string: a rune from U+0080 to U+00FF takes two.\<close>

definition byte_len :: "str \<Rightarrow> nat" where
  "byte_len s = sum_list (map (\<lambda>c. if code c < 128 then 1 else 2) s)"

subsection \<open>Decimal numbers\<close>

definition digit_char :: "nat \<Rightarrow> rune" where
  "digit_char d = char_of (48 + d)"

definition digit_val :: "rune \<Rightarrow> nat" where
  "digit_val c = code c - 48"

fun nat_digits :: "nat \<Rightarrow> nat list" where
  "nat_digits n = (if n < 10 then [n] else nat_digits (n div 10) @ [n mod 10])"

declare nat_digits.simps [simp del]

definition show_nat :: "nat \<Rightarrow> str" where
  "show_nat n = map digit_char (nat_digits n)"

definition show_int :: "int \<Rightarrow> str" where
  "show_int i = (if i < 0 then CHR ''-'' # show_nat (nat (- i)) else show_nat (nat i))"

definition read_base :: "nat \<Rightarrow> str \<Rightarrow> nat" where
  "read_base b s = foldl (\<lambda>n c. n * b + digit_val c) 0 s"

subsection \<open>Go's maps\<close>

text \<open>
  A Go map is kept as the association list of its entries in the order of the keys, so two
  maps with the same entries are the same value. The order in which a \<open>range\<close> visits the
  entries is not part of the value: the code that ranges over a map takes it as a parameter.
\<close>

type_synonym ('k, 'v) gomap = "('k \<times> 'v) list"

definition gm_get :: "('k, 'v) gomap \<Rightarrow> 'k \<Rightarrow> 'v option" where
  "gm_get m k = map_of m k"

fun gm_set :: "'k::linorder \<Rightarrow> 'v \<Rightarrow> ('k, 'v) gomap \<Rightarrow> ('k, 'v) gomap" where
  "gm_set k v [] = [(k, v)]"
| "gm_set k v ((k', v') # m) =
     (if k < k' then (k, v) # (k', v') # m
      else if k = k' then (k, v) # m
      else (k', v') # gm_set k v m)"

definition gm_del :: "'k \<Rightarrow> ('k, 'v) gomap \<Rightarrow> ('k, 'v) gomap" where
  "gm_del k m = filter (\<lambda>(k', _). k' \<noteq> k) m"

definition gm_set_all :: "('k::linorder, 'v) gomap \<Rightarrow> ('k, 'v) gomap \<Rightarrow> ('k, 'v) gomap" where
  "gm_set_all m ups = fold (\<lambda>(k, v) acc. gm_set k v acc) ups m"

definition gm_keys :: "('k, 'v) gomap \<Rightarrow> 'k list" where
  "gm_keys m = map fst m"

definition gm_ok :: "('k::linorder, 'v) gomap \<Rightarrow> bool" where
  "gm_ok m \<longleftrightarrow> sorted_wrt (<) (map fst m)"


lemma map_of_gm_set: "map_of (gm_set k v m) = (map_of m)(k \<mapsto> v)"
  by (induction k v m rule: gm_set.induct) (auto simp: fun_eq_iff)

lemma gm_get_set [gomap_simps]: "gm_get (gm_set k v m) k' = (if k' = k then Some v else gm_get m k')"
  by (simp add: gm_get_def map_of_gm_set)

lemma gm_get_del [gomap_simps]: "gm_get (gm_del k m) k' = (if k' = k then None else gm_get m k')"
  by (induction m) (auto simp: gm_get_def gm_del_def)

lemma gm_get_Nil [gomap_simps]: "gm_get [] k = None"
  by (simp add: gm_get_def)

lemma keys_gm_set: "set (map fst (gm_set k v m)) = insert k (set (map fst m))"
  by (induction k v m rule: gm_set.induct) auto

lemma gm_ok_Nil [simp]: "gm_ok []"
  by (simp add: gm_ok_def)

lemma gm_ok_Cons [simp]: "gm_ok ((k, v) # m) \<longleftrightarrow> (\<forall>x\<in>set (map fst m). k < x) \<and> gm_ok m"
  by (simp add: gm_ok_def)

lemma gm_ok_set [simp]: "gm_ok m \<Longrightarrow> gm_ok (gm_set k v m)"
proof (induction k v m rule: gm_set.induct)
  case (2 k v k' v' m)
  have "a \<in> insert k (fst ` set m)" if "(a, b) \<in> set (gm_set k v m)" for a b
    using that keys_gm_set [of k v m] by (metis fst_conv image_eqI list.set_map)
  with 2 show ?case by fastforce
qed simp

lemma gm_ok_del [simp]: "gm_ok m \<Longrightarrow> gm_ok (gm_del k m)"
  by (induction m) (auto simp: gm_del_def)

lemma gm_ok_distinct: "gm_ok m \<Longrightarrow> distinct (map fst m)"
  by (simp add: gm_ok_def strict_sorted_iff)

text \<open>Two maps with the same entries are equal.\<close>

lemma gm_ext:
  assumes "gm_ok m" "gm_ok n" "\<And>k. gm_get m k = gm_get n k"
  shows "m = n"
proof -
  have eq: "map_of m = map_of n" using assms(3) by (auto simp: gm_get_def)
  then have "set (map fst m) = set (map fst n)" by (metis dom_map_of_conv_image_fst list.set_map)
  moreover have "sorted_wrt (<) (map fst m)" "sorted_wrt (<) (map fst n)"
    using assms(1,2) by (auto simp: gm_ok_def)
  ultimately have "map fst m = map fst n" by (metis strict_sorted_equal)
  moreover have "map (\<lambda>k. (k, the (map_of xs k))) (map fst xs) = xs"
    if "distinct (map fst xs)" for xs :: "('a, 'b) gomap"
    using that by (auto intro!: map_idI)
  ultimately show ?thesis
    using eq gm_ok_distinct [OF assms(1)] gm_ok_distinct [OF assms(2)] by metis
qed

lemma gm_set_all_ok [simp]: "gm_ok m \<Longrightarrow> gm_ok (gm_set_all m ups)"
  unfolding gm_set_all_def by (induction ups arbitrary: m) auto

lemma gm_get_set_all:
  "gm_get (gm_set_all m ups) k = (case gm_get (rev ups) k of None \<Rightarrow> gm_get m k | Some v \<Rightarrow> Some v)"
  unfolding gm_set_all_def
proof (induction ups arbitrary: m)
  case (Cons kv ups)
  then show ?case
    by (cases kv) (auto simp: map_of_gm_set gm_get_def map_add_def split: option.splits)
qed (simp add: gm_get_def)

lemma contains_iff: "contains s sub \<longleftrightarrow> sublist sub s"
  by (induction s sub rule: contains.induct) (auto simp: sublist_Cons_right)

lemma trim_space_sublist: "sublist (trim_space s) s"
proof -
  have "suffix (dropWhile unicode_is_space s) s" by (rule suffix_dropWhile)
  moreover have "prefix (trim_space s) (dropWhile unicode_is_space s)"
    using suffix_dropWhile [of unicode_is_space "rev (dropWhile unicode_is_space s)"]
    by (simp add: trim_space_def trim_fn_def trim_right_fn_def suffix_to_prefix)
  ultimately show ?thesis
    by (meson prefix_imp_sublist sublist_order.order_trans suffix_imp_sublist)
qed

text \<open>A map's own entries are in the order of their keys, so each key is set once.\<close>

lemma gm_get_rev: "gm_ok m \<Longrightarrow> gm_get (rev m) k = gm_get m k"
  using map_of_inject_set [of "rev m" m] gm_ok_distinct [of m] by (simp add: gm_get_def rev_map [symmetric])

lemma gm_get_merge [gomap_simps]:
  "gm_ok ups \<Longrightarrow> gm_get (gm_set_all m ups) k = (case gm_get ups k of None \<Rightarrow> gm_get m k | Some v \<Rightarrow> Some v)"
  by (simp add: gm_get_set_all gm_get_rev)

lemma gm_get_map: "gm_get (map (\<lambda>(k, v). (k, f v)) m) k = map_option f (gm_get m k)"
  by (simp add: gm_get_def map_of_map)

lemma gm_ok_map: "gm_ok m \<Longrightarrow> gm_ok (map (\<lambda>(k, v). (k, f v)) m)"
  by (simp add: gm_ok_def comp_def case_prod_beta)

lemma gm_get_fold_del: "gm_get (fold gm_del ks m) k = (if k \<in> set ks then None else gm_get m k)"
  by (induction ks arbitrary: m) (simp_all add: gm_get_del)

text \<open>Decimal numbers printed and read back.\<close>

lemma nat_digits_less: "d \<in> set (nat_digits n) \<Longrightarrow> d < 10"
proof (induction n rule: nat_digits.induct)
  case (1 n)
  show ?case
  proof (cases "n < 10")
    case False
    then have "d \<in> set (nat_digits (n div 10)) \<or> d = n mod 10"
      using 1(2) by (subst (asm) nat_digits.simps) auto
    then show ?thesis using 1(1) [OF False] by auto
  qed (use 1(2) in \<open>simp add: nat_digits.simps\<close>)
qed

lemma digit_char_digit: "d < 10 \<Longrightarrow> is_digit (digit_char d)"
proof -
  assume "d < 10"
  then have "d \<in> {0,1,2,3,4,5,6,7,8,9}" by auto
  then show ?thesis by (auto simp: digit_char_def is_digit_def less_eq_char_def)
qed

lemma show_nat_digits: "list_all is_digit (show_nat n)" "show_nat n \<noteq> []"
proof -
  show "list_all is_digit (show_nat n)"
    by (auto simp: show_nat_def list_all_iff digit_char_digit dest: nat_digits_less)
  have "nat_digits n \<noteq> []" by (subst nat_digits.simps) simp
  then show "show_nat n \<noteq> []" by (simp add: show_nat_def)
qed

lemma digit_val_char: "d < 10 \<Longrightarrow> digit_val (digit_char d) = d"
  by (simp add: digit_val_def digit_char_def code_def)

lemma read_base_snoc: "read_base b (s @ [c]) = read_base b s * b + digit_val c"
  by (simp add: read_base_def)

lemma read_show_nat: "read_base 10 (show_nat n) = n"
  unfolding show_nat_def
proof (induction n rule: nat_digits.induct)
  case (1 n)
  show ?case
  proof (cases "n < 10")
    case False
    have "map digit_char (nat_digits n) = map digit_char (nat_digits (n div 10)) @ [digit_char (n mod 10)]"
      using False by (subst nat_digits.simps) simp
    then show ?thesis using 1 [OF False] by (simp add: read_base_snoc digit_val_char)
  qed (simp add: nat_digits.simps read_base_def digit_val_char)
qed

end
