(* ===== verification/GoFloat.thy ===== *)
theory GoFloat
  imports Prelude
begin

text \<open>
  The finite float64 values as the Agentfile packages use them: strconv.ParseFloat of a
  decimal literal (round to nearest, ties to even), the conversion of an int, and the shortest
  decimal formats of strconv.FormatFloat and package fmt. No arithmetic is done on them.

  A value is \<open>F64 m e\<close> for \<open>m * 2 ^ e\<close> with \<open>m\<close> odd, or \<open>F64 0 0\<close>, so equal numbers are equal
  values; negative zero, the infinities and NaN are not represented (the literals of the
  Agentfile grammar have no sign and ParseFloat reports the others as an error).
\<close>

datatype f64 = F64 (f64_mant: int) (f64_exp: int)

function f64_norm :: "int \<Rightarrow> int \<Rightarrow> f64" where
  "f64_norm m e = (if m = 0 then F64 0 0
                   else if even m then f64_norm (m div 2) (e + 1)
                   else F64 m e)"
  by pat_completeness auto
termination
  by (relation "measure (\<lambda>(m, e). nat \<bar>m\<bar>)") (auto elim!: evenE)

declare f64_norm.simps [simp del]

function bit_len :: "int \<Rightarrow> int" where
  "bit_len n = (if n \<le> 0 then 0 else 1 + bit_len (n div 2))"
  by pat_completeness auto
termination by (relation "measure nat") auto

declare bit_len.simps [simp del]

text \<open>The value nearest to the fraction \<open>num / den\<close> of positive numbers; \<open>None\<close> on overflow.\<close>

definition pow2 :: "int \<Rightarrow> int" where
  "pow2 k = 2 ^ nat k"

definition pow10 :: "int \<Rightarrow> int" where
  "pow10 k = 10 ^ nat k"

definition scaled_div :: "int \<Rightarrow> int \<Rightarrow> int \<Rightarrow> int \<times> int \<times> int" where
  "scaled_div num den e =
     (let n = (if e < 0 then num * pow2 (- e) else num);
          d = (if e < 0 then den else den * pow2 e)
      in (n div d, n mod d, d))"

definition f64_round_ratio :: "int \<Rightarrow> int \<Rightarrow> f64 option" where
  "f64_round_ratio num den =
     (let e0 = bit_len num - bit_len den - 53;
          e1 = (if fst (scaled_div num den e0) \<ge> 2 ^ 53 then e0 + 1 else e0);
          e = max e1 (- 1074)
      in case scaled_div num den e of (q, r, d) \<Rightarrow>
         let q' = (if 2 * r > d \<or> (2 * r = d \<and> odd q) then q + 1 else q)
         in if e > 971 \<or> (e = 971 \<and> q' \<ge> 2 ^ 53) then None else Some (f64_norm q' e))"

text \<open>\<open>mant * 10 ^ k\<close> as a float64.\<close>

definition f64_of_decimal :: "bool \<Rightarrow> int \<Rightarrow> int \<Rightarrow> f64 option" where
  "f64_of_decimal neg mant k =
     (if mant = 0 then Some (F64 0 0)
      else map_option (\<lambda>f. if neg then F64 (- f64_mant f) (f64_exp f) else f)
        (if 0 \<le> k then f64_round_ratio (mant * pow10 k) 1
         else f64_round_ratio mant (pow10 (- k))))"

definition f64_of_int :: "int \<Rightarrow> f64" where
  "f64_of_int i = (case f64_of_decimal (i < 0) \<bar>i\<bar> 0 of Some f \<Rightarrow> f | None \<Rightarrow> F64 0 0)"

subsection \<open>strconv.ParseFloat\<close>

definition split_exponent :: "str \<Rightarrow> (str \<times> int) option" where
  "split_exponent s =
     (let mant = takeWhile (\<lambda>c. c \<noteq> CHR ''e'' \<and> c \<noteq> CHR ''E'') s;
          rest = drop (length mant) s
      in case rest of
           [] \<Rightarrow> Some (mant, 0)
         | _ # ex \<Rightarrow>
             (let (neg, ds) = (case ex of
                 c # cs \<Rightarrow> if c = CHR ''-'' then (True, cs)
                           else if c = CHR ''+'' then (False, cs) else (False, ex)
               | [] \<Rightarrow> (False, []))
              in if ds = [] \<or> \<not> list_all is_digit ds then None
                 else Some (mant, (if neg then - 1 else 1) * int (read_base 10 ds))))"

definition parse_float :: "str \<Rightarrow> f64 option" where
  "parse_float s =
     (let (neg, body) = (case s of
          c # cs \<Rightarrow> if c = CHR ''-'' then (True, cs)
                    else if c = CHR ''+'' then (False, cs) else (False, s)
        | [] \<Rightarrow> (False, []))
      in case split_exponent body of
           None \<Rightarrow> None
         | Some (mant, ex) \<Rightarrow>
             (let ip = takeWhile (\<lambda>c. c \<noteq> CHR ''.'') mant;
                  fp = drop (Suc (length ip)) mant
              in if list_all is_digit ip \<and> list_all is_digit fp \<and> ip @ fp \<noteq> []
                 then f64_of_decimal neg (int (read_base 10 (ip @ fp))) (ex - int (length fp))
                 else None))"

subsection \<open>Formatting\<close>

text \<open>\<open>v == float64(int64(v))\<close> with the value of \<open>int64(v)\<close>; out of range the conversion gives
  the least int64.\<close>

definition f64_to_int64 :: "f64 \<Rightarrow> int" where
  "f64_to_int64 f =
     (let v = (if 0 \<le> f64_exp f then f64_mant f * pow2 (f64_exp f)
               else sgn (f64_mant f) * (\<bar>f64_mant f\<bar> div pow2 (- f64_exp f)))
      in if - (2 ^ 63) \<le> v \<and> v < 2 ^ 63 then v else - (2 ^ 63))"

definition f64_is_int64 :: "f64 \<Rightarrow> bool" where
  "f64_is_int64 f \<longleftrightarrow> f = f64_of_int (f64_to_int64 f)"

text \<open>The absolute value as a fraction, and the number of digits before the decimal point.\<close>

definition f64_num :: "f64 \<Rightarrow> int" where
  "f64_num f = (if 0 \<le> f64_exp f then \<bar>f64_mant f\<bar> * pow2 (f64_exp f) else \<bar>f64_mant f\<bar>)"

definition f64_den :: "f64 \<Rightarrow> int" where
  "f64_den f = (if 0 \<le> f64_exp f then 1 else pow2 (- f64_exp f))"

function dec_up :: "int \<Rightarrow> int \<Rightarrow> int \<Rightarrow> int" where
  "dec_up num den k = (if 0 < num \<and> den \<le> num then dec_up (num div 10) den (k + 1) else k)"
  by pat_completeness auto
termination by (relation "measure (\<lambda>(num, den, k). nat num)") auto

declare dec_up.simps [simp del]

fun dec_down :: "nat \<Rightarrow> int \<Rightarrow> int \<Rightarrow> int \<Rightarrow> int" where
  "dec_down 0 num den k = k"
| "dec_down (Suc n) num den k = (if num * 10 < den then dec_down n (num * 10) den (k - 1) else k)"

definition dec_point :: "f64 \<Rightarrow> int" where
  "dec_point f = (if f64_den f \<le> f64_num f then dec_up (f64_num f) (f64_den f) 0
                  else dec_down 400 (f64_num f) (f64_den f) 0)"

text \<open>Does the decimal \<open>c * 10 ^ k\<close> read back as \<open>f\<close>?\<close>

definition reads_back :: "f64 \<Rightarrow> int \<Rightarrow> int \<Rightarrow> bool" where
  "reads_back f c k \<longleftrightarrow> 0 < c \<and> f64_of_decimal False c k = Some (F64 \<bar>f64_mant f\<bar> (f64_exp f))"

fun shortest_from :: "nat \<Rightarrow> f64 \<Rightarrow> int \<Rightarrow> int \<Rightarrow> int" where
  "shortest_from 0 f dp n = 0"
| "shortest_from (Suc fuel) f dp n =
     (let s = n - dp;
          num = (if 0 \<le> s then f64_num f * pow10 s else f64_num f);
          den = (if 0 \<le> s then f64_den f else f64_den f * pow10 (- s));
          lo = num div den; r = num mod den
      in if reads_back f lo (- s) \<and> (2 * r < den \<or> (2 * r = den \<and> even lo) \<or> \<not> reads_back f (lo + 1) (- s))
         then lo
         else if reads_back f (lo + 1) (- s) then lo + 1
         else shortest_from fuel f dp (n + 1))"

definition strip_zeros :: "str \<Rightarrow> str" where
  "strip_zeros s = trim_right_fn (\<lambda>c. c = CHR ''0'') s"

text \<open>The shortest digits \<open>d1 d2 ...\<close> and the point \<open>p\<close> with value \<open>0.d1d2... * 10 ^ p\<close>.\<close>

definition shortest_digits :: "f64 \<Rightarrow> str \<times> int" where
  "shortest_digits f =
     (if f64_mant f = 0 then ([], 0)
      else let dp = dec_point f;
               n = shortest_from 17 f dp 1;
               ds = show_nat (nat n);
               \<comment> \<open>a carry to the next power of ten moves the point\<close>
               p = (if strip_zeros ds = ''1'' \<and> reads_back f 1 dp then dp + 1 else dp)
           in (strip_zeros ds, p))"

definition fmt_f :: "f64 \<Rightarrow> str" where
  "fmt_f f = (case shortest_digits f of (ds, p) \<Rightarrow>
     (if f64_mant f < 0 then ''-'' else []) @
     (if p \<le> 0 then ''0'' @ (if ds = [] then [] else ''.'' @ replicate (nat (- p)) (CHR ''0'') @ ds)
      else if int (length ds) \<le> p then ds @ replicate (nat p - length ds) (CHR ''0'')
      else take (nat p) ds @ ''.'' @ drop (nat p) ds))"

definition fmt_e :: "f64 \<Rightarrow> str" where
  "fmt_e f = (case shortest_digits f of (ds, p) \<Rightarrow>
     (let x = (if ds = [] then 0 else p - 1);
          es = show_nat (nat \<bar>x\<bar>)
      in (if f64_mant f < 0 then ''-'' else []) @
         (case ds of [] \<Rightarrow> ''0'' | [d] \<Rightarrow> [d] | d # r \<Rightarrow> d # CHR ''.'' # r) @
         ''e'' @ (if x < 0 then ''-'' else ''+'') @ (if length es < 2 then ''0'' @ es else es)))"

text \<open>The verb \<open>%g\<close> with the shortest precision: exponents below -4 or from 6 use \<open>%e\<close>.\<close>

definition fmt_g :: "f64 \<Rightarrow> str" where
  "fmt_g f = (let x = snd (shortest_digits f) - 1
     in if f64_mant f \<noteq> 0 \<and> (x < - 4 \<or> 6 \<le> x) then fmt_e f else fmt_f f)"

end
