(* ===== verification/AgentAst.thy ===== *)
theory AgentAst
  imports GoFloat
begin

text \<open>
  The abstract syntax of the Agentfile language (agentfile/parser, the files ast*.go) and the
  Go values of type \<open>interface{}\<close> that its constants and its evaluation have. An interface
  value that may be nil is \<open>VNil\<close>; an \<open>Expr\<close> that may be nil is an option.
\<close>

subsection \<open>Values\<close>

text \<open>
  The dynamic types that reach the packages: the ones of parsed literals and of unmarshalled
  JSON, \<open>int\<close>, and the \<open>[]string\<close> and \<open>map[string]string\<close> of MCP server configurations.
\<close>

datatype (plugins only: code size) val =
    VNil
  | VBool bool
  | VStr str
  | VFloat f64
  | VInt int
  | VMap "(str \<times> val) list"
  | VList "val list"
  | VStrMap "(str \<times> str) list"
  | VStrs "str list"

subsection \<open>Expressions (ast\_expr.go)\<close>

datatype (plugins only: code size) expr =
    StringLit str
  | NumberLit str
  | BoolLit bool
  | Ident str
  | DotExpr expr str
  | BinaryExpr expr str expr
  | UnaryExpr str expr
  | CallExpr str "expr list"
  | ObjectLit "(str \<times> expr) list"
  | HeredocLit str
  | ListLit "expr list"

subsection \<open>Statements (ast\_stmt.go)\<close>

type_synonym position = "nat \<times> nat"

datatype (plugins only: code size) stmt =
    ArgStmt "expr list" "expr option" position
  | FileStmt expr expr int "expr option" position
  | MkdirStmt expr position
  | AssignStmt str expr position
  | IfStmt expr "stmt list" "stmt list option" position
  | ForStmt str str expr "stmt list" position

fun stmt_pos :: "stmt \<Rightarrow> position" where
  "stmt_pos (ArgStmt _ _ p) = p"
| "stmt_pos (FileStmt _ _ _ _ p) = p"
| "stmt_pos (MkdirStmt _ p) = p"
| "stmt_pos (AssignStmt _ _ p) = p"
| "stmt_pos (IfStmt _ _ _ p) = p"
| "stmt_pos (ForStmt _ _ _ _ p) = p"

subsection \<open>Declarations (ast\_decl.go)\<close>

record mount_ref =
  mount_slug :: str
  mount_mode :: str

datatype (plugins only: code size) decl =
    AgentDecl str position                                   \<comment> \<open>command\<close>
  | ExecutableDecl str position                              \<comment> \<open>name\<close>
  | ConfigDecl str str "str list" val position               \<comment> \<open>name, type, options, default\<close>
  | EnvDecl str str str "expr option" "expr option" bool position
      \<comment> \<open>name, source, value, expression, condition, optional\<close>
  | RepoDecl expr position
  | BranchDecl expr position
  | GitCredentialDecl str position
  | McpDecl bool str position                                \<comment> \<open>enabled, format\<close>
  | SkillsDecl "str list" position
  | SetupDecl str int position                               \<comment> \<open>script, timeout\<close>
  | RemoveDecl str str position                              \<comment> \<open>target, name\<close>
  | ModeDecl str position
  | ModeArgsDecl str "str list" position
  | UseEnvBundleDecl str position
  | UseConfigBundleDecl str position
  | PromptDecl str position
  | PromptPositionDecl str position
  | CapabilityDecl str str position                          \<comment> \<open>axis, value\<close>
  | KnowledgeDecl "mount_ref list" position

fun decl_pos :: "decl \<Rightarrow> position" where
  "decl_pos (AgentDecl _ p) = p"
| "decl_pos (ExecutableDecl _ p) = p"
| "decl_pos (ConfigDecl _ _ _ _ p) = p"
| "decl_pos (EnvDecl _ _ _ _ _ _ p) = p"
| "decl_pos (RepoDecl _ p) = p"
| "decl_pos (BranchDecl _ p) = p"
| "decl_pos (GitCredentialDecl _ p) = p"
| "decl_pos (McpDecl _ _ p) = p"
| "decl_pos (SkillsDecl _ p) = p"
| "decl_pos (SetupDecl _ _ p) = p"
| "decl_pos (RemoveDecl _ _ p) = p"
| "decl_pos (ModeDecl _ p) = p"
| "decl_pos (ModeArgsDecl _ _ p) = p"
| "decl_pos (UseEnvBundleDecl _ p) = p"
| "decl_pos (UseConfigBundleDecl _ p) = p"
| "decl_pos (PromptDecl _ p) = p"
| "decl_pos (PromptPositionDecl _ p) = p"
| "decl_pos (CapabilityDecl _ _ p) = p"
| "decl_pos (KnowledgeDecl _ p) = p"

record program =
  Declarations :: "decl list"
  Statements :: "stmt list"

end
