(* ===== verification/AgentValues.thy ===== *)
theory AgentValues
  imports AgentAst
begin

text \<open>
  The values of the Agentfile evaluator (agentfile/eval/values.go and the Get, Set and GetNested
  of context.go): truth, equality, the text of a value and the interpolation of
  \<open>${var.path}\<close> references. A variable scope is a Go map from names to values.
\<close>

type_synonym variables = "(str, val) gomap"

definition isTruthy :: "val \<Rightarrow> bool" where
  "isTruthy v = (case v of
       VNil \<Rightarrow> False
     | VBool b \<Rightarrow> b
     | VStr s \<Rightarrow> s \<noteq> []
     | VFloat f \<Rightarrow> f64_mant f \<noteq> 0
     | VInt i \<Rightarrow> i \<noteq> 0
     | VMap m \<Rightarrow> m \<noteq> []
     | VList xs \<Rightarrow> xs \<noteq> []
     | _ \<Rightarrow> True)"

text \<open>reflect.DeepEqual is equality: maps are kept in the order of their keys.\<close>

definition isEqual :: "val \<Rightarrow> val \<Rightarrow> bool" where
  "isEqual a b \<longleftrightarrow>
     (if a = VNil \<and> b = VNil then True
      else if a = VNil \<or> b = VNil then False
      else a = b)"

subsection \<open>The text of a value\<close>

text \<open>The verb \<open>%v\<close> of package fmt.\<close>

definition fmt_entry :: "(str \<times> str) \<Rightarrow> str" where
  "fmt_entry kv = fst kv @ '':'' @ snd kv"

definition fmt_map :: "(str \<times> str) list \<Rightarrow> str" where
  "fmt_map kvs = ''map['' @ join '' '' (map fmt_entry kvs) @ '']''"

definition fmt_slice :: "str list \<Rightarrow> str" where
  "fmt_slice xs = ''['' @ join '' '' xs @ '']''"

definition fmt_bool :: "bool \<Rightarrow> str" where
  "fmt_bool b = (if b then ''true'' else ''false'')"

fun fmt_v :: "val \<Rightarrow> str" where
  "fmt_v VNil = ''<nil>''"
| "fmt_v (VBool b) = fmt_bool b"
| "fmt_v (VStr s) = s"
| "fmt_v (VFloat f) = fmt_g f"
| "fmt_v (VInt i) = show_int i"
| "fmt_v (VMap m) = fmt_map (map (\<lambda>(k, v). (k, fmt_v v)) m)"
| "fmt_v (VList xs) = fmt_slice (map fmt_v xs)"
| "fmt_v (VStrMap m) = fmt_map m"
| "fmt_v (VStrs xs) = fmt_slice xs"

definition toString :: "val \<Rightarrow> str" where
  "toString v = (case v of
       VNil \<Rightarrow> []
     | VStr s \<Rightarrow> s
     | VBool b \<Rightarrow> if b then ''true'' else ''false''
     | VFloat f \<Rightarrow> if f64_is_int64 f then show_int (f64_to_int64 f) else fmt_f f
     | VInt i \<Rightarrow> show_int i
     | _ \<Rightarrow> fmt_v v)"

lemma toString_simps [simp]:
  "toString VNil = []" "toString (VStr s) = s" "toString (VInt i) = show_int i"
  "toString (VBool b) = (if b then ''true'' else ''false'')"
  by (simp_all add: toString_def)

subsection \<open>Variable paths\<close>

definition GetNested :: "val \<Rightarrow> str \<Rightarrow> val option" where
  "GetNested obj key = (case obj of VMap m \<Rightarrow> gm_get m key | _ \<Rightarrow> None)"

text \<open>\<open>strings.SplitN(path, ".", 2)\<close>\<close>

definition split_dot :: "str \<Rightarrow> str \<times> str option" where
  "split_dot path =
     (let h = takeWhile (\<lambda>c. c \<noteq> CHR ''.'') path
      in case drop (length h) path of [] \<Rightarrow> (h, None) | _ # rest \<Rightarrow> (h, Some rest))"

lemma split_dot_shorter: "split_dot path = (h, Some rest) \<Longrightarrow> length rest < length path"
  by (auto simp: split_dot_def Let_def dest!: arg_cong [of _ _ length] split: list.splits)

function resolve_fields :: "val \<Rightarrow> str \<Rightarrow> val option" where
  "resolve_fields current remaining =
     (if remaining = [] then Some current
      else case split_dot remaining of (h, rest) \<Rightarrow>
        (case GetNested current h of
           None \<Rightarrow> None
         | Some nested \<Rightarrow> (case rest of None \<Rightarrow> Some nested | Some r \<Rightarrow> resolve_fields nested r)))"
  by pat_completeness auto
termination by (relation "measure (\<lambda>(v, r). length r)") (auto dest!: split_dot_shorter dest: sym)

declare resolve_fields.simps [simp del]

text \<open>The nil of a missing name and the nil of a variable are not told apart.\<close>

definition resolveVarPath :: "variables \<Rightarrow> str \<Rightarrow> val" where
  "resolveVarPath vars path =
     (case split_dot path of (h, rest) \<Rightarrow>
        (case gm_get vars h of
           None \<Rightarrow> VNil
         | Some root \<Rightarrow> (case rest of
               None \<Rightarrow> root
             | Some r \<Rightarrow> (case resolve_fields root r of None \<Rightarrow> VNil | Some v \<Rightarrow> v))))"

subsection \<open>Interpolation\<close>

text \<open>A match of \<open>\$\{([a-zA-Z_][a-zA-Z0-9_.]*)\}\<close> at the head of the text: the path and what
  follows the closing brace.\<close>

definition path_start :: "rune \<Rightarrow> bool" where
  "path_start c \<longleftrightarrow> is_lower c \<or> is_upper c \<or> c = CHR ''_''"

definition path_rune :: "rune \<Rightarrow> bool" where
  "path_rune c \<longleftrightarrow> path_start c \<or> is_digit c \<or> c = CHR ''.''"

definition match_ref :: "str \<Rightarrow> (str \<times> str) option" where
  "match_ref s =
     (if has_prefix s ''${'' then
        (let path = takeWhile path_rune (drop 2 s) in
         case drop (2 + length path) s of
           c # rest \<Rightarrow> if c = CHR ''}'' \<and> path \<noteq> [] \<and> path_start (hd path) then Some (path, rest) else None
         | [] \<Rightarrow> None)
      else None)"

lemma match_ref_shorter: "match_ref s = Some (path, rest) \<Longrightarrow> length rest < length s"
  by (auto simp: match_ref_def Let_def dest!: arg_cong [of _ _ length] split: list.splits if_splits)

definition reference :: "str \<Rightarrow> str" where
  "reference path = ''${'' @ path @ ''}''"

function interpolate_refs :: "variables \<Rightarrow> str \<Rightarrow> str" where
  "interpolate_refs vars s =
     (case match_ref s of
        Some (path, rest) \<Rightarrow>
          (let v = resolveVarPath vars path
           in (if v = VNil then reference path else toString v) @ interpolate_refs vars rest)
      | None \<Rightarrow> (case s of [] \<Rightarrow> [] | c # cs \<Rightarrow> c # interpolate_refs vars cs))"
  by pat_completeness auto
termination by (relation "measure (\<lambda>(vars, s). length s)") (auto dest: match_ref_shorter)

declare interpolate_refs.simps [simp del]

definition interpolate :: "variables \<Rightarrow> str \<Rightarrow> str" where
  "interpolate vars s = (if contains s ''${'' then interpolate_refs vars s else s)"

lemma match_ref_text: "match_ref s = Some (path, rest) \<Longrightarrow> s = reference path @ rest"
proof -
  assume m: "match_ref s = Some (path, rest)"
  then obtain t where s: "s = ''${'' @ t"
    by (auto simp: match_ref_def has_prefix_def prefix_def split: if_splits)
  have "path = takeWhile path_rune t" "drop (length path) t = CHR ''}'' # rest"
    using m by (auto simp: s match_ref_def has_prefix_def Let_def split: if_splits list.splits)
  moreover have "t = takeWhile path_rune t @ drop (length (takeWhile path_rune t)) t"
    by (metis append_take_drop_id takeWhile_eq_take)
  ultimately show ?thesis by (metis reference_def s append.assoc append_Cons append_Nil)
qed

text \<open>A text none of whose references names a value is left as it is.\<close>

lemma interpolate_refs_unresolved:
  assumes "\<And>path. resolveVarPath vars path = VNil"
  shows "interpolate_refs vars s = s"
proof (induction s rule: length_induct)
  case (1 s)
  show ?case
  proof (cases "match_ref s")
    case None
    then show ?thesis using 1 by (subst interpolate_refs.simps) (auto split: list.split)
  next
    case (Some m)
    obtain path rest where m: "match_ref s = Some (path, rest)" using Some by (cases m) auto
    have "interpolate_refs vars s = reference path @ rest"
      using 1 [rule_format, OF match_ref_shorter [OF m]] assms
      by (subst interpolate_refs.simps) (simp add: m)
    then show ?thesis using match_ref_text [OF m] by simp
  qed
qed

end
