(* ===== verification/GoJson.thy ===== *)
theory GoJson
  imports AgentValues
begin

text \<open>
  json.Marshal and json.Unmarshal of package encoding/json on the evaluator's values, as the
  builtins of agentfile/eval use them. An escape \<open>\uXXXX\<close> above U+00FF is outside the runes of the
  model and has an error value of its own.
\<close>

subsection \<open>Marshal\<close>

definition hex_digit :: "nat \<Rightarrow> rune" where
  "hex_digit d = (if d < 10 then digit_char d else char_of (87 + d))"

text \<open>The escape of a rune below U+0100 with four hexadecimal digits.\<close>

definition unicode_escape :: "rune \<Rightarrow> str" where
  "unicode_escape c = BSLASH # ''u00'' @ [hex_digit (code c div 16), hex_digit (code c mod 16)]"

definition json_escape :: "rune \<Rightarrow> str" where
  "json_escape c =
     (if c = DQUOTE \<or> c = BSLASH then [BSLASH, c]
      else if c = CHR 0x08 then BSLASH # ''b''
      else if c = CHR 0x0C then BSLASH # ''f''
      else if c = NL then BSLASH # ''n''
      else if c = CR then BSLASH # ''r''
      else if c = TAB then BSLASH # ''t''
      else if c < SP \<or> c = CHR ''<'' \<or> c = CHR ''>'' \<or> c = CHR ''&'' then unicode_escape c
      else [c])"

definition json_string :: "str \<Rightarrow> str" where
  "json_string s = DQUOTE # concat (map json_escape s) @ [DQUOTE]"

text \<open>A number has the form of \<open>%e\<close> below 1e-6 and from 1e21 on, with \<open>e-09\<close> written \<open>e-9\<close>.\<close>

definition json_trim_exponent :: "str \<Rightarrow> str" where
  "json_trim_exponent b =
     (let n = length b in
      if 4 \<le> n \<and> b ! (n - 4) = CHR ''e'' \<and> b ! (n - 3) = CHR ''-'' \<and> b ! (n - 2) = CHR ''0''
      then take (n - 2) b @ [b ! (n - 1)] else b)"

definition json_float :: "f64 \<Rightarrow> str" where
  "json_float f =
     (let p = snd (shortest_digits f)
      in if f64_mant f \<noteq> 0 \<and> (p \<le> - 6 \<or> 22 \<le> p) then json_trim_exponent (fmt_e f) else fmt_f f)"

definition json_object :: "(str \<times> str) list \<Rightarrow> str" where
  "json_object kvs = ''{'' @ join '','' (map (\<lambda>(k, v). json_string k @ '':'' @ v) kvs) @ ''}''"

definition json_array :: "str list \<Rightarrow> str" where
  "json_array xs = ''['' @ join '','' xs @ '']''"

fun json_marshal :: "val \<Rightarrow> str" where
  "json_marshal VNil = ''null''"
| "json_marshal (VBool b) = fmt_bool b"
| "json_marshal (VStr s) = json_string s"
| "json_marshal (VFloat f) = json_float f"
| "json_marshal (VInt i) = show_int i"
| "json_marshal (VMap m) = json_object (map (\<lambda>(k, v). (k, json_marshal v)) m)"
| "json_marshal (VList xs) = json_array (map json_marshal xs)"
| "json_marshal (VStrMap m) = json_object (map (\<lambda>(k, v). (k, json_string v)) m)"
| "json_marshal (VStrs xs) = json_array (map json_string xs)"

subsection \<open>Unmarshal\<close>

datatype json_error = JsonSyntax | JsonRange | JsonOutside

definition json_space :: "rune \<Rightarrow> bool" where
  "json_space c \<longleftrightarrow> c = SP \<or> c = TAB \<or> c = CR \<or> c = NL"

definition hex_val :: "rune \<Rightarrow> nat option" where
  "hex_val c = (if is_digit c then Some (digit_val c)
     else if CHR ''a'' \<le> c \<and> c \<le> CHR ''f'' then Some (code c - 87)
     else if CHR ''A'' \<le> c \<and> c \<le> CHR ''F'' then Some (code c - 55) else None)"

definition read_escape :: "rune \<Rightarrow> rune option" where
  "read_escape c = (if c = DQUOTE \<or> c = BSLASH \<or> c = CHR ''/'' then Some c
     else if c = CHR ''b'' then Some (CHR 0x08) else if c = CHR ''f'' then Some (CHR 0x0C)
     else if c = CHR ''n'' then Some NL else if c = CHR ''r'' then Some CR
     else if c = CHR ''t'' then Some TAB else None)"

text \<open>A rune or an error in front of the text read so far.\<close>

definition more_text :: "rune \<Rightarrow> (json_error + (str \<times> str)) \<Rightarrow> (json_error + (str \<times> str))" where
  "more_text c r = (case r of Inl e \<Rightarrow> Inl e | Inr (s, rest) \<Rightarrow> Inr (c # s, rest))"

text \<open>A well-formed string that has a rune outside the model.\<close>

definition outside :: "(json_error + (str \<times> str)) \<Rightarrow> (json_error + (str \<times> str))" where
  "outside r = (case r of Inl e \<Rightarrow> Inl e | Inr _ \<Rightarrow> Inl JsonOutside)"

definition hex4 :: "rune \<Rightarrow> rune \<Rightarrow> rune \<Rightarrow> rune \<Rightarrow> nat option" where
  "hex4 a b c d =
     (case (hex_val a, hex_val b, hex_val c, hex_val d) of
        (Some w, Some x, Some y, Some z) \<Rightarrow> Some (((w * 16 + x) * 16 + y) * 16 + z)
      | _ \<Rightarrow> None)"

text \<open>The rest of a string after its opening quote.\<close>

fun read_json_string :: "str \<Rightarrow> json_error + (str \<times> str)" where
  "read_json_string [] = Inl JsonSyntax"
| "read_json_string (c # cs) =
     (if c = DQUOTE then Inr ([], cs)
      else if c < SP then Inl JsonSyntax
      else if c \<noteq> BSLASH then more_text c (read_json_string cs)
      else (case cs of
          [] \<Rightarrow> Inl JsonSyntax
        | d # ds \<Rightarrow>
            (case read_escape d of
               Some r \<Rightarrow> more_text r (read_json_string ds)
             | None \<Rightarrow>
                 if d \<noteq> CHR ''u'' then Inl JsonSyntax
                 else (case ds of
                     a # b # e # f # rest \<Rightarrow>
                       (case hex4 a b e f of
                          None \<Rightarrow> Inl JsonSyntax
                        | Some n \<Rightarrow>
                            if n < 256 then more_text (char_of n) (read_json_string rest)
                            else outside (read_json_string rest))
                   | _ \<Rightarrow> Inl JsonSyntax))))"

text \<open>The number at the head of a text, by its grammar: the literal and the rest.\<close>

definition take_digits :: "str \<Rightarrow> str \<times> str" where
  "take_digits s = (takeWhile is_digit s, dropWhile is_digit s)"

definition number_int :: "str \<Rightarrow> (str \<times> str) option" where
  "number_int s = (case s of
       [] \<Rightarrow> None
     | c # cs \<Rightarrow> if c = CHR ''0'' then Some ([c], cs)
                else if is_digit c then Some (take_digits s) else None)"

definition number_fraction :: "str \<Rightarrow> (str \<times> str) option" where
  "number_fraction s = (case s of
       c # cs \<Rightarrow> if c = CHR ''.'' then
                  (case take_digits cs of (ds, rest) \<Rightarrow> if ds = [] then None else Some (c # ds, rest))
                else Some ([], s)
     | [] \<Rightarrow> Some ([], s))"

definition number_exponent :: "str \<Rightarrow> (str \<times> str) option" where
  "number_exponent s = (case s of
       c # cs \<Rightarrow> if c = CHR ''e'' \<or> c = CHR ''E'' then
                  (let (sign, body) = (case cs of
                       d # ds \<Rightarrow> if d = CHR ''+'' \<or> d = CHR ''-'' then ([d], ds) else ([], cs)
                     | [] \<Rightarrow> ([], []))
                   in case take_digits body of (ds, rest) \<Rightarrow>
                        if ds = [] then None else Some (c # sign @ ds, rest))
                else Some ([], s)
     | [] \<Rightarrow> Some ([], s))"

definition read_json_number :: "str \<Rightarrow> json_error + (val \<times> str)" where
  "read_json_number s =
     (let (sign, body) = (case s of
          c # cs \<Rightarrow> if c = CHR ''-'' then ([c], cs) else ([], s) | [] \<Rightarrow> ([], []))
      in case Option.bind (number_int body) (\<lambda>(i, r1).
           Option.bind (number_fraction r1) (\<lambda>(f, r2).
           map_option (\<lambda>(e, r3). (sign @ i @ f @ e, r3)) (number_exponent r2))) of
         None \<Rightarrow> Inl JsonSyntax
       | Some (lit, rest) \<Rightarrow> (case parse_float lit of None \<Rightarrow> Inl JsonRange | Some f \<Rightarrow> Inr (VFloat f, rest)))"

text \<open>The stack of open arrays and objects, and what may come next.\<close>

datatype json_frame = FArr "val list" | FObj variables | FKey variables str

datatype json_mode = JValue | JFirst | JKey | JFirstKey | JColon str | JDone val

definition maxNestingDepth :: nat where
  "maxNestingDepth = 10000"

definition json_open :: "json_frame \<Rightarrow> json_mode \<Rightarrow> json_frame list \<Rightarrow> str
    \<Rightarrow> json_error + (json_frame list \<times> json_mode \<times> str)" where
  "json_open f m st rest =
     (if length st < maxNestingDepth then Inr (f # st, m, rest) else Inl JsonSyntax)"

definition json_literal :: "str \<Rightarrow> val \<Rightarrow> json_frame list \<Rightarrow> str
    \<Rightarrow> json_error + (json_frame list \<times> json_mode \<times> str)" where
  "json_literal w v st s =
     (if has_prefix s w then Inr (st, JDone v, drop (length w) s) else Inl JsonSyntax)"

definition json_value :: "json_frame list \<Rightarrow> rune \<Rightarrow> str
    \<Rightarrow> json_error + (json_frame list \<times> json_mode \<times> str)" where
  "json_value st c cs =
     (if c = CHR ''{'' then json_open (FObj []) JFirstKey st cs
      else if c = CHR ''['' then json_open (FArr []) JFirst st cs
      else if c = DQUOTE then (case read_json_string cs of
          Inl e \<Rightarrow> Inl e | Inr (s, rest) \<Rightarrow> Inr (st, JDone (VStr s), rest))
      else if c = CHR ''t'' then json_literal ''true'' (VBool True) st (c # cs)
      else if c = CHR ''f'' then json_literal ''false'' (VBool False) st (c # cs)
      else if c = CHR ''n'' then json_literal ''null'' VNil st (c # cs)
      else (case read_json_number (c # cs) of
          Inl e \<Rightarrow> Inl e | Inr (v, rest) \<Rightarrow> Inr (st, JDone v, rest)))"

definition json_key :: "json_frame list \<Rightarrow> rune \<Rightarrow> str
    \<Rightarrow> json_error + (json_frame list \<times> json_mode \<times> str)" where
  "json_key st c cs =
     (if c = DQUOTE then (case read_json_string cs of
          Inl e \<Rightarrow> Inl e | Inr (k, rest) \<Rightarrow> Inr (st, JColon k, rest))
      else Inl JsonSyntax)"

definition json_step :: "json_frame list \<Rightarrow> json_mode \<Rightarrow> rune \<Rightarrow> str
    \<Rightarrow> json_error + (json_frame list \<times> json_mode \<times> str)" where
  "json_step st m c cs = (case m of
       JValue \<Rightarrow> json_value st c cs
     | JFirst \<Rightarrow> (case st of
           FArr xs # st' \<Rightarrow> if c = CHR '']'' then Inr (st', JDone (VList []), cs) else json_value st c cs
         | _ \<Rightarrow> Inl JsonSyntax)
     | JKey \<Rightarrow> json_key st c cs
     | JFirstKey \<Rightarrow> (case st of
           FObj m # st' \<Rightarrow> if c = CHR ''}'' then Inr (st', JDone (VMap []), cs) else json_key st c cs
         | _ \<Rightarrow> Inl JsonSyntax)
     | JColon k \<Rightarrow> (case st of
           FObj m # st' \<Rightarrow> if c = CHR '':'' then Inr (FKey m k # st', JValue, cs) else Inl JsonSyntax
         | _ \<Rightarrow> Inl JsonSyntax)
     | JDone v \<Rightarrow> (case st of
           FArr xs # st' \<Rightarrow>
             if c = CHR '','' then Inr (FArr (xs @ [v]) # st', JValue, cs)
             else if c = CHR '']'' then Inr (st', JDone (VList (xs @ [v])), cs) else Inl JsonSyntax
         | FKey m k # st' \<Rightarrow>
             if c = CHR '','' then Inr (FObj (gm_set k v m) # st', JKey, cs)
             else if c = CHR ''}'' then Inr (st', JDone (VMap (gm_set k v m)), cs) else Inl JsonSyntax
         | _ \<Rightarrow> Inl JsonSyntax))"

lemma more_text_Inr: "more_text c r = Inr (s, rest) \<longleftrightarrow> (\<exists>t. r = Inr (t, rest) \<and> s = c # t)"
  by (auto simp: more_text_def split: sum.splits)

lemma outside_Inr [simp]: "outside r \<noteq> Inr x"
  by (simp add: outside_def split: sum.split)

lemma read_json_string_consumes: "read_json_string s = Inr (t, rest) \<Longrightarrow> length rest < length s"
proof (induction s arbitrary: t rule: length_induct)
  case (1 s)
  have IH: "length rest < length s" if "read_json_string s' = Inr (t', rest)" "length s' < length s" for s' t'
    using 1(1) that by fastforce
  show ?case
  proof (cases s)
    case (Cons c cs)
    show ?thesis
      using 1(2) IH unfolding Cons
      by (auto simp: more_text_Inr split: if_splits list.splits option.splits)
  qed (use 1 in simp)
qed

lemma take_digits_length: "take_digits s = (ds, rest) \<Longrightarrow> length rest \<le> length s"
  by (auto simp: take_digits_def length_dropWhile_le)

lemma number_int_consumes: "number_int s = Some (i, rest) \<Longrightarrow> length rest < length s"
  by (auto simp: number_int_def take_digits_def length_dropWhile_le le_imp_less_Suc split: list.splits if_splits)

lemma number_fraction_consumes: "number_fraction s = Some (f, rest) \<Longrightarrow> length rest \<le> length s"
  by (auto simp: number_fraction_def take_digits_def length_dropWhile_le le_SucI split: list.splits if_splits)

lemma number_exponent_consumes: "number_exponent s = Some (e, rest) \<Longrightarrow> length rest \<le> length s"
  by (auto simp: number_exponent_def Let_def take_digits_def length_dropWhile_le le_SucI split: list.splits if_splits)

lemma read_json_number_consumes: "read_json_number s = Inr (v, rest) \<Longrightarrow> length rest < length s"
  by (auto simp: read_json_number_def Let_def Option.bind_eq_Some_conv split: list.splits if_splits option.splits
      dest!: number_int_consumes number_fraction_consumes number_exponent_consumes)

lemma json_value_consumes: "json_value st c cs = Inr (st', m', rest) \<Longrightarrow> length rest \<le> length cs"
  by (auto simp: json_value_def json_open_def json_literal_def split: if_splits sum.splits
      dest!: read_json_string_consumes read_json_number_consumes)

lemma json_key_consumes: "json_key st c cs = Inr (st', m', rest) \<Longrightarrow> length rest \<le> length cs"
  by (auto simp: json_key_def split: if_splits sum.splits dest!: read_json_string_consumes)

lemma json_step_consumes: "json_step st m c cs = Inr (st', m', rest) \<Longrightarrow> length rest \<le> length cs"
  by (auto simp: json_step_def split: json_mode.splits json_frame.splits list.splits if_splits
      dest: json_value_consumes json_key_consumes)

function json_run :: "json_frame list \<Rightarrow> json_mode \<Rightarrow> str \<Rightarrow> json_error + val" where
  "json_run st m s =
     (case dropWhile json_space s of
        [] \<Rightarrow> (case (st, m) of ([], JDone v) \<Rightarrow> Inr v | _ \<Rightarrow> Inl JsonSyntax)
      | c # cs \<Rightarrow> (case json_step st m c cs of
          Inl e \<Rightarrow> Inl e
        | Inr (st', m', rest) \<Rightarrow> json_run st' m' rest))"
  by pat_completeness auto
termination
proof (relation "measure (\<lambda>(st, m, s). length s)", simp)
  fix s c cs st m x st' y m' rest
  assume "dropWhile json_space s = c # cs" "json_step st m c cs = Inr x" "(st', y) = x" "(m', rest) = y"
  then show "((st', m', rest), st, m, s) \<in> measure (\<lambda>(st, m, s). length s)"
    using json_step_consumes [of st m c cs st' m' rest] length_dropWhile_le [of json_space s] by auto
qed

declare json_run.simps [simp del]

definition json_unmarshal :: "str \<Rightarrow> json_error + val" where
  "json_unmarshal s = json_run [] JValue s"

end
