(* ===== verification/AgentBuiltins.thy ===== *)
theory AgentBuiltins
  imports GoJson
begin

text \<open>
  The builtin functions of the Agentfile's build logic (agentfile/eval/builtins.go), one
  definition per Go function. A builtin takes the list of its arguments and returns an error or
  a value; none of them reads or changes the context.
\<close>

datatype eval_error =
    BuiltinArgs str nat        \<comment> \<open>wrong number of arguments, with the number given\<close>
  | JsonParseFailed json_error
  | StrJoinArgument
  | UndefinedFunction str
  | UnknownOperator str
  | UnknownUnary str
  | ForMapLimit nat
  | ForListLimit nat
  | ForNotIterable
  | AtLine nat eval_error      \<comment> \<open>the wrapping with the line of the declaration or statement\<close>

type_synonym builtin = "val list \<Rightarrow> eval_error + val"

subsection \<open>JSON\<close>

definition builtinJSON :: builtin where
  "builtinJSON args = (case args of
       [v] \<Rightarrow> Inr (VStr (json_marshal v))
     | _ \<Rightarrow> Inl (BuiltinArgs ''json'' (length args)))"

definition builtinJSONParse :: builtin where
  "builtinJSONParse args = (case args of
       [v] \<Rightarrow> (case json_unmarshal (toString v) of
           Inl e \<Rightarrow> Inl (JsonParseFailed e)
         | Inr r \<Rightarrow> Inr r)
     | _ \<Rightarrow> Inl (BuiltinArgs ''json_parse'' (length args)))"

text \<open>The entries of an argument that is a map; any other argument is skipped.\<close>

fun merge_args :: "variables \<Rightarrow> val list \<Rightarrow> variables" where
  "merge_args result [] = result"
| "merge_args result (VMap m # args) = merge_args (gm_set_all result m) args"
| "merge_args result (_ # args) = merge_args result args"

definition builtinJSONMerge :: builtin where
  "builtinJSONMerge args =
     (if length args < 2 then Inl (BuiltinArgs ''json_merge'' (length args))
      else Inr (VMap (merge_args [] args)))"

subsection \<open>MCP servers\<close>

definition transformMCPServer :: "variables \<Rightarrow> str \<Rightarrow> variables" where
  "transformMCPServer srv format =
     (let out = gm_set_all [] srv in
      if format = ''gemini'' then
        (let out1 = (case gm_get out ''url'' of
             Some url \<Rightarrow> gm_del ''url'' (gm_set ''httpUrl'' url out) | None \<Rightarrow> out)
         in gm_del ''type'' out1)
      else if format = ''opencode'' then
        (let out1 = (case gm_get out ''url'' of
             Some (VStr url) \<Rightarrow>
               gm_del ''headers'' (gm_del ''url''
                 (gm_set ''command'' (VList [VStr ''npx'', VStr ''-y'', VStr ''mcp-remote'', VStr url])
                   (gm_set ''type'' (VStr ''local'') out)))
           | _ \<Rightarrow> out)
         in gm_set ''enabled'' (VBool True) out1)
      else out)"

definition transform_entry :: "str \<Rightarrow> val \<Rightarrow> val" where
  "transform_entry format srv = (case srv of VMap m \<Rightarrow> VMap (transformMCPServer m format) | _ \<Rightarrow> srv)"

definition builtinMCPTransform :: builtin where
  "builtinMCPTransform args = (case args of
       [servers, fmt] \<Rightarrow> (case servers of
           VMap m \<Rightarrow> (let format = toString fmt in
             Inr (VMap (gm_set_all [] (map (\<lambda>(name, srv). (name, transform_entry format srv)) m))))
         | _ \<Rightarrow> Inr servers)
     | _ \<Rightarrow> Inl (BuiltinArgs ''mcp_transform'' (length args)))"

subsection \<open>TOML\<close>

definition upper_hex :: "nat \<Rightarrow> rune" where
  "upper_hex d = (if d < 10 then digit_char d else char_of (55 + d))"

definition toml_escape :: "rune \<Rightarrow> str" where
  "toml_escape c =
     (if c = BSLASH then [BSLASH, BSLASH]
      else if c = DQUOTE then [BSLASH, DQUOTE]
      else if c = CHR 0x08 then BSLASH # ''b''
      else if c = TAB then BSLASH # ''t''
      else if c = NL then BSLASH # ''n''
      else if c = CHR 0x0C then BSLASH # ''f''
      else if c = CR then BSLASH # ''r''
      else if c < CHR 0x20 then BSLASH # ''u00'' @ [upper_hex (code c div 16), upper_hex (code c mod 16)]
      else [c])"

definition tomlString :: "str \<Rightarrow> str" where
  "tomlString s = DQUOTE # concat (map toml_escape s) @ [DQUOTE]"

definition toml_key_rune :: "rune \<Rightarrow> bool" where
  "toml_key_rune r \<longleftrightarrow> unicode_is_letter r \<or> unicode_is_digit r \<or> r = CHR ''_'' \<or> r = CHR ''-''"

definition tomlKey :: "str \<Rightarrow> str" where
  "tomlKey s = (case s of
       [] \<Rightarrow> [DQUOTE, DQUOTE]
     | c # cs \<Rightarrow> if \<not> list_all toml_key_rune s \<or> unicode_is_digit c then tomlString s else s)"

definition toStringSlice :: "val \<Rightarrow> str list option" where
  "toStringSlice v = (case v of
       VStrs xs \<Rightarrow> Some xs | VList xs \<Rightarrow> Some (map toString xs) | _ \<Rightarrow> None)"

definition toStringMap :: "val \<Rightarrow> (str, str) gomap option" where
  "toStringMap v = (case v of
       VStrMap m \<Rightarrow> Some m
     | VMap m \<Rightarrow> Some (map (\<lambda>(k, x). (k, toString x)) m)
     | _ \<Rightarrow> None)"

definition toml_assign :: "str \<Rightarrow> str \<Rightarrow> str" where
  "toml_assign key rhs = tomlKey key @ '' = '' @ rhs @ [NL]"

definition writeTomlStringField :: "str \<Rightarrow> val option \<Rightarrow> str" where
  "writeTomlStringField key v = (case v of
       Some (VStr s) \<Rightarrow> if s = [] then [] else toml_assign key (tomlString s)
     | _ \<Rightarrow> [])"

definition writeTomlStringArrayField :: "str \<Rightarrow> val option \<Rightarrow> str" where
  "writeTomlStringArrayField key v = (case Option.bind v toStringSlice of
       None \<Rightarrow> []
     | Some items \<Rightarrow> if items = [] then []
         else toml_assign key (''['' @ join '', '' (map tomlString items) @ '']''))"

definition writeTomlSubTable :: "str \<Rightarrow> str \<Rightarrow> val option \<Rightarrow> str" where
  "writeTomlSubTable serverName tableName v = (case Option.bind v toStringMap of
       None \<Rightarrow> []
     | Some fs \<Rightarrow> if fs = [] then []
         else NL # ''[mcp_servers.'' @ tomlKey serverName @ ''.'' @ tomlKey tableName @ '']'' @ [NL]
              @ concat (map (\<lambda>(k, x). if x = [] then [] else toml_assign k (tomlString x)) fs))"

text \<open>The lookup \<open>srv[key]\<close>, in which a nil value and a missing one are the same.\<close>

definition lookup_value :: "variables \<Rightarrow> str \<Rightarrow> val option" where
  "lookup_value m key = (case gm_get m key of Some VNil \<Rightarrow> None | r \<Rightarrow> r)"

definition toml_server :: "str \<Rightarrow> variables \<Rightarrow> str" where
  "toml_server name srv =
     ''[mcp_servers.'' @ tomlKey name @ '']'' @ [NL]
     @ writeTomlStringField ''type'' (lookup_value srv ''type'')
     @ writeTomlStringField ''url'' (lookup_value srv ''url'')
     @ writeTomlStringField ''command'' (lookup_value srv ''command'')
     @ writeTomlStringArrayField ''args'' (lookup_value srv ''args'')
     @ writeTomlSubTable name ''http_headers''
         (case lookup_value srv ''headers'' of None \<Rightarrow> lookup_value srv ''http_headers'' | h \<Rightarrow> h)
     @ writeTomlSubTable name ''env'' (lookup_value srv ''env'')"

text \<open>The servers in the order of their names; a blank line before each but the first.\<close>

fun toml_servers :: "str \<Rightarrow> variables \<Rightarrow> str" where
  "toml_servers b [] = b"
| "toml_servers b ((name, VMap srv) # servers) =
     toml_servers (b @ (if b \<noteq> [] then [NL] else []) @ toml_server name srv) servers"
| "toml_servers b (_ # servers) = toml_servers b servers"

definition builtinCodexMCPTOML :: builtin where
  "builtinCodexMCPTOML args = (case args of
       [VMap servers] \<Rightarrow> Inr (VStr (toml_servers [] servers))
     | [_] \<Rightarrow> Inr (VStr [])
     | _ \<Rightarrow> Inl (BuiltinArgs ''codex_mcp_toml'' (length args)))"

subsection \<open>Text\<close>

definition builtinStrReplace :: builtin where
  "builtinStrReplace args = (case args of
       [s, old, new] \<Rightarrow> Inr (VStr (strings_replace_all (toString s) (toString old) (toString new)))
     | _ \<Rightarrow> Inl (BuiltinArgs ''str_replace'' (length args)))"

definition builtinStrContains :: builtin where
  "builtinStrContains args = (case args of
       [s, sub] \<Rightarrow> Inr (VBool (contains (toString s) (toString sub)))
     | _ \<Rightarrow> Inl (BuiltinArgs ''str_contains'' (length args)))"

definition builtinStrJoin :: builtin where
  "builtinStrJoin args = (case args of
       [v, sep] \<Rightarrow> (case v of
           VList xs \<Rightarrow> Inr (VStr (join (toString sep) (map toString xs)))
         | VMap m \<Rightarrow> Inr (VStr (join (toString sep) (gm_keys m)))
         | _ \<Rightarrow> Inl StrJoinArgument)
     | _ \<Rightarrow> Inl (BuiltinArgs ''str_join'' (length args)))"

definition builtinLen :: builtin where
  "builtinLen args = (case args of
       [v] \<Rightarrow> Inr (VFloat (f64_of_int (case v of
           VStr s \<Rightarrow> int (byte_len s)
         | VMap m \<Rightarrow> int (length m)
         | VList xs \<Rightarrow> int (length xs)
         | _ \<Rightarrow> 0)))
     | _ \<Rightarrow> Inl (BuiltinArgs ''len'' (length args)))"

definition builtinPrint :: builtin where
  "builtinPrint args = Inr (VStr (join '' '' (map toString args)))"

subsection \<open>Registration\<close>

type_synonym builtins = "str \<Rightarrow> builtin option"

definition registered_builtins :: "builtins \<Rightarrow> builtins" where
  "registered_builtins m = m(
     ''json'' \<mapsto> builtinJSON,
     ''json_parse'' \<mapsto> builtinJSONParse,
     ''json_merge'' \<mapsto> builtinJSONMerge,
     ''mcp_transform'' \<mapsto> builtinMCPTransform,
     ''codex_mcp_toml'' \<mapsto> builtinCodexMCPTOML,
     ''str_replace'' \<mapsto> builtinStrReplace,
     ''str_contains'' \<mapsto> builtinStrContains,
     ''str_join'' \<mapsto> builtinStrJoin,
     ''len'' \<mapsto> builtinLen,
     ''print'' \<mapsto> builtinPrint)"

end
