(* ===== verification/AgentEval.thy ===== *)
theory AgentEval
  imports AgentBuiltins
begin

text \<open>
  The evaluator of Agentfile programs (agentfile/eval: context.go, evaluator.go,
  evaluator\_helpers.go, eval\_decl.go, eval\_expr.go, apply\_removes.go). The context is a record
  that declarations and statements return updated, with an error or without one; expressions
  read the variables and the builtins only.

  Go does not fix the order in which a \<open>range\<close> visits a map. The context therefore carries the
  orders of the run, one for each \<open>for\<close> statement over a map, as a parameter.
\<close>

subsection \<open>The build result and the context (context.go)\<close>

record file_entry =
  file_path :: str
  file_content :: str
  file_mode :: int

record sandbox_result =
  RepoURL :: str
  Branch :: str
  CredentialType :: str

record setup_result =
  Script :: str
  Timeout :: int

record knowledge_mount =
  knowledge_slug :: str
  knowledge_mode :: str

record build_result =
  LaunchCommand :: str
  Executable :: str
  LaunchArgs :: "str list"
  EnvVars :: "(str, str) gomap"
  FilesToCreate :: "file_entry list"
  Dirs :: "str list"
  Prompt :: str
  PromptPosition :: str
  Sandbox :: sandbox_result
  Setup :: setup_result
  MCPEnabled :: bool
  Skills :: "str list"
  Knowledge :: "knowledge_mount list"
  RemoveArgs :: "str list"
  RemoveFiles :: "str list"
  RemoveEnvs :: "str list"
  RemoveSkills :: "str list"
  Mode :: str
  ModeArgs :: "(str, str list) gomap"

definition empty_result :: build_result where
  "empty_result = \<lparr>LaunchCommand = [], Executable = [], LaunchArgs = [], EnvVars = [],
     FilesToCreate = [], Dirs = [], Prompt = [], PromptPosition = [],
     Sandbox = \<lparr>RepoURL = [], Branch = [], CredentialType = []\<rparr>,
     Setup = \<lparr>Script = [], Timeout = 0\<rparr>, MCPEnabled = False, Skills = [], Knowledge = [],
     RemoveArgs = [], RemoveFiles = [], RemoveEnvs = [], RemoveSkills = [], Mode = [], ModeArgs = []\<rparr>"

type_synonym visit_order = "nat \<Rightarrow> variables \<Rightarrow> variables"

record eval_context =
  Variables :: variables
  EnvBundles :: "(str, (str, str) gomap) gomap"
  ConfigBundles :: "(str, val) gomap"
  Result :: build_result
  Builtins :: builtins
  range_order :: visit_order      \<comment> \<open>how the n-th range over a map visits it\<close>
  ranges_done :: nat

definition RegisterBuiltins :: "eval_context \<Rightarrow> eval_context" where
  "RegisterBuiltins ctx = ctx\<lparr>Builtins := registered_builtins (Builtins ctx)\<rparr>"

definition NewContext :: "visit_order \<Rightarrow> variables \<Rightarrow> eval_context" where
  "NewContext ord vars = RegisterBuiltins
     \<lparr>Variables = vars, EnvBundles = [], ConfigBundles = [], Result = empty_result,
      Builtins = \<lambda>_. None, range_order = ord, ranges_done = 0\<rparr>"

definition ctx_get :: "eval_context \<Rightarrow> str \<Rightarrow> val option" where
  "ctx_get ctx name = gm_get (Variables ctx) name"

definition ctx_set :: "str \<Rightarrow> val \<Rightarrow> eval_context \<Rightarrow> eval_context" where
  "ctx_set name v ctx = ctx\<lparr>Variables := gm_set name v (Variables ctx)\<rparr>"

definition upd_result :: "(build_result \<Rightarrow> build_result) \<Rightarrow> eval_context \<Rightarrow> eval_context" where
  "upd_result f ctx = ctx\<lparr>Result := f (Result ctx)\<rparr>"

subsection \<open>Expressions (eval\_expr.go)\<close>

text \<open>A computation that stops at the first error.\<close>

definition bind_val :: "('e + 'a) \<Rightarrow> ('a \<Rightarrow> 'e + 'b) \<Rightarrow> 'e + 'b" where
  "bind_val r f = (case r of Inl e \<Rightarrow> Inl e | Inr v \<Rightarrow> f v)"

lemma bind_val_simps [simp]: "bind_val (Inl e) f = Inl e" "bind_val (Inr v) f = f v"
  by (simp_all add: bind_val_def)

lemma bind_val_cong [fundef_cong]:
  "r = r' \<Longrightarrow> (\<And>v. r' = Inr v \<Longrightarrow> f v = g v) \<Longrightarrow> bind_val r f = bind_val r' g"
  by (simp add: bind_val_def split: sum.split)

fun map_val :: "('a \<Rightarrow> 'e + 'b) \<Rightarrow> 'a list \<Rightarrow> 'e + 'b list" where
  "map_val f [] = Inr []"
| "map_val f (x # xs) = bind_val (f x) (\<lambda>v. bind_val (map_val f xs) (\<lambda>vs. Inr (v # vs)))"

lemma map_val_cong [fundef_cong]:
  "xs = ys \<Longrightarrow> (\<And>x. x \<in> set ys \<Longrightarrow> f x = g x) \<Longrightarrow> map_val f xs = map_val g ys"
  by (induction xs arbitrary: ys) auto

definition eval_dot :: "val \<Rightarrow> str \<Rightarrow> val" where
  "eval_dot left field = (if left = VNil then VNil else case GetNested left field of Some v \<Rightarrow> v | None \<Rightarrow> VNil)"

definition eval_strict_op :: "str \<Rightarrow> val \<Rightarrow> val \<Rightarrow> eval_error + val" where
  "eval_strict_op op left right =
     (if op = ''+'' then Inr (VStr (toString left @ toString right))
      else if op = ''=='' then Inr (VBool (isEqual left right))
      else if op = ''!='' then Inr (VBool (\<not> isEqual left right))
      else Inl (UnknownOperator op))"

definition eval_not :: "str \<Rightarrow> val \<Rightarrow> eval_error + val" where
  "eval_not op v = (if op = ''not'' then Inr (VBool (\<not> isTruthy v)) else Inl (UnknownUnary op))"

fun evalExpr :: "eval_context \<Rightarrow> expr \<Rightarrow> eval_error + val" where
  "evalExpr ctx (StringLit s) = Inr (VStr (interpolate (Variables ctx) s))"
| "evalExpr ctx (NumberLit s) = Inr (case parse_float s of Some f \<Rightarrow> VFloat f | None \<Rightarrow> VStr s)"
| "evalExpr ctx (BoolLit b) = Inr (VBool b)"
| "evalExpr ctx (HeredocLit s) = Inr (VStr (interpolate (Variables ctx) s))"
| "evalExpr ctx (Ident name) = Inr (case ctx_get ctx name of Some v \<Rightarrow> v | None \<Rightarrow> VNil)"
| "evalExpr ctx (DotExpr l field) = bind_val (evalExpr ctx l) (\<lambda>v. Inr (eval_dot v field))"
| "evalExpr ctx (BinaryExpr l op r) = bind_val (evalExpr ctx l) (\<lambda>left.
     if op = ''and'' then
       (if \<not> isTruthy left then Inr (VBool False)
        else bind_val (evalExpr ctx r) (\<lambda>right. Inr (VBool (isTruthy right))))
     else if op = ''or'' then
       (if isTruthy left then Inr (VBool True)
        else bind_val (evalExpr ctx r) (\<lambda>right. Inr (VBool (isTruthy right))))
     else bind_val (evalExpr ctx r) (eval_strict_op op left))"
| "evalExpr ctx (UnaryExpr op x) = bind_val (evalExpr ctx x) (eval_not op)"
| "evalExpr ctx (CallExpr fn args) = (case Builtins ctx fn of
       None \<Rightarrow> Inl (UndefinedFunction fn)
     | Some f \<Rightarrow> bind_val (map_val (evalExpr ctx) args) f)"
| "evalExpr ctx (ObjectLit fs) =
     bind_val (map_val (\<lambda>(k, x). bind_val (evalExpr ctx x) (\<lambda>v. Inr (k, v))) fs)
       (\<lambda>kvs. Inr (VMap (gm_set_all [] kvs)))"
| "evalExpr ctx (ListLit xs) = bind_val (map_val (evalExpr ctx) xs) (\<lambda>vs. Inr (VList vs))"

subsection \<open>Declarations (eval\_decl.go)\<close>

text \<open>What a step returns: the context, changed up to the error if there is one.\<close>

type_synonym outcome = "eval_context \<times> eval_error option"

definition eval_then :: "eval_error + 'a \<Rightarrow> eval_context \<Rightarrow> ('a \<Rightarrow> outcome) \<Rightarrow> outcome" where
  "eval_then r ctx f = (case r of Inl e \<Rightarrow> (ctx, Some e) | Inr v \<Rightarrow> f v)"

definition ok :: "eval_context \<Rightarrow> outcome" where
  "ok ctx = (ctx, None)"

text \<open>The guard \<open>when cond\<close> of a declaration or a statement.\<close>

definition when_holds :: "eval_context \<Rightarrow> expr option \<Rightarrow> eval_error + bool" where
  "when_holds ctx w = (case w of
       None \<Rightarrow> Inr True
     | Some c \<Rightarrow> bind_val (evalExpr ctx c) (\<lambda>v. Inr (isTruthy v)))"

definition set_env :: "str \<Rightarrow> str \<Rightarrow> eval_context \<Rightarrow> eval_context" where
  "set_env k v = upd_result (\<lambda>r. r\<lparr>EnvVars := gm_set k v (EnvVars r)\<rparr>)"

definition evalEnvDecl :: "eval_context \<Rightarrow> str \<Rightarrow> str \<Rightarrow> expr option \<Rightarrow> expr option \<Rightarrow> outcome" where
  "evalEnvDecl ctx name value ve w = (case ve of
       Some e \<Rightarrow> eval_then (when_holds ctx w) ctx (\<lambda>holds.
         if \<not> holds then ok ctx
         else eval_then (evalExpr ctx e) ctx (\<lambda>v. ok (set_env name (toString v) ctx)))
     | None \<Rightarrow> ok (if value \<noteq> [] then set_env name value ctx else ctx))"

definition as_map :: "val option \<Rightarrow> variables" where
  "as_map v = (case v of Some (VMap m) \<Rightarrow> m | _ \<Rightarrow> [])"

definition shallowMerge :: "variables \<Rightarrow> variables \<Rightarrow> variables" where
  "shallowMerge a b = gm_set_all (gm_set_all [] a) b"

definition mcp_servers :: "variables \<Rightarrow> str \<Rightarrow> variables" where
  "mcp_servers mp format =
     (let servers = shallowMerge (as_map (gm_get mp ''builtin'')) (as_map (gm_get mp ''installed''))
      in if format \<noteq> [] then
           (case builtinMCPTransform [VMap servers, VStr format] of
              Inr (VMap m) \<Rightarrow> m | _ \<Rightarrow> servers)
         else servers)"

text \<open>The update in place of the map in the variable \<open>mcp\<close>.\<close>

definition evalMcpDecl :: "eval_context \<Rightarrow> bool \<Rightarrow> str \<Rightarrow> eval_context" where
  "evalMcpDecl ctx enabled format =
     (let ctx1 = upd_result (\<lambda>r. r\<lparr>MCPEnabled := enabled\<rparr>) ctx
      in case ctx_get ctx1 ''mcp'' of
           Some (VMap mp) \<Rightarrow>
             (let mp1 = gm_set ''enabled'' (VBool enabled) mp;
                  mp2 = (if enabled then gm_set ''servers'' (VMap (mcp_servers mp1 format)) mp1 else mp1)
              in ctx_set ''mcp'' (VMap mp2) ctx1)
         | _ \<Rightarrow> ctx1)"

definition evalConfigDecl :: "eval_context \<Rightarrow> str \<Rightarrow> val \<Rightarrow> eval_context" where
  "evalConfigDecl ctx name dflt =
     (if dflt = VNil then ctx
      else ctx_set ''config'' (VMap (gm_set name dflt (as_map (ctx_get ctx ''config'')))) ctx)"

definition evalRemoveDecl :: "eval_context \<Rightarrow> str \<Rightarrow> str \<Rightarrow> eval_context" where
  "evalRemoveDecl ctx target name =
     (if target = ''ENV'' then upd_result (\<lambda>r. r\<lparr>RemoveEnvs := RemoveEnvs r @ [name]\<rparr>) ctx
      else if target = ''SKILLS'' then upd_result (\<lambda>r. r\<lparr>RemoveSkills := RemoveSkills r @ [name]\<rparr>) ctx
      else if target = ''CONFIG'' then ctx
      else if target = ''arg'' then upd_result (\<lambda>r. r\<lparr>RemoveArgs := RemoveArgs r @ [name]\<rparr>) ctx
      else if target = ''file'' then upd_result (\<lambda>r. r\<lparr>RemoveFiles := RemoveFiles r @ [name]\<rparr>) ctx
      else ctx)"

definition evalUseEnvBundleDecl :: "eval_context \<Rightarrow> str \<Rightarrow> eval_context" where
  "evalUseEnvBundleDecl ctx name = (case gm_get (EnvBundles ctx) name of
       None \<Rightarrow> ctx
     | Some bundle \<Rightarrow> upd_result (\<lambda>r. r\<lparr>EnvVars := gm_set_all (EnvVars r) bundle\<rparr>) ctx)"

definition evalUseConfigBundleDecl :: "eval_context \<Rightarrow> str \<Rightarrow> eval_context" where
  "evalUseConfigBundleDecl ctx name = (case gm_get (ConfigBundles ctx) name of
       None \<Rightarrow> ctx
     | Some doc \<Rightarrow>
         (let ctx1 = ctx_set ''config_json'' doc ctx;
              mp = as_map (ctx_get ctx1 ''config_bundle'')
          in ctx_set ''config_bundle'' (VMap (gm_set name doc mp)) ctx1))"

definition mount_result :: "mount_ref \<Rightarrow> knowledge_mount" where
  "mount_result m = \<lparr>knowledge_slug = mount_slug m, knowledge_mode = mount_mode m\<rparr>"

fun evalDecl :: "eval_context \<Rightarrow> decl \<Rightarrow> outcome" where
  "evalDecl ctx (AgentDecl command _) = ok (upd_result (\<lambda>r. r\<lparr>LaunchCommand := command\<rparr>) ctx)"
| "evalDecl ctx (ExecutableDecl name _) = ok (upd_result (\<lambda>r. r\<lparr>Executable := name\<rparr>) ctx)"
| "evalDecl ctx (EnvDecl name _ value ve w _ _) = evalEnvDecl ctx name value ve w"
| "evalDecl ctx (RepoDecl e _) = eval_then (evalExpr ctx e) ctx
     (\<lambda>v. ok (upd_result (\<lambda>r. r\<lparr>Sandbox := (Sandbox r)\<lparr>RepoURL := toString v\<rparr>\<rparr>) ctx))"
| "evalDecl ctx (BranchDecl e _) = eval_then (evalExpr ctx e) ctx
     (\<lambda>v. ok (upd_result (\<lambda>r. r\<lparr>Sandbox := (Sandbox r)\<lparr>Branch := toString v\<rparr>\<rparr>) ctx))"
| "evalDecl ctx (GitCredentialDecl t _) =
     ok (upd_result (\<lambda>r. r\<lparr>Sandbox := (Sandbox r)\<lparr>CredentialType := t\<rparr>\<rparr>) ctx)"
| "evalDecl ctx (McpDecl enabled format _) = ok (evalMcpDecl ctx enabled format)"
| "evalDecl ctx (SkillsDecl slugs _) = ok (upd_result (\<lambda>r. r\<lparr>Skills := Skills r @ slugs\<rparr>) ctx)"
| "evalDecl ctx (KnowledgeDecl mounts _) =
     ok (upd_result (\<lambda>r. r\<lparr>Knowledge := Knowledge r @ map mount_result mounts\<rparr>) ctx)"
| "evalDecl ctx (SetupDecl script timeout _) =
     ok (upd_result (\<lambda>r. r\<lparr>Setup := \<lparr>Script = script, Timeout = timeout\<rparr>\<rparr>) ctx)"
| "evalDecl ctx (ConfigDecl name _ _ dflt _) = ok (evalConfigDecl ctx name dflt)"
| "evalDecl ctx (RemoveDecl target name _) = ok (evalRemoveDecl ctx target name)"
| "evalDecl ctx (ModeDecl mode _) =
     ok (ctx_set ''mode'' (VStr mode) (upd_result (\<lambda>r. r\<lparr>Mode := mode\<rparr>) ctx))"
| "evalDecl ctx (ModeArgsDecl mode args _) =
     ok (upd_result (\<lambda>r. r\<lparr>ModeArgs := gm_set mode args (ModeArgs r)\<rparr>) ctx)"
| "evalDecl ctx (UseEnvBundleDecl name _) = ok (evalUseEnvBundleDecl ctx name)"
| "evalDecl ctx (UseConfigBundleDecl name _) = ok (evalUseConfigBundleDecl ctx name)"
| "evalDecl ctx (PromptDecl content _) = ok (upd_result (\<lambda>r. r\<lparr>Prompt := content\<rparr>) ctx)"
| "evalDecl ctx (PromptPositionDecl mode _) = ok (upd_result (\<lambda>r. r\<lparr>PromptPosition := mode\<rparr>) ctx)"
| "evalDecl ctx (CapabilityDecl _ _ _) = ok ctx"

subsection \<open>Statements (evaluator.go, evaluator\_helpers.go)\<close>

text \<open>The steps of a list in order, up to the first error.\<close>

fun run_all :: "('a \<Rightarrow> eval_context \<Rightarrow> outcome) \<Rightarrow> 'a list \<Rightarrow> eval_context \<Rightarrow> outcome" where
  "run_all f [] ctx = ok ctx"
| "run_all f (x # xs) ctx = (case f x ctx of
       (ctx1, None) \<Rightarrow> run_all f xs ctx1
     | (ctx1, Some e) \<Rightarrow> (ctx1, Some e))"

lemma run_all_cong [fundef_cong]:
  assumes "xs = ys" "ctx = ctx'" "\<And>x c. x \<in> set ys \<Longrightarrow> f x c = g x c"
  shows "run_all f xs ctx = run_all g ys ctx'"
proof -
  have "run_all f ys c = run_all g ys c" for c
    using assms(3) by (induction ys arbitrary: c) (auto split: prod.split option.split)
  with assms(1,2) show ?thesis by simp
qed

definition emit_arg :: "val \<Rightarrow> eval_context \<Rightarrow> eval_context" where
  "emit_arg v = upd_result (\<lambda>r. r\<lparr>LaunchArgs := LaunchArgs r @ [toString v]\<rparr>)"

definition evalArgStmt :: "eval_context \<Rightarrow> expr list \<Rightarrow> expr option \<Rightarrow> outcome" where
  "evalArgStmt ctx args w = eval_then (when_holds ctx w) ctx (\<lambda>holds.
     if \<not> holds then ok ctx
     else run_all (\<lambda>a c. eval_then (evalExpr c a) c (\<lambda>v. ok (emit_arg v c))) args ctx)"

definition evalFileStmt :: "eval_context \<Rightarrow> expr \<Rightarrow> expr \<Rightarrow> int \<Rightarrow> expr option \<Rightarrow> outcome" where
  "evalFileStmt ctx path content mode w = eval_then (when_holds ctx w) ctx (\<lambda>holds.
     if \<not> holds then ok ctx
     else eval_then (evalExpr ctx path) ctx (\<lambda>p.
          eval_then (evalExpr ctx content) ctx (\<lambda>c.
            ok (upd_result (\<lambda>r. r\<lparr>FilesToCreate := FilesToCreate r @
                  [\<lparr>file_path = toString p, file_content = toString c, file_mode = mode\<rparr>]\<rparr>) ctx))))"

definition evalMkdirStmt :: "eval_context \<Rightarrow> expr \<Rightarrow> outcome" where
  "evalMkdirStmt ctx path = eval_then (evalExpr ctx path) ctx
     (\<lambda>p. ok (upd_result (\<lambda>r. r\<lparr>Dirs := Dirs r @ [toString p]\<rparr>) ctx))"

definition evalAssignStmt :: "eval_context \<Rightarrow> str \<Rightarrow> expr \<Rightarrow> outcome" where
  "evalAssignStmt ctx name e = eval_then (evalExpr ctx e) ctx (\<lambda>v. ok (ctx_set name v ctx))"

definition maxForIterations :: nat where
  "maxForIterations = 10000"

text \<open>The entries a \<open>for\<close> statement visits, as pairs of a key and a value, and whether the
  value is a map: a list is visited in order, a map in the order of the run.\<close>

definition for_entries :: "eval_context \<Rightarrow> val \<Rightarrow> eval_error + (val \<times> val) list" where
  "for_entries ctx iter = (case iter of
       VMap m \<Rightarrow>
         if length m > maxForIterations then Inl (ForMapLimit (length m))
         else Inr (map (\<lambda>(k, v). (VStr k, v)) (range_order ctx (ranges_done ctx) m))
     | VList xs \<Rightarrow>
         if length xs > maxForIterations then Inl (ForListLimit (length xs))
         else Inr (map (\<lambda>(i, v). (VFloat (f64_of_int (int i)), v)) (enumerate 0 xs))
     | _ \<Rightarrow> Inl ForNotIterable)"

definition count_range :: "val \<Rightarrow> eval_context \<Rightarrow> eval_context" where
  "count_range iter ctx = (case iter of VMap _ \<Rightarrow> ctx\<lparr>ranges_done := Suc (ranges_done ctx)\<rparr> | _ \<Rightarrow> ctx)"

text \<open>The loop variables: with two names the key and the value; with one the key of a map or
  the element of a list.\<close>

definition bind_entry :: "val \<Rightarrow> str \<Rightarrow> str \<Rightarrow> val \<times> val \<Rightarrow> eval_context \<Rightarrow> eval_context" where
  "bind_entry iter key value kv ctx =
     (if value \<noteq> [] then ctx_set value (snd kv) (ctx_set key (fst kv) ctx)
      else ctx_set key (case iter of VMap _ \<Rightarrow> fst kv | _ \<Rightarrow> snd kv) ctx)"

fun evalStmt :: "stmt \<Rightarrow> eval_context \<Rightarrow> outcome" where
  "evalStmt (ArgStmt args w _) ctx = evalArgStmt ctx args w"
| "evalStmt (FileStmt path content mode w _) ctx = evalFileStmt ctx path content mode w"
| "evalStmt (MkdirStmt path _) ctx = evalMkdirStmt ctx path"
| "evalStmt (AssignStmt name e _) ctx = evalAssignStmt ctx name e"
| "evalStmt (IfStmt c body els _) ctx = eval_then (evalExpr ctx c) ctx (\<lambda>v.
     if isTruthy v then run_all evalStmt body ctx
     else (case els of None \<Rightarrow> ok ctx | Some stmts \<Rightarrow> run_all evalStmt stmts ctx))"
| "evalStmt (ForStmt key value iter body _) ctx = eval_then (evalExpr ctx iter) ctx (\<lambda>v.
     eval_then (for_entries ctx v) ctx (\<lambda>kvs.
       run_all (\<lambda>kv c. run_all evalStmt body (bind_entry v key value kv c)) kvs (count_range v ctx)))"

definition evalBlock :: "eval_context \<Rightarrow> stmt list \<Rightarrow> outcome" where
  "evalBlock ctx stmts = run_all evalStmt stmts ctx"

subsection \<open>The program\<close>

definition at_line :: "nat \<Rightarrow> outcome \<Rightarrow> outcome" where
  "at_line n r = (fst r, map_option (AtLine n) (snd r))"

definition Eval :: "program \<Rightarrow> eval_context \<Rightarrow> outcome" where
  "Eval prog ctx =
     (case run_all (\<lambda>d c. at_line (fst (decl_pos d)) (evalDecl c d)) (Declarations prog) ctx of
        (ctx1, Some e) \<Rightarrow> (ctx1, Some e)
      | (ctx1, None) \<Rightarrow> run_all (\<lambda>s c. at_line (fst (stmt_pos s)) (evalStmt s c)) (Statements prog) ctx1)"

definition ApplyModeArgs :: "build_result \<Rightarrow> build_result" where
  "ApplyModeArgs r =
     (if Mode r = [] then r
      else case gm_get (ModeArgs r) (Mode r) of
             Some args \<Rightarrow> if args \<noteq> [] then r\<lparr>LaunchArgs := args @ LaunchArgs r\<rparr> else r
           | None \<Rightarrow> r)"

subsection \<open>Removals (apply\_removes.go)\<close>

text \<open>A removed flag takes the argument after it along, unless that is a flag too.\<close>

definition takes_value :: "str \<Rightarrow> str \<Rightarrow> bool" where
  "takes_value flag next \<longleftrightarrow> byte_len flag > 1 \<and> hd flag = CHR ''-'' \<and> (next = [] \<or> hd next \<noteq> CHR ''-'')"

fun removeFromSlice :: "str list \<Rightarrow> str list \<Rightarrow> str list" where
  "removeFromSlice removes [] = []"
| "removeFromSlice removes [a] = (if a \<in> set removes then [] else [a])"
| "removeFromSlice removes (a # b # args) =
     (if a \<in> set removes then
        (if takes_value a b then removeFromSlice removes args else removeFromSlice removes (b # args))
      else a # removeFromSlice removes (b # args))"

definition ApplyRemoves :: "build_result \<Rightarrow> build_result" where
  "ApplyRemoves r =
     (let r1 = (if RemoveArgs r \<noteq> [] then r\<lparr>LaunchArgs := removeFromSlice (RemoveArgs r) (LaunchArgs r)\<rparr> else r);
          r2 = (if RemoveFiles r1 \<noteq> [] then
                  r1\<lparr>FilesToCreate := filter (\<lambda>f. file_path f \<notin> set (RemoveFiles r1)) (FilesToCreate r1),
                     Dirs := filter (\<lambda>d. d \<notin> set (RemoveFiles r1)) (Dirs r1)\<rparr>
                else r1);
          r3 = (if RemoveEnvs r2 \<noteq> [] then r2\<lparr>EnvVars := fold gm_del (RemoveEnvs r2) (EnvVars r2)\<rparr> else r2)
      in if RemoveSkills r3 \<noteq> [] then r3\<lparr>Skills := filter (\<lambda>s. s \<notin> set (RemoveSkills r3)) (Skills r3)\<rparr> else r3)"

end
