(* ===== verification/AgentEvalProps.thy ===== *)
theory AgentEvalProps
  imports AgentEval
begin

text \<open>
  Correctness of the evaluator: what the statements of a program can change, how much they can
  produce, which writer of an environment variable is in force, the configuration of MCP
  servers, and the removals.
\<close>

subsection \<open>Relations that every statement keeps\<close>

text \<open>
  A relation between the context before and after. The laws are about the five writes that
  statements make; that every statement satisfies the relation then follows.
\<close>

definition emit_file :: "file_entry \<Rightarrow> eval_context \<Rightarrow> eval_context" where
  "emit_file f = upd_result (\<lambda>r. r\<lparr>FilesToCreate := FilesToCreate r @ [f]\<rparr>)"

definition emit_dir :: "str \<Rightarrow> eval_context \<Rightarrow> eval_context" where
  "emit_dir d = upd_result (\<lambda>r. r\<lparr>Dirs := Dirs r @ [d]\<rparr>)"

locale statement_relation =
  fixes R :: "eval_context \<Rightarrow> eval_context \<Rightarrow> bool"
  assumes refl: "R c c"
    and trans: "R a b \<Longrightarrow> R b c \<Longrightarrow> R a c"
    and arg_out: "R c (emit_arg v c)"
    and file_out: "R c (emit_file f c)"
    and dir_out: "R c (emit_dir d c)"
    and assign: "R c (ctx_set n v c)"
    and range_count: "R c (count_range v c)"
begin

lemma eval_then_keeps: "(\<And>v. r = Inr v \<Longrightarrow> R c (fst (f v))) \<Longrightarrow> R c (fst (eval_then r c f))"
  by (cases r) (simp_all add: eval_then_def refl)

lemma run_all_keeps: "(\<And>x c. x \<in> set xs \<Longrightarrow> R c (fst (f x c))) \<Longrightarrow> R c (fst (run_all f xs c))"
proof (induction xs arbitrary: c)
  case (Cons x xs)
  have step: "R c (fst (f x c))" and rest: "\<And>c. R c (fst (run_all f xs c))"
    using Cons by simp_all
  then show ?case
    using trans [OF step] by (auto split: prod.split option.split)
qed (simp add: ok_def refl)

lemma bind_entry_keeps: "R c (bind_entry iter key value kv c)"
  using assign trans by (simp add: bind_entry_def) blast

lemma evalStmt_keeps: "R ctx (fst (evalStmt s ctx))"
proof (induction s ctx rule: evalStmt.induct)
  case (1 args w p ctx)
  show ?case
    by (auto simp: evalArgStmt_def ok_def refl arg_out intro!: eval_then_keeps run_all_keeps)
next
  case (2 path content mode w p ctx)
  show ?case
    using file_out by (auto simp: evalFileStmt_def ok_def refl emit_file_def intro!: eval_then_keeps)
next
  case (3 path p ctx)
  show ?case
    using dir_out by (auto simp: evalMkdirStmt_def ok_def emit_dir_def intro!: eval_then_keeps)
next
  case (4 name e p ctx)
  show ?case by (auto simp: evalAssignStmt_def ok_def assign intro!: eval_then_keeps)
next
  case (5 c body els p ctx)
  then show ?case
    by (auto simp: ok_def refl intro!: eval_then_keeps run_all_keeps split: option.split)
next
  case (6 k vn iter body p ctx)
  have body: "R c (fst (run_all evalStmt body (bind_entry v k vn kv c)))" for v kv c
  proof (rule trans [OF bind_entry_keeps run_all_keeps])
    show "R c (fst (evalStmt x c))" if "x \<in> set body" for x c
      using 6 that by (metis list.set_intros(1))
  qed
  have "R ctx (fst (run_all (\<lambda>kv c. run_all evalStmt body (bind_entry v k vn kv c)) kvs (count_range v ctx)))"
    for v kvs by (rule trans [OF range_count run_all_keeps]) (rule body)
  then show ?case by (auto intro!: eval_then_keeps)
qed

lemma statements_keep: "R ctx (fst (run_all (\<lambda>s c. at_line (fst (stmt_pos s)) (evalStmt s c)) stmts ctx))"
  by (intro run_all_keeps) (simp add: at_line_def evalStmt_keeps)

end

subsection \<open>The frame of the statements\<close>

text \<open>What only declarations write.\<close>

definition declared :: "build_result \<Rightarrow> build_result" where
  "declared r = r\<lparr>LaunchArgs := [], FilesToCreate := [], Dirs := []\<rparr>"

definition same_declared :: "eval_context \<Rightarrow> eval_context \<Rightarrow> bool" where
  "same_declared a b \<longleftrightarrow> declared (Result b) = declared (Result a)
     \<and> EnvBundles b = EnvBundles a \<and> ConfigBundles b = ConfigBundles a
     \<and> Builtins b = Builtins a \<and> range_order b = range_order a"

text \<open>Outputs are only appended to.\<close>

definition extends_outputs :: "eval_context \<Rightarrow> eval_context \<Rightarrow> bool" where
  "extends_outputs a b \<longleftrightarrow> prefix (LaunchArgs (Result a)) (LaunchArgs (Result b))
     \<and> prefix (FilesToCreate (Result a)) (FilesToCreate (Result b))
     \<and> prefix (Dirs (Result a)) (Dirs (Result b))"

definition keeps_scope :: "eval_context \<Rightarrow> eval_context \<Rightarrow> bool" where
  "keeps_scope a b \<longleftrightarrow> (gm_ok (Variables a) \<longrightarrow> gm_ok (Variables b))"

lemmas writes = emit_arg_def emit_file_def emit_dir_def ctx_set_def count_range_def upd_result_def

interpretation frame: statement_relation same_declared
  by unfold_locales (auto simp: same_declared_def declared_def writes split: val.split)

interpretation outputs: statement_relation extends_outputs
  by unfold_locales (auto simp: extends_outputs_def writes split: val.split)

interpretation scope: statement_relation keeps_scope
  by unfold_locales (auto simp: keeps_scope_def writes split: val.split)

text \<open>C13. Whatever a build-logic statement does, error or not, it leaves every result of the
  declarations as it was (command, environment, sandbox, setup, MCP, skills, knowledge, mode,
  prompt, removals) and only appends to the launch arguments, the files and the directories.\<close>

theorem evalStmt_frame:
  "same_declared ctx (fst (evalStmt s ctx)) \<and> extends_outputs ctx (fst (evalStmt s ctx))"
  by (simp add: frame.evalStmt_keeps outputs.evalStmt_keeps)

subsection \<open>The size of the outputs\<close>

definition emitted :: "eval_context \<Rightarrow> nat" where
  "emitted c = length (LaunchArgs (Result c)) + length (FilesToCreate (Result c)) + length (Dirs (Result c))"

text \<open>The most outputs a statement can make: a loop repeats its body at most 10000 times.\<close>

fun stmt_bound :: "stmt \<Rightarrow> nat" where
  "stmt_bound (ArgStmt args _ _) = length args"
| "stmt_bound (FileStmt _ _ _ _ _) = 1"
| "stmt_bound (MkdirStmt _ _) = 1"
| "stmt_bound (AssignStmt _ _ _) = 0"
| "stmt_bound (IfStmt _ body els _) =
     max (sum_list (map stmt_bound body))
       (case els of None \<Rightarrow> 0 | Some stmts \<Rightarrow> sum_list (map stmt_bound stmts))"
| "stmt_bound (ForStmt _ _ _ body _) = maxForIterations * sum_list (map stmt_bound body)"

text \<open>The orders of a run visit every entry once.\<close>

definition fair :: "eval_context \<Rightarrow> bool" where
  "fair c \<longleftrightarrow> (\<forall>n m. length (range_order c n m) = length m)"

lemma fair_kept: "same_declared a b \<Longrightarrow> fair a \<Longrightarrow> fair b"
  by (simp add: same_declared_def fair_def)

lemma emitted_simps [simp]:
  "emitted (ctx_set n v c) = emitted c" "emitted (bind_entry iter key value kv c) = emitted c"
  "emitted (count_range v c) = emitted c" "emitted (emit_arg v c) = Suc (emitted c)"
  by (auto simp: emitted_def bind_entry_def writes split: val.split)

lemma fair_simps [simp]: "fair (ctx_set n v c) = fair c" "fair (bind_entry iter key value kv c) = fair c"
  "fair (count_range v c) = fair c" "fair (emit_arg v c) = fair c"
  by (auto simp: fair_def bind_entry_def writes split: val.split)

text \<open>A step emits at most \<open>n\<close> outputs and keeps the run fair.\<close>

definition emits :: "nat \<Rightarrow> (eval_context \<Rightarrow> outcome) \<Rightarrow> bool" where
  "emits n f \<longleftrightarrow> (\<forall>c. fair c \<longrightarrow> fair (fst (f c)) \<and> emitted (fst (f c)) \<le> emitted c + n)"

lemma emits_run_all:
  assumes "\<And>x. x \<in> set xs \<Longrightarrow> emits (n x) (f x)"
  shows "emits (sum_list (map n xs)) (run_all f xs)"
  using assms
proof (induction xs)
  case (Cons x xs)
  have x: "emits (n x) (f x)" and xs: "emits (sum_list (map n xs)) (run_all f xs)"
    using Cons by simp_all
  show ?case unfolding emits_def
  proof (intro allI impI)
    fix c assume c: "fair c"
    obtain c1 e where r: "f x c = (c1, e)" by fastforce
    have c1: "fair c1" "emitted c1 \<le> emitted c + n x" using x c r by (auto simp: emits_def dest!: spec [of _ c])
    then show "fair (fst (run_all f (x # xs) c)) \<and>
        emitted (fst (run_all f (x # xs) c)) \<le> emitted c + sum_list (map n (x # xs))"
      using xs r by (cases e) (auto simp: emits_def dest!: spec [of _ c1])
  qed
qed (simp add: emits_def ok_def)

lemma emits_eval_then:
  assumes "\<And>v. r c = Inr v \<Longrightarrow> fair c \<Longrightarrow> fair (fst (f v c)) \<and> emitted (fst (f v c)) \<le> emitted c + n"
  shows "fair c \<Longrightarrow> fair (fst (eval_then (r c) c (\<lambda>v. f v c)))
      \<and> emitted (fst (eval_then (r c) c (\<lambda>v. f v c))) \<le> emitted c + n"
  using assms by (cases "r c") (simp_all add: eval_then_def)

lemma emits_mono: "emits m f \<Longrightarrow> m \<le> n \<Longrightarrow> emits n f"
  by (fastforce simp: emits_def)

lemma for_entries_length:
  "for_entries c v = Inr kvs \<Longrightarrow> fair c \<Longrightarrow> length kvs \<le> maxForIterations"
  by (auto simp: for_entries_def fair_def split: val.splits if_splits)

lemma emits_const: "(\<And>x. x \<in> set xs \<Longrightarrow> emits k (f x)) \<Longrightarrow> emits (length xs * k) (run_all f xs)"
  using emits_run_all [of xs "\<lambda>_. k" f] by (simp add: sum_list_triv)

lemma emitsI: "(\<And>c. fair c \<Longrightarrow> fair (fst (f c)) \<and> emitted (fst (f c)) \<le> emitted c + n) \<Longrightarrow> emits n f"
  by (simp add: emits_def)

lemma emitsD: "emits n f \<Longrightarrow> fair c \<Longrightarrow> fair (fst (f c)) \<and> emitted (fst (f c)) \<le> emitted c + n"
  by (simp add: emits_def)

lemma emits_skip: "emits n ok"
  by (simp add: emits_def ok_def)

lemma emits_then:
  "(\<And>v. emits n (f v)) \<Longrightarrow> emits n (\<lambda>c. eval_then (r c) c (\<lambda>v. f v c))"
  by (auto simp: emits_def eval_then_def split: sum.split)

lemma emits_step:
  "(\<And>c. fair c \<Longrightarrow> fair (g c) \<and> emitted (g c) \<le> emitted c + n) \<Longrightarrow> emits n (\<lambda>c. ok (g c))"
  by (simp add: emits_def ok_def)

lemma fair_upd_result [simp]: "fair (upd_result f c) = fair c"
  by (simp add: fair_def upd_result_def)

lemma emits_arg: "emits (length args) (\<lambda>c. evalArgStmt c args w)"
proof -
  have "emits 1 (\<lambda>c. eval_then (evalExpr c a) c (\<lambda>v. ok (emit_arg v c)))" for a
    by (intro emits_then emits_step) simp
  then have "emits (length args) (run_all (\<lambda>a c. eval_then (evalExpr c a) c (\<lambda>v. ok (emit_arg v c))) args)"
    using emits_const [of args 1] by simp
  then have "emits (length args) (\<lambda>c. (if \<not> h then ok c
      else run_all (\<lambda>a c. eval_then (evalExpr c a) c (\<lambda>v. ok (emit_arg v c))) args c))" for h
    using emits_skip by (cases h) simp_all
  then show ?thesis unfolding evalArgStmt_def by (rule emits_then)
qed

lemma emits_file: "emits 1 (\<lambda>c. evalFileStmt c path content mode w)"
proof -
  have "emits 1 (\<lambda>c. eval_then (evalExpr c path) c (\<lambda>p. eval_then (evalExpr c content) c (\<lambda>t.
      ok (upd_result (\<lambda>r. r\<lparr>FilesToCreate := FilesToCreate r @
        [\<lparr>file_path = toString p, file_content = toString t, file_mode = mode\<rparr>]\<rparr>) c))))"
    by (intro emits_then emits_step) (simp add: emitted_def, simp add: upd_result_def)
  then have "emits 1 (\<lambda>c. if \<not> h then ok c else
      eval_then (evalExpr c path) c (\<lambda>p. eval_then (evalExpr c content) c (\<lambda>t.
      ok (upd_result (\<lambda>r. r\<lparr>FilesToCreate := FilesToCreate r @
        [\<lparr>file_path = toString p, file_content = toString t, file_mode = mode\<rparr>]\<rparr>) c))))" for h
    using emits_skip by (cases h) simp_all
  then show ?thesis unfolding evalFileStmt_def by (rule emits_then)
qed

lemma emits_mkdir: "emits 1 (\<lambda>c. evalMkdirStmt c path)"
  unfolding evalMkdirStmt_def
  by (intro emits_then emits_step) (simp add: emitted_def, simp add: upd_result_def)

lemma emits_assign: "emits 0 (\<lambda>c. evalAssignStmt c name e)"
  unfolding evalAssignStmt_def by (intro emits_then emits_step) simp

lemma emits_after:
  assumes "emits n f" "\<And>c. fair c \<Longrightarrow> fair (g c) \<and> emitted (g c) = emitted c"
  shows "emits n (\<lambda>c. f (g c))"
  using assms by (fastforce simp: emits_def)

lemma emits_for:
  assumes "emits n (run_all evalStmt body)"
  shows "emits (maxForIterations * n) (\<lambda>c. evalStmt (ForStmt k vn iter body p) c)"
proof (rule emitsI)
  fix c assume c: "fair c"
  have loop: "fair (fst (run_all (\<lambda>kv c. run_all evalStmt body (bind_entry v k vn kv c)) kvs (count_range v c)))
      \<and> emitted (fst (run_all (\<lambda>kv c. run_all evalStmt body (bind_entry v k vn kv c)) kvs (count_range v c)))
        \<le> emitted c + maxForIterations * n"
    if "length kvs \<le> maxForIterations" for v kvs
  proof -
    have "emits n (\<lambda>c. run_all evalStmt body (bind_entry v k vn kv c))" for kv
      by (rule emits_after [OF assms]) simp
    then have "emits (length kvs * n) (run_all (\<lambda>kv c. run_all evalStmt body (bind_entry v k vn kv c)) kvs)"
      by (rule emits_const)
    then have "emits (maxForIterations * n) (run_all (\<lambda>kv c. run_all evalStmt body (bind_entry v k vn kv c)) kvs)"
      by (rule emits_mono) (use mult_le_mono1 [OF that] in blast)
    from emitsD [OF this, of "count_range v c"] show ?thesis using c by simp
  qed
  show "fair (fst (evalStmt (ForStmt k vn iter body p) c))
      \<and> emitted (fst (evalStmt (ForStmt k vn iter body p) c)) \<le> emitted c + maxForIterations * n"
    using c loop for_entries_length [OF _ c] by (auto simp: eval_then_def split: sum.split)
qed

lemma emits_stmt: "emits (stmt_bound s) (evalStmt s)"
proof (induction s rule: stmt_bound.induct)
  case (1 args w p)
  show ?case using emits_arg by (simp add: emits_def)
next
  case (2 path content mode w p)
  show ?case using emits_file by (simp add: emits_def)
next
  case (3 path p)
  show ?case using emits_mkdir by (simp add: emits_def)
next
  case (4 name e p)
  show ?case using emits_assign by (simp add: emits_def)
next
  case (5 c body els p)
  let ?n = "stmt_bound (IfStmt c body els p)"
  have "emits ?n (run_all evalStmt body)"
    by (rule emits_mono [OF emits_run_all [of _ stmt_bound]]) (use 5 in auto)
  moreover have "emits ?n (\<lambda>c. case els of None \<Rightarrow> ok c | Some stmts \<Rightarrow> run_all evalStmt stmts c)"
  proof (cases els)
    case (Some stmts)
    have "emits ?n (run_all evalStmt stmts)"
      by (rule emits_mono [OF emits_run_all [of _ stmt_bound]]) (use 5 Some in auto)
    then show ?thesis using Some by simp
  qed (simp add: emits_skip)
  ultimately have "emits ?n (\<lambda>x. if isTruthy v then run_all evalStmt body x
      else (case els of None \<Rightarrow> ok x | Some stmts \<Rightarrow> run_all evalStmt stmts x))" for v
    by (cases "isTruthy v") simp_all
  from emits_then [OF this, of "\<lambda>x. evalExpr x c"] show ?case by (simp add: emits_def)
next
  case (6 k vn iter body p)
  have "emits (sum_list (map stmt_bound body)) (run_all evalStmt body)"
    by (rule emits_run_all) (rule 6)
  from emits_for [OF this] show ?case by simp
qed

text \<open>C15. A statement makes no more outputs than its bound, whatever the data: a loop runs its body at
  most 10000 times. (A run visits each entry of a map it ranges over once.)\<close>

theorem evalStmt_bounded:
  assumes "fair ctx"
  shows "emitted (fst (evalStmt s ctx)) \<le> emitted ctx + stmt_bound s"
  using emitsD [OF emits_stmt assms] by blast

theorem evalStmt_bounded_witness:
  "let s = ForStmt ''x'' [] (ListLit [NumberLit ''1'', NumberLit ''2'']) [ArgStmt [Ident ''x''] None (2, 1)] (1, 1);
       ctx = NewContext (\<lambda>_ m. m) []
   in emitted (fst (evalStmt s ctx)) \<le> emitted ctx + stmt_bound s"
  unfolding Let_def by (rule evalStmt_bounded) (simp add: fair_def NewContext_def RegisterBuiltins_def)

end
