(* ===== verification/AgentEvalDecls.thy ===== *)
theory AgentEvalDecls
  imports AgentEvalProps
begin

text \<open>
  Correctness of the declarations of the evaluator and of the steps after it: which writer of an
  environment variable is in force, the MCP servers of a run, the CONFIG variables, the
  removals and the arguments of a mode; and that only loops over maps depend on the order in
  which Go visits a map.
\<close>

subsection \<open>Environment variables\<close>

text \<open>The value a declaration gives to a variable without evaluating an expression.\<close>

fun env_write :: "(str, (str, str) gomap) gomap \<Rightarrow> decl \<Rightarrow> str \<Rightarrow> str option" where
  "env_write bundles (EnvDecl name _ v None _ _ _) k = (if name = k \<and> v \<noteq> [] then Some v else None)"
| "env_write bundles (UseEnvBundleDecl name _) k = Option.bind (gm_get bundles name) (\<lambda>b. gm_get b k)"
| "env_write bundles _ k = None"

fun may_write_env :: "(str, (str, str) gomap) gomap \<Rightarrow> decl \<Rightarrow> str \<Rightarrow> bool" where
  "may_write_env bundles (EnvDecl name _ v None _ _ _) k = (name = k \<and> v \<noteq> [])"
| "may_write_env bundles (EnvDecl name _ _ (Some _) _ _ _) k = (name = k)"
| "may_write_env bundles (UseEnvBundleDecl name _) k = (Option.bind (gm_get bundles name) (\<lambda>b. gm_get b k) \<noteq> None)"
| "may_write_env bundles _ k = False"

definition bundles_ok :: "eval_context \<Rightarrow> bool" where
  "bundles_ok c \<longleftrightarrow> (\<forall>n b. gm_get (EnvBundles c) n = Some b \<longrightarrow> gm_ok b)"

definition env_of :: "eval_context \<Rightarrow> str \<Rightarrow> str option" where
  "env_of c k = gm_get (EnvVars (Result c)) k"

lemmas decl_steps = evalConfigDecl_def evalMcpDecl_def evalRemoveDecl_def evalUseConfigBundleDecl_def
  evalUseEnvBundleDecl_def evalEnvDecl_def set_env_def upd_result_def ctx_set_def ok_def eval_then_def Let_def

lemma evalDecl_bundles: "EnvBundles (fst (evalDecl c d)) = EnvBundles c"
  by (cases d) (auto simp: decl_steps split: sum.split option.split val.split)

lemma evalDecl_env_unwritten:
  assumes "bundles_ok c" "\<not> may_write_env (EnvBundles c) d k"
  shows "env_of (fst (evalDecl c d)) k = env_of c k"
proof (cases d)
  case (EnvDecl name source v ve w opt p)
  then show ?thesis
    using assms by (cases ve) (auto simp: decl_steps env_of_def gomap_simps split: sum.split)
next
  case (UseEnvBundleDecl name p)
  then show ?thesis
    using assms by (auto simp: decl_steps env_of_def bundles_ok_def gomap_simps split: option.split)
qed (auto simp: decl_steps env_of_def split: sum.split option.split val.split)

lemma evalDecl_env_written:
  assumes "bundles_ok c" "env_write (EnvBundles c) d k = Some v"
  shows "env_of (fst (evalDecl c d)) k = Some v"
  using assms by (cases "(EnvBundles c, d, k)" rule: env_write.cases)
    (auto simp: decl_steps env_of_def bundles_ok_def gomap_simps Option.bind_eq_Some_conv split: if_splits)

definition run_decls :: "decl list \<Rightarrow> eval_context \<Rightarrow> outcome" where
  "run_decls = run_all (\<lambda>d c. at_line (fst (decl_pos d)) (evalDecl c d))"

lemma run_decls_simps [simp]:
  "run_decls [] c = ok c"
  "run_decls (d # ds) c = (case evalDecl c d of
     (c1, None) \<Rightarrow> run_decls ds c1 | (c1, Some e) \<Rightarrow> (c1, Some (AtLine (fst (decl_pos d)) e)))"
  by (auto simp: run_decls_def at_line_def split: prod.split option.split)

lemma run_decls_bundles: "EnvBundles (fst (run_decls ds c)) = EnvBundles c"
proof (induction ds arbitrary: c)
  case (Cons d ds)
  then show ?case using evalDecl_bundles [of c d] by (auto split: prod.split option.split)
qed (simp add: ok_def)

lemma run_decls_append:
  "run_decls (ds @ es) c = (case run_decls ds c of
     (c1, None) \<Rightarrow> run_decls es c1 | (c1, Some e) \<Rightarrow> (c1, Some e))"
  by (induction ds arbitrary: c) (auto simp: ok_def split: prod.split option.split)

lemma run_decls_env_unwritten:
  assumes "bundles_ok c" "\<forall>d \<in> set ds. \<not> may_write_env (EnvBundles c) d k"
  shows "env_of (fst (run_decls ds c)) k = env_of c k"
  using assms
proof (induction ds arbitrary: c)
  case (Cons d ds)
  let ?c = "fst (evalDecl c d)"
  have b: "EnvBundles ?c = EnvBundles c" by (rule evalDecl_bundles)
  have "env_of (fst (run_decls ds ?c)) k = env_of ?c k"
    using Cons.IH [of ?c] Cons.prems by (simp add: bundles_ok_def b)
  moreover have "env_of ?c k = env_of c k"
    using Cons.prems by (intro evalDecl_env_unwritten) simp_all
  ultimately show ?case by (auto split: prod.split option.split)
qed (simp add: ok_def)

lemma Eval_run_decls:
  "Eval prog c = (case run_decls (Declarations prog) c of
     (c1, Some e) \<Rightarrow> (c1, Some e)
   | (c1, None) \<Rightarrow> run_all (\<lambda>s c. at_line (fst (stmt_pos s)) (evalStmt s c)) (Statements prog) c1)"
  by (simp add: Eval_def run_decls_def)

text \<open>When the evaluation of a program succeeds, the environment has for each variable the value
  of its last writer among the ENV and USE\_ENV\_BUNDLE declarations; the build logic does not change
  it.\<close>

theorem Eval_env_last_writer:
  assumes "Eval prog c = (c', None)" "bundles_ok c"
    and "Declarations prog = pre @ d # post"
    and "env_write (EnvBundles c) d k = Some v"
    and "\<forall>e \<in> set post. \<not> may_write_env (EnvBundles c) e k"
  shows "gm_get (EnvVars (Result c')) k = Some v"
proof -
  obtain c1 where c1: "run_decls (Declarations prog) c = (c1, None)"
    and stmts: "run_all (\<lambda>s c. at_line (fst (stmt_pos s)) (evalStmt s c)) (Statements prog) c1 = (c', None)"
    using assms(1) by (auto simp: Eval_run_decls split: prod.splits option.splits)
  obtain c2 where c2: "run_decls pre c = (c2, None)" and "run_decls (d # post) c2 = (c1, None)"
    using c1 assms(3) by (auto simp: run_decls_append split: prod.splits option.splits)
  then obtain c3 where c3: "evalDecl c2 d = (c3, None)" and post: "run_decls post c3 = (c1, None)"
    by (auto split: prod.splits option.splits)
  have b2: "EnvBundles c2 = EnvBundles c" using run_decls_bundles [of pre c] c2 by simp
  then have b3: "EnvBundles c3 = EnvBundles c" using evalDecl_bundles [of c2 d] c3 by simp
  have "env_of c3 k = Some v"
    using evalDecl_env_written [of c2 d k v] assms(2,4) c3 b2 by (simp add: bundles_ok_def)
  then have "env_of c1 k = Some v"
    using run_decls_env_unwritten [of c3 post k] assms(2,5) b3 post by (simp add: bundles_ok_def)
  moreover have "declared (Result c') = declared (Result c1)"
    using frame.statements_keep [of c1 "Statements prog"] stmts by (simp add: same_declared_def)
  then have "EnvVars (Result c') = EnvVars (Result c1)"
    by (metis declared_def build_result.select_convs(4) build_result.update_convs(3,5,6)
        build_result.surjective)
  ultimately show ?thesis by (simp add: env_of_def)
qed

theorem Eval_env_last_writer_witness:
  "let prog = \<lparr>Declarations = [EnvDecl ''A'' [] ''x'' None None False (1, 1), UseEnvBundleDecl ''b'' (2, 1),
                 EnvDecl ''B'' [] ''z'' None None False (3, 1)], Statements = [MkdirStmt (StringLit ''d'') (4, 1)]\<rparr>;
       c = (NewContext (\<lambda>_ m. m) [])\<lparr>EnvBundles := [(''b'', [(''A'', ''y'')])]\<rparr>
   in gm_get (EnvVars (Result (fst (Eval prog c)))) ''A'' = Some ''y''"
proof -
  let ?p = "\<lparr>Declarations = [EnvDecl ''A'' [] ''x'' None None False (1, 1), UseEnvBundleDecl ''b'' (2, 1),
      EnvDecl ''B'' [] ''z'' None None False (3, 1)], Statements = [MkdirStmt (StringLit ''d'') (4, 1)]\<rparr>"
  let ?c = "(NewContext (\<lambda>_ m. m) [])\<lparr>EnvBundles := [(''b'', [(''A'', ''y'')])]\<rparr>"
  have "snd (Eval ?p ?c) = None" by code_simp
  then have e: "Eval ?p ?c = (fst (Eval ?p ?c), None)" by (metis prod.collapse)
  have b: "bundles_ok ?c" by (auto simp: bundles_ok_def gm_get_def split: if_splits)
  show ?thesis unfolding Let_def
    by (rule Eval_env_last_writer [OF e b, where pre = "[EnvDecl ''A'' [] ''x'' None None False (1, 1)]"
          and d = "UseEnvBundleDecl ''b'' (2, 1)" and post = "[EnvDecl ''B'' [] ''z'' None None False (3, 1)]"])
      (simp_all add: gm_get_def)
qed

subsection \<open>MCP servers\<close>

lemma transformMCPServer_gemini:
  assumes "gm_ok srv"
  shows "gm_get (transformMCPServer srv ''gemini'') k =
    (if k = ''url'' \<or> k = ''type'' then None
     else if k = ''httpUrl'' \<and> gm_get srv ''url'' \<noteq> None then gm_get srv ''url''
     else gm_get srv k)"
  using assms by (auto simp: transformMCPServer_def Let_def gomap_simps split: option.split)

lemma transformMCPServer_opencode:
  assumes "gm_ok srv" "gm_get srv ''url'' = Some (VStr url)"
  shows "gm_get (transformMCPServer srv ''opencode'') k =
    (if k = ''url'' \<or> k = ''headers'' then None
     else if k = ''type'' then Some (VStr ''local'')
     else if k = ''command'' then Some (VList [VStr ''npx'', VStr ''-y'', VStr ''mcp-remote'', VStr url])
     else if k = ''enabled'' then Some (VBool True)
     else gm_get srv k)"
  using assms by (auto simp: transformMCPServer_def Let_def gomap_simps split: option.split)

lemma transformMCPServer_other:
  assumes "gm_ok srv" "format \<noteq> ''gemini''" "format \<noteq> ''opencode''"
  shows "transformMCPServer srv format = srv"
  using assms by (intro gm_ext) (simp_all add: transformMCPServer_def gomap_simps split: option.split)

text \<open>The format transformations of an MCP server: for Gemini the \<open>url\<close> moves to \<open>httpUrl\<close> and
  \<open>type\<close> goes; for OpenCode a server with a \<open>url\<close> becomes a local proxy command without \<open>url\<close> and
  \<open>headers\<close>; any other format leaves the server as it is. Other keys are kept.\<close>

theorem transformMCPServer_correct:
  assumes "gm_ok srv"
  shows "(format = ''gemini'' \<longrightarrow> gm_get (transformMCPServer srv format) k =
      (if k = ''url'' \<or> k = ''type'' then None
       else if k = ''httpUrl'' \<and> gm_get srv ''url'' \<noteq> None then gm_get srv ''url'' else gm_get srv k))
   \<and> (format = ''opencode'' \<longrightarrow> gm_get srv ''url'' = Some (VStr url) \<longrightarrow>
      gm_get (transformMCPServer srv format) k =
      (if k = ''url'' \<or> k = ''headers'' then None
       else if k = ''type'' then Some (VStr ''local'')
       else if k = ''command'' then Some (VList [VStr ''npx'', VStr ''-y'', VStr ''mcp-remote'', VStr url])
       else if k = ''enabled'' then Some (VBool True) else gm_get srv k))
   \<and> (format \<notin> {''gemini'', ''opencode''} \<longrightarrow> transformMCPServer srv format = srv)"
  using transformMCPServer_gemini [OF assms] transformMCPServer_opencode [OF assms]
    transformMCPServer_other [OF assms] by simp

theorem transformMCPServer_correct_witness:
  "gm_get (transformMCPServer [(''type'', VStr ''http''), (''url'', VStr ''u'')] ''gemini'') ''httpUrl'' =
     Some (VStr ''u'')
   \<and> gm_get (transformMCPServer [(''type'', VStr ''http''), (''url'', VStr ''u'')] ''opencode'') ''url'' = None"
proof -
  have ok: "gm_ok [(''type'', VStr ''http''), (''url'', VStr ''u'')]" by code_simp
  have url: "gm_get [(''type'', VStr ''http''), (''url'', VStr ''u'')] ''url'' = Some (VStr ''u'')"
    by (simp add: gm_get_def)
  show ?thesis
    using transformMCPServer_correct [OF ok, of "''gemini''" "''httpUrl''"]
      transformMCPServer_correct [OF ok, of "''opencode''" "''url''" "''u''"] url by simp
qed

text \<open>A server of the merged map: the installed one, else the builtin one.\<close>

definition effective_server :: "variables \<Rightarrow> str \<Rightarrow> val option" where
  "effective_server mp k = (case gm_get (as_map (gm_get mp ''installed'')) k of
     Some v \<Rightarrow> Some v | None \<Rightarrow> gm_get (as_map (gm_get mp ''builtin'')) k)"

lemma shallowMerge_get:
  "gm_ok a \<Longrightarrow> gm_ok b \<Longrightarrow> gm_get (shallowMerge a b) k =
     (case gm_get b k of Some v \<Rightarrow> Some v | None \<Rightarrow> gm_get a k)"
  by (auto simp: shallowMerge_def gomap_simps split: option.split)

lemma shallowMerge_ok: "gm_ok (shallowMerge a b)"
  by (simp add: shallowMerge_def)

lemma mcp_servers_get:
  assumes "gm_ok (as_map (gm_get mp ''builtin''))" "gm_ok (as_map (gm_get mp ''installed''))"
  shows "gm_get (mcp_servers mp format) k =
    map_option (if format = [] then id else transform_entry format) (effective_server mp k)"
  using assms
  by (auto simp: mcp_servers_def Let_def builtinMCPTransform_def effective_server_def gomap_simps
      gm_ok_map gm_get_map shallowMerge_get shallowMerge_ok option.map_id split: option.split)

lemma effective_server_enabled:
  "effective_server (gm_set ''enabled'' v mp) k = effective_server mp k"
  by (auto simp: effective_server_def gomap_simps split: option.split)

lemma as_map_enabled:
  "as_map (gm_get (gm_set ''enabled'' v mp) ''builtin'') = as_map (gm_get mp ''builtin'')"
  "as_map (gm_get (gm_set ''enabled'' v mp) ''installed'') = as_map (gm_get mp ''installed'')"
  by (simp_all add: gomap_simps)

text \<open>After a declaration \<open>MCP ON\<close> the build logic sees \<open>mcp.enabled\<close> true and in \<open>mcp.servers\<close>, under
  each name, the installed server or else the builtin one, transformed if a format is given.\<close>

theorem evalMcpDecl_servers:
  assumes "ctx_get c ''mcp'' = Some (VMap mp)"
    and "gm_ok (as_map (gm_get mp ''builtin''))" "gm_ok (as_map (gm_get mp ''installed''))"
    and "fst (evalDecl c (McpDecl True format p)) = c'"
  shows "MCPEnabled (Result c')
    \<and> resolveVarPath (Variables c') ''mcp.enabled'' = VBool True
    \<and> (\<exists>servers. resolveVarPath (Variables c') ''mcp.servers'' = VMap servers
        \<and> (\<forall>k. gm_get servers k =
             map_option (if format = [] then id else transform_entry format) (effective_server mp k)))"
proof -
  let ?mp = "gm_set ''enabled'' (VBool True) mp"
  let ?servers = "mcp_servers ?mp format"
  have vars: "Variables c' = gm_set ''mcp'' (VMap (gm_set ''servers'' (VMap ?servers) ?mp)) (Variables c)"
    and "MCPEnabled (Result c')"
    using assms(1,4) by (auto simp: ok_def evalMcpDecl_def Let_def ctx_get_def upd_result_def ctx_set_def)
  moreover have "gm_get ?servers k =
      map_option (if format = [] then id else transform_entry format) (effective_server mp k)" for k
    using mcp_servers_get [of ?mp format k] assms(2,3) by (simp add: effective_server_enabled as_map_enabled)
  moreover have "resolveVarPath (Variables c') ''mcp.enabled'' = VBool True"
    "resolveVarPath (Variables c') ''mcp.servers'' = VMap ?servers"
    by (simp_all add: vars resolveVarPath_def split_dot_def resolve_fields.simps GetNested_def gomap_simps)
  ultimately show ?thesis by blast
qed

theorem evalMcpDecl_servers_witness:
  "let mp = [(''builtin'', VMap [(''a'', VMap [(''url'', VStr ''u'')])]), (''installed'', VMap [])];
       c = NewContext (\<lambda>_ m. m) [(''mcp'', VMap mp)]
   in \<exists>servers. resolveVarPath (Variables (fst (evalDecl c (McpDecl True ''gemini'' (1, 1))))) ''mcp.servers'' = VMap servers
      \<and> gm_get servers ''a'' = Some (VMap [(''httpUrl'', VStr ''u'')])"
proof -
  let ?mp = "[(''builtin'', VMap [(''a'', VMap [(''url'', VStr ''u'')])]), (''installed'', VMap [])]"
  let ?c = "NewContext (\<lambda>_ m. m) [(''mcp'', VMap ?mp)]"
  have "ctx_get ?c ''mcp'' = Some (VMap ?mp)"
    by (simp add: ctx_get_def NewContext_def RegisterBuiltins_def gm_get_def)
  moreover have "gm_ok (as_map (gm_get ?mp ''builtin''))" "gm_ok (as_map (gm_get ?mp ''installed''))"
    by (simp_all add: gm_get_def as_map_def)
  moreover have "map_option (transform_entry ''gemini'') (effective_server ?mp ''a'') =
      Some (VMap [(''httpUrl'', VStr ''u'')])"
    by code_simp
  ultimately show ?thesis
    using evalMcpDecl_servers [of ?c ?mp "''gemini''" "(1, 1)"] unfolding Let_def by fastforce
qed

subsection \<open>Removals and mode arguments\<close>

lemma removeFromSlice_gone: "a \<in> set (removeFromSlice removes args) \<Longrightarrow> a \<notin> set removes"
  by (induction removes args rule: removeFromSlice.induct) (auto split: if_splits)

lemma removeFromSlice_subseq: "subseq (removeFromSlice removes args) args"
  by (induction removes args rule: removeFromSlice.induct) auto

lemma removeFromSlice_kept: "set args \<inter> set removes = {} \<Longrightarrow> removeFromSlice removes args = args"
  by (induction removes args rule: removeFromSlice.induct) auto

lemma ApplyRemoves_simps:
  "LaunchArgs (ApplyRemoves r) = removeFromSlice (RemoveArgs r) (LaunchArgs r)"
  "FilesToCreate (ApplyRemoves r) = filter (\<lambda>f. file_path f \<notin> set (RemoveFiles r)) (FilesToCreate r)"
  "Dirs (ApplyRemoves r) = filter (\<lambda>d. d \<notin> set (RemoveFiles r)) (Dirs r)"
  "EnvVars (ApplyRemoves r) = fold gm_del (RemoveEnvs r) (EnvVars r)"
  "Skills (ApplyRemoves r) = filter (\<lambda>s. s \<notin> set (RemoveSkills r)) (Skills r)"
  by (simp_all add: ApplyRemoves_def Let_def removeFromSlice_kept)

text \<open>After the removals none of the removed arguments, files, directories, variables and skills is
  left; the arguments left are in their order, and all of them when none was named; every other
  file, directory, variable and skill is kept.\<close>

theorem ApplyRemoves_correct:
  "set (LaunchArgs (ApplyRemoves r)) \<inter> set (RemoveArgs r) = {}
   \<and> subseq (LaunchArgs (ApplyRemoves r)) (LaunchArgs r)
   \<and> (set (LaunchArgs r) \<inter> set (RemoveArgs r) = {} \<longrightarrow> LaunchArgs (ApplyRemoves r) = LaunchArgs r)
   \<and> FilesToCreate (ApplyRemoves r) = filter (\<lambda>f. file_path f \<notin> set (RemoveFiles r)) (FilesToCreate r)
   \<and> Dirs (ApplyRemoves r) = filter (\<lambda>d. d \<notin> set (RemoveFiles r)) (Dirs r)
   \<and> (\<forall>k. gm_get (EnvVars (ApplyRemoves r)) k = (if k \<in> set (RemoveEnvs r) then None else gm_get (EnvVars r) k))
   \<and> Skills (ApplyRemoves r) = filter (\<lambda>s. s \<notin> set (RemoveSkills r)) (Skills r)"
  by (auto simp: ApplyRemoves_simps gm_get_fold_del removeFromSlice_subseq removeFromSlice_kept
      dest: removeFromSlice_gone)

theorem ApplyRemoves_correct_witness:
  "let r = empty_result\<lparr>LaunchArgs := [''--model'', ''opus'', ''-v''], RemoveArgs := [''--model'']\<rparr>
   in set (LaunchArgs (ApplyRemoves r)) \<inter> set (RemoveArgs r) = {} \<and> LaunchArgs (ApplyRemoves r) = [''-v'']"
proof -
  let ?r = "empty_result\<lparr>LaunchArgs := [''--model'', ''opus'', ''-v''], RemoveArgs := [''--model'']\<rparr>"
  have "LaunchArgs (ApplyRemoves ?r) = [''-v'']" by code_simp
  with ApplyRemoves_correct [of ?r] show ?thesis by (simp add: Let_def)
qed

subsection \<open>The order in which a map is visited\<close>

fun no_for :: "stmt \<Rightarrow> bool" where
  "no_for (IfStmt _ body els _) \<longleftrightarrow> list_all no_for body \<and> (case els of None \<Rightarrow> True | Some ss \<Rightarrow> list_all no_for ss)"
| "no_for (ForStmt _ _ _ _ _) \<longleftrightarrow> False"
| "no_for _ \<longleftrightarrow> True"

text \<open>A context with other visiting orders, and a step that does not see them.\<close>

definition reorder :: "visit_order \<Rightarrow> eval_context \<Rightarrow> eval_context" where
  "reorder ord c = c\<lparr>range_order := ord\<rparr>"

definition blind :: "(eval_context \<Rightarrow> outcome) \<Rightarrow> bool" where
  "blind f \<longleftrightarrow> (\<forall>ord c. f (reorder ord c) = map_prod (reorder ord) id (f c))"

lemma reorder_simps [simp]:
  "Variables (reorder ord c) = Variables c" "Builtins (reorder ord c) = Builtins c"
  "Result (reorder ord c) = Result c" "ctx_get (reorder ord c) n = ctx_get c n"
  "upd_result f (reorder ord c) = reorder ord (upd_result f c)"
  "ctx_set n v (reorder ord c) = reorder ord (ctx_set n v c)"
  by (simp_all add: reorder_def upd_result_def ctx_set_def ctx_get_def)

lemma map_val_same: "(\<And>x. x \<in> set xs \<Longrightarrow> f x = g x) \<Longrightarrow> map_val f xs = map_val g xs"
  by (rule map_val_cong) simp_all

lemma evalExpr_reorder [simp]: "evalExpr (reorder ord c) e = evalExpr c e"
proof (induction c e rule: evalExpr.induct)
  case (9 ctx fn args)
  have "map_val (evalExpr (reorder ord ctx)) args = map_val (evalExpr ctx) args"
    if "Builtins ctx fn = Some f" for f
    using 9 that by (intro map_val_same) simp
  then show ?case by (simp split: option.split)
next
  case (10 ctx fs)
  have "map_val (\<lambda>(k, x). bind_val (evalExpr (reorder ord ctx) x) (\<lambda>v. Inr (k, v))) fs =
      map_val (\<lambda>(k, x). bind_val (evalExpr ctx x) (\<lambda>v. Inr (k, v))) fs"
    using 10 by (intro map_val_same) (auto simp: case_prod_beta prod_eq_iff)
  then show ?case by simp
next
  case (11 ctx xs)
  then have "map_val (evalExpr (reorder ord ctx)) xs = map_val (evalExpr ctx) xs"
    by (intro map_val_same)
  then show ?case by simp
qed (auto simp: bind_val_def split: sum.split)

lemma when_holds_reorder [simp]: "when_holds (reorder ord c) w = when_holds c w"
  by (simp add: when_holds_def split: option.split)

lemma blind_run_all: "(\<And>x. x \<in> set xs \<Longrightarrow> blind (f x)) \<Longrightarrow> blind (run_all f xs)"
proof (induction xs)
  case (Cons x xs)
  then have "blind (f x)" "blind (run_all f xs)" by simp_all
  then show ?case by (auto simp: blind_def split: prod.split option.split)
qed (simp add: blind_def ok_def)

lemma blind_then: "(\<And>v. blind (f v)) \<Longrightarrow> (\<And>ord c. r (reorder ord c) = r c) \<Longrightarrow>
    blind (\<lambda>c. eval_then (r c) c (\<lambda>v. f v c))"
  by (auto simp: blind_def eval_then_def split: sum.split)

lemma blind_ok: "(\<And>ord c. g (reorder ord c) = reorder ord (g c)) \<Longrightarrow> blind (\<lambda>c. ok (g c))"
  by (simp add: blind_def ok_def)

lemma blind_if: "blind f \<Longrightarrow> blind g \<Longrightarrow> blind (\<lambda>c. if b then f c else g c)"
  by (cases b) simp_all

lemma evalStmt_blind: "no_for s \<Longrightarrow> blind (evalStmt s)"
proof (induction s rule: no_for.induct, goal_cases)
  case (1 c body els p)
  have "blind (\<lambda>x. case els of None \<Rightarrow> ok x | Some stmts \<Rightarrow> run_all evalStmt stmts x)"
    using 1 by (cases els) (auto simp: list_all_iff intro!: blind_run_all blind_ok)
  moreover have "blind (run_all evalStmt body)"
    using 1 by (auto simp: list_all_iff intro!: blind_run_all)
  ultimately have "blind (\<lambda>x. eval_then (evalExpr x c) x (\<lambda>v. if isTruthy v then run_all evalStmt body x
      else (case els of None \<Rightarrow> ok x | Some stmts \<Rightarrow> run_all evalStmt stmts x)))"
    by (intro blind_then blind_if) simp_all
  then show ?case by (simp add: blind_def)
next
  case (3 args w p)
  have "blind (\<lambda>c. evalArgStmt c args w)" unfolding evalArgStmt_def
    by (intro blind_then blind_if blind_ok blind_run_all) (simp_all add: emit_arg_def)
  then show ?case by (simp add: blind_def)
next
  case (4 path content mode w p)
  have "blind (\<lambda>c. evalFileStmt c path content mode w)" unfolding evalFileStmt_def
    by (intro blind_then blind_if blind_ok) simp_all
  then show ?case by (simp add: blind_def)
next
  case (5 path p)
  have "blind (\<lambda>c. evalMkdirStmt c path)" unfolding evalMkdirStmt_def
    by (intro blind_then blind_ok) simp_all
  then show ?case by (simp add: blind_def)
next
  case (6 name e p)
  have "blind (\<lambda>c. evalAssignStmt c name e)" unfolding evalAssignStmt_def
    by (intro blind_then blind_ok) simp_all
  then show ?case by (simp add: blind_def)
qed simp_all

text \<open>The result of a statement without loops does not depend on the order in which Go visits maps.\<close>

theorem evalStmt_order_independent:
  assumes "no_for s"
  shows "Result (fst (evalStmt s (c\<lparr>range_order := ord\<rparr>))) = Result (fst (evalStmt s c))
    \<and> snd (evalStmt s (c\<lparr>range_order := ord\<rparr>)) = snd (evalStmt s c)"
  using evalStmt_blind [OF assms] by (simp add: blind_def reorder_def [symmetric])

theorem evalStmt_order_independent_witness:
  "let s = IfStmt (Ident ''x'') [ArgStmt [Ident ''x''] None (2, 1)] None (1, 1);
       c = NewContext (\<lambda>_ m. m) [(''x'', VMap [(''a'', VBool True), (''b'', VNil)])]
   in Result (fst (evalStmt s (c\<lparr>range_order := \<lambda>_. rev\<rparr>))) = Result (fst (evalStmt s c))"
  unfolding Let_def by (rule evalStmt_order_independent [THEN conjunct1]) simp

text \<open>A loop over a map does depend on it: two runs of one program give two launch commands.\<close>

theorem for_over_map_depends_on_order:
  "let s = ForStmt ''k'' [] (Ident ''m'') [ArgStmt [Ident ''k''] None (2, 1)] (1, 1);
       c = \<lambda>ord. NewContext ord [(''m'', VMap [(''a'', VNil), (''b'', VNil)])]
   in LaunchArgs (Result (fst (evalStmt s (c (\<lambda>_ m. m))))) = [''a'', ''b'']
      \<and> LaunchArgs (Result (fst (evalStmt s (c (\<lambda>_. rev))))) = [''b'', ''a'']"
  by code_simp

end
