(* ===== verification/AgentLexer.thy ===== *)
theory AgentLexer
  imports Prelude
begin

text \<open>
  The lexer of the Agentfile language (agentfile/lexer). The state is the Lexer struct with
  the unread part of the input in place of the input and the position in it: the code only
  ever looks at the input from \<open>pos\<close> on. One definition per function of the source.
\<close>

subsection \<open>Tokens (token.go)\<close>

datatype (plugins only: code size) token_type =
    EOF | ILLEGAL | NEWLINE | COMMENT
  | IDENT | STRING | NUMBER | TRUE | FALSE
  | ASSIGN | PLUS | EQ | NEQ | DOT | COMMA | LPAREN | RPAREN | LBRACE | RBRACE
  | LBRACKET | RBRACKET | COLON
  | KW_AGENT | KW_EXECUTABLE | KW_CONFIG | KW_ENV | KW_REPO | KW_BRANCH | KW_GIT_CREDENTIAL
  | KW_MCP | KW_SKILLS | KW_SETUP | KW_ON | KW_OFF | KW_OPTIONAL | KW_REMOVE | KW_MODE
  | KW_USE_ENV_BUNDLE | KW_USE_CONFIG_BUNDLE | KW_PROMPT | KW_PROMPT_POSITION
  | KW_CAPABILITY | KW_KNOWLEDGE
  | KW_BOOL | KW_STRING | KW_NUMBER | KW_SECRET | KW_TEXT | KW_SELECT
  | KW_ARG | KW_FILE | KW_MKDIR | KW_WHEN | KW_IF | KW_ELSE | KW_FOR | KW_IN
  | KW_AND | KW_OR | KW_NOT
  | KW_PREPEND | KW_APPEND | KW_NONE
  | HEREDOC_START | HEREDOC_BODY

record token =
  tok_type :: token_type
  literal :: str
  tok_line :: nat
  tok_col :: nat

definition mk_token :: "token_type \<Rightarrow> str \<Rightarrow> nat \<Rightarrow> nat \<Rightarrow> token" where
  "mk_token t s ln c = \<lparr>tok_type = t, literal = s, tok_line = ln, tok_col = c\<rparr>"

definition declarationKeywords :: "(str \<times> token_type) list" where
  "declarationKeywords =
    [(''AGENT'', KW_AGENT), (''EXECUTABLE'', KW_EXECUTABLE), (''CONFIG'', KW_CONFIG),
     (''ENV'', KW_ENV), (''REPO'', KW_REPO), (''BRANCH'', KW_BRANCH),
     (''GIT_CREDENTIAL'', KW_GIT_CREDENTIAL), (''MCP'', KW_MCP), (''SKILLS'', KW_SKILLS),
     (''SETUP'', KW_SETUP), (''ON'', KW_ON), (''OFF'', KW_OFF), (''OPTIONAL'', KW_OPTIONAL),
     (''REMOVE'', KW_REMOVE), (''MODE'', KW_MODE), (''USE_ENV_BUNDLE'', KW_USE_ENV_BUNDLE),
     (''USE_CONFIG_BUNDLE'', KW_USE_CONFIG_BUNDLE), (''PROMPT'', KW_PROMPT),
     (''PROMPT_POSITION'', KW_PROMPT_POSITION), (''CAPABILITY'', KW_CAPABILITY),
     (''KNOWLEDGE'', KW_KNOWLEDGE), (''BOOL'', KW_BOOL), (''STRING'', KW_STRING),
     (''NUMBER'', KW_NUMBER), (''SECRET'', KW_SECRET), (''TEXT'', KW_TEXT),
     (''SELECT'', KW_SELECT)]"

definition buildKeywords :: "(str \<times> token_type) list" where
  "buildKeywords =
    [(''arg'', KW_ARG), (''file'', KW_FILE), (''mkdir'', KW_MKDIR), (''when'', KW_WHEN),
     (''if'', KW_IF), (''else'', KW_ELSE), (''for'', KW_FOR), (''in'', KW_IN),
     (''and'', KW_AND), (''or'', KW_OR), (''not'', KW_NOT), (''true'', TRUE),
     (''false'', FALSE), (''prepend'', KW_PREPEND), (''append'', KW_APPEND),
     (''none'', KW_NONE)]"

definition LookupIdent :: "str \<Rightarrow> token_type" where
  "LookupIdent ident =
     (case map_of declarationKeywords ident of
        Some tok \<Rightarrow> tok
      | None \<Rightarrow> (case map_of buildKeywords ident of Some tok \<Rightarrow> tok | None \<Rightarrow> IDENT))"

subsection \<open>The lexer state (lexer.go)\<close>

record lexer =
  input :: str
  line :: nat
  col :: nat
  tokens :: "token list"

definition isDigit :: "rune \<Rightarrow> bool" where
  "isDigit ch \<longleftrightarrow> is_digit ch"

definition isIdentStart :: "rune \<Rightarrow> bool" where
  "isIdentStart ch \<longleftrightarrow> unicode_is_letter ch \<or> ch = CHR ''_''"

definition isIdentPart :: "rune \<Rightarrow> bool" where
  "isIdentPart ch \<longleftrightarrow> unicode_is_letter ch \<or> unicode_is_digit ch \<or> ch = CHR ''_''"

definition lx_advance :: "lexer \<Rightarrow> lexer" where
  "lx_advance l =
     (case input l of
        [] \<Rightarrow> l
      | c # cs \<Rightarrow> l\<lparr>input := cs, col := (if c \<noteq> NL then col l + 1 else col l)\<rparr>)"

definition lx_peek :: "nat \<Rightarrow> lexer \<Rightarrow> rune" where
  "lx_peek offset l = (if offset < length (input l) then input l ! offset else CHR 0x00)"

definition lx_push :: "token \<Rightarrow> lexer \<Rightarrow> lexer" where
  "lx_push t l = l\<lparr>tokens := tokens l @ [t]\<rparr>"

definition lx_emit :: "token_type \<Rightarrow> str \<Rightarrow> lexer \<Rightarrow> lexer" where
  "lx_emit typ lit l = lx_push (mk_token typ lit (line l) (col l)) l"

definition is_blank :: "rune \<Rightarrow> bool" where
  "is_blank c \<longleftrightarrow> c = SP \<or> c = TAB \<or> c = CR"

definition skipSpacesAndTabs :: "lexer \<Rightarrow> lexer" where
  "skipSpacesAndTabs l =
     (let n = length (takeWhile is_blank (input l))
      in l\<lparr>input := dropWhile is_blank (input l), col := col l + n\<rparr>)"

subsection \<open>Readers (lexer\_readers.go)\<close>

definition readComment :: "lexer \<Rightarrow> lexer" where
  "readComment l =
     (let body = takeWhile (\<lambda>c. c \<noteq> NL) (input l);
          rest = dropWhile (\<lambda>c. c \<noteq> NL) (input l)
      in lx_push (mk_token COMMENT body (line l) (col l))
           (l\<lparr>input := rest, col := col l + length body\<rparr>))"

definition col_after :: "rune \<Rightarrow> nat \<Rightarrow> nat" where
  "col_after c n = (if c \<noteq> NL then n + 1 else n)"

definition unescape :: "rune \<Rightarrow> str" where
  "unescape c =
     (if c = CHR ''n'' then [NL]
      else if c = CHR ''t'' then [TAB]
      else if c = DQUOTE then [DQUOTE]
      else if c = BSLASH then [BSLASH]
      else [BSLASH, c])"

text \<open>The loop of \<open>readString\<close>: the text read so far, the unread input and the column.\<close>

fun string_body :: "str \<Rightarrow> str \<Rightarrow> nat \<Rightarrow> str \<times> str \<times> nat" where
  "string_body sb [] n = (sb, [], n)"
| "string_body sb (c # cs) n =
     (if c = DQUOTE then (sb, c # cs, n)
      else if c = BSLASH
        then (case cs of
                [] \<Rightarrow> string_body (sb @ [c]) cs (col_after c n)
              | d # ds \<Rightarrow> string_body (sb @ unescape d) ds (col_after d (col_after c n)))
      else string_body (sb @ [c]) cs (col_after c n))"

definition readString :: "lexer \<Rightarrow> lexer" where
  "readString l =
     (let l1 = lx_advance l
      in case string_body [] (input l1) (col l1) of
           (sb, rest, n) \<Rightarrow>
             (let l2 = l1\<lparr>input := rest, col := n\<rparr>
              in if rest \<noteq> []
                 then lx_push (mk_token STRING sb (line l) (col l)) (lx_advance l2)
                 else lx_push (mk_token ILLEGAL ''unterminated string'' (line l) (col l)) l2))"

definition is_number_part :: "rune \<Rightarrow> bool" where
  "is_number_part c \<longleftrightarrow> isDigit c \<or> c = CHR ''.''"

definition readNumber :: "lexer \<Rightarrow> lexer" where
  "readNumber l =
     (let lit = takeWhile is_number_part (input l)
      in lx_push (mk_token NUMBER lit (line l) (col l))
           (l\<lparr>input := dropWhile is_number_part (input l), col := col l + length lit\<rparr>))"

text \<open>The second loop of \<open>readIdentifier\<close>: hyphens followed by the start of an identifier.\<close>

function (sequential) hyphen_tail :: "str \<Rightarrow> str \<times> str" where
  "hyphen_tail (h # c # cs) =
     (if h = CHR ''-'' \<and> isIdentStart c
      then (case hyphen_tail (dropWhile isIdentPart (c # cs)) of
              (lit, rest) \<Rightarrow> (h # takeWhile isIdentPart (c # cs) @ lit, rest))
      else ([], h # c # cs))"
| "hyphen_tail s = ([], s)"
  by pat_completeness auto
termination
  by (relation "measure length")
    (auto simp: length_dropWhile_le le_imp_less_Suc less_Suc_eq_le intro: le_SucI)

declare hyphen_tail.simps(1) [simp del]

definition readIdentifier :: "lexer \<Rightarrow> lexer" where
  "readIdentifier l =
     (let first = takeWhile isIdentPart (input l)
      in case hyphen_tail (dropWhile isIdentPart (input l)) of
           (tail, rest) \<Rightarrow>
             (let lit = first @ tail
              in lx_push (mk_token (LookupIdent lit) lit (line l) (col l))
                   (l\<lparr>input := rest, col := col l + length lit\<rparr>)))"

text \<open>
  The body loop of \<open>readHeredoc\<close>, one line per call: the body so far, the unread input and the
  line number; the result says whether the marker was found.
\<close>

function heredoc_body :: "str \<Rightarrow> str \<Rightarrow> str \<Rightarrow> nat \<Rightarrow> bool \<times> str \<times> str \<times> nat" where
  "heredoc_body marker body s ln =
     (if s = [] then (False, body, [], ln)
      else let cur = takeWhile (\<lambda>c. c \<noteq> NL) s;
               rest = dropWhile (\<lambda>c. c \<noteq> NL) s
           in if trim_space cur = marker
              then (True, body, drop 1 rest, if rest = [] then ln else ln + 1)
              else if rest = [] then heredoc_body marker (body @ cur) [] ln
              else heredoc_body marker (body @ cur @ [NL]) (drop 1 rest) (ln + 1))"
  by pat_completeness auto
termination
proof (relation "measure (\<lambda>(marker, body, s, ln). length s)", goal_cases)
  case (3 marker body s ln cur rest)
  then have "length (drop 1 rest) < length rest" by (cases rest) auto
  also have "length rest \<le> length s" using 3 by (simp add: length_dropWhile_le)
  finally show ?case by simp
qed auto

declare heredoc_body.simps [simp del]

definition heredoc_skip_line :: "lexer \<Rightarrow> lexer" where
  "heredoc_skip_line l =
     (case input l of
        c # cs \<Rightarrow> if c = NL then l\<lparr>input := cs, line := line l + 1, col := 1\<rparr> else l
      | [] \<Rightarrow> l)"

text \<open>The body and the closing tokens of \<open>readHeredoc\<close>; the position is the one of \<open><<\<close>.\<close>

definition heredoc_close :: "str \<Rightarrow> nat \<Rightarrow> nat \<Rightarrow> lexer \<Rightarrow> lexer" where
  "heredoc_close marker startLine startCol l =
     (case heredoc_body marker [] (input l) (line l) of
        (found, body, rest, ln) \<Rightarrow>
          if found
          then lx_push (mk_token HEREDOC_BODY (trim_right_fn (\<lambda>c. c = NL) body) (startLine + 1) 1)
                 (l\<lparr>input := rest, line := ln, col := 1\<rparr>)
          else lx_push (mk_token ILLEGAL (''unterminated heredoc, missing '' @ marker) startLine startCol)
                 (l\<lparr>input := rest, line := ln\<rparr>))"

definition is_marker_part :: "rune \<Rightarrow> bool" where
  "is_marker_part c \<longleftrightarrow> c \<noteq> NL \<and> c \<noteq> SP"

definition readHeredoc :: "lexer \<Rightarrow> lexer" where
  "readHeredoc l =
     (let l1 = lx_advance (lx_advance l);
          marker = takeWhile is_marker_part (input l1);
          l2 = lx_push (mk_token HEREDOC_START marker (line l) (col l))
                 (l1\<lparr>input := dropWhile is_marker_part (input l1), col := col l1 + length marker\<rparr>)
      in heredoc_close marker (line l) (col l) (heredoc_skip_line l2))"

subsection \<open>The main loop\<close>

definition single_char_token :: "rune \<Rightarrow> token_type option" where
  "single_char_token ch =
     (if ch = CHR ''='' then Some ASSIGN
      else if ch = CHR ''+'' then Some PLUS
      else if ch = CHR ''.'' then Some DOT
      else if ch = CHR '','' then Some COMMA
      else if ch = CHR ''('' then Some LPAREN
      else if ch = CHR '')'' then Some RPAREN
      else if ch = CHR ''{'' then Some LBRACE
      else if ch = CHR ''}'' then Some RBRACE
      else if ch = CHR ''['' then Some LBRACKET
      else if ch = CHR '']'' then Some RBRACKET
      else if ch = CHR '':'' then Some COLON
      else None)"

text \<open>The switch of \<open>tokenize\<close> on the current rune.\<close>

definition lex_step :: "lexer \<Rightarrow> lexer" where
  "lex_step l =
     (case input l of
        [] \<Rightarrow> l
      | ch # _ \<Rightarrow>
        if ch = NL then
          (let l' = lx_advance (lx_emit NEWLINE [NL] l) in l'\<lparr>line := line l' + 1, col := 1\<rparr>)
        else if ch = CHR ''#'' then readComment l
        else if ch = DQUOTE then readString l
        else if ch = CHR ''<'' \<and> lx_peek 1 l = CHR ''<'' then readHeredoc l
        else if ch = CHR ''='' \<and> lx_peek 1 l = CHR ''='' then
          lx_advance (lx_advance (lx_emit EQ ''=='' l))
        else if ch = CHR ''!'' \<and> lx_peek 1 l = CHR ''='' then
          lx_advance (lx_advance (lx_emit NEQ ''!='' l))
        else (case single_char_token ch of
                Some t \<Rightarrow> lx_advance (lx_emit t [ch] l)
              | None \<Rightarrow>
                if isDigit ch then readNumber l
                else if isIdentStart ch then readIdentifier l
                else lx_advance (lx_emit ILLEGAL [ch] l)))"

subsection \<open>Every step consumes input\<close>

text \<open>The length of the unread input; every reader is a function that shortens it.\<close>

abbreviation unread :: "lexer \<Rightarrow> nat" where
  "unread l \<equiv> length (input l)"

named_theorems consume \<open>how the lexer's operations shorten the unread input\<close>

lemma left_push [consume]: "unread (lx_push t l) = unread l"
  by (simp add: lx_push_def)

lemma left_emit [consume]: "unread (lx_emit t s l) = unread l"
  by (simp add: lx_emit_def consume)

lemma left_advance [consume]: "unread (lx_advance l) = unread l - 1"
  by (simp add: lx_advance_def split: list.split)

lemma left_skip [consume]: "unread (skipSpacesAndTabs l) \<le> unread l"
  by (simp add: skipSpacesAndTabs_def Let_def length_dropWhile_le)

lemma length_dropWhile_less: "xs \<noteq> [] \<Longrightarrow> p (hd xs) \<Longrightarrow> length (dropWhile p xs) < length xs"
  by (cases xs) (auto simp: length_dropWhile_le le_imp_less_Suc)

lemma string_body_le: "string_body sb s n = (sb', rest, n') \<Longrightarrow> length rest \<le> length s"
proof (induction sb s n rule: string_body.induct)
  case (2 sb c cs n)
  then show ?case by (cases cs) (auto split: if_splits)
qed simp

lemma hyphen_tail_le: "length (snd (hyphen_tail s)) \<le> length s"
proof (induction s rule: hyphen_tail.induct)
  case (1 h c cs)
  have "length (dropWhile isIdentPart (c # cs)) \<le> length (c # cs)" by (rule length_dropWhile_le)
  with 1 show ?case
    by (auto simp: hyphen_tail.simps(1) split: prod.split simp del: dropWhile.simps)
qed simp_all

lemma heredoc_body_Nil: "heredoc_body m b [] ln = (False, b, [], ln)"
  by (simp add: heredoc_body.simps)

lemma heredoc_body_le: "heredoc_body m b s ln = (found, b', rest, ln') \<Longrightarrow> length rest \<le> length s"
proof (induction m b s ln rule: heredoc_body.induct)
  case (1 m b s ln)
  have "length (drop 1 (dropWhile (\<lambda>c. c \<noteq> NL) s)) \<le> length s"
    using length_dropWhile_le [of "\<lambda>c. c \<noteq> NL" s] by simp
  moreover note 1
  ultimately show ?case
    unfolding heredoc_body.simps [of m b s ln] Let_def
    by (simp del: length_drop add: heredoc_body_Nil split: if_splits) (force intro: order_trans)
qed

lemma left_readComment: "input l \<noteq> [] \<Longrightarrow> hd (input l) = CHR ''#'' \<Longrightarrow> unread (readComment l) < unread l"
  by (simp add: readComment_def Let_def consume length_dropWhile_less)

lemma left_readString: "input l \<noteq> [] \<Longrightarrow> unread (readString l) < unread l"
  using string_body_le [of "[]" "input (lx_advance l)" "col (lx_advance l)"]
  by (auto simp: readString_def Let_def consume lx_push_def split: prod.split)
    (metis One_nat_def diff_Suc_less le_less_trans left_advance length_greater_0_conv order_less_imp_le diff_le_self)+

lemma left_readNumber: "input l \<noteq> [] \<Longrightarrow> isDigit (hd (input l)) \<Longrightarrow> unread (readNumber l) < unread l"
  by (simp add: readNumber_def Let_def consume length_dropWhile_less is_number_part_def)

lemma isIdentStart_Part: "isIdentStart c \<Longrightarrow> isIdentPart c"
  by (auto simp: isIdentStart_def isIdentPart_def)

lemma left_readIdentifier:
  assumes "input l \<noteq> []" "isIdentStart (hd (input l))"
  shows "unread (readIdentifier l) < unread l"
proof -
  have "length (snd (hyphen_tail (dropWhile isIdentPart (input l)))) \<le> length (dropWhile isIdentPart (input l))"
    by (rule hyphen_tail_le)
  also have "\<dots> < unread l" using assms by (simp add: length_dropWhile_less isIdentStart_Part)
  finally show ?thesis by (simp add: readIdentifier_def Let_def consume case_prod_beta)
qed

lemma left_skip_line [consume]: "unread (heredoc_skip_line l) \<le> unread l"
  by (simp add: heredoc_skip_line_def split: list.split)

lemma left_heredoc_close [consume]: "unread (heredoc_close m sl sc l) \<le> unread l"
  by (auto simp: heredoc_close_def consume split: prod.split dest: heredoc_body_le)

lemma left_readHeredoc:
  assumes "input l \<noteq> []"
  shows "unread (readHeredoc l) < unread l"
proof -
  let ?l1 = "lx_advance (lx_advance l)"
  have "unread ?l1 < unread l" using assms by (cases "input l") (auto simp: consume)
  moreover have "length (dropWhile is_marker_part (input ?l1)) \<le> unread ?l1" by (rule length_dropWhile_le)
  ultimately have "length (dropWhile is_marker_part (input ?l1)) < unread l" by linarith
  then show ?thesis
    unfolding readHeredoc_def Let_def
    by (intro le_less_trans [OF left_heredoc_close] le_less_trans [OF left_skip_line])
      (simp add: consume)
qed

lemma lex_step_consumes:
  assumes "input l \<noteq> []"
  shows "unread (lex_step l) < unread l"
proof -
  obtain ch cs where i: "input l = ch # cs" using assms by (cases "input l") auto
  show ?thesis
    using assms i left_readComment [of l] left_readString [of l] left_readHeredoc [of l]
      left_readNumber [of l] left_readIdentifier [of l]
    by (auto simp: lex_step_def Let_def consume split: option.split)
qed

function tokenize :: "lexer \<Rightarrow> lexer" where
  "tokenize l =
     (if input l = [] then lx_emit EOF [] l
      else let l1 = skipSpacesAndTabs l
           in if input l1 = [] then lx_emit EOF [] l1 else tokenize (lex_step l1))"
  by pat_completeness auto
termination
proof (relation "measure unread", goal_cases)
  case (2 l l1)
  then have "unread (lex_step l1) < unread l1" by (simp add: lex_step_consumes)
  also have "unread l1 \<le> unread l" using 2 by (simp add: consume)
  finally show ?case by simp
qed auto

declare tokenize.simps [simp del]

definition Tokenize :: "str \<Rightarrow> token list" where
  "Tokenize src = tokens (tokenize \<lparr>input = src, line = 1, col = 1, tokens = []\<rparr>)"

end
