(* ===== verification/AgentCapability.thy ===== *)
theory AgentCapability
  imports Prelude
begin

text \<open>
  The CAPABILITY axes of the Agentfile language (agentfile/capability): the table of axes and
  values, the check of a declaration and the line scan that reads declarations without the
  parser. \<open>ProbeRuntimeFromInitialize\<close> and \<open>LogDeclaredRuntimeMismatches\<close> are modelled on the
  fields the first one unmarshals and on the list of warnings the second one logs.
\<close>

datatype capability_error =
    AxisRequired
  | ValueRequired str
  | ControlEmptyToken str
  | ControlInvalidToken str
  | UnknownAxis str
  | InvalidValue str str

definition allowed :: "(str \<times> str list) list" where
  "allowed =
    [(''resume'', [''none'', ''cli'', ''acp'']),
     (''permission'', [''none'', ''acp'', ''notification'']),
     (''usage'', [''none'', ''exit'', ''live'']),
     (''interrupt'', [''true'', ''false'']),
     (''streaming'', [''true'', ''false'']),
     (''subagents'', [''true'', ''false'']),
     (''model_family'', [''claude'', ''gpt'', ''gemini'', ''multi''])]"

definition control_rune :: "rune \<Rightarrow> bool" where
  "control_rune r \<longleftrightarrow> is_lower r \<or> is_digit r \<or> r = CHR ''_''"

text \<open>The loop over the comma-separated tokens of the control axis.\<close>

fun validate_control :: "str \<Rightarrow> str list \<Rightarrow> capability_error option" where
  "validate_control value [] = None"
| "validate_control value (t # ts) =
     (let token = trim_space t
      in if token = [] then Some (ControlEmptyToken value)
         else if \<not> list_all control_rune token then Some (ControlInvalidToken token)
         else validate_control value ts)"

definition Validate :: "str \<Rightarrow> str \<Rightarrow> capability_error option" where
  "Validate axis0 value0 =
     (let axis = to_lower (trim_space axis0);
          value = trim_space value0
      in if axis = [] then Some AxisRequired
         else if value = [] then Some (ValueRequired axis)
         else if axis = ''control'' then validate_control value (split_on (CHR '','') value)
         else (case map_of allowed axis of
                 None \<Rightarrow> Some (UnknownAxis axis)
               | Some choices \<Rightarrow>
                   if to_lower value \<in> set choices then None
                   else Some (InvalidValue axis value)))"

text \<open>\<open>ScanDeclarations\<close> (scan.go): the body of the loop over the lines, then the loop.\<close>

definition scan_line :: "str \<Rightarrow> (str, str) gomap \<Rightarrow> (str, str) gomap" where
  "scan_line l caps =
     (let ln = trim_space l
      in if \<not> has_prefix ln ''CAPABILITY '' then caps
         else (case fields ln of
                 _ # axis # v # _ \<Rightarrow> gm_set axis v caps
               | _ \<Rightarrow> caps))"

definition ScanDeclarations :: "str \<Rightarrow> (str, str) gomap option" where
  "ScanDeclarations src =
     (if src = [] then None
      else let caps = fold scan_line (split_on NL src) []
           in if caps = [] then None else Some caps)"

text \<open>
  calibrate.go: the initialize response as the three booleans that the code reads from it
  (\<open>None\<close> when it is empty or does not unmarshal).
\<close>

record initialize_body =
  cap_permissions :: bool
  cap_streaming :: bool
  ext_control_request :: bool

definition ProbeRuntimeFromInitialize :: "initialize_body option \<Rightarrow> (str, str) gomap option" where
  "ProbeRuntimeFromInitialize raw =
     (case raw of
        None \<Rightarrow> None
      | Some body \<Rightarrow>
          (let r0 = (if cap_permissions body then gm_set ''permission'' ''acp'' [] else []);
               r1 = (if cap_streaming body then gm_set ''streaming'' ''true'' r0
                     else gm_set ''streaming'' ''false'' r0);
               r2 = (if ext_control_request body then gm_set ''interrupt'' ''true'' r1 else r1)
           in if r2 = [] then None else Some r2))"

definition equal_fold :: "str \<Rightarrow> str \<Rightarrow> bool" where
  "equal_fold a b \<longleftrightarrow> to_lower a = to_lower b"

text \<open>The warnings \<open>LogDeclaredRuntimeMismatches\<close> logs: axis, declared and runtime value.\<close>

definition runtime_mismatches :: "(str, str) gomap \<Rightarrow> (str, str) gomap \<Rightarrow> (str \<times> str \<times> str) list" where
  "runtime_mismatches declared runtime =
     (if declared = [] \<or> runtime = [] then []
      else concat (map (\<lambda>(axis, d).
             case gm_get runtime axis of
               None \<Rightarrow> []
             | Some r \<Rightarrow> if equal_fold d r then [] else [(axis, d, r)]) declared))"

end
