(* ===== verification/AgentParser.thy ===== *)
theory AgentParser
  imports AgentLexer AgentAst AgentCapability "HOL-Library.Monad_Syntax"
begin

text \<open>
  The recursive-descent parser of the Agentfile language (agentfile/parser). The state is the
  Parser struct with the tokens from \<open>pos\<close> on in place of the tokens and the position: the code
  never looks back. The messages that \<open>errorf\<close> formats are the constructors of \<open>parse_error\<close>
  with the arguments of the format.

  The loops over tokens are recursive functions that terminate because each round takes a
  token. The expressions and the statements nest, so their parsers take a bound on the depth
  (\<open>None\<close> when it is used up); theory AgentParserTotal shows that the bound \<open>Parse\<close> starts with
  is never reached.
\<close>

datatype (plugins only: code size) parse_error =
    UnexpectedToken token_type str nat
  | Expected token_type token_type str nat
  | ExpectedIdent token_type str nat
  | ExpectedIdentOrString token_type str nat
  | ExpectedString token_type str nat
  | ExpectedNumber token_type str nat
  | InvalidInteger str nat
  | ExpectedLiteral token_type str
  | UnexpectedInExpr token_type str nat
  | UnexpectedInBlock token_type str nat
  | ExpectedConfigType str nat
  | ExpectedEnvKind str str
  | ExpectedMcpSwitch str
  | BadMountMode str str
  | BadRemoveTarget str
  | BadMode str
  | BadPromptPosition str
  | BadCapabilityToken str str
  | BadCapability capability_error

record parser =
  toks :: "token list"
  errors :: "parse_error list"

subsection \<open>Token access and expectations (parser.go)\<close>

definition current :: "parser \<Rightarrow> token" where
  "current p = (case toks p of [] \<Rightarrow> mk_token EOF [] 0 0 | t # _ \<Rightarrow> t)"

definition advance :: "parser \<Rightarrow> parser" where
  "advance p = p\<lparr>toks := tl (toks p)\<rparr>"

definition currentIs :: "token_type \<Rightarrow> parser \<Rightarrow> bool" where
  "currentIs t p \<longleftrightarrow> tok_type (current p) = t"

definition atEnd :: "parser \<Rightarrow> bool" where
  "atEnd p \<longleftrightarrow> toks p = [] \<or> tok_type (hd (toks p)) = EOF"

definition peekIs :: "token_type \<Rightarrow> parser \<Rightarrow> bool" where
  "peekIs t p = (case toks p of _ # n # _ \<Rightarrow> tok_type n = t | _ \<Rightarrow> False)"

definition errorf :: "parse_error \<Rightarrow> parser \<Rightarrow> parser" where
  "errorf e p = p\<lparr>errors := errors p @ [e]\<rparr>"

definition expect :: "token_type \<Rightarrow> parser \<Rightarrow> parser" where
  "expect t p =
     (let c = current p
      in if tok_type c = t then advance p
         else errorf (Expected t (tok_type c) (literal c) (tok_line c)) p)"

definition expectIdent :: "parser \<Rightarrow> str \<times> parser" where
  "expectIdent p =
     (let c = current p
      in if tok_type c \<noteq> IDENT
         then ([], advance (errorf (ExpectedIdent (tok_type c) (literal c) (tok_line c)) p))
         else (literal c, advance p))"

definition expectIdentOrString :: "parser \<Rightarrow> str \<times> parser" where
  "expectIdentOrString p =
     (let c = current p
      in if tok_type c = IDENT \<or> tok_type c = STRING then (literal c, advance p)
         else ([], advance (errorf (ExpectedIdentOrString (tok_type c) (literal c) (tok_line c)) p)))"

definition expectString :: "parser \<Rightarrow> str \<times> parser" where
  "expectString p =
     (let c = current p
      in if tok_type c \<noteq> STRING
         then ([], advance (errorf (ExpectedString (tok_type c) (literal c) (tok_line c)) p))
         else (literal c, advance p))"

text \<open>strconv.ParseInt of a number literal (digits and dots) in base 8 or 10, 64 bits.\<close>

definition parse_int64 :: "nat \<Rightarrow> str \<Rightarrow> int option" where
  "parse_int64 base s =
     (if s \<noteq> [] \<and> list_all (\<lambda>c. is_digit c \<and> digit_val c < base) s \<and> read_base base s < 2 ^ 63
      then Some (int (read_base base s)) else None)"

definition looks_octal :: "str \<Rightarrow> bool" where
  "looks_octal s = (case s of c # d # _ \<Rightarrow> c = CHR ''0'' \<and> d \<noteq> CHR ''.'' | _ \<Rightarrow> False)"

definition int_of_literal :: "str \<Rightarrow> int option" where
  "int_of_literal s =
     (case (if looks_octal s then parse_int64 8 s else None) of
        Some n \<Rightarrow> Some n
      | None \<Rightarrow> parse_int64 10 s)"

definition expectInt :: "parser \<Rightarrow> int \<times> parser" where
  "expectInt p =
     (let c = current p
      in if tok_type c \<noteq> NUMBER
         then (0, advance (errorf (ExpectedNumber (tok_type c) (literal c) (tok_line c)) p))
         else (case int_of_literal (literal c) of
                 Some n \<Rightarrow> (n, advance p)
               | None \<Rightarrow> (0, errorf (InvalidInteger (literal c) (tok_line c)) (advance p))))"

definition parseLiteralValue :: "parser \<Rightarrow> val \<times> parser" where
  "parseLiteralValue p =
     (let c = current p
      in if tok_type c = STRING then (VStr (literal c), advance p)
         else if tok_type c = NUMBER then
           ((case parse_float (literal c) of Some f \<Rightarrow> VFloat f | None \<Rightarrow> VStr (literal c)), advance p)
         else if tok_type c = TRUE then (VBool True, advance p)
         else if tok_type c = FALSE then (VBool False, advance p)
         else (VNil, advance (errorf (ExpectedLiteral (tok_type c) (literal c)) p)))"

definition isNewlineOrEnd :: "parser \<Rightarrow> bool" where
  "isNewlineOrEnd p \<longleftrightarrow> atEnd p \<or> currentIs NEWLINE p \<or> currentIs COMMENT p"

definition expectNewline :: "parser \<Rightarrow> parser" where
  "expectNewline p =
     (let p1 = p\<lparr>toks := dropWhile (\<lambda>t. tok_type t = COMMENT) (toks p)\<rparr>
      in if currentIs NEWLINE p1 then advance p1 else p1)"

definition skipNewlines :: "parser \<Rightarrow> parser" where
  "skipNewlines p =
     p\<lparr>toks := dropWhile (\<lambda>t. tok_type t = NEWLINE \<or> tok_type t = COMMENT) (toks p)\<rparr>"

definition skip_comma :: "parser \<Rightarrow> parser" where
  "skip_comma p = (if currentIs COMMA p then advance p else p)"

subsection \<open>Every operation reads on\<close>

text \<open>
  \<open>reads p q\<close>: parsing got from \<open>p\<close> to \<open>q\<close> by taking tokens from the front and adding errors at
  the end. \<open>takes\<close>: and it took a token, if there was one.
\<close>

definition reads :: "parser \<Rightarrow> parser \<Rightarrow> bool" where
  "reads p q \<longleftrightarrow> suffix (toks q) (toks p) \<and> prefix (errors p) (errors q)"

definition takes :: "parser \<Rightarrow> parser \<Rightarrow> bool" where
  "takes p q \<longleftrightarrow> reads p q \<and> (toks p \<noteq> [] \<longrightarrow> toks q \<noteq> toks p)"

named_theorems reading \<open>which parser operations read on or take a token\<close>

lemma reads_refl [reading]: "reads p p"
  by (simp add: reads_def)

lemma reads_trans [trans]: "reads p q \<Longrightarrow> reads q r \<Longrightarrow> reads p r"
  unfolding reads_def by (meson prefix_order.trans suffix_order.trans)

lemma takes_reads: "takes p q \<Longrightarrow> reads p q"
  by (simp add: takes_def)

lemma takes_reads_trans [trans]: "takes p q \<Longrightarrow> reads q r \<Longrightarrow> takes p r"
  unfolding takes_def reads_def
  by (metis prefix_order.trans suffix_order.trans suffix_order.antisym)

lemma reads_takes_trans [trans]: "reads p q \<Longrightarrow> takes q r \<Longrightarrow> takes p r"
  unfolding takes_def reads_def
  by (metis prefix_order.trans suffix_order.trans suffix_order.antisym suffix_Nil)

lemma takes_trans [trans]: "takes p q \<Longrightarrow> takes q r \<Longrightarrow> takes p r"
  using takes_reads takes_reads_trans by blast

lemma reads_length: "reads p q \<Longrightarrow> length (toks q) \<le> length (toks p)"
  unfolding reads_def by (meson suffix_length_le)

lemma takes_length: "takes p q \<Longrightarrow> toks p \<noteq> [] \<Longrightarrow> length (toks q) < length (toks p)"
  unfolding takes_def reads_def suffix_def by auto

lemma takes_errorf [reading]: "takes p q \<Longrightarrow> takes p (errorf e q)"
  by (simp add: takes_def reads_def errorf_def)

lemma reads_errorf [reading]: "reads p q \<Longrightarrow> reads p (errorf e q)"
  by (simp add: reads_def errorf_def)

lemma takes_advance [reading]: "takes p (advance p)"
  unfolding takes_def reads_def advance_def
  by (cases "toks p") (auto simp: suffix_Cons)

lemma takes_errorf_advance [reading]: "takes p (advance (errorf e p))"
  unfolding takes_def reads_def advance_def errorf_def
  by (cases "toks p") (auto simp: suffix_Cons)

lemma reads_advance [reading]: "reads p q \<Longrightarrow> reads p (advance q)"
  using reads_trans takes_advance takes_reads by blast

lemma reads_expect [reading]: "reads p (expect t p)"
  by (auto simp: expect_def Let_def intro: reading)

lemma takes_expectIdent [reading]: "takes p (snd (expectIdent p))"
  by (simp add: expectIdent_def Let_def reading)

lemma takes_expectIdentOrString [reading]: "takes p (snd (expectIdentOrString p))"
  by (simp add: expectIdentOrString_def Let_def reading)

lemma takes_expectString [reading]: "takes p (snd (expectString p))"
  by (simp add: expectString_def Let_def reading)

lemma takes_expectInt [reading]: "takes p (snd (expectInt p))"
  by (simp add: expectInt_def Let_def reading split: option.split)

lemma takes_parseLiteralValue [reading]: "takes p (snd (parseLiteralValue p))"
  by (simp add: parseLiteralValue_def Let_def reading)

lemma reads_dropWhile [reading]: "reads p (p\<lparr>toks := dropWhile f (toks p)\<rparr>)"
  by (simp add: reads_def suffix_dropWhile)

lemma reads_skipNewlines [reading]: "reads p (skipNewlines p)"
  by (simp add: skipNewlines_def reading)

lemma reads_expectNewline [reading]: "reads p (expectNewline p)"
  by (simp add: expectNewline_def Let_def reading)

lemma reads_skip_comma [reading]: "reads p (skip_comma p)"
  by (simp add: skip_comma_def reading)

lemma not_atEnd: "\<not> atEnd p \<Longrightarrow> toks p \<noteq> []"
  by (auto simp: atEnd_def)

lemma not_isNewlineOrEnd: "\<not> isNewlineOrEnd p \<Longrightarrow> toks p \<noteq> []"
  by (auto simp: isNewlineOrEnd_def atEnd_def)

subsection \<open>Expressions (parser\_expr.go)\<close>

text \<open>
  Each function takes the parser \<open>e\<close> of a nested expression and a bound \<open>n\<close> on its loop;
  \<open>parse_expr\<close> ties the knot.
\<close>

fun binary_loop :: "(parser \<Rightarrow> str option) \<Rightarrow> (parser \<Rightarrow> (expr \<times> parser) option)
    \<Rightarrow> nat \<Rightarrow> expr \<Rightarrow> parser \<Rightarrow> (expr \<times> parser) option" where
  "binary_loop op operand 0 left p = None"
| "binary_loop op operand (Suc n) left p =
     (case op p of
        None \<Rightarrow> Some (left, p)
      | Some osym \<Rightarrow> do {
          (r, p1) \<leftarrow> operand (advance p);
          binary_loop op operand n (BinaryExpr left osym r) p1
        })"

definition or_op :: "parser \<Rightarrow> str option" where
  "or_op p = (if currentIs KW_OR p then Some ''or'' else None)"

definition and_op :: "parser \<Rightarrow> str option" where
  "and_op p = (if currentIs KW_AND p then Some ''and'' else None)"

definition equality_op :: "parser \<Rightarrow> str option" where
  "equality_op p = (if currentIs EQ p \<or> currentIs NEQ p then Some (literal (current p)) else None)"

definition addition_op :: "parser \<Rightarrow> str option" where
  "addition_op p = (if currentIs PLUS p then Some ''+'' else None)"

function dot_loop :: "expr \<Rightarrow> parser \<Rightarrow> expr \<times> parser" where
  "dot_loop x p =
     (if currentIs DOT p
      then (case expectIdent (advance p) of (field, p1) \<Rightarrow> dot_loop (DotExpr x field) p1)
      else (x, p))"
  by pat_completeness auto
termination
proof (relation "measure (\<lambda>(x, p). length (toks p))", goal_cases)
  case (2 x p field p1)
  then have "toks p \<noteq> []" by (auto simp: currentIs_def current_def mk_token_def split: list.splits)
  moreover have "takes p p1"
    using takes_trans [OF takes_advance takes_expectIdent, of p] 2 by (metis snd_conv)
  ultimately show ?case by (simp add: takes_length)
qed auto

declare dot_loop.simps [simp del]

fun args_loop :: "(parser \<Rightarrow> (expr \<times> parser) option) \<Rightarrow> nat \<Rightarrow> expr list \<Rightarrow> parser
    \<Rightarrow> (expr list \<times> parser) option" where
  "args_loop e 0 acc p = None"
| "args_loop e (Suc n) acc p =
     (if currentIs RPAREN p \<or> atEnd p then Some (acc, p)
      else do {
        (x, p1) \<leftarrow> e p;
        args_loop e n (acc @ [x]) (skip_comma p1)
      })"

definition parseCallExpr :: "(parser \<Rightarrow> (expr \<times> parser) option) \<Rightarrow> nat \<Rightarrow> str \<Rightarrow> parser
    \<Rightarrow> (expr \<times> parser) option" where
  "parseCallExpr e n name p = do {
     (args, p1) \<leftarrow> args_loop e n [] (advance p);
     Some (CallExpr name args, expect RPAREN p1)
   }"

fun object_loop :: "(parser \<Rightarrow> (expr \<times> parser) option) \<Rightarrow> nat \<Rightarrow> (str \<times> expr) list \<Rightarrow> parser
    \<Rightarrow> ((str \<times> expr) list \<times> parser) option" where
  "object_loop e 0 acc p = None"
| "object_loop e (Suc n) acc p =
     (if currentIs RBRACE p \<or> atEnd p then Some (acc, p)
      else let p1 = skipNewlines p
           in if currentIs RBRACE p1 then Some (acc, p1)
              else case expectIdentOrString p1 of
                     (key, p2) \<Rightarrow> do {
                       (v, p3) \<leftarrow> e (expect COLON p2);
                       object_loop e n (acc @ [(key, v)]) (skipNewlines (skip_comma p3))
                     })"

definition parseObjectLit :: "(parser \<Rightarrow> (expr \<times> parser) option) \<Rightarrow> nat \<Rightarrow> parser
    \<Rightarrow> (expr \<times> parser) option" where
  "parseObjectLit e n p = do {
     (fs, p1) \<leftarrow> object_loop e n [] (skipNewlines (advance p));
     Some (ObjectLit fs, expect RBRACE p1)
   }"

fun list_loop :: "(parser \<Rightarrow> (expr \<times> parser) option) \<Rightarrow> nat \<Rightarrow> expr list \<Rightarrow> parser
    \<Rightarrow> (expr list \<times> parser) option" where
  "list_loop e 0 acc p = None"
| "list_loop e (Suc n) acc p =
     (if currentIs RBRACKET p \<or> atEnd p then Some (acc, p)
      else let p1 = skipNewlines p
           in if currentIs RBRACKET p1 then Some (acc, p1)
              else do {
                (x, p2) \<leftarrow> e p1;
                list_loop e n (acc @ [x]) (skipNewlines (skip_comma p2))
              })"

definition parseListLit :: "(parser \<Rightarrow> (expr \<times> parser) option) \<Rightarrow> nat \<Rightarrow> parser
    \<Rightarrow> (expr \<times> parser) option" where
  "parseListLit e n p = do {
     (xs, p1) \<leftarrow> list_loop e n [] (skipNewlines (advance p));
     Some (ListLit xs, expect RBRACKET p1)
   }"

definition parse_heredoc_lit :: "parser \<Rightarrow> expr \<times> parser" where
  "parse_heredoc_lit p =
     (let p1 = advance p
      in if currentIs HEREDOC_BODY p1 then (HeredocLit (literal (current p1)), advance p1)
         else (HeredocLit [], p1))"

definition parsePrimary :: "(parser \<Rightarrow> (expr \<times> parser) option) \<Rightarrow> nat \<Rightarrow> parser
    \<Rightarrow> (expr \<times> parser) option" where
  "parsePrimary e n p =
     (let tok = current p
      in case tok_type tok of
           STRING \<Rightarrow> Some (StringLit (literal tok), advance p)
         | NUMBER \<Rightarrow> Some (NumberLit (literal tok), advance p)
         | TRUE \<Rightarrow> Some (BoolLit True, advance p)
         | FALSE \<Rightarrow> Some (BoolLit False, advance p)
         | HEREDOC_START \<Rightarrow> Some (parse_heredoc_lit p)
         | LBRACE \<Rightarrow> parseObjectLit e n p
         | LBRACKET \<Rightarrow> parseListLit e n p
         | LPAREN \<Rightarrow> do {
             (x, p1) \<leftarrow> e (advance p);
             Some (x, expect RPAREN p1)
           }
         | IDENT \<Rightarrow>
             (let p1 = advance p
              in if currentIs LPAREN p1 then parseCallExpr e n (literal tok) p1
                 else Some (dot_loop (Ident (literal tok)) p1))
         | _ \<Rightarrow> Some (StringLit [],
                   advance (errorf (UnexpectedInExpr (tok_type tok) (literal tok) (tok_line tok)) p)))"

fun parseUnary :: "(parser \<Rightarrow> (expr \<times> parser) option) \<Rightarrow> nat \<Rightarrow> parser
    \<Rightarrow> (expr \<times> parser) option" where
  "parseUnary e 0 p = None"
| "parseUnary e (Suc n) p =
     (if currentIs KW_NOT p
      then do {
        (x, p1) \<leftarrow> parseUnary e n (advance p);
        Some (UnaryExpr ''not'' x, p1)
      }
      else parsePrimary e (Suc n) p)"

definition parseAddition :: "(parser \<Rightarrow> (expr \<times> parser) option) \<Rightarrow> nat \<Rightarrow> parser
    \<Rightarrow> (expr \<times> parser) option" where
  "parseAddition e n p = do {
     (l, p1) \<leftarrow> parseUnary e n p;
     binary_loop addition_op (parseUnary e n) n l p1
   }"

definition parseEquality :: "(parser \<Rightarrow> (expr \<times> parser) option) \<Rightarrow> nat \<Rightarrow> parser
    \<Rightarrow> (expr \<times> parser) option" where
  "parseEquality e n p = do {
     (l, p1) \<leftarrow> parseAddition e n p;
     binary_loop equality_op (parseAddition e n) n l p1
   }"

definition parseAnd :: "(parser \<Rightarrow> (expr \<times> parser) option) \<Rightarrow> nat \<Rightarrow> parser
    \<Rightarrow> (expr \<times> parser) option" where
  "parseAnd e n p = do {
     (l, p1) \<leftarrow> parseEquality e n p;
     binary_loop and_op (parseEquality e n) n l p1
   }"

definition parseOr :: "(parser \<Rightarrow> (expr \<times> parser) option) \<Rightarrow> nat \<Rightarrow> parser
    \<Rightarrow> (expr \<times> parser) option" where
  "parseOr e n p = do {
     (l, p1) \<leftarrow> parseAnd e n p;
     binary_loop or_op (parseAnd e n) n l p1
   }"

fun parse_expr :: "nat \<Rightarrow> parser \<Rightarrow> (expr \<times> parser) option" where
  "parse_expr 0 p = None"
| "parse_expr (Suc n) p = parseOr (parse_expr n) (Suc n) p"

subsection \<open>Declarations (parser\_decl.go, parser\_decl\_extra.go)\<close>

text \<open>The loops over the tokens of a line; each round takes a token.\<close>

lemma expectString_takes: "(x, q) = expectString p \<Longrightarrow> takes p q"
  by (metis snd_conv takes_expectString)

lemma expectIdentOrString_takes: "(x, q) = expectIdentOrString p \<Longrightarrow> takes p q"
  by (metis snd_conv takes_expectIdentOrString)

lemma round_shorter: "takes p q \<Longrightarrow> reads q r \<Longrightarrow> toks p \<noteq> [] \<Longrightarrow> length (toks r) < length (toks p)"
  using takes_length takes_reads_trans by blast

lemma currentIs_nonempty: "currentIs t p \<Longrightarrow> t \<noteq> EOF \<Longrightarrow> toks p \<noteq> []"
  by (auto simp: currentIs_def current_def mk_token_def)

function select_loop :: "str list \<Rightarrow> parser \<Rightarrow> str list \<times> parser" where
  "select_loop opts p =
     (if currentIs RPAREN p \<or> atEnd p then (opts, p)
      else (case expectString p of (o1, p1) \<Rightarrow> select_loop (opts @ [o1]) (skip_comma p1)))"
  by pat_completeness auto
termination
  by (relation "measure (\<lambda>(acc, p). length (toks p))")
    (auto intro: round_shorter expectString_takes reads_skip_comma dest: not_atEnd)

declare select_loop.simps [simp del]

definition parseSelectOptions :: "parser \<Rightarrow> str list \<times> parser" where
  "parseSelectOptions p =
     (case select_loop [] (expect LPAREN p) of (opts, p1) \<Rightarrow> (opts, expect RPAREN p1))"

definition parseAgentDecl :: "position \<Rightarrow> parser \<Rightarrow> decl \<times> parser" where
  "parseAgentDecl pos p =
     (case expectIdentOrString (advance p) of (name, p1) \<Rightarrow> (AgentDecl name pos, expectNewline p1))"

definition parseExecutableDecl :: "position \<Rightarrow> parser \<Rightarrow> decl \<times> parser" where
  "parseExecutableDecl pos p =
     (case expectIdentOrString (advance p) of (name, p1) \<Rightarrow> (ExecutableDecl name pos, expectNewline p1))"

definition parse_config_type :: "parser \<Rightarrow> str \<times> str list \<times> parser" where
  "parse_config_type p =
     (case tok_type (current p) of
        KW_BOOL \<Rightarrow> (''boolean'', [], advance p)
      | KW_STRING \<Rightarrow> (''string'', [], advance p)
      | KW_NUMBER \<Rightarrow> (''number'', [], advance p)
      | KW_SECRET \<Rightarrow> (''secret'', [], advance p)
      | KW_SELECT \<Rightarrow> (case parseSelectOptions (advance p) of (opts, p1) \<Rightarrow> (''select'', opts, p1))
      | ASSIGN \<Rightarrow> ([], [], p)
      | _ \<Rightarrow> ([], [], errorf (ExpectedConfigType (literal (current p)) (tok_line (current p))) p))"

definition parseConfigDecl :: "position \<Rightarrow> parser \<Rightarrow> decl \<times> parser" where
  "parseConfigDecl pos p =
     (case expectIdent (advance p) of (name, p1) \<Rightarrow>
      case parse_config_type p1 of (ty, opts, p2) \<Rightarrow>
      case (if currentIs ASSIGN p2 then parseLiteralValue (advance p2) else (VNil, p2)) of (v, p3) \<Rightarrow>
        (ConfigDecl name ty opts v pos, expectNewline p3))"

definition parse_optional :: "parser \<Rightarrow> bool \<times> parser" where
  "parse_optional p = (if currentIs KW_OPTIONAL p then (True, advance p) else (False, p))"

definition parse_when :: "nat \<Rightarrow> parser \<Rightarrow> (expr option \<times> parser) option" where
  "parse_when n p =
     (if currentIs KW_WHEN p
      then do { (c, p1) \<leftarrow> parse_expr n (advance p); Some (Some c, p1) }
      else Some (None, p))"

definition env_value :: "expr \<Rightarrow> bool \<Rightarrow> str \<times> expr option" where
  "env_value x has_when =
     (case x of StringLit v \<Rightarrow> if has_when then ([], Some x) else (v, None) | _ \<Rightarrow> ([], Some x))"

definition parseEnvDecl :: "nat \<Rightarrow> position \<Rightarrow> parser \<Rightarrow> (decl \<times> parser) option" where
  "parseEnvDecl n pos p =
     (case expectIdent (advance p) of (name, p1) \<Rightarrow>
      case tok_type (current p1) of
        KW_SECRET \<Rightarrow>
          (case parse_optional (advance p1) of (b, p2) \<Rightarrow>
             Some (EnvDecl name ''secret'' [] None None b pos, expectNewline p2))
      | KW_TEXT \<Rightarrow>
          (case parse_optional (advance p1) of (b, p2) \<Rightarrow>
             Some (EnvDecl name ''text'' [] None None b pos, expectNewline p2))
      | ASSIGN \<Rightarrow> do {
          (x, p2) \<leftarrow> parse_expr n (advance p1);
          (c, p3) \<leftarrow> parse_when n p2;
          (case env_value x (currentIs KW_WHEN p2) of (v, ve) \<Rightarrow>
             Some (EnvDecl name [] v ve c False pos, expectNewline p3))
        }
      | _ \<Rightarrow> Some (EnvDecl name [] [] None None False pos,
               expectNewline (errorf (ExpectedEnvKind name (literal (current p1))) p1)))"

definition parseRepoDecl :: "nat \<Rightarrow> position \<Rightarrow> parser \<Rightarrow> (decl \<times> parser) option" where
  "parseRepoDecl n pos p = do {
     (x, p1) \<leftarrow> parse_expr n (advance p);
     Some (RepoDecl x pos, expectNewline p1)
   }"

definition parseBranchDecl :: "nat \<Rightarrow> position \<Rightarrow> parser \<Rightarrow> (decl \<times> parser) option" where
  "parseBranchDecl n pos p = do {
     (x, p1) \<leftarrow> parse_expr n (advance p);
     Some (BranchDecl x pos, expectNewline p1)
   }"

definition parseGitCredentialDecl :: "position \<Rightarrow> parser \<Rightarrow> decl \<times> parser" where
  "parseGitCredentialDecl pos p =
     (case expectIdentOrString (advance p) of (ty, p1) \<Rightarrow> (GitCredentialDecl ty pos, expectNewline p1))"

definition parse_mcp_switch :: "parser \<Rightarrow> bool \<times> parser" where
  "parse_mcp_switch p =
     (if currentIs KW_ON p then (True, advance p)
      else if currentIs KW_OFF p then (False, advance p)
      else (True, errorf (ExpectedMcpSwitch (literal (current p))) p))"

definition parseMcpDecl :: "position \<Rightarrow> parser \<Rightarrow> decl \<times> parser" where
  "parseMcpDecl pos p =
     (case parse_mcp_switch (advance p) of (enabled, p1) \<Rightarrow>
      case (if enabled \<and> currentIs IDENT p1 \<and> literal (current p1) = ''FORMAT''
            then expectIdentOrString (advance p1) else ([], p1)) of (format, p2) \<Rightarrow>
        (McpDecl enabled format pos, expectNewline p2))"

function slugs_loop :: "str list \<Rightarrow> parser \<Rightarrow> str list \<times> parser" where
  "slugs_loop acc p =
     (if isNewlineOrEnd p then (acc, p)
      else (case expectIdentOrString p of (s1, p1) \<Rightarrow> slugs_loop (acc @ [s1]) (skip_comma p1)))"
  by pat_completeness auto
termination
  by (relation "measure (\<lambda>(acc, p). length (toks p))")
    (auto intro: round_shorter expectIdentOrString_takes reads_skip_comma dest: not_isNewlineOrEnd)

declare slugs_loop.simps [simp del]

definition parseSkillsDecl :: "position \<Rightarrow> parser \<Rightarrow> decl \<times> parser" where
  "parseSkillsDecl pos p =
     (case slugs_loop [] (advance p) of (slugs, p1) \<Rightarrow> (SkillsDecl slugs pos, expectNewline p1))"

definition parse_mount_mode :: "str \<Rightarrow> parser \<Rightarrow> str \<times> parser" where
  "parse_mount_mode slug p =
     (if currentIs LBRACKET p
      then (case expectIdentOrString (advance p) of (mode, p1) \<Rightarrow>
              (mode, expect RBRACKET
                 (if mode \<noteq> ''ro'' \<and> mode \<noteq> ''rw'' then errorf (BadMountMode slug mode) p1 else p1)))
      else (''ro'', p))"

lemma reads_parse_mount_mode [reading]: "reads p (snd (parse_mount_mode slug p))"
proof -
  have "reads p (expect RBRACKET (errorf e q))" "reads p (expect RBRACKET q)"
    if "(m, q) = expectIdentOrString (advance p)" for m q e
  proof -
    have "reads p q"
      using that expectIdentOrString_takes takes_advance takes_reads takes_trans by blast
    then show "reads p (expect RBRACKET (errorf e q))" "reads p (expect RBRACKET q)"
      using reads_expect reads_errorf reads_trans by blast+
  qed
  then show ?thesis by (auto simp: parse_mount_mode_def reading split: prod.split)
qed

lemma parse_mount_mode_reads: "(m, q) = parse_mount_mode slug p \<Longrightarrow> reads p q"
  by (metis reads_parse_mount_mode snd_conv)

function mounts_loop :: "mount_ref list \<Rightarrow> parser \<Rightarrow> mount_ref list \<times> parser" where
  "mounts_loop acc p =
     (if isNewlineOrEnd p then (acc, p)
      else (case expectIdentOrString p of (slug, p1) \<Rightarrow>
            case parse_mount_mode slug p1 of (mode, p2) \<Rightarrow>
              mounts_loop (acc @ [\<lparr>mount_slug = slug, mount_mode = mode\<rparr>]) (skip_comma p2)))"
  by pat_completeness auto
termination
  by (relation "measure (\<lambda>(acc, p). length (toks p))")
    (auto intro: round_shorter expectIdentOrString_takes reads_trans [OF parse_mount_mode_reads reads_skip_comma]
      dest: not_isNewlineOrEnd)

declare mounts_loop.simps [simp del]

definition parseKnowledgeDecl :: "position \<Rightarrow> parser \<Rightarrow> decl \<times> parser" where
  "parseKnowledgeDecl pos p =
     (case mounts_loop [] (advance p) of (mounts, p1) \<Rightarrow> (KnowledgeDecl mounts pos, expectNewline p1))"

definition parse_timeout :: "parser \<Rightarrow> int \<times> parser" where
  "parse_timeout p =
     (if currentIs IDENT p \<and> literal (current p) = ''timeout''
      then expectInt (expect ASSIGN (advance p)) else (300, p))"

definition parse_setup_script :: "parser \<Rightarrow> str \<times> parser" where
  "parse_setup_script p =
     (if currentIs HEREDOC_START p
      then (let p1 = advance p
            in if currentIs HEREDOC_BODY p1 then (literal (current p1), advance p1) else ([], p1))
      else ([], p))"

definition parseSetupDecl :: "position \<Rightarrow> parser \<Rightarrow> decl \<times> parser" where
  "parseSetupDecl pos p =
     (case parse_timeout (advance p) of (timeout, p1) \<Rightarrow>
      case parse_setup_script p1 of (script, p2) \<Rightarrow>
        (SetupDecl script timeout pos, skipNewlines p2))"

definition remove_target :: "token_type \<Rightarrow> str option" where
  "remove_target t =
     (case t of
        KW_ENV \<Rightarrow> Some ''ENV'' | KW_SKILLS \<Rightarrow> Some ''SKILLS'' | KW_CONFIG \<Rightarrow> Some ''CONFIG''
      | KW_ARG \<Rightarrow> Some ''arg'' | KW_FILE \<Rightarrow> Some ''file'' | _ \<Rightarrow> None)"

definition parseRemoveDecl :: "position \<Rightarrow> parser \<Rightarrow> decl \<times> parser" where
  "parseRemoveDecl pos p =
     (let p1 = advance p
      in case remove_target (tok_type (current p1)) of
           None \<Rightarrow> (RemoveDecl [] [] pos, advance (errorf (BadRemoveTarget (literal (current p1))) p1))
         | Some target \<Rightarrow>
             (case expectIdentOrString (advance p1) of (name, p2) \<Rightarrow>
                (RemoveDecl target name pos, expectNewline p2)))"

function mode_args_loop :: "str list \<Rightarrow> parser \<Rightarrow> str list \<times> parser" where
  "mode_args_loop acc p =
     (if currentIs STRING p
      then (case expectString p of (a, p1) \<Rightarrow> mode_args_loop (acc @ [a]) p1)
      else (acc, p))"
  by pat_completeness auto
termination
  by (relation "measure (\<lambda>(acc, p). length (toks p))")
    (auto intro: round_shorter expectString_takes reads_refl dest: currentIs_nonempty)

declare mode_args_loop.simps [simp del]

definition parseModeDecl :: "position \<Rightarrow> parser \<Rightarrow> decl \<times> parser" where
  "parseModeDecl pos p =
     (case expectIdentOrString (advance p) of (mode, p1) \<Rightarrow>
      let p2 = (if mode \<noteq> ''pty'' \<and> mode \<noteq> ''acp'' then errorf (BadMode mode) p1 else p1)
      in if \<not> isNewlineOrEnd p2 \<and> currentIs STRING p2
         then (case mode_args_loop [] p2 of (args, p3) \<Rightarrow> (ModeArgsDecl mode args pos, expectNewline p3))
         else (ModeDecl mode pos, expectNewline p2))"

definition parseUseEnvBundleDecl :: "position \<Rightarrow> parser \<Rightarrow> decl \<times> parser" where
  "parseUseEnvBundleDecl pos p =
     (case expectIdentOrString (advance p) of (name, p1) \<Rightarrow> (UseEnvBundleDecl name pos, expectNewline p1))"

definition parseUseConfigBundleDecl :: "position \<Rightarrow> parser \<Rightarrow> decl \<times> parser" where
  "parseUseConfigBundleDecl pos p =
     (case expectIdentOrString (advance p) of (name, p1) \<Rightarrow> (UseConfigBundleDecl name pos, expectNewline p1))"

definition parsePromptDecl :: "position \<Rightarrow> parser \<Rightarrow> decl \<times> parser" where
  "parsePromptDecl pos p =
     (case expectString (advance p) of (content, p1) \<Rightarrow> (PromptDecl content pos, expectNewline p1))"

definition parsePromptPositionDecl :: "position \<Rightarrow> parser \<Rightarrow> decl \<times> parser" where
  "parsePromptPositionDecl pos p =
     (let p1 = advance p;
          tok = current p1;
          mode = literal tok;
          ok = (tok_type tok = KW_PREPEND \<or> tok_type tok = KW_APPEND \<or> tok_type tok = KW_NONE
                \<or> (tok_type tok = IDENT \<and> mode = ''after_first''));
          p2 = (if ok then p1 else errorf (BadPromptPosition mode) p1)
      in (PromptPositionDecl mode pos, expectNewline (advance p2)))"

function capability_loop :: "str \<Rightarrow> str list \<Rightarrow> parser \<Rightarrow> str list \<times> parser" where
  "capability_loop axis parts p =
     (if isNewlineOrEnd p then (parts, p)
      else let tok = current p
           in if tok_type tok \<in> {IDENT, STRING, TRUE, FALSE, KW_NONE}
              then capability_loop axis (parts @ [literal tok]) (advance p)
              else if tok_type tok = COMMA
              then capability_loop axis (parts @ ['','']) (advance p)
              else capability_loop axis parts (advance (errorf (BadCapabilityToken axis (literal tok)) p)))"
  by pat_completeness auto
termination
  by (relation "measure (\<lambda>(axis, parts, p). length (toks p))")
    (auto intro: takes_length takes_advance takes_errorf_advance dest: not_isNewlineOrEnd)

declare capability_loop.simps [simp del]

definition capability_value :: "str \<Rightarrow> str list \<Rightarrow> str" where
  "capability_value axis parts =
     (if axis = ''control'' then concat parts
      else (case parts of [v] \<Rightarrow> v | _ \<Rightarrow> join '' '' parts))"

definition parseCapabilityDecl :: "position \<Rightarrow> parser \<Rightarrow> decl \<times> parser" where
  "parseCapabilityDecl pos p =
     (case expectIdent (advance p) of (name, p1) \<Rightarrow>
      let axis = to_lower name
      in case capability_loop axis [] p1 of (parts, p2) \<Rightarrow>
         let v = capability_value axis parts;
             p3 = (case Validate axis v of None \<Rightarrow> p2 | Some e \<Rightarrow> errorf (BadCapability e) p2)
         in (CapabilityDecl axis v pos, expectNewline p3))"

definition some_decl :: "decl \<times> parser \<Rightarrow> (decl option \<times> parser) option" where
  "some_decl r = Some (Some (fst r), snd r)"

definition tryParseDeclaration :: "nat \<Rightarrow> parser \<Rightarrow> (decl option \<times> parser) option" where
  "tryParseDeclaration n p =
     (let tok = current p; pos = (tok_line tok, tok_col tok)
      in case tok_type tok of
           KW_AGENT \<Rightarrow> some_decl (parseAgentDecl pos p)
         | KW_EXECUTABLE \<Rightarrow> some_decl (parseExecutableDecl pos p)
         | KW_CONFIG \<Rightarrow> some_decl (parseConfigDecl pos p)
         | KW_ENV \<Rightarrow> Option.bind (parseEnvDecl n pos p) some_decl
         | KW_REPO \<Rightarrow> Option.bind (parseRepoDecl n pos p) some_decl
         | KW_BRANCH \<Rightarrow> Option.bind (parseBranchDecl n pos p) some_decl
         | KW_GIT_CREDENTIAL \<Rightarrow> some_decl (parseGitCredentialDecl pos p)
         | KW_MCP \<Rightarrow> some_decl (parseMcpDecl pos p)
         | KW_SKILLS \<Rightarrow> some_decl (parseSkillsDecl pos p)
         | KW_SETUP \<Rightarrow> some_decl (parseSetupDecl pos p)
         | KW_REMOVE \<Rightarrow> some_decl (parseRemoveDecl pos p)
         | KW_MODE \<Rightarrow> some_decl (parseModeDecl pos p)
         | KW_USE_ENV_BUNDLE \<Rightarrow> some_decl (parseUseEnvBundleDecl pos p)
         | KW_USE_CONFIG_BUNDLE \<Rightarrow> some_decl (parseUseConfigBundleDecl pos p)
         | KW_PROMPT \<Rightarrow> some_decl (parsePromptDecl pos p)
         | KW_PROMPT_POSITION \<Rightarrow> some_decl (parsePromptPositionDecl pos p)
         | KW_CAPABILITY \<Rightarrow> some_decl (parseCapabilityDecl pos p)
         | KW_KNOWLEDGE \<Rightarrow> some_decl (parseKnowledgeDecl pos p)
         | _ \<Rightarrow> Some (None, p))"

subsection \<open>Statements (parser\_stmt.go)\<close>

text \<open>As with the expressions, \<open>s\<close> parses a nested statement and \<open>n\<close> bounds the loops.\<close>

fun arg_loop :: "nat \<Rightarrow> expr list \<Rightarrow> parser \<Rightarrow> (expr list \<times> parser) option" where
  "arg_loop 0 acc p = None"
| "arg_loop (Suc n) acc p =
     (if isNewlineOrEnd p \<or> currentIs KW_WHEN p then Some (acc, p)
      else do {
        (x, p1) \<leftarrow> parse_expr (Suc n) p;
        arg_loop n (acc @ [x]) p1
      })"

definition parseArgStmt :: "nat \<Rightarrow> position \<Rightarrow> parser \<Rightarrow> (stmt \<times> parser) option" where
  "parseArgStmt n pos p = do {
     (args, p1) \<leftarrow> arg_loop n [] (advance p);
     (w, p2) \<leftarrow> parse_when n p1;
     Some (ArgStmt args w pos, expectNewline p2)
   }"

definition parse_file_mode :: "parser \<Rightarrow> int \<times> parser" where
  "parse_file_mode p =
     (if currentIs NUMBER p \<and> \<not> isNewlineOrEnd p then expectInt p else (0, p))"

definition parseFileStmt :: "nat \<Rightarrow> position \<Rightarrow> parser \<Rightarrow> (stmt \<times> parser) option" where
  "parseFileStmt n pos p = do {
     (path, p1) \<leftarrow> parse_expr n (advance p);
     (content, p2) \<leftarrow> parse_expr n p1;
     (case parse_file_mode p2 of (mode, p3) \<Rightarrow> do {
        (w, p4) \<leftarrow> parse_when n p3;
        Some (FileStmt path content mode w pos, expectNewline p4)
      })
   }"

definition parseMkdirStmt :: "nat \<Rightarrow> position \<Rightarrow> parser \<Rightarrow> (stmt \<times> parser) option" where
  "parseMkdirStmt n pos p = do {
     (path, p1) \<leftarrow> parse_expr n (advance p);
     Some (MkdirStmt path pos, expectNewline p1)
   }"

definition parseAssignStmt :: "nat \<Rightarrow> position \<Rightarrow> parser \<Rightarrow> (stmt \<times> parser) option" where
  "parseAssignStmt n pos p = do {
     (v, p1) \<leftarrow> parse_expr n (advance (advance p));
     Some (AssignStmt (literal (current p)) v pos, expectNewline p1)
   }"

fun block_loop :: "(parser \<Rightarrow> (stmt option \<times> parser) option) \<Rightarrow> nat \<Rightarrow> stmt list \<Rightarrow> parser
    \<Rightarrow> (stmt list \<times> parser) option" where
  "block_loop s 0 acc p = None"
| "block_loop s (Suc n) acc p =
     (if currentIs RBRACE p \<or> atEnd p then Some (acc, p)
      else let p1 = skipNewlines p
           in if currentIs RBRACE p1 then Some (acc, p1)
              else do {
                (r, p2) \<leftarrow> s p1;
                (case r of
                   Some st \<Rightarrow> block_loop s n (acc @ [st]) p2
                 | None \<Rightarrow>
                     (let tok = current p1
                      in block_loop s n acc
                           (advance (errorf (UnexpectedInBlock (tok_type tok) (literal tok) (tok_line tok)) p2))))
              })"

definition parseBlock :: "(parser \<Rightarrow> (stmt option \<times> parser) option) \<Rightarrow> nat \<Rightarrow> parser
    \<Rightarrow> (stmt list \<times> parser) option" where
  "parseBlock s n p = do {
     (body, p1) \<leftarrow> block_loop s n [] (skipNewlines (expect LBRACE (skipNewlines p)));
     Some (body, expect RBRACE p1)
   }"

definition parse_else :: "(parser \<Rightarrow> (stmt option \<times> parser) option) \<Rightarrow> nat \<Rightarrow> parser
    \<Rightarrow> (stmt list option \<times> parser) option" where
  "parse_else s n p =
     (if currentIs KW_ELSE p
      then do { (body, p1) \<leftarrow> parseBlock s n (advance p); Some (Some body, p1) }
      else Some (None, p))"

definition parseIfStmt :: "(parser \<Rightarrow> (stmt option \<times> parser) option) \<Rightarrow> nat \<Rightarrow> position \<Rightarrow> parser
    \<Rightarrow> (stmt \<times> parser) option" where
  "parseIfStmt s n pos p = do {
     (c, p1) \<leftarrow> parse_expr n (advance p);
     (body, p2) \<leftarrow> parseBlock s n p1;
     (els, p3) \<leftarrow> parse_else s n (skipNewlines p2);
     Some (IfStmt c body els pos, p3)
   }"

definition parse_for_value :: "parser \<Rightarrow> str \<times> parser" where
  "parse_for_value p = (if currentIs COMMA p then expectIdent (advance p) else ([], p))"

definition parseForStmt :: "(parser \<Rightarrow> (stmt option \<times> parser) option) \<Rightarrow> nat \<Rightarrow> position \<Rightarrow> parser
    \<Rightarrow> (stmt \<times> parser) option" where
  "parseForStmt s n pos p =
     (case expectIdent (advance p) of (key, p1) \<Rightarrow>
      case parse_for_value p1 of (v, p2) \<Rightarrow> do {
        (it, p3) \<leftarrow> parse_expr n (expect KW_IN p2);
        (body, p4) \<leftarrow> parseBlock s n p3;
        Some (ForStmt key v it body pos, p4)
      })"

definition some_stmt :: "(stmt \<times> parser) option \<Rightarrow> (stmt option \<times> parser) option" where
  "some_stmt r = map_option (\<lambda>(st, p). (Some st, p)) r"

definition tryParseStatement :: "(parser \<Rightarrow> (stmt option \<times> parser) option) \<Rightarrow> nat \<Rightarrow> parser
    \<Rightarrow> (stmt option \<times> parser) option" where
  "tryParseStatement s n p =
     (let tok = current p; pos = (tok_line tok, tok_col tok)
      in case tok_type tok of
           KW_ARG \<Rightarrow> some_stmt (parseArgStmt n pos p)
         | KW_FILE \<Rightarrow> some_stmt (parseFileStmt n pos p)
         | KW_MKDIR \<Rightarrow> some_stmt (parseMkdirStmt n pos p)
         | KW_IF \<Rightarrow> some_stmt (parseIfStmt s n pos p)
         | KW_FOR \<Rightarrow> some_stmt (parseForStmt s n pos p)
         | IDENT \<Rightarrow> if peekIs ASSIGN p then some_stmt (parseAssignStmt n pos p) else Some (None, p)
         | _ \<Rightarrow> Some (None, p))"

fun parse_stmt :: "nat \<Rightarrow> parser \<Rightarrow> (stmt option \<times> parser) option" where
  "parse_stmt 0 p = None"
| "parse_stmt (Suc n) p = tryParseStatement (parse_stmt n) (Suc n) p"

subsection \<open>The program (parser.go)\<close>

fun parseProgram :: "nat \<Rightarrow> nat \<Rightarrow> program \<Rightarrow> parser \<Rightarrow> (program \<times> parser) option" where
  "parseProgram depth 0 prog p = None"
| "parseProgram depth (Suc n) prog p =
     (if atEnd p then Some (prog, p)
      else let p1 = skipNewlines p
           in if atEnd p1 then Some (prog, p1)
              else do {
                (d, p2) \<leftarrow> tryParseDeclaration depth p1;
                (case d of
                   Some d' \<Rightarrow> parseProgram depth n (prog\<lparr>Declarations := Declarations prog @ [d']\<rparr>) p2
                 | None \<Rightarrow> do {
                     (st, p3) \<leftarrow> parse_stmt depth p2;
                     (case st of
                        Some st' \<Rightarrow> parseProgram depth n (prog\<lparr>Statements := Statements prog @ [st']\<rparr>) p3
                      | None \<Rightarrow>
                          (let tok = current p1
                           in parseProgram depth n prog
                                (advance (errorf (UnexpectedToken (tok_type tok) (literal tok) (tok_line tok)) p3))))
                   })
              })"

definition empty_program :: program where
  "empty_program = \<lparr>Declarations = [], Statements = []\<rparr>"

text \<open>The depth and the number of rounds: one more than there are tokens.\<close>

definition Parse :: "str \<Rightarrow> (program \<times> parse_error list) option" where
  "Parse src =
     (let ts = Tokenize src; n = Suc (length ts)
      in map_option (\<lambda>(prog, p). (prog, errors p))
           (parseProgram n n empty_program \<lparr>toks = ts, errors = []\<rparr>))"

end
