(* ===== verification/AgentMerge.thy ===== *)
theory AgentMerge
  imports AgentAst
begin

text \<open>
  The overlay of Agentfile programs (agentfile/merge/merge.go): a base program and a slice give
  one program, declarations by key and statements in a row. The index of declarations is the
  ordered list of keys with the map from keys to declarations, as in the source.
\<close>

type_synonym decl_key = "str \<times> str"

record indexed_decls =
  order :: "decl_key list"
  decls :: "decl_key \<Rightarrow> decl option"

fun getDeclKey :: "decl \<Rightarrow> decl_key" where
  "getDeclKey (AgentDecl _ _) = (''AGENT'', [])"
| "getDeclKey (ExecutableDecl _ _) = (''EXECUTABLE'', [])"
| "getDeclKey (ConfigDecl name _ _ _ _) = (''CONFIG'', name)"
| "getDeclKey (EnvDecl name _ _ _ _ _ _) = (''ENV'', name)"
| "getDeclKey (RepoDecl _ _) = (''REPO'', [])"
| "getDeclKey (BranchDecl _ _) = (''BRANCH'', [])"
| "getDeclKey (GitCredentialDecl _ _) = (''GIT_CREDENTIAL'', [])"
| "getDeclKey (McpDecl _ _ _) = (''MCP'', [])"
| "getDeclKey (SkillsDecl _ _) = (''SKILLS'', [])"
| "getDeclKey (KnowledgeDecl _ _) = (''KNOWLEDGE'', [])"
| "getDeclKey (SetupDecl _ _ _) = (''SETUP'', [])"
| "getDeclKey (ModeDecl _ _) = (''MODE'', [])"
| "getDeclKey (ModeArgsDecl mode _ _) = (''MODE_ARGS'', mode)"
| "getDeclKey (UseEnvBundleDecl name _) = (''USE_ENV_BUNDLE'', name)"
| "getDeclKey (UseConfigBundleDecl name _) = (''USE_CONFIG_BUNDLE'', name)"
| "getDeclKey (PromptDecl _ _) = (''PROMPT'', [])"
| "getDeclKey (PromptPositionDecl _ _) = (''PROMPT_POSITION'', [])"
| "getDeclKey (CapabilityDecl axis _ _) = (''CAPABILITY'', axis)"
| "getDeclKey (RemoveDecl target name _) = (''REMOVE'', target @ ''.'' @ name)"

text \<open>The assignment \<open>decls[key] = d\<close>, with the key appended to the order or not.\<close>

definition put_decl :: "decl_key \<Rightarrow> decl \<Rightarrow> indexed_decls \<Rightarrow> indexed_decls" where
  "put_decl key d idx = idx\<lparr>decls := (decls idx)(key \<mapsto> d)\<rparr>"

definition append_key :: "decl_key \<Rightarrow> indexed_decls \<Rightarrow> indexed_decls" where
  "append_key key idx = idx\<lparr>order := order idx @ [key]\<rparr>"

definition put_or_append :: "decl_key \<Rightarrow> decl \<Rightarrow> indexed_decls \<Rightarrow> indexed_decls" where
  "put_or_append key d idx =
     put_decl key d (if decls idx key = None then append_key key idx else idx)"

definition indexDeclarations :: "decl list \<Rightarrow> indexed_decls" where
  "indexDeclarations ds = fold (\<lambda>d. put_or_append (getDeclKey d) d) ds \<lparr>order = [], decls = \<lambda>_. None\<rparr>"

definition flattenDeclarations :: "indexed_decls \<Rightarrow> decl list" where
  "flattenDeclarations idx = List.map_filter (decls idx) (order idx)"

definition unionStrings :: "str list \<Rightarrow> str list \<Rightarrow> str list" where
  "unionStrings a b = a @ filter (\<lambda>s. s \<notin> set a) b"

text \<open>The position of a slug: the last one in the first list, its own when it was appended.\<close>

fun last_pos :: "str \<Rightarrow> mount_ref list \<Rightarrow> nat option" where
  "last_pos s [] = None"
| "last_pos s (m # ms) = (case last_pos s ms of
     Some i \<Rightarrow> Some (Suc i) | None \<Rightarrow> if mount_slug m = s then Some 0 else None)"

definition union_mount :: "mount_ref list \<Rightarrow> mount_ref \<Rightarrow> mount_ref list" where
  "union_mount result m = (case last_pos (mount_slug m) result of
       Some i \<Rightarrow> result[i := (result ! i)\<lparr>mount_mode := mount_mode m\<rparr>]
     | None \<Rightarrow> result @ [m])"

definition unionKnowledgeMounts :: "mount_ref list \<Rightarrow> mount_ref list \<Rightarrow> mount_ref list" where
  "unionKnowledgeMounts a b = foldl union_mount a b"

text \<open>A merged list declaration has no position: its Go value leaves it zero.\<close>

definition no_pos :: position where
  "no_pos = (0, 0)"

definition findSkillsDecl :: "indexed_decls \<Rightarrow> str list option" where
  "findSkillsDecl idx = (case decls idx (''SKILLS'', []) of
       Some (SkillsDecl slugs _) \<Rightarrow> Some slugs | _ \<Rightarrow> None)"

definition findKnowledgeDecl :: "indexed_decls \<Rightarrow> mount_ref list option" where
  "findKnowledgeDecl idx = (case decls idx (''KNOWLEDGE'', []) of
       Some (KnowledgeDecl mounts _) \<Rightarrow> Some mounts | _ \<Rightarrow> None)"

definition apply_remove :: "str \<Rightarrow> str \<Rightarrow> decl \<Rightarrow> indexed_decls \<Rightarrow> indexed_decls" where
  "apply_remove target name d idx =
     (let rKey = (''REMOVE'', target @ ''.'' @ name);
          idx1 = idx\<lparr>decls := (decls idx)((target, name) := None)\<rparr>
      in append_key rKey (put_decl rKey d idx1))"

definition apply_slice_decl :: "decl \<Rightarrow> indexed_decls \<Rightarrow> indexed_decls" where
  "apply_slice_decl d idx = (case d of
       RemoveDecl target name _ \<Rightarrow> apply_remove target name d idx
     | SkillsDecl slugs _ \<Rightarrow> (case findSkillsDecl idx of
           Some existing \<Rightarrow> put_decl (''SKILLS'', []) (SkillsDecl (unionStrings existing slugs) no_pos) idx
         | None \<Rightarrow> append_key (getDeclKey d) (put_decl (getDeclKey d) d idx))
     | KnowledgeDecl mounts _ \<Rightarrow> (case findKnowledgeDecl idx of
           Some existing \<Rightarrow>
             put_decl (''KNOWLEDGE'', []) (KnowledgeDecl (unionKnowledgeMounts existing mounts) no_pos) idx
         | None \<Rightarrow> append_key (getDeclKey d) (put_decl (getDeclKey d) d idx))
     | ConfigDecl name ty _ dflt _ \<Rightarrow>
         (if ty = [] then
            (case decls idx (getDeclKey d) of
               Some (ConfigDecl name' ty' opts' _ pos') \<Rightarrow>
                 put_decl (getDeclKey d) (ConfigDecl name' ty' opts' dflt pos') idx
             | _ \<Rightarrow> put_or_append (getDeclKey d) d idx)
          else put_or_append (getDeclKey d) d idx)
     | _ \<Rightarrow> put_or_append (getDeclKey d) d idx)"

definition applySliceDeclarations :: "indexed_decls \<Rightarrow> decl list \<Rightarrow> indexed_decls" where
  "applySliceDeclarations base ds = fold apply_slice_decl ds base"

definition Merge :: "program \<Rightarrow> program \<Rightarrow> program" where
  "Merge base slice =
     \<lparr>Declarations = flattenDeclarations
        (applySliceDeclarations (indexDeclarations (Declarations base)) (Declarations slice)),
      Statements = Statements base @ Statements slice\<rparr>"

end
