(* ===== verification/GoQuote.thy ===== *)
theory GoQuote
  imports Prelude
begin

text \<open>
  strconv.Quote and strconv.Unquote of Go, on runes U+0000 to U+00FF. A literal whose value
  has a rune above U+00FF, or a byte that is not part of a rune, has a value this text type cannot
  hold; Unquote then says so (\<open>Beyond\<close>), which is not an error of the program.
\<close>

definition low_hex :: "nat \<Rightarrow> rune" where
  "low_hex d = (if d < 10 then digit_char d else char_of (87 + d))"

definition go_quote_rune :: "rune \<Rightarrow> str" where
  "go_quote_rune c =
     (if c = DQUOTE \<or> c = BSLASH then [BSLASH, c]
      else if SP \<le> c \<and> c \<le> CHR ''~'' \<or> (CHR 0xA1 \<le> c \<and> c \<noteq> CHR 0xAD) then [c]
      else if c = CHR 0x07 then BSLASH # ''a''
      else if c = CHR 0x08 then BSLASH # ''b''
      else if c = CHR 0x0C then BSLASH # ''f''
      else if c = NL then BSLASH # ''n''
      else if c = CR then BSLASH # ''r''
      else if c = TAB then BSLASH # ''t''
      else if c = CHR 0x0B then BSLASH # ''v''
      else if c < SP \<or> c = CHR 0x7F then BSLASH # ''x'' @ [low_hex (code c div 16), low_hex (code c mod 16)]
      else BSLASH # ''u00'' @ [low_hex (code c div 16), low_hex (code c mod 16)])"

definition strconv_quote :: "str \<Rightarrow> str" where
  "strconv_quote s = DQUOTE # concat (map go_quote_rune s) @ [DQUOTE]"

subsection \<open>Unquote\<close>

datatype unquoted = Unquoted str | BadEscape | Beyond

text \<open>A character of the literal: its rune and what follows it, a wrong escape, or a value beyond the model.\<close>

datatype unquoted_char = UChar rune str | UBad | UBeyond

definition unhex :: "rune \<Rightarrow> nat option" where
  "unhex c = (if is_digit c then Some (code c - 48)
     else if CHR ''a'' \<le> c \<and> c \<le> CHR ''f'' then Some (code c - 87)
     else if CHR ''A'' \<le> c \<and> c \<le> CHR ''F'' then Some (code c - 55) else None)"

fun read_hex :: "str \<Rightarrow> nat \<Rightarrow> nat option" where
  "read_hex [] v = Some v"
| "read_hex (c # cs) v = (case unhex c of None \<Rightarrow> None | Some d \<Rightarrow> read_hex cs (16 * v + d))"

definition valid_rune :: "nat \<Rightarrow> bool" where
  "valid_rune v \<longleftrightarrow> v < 0xD800 \<or> (0xE000 \<le> v \<and> v \<le> 0x10FFFF)"

definition simple_escapes :: "(rune \<times> rune) list" where
  "simple_escapes = [(CHR ''a'', CHR 0x07), (CHR ''b'', CHR 0x08), (CHR ''f'', CHR 0x0C), (CHR ''n'', NL),
     (CHR ''r'', CR), (CHR ''t'', TAB), (CHR ''v'', CHR 0x0B), (BSLASH, BSLASH), (DQUOTE, DQUOTE)]"

definition hex_escape :: "nat \<Rightarrow> (nat \<Rightarrow> str \<Rightarrow> unquoted_char) \<Rightarrow> str \<Rightarrow> unquoted_char" where
  "hex_escape n val s =
     (if length s < n then UBad
      else case read_hex (take n s) 0 of None \<Rightarrow> UBad | Some v \<Rightarrow> val v (drop n s))"

definition byte_value :: "nat \<Rightarrow> str \<Rightarrow> unquoted_char" where
  "byte_value v rest = (if v < 128 then UChar (char_of v) rest else UBeyond)"

definition rune_value :: "nat \<Rightarrow> str \<Rightarrow> unquoted_char" where
  "rune_value v rest = (if \<not> valid_rune v then UBad else if v < 256 then UChar (char_of v) rest else UBeyond)"

definition is_octal :: "rune \<Rightarrow> bool" where
  "is_octal c \<longleftrightarrow> CHR ''0'' \<le> c \<and> c \<le> CHR ''7''"

definition octal_escape :: "rune \<Rightarrow> str \<Rightarrow> unquoted_char" where
  "octal_escape c s =
     (case s of
        d # e # rest \<Rightarrow>
          (if is_octal d \<and> is_octal e
           then (let v = 64 * digit_val c + 8 * digit_val d + digit_val e
                 in if v > 255 then UBad else byte_value v rest)
           else UBad)
      | _ \<Rightarrow> UBad)"

text \<open>strconv.UnquoteChar for the quote \<open>"\<close>.\<close>

definition UnquoteChar :: "str \<Rightarrow> unquoted_char" where
  "UnquoteChar s =
     (case s of
        [] \<Rightarrow> UBad
      | c # cs \<Rightarrow>
        (if c = DQUOTE then UBad
         else if c \<noteq> BSLASH then UChar c cs
         else (case cs of
             [] \<Rightarrow> UBad
           | e # rest \<Rightarrow>
             (case map_of simple_escapes e of
                Some r \<Rightarrow> UChar r rest
              | None \<Rightarrow>
                (if e = CHR ''x'' then hex_escape 2 byte_value rest
                 else if e = CHR ''u'' then hex_escape 4 rune_value rest
                 else if e = CHR ''U'' then hex_escape 8 rune_value rest
                 else if is_octal e then octal_escape e rest
                 else UBad)))))"

lemma UnquoteChar_shorter: "UnquoteChar s = UChar r rest \<Longrightarrow> length rest < length s"
  by (auto simp: UnquoteChar_def hex_escape_def byte_value_def rune_value_def octal_escape_def Let_def
      split: list.splits option.splits if_splits)

text \<open>The part of the literal after its opening quote.\<close>

function unquote_rest :: "str \<Rightarrow> str \<Rightarrow> unquoted" where
  "unquote_rest acc s =
     (if s = [] then BadEscape
      else if hd s = DQUOTE then (if tl s = [] then Unquoted (rev acc) else BadEscape)
      else if hd s = NL then BadEscape
      else (case UnquoteChar s of
          UChar r rest \<Rightarrow> unquote_rest (r # acc) rest
        | UBad \<Rightarrow> BadEscape
        | UBeyond \<Rightarrow> Beyond))"
  by pat_completeness auto
termination by (relation "measure (length \<circ> snd)") (auto dest: UnquoteChar_shorter)

declare unquote_rest.simps [simp del]

definition strconv_unquote :: "str \<Rightarrow> unquoted" where
  "strconv_unquote s = (case s of [] \<Rightarrow> BadEscape | c # cs \<Rightarrow> if c = DQUOTE then unquote_rest [] cs else BadEscape)"

subsection \<open>Unquote after Quote\<close>

lemma unhex_low_hex: "d < 16 \<Longrightarrow> unhex (low_hex d) = Some d"
  by (auto simp: unhex_def low_hex_def digit_char_def is_digit_def code_def less_eq_char_def)

lemma code_less: "code c < 256"
  by (simp add: code_def)

lemma char_of_code [simp]: "char_of (code c) = c"
  by (simp add: code_def)

text \<open>Every quoted rune is one escape or one rune that Unquote reads back.\<close>

lemma UnquoteChar_quoted: "UnquoteChar (go_quote_rune c @ s) = UChar c s"
proof -
  have "code c < 256" by (rule code_less)
  then have hex: "read_hex [low_hex (code c div 16), low_hex (code c mod 16)] 0 = Some (code c)"
    by (simp add: unhex_low_hex)
  then have hex4: "read_hex [CHR ''0'', CHR ''0'', low_hex (code c div 16), low_hex (code c mod 16)] 0 = Some (code c)"
    by (simp add: unhex_def is_digit_def code_def)
  have small: "c < SP \<or> c = CHR 0x7F \<Longrightarrow> code c < 128"
    by (auto simp: code_def less_char_def)
  show ?thesis
    using \<open>code c < 256\<close> small hex hex4
    by (auto simp: UnquoteChar_def go_quote_rune_def simple_escapes_def hex_escape_def byte_value_def rune_value_def
        valid_rune_def simp del: read_hex.simps)
qed

lemma go_quote_rune_start: "\<exists>x xs. go_quote_rune c = x # xs \<and> x \<noteq> DQUOTE \<and> x \<noteq> NL"
  by (auto simp: go_quote_rune_def less_eq_char_def)

lemma unquote_rest_quoted: "unquote_rest acc (concat (map go_quote_rune s) @ [DQUOTE]) = Unquoted (rev acc @ s)"
proof (induction s arbitrary: acc)
  case Nil
  then show ?case by (simp add: unquote_rest.simps)
next
  case (Cons c s)
  obtain x xs where "go_quote_rune c = x # xs" "x \<noteq> DQUOTE" "x \<noteq> NL" using go_quote_rune_start by blast
  then show ?case
    using UnquoteChar_quoted [of c "concat (map go_quote_rune s) @ [DQUOTE]"] Cons.IH
    by (simp add: unquote_rest.simps [of acc "x # _"])
qed

lemma unquote_quote: "strconv_unquote (strconv_quote s) = Unquoted s"
  by (simp add: strconv_unquote_def strconv_quote_def unquote_rest_quoted)

end
