(* ===== verification/AgentSerialize.thy ===== *)
theory AgentSerialize
  imports AgentValues GoQuote
begin

text \<open>
  The printer of Agentfile programs (agentfile/serialize) and the canonical string escaping of
  agentfile/format.go. The writers return the text they append to Go's strings.Builder. The verb \<open>%q\<close> is strconv.Quote (theory GoQuote).
\<close>

subsection \<open>Strings\<close>

definition quote_rune :: "rune \<Rightarrow> str" where
  "quote_rune c =
     (if c = DQUOTE then [BSLASH, DQUOTE]
      else if c = BSLASH then [BSLASH, BSLASH]
      else if c = NL then BSLASH # ''n''
      else if c = TAB then BSLASH # ''t''
      else [c])"

definition QuoteString :: "str \<Rightarrow> str" where
  "QuoteString s = DQUOTE # concat (map quote_rune s) @ [DQUOTE]"

definition FormatStringLiteral :: "str \<Rightarrow> str" where
  "FormatStringLiteral s =
     (let e1 = strings_replace_all s [BSLASH] [BSLASH, BSLASH];
          e2 = strings_replace_all e1 [DQUOTE] [BSLASH, DQUOTE];
          e3 = strings_replace_all e2 [NL] (BSLASH # ''n'');
          e4 = strings_replace_all e3 [TAB] (BSLASH # ''t'')
      in DQUOTE # e4 @ [DQUOTE])"

definition isIdentChar :: "rune \<Rightarrow> bool" where
  "isIdentChar ch \<longleftrightarrow> (CHR ''a'' \<le> ch \<and> ch \<le> CHR ''z'') \<or> (CHR ''A'' \<le> ch \<and> ch \<le> CHR ''Z'')
     \<or> (CHR ''0'' \<le> ch \<and> ch \<le> CHR ''9'') \<or> ch = CHR ''_''"

definition quoteIfNeeded :: "str \<Rightarrow> str" where
  "quoteIfNeeded s =
     (if s = [] then [DQUOTE, DQUOTE]
      else if list_all isIdentChar s then s else QuoteString s)"

subsection \<open>Values\<close>

text \<open>serialize.FormatValue, and agentfile.FormatValue of format.go that differs in the strings.\<close>

definition FormatValue :: "val \<Rightarrow> str" where
  "FormatValue v = (case v of
       VStr s \<Rightarrow> QuoteString s
     | VBool b \<Rightarrow> if b then ''true'' else ''false''
     | VFloat f \<Rightarrow> if f64_is_int64 f then show_int (f64_to_int64 f) else fmt_g f
     | _ \<Rightarrow> strconv_quote (fmt_v v))"

definition agentfile_FormatValue :: "val \<Rightarrow> str" where
  "agentfile_FormatValue v = (case v of
       VStr s \<Rightarrow> FormatStringLiteral s
     | VBool b \<Rightarrow> if b then ''true'' else ''false''
     | VFloat f \<Rightarrow> if f64_is_int64 f then show_int (f64_to_int64 f) else fmt_g f
     | _ \<Rightarrow> FormatStringLiteral (fmt_v v))"

definition configTypeKeyword :: "str \<Rightarrow> str" where
  "configTypeKeyword typeName =
     (if typeName = ''boolean'' then ''BOOL''
      else if typeName = ''string'' then ''STRING''
      else if typeName = ''number'' then ''NUMBER''
      else if typeName = ''secret'' then ''SECRET''
      else if typeName = ''select'' then ''SELECT''
      else to_upper typeName)"

subsection \<open>Heredocs\<close>

definition heredoc_candidates :: "str list" where
  "heredoc_candidates = [''EOF'', ''HEREDOC'', ''END'', ''SCRIPT'', ''DOC'']"

lemma contains_length: "contains s sub \<Longrightarrow> length sub \<le> length s"
  by (induction s sub rule: contains.induct) (auto dest: prefix_length_le)

lemma nat_digits_bound: "n < 10 ^ length (nat_digits n)"
proof (induction n rule: nat_digits.induct)
  case (1 n)
  show ?case
  proof (cases "n < 10")
    case False
    then have "n div 10 < 10 ^ length (nat_digits (n div 10))" using 1 by simp
    then have "n < 10 * 10 ^ length (nat_digits (n div 10))" by auto
    then show ?thesis using False by (subst nat_digits.simps) simp
  qed (simp add: nat_digits.simps)
qed

text \<open>The fallback \<open>EOF0\<close>, \<open>EOF1\<close> and so on: a marker longer than the content ends the search.\<close>

function fallback_marker :: "str \<Rightarrow> nat \<Rightarrow> str" where
  "fallback_marker content i =
     (let m = ''EOF'' @ show_nat i
      in if contains content m then fallback_marker content (Suc i) else m)"
  by pat_completeness auto
termination
proof (relation "measure (\<lambda>(content, i). 10 ^ length content - i)")
  fix content m i
  assume "m = ''EOF'' @ show_nat i" "contains content m"
  then have "length (nat_digits i) \<le> length content"
    using contains_length by (fastforce simp: show_nat_def)
  then have "i < 10 ^ length content"
    using nat_digits_bound [of i] power_increasing [of "length (nat_digits i)" "length content" "10 :: nat"]
    by linarith
  then show "((content, Suc i), content, i) \<in> measure (\<lambda>(content, i). 10 ^ length content - i)"
    by simp
qed simp

declare fallback_marker.simps [simp del]

definition chooseHeredocMarker :: "str \<Rightarrow> str" where
  "chooseHeredocMarker content =
     (case filter (\<lambda>m. \<not> contains content m) heredoc_candidates of
        m # _ \<Rightarrow> m
      | [] \<Rightarrow> fallback_marker content 0)"

definition heredoc_text :: "str \<Rightarrow> str" where
  "heredoc_text content =
     (let marker = chooseHeredocMarker content
      in ''<<'' @ marker @ [NL] @ content @ [NL] @ marker)"

subsection \<open>Expressions (serialize\_expr.go)\<close>

definition wrap_object :: "str list \<Rightarrow> str" where
  "wrap_object fs = (if fs = [] then ''{}'' else ''{ '' @ join '', '' fs @ '' }'')"

definition wrap_list :: "str list \<Rightarrow> str" where
  "wrap_list xs = (if xs = [] then ''[]'' else ''['' @ join '', '' xs @ '']'')"

fun serializeExpr :: "expr \<Rightarrow> str" where
  "serializeExpr (StringLit s) = QuoteString s"
| "serializeExpr (NumberLit s) = s"
| "serializeExpr (BoolLit b) = (if b then ''true'' else ''false'')"
| "serializeExpr (Ident name) = name"
| "serializeExpr (DotExpr l field) = serializeExpr l @ ''.'' @ field"
| "serializeExpr (BinaryExpr l op r) = serializeExpr l @ '' '' @ op @ '' '' @ serializeExpr r"
| "serializeExpr (UnaryExpr op x) = ''not '' @ serializeExpr x"
| "serializeExpr (CallExpr fn args) = fn @ ''('' @ join '', '' (map serializeExpr args) @ '')''"
| "serializeExpr (ObjectLit fs) = wrap_object (map (\<lambda>(k, x). k @ '': '' @ serializeExpr x) fs)"
| "serializeExpr (HeredocLit s) = heredoc_text s"
| "serializeExpr (ListLit xs) = wrap_list (map serializeExpr xs)"

definition writeWhen :: "expr option \<Rightarrow> str" where
  "writeWhen w = (case w of None \<Rightarrow> [] | Some e \<Rightarrow> '' when '' @ serializeExpr e)"

subsection \<open>Declarations (serialize.go)\<close>

definition writeConfigDecl :: "str \<Rightarrow> str \<Rightarrow> str list \<Rightarrow> val \<Rightarrow> str" where
  "writeConfigDecl name ty opts dflt =
     ''CONFIG '' @ name
     @ (if ty \<noteq> [] then
          '' '' @ configTypeKeyword ty
          @ (if ty = ''select'' \<and> opts \<noteq> [] then ''('' @ join '', '' (map QuoteString opts) @ '')'' else [])
        else [])
     @ (if dflt \<noteq> VNil then '' = '' @ FormatValue dflt else [])"

definition writeEnvDecl :: "str \<Rightarrow> str \<Rightarrow> str \<Rightarrow> expr option \<Rightarrow> expr option \<Rightarrow> bool \<Rightarrow> str" where
  "writeEnvDecl name source value ve w optional =
     ''ENV '' @ name
     @ (if source \<noteq> [] then '' '' @ to_upper source @ (if optional then '' OPTIONAL'' else [])
        else (case ve of
            Some e \<Rightarrow> '' = '' @ serializeExpr e @ writeWhen w
          | None \<Rightarrow> '' = '' @ QuoteString value))"

definition writeMcpDecl :: "bool \<Rightarrow> str \<Rightarrow> str" where
  "writeMcpDecl enabled format =
     (if enabled then ''MCP ON'' @ (if format \<noteq> [] then '' FORMAT '' @ format else []) else ''MCP OFF'')"

definition writeSetupDecl :: "str \<Rightarrow> int \<Rightarrow> str" where
  "writeSetupDecl script timeout =
     ''SETUP'' @ (if timeout \<noteq> 300 then '' timeout='' @ show_int timeout else [])
     @ '' '' @ heredoc_text script"

definition write_mount :: "mount_ref \<Rightarrow> str" where
  "write_mount m = mount_slug m @ (if mount_mode m = ''rw'' then '' [rw]'' else [])"

definition writeKnowledgeDecl :: "mount_ref list \<Rightarrow> str" where
  "writeKnowledgeDecl mounts = ''KNOWLEDGE '' @ join '', '' (map write_mount mounts)"

fun writeDecl :: "decl \<Rightarrow> str" where
  "writeDecl (AgentDecl command _) = ''AGENT '' @ quoteIfNeeded command"
| "writeDecl (ExecutableDecl name _) = ''EXECUTABLE '' @ quoteIfNeeded name"
| "writeDecl (ConfigDecl name ty opts dflt _) = writeConfigDecl name ty opts dflt"
| "writeDecl (EnvDecl name source value ve w optional _) = writeEnvDecl name source value ve w optional"
| "writeDecl (RepoDecl e _) = ''REPO '' @ serializeExpr e"
| "writeDecl (BranchDecl e _) = ''BRANCH '' @ serializeExpr e"
| "writeDecl (GitCredentialDecl t _) = ''GIT_CREDENTIAL '' @ t"
| "writeDecl (McpDecl enabled format _) = writeMcpDecl enabled format"
| "writeDecl (SkillsDecl slugs _) = ''SKILLS '' @ join '', '' slugs"
| "writeDecl (SetupDecl script timeout _) = writeSetupDecl script timeout"
| "writeDecl (RemoveDecl target name _) = ''REMOVE '' @ target @ '' '' @ QuoteString name"
| "writeDecl (ModeDecl mode _) = ''MODE '' @ mode"
| "writeDecl (ModeArgsDecl mode args _) =
     ''MODE '' @ mode @ concat (map (\<lambda>a. '' '' @ QuoteString a) args)"
| "writeDecl (UseEnvBundleDecl name _) = ''USE_ENV_BUNDLE '' @ quoteIfNeeded name"
| "writeDecl (UseConfigBundleDecl name _) = ''USE_CONFIG_BUNDLE '' @ quoteIfNeeded name"
| "writeDecl (PromptDecl content _) = ''PROMPT '' @ strconv_quote content"
| "writeDecl (PromptPositionDecl mode _) = ''PROMPT_POSITION '' @ mode"
| "writeDecl (CapabilityDecl axis v _) = ''CAPABILITY '' @ axis @ '' '' @ v"
| "writeDecl (KnowledgeDecl mounts _) = writeKnowledgeDecl mounts"

subsection \<open>Statements (serialize\_stmt.go)\<close>

fun octal_digits :: "nat \<Rightarrow> str" where
  "octal_digits n = (if n < 8 then [digit_char n] else octal_digits (n div 8) @ [digit_char (n mod 8)])"

declare octal_digits.simps [simp del]

text \<open>The verb \<open>%o\<close>.\<close>

definition show_octal :: "int \<Rightarrow> str" where
  "show_octal i = (if i < 0 then CHR ''-'' # octal_digits (nat (- i)) else octal_digits (nat i))"

definition tabs :: "nat \<Rightarrow> str" where
  "tabs n = replicate n TAB"

definition write_block :: "nat \<Rightarrow> str list \<Rightarrow> str" where
  "write_block indent lines = '' {'' @ [NL] @ concat (map (\<lambda>l. l @ [NL]) lines) @ tabs indent @ ''}''"

fun writeStmt :: "nat \<Rightarrow> stmt \<Rightarrow> str" where
  "writeStmt indent (ArgStmt args w _) =
     tabs indent @ ''arg'' @ concat (map (\<lambda>a. '' '' @ serializeExpr a) args) @ writeWhen w"
| "writeStmt indent (FileStmt path content mode w _) =
     tabs indent @ ''file '' @ serializeExpr path @ '' '' @ serializeExpr content
     @ (if mode \<noteq> 0 then '' 0'' @ show_octal mode else []) @ writeWhen w"
| "writeStmt indent (MkdirStmt path _) = tabs indent @ ''mkdir '' @ serializeExpr path"
| "writeStmt indent (AssignStmt name e _) = tabs indent @ name @ '' = '' @ serializeExpr e"
| "writeStmt indent (IfStmt c body els _) =
     tabs indent @ ''if '' @ serializeExpr c @ write_block indent (map (writeStmt (Suc indent)) body)
     @ (case els of
          Some stmts \<Rightarrow> if stmts \<noteq> [] then '' else'' @ write_block indent (map (writeStmt (Suc indent)) stmts) else []
        | None \<Rightarrow> [])"
| "writeStmt indent (ForStmt key value iter body _) =
     tabs indent @ ''for '' @ key @ (if value \<noteq> [] then '', '' @ value else [])
     @ '' in '' @ serializeExpr iter @ write_block indent (map (writeStmt (Suc indent)) body)"

definition Serialize :: "program \<Rightarrow> str" where
  "Serialize prog =
     (let ds = join [NL] (map writeDecl (Declarations prog));
          sep = (if Declarations prog \<noteq> [] \<and> Statements prog \<noteq> [] then [NL] else []);
          ss = join [NL] (map (writeStmt 0) (Statements prog));
          out = ds @ sep @ ss
      in if out \<noteq> [] then out @ [NL] else out)"

end
