(* ===== verification/AgentExtract.thy ===== *)
theory AgentExtract
  imports AgentParser AgentMerge AgentSerialize
begin

text \<open>
  The backend's reading of Agentfile programs: the extraction of a specification
  (agentfile/extract, with the types of agentfile/agentspec.go), the schemas for forms
  (agentfile/schema), the resolution of CONFIG values (agentfile/resolve) and the pipeline that
  composes them for a user's layer (backend/internal/service/agentpod/agentfile\_extract.go and
  pod\_orchestrator\_system\_config.go).
\<close>

subsection \<open>Agent specifications (agentspec.go, extract/extractor.go)\<close>

record config_spec =
  cs_name :: str
  cs_type :: str
  cs_default :: val
  cs_options :: "str list"

record env_spec =
  es_name :: str
  es_source :: str
  es_value :: str
  es_optional :: bool

record repo_spec =
  rs_url :: str
  rs_branch :: str
  rs_credential :: str

record setup_spec =
  ss_script :: str
  ss_timeout :: int

record agent_spec =
  spec_command :: str
  spec_executable :: str
  spec_config :: "config_spec list"
  spec_env :: "env_spec list"
  spec_repo :: "repo_spec option"
  spec_mcp :: "bool option"
  spec_skills :: "str list"
  spec_knowledge :: "mount_ref list"
  spec_setup :: "setup_spec option"
  spec_mode :: str
  spec_prompt :: str
  spec_capabilities :: "(str, str) gomap"

definition empty_spec :: agent_spec where
  "empty_spec = \<lparr>spec_command = [], spec_executable = [], spec_config = [], spec_env = [],
     spec_repo = None, spec_mcp = None, spec_skills = [], spec_knowledge = [], spec_setup = None,
     spec_mode = [], spec_prompt = [], spec_capabilities = []\<rparr>"

text \<open>The repository of the specification, a new one if there is none yet.\<close>

definition repo_or_new :: "repo_spec option \<Rightarrow> repo_spec" where
  "repo_or_new r = (case r of Some s \<Rightarrow> s | None \<Rightarrow> \<lparr>rs_url = [], rs_branch = [], rs_credential = []\<rparr>)"

definition extractRepo :: "repo_spec option \<Rightarrow> expr \<Rightarrow> repo_spec" where
  "extractRepo repo e = (case e of
       StringLit s \<Rightarrow> (repo_or_new repo)\<lparr>rs_url := s\<rparr> | _ \<Rightarrow> repo_or_new repo)"

definition extractBranch :: "repo_spec option \<Rightarrow> expr \<Rightarrow> repo_spec" where
  "extractBranch repo e = (case e of
       StringLit s \<Rightarrow> (repo_or_new repo)\<lparr>rs_branch := s\<rparr> | _ \<Rightarrow> repo_or_new repo)"

definition extractGitCredential :: "repo_spec option \<Rightarrow> str \<Rightarrow> repo_spec" where
  "extractGitCredential repo t = (repo_or_new repo)\<lparr>rs_credential := t\<rparr>"

fun extract_decl :: "decl \<Rightarrow> agent_spec \<Rightarrow> agent_spec" where
  "extract_decl (AgentDecl command _) s = s\<lparr>spec_command := command\<rparr>"
| "extract_decl (ExecutableDecl name _) s = s\<lparr>spec_executable := name\<rparr>"
| "extract_decl (ConfigDecl name ty opts dflt _) s = s\<lparr>spec_config := spec_config s @
     [\<lparr>cs_name = name, cs_type = ty, cs_default = dflt, cs_options = opts\<rparr>]\<rparr>"
| "extract_decl (EnvDecl name source value _ _ optional _) s = s\<lparr>spec_env := spec_env s @
     [\<lparr>es_name = name, es_source = source, es_value = value, es_optional = optional\<rparr>]\<rparr>"
| "extract_decl (RepoDecl e _) s = s\<lparr>spec_repo := Some (extractRepo (spec_repo s) e)\<rparr>"
| "extract_decl (BranchDecl e _) s = s\<lparr>spec_repo := Some (extractBranch (spec_repo s) e)\<rparr>"
| "extract_decl (GitCredentialDecl t _) s = s\<lparr>spec_repo := Some (extractGitCredential (spec_repo s) t)\<rparr>"
| "extract_decl (McpDecl enabled _ _) s = s\<lparr>spec_mcp := Some enabled\<rparr>"
| "extract_decl (SkillsDecl slugs _) s = s\<lparr>spec_skills := spec_skills s @ slugs\<rparr>"
| "extract_decl (KnowledgeDecl mounts _) s = s\<lparr>spec_knowledge := spec_knowledge s @ mounts\<rparr>"
| "extract_decl (SetupDecl script timeout _) s =
     s\<lparr>spec_setup := Some \<lparr>ss_script = script, ss_timeout = timeout\<rparr>\<rparr>"
| "extract_decl (ModeDecl mode _) s = s\<lparr>spec_mode := mode\<rparr>"
| "extract_decl (PromptDecl content _) s = s\<lparr>spec_prompt := content\<rparr>"
| "extract_decl (CapabilityDecl axis v _) s = s\<lparr>spec_capabilities := gm_set axis v (spec_capabilities s)\<rparr>"
| "extract_decl _ s = s"

definition Extract :: "program \<Rightarrow> agent_spec" where
  "Extract prog = fold extract_decl (Declarations prog) empty_spec"

subsection \<open>Schemas (schema/schema.go, schema/configfile.go)\<close>

record credential_field =
  cf_name :: str
  cf_type :: str
  cf_optional :: bool

record config_file =
  cfile_id :: str
  cfile_env :: str
  cfile_format :: str
  cfile_hint :: str

record agent_schema =
  ConfigFields :: "config_spec list"
  CredentialFields :: "credential_field list"
  ConfigFiles :: "config_file list"

fun exprPathHint :: "expr \<Rightarrow> str" where
  "exprPathHint (StringLit s) = s"
| "exprPathHint (BinaryExpr l op r) = (if op = ''+'' then exprPathHint l @ exprPathHint r else [])"
| "exprPathHint _ = []"

definition trim_suffix :: "str \<Rightarrow> str \<Rightarrow> str" where
  "trim_suffix s suf = (if has_suffix s suf then take (length s - length suf) s else s)"

text \<open>What follows the last slash.\<close>

definition after_slash :: "str \<Rightarrow> str" where
  "after_slash s = rev (takeWhile (\<lambda>c. c \<noteq> CHR ''/'') (rev s))"

definition configFileID :: "str \<Rightarrow> str" where
  "configFileID pathHint = trim_fn (\<lambda>c. c = DQUOTE) (trim_suffix (after_slash pathHint) ''.json'')"

fun config_file_of :: "decl \<Rightarrow> config_file option" where
  "config_file_of (EnvDecl name _ _ (Some e) _ _ _) =
     (let hint = exprPathHint e; i = configFileID hint
      in if contains hint ''.json'' \<and> i \<noteq> []
         then Some \<lparr>cfile_id = i, cfile_env = name, cfile_format = ''json'', cfile_hint = hint\<rparr>
         else None)"
| "config_file_of _ = None"

definition extractConfigFiles :: "program \<Rightarrow> config_file list" where
  "extractConfigFiles prog = List.map_filter config_file_of (Declarations prog)"

definition isUserCredentialEnv :: "str \<Rightarrow> bool" where
  "isUserCredentialEnv source \<longleftrightarrow> source = ''secret'' \<or> source = ''text''"

definition credential_of :: "env_spec \<Rightarrow> credential_field" where
  "credential_of e = \<lparr>cf_name = es_name e, cf_type = es_source e, cf_optional = es_optional e\<rparr>"

definition FromProgram :: "program \<Rightarrow> agent_schema" where
  "FromProgram prog =
     (let spec = Extract prog in
      \<lparr>ConfigFields = spec_config spec,
       CredentialFields = map credential_of (filter (\<lambda>e. isUserCredentialEnv (es_source e)) (spec_env spec)),
       ConfigFiles = extractConfigFiles prog\<rparr>)"

datatype agentfile_error = BaseParseError parse_error | InvalidLayer parse_error | SchemaParseErrors "parse_error list"

text \<open>The outer option is the one of \<open>Parse\<close>: \<open>None\<close> would be a run that does not end.\<close>

definition FromSource :: "str \<Rightarrow> (agentfile_error + agent_schema) option" where
  "FromSource source = map_option (\<lambda>(prog, errs).
     if errs \<noteq> [] then Inl (SchemaParseErrors errs) else Inr (FromProgram prog)) (Parse source)"

definition NonSecretCredentialKeys :: "agent_schema \<Rightarrow> str list" where
  "NonSecretCredentialKeys s = map cf_name (filter (\<lambda>f. cf_type f = ''text'') (CredentialFields s))"

subsection \<open>CONFIG values (resolve/resolve.go)\<close>

fun config_name :: "decl \<Rightarrow> str option" where
  "config_name (ConfigDecl name _ _ _ _) = Some name"
| "config_name _ = None"

definition ExtractConfigNames :: "program \<Rightarrow> str list" where
  "ExtractConfigNames prog = List.map_filter config_name (Declarations prog)"

definition inferTypeName :: "val \<Rightarrow> str" where
  "inferTypeName v = (case v of
       VBool _ \<Rightarrow> ''boolean'' | VFloat _ \<Rightarrow> ''number'' | VInt _ \<Rightarrow> ''number'' | _ \<Rightarrow> ''string'')"

text \<open>The default of a declaration: system override, layer, preference, base default.\<close>

fun resolve_decl :: "str list \<Rightarrow> variables \<Rightarrow> variables \<Rightarrow> decl \<Rightarrow> decl" where
  "resolve_decl layer prefs overrides (ConfigDecl name ty opts dflt pos) =
     ConfigDecl name ty opts
       (case gm_get overrides name of
          Some v \<Rightarrow> v
        | None \<Rightarrow> if name \<in> set layer then dflt
                  else (case gm_get prefs name of Some v \<Rightarrow> v | None \<Rightarrow> dflt)) pos"
| "resolve_decl layer prefs overrides d = d"

definition override_decl :: "str \<times> val \<Rightarrow> decl" where
  "override_decl nv = ConfigDecl (fst nv) (inferTypeName (snd nv)) [] (snd nv) (0, 0)"

text \<open>\<open>visit\<close> is the order in which the run ranges over the map of the overrides.\<close>

definition ResolveConfigValues ::
    "(variables \<Rightarrow> variables) \<Rightarrow> program \<Rightarrow> str list \<Rightarrow> variables \<Rightarrow> variables \<Rightarrow> program" where
  "ResolveConfigValues visit prog layer prefs overrides =
     (let seen = ExtractConfigNames prog in
      prog\<lparr>Declarations := map (resolve_decl layer prefs overrides) (Declarations prog)
         @ map override_decl (filter (\<lambda>(name, _). name \<notin> set seen) (visit overrides))\<rparr>)"

subsection \<open>The layer of a user (agentfile\_extract.go, pod\_orchestrator\_system\_config.go)\<close>

definition isSystemConfigKey :: "str \<Rightarrow> bool" where
  "isSystemConfigKey name \<longleftrightarrow>
     name \<in> {''session_id'', ''resume_enabled'', ''resume_session'', ''resume_external_session''}"

definition newSystemOverrides :: "str \<Rightarrow> bool \<Rightarrow> bool \<Rightarrow> str \<Rightarrow> variables" where
  "newSystemOverrides sessionID isResumeMode resumeAgentSession externalSessionID =
     (let o1 = (if externalSessionID \<noteq> [] then gm_set ''resume_external_session'' (VStr externalSessionID) [] else [])
      in if \<not> isResumeMode then gm_set ''session_id'' (VStr sessionID) o1
         else let o2 = gm_set ''session_id'' (VStr []) o1
              in if resumeAgentSession
                 then gm_set ''resume_session'' (VStr sessionID) (gm_set ''resume_enabled'' (VBool True) o2)
                 else o2)"

record layer_result =
  lr_mode :: str
  lr_branch :: str
  lr_repo_slug :: str
  lr_prompt :: str
  lr_knowledge :: "mount_ref list"
  lr_config :: variables
  lr_source :: str

definition layer_result_of :: "program \<Rightarrow> layer_result" where
  "layer_result_of prog =
     (let spec = Extract prog in
      \<lparr>lr_mode = spec_mode spec,
       lr_branch = (case spec_repo spec of Some r \<Rightarrow> rs_branch r | None \<Rightarrow> []),
       lr_repo_slug = (case spec_repo spec of Some r \<Rightarrow> rs_url r | None \<Rightarrow> []),
       lr_prompt = spec_prompt spec,
       lr_knowledge = spec_knowledge spec,
       lr_config = fold (\<lambda>c m. if isSystemConfigKey (cs_name c) then m else gm_set (cs_name c) (cs_default c) m)
                     (spec_config spec) [],
       lr_source = Serialize prog\<rparr>)"

definition extractFromAgentfileLayer ::
    "(variables \<Rightarrow> variables) \<Rightarrow> str \<Rightarrow> str \<Rightarrow> variables \<Rightarrow> variables
      \<Rightarrow> (agentfile_error + layer_result) option" where
  "extractFromAgentfileLayer visit base layer prefs overrides =
     Option.bind (Parse base) (\<lambda>(baseProg, baseErrs).
       if baseErrs \<noteq> [] then Some (Inl (BaseParseError (hd baseErrs)))
       else Option.bind (Parse layer) (\<lambda>(userProg, userErrs).
         if userErrs \<noteq> [] then Some (Inl (InvalidLayer (hd userErrs)))
         else Some (Inr (layer_result_of
                (ResolveConfigValues visit (Merge baseProg userProg) (ExtractConfigNames userProg)
                   prefs overrides)))))"

end
