(* ===== verification/AgentParserTotal.thy ===== *)
theory AgentParserTotal
  imports AgentParser
begin

text \<open>
  The Agentfile parser always returns: the depth and the number of rounds \<open>Parse\<close> starts with
  are enough for every input, every token is read once from left to right, and no reported
  error is lost. The contract of a parser of nested syntax is the locale \<open>token_parser\<close>, and
  the loops are shown to return once, inside it; \<open>parse_expr\<close> and \<open>parse_stmt\<close> interpret it.
\<close>

subsection \<open>Results that read on\<close>

definition gives :: "('a \<times> parser) option \<Rightarrow> parser \<Rightarrow> bool" where
  "gives r p \<longleftrightarrow> (\<exists>x q. r = Some (x, q) \<and> takes p q)"

definition gives_on :: "('a \<times> parser) option \<Rightarrow> parser \<Rightarrow> bool" where
  "gives_on r p \<longleftrightarrow> (\<exists>x q. r = Some (x, q) \<and> reads p q)"

lemma gives_on: "gives r p \<Longrightarrow> gives_on r p"
  by (auto simp: gives_def gives_on_def dest: takes_reads)

lemma gives_Some [reading]: "takes p q \<Longrightarrow> gives (Some (x, q)) p"
  by (simp add: gives_def)

lemma gives_on_Some [reading]: "reads p q \<Longrightarrow> gives_on (Some (x, q)) p"
  by (simp add: gives_on_def)

lemma gives_pair: "takes p (snd r) \<Longrightarrow> gives (Some r) p"
  by (cases r) (simp add: gives_def)

lemma gives_bind:
  "gives r p \<Longrightarrow> (\<And>x q. takes p q \<Longrightarrow> gives_on (f (x, q)) q) \<Longrightarrow> gives (Option.bind r f) p"
  by (fastforce simp: gives_def gives_on_def intro: takes_reads_trans)

lemma gives_on_bind:
  "gives_on r p \<Longrightarrow> (\<And>x q. reads p q \<Longrightarrow> gives_on (f (x, q)) q) \<Longrightarrow> gives_on (Option.bind r f) p"
  by (fastforce simp: gives_on_def intro: reads_trans)

lemma gives_from: "reads p q \<Longrightarrow> gives r q \<Longrightarrow> gives r p"
  by (auto simp: gives_def intro: reads_takes_trans)

lemma gives_on_from: "reads p q \<Longrightarrow> gives_on r q \<Longrightarrow> gives_on r p"
  by (auto simp: gives_on_def intro: reads_trans)

lemma gives_after: "takes p q \<Longrightarrow> gives_on r q \<Longrightarrow> gives r p"
  by (auto simp: gives_def gives_on_def intro: takes_reads_trans)

lemma shorter_reads: "reads p q \<Longrightarrow> length (toks p) < n \<Longrightarrow> length (toks q) < n"
  using reads_length [of p q] by linarith

lemma shorter_takes: "takes p q \<Longrightarrow> toks p \<noteq> [] \<Longrightarrow> length (toks p) < Suc n \<Longrightarrow> length (toks q) < n"
  using takes_length [of p q] by linarith

text \<open>A round of a loop that is not at the end leaves fewer tokens.\<close>

lemma shorter_round:
  assumes "\<not> atEnd p" "reads p p1" "takes p1 q" "reads q r" "length (toks p) < Suc n"
  shows "length (toks r) < n"
proof (cases "toks p1 = []")
  case True
  then have "toks r = []"
    using reads_length [OF takes_reads [OF assms(3)]] reads_length [OF assms(4)] by simp
  moreover have "n \<noteq> 0" using assms(5) not_atEnd [OF assms(1)] by (cases "toks p") auto
  ultimately show ?thesis by simp
next
  case False
  then show ?thesis
    using takes_length [OF assms(3)] reads_length [OF assms(4)] reads_length [OF assms(2)] assms(5)
    by linarith
qed

lemma not_longer: "reads p p1 \<Longrightarrow> takes p1 q \<Longrightarrow> reads q r \<Longrightarrow> length (toks p) < b \<Longrightarrow> length (toks r) < b"
  by (meson reads_trans shorter_reads takes_reads)

subsection \<open>The contract of a nested parser\<close>

locale token_parser =
  fixes run :: "parser \<Rightarrow> ('a \<times> parser) option" and bound :: nat
  assumes returns: "length (toks p) < bound \<Longrightarrow> gives (run p) p"
begin

lemma returns_next:
  assumes "takes p q" "toks p \<noteq> []" "length (toks p) \<le> bound"
  shows "gives_on (run q) q"
  using returns [of q] takes_length [OF assms(1,2)] assms(3) gives_on by fastforce

end

lemma reads_dot_loop: "reads p (snd (dot_loop x p))"
proof (induction x p rule: dot_loop.induct)
  case (1 x p)
  obtain field p1 where f: "expectIdent (advance p) = (field, p1)" by fastforce
  then have "reads p p1"
    using takes_trans [OF takes_advance takes_expectIdent, of p] by (metis snd_conv takes_reads)
  with 1 f show ?case
    by (subst dot_loop.simps) (auto simp: reading intro: reads_trans)
qed

locale expr_parser = token_parser run bound
  for run :: "parser \<Rightarrow> (expr \<times> parser) option" and bound
begin

lemma binary_loop_returns:
  assumes op: "\<And>p s. op p = Some s \<Longrightarrow> toks p \<noteq> []"
  shows "length (toks p) < bound \<Longrightarrow> length (toks p) < n \<Longrightarrow> gives_on (binary_loop op run n l p) p"
proof (induction n arbitrary: l p)
  case (Suc n)
  show ?case
  proof (cases "op p")
    case None
    then show ?thesis by (simp add: reading)
  next
    case (Some s)
    then have ne: "toks p \<noteq> []" by (rule op)
    have "gives_on (Option.bind (run (advance p)) (\<lambda>(r, p1). binary_loop op run n (BinaryExpr l s r) p1))
            (advance p)"
    proof (rule gives_on_bind)
      show "gives_on (run (advance p)) (advance p)"
        using Suc.prems ne by (intro returns_next [OF takes_advance]) auto
    next
      fix x q assume "reads (advance p) q"
      then have "takes p q" using takes_advance takes_reads_trans by blast
      then have "length (toks q) < n" "length (toks q) < bound"
        using Suc.prems takes_length [of p q] ne by auto
      then show "gives_on ((\<lambda>(r, p1). binary_loop op run n (BinaryExpr l s r) p1) (x, q)) q"
        using Suc.IH by simp
    qed
    with Some show ?thesis
      by simp (rule gives_on_from [OF reads_advance [OF reads_refl]])
  qed
qed simp

lemma args_loop_returns:
  "length (toks p) < bound \<Longrightarrow> length (toks p) < n \<Longrightarrow> gives_on (args_loop run n acc p) p"
proof (induction n arbitrary: acc p)
  case (Suc n)
  have "gives_on (Option.bind (run p) (\<lambda>(x, p1). args_loop run n (acc @ [x]) (skip_comma p1))) p"
    if e: "\<not> atEnd p"
  proof (rule gives_on [OF gives_bind])
    show "gives (run p) p" using Suc.prems returns by simp
  next
    fix x q assume q: "takes p q"
    show "gives_on ((\<lambda>(x, p1). args_loop run n (acc @ [x]) (skip_comma p1)) (x, q)) q"
      using shorter_round [OF e reads_refl q reads_skip_comma Suc.prems(2)]
        not_longer [OF reads_refl q reads_skip_comma Suc.prems(1)]
      by (auto intro: gives_on_from [OF reads_skip_comma] Suc.IH)
  qed
  then show ?case by (simp add: reading)
qed simp

lemma object_loop_returns:
  "length (toks p) < bound \<Longrightarrow> length (toks p) < n \<Longrightarrow> gives_on (object_loop run n acc p) p"
proof (induction n arbitrary: acc p)
  case (Suc n)
  let ?p1 = "skipNewlines p" let ?p2 = "expect COLON (snd (expectIdentOrString ?p1))"
  let ?next = "\<lambda>(v, p3). object_loop run n (acc @ [(fst (expectIdentOrString ?p1), v)]) (skipNewlines (skip_comma p3))"
  have t: "takes ?p1 ?p2" using takes_expectIdentOrString reads_expect takes_reads_trans by blast
  have r: "reads p ?p2" using reads_skipNewlines takes_reads [OF t] reads_trans by blast
  have "gives_on (Option.bind (run ?p2) ?next) ?p2" if e: "\<not> atEnd p"
  proof (rule gives_on_bind)
    show "gives_on (run ?p2) ?p2"
      using returns gives_on Suc.prems shorter_reads [OF r] by blast
  next
    fix x q assume q: "reads ?p2 q"
    have rq: "reads q (skipNewlines (skip_comma q))"
      using reads_trans [OF reads_skip_comma reads_skipNewlines] .
    show "gives_on (?next (x, q)) q"
      using shorter_round [OF e reads_skipNewlines takes_reads_trans [OF t q] rq Suc.prems(2)]
        not_longer [OF reads_skipNewlines takes_reads_trans [OF t q] rq Suc.prems(1)]
      by (auto intro: gives_on_from [OF rq] Suc.IH)
  qed
  then show ?case
    using gives_on_from [OF r] by (auto simp: Let_def reading case_prod_beta)
qed simp

lemma list_loop_returns:
  "length (toks p) < bound \<Longrightarrow> length (toks p) < n \<Longrightarrow> gives_on (list_loop run n acc p) p"
proof (induction n arbitrary: acc p)
  case (Suc n)
  let ?p1 = "skipNewlines p"
  let ?next = "\<lambda>(x, p2). list_loop run n (acc @ [x]) (skipNewlines (skip_comma p2))"
  have "gives_on (Option.bind (run ?p1) ?next) ?p1" if e: "\<not> atEnd p"
  proof (rule gives_on [OF gives_bind])
    show "gives (run ?p1) ?p1"
      using returns Suc.prems shorter_reads [OF reads_skipNewlines] by blast
  next
    fix x q assume q: "takes ?p1 q"
    have rq: "reads q (skipNewlines (skip_comma q))"
      using reads_trans [OF reads_skip_comma reads_skipNewlines] .
    show "gives_on (?next (x, q)) q"
      using shorter_round [OF e reads_skipNewlines q rq Suc.prems(2)]
        not_longer [OF reads_skipNewlines q rq Suc.prems(1)]
      by (auto intro: gives_on_from [OF rq] Suc.IH)
  qed
  then show ?case
    using gives_on_from [OF reads_skipNewlines] by (auto simp: Let_def reading)
qed simp

text \<open>The bodies in brackets, after the opening bracket has been taken.\<close>

lemma bracket_prems:
  assumes "toks p \<noteq> []" "length (toks p) \<le> bound" "reads (advance p) q"
  shows "length (toks q) < bound"
  using takes_length [OF takes_reads_trans [OF takes_advance assms(3)] assms(1)] assms(2) by linarith

lemma parseCallExpr_returns:
  assumes "toks p \<noteq> []" "length (toks p) \<le> bound"
  shows "gives (parseCallExpr run (Suc bound) name p) p"
proof -
  have "gives_on (args_loop run (Suc bound) [] (advance p)) (advance p)"
    using bracket_prems [OF assms reads_refl] by (intro args_loop_returns) auto
  then have "gives_on (parseCallExpr run (Suc bound) name p) (advance p)"
    unfolding parseCallExpr_def by (rule gives_on_bind) (simp add: reading)
  then show ?thesis by (rule gives_after [OF takes_advance])
qed

lemma parseObjectLit_returns:
  assumes "toks p \<noteq> []" "length (toks p) \<le> bound"
  shows "gives (parseObjectLit run (Suc bound) p) p"
proof -
  have "gives_on (object_loop run (Suc bound) [] (skipNewlines (advance p))) (skipNewlines (advance p))"
    using bracket_prems [OF assms reads_skipNewlines] by (intro object_loop_returns) auto
  then have "gives_on (parseObjectLit run (Suc bound) p) (skipNewlines (advance p))"
    unfolding parseObjectLit_def by (rule gives_on_bind) (simp add: reading)
  then show ?thesis by (rule gives_after [OF takes_reads_trans [OF takes_advance reads_skipNewlines]])
qed

lemma parseListLit_returns:
  assumes "toks p \<noteq> []" "length (toks p) \<le> bound"
  shows "gives (parseListLit run (Suc bound) p) p"
proof -
  have "gives_on (list_loop run (Suc bound) [] (skipNewlines (advance p))) (skipNewlines (advance p))"
    using bracket_prems [OF assms reads_skipNewlines] by (intro list_loop_returns) auto
  then have "gives_on (parseListLit run (Suc bound) p) (skipNewlines (advance p))"
    unfolding parseListLit_def by (rule gives_on_bind) (simp add: reading)
  then show ?thesis by (rule gives_after [OF takes_reads_trans [OF takes_advance reads_skipNewlines]])
qed

lemma paren_returns:
  assumes "toks p \<noteq> []" "length (toks p) \<le> bound"
  shows "gives (Option.bind (run (advance p)) (\<lambda>(x, p1). Some (x, expect RPAREN p1))) p"
proof -
  have "gives_on (run (advance p)) (advance p)"
    using assms by (intro returns_next [OF takes_advance])
  then have "gives_on (Option.bind (run (advance p)) (\<lambda>(x, p1). Some (x, expect RPAREN p1))) (advance p)"
    by (rule gives_on_bind) (simp add: reading)
  then show ?thesis by (rule gives_after [OF takes_advance])
qed

lemma parsePrimary_returns:
  assumes "length (toks p) \<le> bound"
  shows "gives (parsePrimary run (Suc bound) p) p"
proof -
  have ne: "toks p \<noteq> []" if "tok_type (current p) \<noteq> EOF"
    using that currentIs_nonempty [of "tok_type (current p)" p] by (auto simp: currentIs_def)
  have "takes p (snd (parse_heredoc_lit p))"
    using takes_advance takes_trans [OF takes_advance takes_advance, of p]
    by (auto simp: parse_heredoc_lit_def Let_def)
  moreover have "gives (if currentIs LPAREN (advance p) then parseCallExpr run (Suc bound) name (advance p)
        else Some (dot_loop x (advance p))) p" for name x
    using assms parseCallExpr_returns [of "advance p" name] reads_length [OF reads_advance [OF reads_refl], of p]
    by (auto intro!: gives_after [OF takes_advance] gives_on [OF parseCallExpr_returns] gives_pair
        takes_reads_trans [OF takes_advance reads_dot_loop] dest: currentIs_nonempty)
  ultimately show ?thesis
    using assms ne parseObjectLit_returns [of p] parseListLit_returns [of p] paren_returns [of p]
    by (simp add: parsePrimary_def Let_def reading gives_pair split: token_type.split)
qed

lemma parseUnary_returns:
  "length (toks p) \<le> bound \<Longrightarrow> length (toks p) < n \<Longrightarrow> n \<le> Suc bound \<Longrightarrow>
   (\<And>m q. length (toks q) < m \<Longrightarrow> m \<le> Suc bound \<Longrightarrow> gives (parsePrimary run m q) q) \<Longrightarrow>
   gives (parseUnary run n p) p"
proof (induction n arbitrary: p)
  case (Suc n)
  show ?case
  proof (cases "currentIs KW_NOT p")
    case True
    then have ne: "toks p \<noteq> []" by (rule currentIs_nonempty) simp
    then have "length (toks (advance p)) < n" "length (toks (advance p)) \<le> bound"
      using Suc.prems takes_length [OF takes_advance ne] by linarith+
    then have "gives (parseUnary run n (advance p)) (advance p)"
      using Suc.prems by (intro Suc.IH) auto
    then have "gives_on (Option.bind (parseUnary run n (advance p)) (\<lambda>(x, p1). Some (UnaryExpr ''not'' x, p1)))
        (advance p)"
      by (intro gives_on [OF gives_bind]) (auto simp: reading)
    with True show ?thesis by (simp add: gives_after [OF takes_advance])
  next
    case False
    with Suc.prems show ?thesis by simp
  qed
qed simp

end

text \<open>The loops in brackets need no more rounds than there are tokens.\<close>

lemma expr_parser_le: "expr_parser run b \<Longrightarrow> c \<le> b \<Longrightarrow> expr_parser run c"
  by (simp add: expr_parser_def token_parser_def)

lemma parsePrimary_gives:
  assumes "expr_parser run b" "length (toks q) < m" "m \<le> Suc b"
  shows "gives (parsePrimary run m q) q"
proof (cases m)
  case (Suc k)
  then have "expr_parser run k" using assms expr_parser_le by simp
  then show ?thesis using expr_parser.parsePrimary_returns assms(2) Suc by fastforce
qed (use assms in simp)

lemma unary_level:
  assumes "expr_parser run b"
  shows "expr_parser (parseUnary run (Suc b)) (Suc b)"
  using expr_parser.parseUnary_returns [OF assms] parsePrimary_gives [OF assms]
  by (simp add: expr_parser_def token_parser_def del: parseUnary.simps)

lemma binary_level:
  assumes "expr_parser f b" and op: "\<forall>p s. op p = Some s \<longrightarrow> toks p \<noteq> []"
  shows "expr_parser (\<lambda>p. Option.bind (f p) (\<lambda>(l, p1). binary_loop op f b l p1)) b"
proof (unfold expr_parser_def token_parser_def, intro allI impI)
  fix p :: parser assume len: "length (toks p) < b"
  have "gives (f p) p" using token_parser.returns assms(1) len by (fastforce simp: expr_parser_def)
  then show "gives (Option.bind (f p) (\<lambda>(l, p1). binary_loop op f b l p1)) p"
  proof (rule gives_bind)
    fix x q assume "takes p q"
    then have "length (toks q) < b" using len shorter_reads takes_reads by blast
    then show "gives_on ((\<lambda>(l, p1). binary_loop op f b l p1) (x, q)) q"
      using expr_parser.binary_loop_returns [OF assms(1)] op by simp
  qed
qed

lemma op_nonempty:
  "\<forall>p s. or_op p = Some s \<longrightarrow> toks p \<noteq> []" "\<forall>p s. and_op p = Some s \<longrightarrow> toks p \<noteq> []"
  "\<forall>p s. equality_op p = Some s \<longrightarrow> toks p \<noteq> []" "\<forall>p s. addition_op p = Some s \<longrightarrow> toks p \<noteq> []"
  by (auto simp: or_op_def and_op_def equality_op_def addition_op_def
      dest: currentIs_nonempty split: if_splits)

lemma parseOr_level:
  assumes "expr_parser run b"
  shows "expr_parser (parseOr run (Suc b)) (Suc b)"
proof -
  have "expr_parser (parseAddition run (Suc b)) (Suc b)"
    unfolding parseAddition_def [abs_def] by (rule binary_level [OF unary_level [OF assms] op_nonempty(4)])
  then have "expr_parser (parseEquality run (Suc b)) (Suc b)"
    unfolding parseEquality_def [abs_def] by (rule binary_level [OF _ op_nonempty(3)])
  then have "expr_parser (parseAnd run (Suc b)) (Suc b)"
    unfolding parseAnd_def [abs_def] by (rule binary_level [OF _ op_nonempty(2)])
  then show ?thesis
    unfolding parseOr_def [abs_def] by (rule binary_level [OF _ op_nonempty(1)])
qed

lemma parse_expr_parser: "expr_parser (parse_expr n) n"
proof (induction n)
  case 0
  then show ?case by (simp add: expr_parser_def token_parser_def)
next
  case (Suc n)
  have "parse_expr (Suc n) = parseOr (parse_expr n) (Suc n)" by (rule ext) simp
  with parseOr_level [OF Suc] show ?case by simp
qed

interpretation pe: expr_parser "parse_expr n" n for n
  by (rule parse_expr_parser)


subsection \<open>Declarations\<close>

lemma length_less_gives: "length (toks p) < n \<Longrightarrow> gives (parse_expr n p) p"
  by (rule pe.returns)

lemma parse_when_gives [reading]: "length (toks p) < n \<Longrightarrow> gives_on (parse_when n p) p"
proof -
  assume len: "length (toks p) < n"
  have "gives_on (parse_expr n (advance p)) (advance p)"
    using shorter_reads [OF reads_advance [OF reads_refl] len] by (intro gives_on [OF length_less_gives])
  then have "gives_on (Option.bind (parse_expr n (advance p)) (\<lambda>(c, p1). Some (Some c, p1))) (advance p)"
    by (rule gives_on_bind) (simp add: reading)
  then show ?thesis
    by (auto simp: parse_when_def reading intro: gives_on_from [OF reads_advance [OF reads_refl]])
qed

text \<open>The declarations without an expression take their keyword and read on.\<close>

named_theorems decl_reads \<open>the parsers of declarations take a token\<close>

lemma reads_select_loop [reading]: "reads p (snd (select_loop acc p))"
proof (induction acc p rule: select_loop.induct)
  case (1 opts p)
  have "reads p (skip_comma (snd (expectString p)))"
    using takes_reads [OF takes_expectString] reads_skip_comma reads_trans by blast
  with 1 show ?case
    by (subst select_loop.simps) (auto simp: reading case_prod_beta intro: reads_trans)
qed

lemma reads_slugs_loop [reading]: "reads p (snd (slugs_loop acc p))"
proof (induction acc p rule: slugs_loop.induct)
  case (1 acc p)
  have "reads p (skip_comma (snd (expectIdentOrString p)))"
    using takes_reads [OF takes_expectIdentOrString] reads_skip_comma reads_trans by blast
  with 1 show ?case
    by (subst slugs_loop.simps) (auto simp: reading case_prod_beta intro: reads_trans)
qed

lemma reads_mounts_loop [reading]: "reads p (snd (mounts_loop acc p))"
proof (induction acc p rule: mounts_loop.induct)
  case (1 acc p)
  obtain slug p1 mode p2 where e: "expectIdentOrString p = (slug, p1)" "parse_mount_mode slug p1 = (mode, p2)"
    by fastforce
  have "reads p p1" "reads p1 p2"
    using e takes_reads [OF takes_expectIdentOrString [of p]] reads_parse_mount_mode [of p1 slug] by simp_all
  then have "reads p (skip_comma p2)" using reads_skip_comma reads_trans by blast
  with 1 e show ?case
    by (subst mounts_loop.simps) (auto simp: reading intro: reads_trans)
qed

lemma reads_mode_args_loop [reading]: "reads p (snd (mode_args_loop acc p))"
proof (induction acc p rule: mode_args_loop.induct)
  case (1 acc p)
  with takes_reads [OF takes_expectString] show ?case
    by (subst mode_args_loop.simps) (auto simp: reading case_prod_beta, metis prod.collapse reads_trans)
qed

lemma reads_capability_loop [reading]: "reads p (snd (capability_loop axis parts p))"
proof (induction axis parts p rule: capability_loop.induct)
  case (1 axis parts p)
  then show ?case
    by (subst capability_loop.simps)
      (auto simp: reading Let_def intro: reads_trans [OF takes_reads [OF takes_advance]]
        reads_trans [OF takes_reads [OF takes_errorf_advance]])
qed

text \<open>Composition along a chain of steps: what reads on after the keyword takes a token.\<close>

lemma takes_keyword: "reads (advance p) q \<Longrightarrow> takes p q"
  using takes_advance takes_reads_trans by blast

lemma reads_step_ident: "reads p (advance q) \<Longrightarrow> reads p (snd (expectIdent (advance q)))"
  using takes_expectIdent takes_reads reads_trans by blast

lemma reads_ident: "reads p q \<Longrightarrow> reads p (snd (expectIdent q))"
  using takes_expectIdent takes_reads reads_trans by blast

lemma reads_ident_or_string: "reads p q \<Longrightarrow> reads p (snd (expectIdentOrString q))"
  using takes_expectIdentOrString takes_reads reads_trans by blast

lemma reads_string: "reads p q \<Longrightarrow> reads p (snd (expectString q))"
  using takes_expectString takes_reads reads_trans by blast

lemma reads_int: "reads p q \<Longrightarrow> reads p (snd (expectInt q))"
  using takes_expectInt takes_reads reads_trans by blast

lemma reads_literal: "reads p q \<Longrightarrow> reads p (snd (parseLiteralValue q))"
  using takes_parseLiteralValue takes_reads reads_trans by blast

lemma reads_newline: "reads p q \<Longrightarrow> reads p (expectNewline q)" "reads p q \<Longrightarrow> reads p (skipNewlines q)"
  "reads p q \<Longrightarrow> reads p (expect t q)"
  using reads_expectNewline reads_skipNewlines reads_expect reads_trans by blast+

lemma reads_parseSelectOptions: "reads p q \<Longrightarrow> reads p (snd (parseSelectOptions q))"
  by (auto simp: parseSelectOptions_def case_prod_beta
      intro!: reads_newline reads_trans [OF _ reads_select_loop])

lemma reads_parse_config_type: "reads p q \<Longrightarrow> reads p (snd (snd (parse_config_type q)))"
  by (simp add: parse_config_type_def case_prod_beta reading reads_parseSelectOptions split: token_type.split)

lemma reads_loops:
  "reads p q \<Longrightarrow> reads p (snd (slugs_loop acc1 q))" "reads p q \<Longrightarrow> reads p (snd (mounts_loop acc2 q))"
  "reads p q \<Longrightarrow> reads p (snd (mode_args_loop acc3 q))" "reads p q \<Longrightarrow> reads p (snd (capability_loop axis acc4 q))"
  using reads_slugs_loop reads_mounts_loop reads_mode_args_loop reads_capability_loop reads_trans by blast+

lemma reads_parse_optional: "reads p q \<Longrightarrow> reads p (snd (parse_optional q))"
  by (simp add: parse_optional_def reading)

lemmas chain = reads_ident reads_ident_or_string reads_string reads_int reads_literal reads_newline
  reads_parse_config_type reads_loops reads_parse_optional reads_advance reads_errorf reads_refl

lemma simple_decls_take [decl_reads]:
  "takes p (snd (parseAgentDecl pos p))" "takes p (snd (parseExecutableDecl pos p))"
  "takes p (snd (parseGitCredentialDecl pos p))" "takes p (snd (parseSkillsDecl pos p))"
  "takes p (snd (parseKnowledgeDecl pos p))" "takes p (snd (parseUseEnvBundleDecl pos p))"
  "takes p (snd (parseUseConfigBundleDecl pos p))" "takes p (snd (parsePromptDecl pos p))"
  "takes p (snd (parsePromptPositionDecl pos p))"
  by (auto simp: parseAgentDecl_def parseExecutableDecl_def parseGitCredentialDecl_def parseSkillsDecl_def
      parseKnowledgeDecl_def parseUseEnvBundleDecl_def parseUseConfigBundleDecl_def parsePromptDecl_def
      parsePromptPositionDecl_def Let_def case_prod_beta intro!: takes_keyword chain)

lemma branching_decls_take [decl_reads]:
  "takes p (snd (parseConfigDecl pos p))" "takes p (snd (parseMcpDecl pos p))"
  "takes p (snd (parseSetupDecl pos p))" "takes p (snd (parseRemoveDecl pos p))"
  "takes p (snd (parseModeDecl pos p))" "takes p (snd (parseCapabilityDecl pos p))"
  by (auto simp: parseConfigDecl_def parseMcpDecl_def parse_mcp_switch_def parseSetupDecl_def
      parse_timeout_def parse_setup_script_def parseRemoveDecl_def parseModeDecl_def
      parseCapabilityDecl_def Let_def case_prod_beta split: option.split intro!: takes_keyword chain)

lemma keyword_nonempty: "tok_type (current p) = t \<Longrightarrow> t \<noteq> EOF \<Longrightarrow> toks p \<noteq> []"
  using currentIs_nonempty by (auto simp: currentIs_def)

lemma after_keyword: "length (toks p) < n \<Longrightarrow> reads (advance p) q \<Longrightarrow> length (toks q) < n"
  using reads_length [of "advance p" q] reads_length [OF reads_advance [OF reads_refl], of p] by linarith

lemma expr_decl_gives [decl_reads]:
  assumes "length (toks p) < n"
  shows "gives (parseRepoDecl n pos p) p" "gives (parseBranchDecl n pos p) p"
proof -
  have "gives_on (parse_expr n (advance p)) (advance p)"
    using after_keyword [OF assms reads_refl] by (intro gives_on [OF length_less_gives])
  then have "gives_on (Option.bind (parse_expr n (advance p)) (\<lambda>(x, p1). Some (f x, expectNewline p1))) (advance p)"
    for f :: "expr \<Rightarrow> decl"
    by (rule gives_on_bind) (simp add: reading)
  then show "gives (parseRepoDecl n pos p) p" "gives (parseBranchDecl n pos p) p"
    unfolding parseRepoDecl_def parseBranchDecl_def by (auto intro: gives_after [OF takes_advance])
qed

lemma parseEnvDecl_gives [decl_reads]:
  assumes "length (toks p) < n"
  shows "gives (parseEnvDecl n pos p) p"
proof -
  define q where "q = advance (snd (expectIdent (advance p)))"
  have q: "takes p q" unfolding q_def by (auto intro!: takes_keyword chain)
  let ?f = "\<lambda>name (x, p2). Option.bind (parse_when n p2) (\<lambda>(c, p3).
        case env_value x (currentIs KW_WHEN p2) of (v, ve) \<Rightarrow>
          Some (EnvDecl name [] v ve c False pos, expectNewline p3))"
  have len: "length (toks q) < n" using assms shorter_reads [OF takes_reads [OF q]] by simp
  have "gives_on (Option.bind (parse_expr n q) (?f name)) q" for name
  proof (rule gives_on [OF gives_bind [OF length_less_gives [OF len]]])
    fix x r assume "takes q r"
    then have "gives_on (parse_when n r) r"
      using len shorter_reads [OF takes_reads] by (intro parse_when_gives) simp
    then show "gives_on (?f name (x, r)) r"
      by simp (rule gives_on_bind, auto simp: reading case_prod_beta)
  qed
  then have assign: "gives (Option.bind (parse_expr n q) (?f name)) p" for name
    by (rule gives_after [OF q])
  show ?thesis
    using assign by (simp add: parseEnvDecl_def q_def case_prod_beta gives_Some takes_keyword chain
        split: token_type.split)
qed


text \<open>A parser that may decline: it leaves the state alone or takes a token.\<close>

definition offers :: "('a option \<times> parser) option \<Rightarrow> parser \<Rightarrow> bool" where
  "offers r p \<longleftrightarrow> (\<exists>x q. r = Some (x, q) \<and> (if x = None then q = p else takes p q))"

lemma offers_None [simp]: "offers (Some (None, p)) p"
  by (simp add: offers_def)

lemma offers_some_decl: "takes p (snd r) \<Longrightarrow> offers (some_decl r) p"
  by (simp add: offers_def some_decl_def)

lemma offers_bind_decl: "gives r p \<Longrightarrow> offers (Option.bind r some_decl) p"
  by (cases r) (auto simp: gives_def offers_def some_decl_def)

lemma offers_some_stmt: "gives r p \<Longrightarrow> offers (some_stmt r) p"
  by (cases r) (auto simp: gives_def offers_def some_stmt_def)

lemma tryParseDeclaration_offers:
  "length (toks p) < n \<Longrightarrow> offers (tryParseDeclaration n p) p"
  by (simp add: tryParseDeclaration_def Let_def offers_some_decl offers_bind_decl decl_reads
      split: token_type.split)

subsection \<open>Statements\<close>

locale offering_parser =
  fixes run :: "parser \<Rightarrow> ('a option \<times> parser) option" and bound :: nat
  assumes offers_run: "length (toks p) < bound \<Longrightarrow> offers (run p) p"

locale block_parser = offering_parser run bound
  for run :: "parser \<Rightarrow> (stmt option \<times> parser) option" and bound
begin

lemma block_loop_returns:
  "length (toks p) < bound \<Longrightarrow> length (toks p) < n \<Longrightarrow> gives_on (block_loop run n acc p) p"
proof (induction n arbitrary: acc p)
  case (Suc n)
  let ?p1 = "skipNewlines p"
  have round: "gives_on (block_loop run n acc' q) p" if "\<not> atEnd p" "takes ?p1 q" for acc' q
  proof (rule gives_on_from)
    show "reads p q" using reads_skipNewlines takes_reads [OF that(2)] reads_trans by blast
    show "gives_on (block_loop run n acc' q) q"
      using not_longer [OF reads_skipNewlines that(2) reads_refl Suc.prems(1)]
        shorter_round [OF that(1) reads_skipNewlines that(2) reads_refl Suc.prems(2)] by (rule Suc.IH)
  qed
  have "offers (run ?p1) ?p1"
    using Suc.prems shorter_reads [OF reads_skipNewlines] by (intro offers_run) blast
  with round show ?case
    by (auto simp: Let_def reading offers_def takes_errorf_advance split: if_splits option.split)
qed simp

lemma parseBlock_returns:
  assumes "length (toks p) < bound" "length (toks p) < n"
  shows "gives_on (parseBlock run n p) p"
proof -
  let ?q = "skipNewlines (expect LBRACE (skipNewlines p))"
  have r: "reads p ?q" by (intro chain)
  have "gives_on (block_loop run n [] ?q) ?q"
    using assms shorter_reads [OF r] by (intro block_loop_returns)
  then have "gives_on (parseBlock run n p) ?q"
    unfolding parseBlock_def by (rule gives_on_bind) (simp add: reading)
  then show ?thesis by (rule gives_on_from [OF r])
qed

lemma parse_else_returns:
  assumes "length (toks p) < bound" "length (toks p) < n"
  shows "gives_on (parse_else run n p) p"
proof -
  have a: "reads p (advance p)" by (intro chain)
  have "gives_on (parseBlock run n (advance p)) (advance p)"
    using assms shorter_reads [OF a] by (intro parseBlock_returns)
  then have "gives_on (Option.bind (parseBlock run n (advance p)) (\<lambda>(body, p1). Some (Some body, p1))) (advance p)"
    by (rule gives_on_bind) (simp add: reading)
  then show ?thesis by (auto simp: parse_else_def reading intro: gives_on_from [OF a])
qed

lemma parseIfStmt_returns:
  assumes "toks p \<noteq> []" "length (toks p) \<le> bound" "length (toks p) < n"
  shows "gives (parseIfStmt run n pos p) p"
proof (rule gives_after [OF takes_advance])
  have a: "length (toks (advance p)) < bound" using takes_length [OF takes_advance assms(1)] assms(2) by linarith
  have b: "length (toks (advance p)) < n" using takes_length [OF takes_advance assms(1)] assms(3) by linarith
  show "gives_on (parseIfStmt run n pos p) (advance p)"
    unfolding parseIfStmt_def
  proof (rule gives_on_bind [OF gives_on [OF length_less_gives [OF b]]], unfold prod.case)
    fix c q assume q: "reads (advance p) q"
    show "gives_on (Option.bind (parseBlock run n q) (\<lambda>(body, p2).
        Option.bind (parse_else run n (skipNewlines p2)) (\<lambda>(els, p3). Some (IfStmt c body els pos, p3)))) q"
    proof (rule gives_on_bind [OF parseBlock_returns], unfold prod.case)
      show "length (toks q) < bound" "length (toks q) < n" using a b shorter_reads [OF q] by auto
      fix body r assume "reads q r"
      then have r: "reads (advance p) (skipNewlines r)" using q reads_trans reads_skipNewlines by blast
      have "gives_on (parse_else run n (skipNewlines r)) (skipNewlines r)"
        using a b shorter_reads [OF r] by (intro parse_else_returns) auto
      then have "gives_on (Option.bind (parse_else run n (skipNewlines r))
          (\<lambda>(els, p3). Some (IfStmt c body els pos, p3))) (skipNewlines r)"
        by (rule gives_on_bind) (simp add: reading)
      then show "gives_on (Option.bind (parse_else run n (skipNewlines r))
          (\<lambda>(els, p3). Some (IfStmt c body els pos, p3))) r"
        by (rule gives_on_from [OF reads_skipNewlines])
    qed
  qed
qed

lemma parseForStmt_returns:
  assumes "toks p \<noteq> []" "length (toks p) \<le> bound" "length (toks p) < n"
  shows "gives (parseForStmt run n pos p) p"
proof -
  obtain key p1 v p2 where e: "expectIdent (advance p) = (key, p1)" "parse_for_value p1 = (v, p2)"
    by fastforce
  have "reads (advance p) p1" using takes_expectIdent [of "advance p"] takes_reads e by (metis snd_conv)
  moreover have "reads p1 p2"
    using e(2) reads_ident [OF reads_advance [OF reads_refl], of p1]
    by (auto simp: parse_for_value_def reading split: if_splits)
  ultimately have t: "takes p (expect KW_IN p2)"
    using takes_keyword reads_trans reads_expect by blast
  have a: "length (toks (expect KW_IN p2)) < bound" using takes_length [OF t assms(1)] assms(2) by linarith
  have b: "length (toks (expect KW_IN p2)) < n" using takes_length [OF t assms(1)] assms(3) by linarith
  have "gives_on (Option.bind (parse_expr n (expect KW_IN p2)) (\<lambda>(it, p3).
      Option.bind (parseBlock run n p3) (\<lambda>(body, p4). Some (ForStmt key v it body pos, p4)))) (expect KW_IN p2)"
  proof (rule gives_on_bind [OF gives_on [OF length_less_gives [OF b]]], unfold prod.case)
    fix it q assume q: "reads (expect KW_IN p2) q"
    have "gives_on (parseBlock run n q) q"
      using a b shorter_reads [OF q] by (intro parseBlock_returns) auto
    then show "gives_on (Option.bind (parseBlock run n q) (\<lambda>(body, p4). Some (ForStmt key v it body pos, p4))) q"
      by (rule gives_on_bind) (simp add: reading)
  qed
  then show ?thesis by (simp add: parseForStmt_def e gives_after [OF t])
qed

end

lemma arg_loop_returns: "length (toks p) < n \<Longrightarrow> gives_on (arg_loop n acc p) p"
proof (induction n arbitrary: acc p)
  case (Suc n)
  have "gives_on (Option.bind (parse_expr (Suc n) p) (\<lambda>(x, p1). arg_loop n (acc @ [x]) p1)) p"
    if ne: "\<not> isNewlineOrEnd p"
  proof (rule gives_on [OF gives_bind [OF length_less_gives [OF Suc.prems]]], unfold prod.case)
    fix x q assume "takes p q"
    then have "length (toks q) < n" using takes_length [OF _ not_isNewlineOrEnd [OF ne]] Suc.prems by fastforce
    then show "gives_on (arg_loop n (acc @ [x]) q) q" by (rule Suc.IH)
  qed
  then show ?case by (simp add: reading del: parse_expr.simps)
qed simp

text \<open>Expressions in a row, the optional condition and the end of the line.\<close>

lemma when_then_newline:
  assumes "length (toks p) < n"
  shows "gives_on (Option.bind (parse_when n p) (\<lambda>(w, p2). Some (f w, expectNewline p2))) p"
  by (rule gives_on_bind [OF parse_when_gives [OF assms]]) (simp add: reading)

lemma parseArgStmt_gives: "length (toks p) < n \<Longrightarrow> gives (parseArgStmt n pos p) p"
  unfolding parseArgStmt_def
  by (intro gives_after [OF takes_advance] gives_on_bind [OF arg_loop_returns])
    (auto intro!: when_then_newline intro: after_keyword chain)

lemma parseMkdirStmt_gives: "length (toks p) < n \<Longrightarrow> gives (parseMkdirStmt n pos p) p"
  unfolding parseMkdirStmt_def
  by (intro gives_after [OF takes_advance] gives_on_bind [OF gives_on [OF length_less_gives]])
    (auto simp: reading intro: after_keyword chain)

lemma parseAssignStmt_gives: "length (toks p) < n \<Longrightarrow> gives (parseAssignStmt n pos p) p"
  unfolding parseAssignStmt_def
  by (intro gives_after [OF takes_keyword [OF reads_advance [OF reads_refl]]]
      gives_on_bind [OF gives_on [OF length_less_gives]])
    (auto simp: reading intro: after_keyword chain)

lemma parseFileStmt_gives:
  assumes "length (toks p) < n"
  shows "gives (parseFileStmt n pos p) p"
proof (rule gives_after [OF takes_advance])
  let ?rest = "\<lambda>path content p2. case parse_file_mode p2 of (mode, p3) \<Rightarrow>
      Option.bind (parse_when n p3) (\<lambda>(w, p4). Some (FileStmt path content mode w pos, expectNewline p4))"
  have rest: "gives_on (?rest path content q) q" if "length (toks q) < n" for path content q
  proof -
    have "reads q (snd (parse_file_mode q))"
      using takes_reads [OF takes_expectInt] by (simp add: parse_file_mode_def reading)
    then obtain mode r where m: "parse_file_mode q = (mode, r)" and r: "reads q r" by (metis prod.collapse)
    have "length (toks r) < n" using that shorter_reads [OF r] by blast
    then have "gives_on (?rest path content q) r"
      unfolding m prod.case by (rule when_then_newline)
    then show ?thesis by (rule gives_on_from [OF r])
  qed
  have a: "length (toks (advance p)) < n" by (rule after_keyword [OF assms reads_refl])
  show "gives_on (parseFileStmt n pos p) (advance p)"
    unfolding parseFileStmt_def
  proof (rule gives_on_bind [OF gives_on [OF length_less_gives [OF a]]], unfold prod.case)
    fix path q assume "reads (advance p) q"
    then have b: "length (toks q) < n" using a shorter_reads by blast
    show "gives_on (Option.bind (parse_expr n q) (\<lambda>(content, p2). ?rest path content p2)) q"
    proof (rule gives_on_bind [OF gives_on [OF length_less_gives [OF b]]], unfold prod.case)
      fix content r assume "reads q r"
      then show "gives_on (?rest path content r) r" using b shorter_reads by (intro rest) blast
    qed
  qed
qed

lemma parse_stmt_parser: "block_parser (parse_stmt n) n"
proof (induction n)
  case 0
  then show ?case by (simp add: block_parser_def offering_parser_def)
next
  case (Suc n)
  have "offers (tryParseStatement (parse_stmt n) (Suc n) p) p" if len: "length (toks p) < Suc n" for p
    using len block_parser.parseIfStmt_returns [OF Suc, of p "Suc n"]
      block_parser.parseForStmt_returns [OF Suc, of p "Suc n"] keyword_nonempty [of p]
    by (simp add: tryParseStatement_def Let_def offers_some_stmt parseArgStmt_gives parseFileStmt_gives
        parseMkdirStmt_gives parseAssignStmt_gives del: parse_expr.simps split: token_type.split)
  then show ?case by (simp add: block_parser_def offering_parser_def)
qed

interpretation ps: block_parser "parse_stmt n" n for n
  by (rule parse_stmt_parser)

interpretation pd: offering_parser "tryParseDeclaration n" n for n
  by unfold_locales (rule tryParseDeclaration_offers)

subsection \<open>The program\<close>

lemma parseProgram_returns:
  "length (toks p) < n \<Longrightarrow> length (toks p) < depth \<Longrightarrow> gives_on (parseProgram depth n prog p) p"
proof (induction n arbitrary: prog p)
  case (Suc n)
  let ?p1 = "skipNewlines p"
  have round: "gives_on (parseProgram depth n prog' q) p" if "\<not> atEnd p" "takes ?p1 q" for prog' q
  proof (rule gives_on_from)
    show "reads p q" using reads_skipNewlines takes_reads [OF that(2)] reads_trans by blast
    show "gives_on (parseProgram depth n prog' q) q"
      using shorter_round [OF that(1) reads_skipNewlines that(2) reads_refl Suc.prems(1)]
        not_longer [OF reads_skipNewlines that(2) reads_refl Suc.prems(2)] by (rule Suc.IH)
  qed
  have len: "length (toks ?p1) < depth" using Suc.prems shorter_reads [OF reads_skipNewlines] by blast
  have "offers (tryParseDeclaration depth ?p1) ?p1" "offers (parse_stmt depth ?p1) ?p1"
    using pd.offers_run [OF len] ps.offers_run [OF len] .
  with round show ?case
    by (auto simp: Let_def reading offers_def takes_errorf_advance split: if_splits option.split)
qed simp

lemma parse_some: "\<exists>prog errs. Parse src = Some (prog, errs)"
  using parseProgram_returns [of "\<lparr>toks = Tokenize src, errors = []\<rparr>" "Suc (length (Tokenize src))"
      "Suc (length (Tokenize src))" empty_program]
  by (auto simp: Parse_def Let_def gives_on_def)

text \<open>C23. The parser returns on every source text: its loops, and its recursion through expressions,
  blocks and nested literals, all end, and it gives a program with its list of errors. (The model's
  parser is bounded by the number of tokens and a value \<open>None\<close> would stand for a run that does not
  end; this says there is none.)\<close>

theorem Parse_returns: "\<exists>prog errs. Parse src = Some (prog, errs)"
  by (rule parse_some)

end
