(* ===== verification/AgentMergeProps.thy ===== *)
theory AgentMergeProps
  imports AgentMerge
begin

text \<open>
  Correctness of the overlay: the ordered index of agentfile/merge implements a finite map from
  declaration keys to declarations, on which a slice acts declaration by declaration.
\<close>

named_theorems merge_simps \<open>the index operations on keys and declarations\<close>

subsection \<open>The abstract overlay\<close>

text \<open>What one declaration of a slice does to the map.\<close>

definition overlay :: "decl \<Rightarrow> (decl_key \<Rightarrow> decl option) \<Rightarrow> (decl_key \<Rightarrow> decl option)" where
  "overlay d m = (case d of
       RemoveDecl target name _ \<Rightarrow> (m((target, name) := None))(getDeclKey d \<mapsto> d)
     | SkillsDecl slugs _ \<Rightarrow> (case m (getDeclKey d) of
           Some (SkillsDecl base _) \<Rightarrow> m(getDeclKey d \<mapsto> SkillsDecl (unionStrings base slugs) no_pos)
         | _ \<Rightarrow> m(getDeclKey d \<mapsto> d))
     | KnowledgeDecl mounts _ \<Rightarrow> (case m (getDeclKey d) of
           Some (KnowledgeDecl base _) \<Rightarrow> m(getDeclKey d \<mapsto> KnowledgeDecl (unionKnowledgeMounts base mounts) no_pos)
         | _ \<Rightarrow> m(getDeclKey d \<mapsto> d))
     | ConfigDecl name ty opts dflt pos \<Rightarrow> (case m (getDeclKey d) of
           Some (ConfigDecl name' ty' opts' dflt' pos') \<Rightarrow>
             m(getDeclKey d \<mapsto> if ty = [] then ConfigDecl name' ty' opts' dflt pos' else d)
         | _ \<Rightarrow> m(getDeclKey d \<mapsto> d))
     | _ \<Rightarrow> m(getDeclKey d \<mapsto> d))"

definition decl_map :: "decl list \<Rightarrow> (decl_key \<Rightarrow> decl option)" where
  "decl_map ds = fold (\<lambda>d m. m(getDeclKey d \<mapsto> d)) ds (\<lambda>_. None)"

lemma decls_put [merge_simps]: "decls (put_decl key d idx) = (decls idx)(key \<mapsto> d)"
  "decls (append_key key idx) = decls idx" "decls (put_or_append key d idx) = (decls idx)(key \<mapsto> d)"
  by (simp_all add: put_decl_def append_key_def put_or_append_def)

lemma order_put [merge_simps]: "order (put_decl key d idx) = order idx"
  "order (append_key key idx) = order idx @ [key]"
  "order (put_or_append key d idx) = (if decls idx key = None then order idx @ [key] else order idx)"
  by (simp_all add: put_decl_def append_key_def put_or_append_def)

lemma decls_apply_slice_decl: "decls (apply_slice_decl d idx) = overlay d (decls idx)"
  by (cases d) (auto simp: apply_slice_decl_def overlay_def apply_remove_def findSkillsDecl_def
      findKnowledgeDecl_def merge_simps Let_def split: option.split decl.split)

lemma decls_applySliceDeclarations: "decls (applySliceDeclarations idx ds) = fold overlay ds (decls idx)"
  unfolding applySliceDeclarations_def
  by (induction ds arbitrary: idx) (simp_all add: decls_apply_slice_decl)

lemma decls_index_from:
  "decls (fold (\<lambda>d. put_or_append (getDeclKey d) d) ds idx) = fold (\<lambda>d m. m(getDeclKey d \<mapsto> d)) ds (decls idx)"
  by (induction ds arbitrary: idx) (simp_all add: merge_simps)

lemma decls_indexDeclarations: "decls (indexDeclarations ds) = decl_map ds"
  by (simp add: indexDeclarations_def decls_index_from decl_map_def)

subsection \<open>The invariant of the index\<close>

text \<open>Every entry is under its own key, and its key is in the order.\<close>

definition index_ok :: "indexed_decls \<Rightarrow> bool" where
  "index_ok idx \<longleftrightarrow> (\<forall>k d. decls idx k = Some d \<longrightarrow> getDeclKey d = k \<and> k \<in> set (order idx))"

lemma index_okD: "index_ok idx \<Longrightarrow> decls idx k = Some d \<Longrightarrow> getDeclKey d = k \<and> k \<in> set (order idx)"
  unfolding index_ok_def by blast

lemma index_ok_put: "index_ok idx \<Longrightarrow> getDeclKey d = key \<Longrightarrow> index_ok (put_or_append key d idx)"
  "index_ok idx \<Longrightarrow> getDeclKey d = key \<Longrightarrow> index_ok (append_key key (put_decl key d idx))"
  "index_ok idx \<Longrightarrow> getDeclKey d = key \<Longrightarrow> decls idx key \<noteq> None \<Longrightarrow> index_ok (put_decl key d idx)"
  by (auto simp: index_ok_def merge_simps simp del: split_paired_All split: if_splits)

text \<open>An entry under a CONFIG key has the name of the key.\<close>

lemma config_key:
  "index_ok idx \<Longrightarrow> decls idx (''CONFIG'', n) = Some (ConfigDecl n' ty opts dflt pos) \<Longrightarrow> n' = n"
  by (auto dest: index_okD)

lemma index_ok_config:
  "index_ok idx \<Longrightarrow> decls idx (''CONFIG'', n) = Some (ConfigDecl n' ty opts dflt pos) \<Longrightarrow>
    index_ok (put_decl (''CONFIG'', n) (ConfigDecl n' ty opts dflt' pos) idx)"
  by (rule index_ok_put) (auto dest: config_key)

lemma index_ok_delete: "index_ok idx \<Longrightarrow> index_ok (idx\<lparr>decls := (decls idx)(key := None)\<rparr>)"
  by (simp add: index_ok_def)

lemma index_ok_apply: "index_ok idx \<Longrightarrow> index_ok (apply_slice_decl d idx)"
  by (cases d) (auto simp: apply_slice_decl_def apply_remove_def findSkillsDecl_def findKnowledgeDecl_def Let_def
      index_ok_put index_ok_config index_ok_delete split: option.splits decl.splits)

lemma index_ok_applySlice: "index_ok idx \<Longrightarrow> index_ok (applySliceDeclarations idx ds)"
  unfolding applySliceDeclarations_def by (induction ds arbitrary: idx) (simp_all add: index_ok_apply)

lemma index_ok_index: "index_ok (indexDeclarations ds)"
proof -
  have step: "index_ok (fold (\<lambda>d. put_or_append (getDeclKey d) d) ds idx)" if "index_ok idx" for idx
    using that by (induction ds arbitrary: idx) (simp_all add: index_ok_put)
  show ?thesis
    unfolding indexDeclarations_def by (rule step) (simp add: index_ok_def)
qed

text \<open>Without removals no key stands twice in the order.\<close>

definition no_removes :: "decl list \<Rightarrow> bool" where
  "no_removes ds \<longleftrightarrow> (\<forall>d \<in> set ds. \<not> (\<exists>t n p. d = RemoveDecl t n p))"

definition order_tight :: "indexed_decls \<Rightarrow> bool" where
  "order_tight idx \<longleftrightarrow> index_ok idx \<and> distinct (order idx) \<and> (\<forall>k \<in> set (order idx). decls idx k \<noteq> None)"

lemma order_tight_put_or_append:
  "order_tight idx \<Longrightarrow> getDeclKey d = key \<Longrightarrow> order_tight (put_or_append key d idx)"
  by (auto simp: order_tight_def index_ok_put) (auto simp: merge_simps split: if_splits)

lemma order_tight_append:
  "order_tight idx \<Longrightarrow> getDeclKey d = key \<Longrightarrow> decls idx key = None \<Longrightarrow>
    order_tight (append_key key (put_decl key d idx))"
  by (auto simp: order_tight_def index_ok_put) (auto simp: merge_simps)

lemma order_tight_put:
  "order_tight idx \<Longrightarrow> getDeclKey d = key \<Longrightarrow> decls idx key \<noteq> None \<Longrightarrow> order_tight (put_decl key d idx)"
  by (auto simp: order_tight_def index_ok_put) (auto simp: merge_simps)

text \<open>The keys of lists hold lists, so a list key with no list is free.\<close>

lemma list_keys:
  "index_ok idx \<Longrightarrow> findSkillsDecl idx = None \<Longrightarrow> decls idx (''SKILLS'', []) = None"
  "index_ok idx \<Longrightarrow> findKnowledgeDecl idx = None \<Longrightarrow> decls idx (''KNOWLEDGE'', []) = None"
  by (auto simp: findSkillsDecl_def findKnowledgeDecl_def dest!: index_okD split: option.splits decl.splits)

lemma find_some:
  "findSkillsDecl idx = Some s \<Longrightarrow> decls idx (''SKILLS'', []) \<noteq> None"
  "findKnowledgeDecl idx = Some m \<Longrightarrow> decls idx (''KNOWLEDGE'', []) \<noteq> None"
  by (auto simp: findSkillsDecl_def findKnowledgeDecl_def split: option.splits)

lemma order_tight_config:
  "order_tight idx \<Longrightarrow> decls idx (''CONFIG'', n) = Some (ConfigDecl n' ty opts dflt pos) \<Longrightarrow>
    order_tight (put_decl (''CONFIG'', n) (ConfigDecl n' ty opts dflt' pos) idx)"
  by (rule order_tight_put) (auto simp: order_tight_def dest: config_key)

lemma order_tight_apply:
  assumes "order_tight idx" "\<not> (\<exists>t n p. d = RemoveDecl t n p)"
  shows "order_tight (apply_slice_decl d idx)"
proof -
  have ok: "index_ok idx" using assms(1) by (simp add: order_tight_def)
  show ?thesis
  proof (cases d)
    case (SkillsDecl slugs p)
    then show ?thesis
      using assms(1) list_keys(1) [OF ok] find_some(1)
      by (auto simp: apply_slice_decl_def order_tight_append order_tight_put split: option.split)
  next
    case (KnowledgeDecl mounts p)
    then show ?thesis
      using assms(1) list_keys(2) [OF ok] find_some(2)
      by (auto simp: apply_slice_decl_def order_tight_append order_tight_put split: option.split)
  next
    case (ConfigDecl name ty opts dflt p)
    then show ?thesis
      using assms(1)
      by (simp add: apply_slice_decl_def order_tight_put_or_append order_tight_config
          split: option.split decl.split)
  qed (use assms in \<open>simp_all add: apply_slice_decl_def order_tight_put_or_append\<close>)
qed

lemma order_tight_applySlice:
  "order_tight idx \<Longrightarrow> no_removes ds \<Longrightarrow> order_tight (applySliceDeclarations idx ds)"
  unfolding applySliceDeclarations_def
  by (induction ds arbitrary: idx) (simp_all add: order_tight_apply no_removes_def)

lemma order_tight_index: "order_tight (indexDeclarations ds)"
proof -
  have step: "order_tight (fold (\<lambda>d. put_or_append (getDeclKey d) d) ds idx)" if "order_tight idx" for idx
    using that by (induction ds arbitrary: idx) (simp_all add: order_tight_put_or_append)
  show ?thesis
    unfolding indexDeclarations_def by (rule step) (simp add: order_tight_def index_ok_def)
qed

subsection \<open>The merged list\<close>

lemma decl_map_snoc: "decl_map (ds @ [d]) = (decl_map ds)(getDeclKey d \<mapsto> d)"
  by (simp add: decl_map_def)

lemma decl_map_flatten_from:
  assumes "\<And>k d. m k = Some d \<Longrightarrow> getDeclKey d = k"
  shows "decl_map (List.map_filter m ks) k = (if k \<in> set ks then m k else None)"
proof (induction ks rule: rev_induct)
  case (snoc k' ks)
  then show ?case
    using assms by (cases "m k'") (auto simp: List.map_filter_def decl_map_snoc)
qed (simp add: List.map_filter_def decl_map_def)

lemma decl_map_flatten: "index_ok idx \<Longrightarrow> decl_map (flattenDeclarations idx) = decls idx"
  using index_okD [of idx]
  by (auto simp: flattenDeclarations_def fun_eq_iff decl_map_flatten_from) (metis not_Some_eq)

lemma keys_flatten: "order_tight idx \<Longrightarrow> map getDeclKey (flattenDeclarations idx) = order idx"
proof -
  assume t: "order_tight idx"
  have "map getDeclKey (List.map_filter (decls idx) ks) = ks" if "set ks \<subseteq> set (order idx)" for ks
    using that t by (induction ks) (auto simp: List.map_filter_def order_tight_def index_ok_def)
  then show ?thesis by (simp add: flattenDeclarations_def)
qed

text \<open>The refinement of the whole merge.\<close>

lemma decl_map_Merge:
  "decl_map (Declarations (Merge base slice)) = fold overlay (Declarations slice) (decl_map (Declarations base))"
  by (simp add: Merge_def decl_map_flatten index_ok_applySlice index_ok_index decls_applySliceDeclarations
      decls_indexDeclarations)

subsection \<open>Which entries a slice changes\<close>

text \<open>The keys a declaration of a slice writes or deletes.\<close>

fun touches :: "decl \<Rightarrow> decl_key \<Rightarrow> bool" where
  "touches (RemoveDecl target name p) k \<longleftrightarrow> k = (target, name) \<or> k = getDeclKey (RemoveDecl target name p)"
| "touches d k \<longleftrightarrow> k = getDeclKey d"

lemma overlay_untouched: "\<not> touches d k \<Longrightarrow> overlay d m k = m k"
  by (cases d) (auto simp: overlay_def split: option.split decl.split)

lemma overlays_untouched: "\<forall>d \<in> set ds. \<not> touches d k \<Longrightarrow> fold overlay ds m k = m k"
  by (induction ds arbitrary: m) (simp_all add: overlay_untouched)

text \<open>The declarations that replace the entry of their key whole.\<close>

fun replaces :: "decl \<Rightarrow> bool" where
  "replaces (SkillsDecl _ _) = False"
| "replaces (KnowledgeDecl _ _) = False"
| "replaces (ConfigDecl _ ty _ _ _) = (ty \<noteq> [])"
| "replaces _ = True"

lemma overlay_replaces: "replaces d \<Longrightarrow> overlay d m (getDeclKey d) = Some d"
  by (cases d) (auto simp: overlay_def split: option.split decl.split)

text \<open>C9. Merging two programs acts on the declarations as the overlay acts on the finite map from
  keys to declarations: overriding scalars and keyed declarations, uniting SKILLS and KNOWLEDGE,
  keeping the type of a CONFIG that the slice only gives a default, deleting what a REMOVE names;
  and the statements of the slice follow the ones of the base.\<close>

theorem Merge_refines_overlay:
  "decl_map (Declarations (Merge base slice)) =
     fold overlay (Declarations slice) (decl_map (Declarations base))
   \<and> Statements (Merge base slice) = Statements base @ Statements slice"
  using decl_map_Merge by (simp add: Merge_def)

text \<open>When the slice has no REMOVE, the merged program has one declaration for each key.\<close>

theorem Merge_keys_distinct:
  assumes "no_removes (Declarations slice)"
  shows "distinct (map getDeclKey (Declarations (Merge base slice)))"
  using order_tight_applySlice [OF order_tight_index assms, of "Declarations base"]
  by (simp add: Merge_def keys_flatten order_tight_def)

theorem Merge_keys_distinct_witness:
  "distinct (map getDeclKey (Declarations (Merge
     \<lparr>Declarations = [AgentDecl ''claude'' (1, 1), ConfigDecl ''model'' ''string'' [] VNil (2, 1),
        AgentDecl ''codex'' (3, 1)], Statements = []\<rparr>
     \<lparr>Declarations = [ConfigDecl ''model'' [] [] (VStr ''opus'') (1, 1), ModeDecl ''acp'' (2, 1)],
        Statements = []\<rparr>)))"
  by (rule Merge_keys_distinct) (simp add: no_removes_def)

text \<open>The last declaration of a slice that replaces its entry whole is the one in force after the
  merge, whatever the base holds.\<close>

theorem Merge_slice_overrides:
  assumes "Declarations slice = pre @ d # post" "replaces d"
    and "\<forall>e \<in> set post. \<not> touches e (getDeclKey d)"
  shows "decl_map (Declarations (Merge base slice)) (getDeclKey d) = Some d"
  using assms by (simp add: decl_map_Merge overlays_untouched overlay_replaces)

theorem Merge_slice_overrides_witness:
  "decl_map (Declarations (Merge
     \<lparr>Declarations = [ModeDecl ''pty'' (1, 1), PromptDecl ''a'' (2, 1)], Statements = []\<rparr>
     \<lparr>Declarations = [PromptDecl ''b'' (1, 1), ModeDecl ''acp'' (2, 1), BranchDecl (StringLit ''dev'') (3, 1)],
        Statements = []\<rparr>)) (getDeclKey (ModeDecl ''acp'' (2, 1))) = Some (ModeDecl ''acp'' (2, 1))"
  by (rule Merge_slice_overrides [where pre = "[PromptDecl ''b'' (1, 1)]"
        and post = "[BranchDecl (StringLit ''dev'') (3, 1)]"]) simp_all

text \<open>What no declaration of the slice names stays as the base has it.\<close>

theorem Merge_base_kept:
  assumes "\<forall>d \<in> set (Declarations slice). \<not> touches d k"
  shows "decl_map (Declarations (Merge base slice)) k = decl_map (Declarations base) k"
  using assms by (simp add: decl_map_Merge overlays_untouched)

theorem Merge_base_kept_witness:
  "decl_map (Declarations (Merge
     \<lparr>Declarations = [ModeDecl ''pty'' (1, 1), PromptDecl ''a'' (2, 1)], Statements = []\<rparr>
     \<lparr>Declarations = [RemoveDecl ''ENV'' ''A'' (1, 1), ModeDecl ''acp'' (2, 1)], Statements = []\<rparr>))
     (''PROMPT'', []) =
   decl_map [ModeDecl ''pty'' (1, 1), PromptDecl ''a'' (2, 1)] (''PROMPT'', [])"
  by (subst Merge_base_kept) simp_all

text \<open>A name that a layer removes and then declares again stands twice among the merged
  declarations, around its REMOVE, which the build applies last: the new declaration is printed
  twice and its value is removed from the environment.\<close>

theorem Merge_remove_then_declare:
  "let env = EnvDecl ''A'' [] ''new'' None None False (2, 1);
       merged = Merge \<lparr>Declarations = [EnvDecl ''A'' [] ''old'' None None False (1, 1)], Statements = []\<rparr>
                  \<lparr>Declarations = [RemoveDecl ''ENV'' ''A'' (1, 1), env], Statements = []\<rparr>
   in Declarations merged = [env, RemoveDecl ''ENV'' ''A'' (1, 1), env]"
  by code_simp

end
