(* ===== verification/AgentLayerProps.thy ===== *)
theory AgentLayerProps
  imports AgentExtract AgentParserTotal AgentMergeProps
begin

text \<open>
  Correctness of the backend's reading of Agentfiles: the priority of CONFIG values, the
  pipeline of a user's layer and the credential schema.
\<close>

subsection \<open>CONFIG values\<close>

text \<open>The default in force for a CONFIG name: the one of its last declaration.\<close>

definition config_default :: "decl list \<Rightarrow> str \<Rightarrow> val option" where
  "config_default ds n = fold (\<lambda>d r. case d of
     ConfigDecl name _ _ v _ \<Rightarrow> if name = n then Some v else r | _ \<Rightarrow> r) ds None"

text \<open>The priorities of resolve.go: override, layer, preference, base default.\<close>

definition priority :: "str list \<Rightarrow> variables \<Rightarrow> variables \<Rightarrow> str \<Rightarrow> val \<Rightarrow> val" where
  "priority layer prefs overrides n v =
     (case gm_get overrides n of Some w \<Rightarrow> w | None \<Rightarrow>
        if n \<in> set layer then v else (case gm_get prefs n of Some u \<Rightarrow> u | None \<Rightarrow> v))"

lemma resolve_decl_config:
  "resolve_decl layer prefs overrides (ConfigDecl n ty opts v p) =
     ConfigDecl n ty opts (priority layer prefs overrides n v) p"
  by (simp add: priority_def)

lemma config_default_snoc:
  "config_default (ds @ [d]) n = (case d of
     ConfigDecl name _ _ v _ \<Rightarrow> if name = n then Some v else config_default ds n | _ \<Rightarrow> config_default ds n)"
  by (cases d) (simp_all add: config_default_def)

lemma config_default_names: "config_default ds n = None \<longleftrightarrow> n \<notin> set (List.map_filter config_name ds)"
proof (induction ds rule: rev_induct)
  case (snoc d ds)
  then show ?case by (cases d) (auto simp: config_default_snoc List.map_filter_def)
qed (simp add: config_default_def List.map_filter_def)

lemma config_default_resolved:
  "config_default (map (resolve_decl layer prefs overrides) ds) n =
     map_option (priority layer prefs overrides n) (config_default ds n)"
proof (induction ds rule: rev_induct)
  case (snoc d ds)
  then show ?case by (cases d) (simp_all add: config_default_snoc resolve_decl_config del: resolve_decl.simps(1))
qed (simp add: config_default_def)

lemma config_default_append:
  "config_default (ds @ es) n = (case config_default es n of Some v \<Rightarrow> Some v | None \<Rightarrow> config_default ds n)"
proof (induction es rule: rev_induct)
  case (snoc e es)
  then show ?case
    by (cases e) (auto simp: config_default_snoc append_assoc [symmetric] simp del: append_assoc split: option.split)
qed (simp add: config_default_def)

lemma config_default_overrides:
  "config_default (map override_decl kvs) n = map_of (rev kvs) n"
proof (induction kvs rule: rev_induct)
  case (snoc kv kvs)
  then show ?case by (cases kv) (simp add: config_default_snoc override_decl_def)
qed (simp add: config_default_def)

text \<open>A run visits the entries of a map once each, in some order.\<close>

definition visits_once :: "(variables \<Rightarrow> variables) \<Rightarrow> bool" where
  "visits_once visit \<longleftrightarrow> (\<forall>m. set (visit m) = set m \<and> length (visit m) = length m)"

lemma visits_once_distinct:
  assumes "visits_once visit" "distinct (map fst m)"
  shows "distinct (map fst (visit m))"
proof -
  have "card (set (map fst (visit m))) = length (visit m)"
    using assms by (simp add: visits_once_def distinct_card [of "map fst m", simplified])
  then show ?thesis by (simp add: card_distinct)
qed

lemma visits_once_map_of:
  assumes "visits_once visit" "gm_ok m"
  shows "map_of (rev (filter (\<lambda>(n, _). P n) (visit m))) n = (if P n then gm_get m n else None)"
proof -
  let ?v = "visit m"
  have d: "distinct (map fst ?v)" using assms visits_once_distinct gm_ok_distinct by blast
  have "map_of (rev (filter (\<lambda>(n, _). P n) ?v)) = map_of (filter (\<lambda>(n, _). P n) ?v)"
    using d by (intro map_of_inject_set [THEN iffD2]) (auto simp: rev_map [symmetric] distinct_map_filter)
  moreover have "map_of (filter (\<lambda>(n, _). P n) xs) n = (if P n then map_of xs n else None)" for xs :: variables
    by (induction xs) auto
  moreover have "map_of ?v = map_of m"
    using d gm_ok_distinct [OF assms(2)] assms(1) by (simp add: map_of_inject_set visits_once_def)
  ultimately show ?thesis by (simp add: gm_get_def)
qed

lemma resolved_default:
  assumes "visits_once visit" "gm_ok overrides"
  shows "config_default (Declarations (ResolveConfigValues visit prog layer prefs overrides)) n =
    (case config_default (Declarations prog) n of
       Some v \<Rightarrow> Some (priority layer prefs overrides n v)
     | None \<Rightarrow> gm_get overrides n)"
proof -
  let ?seen = "ExtractConfigNames prog"
  have "config_default (map override_decl (filter (\<lambda>(m, _). m \<notin> set ?seen) (visit overrides))) n =
      (if n \<notin> set ?seen then gm_get overrides n else None)"
    unfolding config_default_overrides by (rule visits_once_map_of [OF assms])
  then show ?thesis
    by (auto simp: ResolveConfigValues_def Let_def config_default_append config_default_resolved
        config_default_names ExtractConfigNames_def split: option.split)
       (metis config_default_names option.distinct(1))+
qed

text \<open>The value of a CONFIG name after the resolution: a system override wins over everything, the
  value set in the user's layer over the user's preference, the preference over the base default;
  a name without a declaration gets one exactly when it has an override. The order in which Go
  visits the overrides does not matter for the values.\<close>

theorem ResolveConfigValues_priority:
  assumes "visits_once visit" "gm_ok overrides"
  shows "config_default (Declarations (ResolveConfigValues visit prog layer prefs overrides)) n =
    (case config_default (Declarations prog) n of
       None \<Rightarrow> gm_get overrides n
     | Some base \<Rightarrow> Some (case gm_get overrides n of
           Some w \<Rightarrow> w
         | None \<Rightarrow> if n \<in> set layer then base
                   else (case gm_get prefs n of Some u \<Rightarrow> u | None \<Rightarrow> base)))"
  using resolved_default [OF assms] by (simp add: priority_def split: option.split)

theorem ResolveConfigValues_priority_witness:
  "config_default (Declarations (ResolveConfigValues (\<lambda>m. rev m)
     \<lparr>Declarations = [ConfigDecl ''model'' ''string'' [] (VStr ''a'') (1, 1)], Statements = []\<rparr>
     [] [(''model'', VStr ''b'')] [(''session_id'', VStr ''s'')])) ''model'' = Some (VStr ''b'')"
  by (subst ResolveConfigValues_priority)
    (auto simp: visits_once_def config_default_def gm_get_def)

subsection \<open>The layer of a user\<close>

lemma Extract_configs:
  "spec_config (fold extract_decl ds s) = spec_config s @ List.map_filter (\<lambda>d. case d of
     ConfigDecl name ty opts v _ \<Rightarrow> Some \<lparr>cs_name = name, cs_type = ty, cs_default = v, cs_options = opts\<rparr>
   | _ \<Rightarrow> None) ds"
proof (induction ds arbitrary: s)
  case (Cons d ds)
  show ?case by (cases d) (simp_all add: Cons.IH List.map_filter_def)
qed (simp add: List.map_filter_def)

lemma lr_config_fold:
  "gm_get (fold (\<lambda>c m. if isSystemConfigKey (cs_name c) then m else gm_set (cs_name c) (cs_default c) m)
     (List.map_filter (\<lambda>d. case d of
        ConfigDecl name ty opts v _ \<Rightarrow> Some \<lparr>cs_name = name, cs_type = ty, cs_default = v, cs_options = opts\<rparr>
      | _ \<Rightarrow> None) ds) []) n = (if isSystemConfigKey n then None else config_default ds n)"
proof (induction ds rule: rev_induct)
  case (snoc d ds)
  then show ?case
    by (cases d) (auto simp: List.map_filter_def config_default_snoc gomap_simps)
qed (simp add: List.map_filter_def config_default_def gomap_simps)

lemma lr_config_of:
  "gm_get (lr_config (layer_result_of prog)) n =
     (if isSystemConfigKey n then None else config_default (Declarations prog) n)"
  using lr_config_fold [of "Declarations prog" n]
  by (simp add: layer_result_of_def Let_def Extract_def Extract_configs empty_spec_def)

lemma layer_names: "set (ExtractConfigNames prog) = {n. config_default (Declarations prog) n \<noteq> None}"
  using config_default_names [of "Declarations prog"] by (auto simp: ExtractConfigNames_def)

text \<open>C6. The pipeline ends on every pair of texts: with a parse error of the base, of the layer, or
  with a result whose configuration has, for each name that is not a system key, the value by
  priority: system override, layer, preference, base.\<close>

theorem extractFromAgentfileLayer_correct:
  assumes "visits_once visit" "gm_ok overrides"
  shows "\<exists>bp be up ue. Parse base = Some (bp, be) \<and> Parse layer = Some (up, ue) \<and>
    extractFromAgentfileLayer visit base layer prefs overrides = Some
      (if be \<noteq> [] then Inl (BaseParseError (hd be))
       else if ue \<noteq> [] then Inl (InvalidLayer (hd ue))
       else Inr (layer_result_of (ResolveConfigValues visit (Merge bp up) (ExtractConfigNames up) prefs overrides)))
    \<and> (\<forall>n. gm_get (lr_config (layer_result_of
           (ResolveConfigValues visit (Merge bp up) (ExtractConfigNames up) prefs overrides))) n =
         (if isSystemConfigKey n then None
          else (case config_default (Declarations (Merge bp up)) n of
             None \<Rightarrow> gm_get overrides n
           | Some v \<Rightarrow> Some (priority (ExtractConfigNames up) prefs overrides n v))))"
proof -
  obtain bp be up ue where p: "Parse base = Some (bp, be)" "Parse layer = Some (up, ue)"
    using parse_some [of base] parse_some [of layer] by blast
  then show ?thesis
    using resolved_default [OF assms, where prefs = prefs and prog = "Merge bp up" and layer = "ExtractConfigNames up"]
    by (auto simp: extractFromAgentfileLayer_def lr_config_of)
qed

theorem extractFromAgentfileLayer_correct_witness:
  "\<exists>r. extractFromAgentfileLayer (\<lambda>m. m) ''AGENT claude'' ''MODE acp'' []
      (newSystemOverrides ''s1'' False True []) = Some r"
proof -
  have "visits_once (\<lambda>m. m)" by (simp add: visits_once_def)
  moreover have "gm_ok (newSystemOverrides ''s1'' False True [])" by code_simp
  ultimately show ?thesis using extractFromAgentfileLayer_correct by blast
qed

text \<open>The overrides of a new session and of a resumed one: the session is named on a fresh start
  and blank on a resume; the resume values are given only when the agent's session is resumed; and
  they are all system keys, so no user configuration is ever reported under them.\<close>

theorem newSystemOverrides_correct:
  "gm_get (newSystemOverrides sid resume agent ext) ''session_id'' = Some (VStr (if resume then [] else sid))
   \<and> gm_get (newSystemOverrides sid resume agent ext) ''resume_session'' =
       (if resume \<and> agent then Some (VStr sid) else None)
   \<and> gm_get (newSystemOverrides sid resume agent ext) ''resume_enabled'' =
       (if resume \<and> agent then Some (VBool True) else None)
   \<and> gm_get (newSystemOverrides sid resume agent ext) ''resume_external_session'' =
       (if ext \<noteq> [] then Some (VStr ext) else None)
   \<and> gm_ok (newSystemOverrides sid resume agent ext)
   \<and> set (gm_keys (newSystemOverrides sid resume agent ext)) \<subseteq> {n. isSystemConfigKey n}"
  by (auto simp: newSystemOverrides_def Let_def gomap_simps gm_keys_def isSystemConfigKey_def
      simp del: gm_set.simps simp flip: set_map dest!: arg_cong [of _ _ set] simp: keys_gm_set)

subsection \<open>Credentials\<close>

fun env_spec_of :: "decl \<Rightarrow> env_spec option" where
  "env_spec_of (EnvDecl name source v _ _ opt _) =
     Some \<lparr>es_name = name, es_source = source, es_value = v, es_optional = opt\<rparr>"
| "env_spec_of _ = None"

lemma Extract_envs: "spec_env (fold extract_decl ds s) = spec_env s @ List.map_filter env_spec_of ds"
proof (induction ds arbitrary: s)
  case (Cons d ds)
  show ?case by (cases d) (simp_all add: Cons.IH List.map_filter_def)
qed (simp add: List.map_filter_def)

lemma env_spec_of_Some:
  "env_spec_of d = Some e \<longleftrightarrow> (\<exists>ve w p. d = EnvDecl (es_name e) (es_source e) (es_value e) ve w (es_optional e) p)"
  by (cases d) auto

lemma set_Extract_env:
  "e \<in> set (spec_env (Extract prog)) \<longleftrightarrow>
    (\<exists>ve w p. EnvDecl (es_name e) (es_source e) (es_value e) ve w (es_optional e) p \<in> set (Declarations prog))"
proof -
  have "e \<in> set (spec_env (Extract prog)) \<longleftrightarrow> (\<exists>d \<in> set (Declarations prog). env_spec_of d = Some e)"
    by (auto simp: Extract_def Extract_envs empty_spec_def List.map_filter_def image_iff)
  then show ?thesis unfolding env_spec_of_Some by blast
qed

text \<open>The keys the policy treats as not secret are exactly the names of the ENV declarations with the
  source TEXT: a name only declared SECRET is never among them.\<close>

theorem NonSecretCredentialKeys_text_only:
  "set (NonSecretCredentialKeys (FromProgram prog)) =
     {n. \<exists>v ve w opt p. EnvDecl n ''text'' v ve w opt p \<in> set (Declarations prog)}"
proof -
  have "set (NonSecretCredentialKeys (FromProgram prog)) =
      es_name ` {e \<in> set (spec_env (Extract prog)). es_source e = ''text''}"
    by (auto simp: NonSecretCredentialKeys_def FromProgram_def Let_def credential_of_def isUserCredentialEnv_def
        filter_map comp_def)
  also have "\<dots> = {n. \<exists>v ve w opt p. EnvDecl n ''text'' v ve w opt p \<in> set (Declarations prog)}"
  proof (intro set_eqI iffI)
    fix n assume "n \<in> {n. \<exists>v ve w opt p. EnvDecl n ''text'' v ve w opt p \<in> set (Declarations prog)}"
    then obtain v ve w opt p where "EnvDecl n ''text'' v ve w opt p \<in> set (Declarations prog)" by blast
    then have "\<lparr>es_name = n, es_source = ''text'', es_value = v, es_optional = opt\<rparr> \<in> set (spec_env (Extract prog))"
      unfolding set_Extract_env env_spec.select_convs by blast
    then show "n \<in> es_name ` {e \<in> set (spec_env (Extract prog)). es_source e = ''text''}"
      by force
  next
    fix n assume "n \<in> es_name ` {e \<in> set (spec_env (Extract prog)). es_source e = ''text''}"
    then obtain e where "e \<in> set (spec_env (Extract prog))" "es_source e = ''text''" "n = es_name e" by blast
    then show "n \<in> {n. \<exists>v ve w opt p. EnvDecl n ''text'' v ve w opt p \<in> set (Declarations prog)}"
      by (simp only: set_Extract_env mem_Collect_eq) blast
  qed
  finally show ?thesis .
qed

end
