(* ===== verification/AgentTokens.thy ===== *)
theory AgentTokens
  imports AgentLexer AgentSerialize
begin

text \<open>
  The tokens of a text without their positions: each lexer step is a function of the unread
  text alone, so tokenizing is compositional, with one law for each form of token. The round
  trips of strings, names, numbers and heredocs between the printer and the lexer rest on them.
\<close>

subsection \<open>Kinds of tokens\<close>

type_synonym tkind = "token_type \<times> str"

definition kind :: "token \<Rightarrow> tkind" where
  "kind t = (tok_type t, literal t)"

lemma kind_mk [simp]: "kind (mk_token t s ln c) = (t, s)"
  by (simp add: kind_def mk_token_def)

abbreviation kinds :: "token list \<Rightarrow> tkind list" where
  "kinds ts \<equiv> map kind ts"

definition at_start :: "str \<Rightarrow> lexer" where
  "at_start s = \<lparr>input = s, line = 1, col = 1, tokens = []\<rparr>"

text \<open>What one step of the lexer makes of a text: the kinds it emits and what is left.\<close>

definition lex_out :: "str \<Rightarrow> tkind list \<times> str" where
  "lex_out s = (kinds (tokens (lex_step (at_start s))), input (lex_step (at_start s)))"

definition scan :: "str \<Rightarrow> tkind list" where
  "scan s = kinds (Tokenize s)"

named_theorems lexing \<open>the parts of a lexer state after an operation\<close>

lemma push_parts [lexing]:
  "tokens (lx_push t l) = tokens l @ [t]" "input (lx_push t l) = input l" "line (lx_push t l) = line l"
  by (simp_all add: lx_push_def)

lemma emit_parts [lexing]:
  "kinds (tokens (lx_emit t s l)) = kinds (tokens l) @ [(t, s)]" "input (lx_emit t s l) = input l"
  by (simp_all add: lx_emit_def lexing)

lemma advance_parts [lexing]:
  "tokens (lx_advance l) = tokens l" "input (lx_advance l) = tl (input l)" "line (lx_advance l) = line l"
  by (simp_all add: lx_advance_def split: list.split)

lemma skip_parts [lexing]:
  "tokens (skipSpacesAndTabs l) = tokens l" "input (skipSpacesAndTabs l) = dropWhile is_blank (input l)"
  by (simp_all add: skipSpacesAndTabs_def Let_def)

lemma skip_line_parts [lexing]:
  "tokens (heredoc_skip_line l) = tokens l"
  "input (heredoc_skip_line l) = (case input l of c # cs \<Rightarrow> if c = NL then cs else c # cs | [] \<Rightarrow> [])"
  by (simp_all add: heredoc_skip_line_def split: list.split)

subsection \<open>The readers do not look at positions\<close>

lemma string_body_col: "string_body sb s n = (fst (string_body sb s m), fst (snd (string_body sb s m)),
    snd (snd (string_body sb s n)))"
proof (induction sb s n arbitrary: m rule: string_body.induct)
  case (2 sb c cs n)
  then show ?case by (cases cs) simp_all
qed simp

lemma heredoc_body_line: "fst (heredoc_body m b s ln) = fst (heredoc_body m b s ln') \<and>
    fst (snd (heredoc_body m b s ln)) = fst (snd (heredoc_body m b s ln')) \<and>
    fst (snd (snd (heredoc_body m b s ln))) = fst (snd (snd (heredoc_body m b s ln')))"
proof (induction m b s ln arbitrary: ln' rule: heredoc_body.induct)
  case (1 m b s ln)
  let ?cur = "takeWhile (\<lambda>c. c \<noteq> NL) s"
  let ?rest = "dropWhile (\<lambda>c. c \<noteq> NL) s"
  show ?case
  proof (cases "s = [] \<or> trim_space ?cur = m")
    case True
    then show ?thesis
      unfolding heredoc_body.simps [of m b s ln] heredoc_body.simps [of m b s ln'] by (auto simp: Let_def)
  next
    case False
    then show ?thesis
      unfolding heredoc_body.simps [of m b s ln] heredoc_body.simps [of m b s ln']
      using 1(2) [OF _ refl refl, of "ln' + 1"] by (auto simp: Let_def heredoc_body_Nil)
  qed
qed

definition appends :: "(lexer \<Rightarrow> lexer) \<Rightarrow> bool" where
  "appends f \<longleftrightarrow> (\<forall>l l'. input l = input l' \<longrightarrow>
     input (f l) = input (f l') \<and>
     (\<exists>ks. kinds (tokens (f l)) = kinds (tokens l) @ ks \<and> kinds (tokens (f l')) = kinds (tokens l') @ ks))"

lemma appendsD: "appends f \<Longrightarrow> input l = input l' \<Longrightarrow> input (f l) = input (f l') \<and>
    (\<exists>ks. kinds (tokens (f l)) = kinds (tokens l) @ ks \<and> kinds (tokens (f l')) = kinds (tokens l') @ ks)"
  unfolding appends_def by blast

lemma appends_readComment: "appends readComment"
  by (auto simp: appends_def readComment_def Let_def lexing)

lemma appends_readString: "appends readString"
  unfolding appends_def
proof (intro allI impI)
  fix l l' :: lexer assume "input l = input l'"
  then have i: "input (lx_advance l) = input (lx_advance l')" by (simp add: lexing)
  obtain sb rest n where b: "string_body [] (input (lx_advance l')) (col (lx_advance l')) = (sb, rest, n)"
    by (metis prod_cases3)
  obtain m where b': "string_body [] (input (lx_advance l)) (col (lx_advance l)) = (sb, rest, m)"
    using string_body_col [of "[]" "input (lx_advance l)" "col (lx_advance l)" "col (lx_advance l')"] b i by simp
  show "input (readString l) = input (readString l') \<and> (\<exists>ks. kinds (tokens (readString l)) = kinds (tokens l) @ ks \<and>
      kinds (tokens (readString l')) = kinds (tokens l') @ ks)"
    unfolding readString_def Let_def b b' prod.case using i by (simp add: lexing)
qed

lemma appends_readNumber: "appends readNumber"
  by (auto simp: appends_def readNumber_def Let_def lexing)

lemma appends_readIdentifier: "appends readIdentifier"
  by (auto simp: appends_def readIdentifier_def Let_def lexing split: prod.split)

lemma appends_heredoc_close: "appends (heredoc_close m sl sc)" "input l = input l' \<Longrightarrow>
    input (heredoc_close m sl sc l) = input (heredoc_close m sl' sc' l') \<and>
    (\<exists>ks. kinds (tokens (heredoc_close m sl sc l)) = kinds (tokens l) @ ks \<and>
      kinds (tokens (heredoc_close m sl' sc' l')) = kinds (tokens l') @ ks)"
proof -
  have "input (heredoc_close m sl sc l) = input (heredoc_close m sl' sc' l') \<and>
    (\<exists>ks. kinds (tokens (heredoc_close m sl sc l)) = kinds (tokens l) @ ks \<and>
      kinds (tokens (heredoc_close m sl' sc' l')) = kinds (tokens l') @ ks)"
    if "input l = input l'" for sl sc sl' sc' and l l' :: lexer
    using heredoc_body_line [of m "[]" "input l'" "line l" "line l'"] that
    by (auto simp: heredoc_close_def lexing split: prod.split)
  then show "appends (heredoc_close m sl sc)" "input l = input l' \<Longrightarrow>
      input (heredoc_close m sl sc l) = input (heredoc_close m sl' sc' l') \<and>
      (\<exists>ks. kinds (tokens (heredoc_close m sl sc l)) = kinds (tokens l) @ ks \<and>
        kinds (tokens (heredoc_close m sl' sc' l')) = kinds (tokens l') @ ks)"
    by (auto simp: appends_def)
qed

lemma appends_readHeredoc: "appends readHeredoc"
  unfolding appends_def
proof (intro allI impI)
  fix l l' :: lexer assume i: "input l = input l'"
  define m where "m = takeWhile is_marker_part (input (lx_advance (lx_advance l)))"
  define f where "f = (\<lambda>l :: lexer. heredoc_skip_line (lx_push (mk_token HEREDOC_START m (line l) (col l))
    ((lx_advance (lx_advance l))\<lparr>input := dropWhile is_marker_part (input (lx_advance (lx_advance l))),
       col := col (lx_advance (lx_advance l)) + length m\<rparr>)))"
  have "input (f l) = input (f l')" using i by (simp add: f_def lexing)
  from appends_heredoc_close(2) [OF this, of m "line l" "col l" "line l'" "col l'"]
  show "input (readHeredoc l) = input (readHeredoc l') \<and> (\<exists>ks. kinds (tokens (readHeredoc l)) = kinds (tokens l) @ ks \<and>
      kinds (tokens (readHeredoc l')) = kinds (tokens l') @ ks)"
    using i by (auto simp: readHeredoc_def Let_def f_def m_def lexing)
qed

lemma appends_lex_step: "appends lex_step"
  unfolding appends_def
proof (intro allI impI)
  fix l l' :: lexer assume i: "input l = input l'"
  show "input (lex_step l) = input (lex_step l') \<and> (\<exists>ks. kinds (tokens (lex_step l)) = kinds (tokens l) @ ks \<and>
      kinds (tokens (lex_step l')) = kinds (tokens l') @ ks)"
  proof (cases "input l'")
    case Nil
    then show ?thesis using i by (simp add: lex_step_def)
  next
    case (Cons c cs)
    have peek: "lx_peek 1 l = lx_peek 1 l'" using i by (simp add: lx_peek_def)
    show ?thesis
      using i Cons peek appendsD [OF appends_readComment i] appendsD [OF appends_readString i]
        appendsD [OF appends_readNumber i] appendsD [OF appends_readIdentifier i] appendsD [OF appends_readHeredoc i]
      by (auto simp: lex_step_def Let_def lexing split: option.split)
  qed
qed

lemma lex_step_out:
  "kinds (tokens (lex_step l)) = kinds (tokens l) @ fst (lex_out (input l))"
  "input (lex_step l) = snd (lex_out (input l))"
  using appendsD [OF appends_lex_step, of l "at_start (input l)"] by (auto simp: lex_out_def at_start_def)

lemma appends_tokenize: "input l = input l' \<Longrightarrow>
    \<exists>ks. kinds (tokens (tokenize l)) = kinds (tokens l) @ ks \<and> kinds (tokens (tokenize l')) = kinds (tokens l') @ ks"
proof (induction l arbitrary: l' rule: tokenize.induct)
  case (1 l)
  let ?m = "skipSpacesAndTabs l"
  let ?m' = "skipSpacesAndTabs l'"
  have m: "input ?m = input ?m'" "tokens ?m = tokens l" "tokens ?m' = tokens l'"
    using 1(2) by (simp_all add: lexing)
  show ?case
  proof (cases "input l = [] \<or> input ?m = []")
    case True
    then show ?thesis
      using 1(2) m tokenize.simps [of l] tokenize.simps [of l'] by (auto simp: Let_def lexing)
  next
    case False
    then obtain ks where "kinds (tokens (tokenize (lex_step ?m))) = kinds (tokens (lex_step ?m)) @ ks"
      "kinds (tokens (tokenize (lex_step ?m'))) = kinds (tokens (lex_step ?m')) @ ks"
      using 1(1) [OF _ refl, of "lex_step ?m'"] appendsD [OF appends_lex_step m(1)] by blast
    then show ?thesis
      using False 1(2) m tokenize.simps [of l] tokenize.simps [of l'] appendsD [OF appends_lex_step m(1)]
      by (auto simp: Let_def)
  qed
qed

lemma tokenize_scan: "kinds (tokens (tokenize l)) = kinds (tokens l) @ scan (input l)"
  using appends_tokenize [of l "at_start (input l)"] by (auto simp: scan_def Tokenize_def at_start_def)

text \<open>The recursion of the lexer on texts.\<close>

lemma scan_simps:
  "scan s = (let s' = dropWhile is_blank s in
     if s' = [] then [(EOF, [])] else fst (lex_out s') @ scan (snd (lex_out s')))"
proof (cases "dropWhile is_blank s = []")
  case True
  then show ?thesis
    using tokenize.simps [of "at_start s"] emit_parts(1) [of EOF "[]" "at_start s"]
      emit_parts(1) [of EOF "[]" "skipSpacesAndTabs (at_start s)"]
    by (auto simp: scan_def Tokenize_def at_start_def Let_def lexing)
next
  case False
  let ?m = "skipSpacesAndTabs (at_start s)"
  have m: "input ?m = dropWhile is_blank s" "tokens ?m = []" by (simp_all add: lexing at_start_def)
  have "s \<noteq> []" using False by auto
  then have "tokenize (at_start s) = tokenize (lex_step ?m)"
    using tokenize.simps [of "at_start s"] False m by (auto simp: Let_def at_start_def)
  then have "scan s = kinds (tokens (tokenize (lex_step ?m)))"
    by (simp add: scan_def Tokenize_def at_start_def)
  then show ?thesis using False m by (auto simp: tokenize_scan lex_step_out Let_def)
qed

subsection \<open>One law for each form of token\<close>

text \<open>A step on a text that does not start with a blank.\<close>

lemma scan_step: "s \<noteq> [] \<Longrightarrow> \<not> is_blank (hd s) \<Longrightarrow> scan s = fst (lex_out s) @ scan (snd (lex_out s))"
  by (subst scan_simps) (cases s; simp add: Let_def)

lemma scan_Nil [simp]: "scan [] = [(EOF, [])]"
  by (simp add: scan_simps)

lemma scan_blank: "is_blank c \<Longrightarrow> scan (c # s) = scan s"
  by (subst (1 2) scan_simps) simp

lemma scan_SP [simp]: "scan (SP # s) = scan s"
  by (rule scan_blank) (simp add: is_blank_def)

lemma scan_tabs: "scan (tabs n @ s) = scan s"
proof (induction n)
  case (Suc n)
  have "scan (TAB # tabs n @ s) = scan (tabs n @ s)" by (rule scan_blank) (simp add: is_blank_def)
  then show ?case using Suc by (simp add: tabs_def)
qed (simp add: tabs_def)

lemma scan_NL [simp]: "scan (NL # s) = (NEWLINE, [NL]) # scan s"
  by (subst scan_step)
    (simp_all add: is_blank_def lex_out_def lex_step_def at_start_def lexing Let_def)

text \<open>A punctuation mark: an equals sign must not be followed by another.\<close>

lemma scan_mark:
  assumes "single_char_token c = Some t" "\<not> is_blank c" "c \<notin> {NL, CHR ''#'', DQUOTE, CHR ''<'', CHR ''!''}"
    and "c = CHR ''='' \<Longrightarrow> s = [] \<or> hd s \<noteq> CHR ''=''"
  shows "scan (c # s) = (t, [c]) # scan s"
  using assms
  by (subst scan_step)
    (auto simp: lex_out_def lex_step_def at_start_def lexing lx_peek_def hd_conv_nth split: if_splits)

lemma scan_marks [simp]:
  "scan (CHR ''+'' # s) = (PLUS, ''+'') # scan s" "scan (CHR ''.'' # s) = (DOT, ''.'') # scan s"
  "scan (CHR '','' # s) = (COMMA, '','') # scan s" "scan (CHR ''('' # s) = (LPAREN, ''('') # scan s"
  "scan (CHR '')'' # s) = (RPAREN, '')'') # scan s" "scan (CHR ''{'' # s) = (LBRACE, ''{'') # scan s"
  "scan (CHR ''}'' # s) = (RBRACE, ''}'') # scan s" "scan (CHR ''['' # s) = (LBRACKET, ''['') # scan s"
  "scan (CHR '']'' # s) = (RBRACKET, '']'') # scan s" "scan (CHR '':'' # s) = (COLON, '':'') # scan s"
  by (rule scan_mark; simp add: single_char_token_def is_blank_def)+

lemma scan_assign [simp]: "scan (CHR ''='' # SP # s) = (ASSIGN, ''='') # scan s"
  by (subst scan_mark) (simp_all add: single_char_token_def is_blank_def)

lemma scan_assign_digit: "is_digit c \<Longrightarrow> scan (CHR ''='' # c # s) = (ASSIGN, ''='') # scan (c # s)"
  by (subst scan_mark) (auto simp: single_char_token_def is_blank_def is_digit_def)

lemma scan_equality [simp]:
  "scan (CHR ''='' # CHR ''='' # s) = (EQ, ''=='') # scan s" "scan (CHR ''!'' # CHR ''='' # s) = (NEQ, ''!='') # scan s"
  by (subst scan_step; simp add: is_blank_def lex_out_def lex_step_def at_start_def lexing lx_peek_def)+

subsection \<open>Strings\<close>

lemma string_body_quote:
  "string_body sb (concat (map quote_rune s) @ DQUOTE # rest) n =
     (sb @ s, DQUOTE # rest, snd (snd (string_body sb (concat (map quote_rune s) @ DQUOTE # rest) n)))"
proof (induction s arbitrary: sb n)
  case (Cons c s)
  have "\<exists>m. string_body sb (quote_rune c @ t) n = string_body (sb @ [c]) t m" for t
    by (auto simp: quote_rune_def unescape_def)
  then obtain m where "string_body sb (quote_rune c @ concat (map quote_rune s) @ DQUOTE # rest) n =
      string_body (sb @ [c]) (concat (map quote_rune s) @ DQUOTE # rest) m" by blast
  then show ?case using Cons [of "sb @ [c]" m] by simp
qed simp

lemma scan_quoted: "scan (QuoteString s @ rest) = (STRING, s) # scan rest"
proof -
  let ?l = "at_start (QuoteString s @ rest)"
  have i: "input (lx_advance ?l) = concat (map quote_rune s) @ DQUOTE # rest"
    by (simp add: at_start_def QuoteString_def lexing)
  obtain n where n: "string_body [] (input (lx_advance ?l)) (col (lx_advance ?l)) = (s, DQUOTE # rest, n)"
    unfolding i using string_body_quote [of "[]" s rest] by (metis append_Nil)
  have "kinds (tokens (readString ?l)) = [(STRING, s)]" "input (readString ?l) = rest"
    unfolding readString_def Let_def n prod.case by (simp_all add: lexing) (simp add: at_start_def)
  moreover have "lex_step ?l = readString ?l"
    by (simp add: lex_step_def at_start_def QuoteString_def)
  ultimately have "lex_out (QuoteString s @ rest) = ([(STRING, s)], rest)"
    by (simp add: lex_out_def)
  then show ?thesis by (subst scan_step) (simp_all add: QuoteString_def is_blank_def)
qed

subsection \<open>Names and numbers\<close>

text \<open>A name as \<open>readIdentifier\<close> reads it: parts of an identifier, joined by hyphens that a letter or
  an underscore follows.\<close>

definition name_ok :: "str \<Rightarrow> bool" where
  "name_ok w \<longleftrightarrow> w \<noteq> [] \<and> isIdentStart (hd w) \<and> snd (hyphen_tail (dropWhile isIdentPart w)) = []"

text \<open>What may follow a name or a number without becoming part of it.\<close>

definition word_end :: "str \<Rightarrow> bool" where
  "word_end s \<longleftrightarrow> s = [] \<or> (\<not> isIdentPart (hd s) \<and> hd s \<noteq> CHR ''-'')"

lemma hyphen_not_part: "\<not> isIdentPart (CHR ''-'')" "\<not> isIdentStart (CHR ''-'')"
  by (simp_all add: isIdentPart_def isIdentStart_def unicode_is_letter_def unicode_is_digit_def is_lower_def
      is_upper_def is_digit_def)

lemma hyphen_tail_end: "word_end rest \<Longrightarrow> hyphen_tail rest = ([], rest)"
  by (cases rest rule: hyphen_tail.cases) (auto simp: hyphen_tail.simps(1) word_end_def)

lemma dropWhile_append_end: "word_end rest \<Longrightarrow>
    dropWhile isIdentPart (s @ rest) = dropWhile isIdentPart s @ rest \<and>
    takeWhile isIdentPart (s @ rest) = takeWhile isIdentPart s"
proof (induction s)
  case Nil
  then show ?case by (cases rest) (auto simp: word_end_def)
qed simp

lemma hyphen_tail_split: "fst (hyphen_tail s) @ snd (hyphen_tail s) = s"
proof (induction s rule: hyphen_tail.induct)
  case (1 h c cs)
  then show ?case
    by (auto simp: hyphen_tail.simps(1) split: prod.split simp del: takeWhile.simps dropWhile.simps)
qed simp_all

lemma hyphen_tail_append:
  "word_end rest \<Longrightarrow> snd (hyphen_tail s) = [] \<Longrightarrow> hyphen_tail (s @ rest) = (s, rest)"
proof (induction s rule: hyphen_tail.induct, goal_cases)
  case (1 h c cs)
  show ?case
  proof (cases "h = CHR ''-'' \<and> isIdentStart c")
    case True
    let ?d = "dropWhile isIdentPart (c # cs)"
    have "snd (hyphen_tail ?d) = []"
      using 1(3) True by (simp add: hyphen_tail.simps(1) split: prod.splits del: dropWhile.simps takeWhile.simps)
    then have "hyphen_tail (?d @ rest) = (?d, rest)" using 1(1) True 1(2) by blast
    then show ?thesis
      using True dropWhile_append_end [OF 1(2), of "c # cs"]
      by (simp add: hyphen_tail.simps(1) del: dropWhile.simps takeWhile.simps)
  next
    case False
    then show ?thesis using 1(3) by (simp add: hyphen_tail.simps(1) split: if_splits)
  qed
next
  case 2
  then show ?case by (simp add: hyphen_tail_end)
next
  case (3 v)
  then show ?case by simp
qed

text \<open>The runes that start a token of their own or are skipped.\<close>

definition special :: "rune list" where
  "special = [NL, CHR ''#'', DQUOTE, CHR ''<'', CHR ''!'', SP, TAB, CR] @ ''=+.,(){}[]:''"

lemma special_starts: "\<forall>c \<in> set special. \<not> isIdentStart c \<and> \<not> isDigit c"
  by code_simp

lemma not_special: "c \<notin> set special \<Longrightarrow> single_char_token c = None \<and> \<not> is_blank c
    \<and> c \<notin> {NL, CHR ''#'', DQUOTE, CHR ''<'', CHR ''='', CHR ''!''}"
  by (simp add: special_def single_char_token_def is_blank_def)

lemma lex_step_name:
  assumes "input l = c # cs" "isIdentStart c" "\<not> isDigit c"
  shows "lex_step l = readIdentifier l"
proof -
  have "c \<notin> set special" using special_starts assms(2) by blast
  from not_special [OF this] show ?thesis using assms by (simp add: lex_step_def)
qed

lemma start_not_digit: "isIdentStart c \<Longrightarrow> \<not> isDigit c"
  by (auto simp: isIdentStart_def isDigit_def is_digit_def unicode_is_letter_def is_lower_def is_upper_def
      less_eq_char_def)

lemma name_start: "isIdentStart c \<Longrightarrow> \<not> is_blank c"
  using special_starts not_special by blast

lemma scan_name:
  assumes "name_ok w" "word_end rest"
  shows "scan (w @ rest) = (LookupIdent w, w) # scan rest"
proof -
  obtain c cs where w: "w = c # cs" "isIdentStart c"
    using assms(1) by (cases w) (auto simp: name_ok_def)
  have t: "snd (hyphen_tail (dropWhile isIdentPart w)) = []" using assms(1) by (simp add: name_ok_def)
  have "lex_out (w @ rest) = ([(LookupIdent w, w)], rest)"
    using hyphen_tail_append [OF assms(2) t] dropWhile_append_end [OF assms(2), of w]
    by (simp add: lex_out_def lex_step_name [of _ c "cs @ rest"] start_not_digit w at_start_def readIdentifier_def
        Let_def lexing del: dropWhile.simps takeWhile.simps)
  then show ?thesis by (subst scan_step) (simp_all add: w name_start)
qed

lemma scan_keyword:
  assumes "name_ok w" "word_end rest" "LookupIdent w = t"
  shows "scan (w @ rest) = (t, w) # scan rest"
  using scan_name [OF assms(1,2)] assms(3) by simp

definition number_ok :: "str \<Rightarrow> bool" where
  "number_ok w \<longleftrightarrow> w \<noteq> [] \<and> isDigit (hd w) \<and> list_all is_number_part w"

lemma number_start: "isDigit c \<Longrightarrow> \<not> is_blank c \<and> single_char_token c = None
    \<and> c \<notin> {NL, CHR ''#'', DQUOTE, CHR ''<'', CHR ''='', CHR ''!''} \<and> isIdentPart c"
  using special_starts not_special [of c] by (auto simp: isIdentPart_def unicode_is_digit_def isDigit_def)

lemma scan_number:
  assumes "number_ok w" "word_end rest" "rest = [] \<or> hd rest \<noteq> CHR ''.''"
  shows "scan (w @ rest) = (NUMBER, w) # scan rest"
proof -
  obtain c cs where w: "w = c # cs" "isDigit c" using assms(1) by (cases w) (auto simp: number_ok_def)
  have "rest = [] \<or> \<not> is_number_part (hd rest)"
    using assms(2,3) number_start by (auto simp: word_end_def is_number_part_def)
  then have "takeWhile is_number_part (w @ rest) = w" "dropWhile is_number_part (w @ rest) = rest"
    using assms(1) by (cases rest; auto simp: number_ok_def list_all_iff takeWhile_append dropWhile_append)+
  then have "lex_out (w @ rest) = ([(NUMBER, w)], rest)"
    using number_start [OF w(2)] w
    by (simp add: lex_out_def lex_step_def at_start_def readNumber_def Let_def lexing
        del: dropWhile.simps takeWhile.simps)
  then show ?thesis using number_start [OF w(2)] by (subst scan_step) (simp_all add: w)
qed

subsection \<open>Heredocs\<close>

lemma fallback_marker_ok: "\<not> contains content (fallback_marker content i)"
  by (induction content i rule: fallback_marker.induct) (subst fallback_marker.simps, simp add: Let_def)

lemma chooseHeredocMarker_cases:
  "(\<exists>m \<in> set heredoc_candidates. chooseHeredocMarker content = m \<and> \<not> contains content m)
    \<or> chooseHeredocMarker content = fallback_marker content 0"
proof (cases "filter (\<lambda>m. \<not> contains content m) heredoc_candidates")
  case (Cons m ms)
  then have "m \<in> {m \<in> set heredoc_candidates. \<not> contains content m}" by (metis list.set_intros(1) set_filter)
  then show ?thesis using Cons by (auto simp: chooseHeredocMarker_def)
qed (simp add: chooseHeredocMarker_def)

lemma chooseHeredocMarker_fresh: "\<not> contains content (chooseHeredocMarker content)"
  using chooseHeredocMarker_cases [of content] fallback_marker_ok by auto

text \<open>A marker is made of upper-case letters and digits.\<close>

definition marker_ok :: "str \<Rightarrow> bool" where
  "marker_ok m \<longleftrightarrow> m \<noteq> [] \<and> list_all (\<lambda>c. is_upper c \<or> is_digit c) m"

lemma fallback_marker_form: "\<exists>k. fallback_marker content i = ''EOF'' @ show_nat k"
  by (induction content i rule: fallback_marker.induct) (subst fallback_marker.simps, auto simp: Let_def)

lemma marker_ok_candidates: "\<forall>m \<in> set heredoc_candidates. marker_ok m" "marker_ok (''EOF'' @ [])"
  by code_simp+

lemma chooseHeredocMarker_ok: "marker_ok (chooseHeredocMarker content)"
proof -
  obtain k where "fallback_marker content 0 = ''EOF'' @ show_nat k" using fallback_marker_form by blast
  then have "marker_ok (fallback_marker content 0)"
    using show_nat_digits(1) [of k] marker_ok_candidates(2) by (auto simp: marker_ok_def list_all_iff)
  then show ?thesis using chooseHeredocMarker_cases [of content] marker_ok_candidates(1) by auto
qed

lemma upper_digit_marks: "\<forall>c \<in> set [NL, SP]. \<not> is_upper c \<and> \<not> is_digit c"
  by code_simp

lemma upper_digit_space: "is_upper c \<or> is_digit c \<Longrightarrow> \<not> unicode_is_space c"
  by (auto simp: unicode_is_space_def is_upper_def is_digit_def less_eq_char_def)

lemma marker_parts:
  assumes "marker_ok m"
  shows "list_all is_marker_part m" "trim_space m = m" "list_all (\<lambda>c. c \<noteq> NL) m"
proof -
  show "list_all is_marker_part m" "list_all (\<lambda>c. c \<noteq> NL) m"
    using assms upper_digit_marks by (auto simp: marker_ok_def list_all_iff is_marker_part_def)
  have "list_all (\<lambda>c. \<not> unicode_is_space c) m"
    using assms upper_digit_space by (auto simp: marker_ok_def list_all_iff)
  moreover have drop: "list_all (\<lambda>c. \<not> p c) s \<Longrightarrow> dropWhile p s = s" for p and s :: str
    by (cases s) simp_all
  ultimately have "dropWhile unicode_is_space m = m" "dropWhile unicode_is_space (rev m) = rev m"
    using drop [of unicode_is_space "rev m"] by (simp_all add: list_all_iff)
  then show "trim_space m = m" by (simp add: trim_space_def trim_fn_def trim_right_fn_def)
qed

lemma line_of: "list_all (\<lambda>c. c \<noteq> NL) cur \<Longrightarrow> takeWhile (\<lambda>c. c \<noteq> NL) (cur @ NL # s) = cur"
  "list_all (\<lambda>c. c \<noteq> NL) cur \<Longrightarrow> dropWhile (\<lambda>c. c \<noteq> NL) (cur @ NL # s) = NL # s"
  by (auto simp: list_all_iff takeWhile_append dropWhile_append)

lemma heredoc_body_line_step:
  assumes "list_all (\<lambda>c. c \<noteq> NL) cur" "trim_space cur \<noteq> m"
  shows "heredoc_body m b (cur @ NL # s) ln = heredoc_body m (b @ cur @ [NL]) s (ln + 1)"
  by (subst heredoc_body.simps) (simp add: Let_def line_of assms)

definition line_end :: "str \<Rightarrow> bool" where
  "line_end s \<longleftrightarrow> s = [] \<or> hd s = NL"

lemma heredoc_body_marker:
  assumes "marker_ok m" "line_end rest"
  shows "\<exists>ln'. heredoc_body m b (m @ rest) ln = (True, b, drop 1 rest, ln')"
proof -
  have n: "list_all (\<lambda>c. c \<noteq> NL) m" "trim_space m = m" "m \<noteq> []"
    using marker_parts [OF assms(1)] assms(1) by (auto simp: marker_ok_def)
  have "takeWhile (\<lambda>c. c \<noteq> NL) (m @ rest) = m" "dropWhile (\<lambda>c. c \<noteq> NL) (m @ rest) = rest"
    using n(1) assms(2) by (cases rest; auto simp: list_all_iff takeWhile_append dropWhile_append line_end_def)+
  then show ?thesis using n by (subst heredoc_body.simps) (simp add: Let_def)
qed

lemma heredoc_body_content:
  assumes "marker_ok m" "line_end rest" "\<not> contains content m"
  shows "\<exists>ln'. heredoc_body m b (content @ NL # m @ rest) ln = (True, b @ content @ [NL], drop 1 rest, ln')"
  using assms(3)
proof (induction content arbitrary: b ln rule: length_induct)
  case (1 content)
  let ?cur = "takeWhile (\<lambda>c. c \<noteq> NL) content"
  have cur: "list_all (\<lambda>c. c \<noteq> NL) ?cur" by (auto simp: list_all_iff dest: set_takeWhileD)
  have "sublist ?cur content" by (simp add: takeWhile_is_prefix prefix_imp_sublist)
  then have "trim_space ?cur \<noteq> m"
    using 1(2) trim_space_sublist [of ?cur] sublist_order.order_trans by (auto simp: contains_iff)
  note step = heredoc_body_line_step [OF cur this]
  show ?case
  proof (cases "dropWhile (\<lambda>c. c \<noteq> NL) content")
    case Nil
    then have "content = ?cur" by (metis append_Nil2 takeWhile_dropWhile_id)
    then show ?thesis using step [of b "m @ rest" ln] heredoc_body_marker [OF assms(1,2)] by metis
  next
    case (Cons c content')
    then have "c = NL" using hd_dropWhile [of "\<lambda>c. c \<noteq> NL" content] by simp
    then have split: "content = ?cur @ NL # content'" using Cons by (metis takeWhile_dropWhile_id)
    then have "length content' < length content"
      by (metis add_Suc_right le_add2 length_Cons length_append less_Suc_eq_le)
    moreover have "\<not> contains content' m"
      using 1(2) split sublist_order.order_trans [of m content' content]
      by (auto simp: contains_iff) (metis suffixI suffix_imp_sublist append_Cons append_Nil append_assoc)
    ultimately obtain ln' where
      "heredoc_body m (b @ ?cur @ [NL]) (content' @ NL # m @ rest) (ln + 1) =
        (True, (b @ ?cur @ [NL]) @ content' @ [NL], drop 1 rest, ln')"
      using 1(1) by blast
    moreover have "content @ NL # m @ rest = ?cur @ NL # content' @ NL # m @ rest"
      using split by (metis append.assoc append_Cons)
    moreover have "(b @ ?cur @ [NL]) @ content' @ [NL] = b @ content @ [NL]"
      using split by (metis append.assoc append_Cons append_Nil)
    ultimately show ?thesis using step [of b "content' @ NL # m @ rest" ln] by metis
  qed
qed

definition heredoc_ok :: "str \<Rightarrow> bool" where
  "heredoc_ok s \<longleftrightarrow> s = [] \<or> last s \<noteq> NL"

lemma trim_newlines: "heredoc_ok s \<Longrightarrow> trim_right_fn (\<lambda>c. c = NL) (s @ [NL]) = s"
  by (cases s rule: rev_cases) (simp_all add: heredoc_ok_def trim_right_fn_def)

lemma scan_heredoc:
  assumes "heredoc_ok s" "line_end rest"
  shows "scan (heredoc_text s @ rest) =
    (HEREDOC_START, chooseHeredocMarker s) # (HEREDOC_BODY, s) # scan (drop 1 rest)"
proof -
  define m where "m = chooseHeredocMarker s"
  have ok: "marker_ok m" and fresh: "\<not> contains s m"
    by (simp_all add: m_def chooseHeredocMarker_ok chooseHeredocMarker_fresh)
  let ?l = "at_start (heredoc_text s @ rest)"
  let ?l1 = "lx_advance (lx_advance ?l)"
  have i: "input ?l1 = m @ NL # s @ NL # m @ rest" and t: "tokens ?l1 = []"
    by (simp_all add: at_start_def heredoc_text_def Let_def m_def lexing)
  have mk: "takeWhile is_marker_part (input ?l1) = m" "dropWhile is_marker_part (input ?l1) = NL # s @ NL # m @ rest"
    using marker_parts(1) [OF ok] by (auto simp: i list_all_iff takeWhile_append dropWhile_append is_marker_part_def)
  define l2 where "l2 = heredoc_skip_line (lx_push (mk_token HEREDOC_START m (line ?l) (col ?l))
      (?l1\<lparr>input := NL # s @ NL # m @ rest, col := col ?l1 + length m\<rparr>))"
  have l2: "input l2 = s @ NL # m @ rest" "kinds (tokens l2) = [(HEREDOC_START, m)]"
    using t by (simp_all add: l2_def lexing)
  obtain ln where b: "heredoc_body m [] (input l2) (line l2) = (True, s @ [NL], drop 1 rest, ln)"
    using heredoc_body_content [OF ok assms(2) fresh, of "[]" "line l2"] unfolding l2 by auto
  have "readHeredoc ?l = heredoc_close m (line ?l) (col ?l) l2"
    by (simp only: readHeredoc_def Let_def mk l2_def)
  then have "kinds (tokens (readHeredoc ?l)) = [(HEREDOC_START, m), (HEREDOC_BODY, s)]"
    "input (readHeredoc ?l) = drop 1 rest"
    using l2(2) by (simp_all add: heredoc_close_def b trim_newlines [OF assms(1)] lexing)
  moreover have "lex_step ?l = readHeredoc ?l"
    by (simp add: lex_step_def at_start_def heredoc_text_def Let_def lx_peek_def)
  ultimately have "lex_out (heredoc_text s @ rest) = ([(HEREDOC_START, m), (HEREDOC_BODY, s)], drop 1 rest)"
    by (simp add: lex_out_def)
  then show ?thesis
    by (subst scan_step) (simp_all add: heredoc_text_def Let_def is_blank_def m_def)
qed

subsection \<open>The end of the tokens\<close>

lemma LookupIdent_not_EOF: "LookupIdent w \<noteq> EOF"
proof -
  have "\<forall>(n, t) \<in> set (declarationKeywords @ buildKeywords). t \<noteq> EOF" by code_simp
  then have "(w, EOF) \<notin> set declarationKeywords" "(w, EOF) \<notin> set buildKeywords" by auto
  then show ?thesis
    by (auto simp: LookupIdent_def split: option.split dest!: map_of_SomeD)
qed

lemma lex_step_no_EOF:
  "\<forall>t \<in> set (tokens l). tok_type t \<noteq> EOF \<Longrightarrow> \<forall>t \<in> set (tokens (lex_step l)). tok_type t \<noteq> EOF"
  by (auto simp: lex_step_def lx_emit_def lexing Let_def mk_token_def readComment_def readString_def
      readNumber_def readIdentifier_def readHeredoc_def heredoc_close_def LookupIdent_not_EOF
      single_char_token_def split: list.splits prod.splits if_splits option.splits)

lemma scan_EOF: "\<exists>ks. scan s = ks @ [(EOF, [])] \<and> (\<forall>k \<in> set ks. fst k \<noteq> EOF)"
proof (induction s rule: length_induct)
  case (1 s)
  let ?s = "dropWhile is_blank s"
  show ?case
  proof (cases "?s = []")
    case False
    have "length (snd (lex_out ?s)) < length ?s"
      using lex_step_consumes [of "at_start ?s"] False by (simp add: lex_out_def at_start_def)
    also have "\<dots> \<le> length s" by (rule length_dropWhile_le)
    finally obtain ks where "scan (snd (lex_out ?s)) = ks @ [(EOF, [])]" "\<forall>k \<in> set ks. fst k \<noteq> EOF"
      using 1 by blast
    moreover have "\<forall>k \<in> set (fst (lex_out ?s)). fst k \<noteq> EOF"
      using lex_step_no_EOF [of "at_start ?s"] by (auto simp: lex_out_def at_start_def kind_def)
    ultimately have "scan s = (fst (lex_out ?s) @ ks) @ [(EOF, [])] \<and> (\<forall>k \<in> set (fst (lex_out ?s) @ ks). fst k \<noteq> EOF)"
      using False by (subst scan_simps) (auto simp: Let_def)
    then show ?thesis by blast
  qed (simp add: scan_simps)
qed

lemma kinds_snoc: "kinds ts = ks @ [k] \<Longrightarrow> \<exists>us t. ts = us @ [t] \<and> kinds us = ks \<and> kind t = k"
  by (cases ts rule: rev_cases) auto

text \<open>The token list of any text ends with one EOF token and has no other.\<close>

theorem Tokenize_ends_with_EOF:
  "\<exists>ts t. Tokenize src = ts @ [t] \<and> tok_type t = EOF \<and> EOF \<notin> set (map tok_type ts)"
proof -
  obtain ks where "kinds (Tokenize src) = ks @ [(EOF, [])]" and ks: "\<forall>k \<in> set ks. fst k \<noteq> EOF"
    using scan_EOF [of src] by (auto simp: scan_def)
  from kinds_snoc [OF this(1)] obtain us t where
    "Tokenize src = us @ [t]" "kinds us = ks" "kind t = (EOF, [])" by blast
  then show ?thesis using ks by (fastforce simp: kind_def)
qed

subsection \<open>Printed literals\<close>

lemma replace_all_one: "replace_all [a] new s = concat (map (\<lambda>c. if c = a then new else [c]) s)"
  by (induction "[a]" new s rule: replace_all.induct) auto

lemma FormatStringLiteral_quote: "FormatStringLiteral s = QuoteString s"
proof -
  have "concat (map (\<lambda>c. if c = TAB then BSLASH # ''t'' else [c])
      (concat (map (\<lambda>c. if c = NL then BSLASH # ''n'' else [c])
      (concat (map (\<lambda>c. if c = DQUOTE then [BSLASH, DQUOTE] else [c])
      (concat (map (\<lambda>c. if c = BSLASH then [BSLASH, BSLASH] else [c]) s))))))) = concat (map quote_rune s)"
    by (induction s) (auto simp: quote_rune_def)
  then show ?thesis
    by (simp add: FormatStringLiteral_def QuoteString_def strings_replace_all_def replace_all_one Let_def)
qed

text \<open>Both printers of string literals, which the package says must agree, give the same text, and
  the lexer reads it back as one string token with the string's content, whatever that is.\<close>

theorem string_literal_roundtrip:
  "FormatStringLiteral s = QuoteString s
   \<and> (\<exists>t e. Tokenize (QuoteString s) = [t, e] \<and> tok_type t = STRING \<and> literal t = s \<and> tok_type e = EOF)"
proof -
  have "kinds (Tokenize (QuoteString s)) = [(STRING, s), (EOF, [])]"
    using scan_quoted [of s "[]"] unfolding scan_Nil append_Nil2 by (simp add: scan_def)
  then show ?thesis by (auto simp: FormatStringLiteral_quote kind_def map_eq_Cons_conv)
qed

text \<open>A heredoc printed for a content that does not end with a newline is read back as its marker
  and that content: the marker that was chosen is not in the content, so no line closes it early.\<close>

theorem heredoc_roundtrip:
  assumes "heredoc_ok content"
  shows "\<exists>t b e. Tokenize (heredoc_text content) = [t, b, e]
    \<and> tok_type t = HEREDOC_START \<and> literal t = chooseHeredocMarker content
    \<and> tok_type b = HEREDOC_BODY \<and> literal b = content \<and> tok_type e = EOF"
proof -
  have "kinds (Tokenize (heredoc_text content)) =
      [(HEREDOC_START, chooseHeredocMarker content), (HEREDOC_BODY, content), (EOF, [])]"
    using scan_heredoc [OF assms, of "[]"] unfolding append_Nil2 drop_Nil scan_Nil
    by (simp add: scan_def line_end_def)
  then show ?thesis by (auto simp: kind_def map_eq_Cons_conv)
qed

theorem heredoc_roundtrip_witness:
  "\<exists>t b e. Tokenize (heredoc_text (''EOF'' @ [NL] @ ''x'')) = [t, b, e] \<and> literal t = ''HEREDOC''
    \<and> literal b = ''EOF'' @ [NL] @ ''x''"
proof -
  have "chooseHeredocMarker (''EOF'' @ [NL] @ ''x'') = ''HEREDOC''" by code_simp
  moreover have "heredoc_ok (''EOF'' @ [NL] @ ''x'')" by (simp add: heredoc_ok_def)
  ultimately show ?thesis using heredoc_roundtrip [of "''EOF'' @ [NL] @ ''x''"] by fastforce
qed

end
