(* ===== verification/AgentRoundExpr.thy ===== *)
theory AgentRoundExpr
  imports AgentTokens AgentParser
begin

text \<open>
  Printed expressions are read back: the tokens of a printed expression, and the parser on them.
  The printer writes no parentheses, so the expressions are those whose operators are nested by
  precedence (\<open>expr_ok\<close>); the parser's own results, but for parentheses in the source, are such.
\<close>

subsection \<open>Expressions that print without parentheses\<close>

definition op_prec :: "str \<Rightarrow> nat" where
  "op_prec op = (if op = ''or'' then 1 else if op = ''and'' then 2
     else if op = ''=='' \<or> op = ''!='' then 3 else if op = ''+'' then 4 else 0)"

definition op_kind :: "str \<Rightarrow> tkind" where
  "op_kind op = ((if op = ''or'' then KW_OR else if op = ''and'' then KW_AND
     else if op = ''=='' then EQ else if op = ''!='' then NEQ else PLUS), op)"

fun prec :: "expr \<Rightarrow> nat" where
  "prec (BinaryExpr _ op _) = op_prec op"
| "prec (UnaryExpr _ _) = 5"
| "prec _ = 6"

fun dotted :: "expr \<Rightarrow> bool" where
  "dotted (Ident _) = True"
| "dotted (DotExpr l _) = dotted l"
| "dotted _ = False"

text \<open>A name that is not a keyword.\<close>

definition ident_ok :: "str \<Rightarrow> bool" where
  "ident_ok w \<longleftrightarrow> name_ok w \<and> LookupIdent w = IDENT"

fun expr_ok :: "expr \<Rightarrow> bool" where
  "expr_ok (StringLit s) = True"
| "expr_ok (NumberLit s) = number_ok s"
| "expr_ok (BoolLit b) = True"
| "expr_ok (Ident n) = ident_ok n"
| "expr_ok (DotExpr l f) = (dotted l \<and> expr_ok l \<and> ident_ok f)"
| "expr_ok (BinaryExpr l op r) =
     (op_prec op \<noteq> 0 \<and> op_prec op \<le> prec l \<and> op_prec op < prec r \<and> expr_ok l \<and> expr_ok r)"
| "expr_ok (UnaryExpr op x) = (op = ''not'' \<and> 5 \<le> prec x \<and> expr_ok x)"
| "expr_ok (CallExpr f args) = (ident_ok f \<and> list_all expr_ok args)"
| "expr_ok (ObjectLit fs) = list_all (\<lambda>(k, x). ident_ok k \<and> expr_ok x) fs"
| "expr_ok (HeredocLit s) = False"
| "expr_ok (ListLit xs) = list_all expr_ok xs"

subsection \<open>The tokens of a printed expression\<close>

fun join_kinds :: "tkind list list \<Rightarrow> tkind list" where
  "join_kinds [] = []"
| "join_kinds [k] = k"
| "join_kinds (k # l # ks) = k @ (COMMA, '','') # join_kinds (l # ks)"

fun expr_kinds :: "expr \<Rightarrow> tkind list" where
  "expr_kinds (StringLit s) = [(STRING, s)]"
| "expr_kinds (NumberLit s) = [(NUMBER, s)]"
| "expr_kinds (BoolLit b) = [if b then (TRUE, ''true'') else (FALSE, ''false'')]"
| "expr_kinds (Ident n) = [(IDENT, n)]"
| "expr_kinds (DotExpr l f) = expr_kinds l @ [(DOT, ''.''), (IDENT, f)]"
| "expr_kinds (BinaryExpr l op r) = expr_kinds l @ op_kind op # expr_kinds r"
| "expr_kinds (UnaryExpr op x) = (KW_NOT, ''not'') # expr_kinds x"
| "expr_kinds (CallExpr f args) = (IDENT, f) # (LPAREN, ''('') # join_kinds (map expr_kinds args) @ [(RPAREN, '')'')]"
| "expr_kinds (ObjectLit fs) = (LBRACE, ''{'')
     # join_kinds (map (\<lambda>(k, x). (IDENT, k) # (COLON, '':'') # expr_kinds x) fs) @ [(RBRACE, ''}'')]"
| "expr_kinds (HeredocLit s) = [(HEREDOC_START, chooseHeredocMarker s), (HEREDOC_BODY, s)]"
| "expr_kinds (ListLit xs) = (LBRACKET, ''['') # join_kinds (map expr_kinds xs) @ [(RBRACKET, '']'')]"

definition expr_end :: "str \<Rightarrow> bool" where
  "expr_end s \<longleftrightarrow> word_end s \<and> (s = [] \<or> hd s \<noteq> CHR ''.'')"

lemma ends [simp]:
  "word_end []" "word_end (SP # s)" "word_end (NL # s)" "word_end (CHR ''.'' # s)" "word_end (CHR '','' # s)"
  "word_end (CHR ''('' # s)" "word_end (CHR '')'' # s)" "word_end (CHR '':'' # s)" "word_end (CHR ''='' # s)"
  "word_end (CHR '']'' # s)" "word_end (CHR ''}'' # s)"
  "expr_end []" "expr_end (SP # s)" "expr_end (NL # s)" "expr_end (CHR '','' # s)" "expr_end (CHR '')'' # s)"
  "expr_end (CHR '']'' # s)" "expr_end (CHR ''}'' # s)"
  by (simp_all add: expr_end_def word_end_def isIdentPart_def unicode_is_letter_def unicode_is_digit_def
      is_lower_def is_upper_def is_digit_def less_eq_char_def)

lemma keyword_names:
  "list_all (\<lambda>(w, t). name_ok w \<and> LookupIdent w = t) (declarationKeywords @ buildKeywords)"
  by code_simp

lemma scan_word:
  "(w, t) \<in> set (declarationKeywords @ buildKeywords) \<Longrightarrow> word_end rest \<Longrightarrow> scan (w @ rest) = (t, w) # scan rest"
proof -
  assume w: "(w, t) \<in> set (declarationKeywords @ buildKeywords)" and r: "word_end rest"
  have "name_ok w \<and> LookupIdent w = t"
    using bspec [OF keyword_names [unfolded list_all_iff] w] by simp
  then show ?thesis using r by (simp add: scan_keyword)
qed

lemma scan_ident: "ident_ok w \<Longrightarrow> word_end rest \<Longrightarrow> scan (w @ rest) = (IDENT, w) # scan rest"
  by (simp add: ident_ok_def scan_keyword)

lemma scan_join:
  assumes "\<And>x r. x \<in> set xs \<Longrightarrow> expr_end r \<Longrightarrow> scan (f x @ r) = g x @ scan r" "expr_end rest"
  shows "scan (join '', '' (map f xs) @ rest) = join_kinds (map g xs) @ scan rest"
  using assms by (induction xs rule: induct_list012) simp_all

lemma scan_dotted: "dotted x \<Longrightarrow> expr_ok x \<Longrightarrow> word_end rest \<Longrightarrow>
    scan (serializeExpr x @ rest) = expr_kinds x @ scan rest"
  by (induction x arbitrary: rest) (simp_all add: scan_ident)

lemma scan_op: "op_prec op \<noteq> 0 \<Longrightarrow> scan (op @ SP # s) = op_kind op # scan s"
  using scan_word [of "''or''" KW_OR "SP # s"] scan_word [of "''and''" KW_AND "SP # s"]
  by (auto simp: op_prec_def op_kind_def buildKeywords_def split: if_splits)

lemma scan_expr: "expr_ok e \<Longrightarrow> expr_end rest \<Longrightarrow> scan (serializeExpr e @ rest) = expr_kinds e @ scan rest"
proof (induction e arbitrary: rest rule: expr_ok.induct)
  case (1 s)
  then show ?case by (simp add: scan_quoted)
next
  case (2 s)
  then show ?case by (auto simp: scan_number expr_end_def)
next
  case (3 b)
  then show ?case
    using scan_word [of "''true''" TRUE rest] scan_word [of "''false''" FALSE rest]
    by (simp add: expr_end_def buildKeywords_def)
next
  case (4 n)
  then show ?case by (simp add: scan_ident expr_end_def)
next
  case (5 l f)
  then show ?case by (simp add: scan_dotted scan_ident expr_end_def)
next
  case (6 l op r)
  then show ?case by (simp add: scan_op)
next
  case (7 op x)
  then show ?case using scan_word [of "''not''" KW_NOT "SP # serializeExpr x @ rest"] by (simp add: buildKeywords_def)
next
  case (8 f args)
  then show ?case
    using scan_join [of args serializeExpr expr_kinds "CHR '')'' # rest"]
    by (simp add: scan_ident list_all_iff)
next
  case (9 fs)
  have "scan (join '', '' (map (\<lambda>(k, x). k @ '': '' @ serializeExpr x) fs) @ SP # CHR ''}'' # rest) =
      join_kinds (map (\<lambda>(k, x). (IDENT, k) # (COLON, '':'') # expr_kinds x) fs) @ scan (SP # CHR ''}'' # rest)"
    using 9 by (intro scan_join) (auto simp: list_all_iff scan_ident)
  then show ?case by (simp add: wrap_object_def)
next
  case (11 xs)
  then show ?case
    using scan_join [of xs serializeExpr expr_kinds "CHR '']'' # rest"]
    by (simp add: list_all_iff wrap_list_def)
qed simp

subsection \<open>Parser states by the kinds of their tokens\<close>

abbreviation pk :: "parser \<Rightarrow> tkind list" where
  "pk p \<equiv> kinds (toks p)"

definition head :: "tkind list \<Rightarrow> token_type" where
  "head ks = (case ks of [] \<Rightarrow> EOF | k # _ \<Rightarrow> fst k)"

lemma head_simps [simp]: "head [] = EOF" "head ((t, s) # ks) = t" "head (k # ks) = fst k"
  by (simp_all add: head_def)

text \<open>The parser gave \<open>x\<close>, took tokens up to the kinds \<open>ks\<close> and found no error.\<close>

definition parses :: "('a \<times> parser) option \<Rightarrow> parser \<Rightarrow> 'a \<Rightarrow> tkind list \<Rightarrow> bool" where
  "parses r p x ks \<longleftrightarrow> (\<exists>q. r = Some (x, q) \<and> pk q = ks \<and> errors q = errors p)"

named_theorems on_kinds \<open>parser operations in terms of the kinds of the tokens\<close>

lemma current_type [on_kinds]: "tok_type (current p) = head (pk p)"
  by (cases "toks p") (simp_all add: current_def mk_token_def kind_def)

lemma current_literal: "pk p = (t, s) # ks \<Longrightarrow> literal (current p) = s"
  by (auto simp: current_def kind_def)

lemma pk_advance [on_kinds]: "pk (advance p) = tl (pk p)" "errors (advance p) = errors p"
  by (simp_all add: advance_def map_tl)

lemma currentIs_head [on_kinds]: "currentIs t p \<longleftrightarrow> head (pk p) = t"
  by (simp add: currentIs_def on_kinds)

lemma atEnd_head [on_kinds]: "atEnd p \<longleftrightarrow> head (pk p) = EOF"
  by (cases "toks p") (simp_all add: atEnd_def kind_def)

lemma expect_match [on_kinds]: "head (pk p) = t \<Longrightarrow> expect t p = advance p"
  by (simp add: expect_def Let_def on_kinds)

lemma expectIdent_match [on_kinds]: "pk p = (IDENT, s) # ks \<Longrightarrow> expectIdent p = (s, advance p)"
  by (simp add: expectIdent_def Let_def on_kinds current_literal)

lemma expectIdentOrString_match [on_kinds]:
  "pk p = (t, s) # ks \<Longrightarrow> t = IDENT \<or> t = STRING \<Longrightarrow> expectIdentOrString p = (s, advance p)"
  by (auto simp add: expectIdentOrString_def Let_def on_kinds current_literal)

lemma expectString_match [on_kinds]: "pk p = (STRING, s) # ks \<Longrightarrow> expectString p = (s, advance p)"
  by (simp add: expectString_def Let_def on_kinds current_literal)

lemma skipNewlines_stay [on_kinds]:
  "head (pk p) \<notin> {NEWLINE, COMMENT} \<Longrightarrow> skipNewlines p = p"
  by (cases "toks p") (simp_all add: skipNewlines_def kind_def)

lemma skip_comma_head [on_kinds]:
  "skip_comma p = (if head (pk p) = COMMA then advance p else p)"
  by (simp add: skip_comma_def on_kinds)

lemma length_pk: "length (toks p) = length (pk p)"
  by simp

subsection \<open>Levels of precedence\<close>

definition level_ops :: "nat \<Rightarrow> token_type set" where
  "level_ops L = (if L = 1 then {KW_OR} else if L = 2 then {KW_AND} else if L = 3 then {EQ, NEQ}
     else if L = 4 then {PLUS} else {})"

text \<open>What may follow an expression of a level: no operator of the level or a tighter one, no dot
  and no parenthesis.\<close>

definition follow :: "nat \<Rightarrow> tkind list \<Rightarrow> bool" where
  "follow L ks \<longleftrightarrow> head ks \<notin> {DOT, LPAREN} \<and> (\<forall>l \<ge> L. head ks \<notin> level_ops l)"

lemma follow_weaken: "follow L ks \<Longrightarrow> L \<le> M \<Longrightarrow> follow M ks"
  by (auto simp: follow_def)

lemma follow_here: "follow L ks \<Longrightarrow> head ks \<notin> level_ops L"
  by (simp add: follow_def)

lemma op_kind_level: "op_prec op = L \<Longrightarrow> L \<noteq> 0 \<Longrightarrow> fst (op_kind op) \<in> level_ops L \<and> follow (Suc L) (op_kind op # ks)"
  by (auto simp: op_prec_def op_kind_def level_ops_def follow_def split: if_splits)

lemma follow_close [simp]: "follow L ((COMMA, s) # ks)" "follow L ((RPAREN, s) # ks)" "follow L ((RBRACE, s) # ks)"
  "follow L ((RBRACKET, s) # ks)" "follow L ((NEWLINE, s) # ks)" "follow L ((KW_WHEN, s) # ks)"
  "follow L ((EOF, s) # ks)" "follow L ((LBRACE, s) # ks)"
  by (auto simp: follow_def level_ops_def)

text \<open>The loop over left-associative operators of one level.\<close>

locale left_assoc =
  fixes L :: nat and opf :: "parser \<Rightarrow> str option"
  assumes level_pos: "L \<noteq> 0" and level_bound: "L < 5"
    and op_here: "pk p = op_kind s # ks \<Longrightarrow> op_prec s = L \<Longrightarrow> opf p = Some s"
    and no_op: "head (pk p) \<notin> level_ops L \<Longrightarrow> opf p = None"
begin

definition operands :: "(parser \<Rightarrow> (expr \<times> parser) option) \<Rightarrow> (expr \<Rightarrow> bool) \<Rightarrow> nat \<Rightarrow> bool" where
  "operands f Q N \<longleftrightarrow> (\<forall>x p ks. Q x \<longrightarrow> expr_ok x \<longrightarrow> L < prec x \<longrightarrow> pk p = expr_kinds x @ ks \<longrightarrow>
     follow (Suc L) ks \<longrightarrow> length (toks p) \<le> N \<longrightarrow> parses (f p) p x ks)"

text \<open>Reading a printed operand chain is the same as starting the loop with it.\<close>

lemma spine:
  assumes "operands f Q N"
  shows "\<lbrakk>expr_ok x; L \<le> prec x; Q x; \<And>y. size y < size x \<Longrightarrow> Q y; pk p = expr_kinds x @ ks;
      follow (Suc L) ks; length (toks p) \<le> N; length (toks p) < k\<rbrakk> \<Longrightarrow>
    \<exists>q j. Option.bind (f p) (\<lambda>(l, p1). binary_loop opf f k l p1) = binary_loop opf f j x q
      \<and> pk q = ks \<and> errors q = errors p \<and> length (toks q) < j"
proof (induction x arbitrary: ks rule: measure_induct_rule [of size])
  case (less x)
  show ?case
  proof (cases "L < prec x")
    case True
    then obtain q where q: "f p = Some (x, q)" "pk q = ks" "errors q = errors p"
      using assms less.prems unfolding operands_def parses_def by blast
    have "length (toks q) \<le> length (toks p)" using q(2) less.prems(5) by (metis length_pk length_append le_add2)
    then show ?thesis using q less.prems(8) by (intro exI [of _ q] exI [of _ k]) simp
  next
    case False
    then have "prec x = L" using less.prems(2) by simp
    then obtain l s r where x: "x = BinaryExpr l s r" and L: "op_prec s = L"
      using level_bound by (cases x) simp_all
    have ok: "expr_ok l" "expr_ok r" "L \<le> prec l" "L < prec r" using less.prems(1) L by (simp_all add: x)
    have Q: "Q l" "Q r" "\<And>y. size y < size l \<Longrightarrow> Q y" using less.prems(4) by (simp_all add: x)
    obtain q1 j1 where q1: "Option.bind (f p) (\<lambda>(l, p1). binary_loop opf f k l p1) = binary_loop opf f j1 l q1"
      "pk q1 = op_kind s # expr_kinds r @ ks" "errors q1 = errors p" "length (toks q1) < j1"
      using less.IH [OF _ ok(1,3) Q(1,3) _ _ less.prems(7,8), of "op_kind s # expr_kinds r @ ks"]
        less.prems(5) op_kind_level [OF L level_pos] by (auto simp: x)
    then obtain j2 where j2: "j1 = Suc j2" by (cases j1) simp_all
    have "length (pk q1) \<le> length (pk p)" unfolding q1(2) less.prems(5) by (simp add: x)
    then have le: "length (toks q1) \<le> N" using less.prems(7) by simp
    have "pk (advance q1) = expr_kinds r @ ks" by (simp add: on_kinds q1(2))
    moreover have "length (toks (advance q1)) \<le> N" using le by (simp add: advance_def)
    ultimately obtain q2 where q2: "f (advance q1) = Some (r, q2)" "pk q2 = ks" "errors q2 = errors p"
      using assms ok Q(2) less.prems(6) q1(3) unfolding operands_def parses_def by (metis pk_advance(2))
    have "length (pk q2) < length (pk q1)" unfolding q1(2) q2(2) by simp
    then have "length (toks q2) < j2" using q1(4) j2 by simp
    moreover have "binary_loop opf f j1 l q1 = binary_loop opf f j2 x q2"
      using op_here [OF q1(2) L] q2(1) by (simp add: j2 x)
    ultimately show ?thesis using q1(1) q2(2,3) by metis
  qed
qed

lemma level_parses:
  assumes "operands f Q N" "expr_ok x" "L \<le> prec x" "Q x" "\<And>y. size y < size x \<Longrightarrow> Q y"
    "pk p = expr_kinds x @ ks" "follow L ks" "length (toks p) \<le> N" "length (toks p) < k"
  shows "parses (Option.bind (f p) (\<lambda>(l, p1). binary_loop opf f k l p1)) p x ks"
proof -
  have f: "follow (Suc L) ks" using assms(7) by (rule follow_weaken) simp
  obtain q j where q: "Option.bind (f p) (\<lambda>(l, p1). binary_loop opf f k l p1) = binary_loop opf f j x q"
    "pk q = ks" "errors q = errors p" "length (toks q) < j"
    using spine [OF assms(1-6) f assms(8,9)] by blast
  then obtain j' where "j = Suc j'" by (cases j) simp_all
  moreover have "opf q = None" using follow_here [OF assms(7)] q(2) by (intro no_op) simp
  ultimately show ?thesis using q by (simp add: parses_def)
qed

end

interpretation or_level: left_assoc 1 or_op
  by unfold_locales (auto simp: or_op_def on_kinds op_kind_def op_prec_def level_ops_def split: if_splits)

interpretation and_level: left_assoc 2 and_op
  by unfold_locales (auto simp: and_op_def on_kinds op_kind_def op_prec_def level_ops_def split: if_splits)

interpretation eq_level: left_assoc 3 equality_op
  by unfold_locales (auto simp: equality_op_def on_kinds current_literal op_kind_def op_prec_def level_ops_def
      split: if_splits)

interpretation add_level: left_assoc 4 addition_op
  by unfold_locales (auto simp: addition_op_def on_kinds op_kind_def op_prec_def level_ops_def split: if_splits)

subsection \<open>Primary expressions\<close>

definition starts_expr :: "token_type \<Rightarrow> bool" where
  "starts_expr t \<longleftrightarrow> t \<in> {STRING, NUMBER, TRUE, FALSE, IDENT, KW_NOT, LBRACE, LBRACKET, HEREDOC_START}"

lemma expr_kinds_start: "expr_ok x \<Longrightarrow> \<exists>t s ks. expr_kinds x = (t, s) # ks \<and> starts_expr t"
  by (induction x rule: expr_ok.induct) (auto simp: starts_expr_def)

lemma head_expr: "expr_ok x \<Longrightarrow> starts_expr (head (expr_kinds x @ ks))"
  using expr_kinds_start [of x] by auto

lemma not_starts: "starts_expr t \<Longrightarrow> t \<notin> {EOF, NEWLINE, COMMENT, RPAREN, RBRACE, RBRACKET, COMMA, KW_WHEN}"
  by (auto simp: starts_expr_def)

text \<open>The parser of nested expressions is right on the expressions of a list.\<close>

definition right_on :: "(parser \<Rightarrow> (expr \<times> parser) option) \<Rightarrow> nat \<Rightarrow> expr \<Rightarrow> bool" where
  "right_on e N x \<longleftrightarrow> (\<forall>p ks. pk p = expr_kinds x @ ks \<longrightarrow> follow 1 ks \<longrightarrow> length (toks p) < N \<longrightarrow>
     parses (e p) p x ks)"

lemma right_onD: "right_on e N x \<Longrightarrow> pk p = expr_kinds x @ ks \<Longrightarrow> follow 1 ks \<Longrightarrow> length (toks p) < N \<Longrightarrow>
    \<exists>q. e p = Some (x, q) \<and> pk q = ks \<and> errors q = errors p"
  unfolding right_on_def parses_def by blast

text \<open>The rest of a comma-separated list after an item, up to the closing token.\<close>

definition tail_kinds :: "tkind list list \<Rightarrow> tkind list \<Rightarrow> tkind list" where
  "tail_kinds items close = (case items of [] \<Rightarrow> [] | _ \<Rightarrow> (COMMA, '','') # join_kinds items) @ close"

definition closing :: "tkind list \<Rightarrow> bool" where
  "closing ks \<longleftrightarrow> head ks \<in> {RPAREN, RBRACE, RBRACKET}"

lemma join_Cons: "join_kinds (k # items) @ close = k @ tail_kinds items close"
  by (cases items) (simp_all add: tail_kinds_def)

lemma follow_tail: "closing close \<Longrightarrow> follow L (tail_kinds items close)"
  by (cases items; cases close) (auto simp: tail_kinds_def closing_def follow_def level_ops_def)

lemma skip_comma_tail:
  "pk q = tail_kinds items close \<Longrightarrow> closing close \<Longrightarrow>
    pk (skip_comma q) = join_kinds items @ close \<and> errors (skip_comma q) = errors q
    \<and> length (toks (skip_comma q)) \<le> length (toks q)"
  by (cases items) (auto simp: tail_kinds_def closing_def on_kinds, simp_all add: advance_def)

text \<open>One item of a list: the parser takes it with the comma after it.\<close>

lemma list_item:
  assumes "right_on e N x" "expr_ok x" "pk p = expr_kinds x @ tail_kinds items close" "closing close"
    "length (toks p) < N"
  shows "\<exists>q. e p = Some (x, q) \<and> pk (skip_comma q) = join_kinds items @ close \<and> errors (skip_comma q) = errors p
    \<and> length (toks (skip_comma q)) < length (toks p)"
proof -
  obtain q where q: "e p = Some (x, q)" "pk q = tail_kinds items close" "errors q = errors p"
    using right_onD [OF assms(1,3) follow_tail [OF assms(4)] assms(5)] by blast
  have "length (pk q) < length (pk p)"
    unfolding assms(3) q(2) using expr_kinds_start [OF assms(2)] by auto
  then have "length (toks q) < length (toks p)" by simp
  then show ?thesis using q skip_comma_tail [OF q(2) assms(4)] by auto
qed

lemma head_item: "expr_ok x \<Longrightarrow> pk p = expr_kinds x @ ks \<Longrightarrow>
    head (pk p) \<notin> {EOF, NEWLINE, COMMENT, RPAREN, RBRACE, RBRACKET, COMMA, KW_WHEN}"
  using not_starts head_expr by metis

lemma head_list: "\<forall>x \<in> set xs. expr_ok x \<Longrightarrow> closing close \<Longrightarrow> pk p = join_kinds (map expr_kinds xs) @ close \<Longrightarrow>
    head (pk p) \<notin> {NEWLINE, COMMENT}"
  using head_item [of "hd xs" p] by (cases xs) (auto simp: join_Cons closing_def)

lemma args_loop_parses:
  "\<lbrakk>\<forall>x \<in> set xs. right_on e N x \<and> expr_ok x; pk p = join_kinds (map expr_kinds xs) @ (RPAREN, s) # ks;
    length (toks p) < N; length (toks p) < n\<rbrakk> \<Longrightarrow>
   \<exists>q. args_loop e n acc p = Some (acc @ xs, q) \<and> pk q = (RPAREN, s) # ks \<and> errors q = errors p"
proof (induction xs arbitrary: acc p n)
  case Nil
  then show ?case by (cases n) (simp_all add: on_kinds)
next
  case (Cons x xs)
  then obtain n' where n: "n = Suc n'" by (cases n) simp_all
  have pk: "pk p = expr_kinds x @ tail_kinds (map expr_kinds xs) ((RPAREN, s) # ks)"
    using Cons.prems(2) by (simp add: join_Cons)
  have "\<exists>q. e p = Some (x, q) \<and> pk (skip_comma q) = join_kinds (map expr_kinds xs) @ (RPAREN, s) # ks
      \<and> errors (skip_comma q) = errors p \<and> length (toks (skip_comma q)) < length (toks p)"
    by (rule list_item [OF _ _ pk _ Cons.prems(3)]) (use Cons.prems(1) in \<open>simp_all add: closing_def\<close>)
  then obtain q where q: "e p = Some (x, q)" "pk (skip_comma q) = join_kinds (map expr_kinds xs) @ (RPAREN, s) # ks"
    "errors (skip_comma q) = errors p" "length (toks (skip_comma q)) < length (toks p)" by blast
  have "\<exists>q'. args_loop e n' (acc @ [x]) (skip_comma q) = Some ((acc @ [x]) @ xs, q') \<and> pk q' = (RPAREN, s) # ks
      \<and> errors q' = errors (skip_comma q)"
    by (rule Cons.IH) (use Cons.prems q n in simp_all)
  then show ?case using n q(1,3) head_item [OF _ pk] Cons.prems(1) by (auto simp: on_kinds)
qed

lemma list_loop_parses:
  "\<lbrakk>\<forall>x \<in> set xs. right_on e N x \<and> expr_ok x; pk p = join_kinds (map expr_kinds xs) @ (RBRACKET, s) # ks;
    length (toks p) < N; length (toks p) < n\<rbrakk> \<Longrightarrow>
   \<exists>q. list_loop e n acc p = Some (acc @ xs, q) \<and> pk q = (RBRACKET, s) # ks \<and> errors q = errors p"
proof (induction xs arbitrary: acc p n)
  case Nil
  then show ?case by (cases n) (simp_all add: on_kinds)
next
  case (Cons x xs)
  then obtain n' where n: "n = Suc n'" by (cases n) simp_all
  have pk: "pk p = expr_kinds x @ tail_kinds (map expr_kinds xs) ((RBRACKET, s) # ks)"
    using Cons.prems(2) by (simp add: join_Cons)
  have "\<exists>q. e p = Some (x, q) \<and> pk (skip_comma q) = join_kinds (map expr_kinds xs) @ (RBRACKET, s) # ks
      \<and> errors (skip_comma q) = errors p \<and> length (toks (skip_comma q)) < length (toks p)"
    by (rule list_item [OF _ _ pk _ Cons.prems(3)]) (use Cons.prems(1) in \<open>simp_all add: closing_def\<close>)
  then obtain q where q: "e p = Some (x, q)" "pk (skip_comma q) = join_kinds (map expr_kinds xs) @ (RBRACKET, s) # ks"
    "errors (skip_comma q) = errors p" "length (toks (skip_comma q)) < length (toks p)" by blast
  have "skipNewlines (skip_comma q) = skip_comma q"
    by (intro skipNewlines_stay head_list [OF _ _ q(2)]) (use Cons.prems(1) in \<open>simp_all add: closing_def\<close>)
  moreover have "\<exists>q'. list_loop e n' (acc @ [x]) (skip_comma q) = Some ((acc @ [x]) @ xs, q')
      \<and> pk q' = (RBRACKET, s) # ks \<and> errors q' = errors (skip_comma q)"
    by (rule Cons.IH) (use Cons.prems q n in simp_all)
  ultimately show ?case using n q(1,3) head_item [OF _ pk] Cons.prems(1) by (auto simp: on_kinds Let_def)
qed

definition field_kinds :: "str \<times> expr \<Rightarrow> tkind list" where
  "field_kinds kx = (IDENT, fst kx) # (COLON, '':'') # expr_kinds (snd kx)"

lemma field_kinds_pair: "field_kinds (k, x) = (IDENT, k) # (COLON, '':'') # expr_kinds x"
  by (simp add: field_kinds_def)

lemma object_loop_parses:
  "\<lbrakk>\<forall>kx \<in> set fs. right_on e N (snd kx) \<and> expr_ok (snd kx);
    pk p = join_kinds (map field_kinds fs) @ (RBRACE, s) # ks; length (toks p) < N; length (toks p) < n\<rbrakk> \<Longrightarrow>
   \<exists>q. object_loop e n acc p = Some (acc @ fs, q) \<and> pk q = (RBRACE, s) # ks \<and> errors q = errors p"
proof (induction fs arbitrary: acc p n)
  case Nil
  then show ?case by (cases n) (simp_all add: on_kinds)
next
  case (Cons kx fs)
  obtain k x where kx: "kx = (k, x)" by fastforce
  obtain n' where n: "n = Suc n'" using Cons.prems by (cases n) simp_all
  let ?t = "tail_kinds (map field_kinds fs) ((RBRACE, s) # ks)"
  have pk: "pk p = (IDENT, k) # (COLON, '':'') # expr_kinds x @ ?t"
    using Cons.prems(2) by (simp add: join_Cons kx field_kinds_pair)
  let ?v = "advance (advance p)"
  have v: "pk ?v = expr_kinds x @ ?t" "errors ?v = errors p" "length (toks ?v) \<le> length (toks p)"
    by (simp_all add: on_kinds pk) (simp add: advance_def)
  have c: "expectIdentOrString p = (k, advance p)" "expect COLON (advance p) = ?v"
    using expectIdentOrString_match [OF pk] by (simp_all add: on_kinds pk)
  have "\<exists>q. e ?v = Some (x, q) \<and> pk (skip_comma q) = join_kinds (map field_kinds fs) @ (RBRACE, s) # ks
      \<and> errors (skip_comma q) = errors ?v \<and> length (toks (skip_comma q)) < length (toks ?v)"
    by (rule list_item [where N = N, OF _ _ v(1)]) (use Cons.prems(1,3) v(3) in \<open>simp_all add: closing_def kx\<close>)
  then obtain q where q: "e ?v = Some (x, q)" "pk (skip_comma q) = join_kinds (map field_kinds fs) @ (RBRACE, s) # ks"
    "errors (skip_comma q) = errors p" "length (toks (skip_comma q)) < length (toks p)"
    using v by auto
  have "head (pk (skip_comma q)) \<notin> {NEWLINE, COMMENT}"
    unfolding q(2) by (cases fs) (simp_all add: join_Cons field_kinds_def)
  then have "skipNewlines (skip_comma q) = skip_comma q" by (rule skipNewlines_stay)
  moreover have "\<exists>q'. object_loop e n' (acc @ [(k, x)]) (skip_comma q) = Some ((acc @ [(k, x)]) @ fs, q')
      \<and> pk q' = (RBRACE, s) # ks \<and> errors q' = errors (skip_comma q)"
    by (rule Cons.IH) (use Cons.prems q n in simp_all)
  ultimately show ?case using n q(1,3) c pk by (auto simp: on_kinds Let_def kx)
qed

text \<open>A chain of fields.\<close>

lemma dot_loop_parses:
  "\<lbrakk>dotted x; pk p = expr_kinds x @ ks; ks = [] \<or> fst (hd ks) \<noteq> LPAREN\<rbrakk> \<Longrightarrow>
    \<exists>s ks' q. pk p = (IDENT, s) # ks' \<and> head ks' \<noteq> LPAREN
      \<and> dot_loop (Ident s) (advance p) = dot_loop x q \<and> pk q = ks \<and> errors q = errors p"
proof (induction x arbitrary: ks rule: dotted.induct)
  case (1 n)
  then show ?case by (intro exI [of _ n] exI [of _ ks] exI [of _ "advance p"]) (cases ks; simp add: on_kinds)
next
  case (2 l f)
  obtain s ks' q where q: "pk p = (IDENT, s) # ks'" "head ks' \<noteq> LPAREN"
    "dot_loop (Ident s) (advance p) = dot_loop l q" "pk q = (DOT, ''.'') # (IDENT, f) # ks" "errors q = errors p"
    using 2(1) [of "(DOT, ''.'') # (IDENT, f) # ks"] 2(2,3) by auto
  have "pk (advance q) = (IDENT, f) # ks" by (simp add: on_kinds q(4))
  then have "dot_loop l q = dot_loop (DotExpr l f) (advance (advance q))"
    by (subst dot_loop.simps) (simp add: on_kinds q(4) expectIdent_match)
  moreover have "pk (advance (advance q)) = ks" "errors (advance (advance q)) = errors p"
    by (simp_all add: on_kinds q)
  ultimately show ?case using q by metis
qed simp_all

lemma dot_loop_end: "head (pk p) \<noteq> DOT \<Longrightarrow> dot_loop x p = (x, p)"
  by (subst dot_loop.simps) (simp add: on_kinds)

lemma primary_parses:
  assumes "expr_ok x" "prec x = 6" "\<And>y. size y < size x \<Longrightarrow> expr_ok y \<Longrightarrow> right_on e N y"
    and "pk p = expr_kinds x @ ks" "follow 6 ks" "length (toks p) \<le> N" "length (toks p) \<le> n"
  shows "parses (parsePrimary e n p) p x ks"
proof (cases x)
  case (CallExpr f args)
  have pk: "pk p = (IDENT, f) # (LPAREN, ''('') # join_kinds (map expr_kinds args) @ (RPAREN, '')'') # ks"
    using assms(4) by (simp add: CallExpr)
  let ?a = "advance (advance p)"
  have a: "pk ?a = join_kinds (map expr_kinds args) @ (RPAREN, '')'') # ks" "errors ?a = errors p"
    by (simp_all add: on_kinds pk)
  have len: "length (toks ?a) < length (toks p)"
  proof -
    have "length (pk ?a) < length (pk p)" unfolding a(1) pk by simp
    then show ?thesis by simp
  qed
  have "\<forall>y \<in> set args. right_on e N y \<and> expr_ok y"
    using assms(1,3) by (auto simp: CallExpr list_all_iff size_list_estimation' le_imp_less_Suc)
  then obtain q where q: "args_loop e n [] ?a = Some (args, q)" "pk q = (RPAREN, '')'') # ks" "errors q = errors p"
    using args_loop_parses [of args e N ?a "'')''" ks n "[]"] a len assms(6,7) by auto
  then show ?thesis
    using pk by (simp add: parses_def parsePrimary_def Let_def on_kinds current_literal [OF pk] parseCallExpr_def CallExpr)
next
  case (ObjectLit fs)
  have pk: "pk p = (LBRACE, ''{'') # join_kinds (map field_kinds fs) @ (RBRACE, ''}'') # ks"
    using assms(4) by (simp add: ObjectLit field_kinds_def [abs_def] case_prod_unfold)
  let ?a = "advance p"
  have a: "pk ?a = join_kinds (map field_kinds fs) @ (RBRACE, ''}'') # ks" "errors ?a = errors p"
    by (simp_all add: on_kinds pk)
  have len: "length (toks ?a) < length (toks p)"
  proof -
    have "length (pk ?a) < length (pk p)" unfolding a(1) pk by simp
    then show ?thesis by simp
  qed
  have "head (pk ?a) \<notin> {NEWLINE, COMMENT}" unfolding a(1) by (cases fs) (simp_all add: join_Cons field_kinds_def)
  then have skip: "skipNewlines ?a = ?a" by (rule skipNewlines_stay)
  have "right_on e N (snd kx) \<and> expr_ok (snd kx)" if "kx \<in> set fs" for kx
  proof -
    have "size (snd kx) \<le> size_list (size_prod (\<lambda>x. 0) size) fs"
      by (rule size_list_estimation' [OF that]) (cases kx; simp)
    then have "size (snd kx) < size x" by (simp add: ObjectLit)
    moreover have "expr_ok (snd kx)" using that assms(1) by (auto simp: ObjectLit list_all_iff)
    ultimately show ?thesis using assms(3) by blast
  qed
  then obtain q where q: "object_loop e n [] ?a = Some (fs, q)" "pk q = (RBRACE, ''}'') # ks" "errors q = errors p"
    using object_loop_parses [of fs e N ?a "''}''" ks n "[]"] a len assms(6,7) by auto
  then show ?thesis
    using pk by (simp add: parses_def parsePrimary_def Let_def on_kinds parseObjectLit_def skip ObjectLit)
next
  case (ListLit xs)
  have pk: "pk p = (LBRACKET, ''['') # join_kinds (map expr_kinds xs) @ (RBRACKET, '']'') # ks"
    using assms(4) by (simp add: ListLit)
  let ?a = "advance p"
  have a: "pk ?a = join_kinds (map expr_kinds xs) @ (RBRACKET, '']'') # ks" "errors ?a = errors p"
    by (simp_all add: on_kinds pk)
  have len: "length (toks ?a) < length (toks p)"
  proof -
    have "length (pk ?a) < length (pk p)" unfolding a(1) pk by simp
    then show ?thesis by simp
  qed
  have xs: "\<forall>y \<in> set xs. right_on e N y \<and> expr_ok y"
    using assms(1,3) by (auto simp: ListLit list_all_iff size_list_estimation' le_imp_less_Suc)
  have "skipNewlines ?a = ?a"
    by (intro skipNewlines_stay head_list [OF _ _ a(1)]) (use xs in \<open>simp_all add: closing_def\<close>)
  moreover obtain q where "list_loop e n [] ?a = Some (xs, q)" "pk q = (RBRACKET, '']'') # ks" "errors q = errors p"
    using list_loop_parses [OF xs a(1), of n "[]"] a len assms(6,7) by auto
  ultimately show ?thesis
    using pk by (simp add: parses_def parsePrimary_def Let_def on_kinds parseListLit_def ListLit)
next
  case (Ident s)
  then show ?thesis
    using assms(4,5) by (auto simp: parses_def parsePrimary_def Let_def on_kinds current_literal dot_loop_end follow_def)
next
  case (DotExpr l f)
  have ne: "ks = [] \<or> fst (hd ks) \<noteq> LPAREN" "head ks \<noteq> DOT"
    using assms(5) by (cases ks; auto simp: follow_def)+
  obtain s ks' q where q: "pk p = (IDENT, s) # ks'" "head ks' \<noteq> LPAREN"
    "dot_loop (Ident s) (advance p) = dot_loop x q" "pk q = ks" "errors q = errors p"
    using dot_loop_parses [OF _ assms(4) ne(1)] assms(1) by (auto simp: DotExpr)
  then show ?thesis
    using ne(2) by (simp add: parses_def parsePrimary_def Let_def on_kinds current_literal [OF q(1)] dot_loop_end)
qed (use assms in \<open>auto simp: parses_def parsePrimary_def Let_def on_kinds current_literal op_prec_def split: if_splits\<close>)

subsection \<open>All levels\<close>

lemma dotted_head: "dotted x \<Longrightarrow> head (expr_kinds x @ ks) = IDENT"
  by (induction x arbitrary: ks rule: dotted.induct) simp_all

lemma six_head: "prec x = 6 \<Longrightarrow> expr_ok x \<Longrightarrow> head (expr_kinds x @ ks) \<noteq> KW_NOT"
  using dotted_head [of x ks] by (cases x) (auto simp: op_prec_def split: if_splits)

text \<open>What each level of the grammar returns on an expression printed for it.\<close>

definition unary_right :: "(parser \<Rightarrow> (expr \<times> parser) option) \<Rightarrow> nat \<Rightarrow> expr \<Rightarrow> bool" where
  "unary_right e N x \<longleftrightarrow> (\<forall>p ks n. pk p = expr_kinds x @ ks \<longrightarrow> follow 5 ks \<longrightarrow> length (toks p) \<le> N \<longrightarrow>
     length (toks p) < n \<longrightarrow> parses (parseUnary e n p) p x ks)"

lemma unary_parses:
  assumes "\<And>y. size y < size x \<Longrightarrow> expr_ok y \<Longrightarrow> right_on e N y"
  shows "expr_ok x \<Longrightarrow> 5 \<le> prec x \<Longrightarrow> unary_right e N x"
  using assms
proof (induction x rule: measure_induct_rule [of size])
  case (less x)
  show ?case unfolding unary_right_def
  proof (intro allI impI)
    fix p ks n assume a: "pk p = expr_kinds x @ ks" "follow 5 ks" "length (toks p) \<le> N" "length (toks p) < n"
    then obtain n' where n: "n = Suc n'" by (cases n) simp_all
    show "parses (parseUnary e n p) p x ks"
    proof (cases "\<exists>op y. x = UnaryExpr op y")
      case True
      then obtain y where x: "x = UnaryExpr ''not'' y" and y: "expr_ok y" "5 \<le> prec y"
        using less.prems(1) by auto
      have "unary_right e N y" using less.IH [of y] less.prems(3) y by (simp add: x)
      moreover have pk: "pk p = (KW_NOT, ''not'') # expr_kinds y @ ks" using a(1) by (simp add: x)
      moreover have "pk (advance p) = expr_kinds y @ ks" by (simp add: on_kinds pk)
      moreover have "length (toks (advance p)) \<le> N" "length (toks (advance p)) < n'"
      proof -
        have "length (pk (advance p)) < length (pk p)" by (simp add: on_kinds pk)
        then have "length (toks (advance p)) < length (toks p)" by simp
        then show "length (toks (advance p)) \<le> N" "length (toks (advance p)) < n'" using a(3,4) n by linarith+
      qed
      ultimately have "parses (parseUnary e n' (advance p)) (advance p) y ks"
        using a(2) by (simp add: unary_right_def)
      then show ?thesis using pk n by (auto simp: parses_def on_kinds x)
    next
      case False
      have six: "prec x = 6"
        using less.prems(2) False by (cases x) (auto simp: op_prec_def split: if_splits)
      have "follow 6 ks" using a(2) by (rule follow_weaken) simp
      then have "parses (parsePrimary e (Suc n') p) p x ks"
        using a n by (intro primary_parses [OF less.prems(1) six less.prems(3)]) simp_all
      moreover have "head (pk p) \<noteq> KW_NOT"
        using six_head [OF six less.prems(1)] a(1) by simp
      ultimately show ?thesis by (simp add: n on_kinds)
    qed
  qed
qed

text \<open>Every level is right on the expressions up to a size, by the one below.\<close>

definition up_to :: "nat \<Rightarrow> expr \<Rightarrow> bool" where
  "up_to n y \<longleftrightarrow> size y \<le> n"

lemma up_to_smaller: "up_to n x \<Longrightarrow> size y < size x \<Longrightarrow> up_to n y"
  by (simp add: up_to_def)

lemma parseOr_parses:
  assumes "\<And>y. up_to n y \<Longrightarrow> expr_ok y \<Longrightarrow> 5 \<le> prec y \<Longrightarrow> unary_right e M y"
    and "up_to n x" "expr_ok x" "pk p = expr_kinds x @ ks" "follow 1 ks" "length (toks p) \<le> M"
  shows "parses (parseOr e (Suc M) p) p x ks"
proof -
  have len: "length (toks q) < Suc M" if "length (toks q) \<le> M" for q using that by simp
  have u: "add_level.operands (parseUnary e (Suc M)) (up_to n) M"
    using assms(1) unfolding add_level.operands_def unary_right_def by (simp del: parseUnary.simps)
  have a: "eq_level.operands (parseAddition e (Suc M)) (up_to n) M"
    unfolding eq_level.operands_def parseAddition_def
    using add_level.level_parses [OF u _ _ _ up_to_smaller] len by simp
  have q: "and_level.operands (parseEquality e (Suc M)) (up_to n) M"
    unfolding and_level.operands_def parseEquality_def
    using eq_level.level_parses [OF a _ _ _ up_to_smaller] len by simp
  have d: "or_level.operands (parseAnd e (Suc M)) (up_to n) M"
    unfolding or_level.operands_def parseAnd_def
    using and_level.level_parses [OF q _ _ _ up_to_smaller] len by (simp add: numeral_2_eq_2)
  have "1 \<le> prec x" using assms(3) by (cases x) (auto simp: op_prec_def split: if_splits)
  from or_level.level_parses [OF d assms(3) this assms(2) up_to_smaller [OF assms(2)] assms(4-6) len [OF assms(6)]]
  show ?thesis unfolding parseOr_def .
qed

lemma parse_expr_right: "expr_ok x \<Longrightarrow> right_on (parse_expr N) N x"
proof (induction x arbitrary: N rule: measure_induct_rule [of size])
  case (less x)
  show ?case unfolding right_on_def
  proof (intro allI impI)
    fix p ks assume a: "pk p = expr_kinds x @ ks" "follow 1 ks" "length (toks p) < N"
    then obtain M where N: "N = Suc M" by (cases N) simp_all
    have u: "unary_right (parse_expr M) M y" if "up_to (size x) y" "expr_ok y" "5 \<le> prec y" for y
      by (rule unary_parses [OF less.IH that(2,3)]) (use that(1) in \<open>simp_all add: up_to_def\<close>)
    have "parses (parseOr (parse_expr M) (Suc M) p) p x ks"
    proof (rule parseOr_parses [where n = "size x", OF u _ less.prems a(1,2)])
      show "up_to (size x) x" by (simp add: up_to_def)
      show "length (toks p) \<le> M" using a(3) N by simp
    qed
    then show "parses (parse_expr N p) p x ks" by (simp add: N)
  qed
qed

text \<open>The form the declarations and statements use.\<close>

lemma parse_expr_parses:
  assumes "expr_ok x" "pk p = expr_kinds x @ ks" "follow 1 ks" "length (toks p) < n"
  obtains q where "parse_expr n p = Some (x, q)" "pk q = ks" "errors q = errors p"
  using parse_expr_right [OF assms(1), of n] right_onD assms(2-4) by blast

end
