(* ===== verification/AgentRoundDecl.thy ===== *)
theory AgentRoundDecl
  imports AgentRoundExpr
begin

text \<open>
  Printed declarations are read back, up to their positions. \<open>decl_ok\<close> says which declarations
  the printer writes faithfully: the values it does not quote must be names of the lexer, numbers
  must be printed as the lexer's numbers, and a prompt must have no rune that the verb \<open>%q\<close>
  escapes in a way the lexer does not know.
\<close>

subsection \<open>Declarations without positions\<close>

fun erase_decl :: "decl \<Rightarrow> decl" where
  "erase_decl (AgentDecl a _) = AgentDecl a (0, 0)"
| "erase_decl (ExecutableDecl a _) = ExecutableDecl a (0, 0)"
| "erase_decl (ConfigDecl a b c d _) = ConfigDecl a b c d (0, 0)"
| "erase_decl (EnvDecl a b c d e f _) = EnvDecl a b c d e f (0, 0)"
| "erase_decl (RepoDecl a _) = RepoDecl a (0, 0)"
| "erase_decl (BranchDecl a _) = BranchDecl a (0, 0)"
| "erase_decl (GitCredentialDecl a _) = GitCredentialDecl a (0, 0)"
| "erase_decl (McpDecl a b _) = McpDecl a b (0, 0)"
| "erase_decl (SkillsDecl a _) = SkillsDecl a (0, 0)"
| "erase_decl (SetupDecl a b _) = SetupDecl a b (0, 0)"
| "erase_decl (RemoveDecl a b _) = RemoveDecl a b (0, 0)"
| "erase_decl (ModeDecl a _) = ModeDecl a (0, 0)"
| "erase_decl (ModeArgsDecl a b _) = ModeArgsDecl a b (0, 0)"
| "erase_decl (UseEnvBundleDecl a _) = UseEnvBundleDecl a (0, 0)"
| "erase_decl (UseConfigBundleDecl a _) = UseConfigBundleDecl a (0, 0)"
| "erase_decl (PromptDecl a _) = PromptDecl a (0, 0)"
| "erase_decl (PromptPositionDecl a _) = PromptPositionDecl a (0, 0)"
| "erase_decl (CapabilityDecl a b _) = CapabilityDecl a b (0, 0)"
| "erase_decl (KnowledgeDecl a _) = KnowledgeDecl a (0, 0)"

subsection \<open>What prints faithfully\<close>

text \<open>A value that \<open>quoteIfNeeded\<close> leaves bare must be a name.\<close>

definition bare_ok :: "str \<Rightarrow> bool" where
  "bare_ok s \<longleftrightarrow> (s \<noteq> [] \<and> list_all isIdentChar s \<longrightarrow> ident_ok s)"

definition value_ok :: "val \<Rightarrow> bool" where
  "value_ok v = (case v of
       VNil \<Rightarrow> True | VStr _ \<Rightarrow> True | VBool _ \<Rightarrow> True
     | VFloat f \<Rightarrow> number_ok (FormatValue (VFloat f)) \<and> parse_float (FormatValue (VFloat f)) = Some f
     | _ \<Rightarrow> False)"

definition config_ok :: "str \<Rightarrow> str list \<Rightarrow> val \<Rightarrow> bool" where
  "config_ok ty opts v \<longleftrightarrow>
     (if ty = [] then opts = [] \<and> v \<noteq> VNil
      else if ty = ''select'' then opts \<noteq> []
      else ty \<in> {''boolean'', ''string'', ''number'', ''secret''} \<and> opts = [])"

fun is_string_lit :: "expr \<Rightarrow> bool" where
  "is_string_lit (StringLit _) = True"
| "is_string_lit _ = False"

definition env_ok :: "str \<Rightarrow> str \<Rightarrow> expr option \<Rightarrow> expr option \<Rightarrow> bool \<Rightarrow> bool" where
  "env_ok source v ve w opt \<longleftrightarrow>
     (if source \<noteq> [] then source \<in> {''secret'', ''text''} \<and> v = [] \<and> ve = None \<and> w = None
      else \<not> opt \<and> (case ve of
          None \<Rightarrow> w = None
        | Some e \<Rightarrow> v = [] \<and> expr_ok e \<and> (case w of None \<Rightarrow> \<not> is_string_lit e | Some c \<Rightarrow> expr_ok c)))"

definition prompt_ok :: "str \<Rightarrow> bool" where
  "prompt_ok s \<longleftrightarrow> list_all (\<lambda>c. go_quote_rune c = quote_rune c) s"

text \<open>A token that the value of a capability may have, and such a value.\<close>

definition cap_word :: "str \<Rightarrow> bool" where
  "cap_word w \<longleftrightarrow> name_ok w \<and> LookupIdent w \<in> {IDENT, TRUE, FALSE, KW_NONE}"

definition cap_ok :: "str \<Rightarrow> str \<Rightarrow> bool" where
  "cap_ok axis v \<longleftrightarrow> ident_ok axis \<and> to_lower axis = axis \<and> Validate axis v = None \<and>
     (if axis = ''control'' then list_all cap_word (split_on (CHR '','') v) else cap_word v)"

definition mount_ok :: "mount_ref \<Rightarrow> bool" where
  "mount_ok m \<longleftrightarrow> ident_ok (mount_slug m) \<and> mount_mode m \<in> {''ro'', ''rw''}"

fun decl_ok :: "decl \<Rightarrow> bool" where
  "decl_ok (AgentDecl a _) = bare_ok a"
| "decl_ok (ExecutableDecl a _) = bare_ok a"
| "decl_ok (ConfigDecl name ty opts v _) = (ident_ok name \<and> config_ok ty opts v \<and> value_ok v)"
| "decl_ok (EnvDecl name source v ve w opt _) = (ident_ok name \<and> env_ok source v ve w opt)"
| "decl_ok (RepoDecl e _) = expr_ok e"
| "decl_ok (BranchDecl e _) = expr_ok e"
| "decl_ok (GitCredentialDecl t _) = ident_ok t"
| "decl_ok (McpDecl enabled format _) = (format = [] \<or> (enabled \<and> ident_ok format))"
| "decl_ok (SkillsDecl slugs _) = list_all ident_ok slugs"
| "decl_ok (SetupDecl script timeout _) = (heredoc_ok script \<and> 0 \<le> timeout \<and> timeout < 2 ^ 63)"
| "decl_ok (RemoveDecl target _ _) = (target \<in> {''ENV'', ''SKILLS'', ''CONFIG'', ''arg'', ''file''})"
| "decl_ok (ModeDecl mode _) = (mode \<in> {''pty'', ''acp''})"
| "decl_ok (ModeArgsDecl mode args _) = (mode \<in> {''pty'', ''acp''} \<and> args \<noteq> [])"
| "decl_ok (UseEnvBundleDecl a _) = bare_ok a"
| "decl_ok (UseConfigBundleDecl a _) = bare_ok a"
| "decl_ok (PromptDecl s _) = prompt_ok s"
| "decl_ok (PromptPositionDecl mode _) = (mode \<in> {''prepend'', ''append'', ''none'', ''after_first''})"
| "decl_ok (CapabilityDecl axis v _) = cap_ok axis v"
| "decl_ok (KnowledgeDecl mounts _) = list_all mount_ok mounts"

subsection \<open>The tokens of a printed declaration\<close>

abbreviation nl_kind :: tkind where
  "nl_kind \<equiv> (NEWLINE, [NL])"

definition bare_kind :: "str \<Rightarrow> tkind" where
  "bare_kind s = ((if s \<noteq> [] \<and> list_all isIdentChar s then IDENT else STRING), s)"

definition value_kinds :: "val \<Rightarrow> tkind list" where
  "value_kinds v = (case v of
       VNil \<Rightarrow> []
     | VStr s \<Rightarrow> [(ASSIGN, ''=''), (STRING, s)]
     | VBool b \<Rightarrow> [(ASSIGN, ''=''), if b then (TRUE, ''true'') else (FALSE, ''false'')]
     | _ \<Rightarrow> [(ASSIGN, ''=''), (NUMBER, FormatValue v)])"

definition type_kinds :: "str \<Rightarrow> str list \<Rightarrow> tkind list" where
  "type_kinds ty opts =
     (if ty = [] then []
      else if ty = ''boolean'' then [(KW_BOOL, ''BOOL'')]
      else if ty = ''string'' then [(KW_STRING, ''STRING'')]
      else if ty = ''number'' then [(KW_NUMBER, ''NUMBER'')]
      else if ty = ''secret'' then [(KW_SECRET, ''SECRET'')]
      else (KW_SELECT, ''SELECT'') # (LPAREN, ''('') # join_kinds (map (\<lambda>s. [(STRING, s)]) opts) @ [(RPAREN, '')'')])"

definition when_kinds :: "expr option \<Rightarrow> tkind list" where
  "when_kinds w = (case w of None \<Rightarrow> [] | Some c \<Rightarrow> (KW_WHEN, ''when'') # expr_kinds c)"

definition env_kinds :: "str \<Rightarrow> str \<Rightarrow> expr option \<Rightarrow> expr option \<Rightarrow> bool \<Rightarrow> tkind list" where
  "env_kinds source v ve w opt =
     (if source \<noteq> [] then
        (if source = ''secret'' then (KW_SECRET, ''SECRET'') else (KW_TEXT, ''TEXT''))
        # (if opt then [(KW_OPTIONAL, ''OPTIONAL'')] else [])
      else (ASSIGN, ''='') # (case ve of Some e \<Rightarrow> expr_kinds e @ when_kinds w | None \<Rightarrow> [(STRING, v)]))"

definition cap_kinds :: "str \<Rightarrow> str \<Rightarrow> tkind list" where
  "cap_kinds axis v =
     (if axis = ''control'' then join_kinds (map (\<lambda>w. [(LookupIdent w, w)]) (split_on (CHR '','') v))
      else [(LookupIdent v, v)])"

definition mount_kinds :: "mount_ref \<Rightarrow> tkind list" where
  "mount_kinds m = (IDENT, mount_slug m)
     # (if mount_mode m = ''rw'' then [(LBRACKET, ''[''), (IDENT, ''rw''), (RBRACKET, '']'')] else [])"

text \<open>A line: the tokens of the declaration with the newline after it, which the end of a heredoc
  takes along.\<close>

fun decl_line :: "decl \<Rightarrow> tkind list" where
  "decl_line (AgentDecl a _) = [(KW_AGENT, ''AGENT''), bare_kind a, nl_kind]"
| "decl_line (ExecutableDecl a _) = [(KW_EXECUTABLE, ''EXECUTABLE''), bare_kind a, nl_kind]"
| "decl_line (ConfigDecl name ty opts v _) =
     (KW_CONFIG, ''CONFIG'') # (IDENT, name) # type_kinds ty opts @ value_kinds v @ [nl_kind]"
| "decl_line (EnvDecl name source v ve w opt _) =
     (KW_ENV, ''ENV'') # (IDENT, name) # env_kinds source v ve w opt @ [nl_kind]"
| "decl_line (RepoDecl e _) = (KW_REPO, ''REPO'') # expr_kinds e @ [nl_kind]"
| "decl_line (BranchDecl e _) = (KW_BRANCH, ''BRANCH'') # expr_kinds e @ [nl_kind]"
| "decl_line (GitCredentialDecl t _) = [(KW_GIT_CREDENTIAL, ''GIT_CREDENTIAL''), (IDENT, t), nl_kind]"
| "decl_line (McpDecl enabled format _) = (KW_MCP, ''MCP'')
     # (if enabled then (KW_ON, ''ON'') # (if format \<noteq> [] then [(IDENT, ''FORMAT''), (IDENT, format)] else [])
        else [(KW_OFF, ''OFF'')]) @ [nl_kind]"
| "decl_line (SkillsDecl slugs _) = (KW_SKILLS, ''SKILLS'') # join_kinds (map (\<lambda>s. [(IDENT, s)]) slugs) @ [nl_kind]"
| "decl_line (SetupDecl script timeout _) = (KW_SETUP, ''SETUP'')
     # (if timeout \<noteq> 300 then [(IDENT, ''timeout''), (ASSIGN, ''=''), (NUMBER, show_int timeout)] else [])
     @ [(HEREDOC_START, chooseHeredocMarker script), (HEREDOC_BODY, script)]"
| "decl_line (RemoveDecl target name _) =
     [(KW_REMOVE, ''REMOVE''), (LookupIdent target, target), (STRING, name), nl_kind]"
| "decl_line (ModeDecl mode _) = [(KW_MODE, ''MODE''), (IDENT, mode), nl_kind]"
| "decl_line (ModeArgsDecl mode args _) =
     (KW_MODE, ''MODE'') # (IDENT, mode) # map (\<lambda>a. (STRING, a)) args @ [nl_kind]"
| "decl_line (UseEnvBundleDecl a _) = [(KW_USE_ENV_BUNDLE, ''USE_ENV_BUNDLE''), bare_kind a, nl_kind]"
| "decl_line (UseConfigBundleDecl a _) = [(KW_USE_CONFIG_BUNDLE, ''USE_CONFIG_BUNDLE''), bare_kind a, nl_kind]"
| "decl_line (PromptDecl s _) = [(KW_PROMPT, ''PROMPT''), (STRING, s), nl_kind]"
| "decl_line (PromptPositionDecl mode _) =
     [(KW_PROMPT_POSITION, ''PROMPT_POSITION''), (LookupIdent mode, mode), nl_kind]"
| "decl_line (CapabilityDecl axis v _) =
     (KW_CAPABILITY, ''CAPABILITY'') # (IDENT, axis) # cap_kinds axis v @ [nl_kind]"
| "decl_line (KnowledgeDecl mounts _) =
     (KW_KNOWLEDGE, ''KNOWLEDGE'') # join_kinds (map mount_kinds mounts) @ [nl_kind]"

subsection \<open>Lexing\<close>

lemma scan_words0:
  assumes "word_end s"
  shows "scan (''AGENT'' @ s) = (KW_AGENT, ''AGENT'') # scan s"
    "scan (''EXECUTABLE'' @ s) = (KW_EXECUTABLE, ''EXECUTABLE'') # scan s"
    "scan (''CONFIG'' @ s) = (KW_CONFIG, ''CONFIG'') # scan s"
    "scan (''ENV'' @ s) = (KW_ENV, ''ENV'') # scan s" "scan (''REPO'' @ s) = (KW_REPO, ''REPO'') # scan s"
    "scan (''BRANCH'' @ s) = (KW_BRANCH, ''BRANCH'') # scan s"
    "scan (''GIT_CREDENTIAL'' @ s) = (KW_GIT_CREDENTIAL, ''GIT_CREDENTIAL'') # scan s"
    "scan (''MCP'' @ s) = (KW_MCP, ''MCP'') # scan s" "scan (''SKILLS'' @ s) = (KW_SKILLS, ''SKILLS'') # scan s"
    "scan (''SETUP'' @ s) = (KW_SETUP, ''SETUP'') # scan s" "scan (''ON'' @ s) = (KW_ON, ''ON'') # scan s"
    "scan (''OFF'' @ s) = (KW_OFF, ''OFF'') # scan s" "scan (''OPTIONAL'' @ s) = (KW_OPTIONAL, ''OPTIONAL'') # scan s"
    "scan (''REMOVE'' @ s) = (KW_REMOVE, ''REMOVE'') # scan s" "scan (''MODE'' @ s) = (KW_MODE, ''MODE'') # scan s"
    "scan (''USE_ENV_BUNDLE'' @ s) = (KW_USE_ENV_BUNDLE, ''USE_ENV_BUNDLE'') # scan s"
    "scan (''USE_CONFIG_BUNDLE'' @ s) = (KW_USE_CONFIG_BUNDLE, ''USE_CONFIG_BUNDLE'') # scan s"
    "scan (''PROMPT'' @ s) = (KW_PROMPT, ''PROMPT'') # scan s"
    "scan (''PROMPT_POSITION'' @ s) = (KW_PROMPT_POSITION, ''PROMPT_POSITION'') # scan s"
    "scan (''CAPABILITY'' @ s) = (KW_CAPABILITY, ''CAPABILITY'') # scan s"
    "scan (''KNOWLEDGE'' @ s) = (KW_KNOWLEDGE, ''KNOWLEDGE'') # scan s"
    "scan (''BOOL'' @ s) = (KW_BOOL, ''BOOL'') # scan s" "scan (''STRING'' @ s) = (KW_STRING, ''STRING'') # scan s"
    "scan (''NUMBER'' @ s) = (KW_NUMBER, ''NUMBER'') # scan s" "scan (''SECRET'' @ s) = (KW_SECRET, ''SECRET'') # scan s"
    "scan (''TEXT'' @ s) = (KW_TEXT, ''TEXT'') # scan s" "scan (''SELECT'' @ s) = (KW_SELECT, ''SELECT'') # scan s"
    "scan (''arg'' @ s) = (KW_ARG, ''arg'') # scan s" "scan (''file'' @ s) = (KW_FILE, ''file'') # scan s"
    "scan (''mkdir'' @ s) = (KW_MKDIR, ''mkdir'') # scan s" "scan (''when'' @ s) = (KW_WHEN, ''when'') # scan s"
    "scan (''if'' @ s) = (KW_IF, ''if'') # scan s" "scan (''else'' @ s) = (KW_ELSE, ''else'') # scan s"
    "scan (''for'' @ s) = (KW_FOR, ''for'') # scan s" "scan (''in'' @ s) = (KW_IN, ''in'') # scan s"
    "scan (''true'' @ s) = (TRUE, ''true'') # scan s" "scan (''false'' @ s) = (FALSE, ''false'') # scan s"
  by (rule scan_word, simp add: declarationKeywords_def buildKeywords_def, rule assms)+

lemmas scan_words = scan_words0 [unfolded append_Cons append_Nil]

lemma plain_words: "list_all ident_ok [''FORMAT'', ''timeout'', ''pty'', ''acp'', ''after_first'', ''ro'', ''rw'']"
  by code_simp

lemma scan_plain0:
  assumes "word_end s"
  shows "scan (''FORMAT'' @ s) = (IDENT, ''FORMAT'') # scan s" "scan (''timeout'' @ s) = (IDENT, ''timeout'') # scan s"
    "scan (''rw'' @ s) = (IDENT, ''rw'') # scan s"
    "scan (''pty'' @ s) = (IDENT, ''pty'') # scan s" "scan (''acp'' @ s) = (IDENT, ''acp'') # scan s"
  using plain_words by (simp_all add: scan_ident assms del: append_Cons)

lemmas scan_plain = scan_plain0 [unfolded append_Cons append_Nil]

lemma isIdentChar_part: "isIdentChar c \<Longrightarrow> isIdentPart c"
  by (auto simp: isIdentChar_def isIdentPart_def unicode_is_letter_def unicode_is_digit_def is_lower_def
      is_upper_def is_digit_def)

lemma scan_bare: "bare_ok s \<Longrightarrow> word_end rest \<Longrightarrow> scan (quoteIfNeeded s @ rest) = bare_kind s # scan rest"
  using scan_quoted [of "[]" rest] scan_quoted [of s rest]
  by (auto simp: quoteIfNeeded_def bare_kind_def bare_ok_def scan_ident QuoteString_def)

lemma scan_items:
  assumes "\<And>x r. x \<in> set xs \<Longrightarrow> word_end r \<Longrightarrow> scan (f x @ r) = g x @ scan r" "word_end rest"
  shows "scan (join '', '' (map f xs) @ rest) = join_kinds (map g xs) @ scan rest"
  using assms by (induction xs rule: induct_list012) simp_all

lemma scan_when: "(case w of None \<Rightarrow> True | Some c \<Rightarrow> expr_ok c) \<Longrightarrow>
    scan (writeWhen w @ NL # rest) = when_kinds w @ nl_kind # scan rest"
  by (auto simp: writeWhen_def when_kinds_def scan_words scan_expr split: option.splits)

lemma writeWhen_end: "expr_end (writeWhen w @ NL # rest)"
  by (simp add: writeWhen_def split: option.split)

subsection \<open>Numbers\<close>

lemma read_octal: "read_base 8 (octal_digits n) = n"
proof (induction n rule: octal_digits.induct)
  case (1 n)
  show ?case
  proof (cases "n < 8")
    case False
    have "octal_digits n = octal_digits (n div 8) @ [digit_char (n mod 8)]"
      using False by (subst octal_digits.simps) simp
    moreover have "n mod 8 < 10" using mod_less_divisor [of 8 n] by simp
    ultimately show ?thesis using 1 [OF False] by (simp add: read_base_snoc digit_val_char)
  qed (simp add: octal_digits.simps read_base_def digit_val_char)
qed

lemma octal_digits_all: "list_all (\<lambda>c. is_digit c \<and> digit_val c < 8) (octal_digits n) \<and> octal_digits n \<noteq> []"
proof (induction n rule: octal_digits.induct)
  case (1 n)
  have d: "is_digit (digit_char d) \<and> digit_val (digit_char d) < 8" if "d < 8" for d
    using that by (simp add: digit_char_digit digit_val_char)
  show ?case
  proof (cases "n < 8")
    case False
    then show ?thesis using 1 d [of "n mod 8"] by (subst (1 2) octal_digits.simps) simp
  qed (use d in \<open>simp add: octal_digits.simps\<close>)
qed

lemma nat_digits_head: "n \<noteq> 0 \<Longrightarrow> hd (nat_digits n) \<noteq> 0"
proof (induction n rule: nat_digits.induct)
  case (1 n)
  show ?case
  proof (cases "n < 10")
    case False
    have "nat_digits (n div 10) \<noteq> []" by (subst nat_digits.simps) simp
    moreover have "n div 10 \<noteq> 0" using False by simp
    ultimately show ?thesis using 1(1) [OF False] False by (subst nat_digits.simps) simp
  qed (use 1 in \<open>simp add: nat_digits.simps\<close>)
qed

lemma show_nat_not_octal: "\<not> looks_octal (show_nat n)"
proof (cases "n = 0")
  case False
  have ne: "nat_digits n \<noteq> []" by (subst nat_digits.simps) simp
  then have "hd (nat_digits n) < 10" using nat_digits_less [of "hd (nat_digits n)" n] by simp
  then have "hd (show_nat n) \<noteq> CHR ''0''"
    using ne nat_digits_head [OF False] digit_val_char [of "hd (nat_digits n)"]
    by (auto simp: show_nat_def hd_map digit_val_def code_def)
  then show ?thesis by (auto simp: looks_octal_def split: list.splits)
qed (simp add: show_nat_def nat_digits.simps looks_octal_def)

lemma number_ok_digits: "s \<noteq> [] \<Longrightarrow> list_all is_digit s \<Longrightarrow> number_ok s"
  by (cases s) (auto simp: number_ok_def list_all_iff isDigit_def is_number_part_def)

lemma timeout_number:
  assumes "0 \<le> t" "t < 2 ^ 63"
  shows "number_ok (show_int t)" "int_of_literal (show_int t) = Some t"
proof -
  have s: "show_int t = show_nat (nat t)" using assms(1) by (simp add: show_int_def)
  show "number_ok (show_int t)" unfolding s using show_nat_digits by (intro number_ok_digits)
  have "list_all (\<lambda>c. is_digit c \<and> digit_val c < 10) (show_nat (nat t))"
    by (auto simp: show_nat_def list_all_iff digit_char_digit digit_val_char dest!: nat_digits_less)
  moreover have "nat t < 2 ^ 63" using assms by (simp add: nat_less_iff)
  ultimately show "int_of_literal (show_int t) = Some t"
    using assms(1) by (simp add: s int_of_literal_def show_nat_not_octal parse_int64_def show_nat_digits(2)
        read_show_nat)
qed

text \<open>The mode of a file: a zero and the octal digits.\<close>

lemma mode_number:
  assumes "0 < m" "m < 2 ^ 63"
  shows "number_ok (CHR ''0'' # show_octal m)" "int_of_literal (CHR ''0'' # show_octal m) = Some m"
proof -
  let ?d = "octal_digits (nat m)"
  have s: "show_octal m = ?d" using assms(1) by (simp add: show_octal_def)
  have d: "list_all (\<lambda>c. is_digit c \<and> digit_val c < 8) ?d" "?d \<noteq> []" using octal_digits_all by blast+
  have zero: "is_digit (CHR ''0'')" "digit_val (CHR ''0'') = 0" by (simp_all add: is_digit_def digit_val_def code_def)
  show "number_ok (CHR ''0'' # show_octal m)"
    using d(1) zero by (intro number_ok_digits) (auto simp: s list_all_iff)
  have "read_base 8 (CHR ''0'' # ?d) = nat m"
    using read_octal [of "nat m"] zero by (simp add: read_base_def)
  moreover have "nat m < 2 ^ 63" using assms by (simp add: nat_less_iff)
  moreover have "looks_octal (CHR ''0'' # ?d)"
    using d by (cases ?d) (auto simp: looks_octal_def is_digit_def less_eq_char_def)
  ultimately show "int_of_literal (CHR ''0'' # show_octal m) = Some m"
    using assms(1) d(1) zero by (simp add: s int_of_literal_def parse_int64_def)
qed

subsection \<open>The line of a declaration\<close>

lemma prompt_text: "prompt_ok s \<Longrightarrow> strconv_quote s = QuoteString s"
  unfolding prompt_ok_def strconv_quote_def QuoteString_def by (induction s) simp_all

lemma fv: "FormatValue (VStr s) = QuoteString s"
  "FormatValue (VBool b) = (if b then ''true'' else ''false'')"
  by (simp_all add: FormatValue_def)

lemma scan_value:
  "value_ok v \<Longrightarrow> v \<noteq> VNil \<Longrightarrow> scan ('' = '' @ FormatValue v @ NL # rest) = value_kinds v @ nl_kind # scan rest"
  by (cases v) (auto simp: value_ok_def value_kinds_def scan_quoted scan_words scan_number fv split: if_splits)

lemma scan_type:
  assumes "config_ok ty opts v" "ty \<noteq> []" "word_end rest"
  shows "scan (configTypeKeyword ty @ (if ty = ''select'' \<and> opts \<noteq> [] then ''('' @ join '', '' (map QuoteString opts) @ '')'' else []) @ rest)
    = type_kinds ty opts @ scan rest"
  using assms scan_items [of opts QuoteString "\<lambda>s. [(STRING, s)]" "CHR '')'' # rest"]
  by (auto simp: config_ok_def type_kinds_def configTypeKeyword_def scan_words scan_quoted split: if_splits)

lemma to_upper_source: "to_upper ''secret'' = ''SECRET''" "to_upper ''text'' = ''TEXT''"
  by code_simp+

lemma cap_word_scan: "cap_word w \<Longrightarrow> word_end rest \<Longrightarrow> scan (w @ rest) = (LookupIdent w, w) # scan rest"
  by (simp add: cap_word_def scan_name)

lemma join_split_on: "join [c] (split_on c v) = v"
proof (induction v)
  case (Cons x v)
  have "split_on c v \<noteq> []" by (induction v) (auto split: list.split)
  then obtain w ws where w: "split_on c v = w # ws" by (cases "split_on c v") auto
  with Cons show ?case by (cases ws) auto
qed simp

lemma scan_commas:
  assumes "list_all cap_word ws" "word_end rest"
  shows "scan (join '','' ws @ rest) = join_kinds (map (\<lambda>w. [(LookupIdent w, w)]) ws) @ scan rest"
  using assms by (induction ws rule: induct_list012) (simp_all add: cap_word_scan)

lemma scan_cap: "cap_ok axis v \<Longrightarrow> word_end rest \<Longrightarrow> scan (v @ rest) = cap_kinds axis v @ scan rest"
  using scan_commas [of "split_on (CHR '','') v" rest]
  by (auto simp: cap_ok_def cap_kinds_def cap_word_scan join_split_on split: if_splits)

lemma scan_mount: "mount_ok m \<Longrightarrow> word_end r \<Longrightarrow> scan (write_mount m @ r) = mount_kinds m @ scan r"
  by (auto simp: mount_ok_def write_mount_def mount_kinds_def scan_ident scan_plain)

lemma scan_args: "scan (concat (map (\<lambda>a. '' '' @ QuoteString a) args) @ rest) = map (\<lambda>a. (STRING, a)) args @ scan rest"
  by (induction args) (simp_all add: scan_quoted)

lemma scan_target: "target \<in> {''ENV'', ''SKILLS'', ''CONFIG'', ''arg'', ''file''} \<Longrightarrow> word_end rest \<Longrightarrow>
    scan (target @ rest) = (LookupIdent target, target) # scan rest"
  using keyword_names by (intro scan_name) (auto simp: declarationKeywords_def buildKeywords_def)

lemma plain_names: "name_ok ''after_first''" "name_ok ''prepend''" "name_ok ''append''" "name_ok ''none''"
  by code_simp+

lemma scan_positions:
  assumes "word_end s" "mode \<in> {''prepend'', ''append'', ''none'', ''after_first''}"
  shows "scan (mode @ s) = (LookupIdent mode, mode) # scan s"
  using assms plain_names by (intro scan_name) auto

lemma scan_env:
  "env_ok source v ve w opt \<Longrightarrow> scan ((if source \<noteq> [] then '' '' @ to_upper source @ (if opt then '' OPTIONAL'' else [])
      else (case ve of Some e \<Rightarrow> '' = '' @ serializeExpr e @ writeWhen w | None \<Rightarrow> '' = '' @ QuoteString v)) @ NL # rest)
    = env_kinds source v ve w opt @ nl_kind # scan rest"
  by (auto simp: env_ok_def env_kinds_def to_upper_source scan_words scan_quoted scan_expr writeWhen_end scan_when
      split: option.splits if_splits)

lemma scan_decl: "decl_ok d \<Longrightarrow> scan (writeDecl d @ NL # rest) = decl_line d @ scan rest"
proof (cases d)
  case (ConfigDecl name ty opts v p)
  assume ok: "decl_ok d"
  let ?v = "if v \<noteq> VNil then '' = '' @ FormatValue v else []"
  have v: "scan (?v @ NL # rest) = value_kinds v @ nl_kind # scan rest" "word_end (?v @ NL # rest)"
    using ok scan_value [of v rest] by (auto simp: ConfigDecl value_kinds_def)
  show ?thesis
    using ok v scan_type [of ty opts v "?v @ NL # rest"]
    by (auto simp: ConfigDecl writeConfigDecl_def scan_words scan_ident type_kinds_def)
next
  case (SkillsDecl slugs p)
  assume "decl_ok d"
  then have "scan (join '', '' (map (\<lambda>s. s) slugs) @ NL # rest) = join_kinds (map (\<lambda>s. [(IDENT, s)]) slugs) @ scan (NL # rest)"
    by (intro scan_items) (auto simp: SkillsDecl list_all_iff scan_ident)
  then show ?thesis by (simp add: SkillsDecl scan_words)
next
  case (KnowledgeDecl mounts p)
  assume "decl_ok d"
  then have "scan (join '', '' (map write_mount mounts) @ NL # rest) = join_kinds (map mount_kinds mounts) @ scan (NL # rest)"
    by (intro scan_items) (auto simp: KnowledgeDecl list_all_iff scan_mount)
  then show ?thesis by (simp add: KnowledgeDecl writeKnowledgeDecl_def scan_words)
next
  case (EnvDecl name source v ve w opt p)
  assume ok: "decl_ok d"
  let ?t = "(if source \<noteq> [] then '' '' @ to_upper source @ (if opt then '' OPTIONAL'' else [])
      else (case ve of Some e \<Rightarrow> '' = '' @ serializeExpr e @ writeWhen w | None \<Rightarrow> '' = '' @ QuoteString v)) @ NL # rest"
  have "word_end ?t" by (simp split: option.split)
  then have "scan (name @ ?t) = (IDENT, name) # env_kinds source v ve w opt @ nl_kind # scan rest"
    using ok scan_env [of source v ve w opt rest] by (simp only: EnvDecl decl_ok.simps scan_ident)
  then show ?thesis by (simp add: EnvDecl writeEnvDecl_def scan_words)
next
  case (SetupDecl script timeout p)
  assume ok: "decl_ok d"
  have "\<exists>c cs. show_int timeout = c # cs \<and> is_digit c"
    using ok timeout_number(1) [of timeout] by (cases "show_int timeout") (auto simp: SetupDecl number_ok_def isDigit_def)
  then obtain c cs where c: "show_int timeout = c # cs" "is_digit c" by blast
  have "scan (show_int timeout @ SP # heredoc_text script @ NL # rest) = (NUMBER, show_int timeout) # scan (heredoc_text script @ NL # rest)"
    using ok timeout_number(1) [of timeout] by (subst scan_number) (simp_all add: SetupDecl)
  moreover have "scan (heredoc_text script @ NL # rest) =
      (HEREDOC_START, chooseHeredocMarker script) # (HEREDOC_BODY, script) # scan rest"
    using ok scan_heredoc [of script "NL # rest"] by (simp add: SetupDecl line_end_def)
  ultimately show ?thesis
    using c by (auto simp: SetupDecl writeSetupDecl_def scan_words scan_plain scan_assign_digit)
next
  case (CapabilityDecl axis v p)
  assume ok: "decl_ok d"
  then show ?thesis
    using scan_cap [of axis v "NL # rest"] by (auto simp: CapabilityDecl scan_words scan_ident cap_ok_def)
next
  case (RemoveDecl target name p)
  assume ok: "decl_ok d"
  then show ?thesis
    using scan_target [of target "SP # QuoteString name @ NL # rest"]
    by (simp add: RemoveDecl scan_words scan_quoted del: insert_iff)
next
  case (ModeDecl mode p)
  assume "decl_ok d"
  then show ?thesis by (auto simp: ModeDecl scan_words scan_plain)
next
  case (ModeArgsDecl mode args p)
  assume "decl_ok d"
  moreover have "word_end (concat (map (\<lambda>a. SP # QuoteString a) args) @ NL # rest)" by (cases args) simp_all
  ultimately show ?thesis
    using scan_args [of args "NL # rest"] by (auto simp: ModeArgsDecl scan_words scan_plain)
next
  case (PromptPositionDecl mode p)
  assume "decl_ok d"
  then show ?thesis
    using scan_positions [of "NL # rest" mode] by (simp add: PromptPositionDecl scan_words del: insert_iff)
qed (auto simp: scan_words scan_plain scan_bare scan_expr scan_ident scan_quoted writeMcpDecl_def prompt_text)

end
