(* ===== verification/AgentRoundParse.thy ===== *)
theory AgentRoundParse
  imports AgentRoundDecl
begin

text \<open>
  The parser on the tokens of a printed declaration: it returns the declaration, at the position
  of its keyword, takes the line and finds no error.
\<close>

subsection \<open>Lines\<close>

lemma isNewlineOrEnd_head [on_kinds]: "isNewlineOrEnd p \<longleftrightarrow> head (pk p) \<in> {EOF, NEWLINE, COMMENT}"
  by (auto simp: isNewlineOrEnd_def on_kinds)

lemma expectNewline_match [on_kinds]:
  assumes "head (pk p) = NEWLINE"
  shows "expectNewline p = advance p"
proof -
  have "dropWhile (\<lambda>t. tok_type t = COMMENT) (toks p) = toks p"
    using assms by (cases "toks p") (simp_all add: kind_def)
  then show ?thesis using assms by (simp add: expectNewline_def Let_def on_kinds)
qed

lemma parses_Some: "parses (Some r) p x ks \<longleftrightarrow> fst r = x \<and> pk (snd r) = ks \<and> errors (snd r) = errors p"
  by (cases r) (auto simp: parses_def)

lemma parses_SomeE:
  assumes "parses (Some r) p x ks"
  obtains q where "r = (x, q)" "pk q = ks" "errors q = errors p"
  using assms by (cases r) (auto simp: parses_def)

lemma join_kinds_Cons: "join_kinds (k # ks) = k @ (if ks = [] then [] else (COMMA, '','') # join_kinds ks)"
  by (cases ks) simp_all

text \<open>A step of a loop over a list with commas.\<close>

lemma pk_skip_comma:
  assumes "pk p = (if xs = [] then [] else (COMMA, '','') # ys) @ k # ks" "fst k \<noteq> COMMA" "xs = [] \<Longrightarrow> ys = []"
  shows "pk (skip_comma p) = ys @ k # ks" "errors (skip_comma p) = errors p"
  using assms by (auto simp: on_kinds)

lemma slugs_loop_parses:
  "pk p = join_kinds (map (\<lambda>s. [(IDENT, s)]) slugs) @ nl_kind # ks \<Longrightarrow>
   parses (Some (slugs_loop acc p)) p (acc @ slugs) (nl_kind # ks)"
proof (induction slugs arbitrary: acc p)
  case Nil
  then show ?case by (simp add: parses_Some slugs_loop.simps [of acc p] on_kinds)
next
  case (Cons s slugs)
  let ?q = "skip_comma (advance p)"
  have "pk (advance p) = (if slugs = [] then [] else (COMMA, '','') # join_kinds (map (\<lambda>s. [(IDENT, s)]) slugs)) @ nl_kind # ks"
    using Cons.prems by (simp add: on_kinds join_kinds_Cons)
  from pk_skip_comma [OF this] have q: "pk ?q = join_kinds (map (\<lambda>s. [(IDENT, s)]) slugs) @ nl_kind # ks"
    "errors ?q = errors p" by (simp_all add: on_kinds)
  have "slugs_loop acc p = slugs_loop (acc @ [s]) ?q"
    using Cons.prems by (simp add: slugs_loop.simps [of acc p] on_kinds join_kinds_Cons)
  then show ?case using Cons.IH [OF q(1), of "acc @ [s]"] q(2) by (simp add: parses_Some)
qed

lemma select_loop_parses:
  "pk p = join_kinds (map (\<lambda>s. [(STRING, s)]) opts) @ (RPAREN, t) # ks \<Longrightarrow>
   parses (Some (select_loop acc p)) p (acc @ opts) ((RPAREN, t) # ks)"
proof (induction opts arbitrary: acc p)
  case Nil
  then show ?case by (simp add: parses_Some select_loop.simps [of acc p] on_kinds)
next
  case (Cons s opts)
  let ?q = "skip_comma (advance p)"
  have "pk (advance p) = (if opts = [] then [] else (COMMA, '','') # join_kinds (map (\<lambda>s. [(STRING, s)]) opts)) @ (RPAREN, t) # ks"
    using Cons.prems by (simp add: on_kinds join_kinds_Cons)
  from pk_skip_comma [OF this] have q: "pk ?q = join_kinds (map (\<lambda>s. [(STRING, s)]) opts) @ (RPAREN, t) # ks"
    "errors ?q = errors p" by (simp_all add: on_kinds)
  have "select_loop acc p = select_loop (acc @ [s]) ?q"
    using Cons.prems by (simp add: select_loop.simps [of acc p] on_kinds join_kinds_Cons)
  then show ?case using Cons.IH [OF q(1), of "acc @ [s]"] q(2) by (simp add: parses_Some)
qed

lemma mode_args_loop_parses:
  "pk p = map (\<lambda>a. (STRING, a)) args @ nl_kind # ks \<Longrightarrow>
   parses (Some (mode_args_loop acc p)) p (acc @ args) (nl_kind # ks)"
proof (induction args arbitrary: acc p)
  case Nil
  then show ?case by (simp add: parses_Some mode_args_loop.simps [of acc p] on_kinds)
next
  case (Cons s args)
  have q: "pk (advance p) = map (\<lambda>a. (STRING, a)) args @ nl_kind # ks" "errors (advance p) = errors p"
    using Cons.prems by (simp_all add: on_kinds)
  have "mode_args_loop acc p = mode_args_loop (acc @ [s]) (advance p)"
    using Cons.prems by (simp add: mode_args_loop.simps [of acc p] on_kinds)
  then show ?case using Cons.IH [OF q(1), of "acc @ [s]"] q(2) by (simp add: parses_Some)
qed

lemma mounts_loop_parses:
  "list_all mount_ok mounts \<Longrightarrow> pk p = join_kinds (map mount_kinds mounts) @ nl_kind # ks \<Longrightarrow>
   parses (Some (mounts_loop acc p)) p (acc @ mounts) (nl_kind # ks)"
proof (induction mounts arbitrary: acc p)
  case Nil
  then show ?case by (simp add: parses_Some mounts_loop.simps [of acc p] on_kinds)
next
  case (Cons m mounts)
  let ?rest = "(if mounts = [] then [] else (COMMA, '','') # join_kinds (map mount_kinds mounts)) @ nl_kind # ks"
  have pk: "pk p = (IDENT, mount_slug m)
      # (if mount_mode m = ''rw'' then [(LBRACKET, ''[''), (IDENT, ''rw''), (RBRACKET, '']'')] else []) @ ?rest"
    using Cons.prems(2) by (simp add: join_kinds_Cons mount_kinds_def [of m])
  have mode: "mount_mode m = ''ro'' \<or> mount_mode m = ''rw''" using Cons.prems(1) by (simp add: mount_ok_def)
  obtain q where q: "parse_mount_mode (mount_slug m) (advance p) = (mount_mode m, q)" "pk q = ?rest" "errors q = errors p"
    using mode
  proof
    assume "mount_mode m = ''ro''"
    then show ?thesis using pk by (intro that [of "advance p"]) (auto simp: parse_mount_mode_def on_kinds)
  next
    assume "mount_mode m = ''rw''"
    then show ?thesis
      using pk by (intro that [of "advance (advance (advance (advance p)))"]) (simp_all add: parse_mount_mode_def on_kinds)
  qed
  from pk_skip_comma [OF q(2)] have r: "pk (skip_comma q) = join_kinds (map mount_kinds mounts) @ nl_kind # ks"
    "errors (skip_comma q) = errors p" by (simp_all add: q(3))
  have "mounts_loop acc p = mounts_loop (acc @ [m]) (skip_comma q)"
    using pk q(1) by (cases m) (simp add: mounts_loop.simps [of acc p] on_kinds)
  then show ?case using Cons.IH [OF _ r(1), of "acc @ [m]"] Cons.prems(1) r(2) by (simp add: parses_Some)
qed

subsection \<open>Capabilities\<close>

definition cap_tokens :: "tkind list \<Rightarrow> bool" where
  "cap_tokens ks \<longleftrightarrow> list_all (\<lambda>k. fst k \<in> {IDENT, STRING, TRUE, FALSE, KW_NONE} \<or> k = (COMMA, '','')) ks"

lemma capability_loop_parses:
  "cap_tokens cs \<Longrightarrow> pk p = cs @ nl_kind # ks \<Longrightarrow>
   parses (Some (capability_loop axis acc p)) p (acc @ map snd cs) (nl_kind # ks)"
proof (induction cs arbitrary: acc p)
  case Nil
  then show ?case by (simp add: parses_Some capability_loop.simps [of axis acc p] on_kinds)
next
  case (Cons c cs)
  have q: "pk (advance p) = cs @ nl_kind # ks" "errors (advance p) = errors p"
    using Cons.prems(2) by (simp_all add: on_kinds)
  have l: "literal (current p) = snd c" using Cons.prems(2) by (intro current_literal [of _ "fst c"]) simp
  have "capability_loop axis acc p = capability_loop axis (acc @ [snd c]) (advance p)"
    using Cons.prems l by (auto simp: capability_loop.simps [of axis acc p] on_kinds cap_tokens_def Let_def)
  moreover have "cap_tokens cs" using Cons.prems(1) by (simp add: cap_tokens_def)
  ultimately show ?case using Cons.IH [OF _ q(1), of "acc @ [snd c]"] q(2) by (simp add: parses_Some)
qed

lemma concat_cap_words: "concat (map snd (join_kinds (map (\<lambda>w. [(LookupIdent w, w)]) ws))) = join '','' ws"
  by (induction ws rule: induct_list012) simp_all

lemma cap_tokens_words: "list_all cap_word ws \<Longrightarrow> cap_tokens (join_kinds (map (\<lambda>w. [(LookupIdent w, w)]) ws))"
  by (induction ws rule: induct_list012) (auto simp: cap_tokens_def cap_word_def)

lemma cap_kinds_parse:
  assumes "cap_ok axis v"
  shows "cap_tokens (cap_kinds axis v)" "capability_value axis (map snd (cap_kinds axis v)) = v"
  using assms by (auto simp: cap_ok_def cap_kinds_def cap_tokens_words concat_cap_words join_split_on
      capability_value_def) (auto simp: cap_tokens_def cap_word_def)

subsection \<open>Declarations\<close>

text \<open>What may follow a line: not a newline or a comment, which the parser skips after a heredoc,
  and nothing the line could take.\<close>

definition line_start :: "tkind list \<Rightarrow> bool" where
  "line_start ks \<longleftrightarrow> head ks \<notin> {NEWLINE, COMMENT, NUMBER, KW_WHEN, KW_ELSE} \<and> follow 1 ks"

definition reads_decl :: "nat \<Rightarrow> parser \<Rightarrow> decl \<Rightarrow> tkind list \<Rightarrow> bool" where
  "reads_decl n p d ks \<longleftrightarrow> (\<exists>d' q. tryParseDeclaration n p = Some (Some d', q) \<and> erase_decl d' = erase_decl d \<and>
     pk q = ks \<and> errors q = errors p)"

lemma parse_when_parses:
  assumes "case w of None \<Rightarrow> True | Some c \<Rightarrow> expr_ok c" "pk p = when_kinds w @ k # ks" "follow 1 (k # ks)"
    "fst k \<noteq> KW_WHEN" "length (toks p) \<le> n"
  obtains q where "parse_when n p = Some (w, q)" "pk q = k # ks" "errors q = errors p"
proof (cases w)
  case None
  with assms that [of p] show thesis by (simp add: parse_when_def when_kinds_def on_kinds)
next
  case (Some c)
  have pk: "pk p = (KW_WHEN, ''when'') # expr_kinds c @ k # ks" using assms(2) by (simp add: when_kinds_def Some)
  have "length (pk (advance p)) < length (pk p)" by (simp add: pk on_kinds)
  then have "length (toks (advance p)) < n" using assms(5) by simp
  then obtain q where "parse_expr n (advance p) = Some (c, q)" "pk q = k # ks" "errors q = errors p"
    using parse_expr_parses [of c "advance p" "k # ks" n] assms(1,3) pk by (auto simp: Some on_kinds)
  with that [of q] pk show thesis by (simp add: parse_when_def on_kinds Some)
qed

lemma parse_config_type_parses:
  assumes "config_ok ty opts v" "pk p = type_kinds ty opts @ k # ks"
    "fst k = (if v = VNil then NEWLINE else ASSIGN)"
  obtains q where "parse_config_type p = (ty, opts, q)" "pk q = k # ks" "errors q = errors p"
proof (cases "ty = ''select''")
  case True
  have pk: "pk p = (KW_SELECT, ''SELECT'') # (LPAREN, ''('') # join_kinds (map (\<lambda>s. [(STRING, s)]) opts) @ (RPAREN, '')'') # k # ks"
    using assms(2) True by (simp add: type_kinds_def)
  have "pk (advance (advance p)) = join_kinds (map (\<lambda>s. [(STRING, s)]) opts) @ (RPAREN, '')'') # k # ks"
    by (simp add: pk on_kinds)
  from select_loop_parses [OF this, of "[]"] obtain q where q: "select_loop [] (advance (advance p)) = (opts, q)"
    "pk q = (RPAREN, '')'') # k # ks" "errors q = errors p"
    by (auto simp: on_kinds elim!: parses_SomeE)
  then show thesis
    using pk by (intro that [of "advance q"]) (simp_all add: parse_config_type_def parseSelectOptions_def on_kinds True)
next
  case False
  then show thesis
    using assms by (intro that [of "if ty = [] then p else advance p"])
      (auto simp: config_ok_def type_kinds_def parse_config_type_def on_kinds split: if_splits)
qed

lemma reads_declI:
  assumes "map_option (apfst (map_option erase_decl)) (tryParseDeclaration n p) = Some (Some (erase_decl d), q)"
    "pk q = ks" "errors q = errors p"
  shows "reads_decl n p d ks"
  using assms unfolding reads_decl_def by (auto simp: map_option_case split: option.splits)

lemmas decl_parsers = tryParseDeclaration_def some_decl_def Let_def on_kinds parseAgentDecl_def
  parseExecutableDecl_def parseGitCredentialDecl_def parseUseEnvBundleDecl_def parseUseConfigBundleDecl_def
  parsePromptDecl_def parsePromptPositionDecl_def parseModeDecl_def parseMcpDecl_def parse_mcp_switch_def
  parseRemoveDecl_def

lemma parse_config_decl:
  assumes "decl_ok (ConfigDecl name ty opts v l)" "pk p = decl_line (ConfigDecl name ty opts v l) @ ks"
  shows "reads_decl n p (ConfigDecl name ty opts v l) ks"
proof -
  obtain k ks' where k: "value_kinds v @ nl_kind # ks = k # ks'" "fst k = (if v = VNil then NEWLINE else ASSIGN)"
    using assms(1) by (cases v) (auto simp: value_kinds_def value_ok_def)
  have pk: "pk p = (KW_CONFIG, ''CONFIG'') # (IDENT, name) # type_kinds ty opts @ k # ks'"
    using assms(2) by (simp add: k(1) [symmetric])
  have "pk (advance (advance p)) = type_kinds ty opts @ k # ks'" by (simp add: pk on_kinds)
  from parse_config_type_parses [OF _ this k(2)] assms(1)
  obtain q where q: "parse_config_type (advance (advance p)) = (ty, opts, q)" "pk q = value_kinds v @ nl_kind # ks"
    "errors q = errors p" unfolding k(1) by (auto simp: on_kinds)
  obtain r where r: "(if currentIs ASSIGN q then parseLiteralValue (advance q) else (VNil, q)) = (v, r)"
    "pk r = nl_kind # ks" "errors r = errors p"
  proof (cases v)
    case VNil
    with q that [of q] show thesis by (simp add: value_kinds_def on_kinds)
  next
    case (VFloat f)
    have "pk (advance q) = (NUMBER, FormatValue v) # nl_kind # ks" using q(2) VFloat by (simp add: value_kinds_def on_kinds)
    then show thesis using q assms(1) VFloat
      by (intro that [of "advance (advance q)"])
        (simp_all add: value_kinds_def on_kinds parseLiteralValue_def Let_def current_literal value_ok_def del: FormatValue_def)
  qed (use q assms(1) in \<open>auto simp: value_kinds_def on_kinds parseLiteralValue_def Let_def current_literal value_ok_def
      intro!: that [of "advance (advance q)"]\<close>)
  show ?thesis
    using pk q r by (intro reads_declI [of n p _ "advance r"])
      (simp_all add: decl_parsers parseConfigDecl_def)
qed

lemma parse_env_decl:
  assumes "decl_ok (EnvDecl name source v ve w opt l)" "pk p = decl_line (EnvDecl name source v ve w opt l) @ ks"
    "length (toks p) < n"
  shows "reads_decl n p (EnvDecl name source v ve w opt l) ks"
proof (cases "source = []")
  case False
  let ?q = "advance (advance (advance p))"
  show ?thesis
    using assms False
    by (intro reads_declI [of n p _ "advance (if opt then advance ?q else ?q)"])
      (auto simp: decl_parsers parseEnvDecl_def parse_optional_def env_ok_def env_kinds_def)
next
  case True
  let ?e = "case ve of Some e \<Rightarrow> e | None \<Rightarrow> StringLit v"
  let ?q = "advance (advance (advance p))"
  have ok: "expr_ok ?e" "case w of None \<Rightarrow> True | Some c \<Rightarrow> expr_ok c"
    "env_value ?e (w \<noteq> None) = (v, ve)" "\<not> opt"
    using assms(1) True by (auto simp: env_ok_def env_value_def split: option.splits expr.splits)
  have pk: "pk p = (KW_ENV, ''ENV'') # (IDENT, name) # (ASSIGN, ''='') # expr_kinds ?e @ when_kinds w @ nl_kind # ks"
    using assms(1,2) True by (auto simp: env_kinds_def env_ok_def when_kinds_def split: option.splits)
  have q: "pk ?q = expr_kinds ?e @ when_kinds w @ nl_kind # ks" "errors ?q = errors p" by (simp_all add: pk on_kinds)
  have "length (pk ?q) < length (pk p)" unfolding q(1) pk by simp
  then have len: "length (toks ?q) < n" using assms(3) by simp
  have "follow 1 (when_kinds w @ nl_kind # ks)" by (simp add: when_kinds_def split: option.split)
  then obtain r where r: "parse_expr n ?q = Some (?e, r)" "pk r = when_kinds w @ nl_kind # ks" "errors r = errors p"
    using parse_expr_parses [OF ok(1) q(1) _ len] q(2) by metis
  have "length (pk r) \<le> length (pk ?q)" unfolding q(1) r(2) by simp
  then have "length (toks r) \<le> n" using len by simp
  then obtain t where t: "parse_when n r = Some (w, t)" "pk t = nl_kind # ks" "errors t = errors p"
    using parse_when_parses [OF ok(2) r(2)] r(3) by auto
  have "currentIs KW_WHEN r \<longleftrightarrow> w \<noteq> None" by (auto simp: on_kinds r(2) when_kinds_def split: option.splits)
  then show ?thesis
    using pk r t ok True
    by (intro reads_declI [of n p _ "advance t"]) (simp_all add: decl_parsers parseEnvDecl_def)
qed

lemma parse_setup_decl:
  assumes "decl_ok (SetupDecl script timeout l)" "pk p = decl_line (SetupDecl script timeout l) @ ks" "line_start ks"
  shows "reads_decl n p (SetupDecl script timeout l) ks"
proof -
  let ?m = "chooseHeredocMarker script"
  obtain q where q: "parse_timeout (advance p) = (timeout, q)" "errors q = errors p"
    "pk q = (HEREDOC_START, ?m) # (HEREDOC_BODY, script) # ks"
  proof (cases "timeout = 300")
    case True
    then show thesis using assms(2) by (intro that [of "advance p"]) (simp_all add: parse_timeout_def on_kinds)
  next
    case False
    have pk: "pk (advance p) = (IDENT, ''timeout'') # (ASSIGN, ''='') # (NUMBER, show_int timeout)
        # (HEREDOC_START, ?m) # (HEREDOC_BODY, script) # ks"
      using assms(2) False by (simp add: on_kinds)
    moreover have "pk (advance (advance (advance p))) = (NUMBER, show_int timeout)
        # (HEREDOC_START, ?m) # (HEREDOC_BODY, script) # ks"
      using pk by (simp add: pk_advance)
    ultimately show thesis using assms(1) timeout_number(2) [of timeout]
      by (intro that [of "advance (advance (advance (advance p)))"])
        (simp_all add: parse_timeout_def on_kinds current_literal expectInt_def Let_def)
  qed
  have "pk (advance q) = (HEREDOC_BODY, script) # ks" by (simp add: on_kinds q(3))
  then have s: "parse_setup_script q = (script, advance (advance q))"
    using q(3) by (simp add: parse_setup_script_def on_kinds Let_def current_literal)
  have "skipNewlines (advance (advance q)) = advance (advance q)"
    using assms(3) by (intro skipNewlines_stay) (auto simp: on_kinds q(3) line_start_def)
  then show ?thesis
    using assms(2) q s
    by (intro reads_declI [of n p _ "advance (advance q)"]) (simp_all add: decl_parsers parseSetupDecl_def)
qed

lemma parse_expr_line:
  assumes "expr_ok e" "pk p = k # expr_kinds e @ nl_kind # ks" "length (toks p) < n"
  obtains q where "parse_expr n (advance p) = Some (e, q)" "pk q = nl_kind # ks" "errors q = errors p"
proof -
  have q: "pk (advance p) = expr_kinds e @ nl_kind # ks" by (simp add: on_kinds assms(2))
  have "length (pk (advance p)) < length (pk p)" unfolding q assms(2) by simp
  then have "length (toks (advance p)) < n" using assms(3) by simp
  then show thesis using parse_expr_parses [OF assms(1) q] that by (auto simp: on_kinds)
qed

lemma target_words:
  "list_all (\<lambda>t. remove_target (LookupIdent t) = Some t) [''ENV'', ''SKILLS'', ''CONFIG'', ''arg'', ''file'']"
  by code_simp

lemma position_words:
  "map LookupIdent [''prepend'', ''append'', ''none'', ''after_first''] = [KW_PREPEND, KW_APPEND, KW_NONE, IDENT]"
  by code_simp

lemma parse_decl:
  assumes "decl_ok d" "pk p = decl_line d @ ks" "line_start ks" "length (toks p) < n"
  shows "reads_decl n p d ks"
proof (cases d)
  case (ConfigDecl name ty opts v l)
  then show ?thesis using parse_config_decl assms by metis
next
  case (EnvDecl name source v ve w opt l)
  then show ?thesis using parse_env_decl assms by metis
next
  case (SetupDecl script timeout l)
  then show ?thesis using parse_setup_decl assms by metis
next
  case (RepoDecl e l)
  then obtain q where "parse_expr n (advance p) = Some (e, q)" "pk q = nl_kind # ks" "errors q = errors p"
    using parse_expr_line [of e p _ ks n] assms by auto
  then show ?thesis using assms RepoDecl
    by (intro reads_declI [of n p _ "advance q"]) (simp_all add: decl_parsers parseRepoDecl_def)
next
  case (BranchDecl e l)
  then obtain q where "parse_expr n (advance p) = Some (e, q)" "pk q = nl_kind # ks" "errors q = errors p"
    using parse_expr_line [of e p _ ks n] assms by auto
  then show ?thesis using assms BranchDecl
    by (intro reads_declI [of n p _ "advance q"]) (simp_all add: decl_parsers parseBranchDecl_def)
next
  case (SkillsDecl slugs l)
  then have "pk (advance p) = join_kinds (map (\<lambda>s. [(IDENT, s)]) slugs) @ nl_kind # ks"
    using assms by (simp add: on_kinds)
  from slugs_loop_parses [OF this, of "[]"] obtain q where
    "slugs_loop [] (advance p) = (slugs, q)" "pk q = nl_kind # ks" "errors q = errors p"
    by (auto simp: on_kinds elim!: parses_SomeE)
  then show ?thesis using assms SkillsDecl
    by (intro reads_declI [of n p _ "advance q"]) (simp_all add: decl_parsers parseSkillsDecl_def)
next
  case (KnowledgeDecl mounts l)
  then have "pk (advance p) = join_kinds (map mount_kinds mounts) @ nl_kind # ks" "list_all mount_ok mounts"
    using assms by (simp_all add: on_kinds)
  from mounts_loop_parses [OF this(2,1), of "[]"] obtain q where
    "mounts_loop [] (advance p) = (mounts, q)" "pk q = nl_kind # ks" "errors q = errors p"
    by (auto simp: on_kinds elim!: parses_SomeE)
  then show ?thesis using assms KnowledgeDecl
    by (intro reads_declI [of n p _ "advance q"]) (simp_all add: decl_parsers parseKnowledgeDecl_def)
next
  case (CapabilityDecl axis v l)
  then have pk: "pk p = (KW_CAPABILITY, ''CAPABILITY'') # (IDENT, axis) # cap_kinds axis v @ nl_kind # ks"
    and ok: "cap_ok axis v" using assms by simp_all
  have "pk (advance (advance p)) = cap_kinds axis v @ nl_kind # ks" by (simp add: pk on_kinds)
  from capability_loop_parses [OF cap_kinds_parse(1) [OF ok] this, of axis "[]"] obtain q where
    "capability_loop axis [] (advance (advance p)) = (map snd (cap_kinds axis v), q)" "pk q = nl_kind # ks"
    "errors q = errors p" by (auto simp: on_kinds elim!: parses_SomeE)
  then show ?thesis using pk ok CapabilityDecl
    by (intro reads_declI [of n p _ "advance q"])
      (simp_all add: decl_parsers parseCapabilityDecl_def cap_kinds_parse cap_ok_def)
next
  case (ModeArgsDecl mode args l)
  then have pk: "pk p = (KW_MODE, ''MODE'') # (IDENT, mode) # map (\<lambda>a. (STRING, a)) args @ nl_kind # ks"
    "mode \<in> {''pty'', ''acp''}" "args \<noteq> []" using assms by auto
  have q: "pk (advance (advance p)) = map (\<lambda>a. (STRING, a)) args @ nl_kind # ks" by (simp add: pk on_kinds)
  have "head (pk (advance (advance p))) = STRING" unfolding q using pk(3) by (cases args) simp_all
  moreover from mode_args_loop_parses [OF q, of "[]"] obtain r where
    "mode_args_loop [] (advance (advance p)) = (args, r)" "pk r = nl_kind # ks" "errors r = errors p"
    by (auto simp: on_kinds elim!: parses_SomeE)
  ultimately show ?thesis using pk ModeArgsDecl
    by (intro reads_declI [of n p _ "advance r"]) (auto simp: decl_parsers)
next
  case (McpDecl enabled format l)
  let ?q = "advance (advance p)"
  show ?thesis using assms McpDecl
    by (intro reads_declI [of n p _ "advance (if enabled \<and> format \<noteq> [] then advance (advance ?q) else ?q)"])
      (auto simp: decl_parsers current_literal)
next
  case (RemoveDecl target name l)
  have "remove_target (LookupIdent target) = Some target"
    using assms(1) target_words by (auto simp: RemoveDecl)
  then show ?thesis using assms(2) RemoveDecl
    by (intro reads_declI [of n p _ "advance (advance (advance (advance p)))"]) (simp_all add: decl_parsers)
next
  case (PromptPositionDecl mode l)
  have "LookupIdent mode \<in> {KW_PREPEND, KW_APPEND, KW_NONE} \<or> LookupIdent mode = IDENT \<and> mode = ''after_first''"
    using assms(1) position_words by (auto simp: PromptPositionDecl)
  then show ?thesis using assms(2) PromptPositionDecl
    by (intro reads_declI [of n p _ "advance (advance (advance p))"]) (auto simp: decl_parsers current_literal)
next
  case (ModeDecl mode l)
  then show ?thesis using assms(1,2)
    by (intro reads_declI [of n p _ "advance (advance (advance p))"]) (auto simp: decl_parsers)
next
  case (PromptDecl mode l)
  then show ?thesis using assms(1,2)
    by (intro reads_declI [of n p _ "advance (advance (advance p))"]) (auto simp: decl_parsers)
next
  case (AgentDecl mode l)
  then show ?thesis using assms(1,2)
    by (intro reads_declI [of n p _ "advance (advance (advance p))"]) (auto simp: decl_parsers bare_kind_def)
next
  case (ExecutableDecl mode l)
  then show ?thesis using assms(1,2)
    by (intro reads_declI [of n p _ "advance (advance (advance p))"]) (auto simp: decl_parsers bare_kind_def)
next
  case (GitCredentialDecl mode l)
  then show ?thesis using assms(1,2)
    by (intro reads_declI [of n p _ "advance (advance (advance p))"]) (auto simp: decl_parsers bare_kind_def)
next
  case (UseEnvBundleDecl mode l)
  then show ?thesis using assms(1,2)
    by (intro reads_declI [of n p _ "advance (advance (advance p))"]) (auto simp: decl_parsers bare_kind_def)
next
  case (UseConfigBundleDecl mode l)
  then show ?thesis using assms(1,2)
    by (intro reads_declI [of n p _ "advance (advance (advance p))"]) (auto simp: decl_parsers bare_kind_def)
qed

end
