(* ===== verification/AgentRoundtrip.thy ===== *)
theory AgentRoundtrip
  imports AgentRoundParse AgentMergeProps AgentParserTotal
begin

text \<open>
  Parsing what \<open>Serialize\<close> prints gives the program back, up to the positions. This is what the
  layering of Agentfiles rests on: the base and the layer are merged as programs, the merged
  program is stored as source, and the source is parsed and evaluated again.
\<close>

subsection \<open>Statements without positions, and what prints faithfully\<close>

fun erase_stmt :: "stmt \<Rightarrow> stmt" where
  "erase_stmt (ArgStmt a w _) = ArgStmt a w (0, 0)"
| "erase_stmt (FileStmt a b c w _) = FileStmt a b c w (0, 0)"
| "erase_stmt (MkdirStmt a _) = MkdirStmt a (0, 0)"
| "erase_stmt (AssignStmt a b _) = AssignStmt a b (0, 0)"
| "erase_stmt (IfStmt c b els _) = IfStmt c (map erase_stmt b) (map_option (map erase_stmt) els) (0, 0)"
| "erase_stmt (ForStmt k v i b _) = ForStmt k v i (map erase_stmt b) (0, 0)"

definition erase_program :: "program \<Rightarrow> program" where
  "erase_program prog = \<lparr>Declarations = map erase_decl (Declarations prog),
     Statements = map erase_stmt (Statements prog)\<rparr>"

text \<open>An expression that ends a line may be a heredoc; nothing may follow it on the line.\<close>

fun last_ok :: "expr \<Rightarrow> bool" where
  "last_ok (HeredocLit s) = heredoc_ok s"
| "last_ok e = expr_ok e"

definition opt_ok :: "expr option \<Rightarrow> bool" where
  "opt_ok w = (case w of None \<Rightarrow> True | Some c \<Rightarrow> expr_ok c)"

fun stmt_ok :: "stmt \<Rightarrow> bool" where
  "stmt_ok (ArgStmt args w _) = (list_all expr_ok args \<and> opt_ok w)"
| "stmt_ok (FileStmt path content mode w _) = (expr_ok path \<and> last_ok content \<and> opt_ok w \<and> 0 \<le> mode \<and> mode < 2 ^ 63
     \<and> (expr_ok content \<or> mode = 0 \<and> w = None))"
| "stmt_ok (MkdirStmt e _) = expr_ok e"
| "stmt_ok (AssignStmt name e _) = (ident_ok name \<and> last_ok e)"
| "stmt_ok (IfStmt c b els _) = (expr_ok c \<and> list_all stmt_ok b
     \<and> (case els of None \<Rightarrow> True | Some s \<Rightarrow> s \<noteq> [] \<and> list_all stmt_ok s))"
| "stmt_ok (ForStmt k v i b _) = (ident_ok k \<and> (v = [] \<or> ident_ok v) \<and> expr_ok i \<and> list_all stmt_ok b)"

definition program_ok :: "program \<Rightarrow> bool" where
  "program_ok prog \<longleftrightarrow> list_all decl_ok (Declarations prog) \<and> list_all stmt_ok (Statements prog)"

subsection \<open>The tokens of a printed statement\<close>

definition last_kinds :: "expr \<Rightarrow> tkind list" where
  "last_kinds e = expr_kinds e @ (if expr_ok e then [nl_kind] else [])"

definition mode_kinds :: "int \<Rightarrow> tkind list" where
  "mode_kinds m = (if m \<noteq> 0 then [(NUMBER, CHR ''0'' # show_octal m)] else [])"

definition block_kinds :: "tkind list list \<Rightarrow> tkind list" where
  "block_kinds ls = (LBRACE, ''{'') # nl_kind # concat ls @ [(RBRACE, ''}'')]"

fun stmt_line :: "stmt \<Rightarrow> tkind list" where
  "stmt_line (ArgStmt args w _) = (KW_ARG, ''arg'') # concat (map expr_kinds args) @ when_kinds w @ [nl_kind]"
| "stmt_line (FileStmt path content mode w _) = (KW_FILE, ''file'') # expr_kinds path
     @ (if expr_ok content then expr_kinds content @ mode_kinds mode @ when_kinds w @ [nl_kind] else expr_kinds content)"
| "stmt_line (MkdirStmt e _) = (KW_MKDIR, ''mkdir'') # expr_kinds e @ [nl_kind]"
| "stmt_line (AssignStmt name e _) = (IDENT, name) # (ASSIGN, ''='') # last_kinds e"
| "stmt_line (IfStmt c b els _) = (KW_IF, ''if'') # expr_kinds c @ block_kinds (map stmt_line b)
     @ (case els of None \<Rightarrow> [] | Some s \<Rightarrow> (KW_ELSE, ''else'') # block_kinds (map stmt_line s)) @ [nl_kind]"
| "stmt_line (ForStmt k v i b _) = (KW_FOR, ''for'') # (IDENT, k)
     # (if v \<noteq> [] then [(COMMA, '',''), (IDENT, v)] else []) @ (KW_IN, ''in'') # expr_kinds i
     @ block_kinds (map stmt_line b) @ [nl_kind]"

lemma scan_last: "last_ok e \<Longrightarrow> scan (serializeExpr e @ NL # rest) = last_kinds e @ scan rest"
  by (cases e rule: last_ok.cases)
    (auto simp: last_kinds_def scan_heredoc line_end_def scan_expr simp del: expr_ok.simps(1-9,11) serializeExpr.simps(1-9,11)
      expr_kinds.simps(1-9,11))

lemma scan_args_exprs:
  assumes "list_all expr_ok args" "expr_end rest"
  shows "scan (concat (map (\<lambda>a. SP # serializeExpr a) args) @ rest) = concat (map expr_kinds args) @ scan rest"
proof -
  have "expr_end (concat (map (\<lambda>a. SP # serializeExpr a) as) @ rest)" for as
    using assms(2) by (cases as) simp_all
  with assms(1) show ?thesis by (induction args) (simp_all add: scan_expr)
qed

lemma scan_block:
  assumes "\<And>s r. s \<in> set b \<Longrightarrow> scan (f s @ NL # r) = g s @ scan r"
  shows "scan (write_block i (map f b) @ rest) = block_kinds (map g b) @ scan rest"
proof -
  have "scan (concat (map (\<lambda>l. l @ [NL]) (map f b)) @ r) = concat (map g b) @ scan r" for r
    using assms by (induction b) simp_all
  then show ?thesis by (simp add: write_block_def block_kinds_def scan_tabs)
qed

lemma block_end [simp]: "expr_end (write_block i ls @ r)" "word_end (write_block i ls @ r)"
  by (simp_all add: write_block_def)

lemma scan_file_tail:
  assumes "opt_ok w" "0 \<le> mode" "mode < 2 ^ 63"
  shows "scan ((if mode \<noteq> 0 then SP # CHR ''0'' # show_octal mode else []) @ writeWhen w @ NL # rest)
    = mode_kinds mode @ when_kinds w @ nl_kind # scan rest"
    "expr_end ((if mode \<noteq> 0 then SP # CHR ''0'' # show_octal mode else []) @ writeWhen w @ NL # rest)"
proof -
  have "word_end (writeWhen w @ NL # rest)" using writeWhen_end by (auto simp: expr_end_def)
  then show "scan ((if mode \<noteq> 0 then SP # CHR ''0'' # show_octal mode else []) @ writeWhen w @ NL # rest)
    = mode_kinds mode @ when_kinds w @ nl_kind # scan rest"
    using assms scan_number [of "CHR ''0'' # show_octal mode" "writeWhen w @ NL # rest"] mode_number(1) [of mode] writeWhen_end
    by (auto simp: mode_kinds_def scan_when opt_ok_def expr_end_def)
qed (simp add: writeWhen_end)

lemma scan_stmt: "stmt_ok s \<Longrightarrow> scan (writeStmt i s @ NL # rest) = stmt_line s @ scan rest"
proof (induction s arbitrary: i rest rule: stmt_ok.induct)
  case (1 args w p)
  then show ?case
    using scan_args_exprs [of args "writeWhen w @ NL # rest"] writeWhen_end [of w rest]
    by (cases args) (auto simp: scan_words opt_ok_def scan_when scan_tabs expr_end_def)
next
  case (2 path content mode w p)
  show ?case
  proof (cases "expr_ok content")
    case True
    then show ?thesis
      using 2 scan_file_tail [of w mode rest] by (cases "mode = 0") (simp_all add: scan_tabs scan_words scan_expr)
  next
    case False
    then show ?thesis
      using 2 scan_last [of content rest] by (simp add: scan_tabs scan_words scan_expr last_kinds_def writeWhen_def)
  qed
next
  case (5 c b els p)
  have "scan (writeStmt j s @ NL # r) = stmt_line s @ scan r" if "s \<in> set b" for s j r
    using 5 that by (simp add: list_all_iff)
  moreover have "scan (writeStmt j s @ NL # r) = stmt_line s @ scan r" if "els = Some e" "s \<in> set e" for e s j r
    using 5 that by (simp add: list_all_iff)
  ultimately show ?case
    using "5.prems" by (auto simp: scan_tabs scan_words scan_expr scan_block split: option.split)
next
  case (6 k v it b p)
  then show ?case
    by (cases "v = []") (simp_all add: scan_tabs scan_words scan_expr scan_ident scan_block list_all_iff)
qed (simp_all add: scan_tabs scan_words scan_expr scan_ident scan_last)

subsection \<open>Parsing\<close>

lemma pk_skipNewlines: "pk (skipNewlines p) = dropWhile (\<lambda>k. fst k \<in> {NEWLINE, COMMENT}) (pk p)"
    "errors (skipNewlines p) = errors p"
proof -
  have "map kind (dropWhile (\<lambda>t. tok_type t = NEWLINE \<or> tok_type t = COMMENT) ts)
      = dropWhile (\<lambda>k. fst k \<in> {NEWLINE, COMMENT}) (map kind ts)" for ts
    by (induction ts) (auto simp: kind_def)
  then show "pk (skipNewlines p) = dropWhile (\<lambda>k. fst k \<in> {NEWLINE, COMMENT}) (pk p)"
    "errors (skipNewlines p) = errors p" by (simp_all add: skipNewlines_def)
qed

lemma expectNewline_stay: "head (pk p) \<notin> {NEWLINE, COMMENT} \<Longrightarrow> expectNewline p = p"
proof -
  assume a: "head (pk p) \<notin> {NEWLINE, COMMENT}"
  then have "dropWhile (\<lambda>t. tok_type t = COMMENT) (toks p) = toks p"
    by (cases "toks p") (simp_all add: kind_def)
  then show ?thesis using a by (simp add: expectNewline_def Let_def on_kinds)
qed

definition expr_starts :: "token_type set" where
  "expr_starts = {STRING, NUMBER, TRUE, FALSE, IDENT, KW_NOT, LBRACE, LBRACKET}"

lemma expr_head: "expr_ok x \<Longrightarrow> head (expr_kinds x @ ks) \<in> expr_starts"
  by (induction x arbitrary: ks rule: expr_ok.induct) (simp_all add: expr_starts_def)

lemma follow_start: "head ks \<in> expr_starts \<Longrightarrow> follow 1 ks"
  by (auto simp: follow_def level_ops_def expr_starts_def)

definition stmt_starts :: "token_type set" where
  "stmt_starts = {KW_ARG, KW_FILE, KW_MKDIR, KW_IF, KW_FOR, IDENT, RBRACE}"

lemma stmt_head: "head (stmt_line s @ ks) \<in> stmt_starts - {RBRACE}"
  by (cases s) (simp_all add: stmt_starts_def)

lemma line_start_stmts: "head ks \<in> stmt_starts \<Longrightarrow> line_start ks"
  by (auto simp: stmt_starts_def line_start_def follow_def level_ops_def)

lemma follow_mode_tail: "follow 1 (mode_kinds m @ when_kinds w @ nl_kind # ks)" "follow 1 (when_kinds w @ nl_kind # ks)"
  by (auto simp: mode_kinds_def when_kinds_def follow_def level_ops_def split: option.splits)

text \<open>An expression anywhere in a line.\<close>

lemma parse_expr_then:
  assumes "expr_ok x" "pk p = expr_kinds x @ ks" "follow 1 ks" "length (toks p) < n"
  obtains q where "parse_expr n p = Some (x, q)" "pk q = ks" "errors q = errors p" "length (toks q) < length (toks p)"
proof -
  obtain q where q: "parse_expr n p = Some (x, q)" "pk q = ks" "errors q = errors p"
    using parse_expr_parses [OF assms] by blast
  have "expr_kinds x \<noteq> []" using assms(1) by (induction x rule: expr_ok.induct) simp_all
  then have "length (pk q) < length (pk p)" unfolding q(2) assms(2) by simp
  then have "length (toks q) < length (toks p)" by simp
  with q that show thesis by blast
qed

lemma parse_last:
  assumes "last_ok x" "pk p = last_kinds x @ ks" "line_start ks" "length (toks p) < n"
  obtains q where "parse_expr n p = Some (x, q)" "pk (expectNewline q) = ks" "errors (expectNewline q) = errors p"
    "pk q = (if expr_ok x then nl_kind # ks else ks)"
proof (cases "expr_ok x")
  case True
  then have pk: "pk p = expr_kinds x @ nl_kind # ks" using assms(2) by (simp add: last_kinds_def)
  obtain q where "parse_expr n p = Some (x, q)" "pk q = nl_kind # ks" "errors q = errors p"
    by (rule parse_expr_then [OF True pk _ assms(4)]) simp
  then show thesis using that [of q] True by (simp add: on_kinds)
next
  case False
  then obtain s where x: "x = HeredocLit s" using assms(1) by (cases x) simp_all
  let ?q = "advance (advance p)"
  obtain m where n: "n = Suc m" using assms(4) by (cases n) simp_all
  have pk: "pk p = (HEREDOC_START, chooseHeredocMarker s) # (HEREDOC_BODY, s) # ks"
    using assms(2) by (simp add: x last_kinds_def)
  have q: "pk ?q = ks" "errors ?q = errors p" by (simp_all add: on_kinds pk)
  have "pk (advance p) = (HEREDOC_BODY, s) # ks" by (simp add: on_kinds pk)
  then have "parsePrimary (parse_expr m) n p = Some (x, ?q)"
    by (simp add: parsePrimary_def parse_heredoc_lit_def Let_def on_kinds pk x current_literal)
  then have u: "parseUnary (parse_expr m) n p = Some (x, ?q)" by (simp add: n on_kinds pk)
  have l: "head (pk ?q) \<notin> level_ops l" if "1 \<le> l" for l
    using assms(3) that unfolding q(1) line_start_def follow_def by blast
  have none: "or_op ?q = None" "and_op ?q = None" "equality_op ?q = None" "addition_op ?q = None"
    using l [of 1] l [of 2] l [of 3] l [of 4] or_level.no_op [of ?q] and_level.no_op [of ?q] eq_level.no_op [of ?q] add_level.no_op [of ?q]
    by (simp_all add: level_ops_def)
  have "parse_expr n p = Some (x, ?q)"
    using u none by (simp add: n parseOr_def parseAnd_def parseEquality_def parseAddition_def)
  moreover have "expectNewline ?q = ?q"
    using assms(3) q(1) by (intro expectNewline_stay) (auto simp: line_start_def)
  ultimately show thesis using that [of ?q] q by (simp add: x)
qed

lemma arg_loop_parses:
  assumes "fst k \<in> {NEWLINE, KW_WHEN}"
  shows "list_all expr_ok args \<Longrightarrow> pk p = concat (map expr_kinds args) @ k # ks \<Longrightarrow> length (toks p) < n \<Longrightarrow>
    parses (arg_loop n acc p) p (acc @ args) (k # ks)"
proof (induction args arbitrary: n acc p)
  case Nil
  then obtain m where "n = Suc m" by (cases n) simp_all
  then show ?case using Nil assms by (auto simp: parses_def on_kinds)
next
  case (Cons x args)
  obtain m where n: "n = Suc m" using Cons.prems(3) by (cases n) simp_all
  have ok: "expr_ok x" "list_all expr_ok args" using Cons.prems(1) by simp_all
  let ?ks = "concat (map expr_kinds args) @ k # ks"
  have pk: "pk p = expr_kinds x @ ?ks" using Cons.prems(2) by simp
  have "follow 1 ?ks"
  proof (cases args)
    case Nil
    then show ?thesis using assms by (cases k) auto
  next
    case (Cons y ys)
    then show ?thesis using ok(2) follow_start [OF expr_head [of y]] by simp
  qed
  then obtain q where q: "parse_expr n p = Some (x, q)" "pk q = ?ks" "errors q = errors p"
    "length (toks q) < length (toks p)"
    using parse_expr_then [OF ok(1) pk _ Cons.prems(3)] by blast
  have "head (pk p) \<in> expr_starts" unfolding pk by (rule expr_head [OF ok(1)])
  then have "arg_loop n acc p = arg_loop m (acc @ [x]) q"
    using q(1) by (auto simp: n on_kinds expr_starts_def)
  then show ?case using Cons.IH [OF ok(2) q(2), of m "acc @ [x]"] q(3,4) Cons.prems(3) n
    by (simp add: parses_def)
qed

subsection \<open>Blocks and statements\<close>

text \<open>A statement may leave the newline that ends its line.\<close>

definition left_at :: "parser \<Rightarrow> tkind list \<Rightarrow> bool" where
  "left_at q ks \<longleftrightarrow> pk q = ks \<or> pk q = nl_kind # ks"

definition stmt_right :: "(parser \<Rightarrow> (stmt option \<times> parser) option) \<Rightarrow> nat \<Rightarrow> stmt \<Rightarrow> bool" where
  "stmt_right f N s \<longleftrightarrow> (\<forall>p ks. pk p = stmt_line s @ ks \<longrightarrow> line_start ks \<longrightarrow> length (toks p) < N \<longrightarrow>
     (\<exists>s' q. f p = Some (Some s', q) \<and> erase_stmt s' = erase_stmt s \<and> left_at q ks \<and> errors q = errors p))"

lemma left_at_skip:
  assumes "left_at q ks" "head ks \<notin> {NEWLINE, COMMENT}"
  shows "pk (skipNewlines q) = ks"
  using assms by (cases ks) (auto simp: left_at_def pk_skipNewlines)

lemma expr_kinds_pos: "Suc 0 \<le> length (expr_kinds x)"
  by (induction x rule: expr_ok.induct) simp_all

lemma stmt_line_long: "2 \<le> length (stmt_line s)"
  using expr_kinds_pos by (cases s) (auto simp: last_kinds_def block_kinds_def intro: trans_le_add1)

lemma left_at_shorter:
  assumes "left_at p (stmt_line s @ ks)" "left_at q ks"
  shows "length (toks q) < length (toks p)"
proof -
  have "length (pk q) \<le> Suc (length ks)" using assms(2) by (auto simp: left_at_def)
  moreover have "length (stmt_line s @ ks) \<le> length (pk p)"
    using assms(1) unfolding left_at_def by (metis le_SucI length_Cons order_refl)
  ultimately show ?thesis using stmt_line_long [of s] by simp
qed

lemma lines_start: "line_start (concat (map stmt_line b) @ (RBRACE, t) # ks)"
proof (intro line_start_stmts)
  show "head (concat (map stmt_line b) @ (RBRACE, t) # ks) \<in> stmt_starts"
    using stmt_head by (cases b) (auto simp: stmt_starts_def)
qed

lemma block_loop_parses:
  "\<lbrakk>\<forall>s \<in> set b. stmt_right f N s; left_at p (concat (map stmt_line b) @ (RBRACE, t) # ks);
    length (toks p) < N; length (toks p) < n\<rbrakk> \<Longrightarrow>
   \<exists>b' q. block_loop f n acc p = Some (acc @ b', q) \<and> map erase_stmt b' = map erase_stmt b
     \<and> pk q = (RBRACE, t) # ks \<and> errors q = errors p"
proof (induction b arbitrary: acc p n)
  case Nil
  obtain m where n: "n = Suc m" using Nil(4) by (cases n) simp_all
  from Nil(2) show ?case unfolding left_at_def
  proof
    assume "pk p = concat (map stmt_line []) @ (RBRACE, t) # ks"
    then show ?thesis by (simp add: n on_kinds)
  next
    assume "pk p = nl_kind # concat (map stmt_line []) @ (RBRACE, t) # ks"
    then show ?thesis by (simp add: n on_kinds pk_skipNewlines Let_def)
  qed
next
  case (Cons s b)
  obtain m where n: "n = Suc m" using Cons(5) by (cases n) simp_all
  let ?R = "concat (map stmt_line b) @ (RBRACE, t) # ks"
  have at: "left_at p (stmt_line s @ ?R)" using Cons(3) by simp
  have h: "head (stmt_line s @ ?R) \<in> stmt_starts - {RBRACE}" by (rule stmt_head)
  have p1: "pk (skipNewlines p) = stmt_line s @ ?R"
    using h by (intro left_at_skip [OF at]) (auto simp: stmt_starts_def)
  have "head (pk p) \<notin> {RBRACE, EOF}" using at h by (auto simp: left_at_def stmt_starts_def)
  moreover have "head (pk (skipNewlines p)) \<noteq> RBRACE" using h unfolding p1 by blast
  moreover have "length (toks (skipNewlines p)) < N" using reads_skipNewlines [of p] reads_length Cons(4) by force
  moreover from this obtain s' q where q: "f (skipNewlines p) = Some (Some s', q)" "erase_stmt s' = erase_stmt s"
    "left_at q ?R" "errors q = errors p"
    using Cons(2) p1 lines_start [of b t ks] pk_skipNewlines(2) [of p] unfolding stmt_right_def
    by (metis list.set_intros(1))
  ultimately have step: "block_loop f n acc p = block_loop f m (acc @ [s']) q" by (simp add: n on_kinds Let_def)
  have "length (toks q) < length (toks p)" by (rule left_at_shorter [OF at q(3)])
  then obtain b' r where "block_loop f m (acc @ [s']) q = Some ((acc @ [s']) @ b', r)" "map erase_stmt b' = map erase_stmt b"
    "pk r = (RBRACE, t) # ks" "errors r = errors q"
    using Cons.IH [OF _ q(3), of m "acc @ [s']"] Cons(2,4,5) n by fastforce
  then show ?case using step q by (intro exI [of _ "s' # b'"] exI [of _ r]) simp
qed

lemma parseBlock_parses:
  assumes "\<forall>s \<in> set b. stmt_right f N s" "pk p = block_kinds (map stmt_line b) @ ks" "length (toks p) \<le> N"
    "length (toks p) \<le> n"
  obtains b' q where "parseBlock f n p = Some (b', q)" "map erase_stmt b' = map erase_stmt b" "pk q = ks"
    "errors q = errors p"
proof -
  let ?R = "concat (map stmt_line b) @ (RBRACE, ''}'') # ks"
  let ?a = "skipNewlines (advance p)"
  have pk: "pk p = (LBRACE, ''{'') # nl_kind # ?R" using assms(2) by (simp add: block_kinds_def)
  have "left_at (advance p) ?R" by (simp add: left_at_def on_kinds pk)
  then have a: "pk ?a = ?R" using lines_start by (intro left_at_skip) (auto simp: line_start_def)
  have "length (pk ?a) < length (pk p)" unfolding a pk by simp
  then have len: "length (toks ?a) < N" "length (toks ?a) < n" using assms(3,4) by simp_all
  obtain b' q where q: "block_loop f n [] ?a = Some (b', q)" "map erase_stmt b' = map erase_stmt b"
    "pk q = (RBRACE, ''}'') # ks" "errors q = errors p"
    using block_loop_parses [OF assms(1) _ len, of "''}''" ks "[]"] a pk_skipNewlines(2)
    by (auto simp: left_at_def on_kinds)
  have "skipNewlines p = p" by (rule skipNewlines_stay) (simp add: pk)
  then show thesis
    using pk q by (intro that [of b' "advance q"]) (simp_all add: parseBlock_def on_kinds)
qed

lemma stmtI:
  assumes "map_option (apfst (map_option erase_stmt)) r = Some (Some (erase_stmt s), q)" "left_at q ks" "errors q = e"
  shows "\<exists>s' q. r = Some (Some s', q) \<and> erase_stmt s' = erase_stmt s \<and> left_at q ks \<and> errors q = e"
  using assms by (auto simp: map_option_case split: option.splits)

lemmas stmt_parsers = tryParseStatement_def some_stmt_def Let_def on_kinds left_at_def

lemma after_advance:
  assumes "pk p = k # ks" "length (toks p) < Suc N"
  shows "pk (advance p) = ks" "errors (advance p) = errors p" "length (toks (advance p)) < length (toks p)"
    "length (toks (advance p)) < N"
proof -
  show a: "pk (advance p) = ks" "errors (advance p) = errors p" by (simp_all add: on_kinds assms(1))
  have "length (pk (advance p)) < length (pk p)" unfolding a assms(1) by simp
  then show "length (toks (advance p)) < length (toks p)" "length (toks (advance p)) < N"
    using assms(2) by simp_all
qed

lemma parse_arg_stmt:
  assumes "stmt_ok (ArgStmt args w l)" "pk p = stmt_line (ArgStmt args w l) @ ks" "length (toks p) < n"
  shows "\<exists>s' q. tryParseStatement f n p = Some (Some s', q) \<and> erase_stmt s' = erase_stmt (ArgStmt args w l)
    \<and> left_at q ks \<and> errors q = errors p"
proof -
  obtain k ks' where k: "when_kinds w @ nl_kind # ks = k # ks'" "fst k \<in> {NEWLINE, KW_WHEN}"
    by (cases w) (auto simp: when_kinds_def)
  have pk: "pk p = (KW_ARG, ''arg'') # concat (map expr_kinds args) @ k # ks'"
    using assms(2) by (simp add: k(1) [symmetric])
  have a: "pk (advance p) = concat (map expr_kinds args) @ k # ks'" "length (toks (advance p)) < n"
    "errors (advance p) = errors p"
    using after_advance [OF pk, of n] assms(3) by simp_all
  then obtain q where q: "arg_loop n [] (advance p) = Some (args, q)" "pk q = when_kinds w @ nl_kind # ks" "errors q = errors p"
    using arg_loop_parses [OF k(2) _ a(1,2), of "[]"] assms(1) k(1) by (auto simp: parses_def)
  have "length (pk q) \<le> length (pk (advance p))" unfolding q(2) a(1) k(1) by simp
  then have "length (toks q) \<le> n" using a(2) by simp
  then obtain r where r: "parse_when n q = Some (w, r)" "pk r = nl_kind # ks" "errors r = errors p"
    using parse_when_parses [OF _ q(2)] q(3) assms(1) by (auto simp: opt_ok_def)
  show ?thesis
    using q r pk by (intro stmtI [of _ _ "advance r"]) (simp_all add: stmt_parsers parseArgStmt_def)
qed

lemma parse_file_mode_parses:
  assumes "pk p = mode_kinds m @ ks" "head ks \<noteq> NUMBER" "0 \<le> m" "m < 2 ^ 63"
  obtains q where "parse_file_mode p = (m, q)" "pk q = ks" "errors q = errors p" "length (toks q) \<le> length (toks p)"
proof (cases "m = 0")
  case True
  then show thesis using assms by (intro that [of p]) (simp_all add: mode_kinds_def parse_file_mode_def on_kinds)
next
  case False
  then have pk: "pk p = (NUMBER, CHR ''0'' # show_octal m) # ks" using assms(1) by (simp add: mode_kinds_def)
  have "length (toks (advance p)) \<le> length (toks p)" by (simp add: advance_def)
  then show thesis using pk mode_number(2) [of m] assms(3,4) False
    by (intro that [of "advance p"])
      (simp_all add: parse_file_mode_def on_kinds expectInt_def Let_def current_literal)
qed

lemma parse_file_stmt:
  assumes "stmt_ok (FileStmt path content mode w l)" "pk p = stmt_line (FileStmt path content mode w l) @ ks"
    "length (toks p) < n" "line_start ks"
  shows "\<exists>s' q. tryParseStatement f n p = Some (Some s', q)
    \<and> erase_stmt s' = erase_stmt (FileStmt path content mode w l) \<and> left_at q ks \<and> errors q = errors p"
proof -
  let ?C = "if expr_ok content then expr_kinds content @ mode_kinds mode @ when_kinds w @ nl_kind # ks
    else expr_kinds content @ ks"
  have pk: "pk p = (KW_FILE, ''file'') # expr_kinds path @ ?C" using assms(2) by simp
  have a: "pk (advance p) = expr_kinds path @ ?C" "length (toks (advance p)) < n" "errors (advance p) = errors p"
    using after_advance [OF pk, of n] assms(3) by simp_all
  have ok: "expr_ok path" "last_ok content" "opt_ok w" "0 \<le> mode" "mode < 2 ^ 63"
    using assms(1) by simp_all
  have fol: "follow 1 ?C"
  proof (cases "expr_ok content")
    case True
    then show ?thesis using follow_start [OF expr_head [OF True]] by simp
  next
    case False
    with ok(2) show ?thesis by (cases content) (simp_all add: follow_def level_ops_def)
  qed
  obtain q where q: "parse_expr n (advance p) = Some (path, q)" "pk q = ?C" "errors q = errors p" "length (toks q) < n"
    using parse_expr_then [OF ok(1) a(1) fol a(2)] a(2,3) by (metis less_trans)
  show ?thesis
  proof (cases "expr_ok content")
    case False
    then have tail: "mode = 0" "w = None" using assms(1) by auto
    have h: "head ks \<notin> {NUMBER, KW_WHEN}" using assms(4) by (auto simp: line_start_def)
    have "pk q = last_kinds content @ ks" using q(2) False by (simp add: last_kinds_def)
    then obtain r where r: "parse_expr n q = Some (content, r)" "pk r = ks" "pk (expectNewline r) = ks"
      "errors (expectNewline r) = errors p"
      using parse_last [OF ok(2) _ assms(4) q(4)] q(3) False by metis
    show ?thesis
      using pk q(1) r h tail
      by (intro stmtI [of _ _ "expectNewline r"])
        (simp_all add: stmt_parsers parseFileStmt_def parse_file_mode_def parse_when_def)
  next
    case True
    let ?W = "when_kinds w @ nl_kind # ks"
    have pkq: "pk q = expr_kinds content @ mode_kinds mode @ ?W" using q(2) True by simp
    obtain r where r: "parse_expr n q = Some (content, r)" "pk r = mode_kinds mode @ ?W" "errors r = errors p"
      "length (toks r) < n"
      using parse_expr_then [OF True pkq follow_mode_tail(1) q(4)] q(3,4) by (metis less_trans)
    have "head ?W \<noteq> NUMBER" by (simp add: when_kinds_def split: option.split)
    then obtain t where t: "parse_file_mode r = (mode, t)" "pk t = ?W" "errors t = errors p" "length (toks t) \<le> n"
      using parse_file_mode_parses [OF r(2) _ ok(4,5)] r(3,4) by (metis le_trans less_imp_le)
    obtain u where u: "parse_when n t = Some (w, u)" "pk u = nl_kind # ks" "errors u = errors p"
      using parse_when_parses [OF _ t(2) _ _ t(4)] ok(3) t(3) by (auto simp: opt_ok_def)
    show ?thesis
      using pk q(1) r(1) t(1) u
      by (intro stmtI [of _ _ "advance u"]) (simp_all add: stmt_parsers parseFileStmt_def)
  qed
qed

lemma parse_if_stmt:
  assumes "\<forall>s \<in> set b. stmt_right f N s" "\<forall>e. els = Some e \<longrightarrow> (\<forall>s \<in> set e. stmt_right f N s)" "expr_ok c"
    "pk p = stmt_line (IfStmt c b els l) @ ks" "length (toks p) < n" "length (toks p) \<le> N" "line_start ks"
  shows "\<exists>s' q. tryParseStatement f n p = Some (Some s', q) \<and> erase_stmt s' = erase_stmt (IfStmt c b els l)
    \<and> left_at q ks \<and> errors q = errors p"
proof -
  let ?E = "(case els of None \<Rightarrow> [] | Some s \<Rightarrow> (KW_ELSE, ''else'') # block_kinds (map stmt_line s)) @ nl_kind # ks"
  let ?B = "block_kinds (map stmt_line b) @ ?E"
  have pk: "pk p = (KW_IF, ''if'') # expr_kinds c @ ?B" using assms(4) by simp
  have a: "pk (advance p) = expr_kinds c @ ?B" "length (toks (advance p)) < n" "length (toks (advance p)) < N"
    "errors (advance p) = errors p"
    using after_advance [OF pk, of n] assms(5,6) by simp_all
  have fol: "follow 1 ?B" by (simp add: block_kinds_def)
  obtain q where q: "parse_expr n (advance p) = Some (c, q)" "pk q = ?B" "errors q = errors (advance p)"
    "length (toks q) < length (toks (advance p))"
    by (rule parse_expr_then [OF assms(3) a(1) fol a(2)])
  have qn: "length (toks q) \<le> n" "length (toks q) \<le> N" using q(4) a(2,3) by linarith+
  obtain b' r where r: "parseBlock f n q = Some (b', r)" "map erase_stmt b' = map erase_stmt b" "pk r = ?E"
    "errors r = errors q"
    by (rule parseBlock_parses [OF assms(1) q(2) qn(2,1)])
  have er: "errors r = errors p" using r(4) q(3) a(4) by simp
  have "length (pk r) < length (pk q)" unfolding r(3) q(2) by (simp add: block_kinds_def)
  then have len: "length (toks r) < N" "length (toks r) < n" using qn by simp_all
  show ?thesis
  proof (cases els)
    case None
    have s: "pk (skipNewlines r) = ks" "errors (skipNewlines r) = errors p"
      using left_at_skip [of r ks] assms(7) r(3) er by (auto simp: left_at_def line_start_def None pk_skipNewlines)
    moreover have "head ks \<noteq> KW_ELSE" using assms(7) by (auto simp: line_start_def)
    ultimately show ?thesis
      using pk q r(1,2) None
      by (intro stmtI [of _ _ "skipNewlines r"]) (simp_all add: stmt_parsers parseIfStmt_def parse_else_def)
  next
    case (Some e)
    have pkr: "pk r = (KW_ELSE, ''else'') # block_kinds (map stmt_line e) @ nl_kind # ks" using r(3) Some by simp
    have skip: "skipNewlines r = r" by (rule skipNewlines_stay) (simp add: pkr)
    have d: "pk (advance r) = block_kinds (map stmt_line e) @ nl_kind # ks" "length (toks (advance r)) \<le> n"
      "length (toks (advance r)) \<le> N" "errors (advance r) = errors p"
      using after_advance [OF pkr, of n] len er by simp_all
    have e: "\<forall>s \<in> set e. stmt_right f N s" using assms(2) Some by blast
    obtain e' t where t: "parseBlock f n (advance r) = Some (e', t)" "map erase_stmt e' = map erase_stmt e"
      "pk t = nl_kind # ks" "errors t = errors (advance r)"
      by (rule parseBlock_parses [OF e d(1,3,2)])
    show ?thesis
      using pk q(1) r(1,2) skip t d(4) pkr Some
      by (intro stmtI [of _ _ t]) (simp_all add: stmt_parsers parseIfStmt_def parse_else_def)
  qed
qed

lemma parse_for_stmt:
  assumes "\<forall>s \<in> set b. stmt_right f N s" "stmt_ok (ForStmt k v i b l)"
    "pk p = stmt_line (ForStmt k v i b l) @ ks" "length (toks p) < n" "length (toks p) \<le> N"
  shows "\<exists>s' q. tryParseStatement f n p = Some (Some s', q) \<and> erase_stmt s' = erase_stmt (ForStmt k v i b l)
    \<and> left_at q ks \<and> errors q = errors p"
proof -
  let ?B = "block_kinds (map stmt_line b) @ nl_kind # ks"
  let ?I = "(KW_IN, ''in'') # expr_kinds i @ ?B"
  let ?a = "advance (advance p)"
  have pk: "pk p = (KW_FOR, ''for'') # (IDENT, k) # (if v \<noteq> [] then [(COMMA, '',''), (IDENT, v)] else []) @ ?I"
    using assms(3) by simp
  obtain q where q: "parse_for_value ?a = (v, q)" "pk q = ?I" "errors q = errors p"
  proof (cases "v = []")
    case True
    then show thesis using pk by (intro that [of ?a]) (simp_all add: parse_for_value_def on_kinds)
  next
    case False
    then show thesis using pk by (intro that [of "advance (advance ?a)"]) (simp_all add: parse_for_value_def on_kinds)
  qed
  have "length (pk q) < length (pk p)" unfolding q(2) pk by simp
  then have "length (toks q) < n" "length (toks q) < N" using assms(4,5) by simp_all
  then have a: "pk (advance q) = expr_kinds i @ ?B" "length (toks (advance q)) < n" "length (toks (advance q)) < N"
    "errors (advance q) = errors p"
    using after_advance [OF q(2), of n] q(3) by simp_all
  have ok: "expr_ok i" "follow 1 ?B" using assms(2) by (simp_all add: block_kinds_def)
  obtain r where r: "parse_expr n (advance q) = Some (i, r)" "pk r = ?B" "errors r = errors (advance q)"
    "length (toks r) < length (toks (advance q))"
    by (rule parse_expr_then [OF ok(1) a(1) ok(2) a(2)])
  have rn: "length (toks r) \<le> n" "length (toks r) \<le> N" using r(4) a(2,3) by linarith+
  obtain b' t where t: "parseBlock f n r = Some (b', t)" "map erase_stmt b' = map erase_stmt b" "pk t = nl_kind # ks"
    "errors t = errors r"
    by (rule parseBlock_parses [OF assms(1) r(2) rn(2,1)])
  show ?thesis
    using pk q(1,2) r(1,3) t a(4)
    by (intro stmtI [of _ _ t]) (simp_all add: stmt_parsers parseForStmt_def)
qed

lemma parse_stmt_right: "stmt_ok s \<Longrightarrow> stmt_right (parse_stmt N) N s"
proof (induction s arbitrary: N rule: measure_induct_rule [of size])
  case (less s)
  show ?case unfolding stmt_right_def
  proof (intro allI impI)
    fix p ks assume p: "pk p = stmt_line s @ ks" "line_start ks" "length (toks p) < N"
    then obtain M where N: "N = Suc M" by (cases N) simp_all
    have len: "length (toks p) \<le> M" "length (toks p) < Suc M" using p(3) N by simp_all
    have "\<exists>s' q. tryParseStatement (parse_stmt M) (Suc M) p = Some (Some s', q) \<and> erase_stmt s' = erase_stmt s
        \<and> left_at q ks \<and> errors q = errors p"
    proof (cases s)
      case (ArgStmt args w l)
      then show ?thesis using parse_arg_stmt less.prems p(1) len(2) by metis
    next
      case (FileStmt path content mode w l)
      then show ?thesis using parse_file_stmt less.prems p(1,2) len(2) by metis
    next
      case (MkdirStmt e l)
      have pk: "pk p = (KW_MKDIR, ''mkdir'') # expr_kinds e @ nl_kind # ks" using p(1) MkdirStmt by simp
      obtain q where "parse_expr (Suc M) (advance p) = Some (e, q)" "pk q = nl_kind # ks" "errors q = errors p"
        by (rule parse_expr_line [OF _ pk len(2)]) (use less.prems MkdirStmt in simp)
      then show ?thesis
        using pk MkdirStmt by (intro stmtI [of _ _ "advance q"]) (simp_all add: stmt_parsers parseMkdirStmt_def)
    next
      case (AssignStmt name e l)
      have pk: "pk p = (IDENT, name) # (ASSIGN, ''='') # last_kinds e @ ks" using p(1) AssignStmt by simp
      then obtain t1 t2 ts where "toks p = t1 # t2 # ts" "kind t2 = (ASSIGN, ''='')" by (auto simp: map_eq_Cons_conv)
      then have peek: "peekIs ASSIGN p" by (simp add: peekIs_def kind_def)
      have a: "pk (advance (advance p)) = last_kinds e @ ks" by (simp add: on_kinds pk)
      have "length (pk (advance (advance p))) < length (pk p)" unfolding a pk by simp
      then have "length (toks (advance (advance p))) < Suc M" using len by simp
      moreover have "last_ok e" using less.prems AssignStmt by simp
      ultimately obtain q where "parse_expr (Suc M) (advance (advance p)) = Some (e, q)" "pk (expectNewline q) = ks"
        "errors (expectNewline q) = errors (advance (advance p))"
        using parse_last [OF _ a p(2)] by metis
      then show ?thesis
        using pk peek AssignStmt
        by (intro stmtI [of _ _ "expectNewline q"])
          (simp_all add: stmt_parsers parseAssignStmt_def current_literal)
    next
      case (IfStmt c b els l)
      have "size x < size s" if "x \<in> set b" for x
      proof -
        have "size x \<le> size_list size b" using that by (rule size_list_estimation') simp
        then show ?thesis by (simp add: IfStmt)
      qed
      then have "\<forall>x \<in> set b. stmt_right (parse_stmt M) M x"
        using less.IH less.prems by (simp add: IfStmt list_all_iff)
      moreover have "stmt_right (parse_stmt M) M x" if "els = Some e" "x \<in> set e" for e x
      proof -
        have "size x \<le> size_list size e" using that(2) by (rule size_list_estimation') simp
        then have "size x < size s" by (simp add: IfStmt that(1))
        then show ?thesis using less.IH less.prems that by (simp add: IfStmt list_all_iff)
      qed
      ultimately show ?thesis using parse_if_stmt [of b "parse_stmt M" M els c p l ks "Suc M"] less.prems p len IfStmt by simp
    next
      case (ForStmt k v i b l)
      have "\<forall>x \<in> set b. stmt_right (parse_stmt M) M x"
        using less ForStmt by (auto simp: list_all_iff size_list_estimation' le_imp_less_Suc)
      then show ?thesis using parse_for_stmt less.prems p(1) len ForStmt by metis
    qed
    then show "\<exists>s' q. parse_stmt N p = Some (Some s', q) \<and> erase_stmt s' = erase_stmt s
        \<and> left_at q ks \<and> errors q = errors p" by (simp add: N)
  qed
qed

subsection \<open>Programs\<close>

abbreviation eof_kind :: tkind where
  "eof_kind \<equiv> (EOF, [])"

definition program_kinds :: "program \<Rightarrow> tkind list" where
  "program_kinds prog = concat (map decl_line (Declarations prog)) @ concat (map stmt_line (Statements prog)) @ [eof_kind]"

lemma writeDecl_nonempty: "writeDecl d \<noteq> []"
  by (cases d) (simp_all add: writeConfigDecl_def writeEnvDecl_def writeMcpDecl_def writeSetupDecl_def writeKnowledgeDecl_def)

lemma writeStmt_nonempty: "stmt_ok s \<Longrightarrow> writeStmt i s \<noteq> []"
  by (cases s) (auto simp: ident_ok_def name_ok_def)

lemma join_lines: "xs \<noteq> [] \<Longrightarrow> join [NL] xs @ [NL] = concat (map (\<lambda>l. l @ [NL]) xs)"
  by (induction xs rule: induct_list012) simp_all

lemma join_nonempty: "xs \<noteq> [] \<Longrightarrow> \<forall>x \<in> set xs. x \<noteq> [] \<Longrightarrow> join s xs \<noteq> []"
  by (cases xs rule: remdups_adj.cases) auto

lemma Serialize_lines:
  assumes "list_all stmt_ok (Statements prog)"
  shows "Serialize prog = concat (map (\<lambda>l. l @ [NL]) (map writeDecl (Declarations prog) @ map (writeStmt 0) (Statements prog)))"
proof -
  let ?D = "map writeDecl (Declarations prog)" and ?S = "map (writeStmt 0) (Statements prog)"
  have d: "join [NL] ?D \<noteq> []" if "?D \<noteq> []"
    using that writeDecl_nonempty by (intro join_nonempty) auto
  have s: "join [NL] ?S \<noteq> []" if "?S \<noteq> []"
    using that writeStmt_nonempty assms by (intro join_nonempty) (auto simp: list_all_iff)
  show ?thesis
    using d s join_lines [of ?D] join_lines [of ?S]
    by (cases "?D = []"; cases "?S = []") (auto simp: Serialize_def Let_def)
qed

lemma scan_program:
  assumes "program_ok prog"
  shows "scan (Serialize prog) = program_kinds prog"
proof -
  have s: "scan (concat (map (\<lambda>l. l @ [NL]) (map (writeStmt 0) ss))) = concat (map stmt_line ss) @ [eof_kind]"
    if "list_all stmt_ok ss" for ss
    using that by (induction ss) (simp_all add: scan_stmt)
  have "scan (concat (map (\<lambda>l. l @ [NL]) (map writeDecl ds)) @ r) = concat (map decl_line ds) @ scan r"
    if "list_all decl_ok ds" for ds r
    using that by (induction ds) (simp_all add: scan_decl)
  then show ?thesis
    using assms s by (simp add: program_ok_def Serialize_lines program_kinds_def)
qed

lemma decl_head: "head (decl_line d @ ks) \<notin> stmt_starts \<union> {EOF, NEWLINE, COMMENT}" "line_start (decl_line d @ ks)"
  by (cases d; simp add: stmt_starts_def line_start_def follow_def level_ops_def)+

lemma no_decl: "head (pk p) \<in> stmt_starts \<Longrightarrow> tryParseDeclaration n p = Some (None, p)"
  by (auto simp: tryParseDeclaration_def Let_def on_kinds stmt_starts_def)

lemma rest_start: "line_start (concat (map stmt_line ss) @ [eof_kind])"
proof (cases ss)
  case (Cons s ss)
  then show ?thesis using stmt_head [of s] by (auto intro!: line_start_stmts)
qed (simp add: line_start_def)

lemma parseProgram_stmts:
  "\<lbrakk>list_all stmt_ok ss; left_at p (concat (map stmt_line ss) @ [eof_kind]); length (toks p) < n; length (toks p) < depth\<rbrakk> \<Longrightarrow>
   \<exists>ss' q. parseProgram depth n prog p = Some (prog\<lparr>Statements := Statements prog @ ss'\<rparr>, q)
     \<and> map erase_stmt ss' = map erase_stmt ss \<and> errors q = errors p"
proof (induction ss arbitrary: prog p n)
  case Nil
  obtain m where n: "n = Suc m" using Nil(3) by (cases n) simp_all
  have "pk p = [eof_kind] \<or> pk p = [nl_kind, eof_kind]" using Nil(2) by (simp add: left_at_def)
  then have "parseProgram depth n prog p = Some (prog, if pk p = [eof_kind] then p else skipNewlines p)"
    by (auto simp: n on_kinds pk_skipNewlines Let_def)
  then show ?case by (intro exI [of _ "[]"]) (auto simp: pk_skipNewlines)
next
  case (Cons s ss)
  obtain m where n: "n = Suc m" using Cons(4) by (cases n) simp_all
  let ?R = "concat (map stmt_line ss) @ [eof_kind]"
  let ?p = "skipNewlines p"
  have at: "left_at p (stmt_line s @ ?R)" using Cons(3) by simp
  have h: "head (stmt_line s @ ?R) \<in> stmt_starts - {RBRACE}" by (rule stmt_head)
  have p1: "pk ?p = stmt_line s @ ?R"
    using h by (intro left_at_skip [OF at]) (auto simp: stmt_starts_def)
  have "length (toks ?p) \<le> length (toks p)" using reads_skipNewlines reads_length by blast
  then have len: "length (toks ?p) < depth" using Cons(5) by simp
  have "stmt_right (parse_stmt depth) depth s" using Cons(2) by (simp add: parse_stmt_right)
  then obtain s' q where q: "parse_stmt depth ?p = Some (Some s', q)" "erase_stmt s' = erase_stmt s"
    "left_at q ?R" "errors q = errors ?p"
    using p1 rest_start len unfolding stmt_right_def by blast
  have "head (pk p) \<noteq> EOF" using at h by (auto simp: left_at_def stmt_starts_def)
  moreover have "head (pk ?p) \<noteq> EOF" "head (pk ?p) \<in> stmt_starts" using h unfolding p1 by (auto simp: stmt_starts_def)
  ultimately have step: "parseProgram depth n prog p = parseProgram depth m (prog\<lparr>Statements := Statements prog @ [s']\<rparr>) q"
    using q(1) no_decl [of ?p depth] by (simp add: n on_kinds Let_def)
  have short: "length (toks q) < length (toks p)" by (rule left_at_shorter [OF at q(3)])
  obtain ss' r where "parseProgram depth m (prog\<lparr>Statements := Statements prog @ [s']\<rparr>) q
      = Some (prog\<lparr>Statements := Statements prog @ [s']\<rparr>\<lparr>Statements := Statements (prog\<lparr>Statements := Statements prog @ [s']\<rparr>) @ ss'\<rparr>, r)"
    "map erase_stmt ss' = map erase_stmt ss" "errors r = errors q"
    using Cons.IH [OF _ q(3), of m "prog\<lparr>Statements := Statements prog @ [s']\<rparr>"] Cons(2,4,5) n short by auto
  then show ?case using step q pk_skipNewlines(2) [of p] by (intro exI [of _ "s' # ss'"] exI [of _ r]) simp
qed

lemma decl_line_pos: "0 < length (decl_line d)"
  by (cases d) simp_all

lemma parseProgram_all:
  "\<lbrakk>list_all decl_ok ds; list_all stmt_ok ss; pk p = concat (map decl_line ds) @ concat (map stmt_line ss) @ [eof_kind];
    length (toks p) < n; length (toks p) < depth\<rbrakk> \<Longrightarrow>
   \<exists>ds' ss' q. parseProgram depth n prog p = Some (\<lparr>Declarations = Declarations prog @ ds', Statements = Statements prog @ ss'\<rparr>, q)
     \<and> map erase_decl ds' = map erase_decl ds \<and> map erase_stmt ss' = map erase_stmt ss \<and> errors q = errors p"
proof (induction ds arbitrary: prog p n)
  case Nil
  have "left_at p (concat (map stmt_line ss) @ [eof_kind])" using Nil(3) by (simp add: left_at_def)
  from parseProgram_stmts [OF Nil(2) this Nil(4,5), of prog] show ?case
    by (cases prog) (fastforce intro: exI [of _ "[]"])
next
  case (Cons d ds)
  obtain m where n: "n = Suc m" using Cons(5) by (cases n) simp_all
  let ?R = "concat (map decl_line ds) @ concat (map stmt_line ss) @ [eof_kind]"
  have pk: "pk p = decl_line d @ ?R" using Cons(4) by simp
  have h: "head (pk p) \<notin> stmt_starts \<union> {EOF, NEWLINE, COMMENT}" unfolding pk by (rule decl_head)
  then have skip: "skipNewlines p = p" by (intro skipNewlines_stay) blast
  have "line_start ?R" using rest_start decl_head(2) by (cases ds) simp_all
  then have "reads_decl depth p d ?R" using parse_decl [OF _ pk _ Cons(6)] Cons(2) by simp
  then obtain d' q where q: "tryParseDeclaration depth p = Some (Some d', q)" "erase_decl d' = erase_decl d"
    "pk q = ?R" "errors q = errors p" unfolding reads_decl_def by blast
  let ?prog = "prog\<lparr>Declarations := Declarations prog @ [d']\<rparr>"
  have step: "parseProgram depth n prog p = parseProgram depth m ?prog q"
    using h q(1) skip by (simp add: n on_kinds Let_def)
  have "length (pk q) < length (pk p)" unfolding q(3) pk using decl_line_pos [of d] by simp
  then have "length (toks q) < m" "length (toks q) < depth" using Cons(5,6) n by simp_all
  then obtain ds' ss' r where "parseProgram depth m ?prog q
      = Some (\<lparr>Declarations = Declarations ?prog @ ds', Statements = Statements ?prog @ ss'\<rparr>, r)"
    "map erase_decl ds' = map erase_decl ds" "map erase_stmt ss' = map erase_stmt ss" "errors r = errors q"
    using Cons.IH [OF _ Cons(3) q(3), of m ?prog] Cons(2) by auto
  then show ?case using step q by (intro exI [of _ "d' # ds'"] exI [of _ ss'] exI [of _ r]) simp
qed



text \<open>
  The limit of the round trip. The printer writes no parentheses: \<open>mkdir not (a == b)\<close>
  parses to a negated comparison, which is printed as \<open>mkdir not a == b\<close> and parses to a comparison
  of the negated \<open>a\<close> with \<open>b\<close>.
\<close>

theorem Serialize_drops_parentheses:
  "map_option (\<lambda>(g, e). (map erase_stmt (Statements g), e)) (Parse ''mkdir not (a == b)'')
     = Some ([MkdirStmt (UnaryExpr ''not'' (BinaryExpr (Ident ''a'') ''=='' (Ident ''b''))) (0, 0)], [])
   \<and> Serialize \<lparr>Declarations = [], Statements = [MkdirStmt (UnaryExpr ''not'' (BinaryExpr (Ident ''a'') ''=='' (Ident ''b''))) (1, 1)]\<rparr>
     = ''mkdir not a == b'' @ [NL]
   \<and> map_option (\<lambda>(g, e). (map erase_stmt (Statements g), e)) (Parse (''mkdir not a == b'' @ [NL]))
     = Some ([MkdirStmt (BinaryExpr (UnaryExpr ''not'' (Ident ''a'')) ''=='' (Ident ''b'')) (0, 0)], [])"
  by code_simp

end
