(* ===== verification/RelayProtocol.thy ===== *)
theory RelayProtocol
  imports GoJson "HOL-Library.Word"
begin

unbundle bit_operations_syntax

text \<open>
  The wire formats of the relay: the terminal messages (relay/internal/protocol/message.go), the
  control-lease messages inside them (control\_lease.go), and the frames of the HTTP tunnel, which
  the relay and the runner implement separately (relay/internal/protocol/tunnelframe and
  runner/internal/tunnelframe).
\<close>

type_synonym byte = "8 word"
type_synonym bytes = "byte list"

subsection \<open>Big-endian integers (encoding/binary)\<close>

definition PutUint16 :: "16 word \<Rightarrow> bytes" where
  "PutUint16 v = [ucast (drop_bit 8 v), ucast v]"

definition Uint16 :: "byte \<Rightarrow> byte \<Rightarrow> 16 word" where
  "Uint16 b0 b1 = ucast b1 OR push_bit 8 (ucast b0)"

definition PutUint32 :: "32 word \<Rightarrow> bytes" where
  "PutUint32 v = [ucast (drop_bit 24 v), ucast (drop_bit 16 v), ucast (drop_bit 8 v), ucast v]"

definition Uint32 :: "byte \<Rightarrow> byte \<Rightarrow> byte \<Rightarrow> byte \<Rightarrow> 32 word" where
  "Uint32 b0 b1 b2 b3 = ucast b3 OR push_bit 8 (ucast b2) OR push_bit 16 (ucast b1) OR push_bit 24 (ucast b0)"

lemma Uint16_Put: "Uint16 (ucast (drop_bit 8 v)) (ucast v) = v"
proof (rule bit_word_eqI)
  fix n assume "n < LENGTH(16)"
  then show "bit (Uint16 (ucast (drop_bit 8 v)) (ucast v)) n = bit v n"
    by (cases "n < 8") (auto simp: Uint16_def bit_simps)
qed

lemma Put_Uint16: "PutUint16 (Uint16 a b) = [a, b]"
  by (auto simp: PutUint16_def Uint16_def bit_eq_iff bit_simps dest: bit_imp_le_length)

lemma Uint32_Put: "Uint32 (ucast (drop_bit 24 v)) (ucast (drop_bit 16 v)) (ucast (drop_bit 8 v)) (ucast v) = v"
proof (rule bit_word_eqI)
  fix n assume "n < LENGTH(32)"
  then show "bit (Uint32 (ucast (drop_bit 24 v)) (ucast (drop_bit 16 v)) (ucast (drop_bit 8 v)) (ucast v)) n = bit v n"
    by (cases "n < 8"; cases "n < 16"; cases "n < 24") (auto simp: Uint32_def bit_simps)
qed

lemma Put_Uint32: "PutUint32 (Uint32 a b c d) = [a, b, c, d]"
  by (auto simp: PutUint32_def Uint32_def bit_eq_iff bit_simps dest: bit_imp_le_length)

lemma length_Put [simp]: "length (PutUint16 v) = 2" "length (PutUint32 w) = 4"
  by (simp_all add: PutUint16_def PutUint32_def)

subsection \<open>Terminal messages (message.go)\<close>

definition MsgTypeSnapshot :: byte where "MsgTypeSnapshot = 0x01"
definition MsgTypeOutput :: byte where "MsgTypeOutput = 0x02"
definition MsgTypeInput :: byte where "MsgTypeInput = 0x03"
definition MsgTypeResize :: byte where "MsgTypeResize = 0x04"
definition MsgTypePing :: byte where "MsgTypePing = 0x05"
definition MsgTypePong :: byte where "MsgTypePong = 0x06"
definition MsgTypeControl :: byte where "MsgTypeControl = 0x07"
definition MsgTypeRunnerDisconnected :: byte where "MsgTypeRunnerDisconnected = 0x08"
definition MsgTypeRunnerReconnected :: byte where "MsgTypeRunnerReconnected = 0x09"
definition MsgTypeResync :: byte where "MsgTypeResync = 0x0A"
definition MsgTypeAcpEvent :: byte where "MsgTypeAcpEvent = 0x0B"
definition MsgTypeAcpCommand :: byte where "MsgTypeAcpCommand = 0x0C"
definition MsgTypeAcpSnapshot :: byte where "MsgTypeAcpSnapshot = 0x0D"

lemmas msg_types = MsgTypeSnapshot_def MsgTypeOutput_def MsgTypeInput_def MsgTypeResize_def MsgTypePing_def
  MsgTypePong_def MsgTypeControl_def MsgTypeRunnerDisconnected_def MsgTypeRunnerReconnected_def
  MsgTypeResync_def MsgTypeAcpEvent_def MsgTypeAcpCommand_def MsgTypeAcpSnapshot_def

datatype message_error = ErrInvalidMessage | ErrEmptyMessage

record message =
  msg_type :: byte
  msg_payload :: bytes

definition mk_message :: "byte \<Rightarrow> bytes \<Rightarrow> message" where
  "mk_message t p = \<lparr>msg_type = t, msg_payload = p\<rparr>"

definition EncodeMessage :: "byte \<Rightarrow> bytes \<Rightarrow> bytes" where
  "EncodeMessage t payload = t # payload"

definition DecodeMessage :: "bytes \<Rightarrow> message_error + message" where
  "DecodeMessage data = (case data of [] \<Rightarrow> Inl ErrEmptyMessage | t # payload \<Rightarrow> Inr (mk_message t payload))"

definition EncodeOutput :: "bytes \<Rightarrow> bytes" where
  "EncodeOutput data = EncodeMessage MsgTypeOutput data"

definition EncodeInput :: "bytes \<Rightarrow> bytes" where
  "EncodeInput data = EncodeMessage MsgTypeInput data"

definition EncodeResize :: "16 word \<Rightarrow> 16 word \<Rightarrow> bytes" where
  "EncodeResize cols rows = EncodeMessage MsgTypeResize (PutUint16 cols @ PutUint16 rows)"

definition DecodeResize :: "bytes \<Rightarrow> message_error + (16 word \<times> 16 word)" where
  "DecodeResize payload = (if length payload < 4 then Inl ErrInvalidMessage
     else Inr (Uint16 (payload ! 0) (payload ! 1), Uint16 (payload ! 2) (payload ! 3)))"

definition EncodePing :: bytes where "EncodePing = EncodeMessage MsgTypePing []"
definition EncodePong :: bytes where "EncodePong = EncodeMessage MsgTypePong []"

text \<open>Text as bytes and back: one byte for each rune, which is UTF-8 on ASCII.\<close>

definition bytes_of :: "str \<Rightarrow> bytes" where
  "bytes_of s = map (\<lambda>c. word_of_nat (code c)) s"

definition text_of :: "bytes \<Rightarrow> str" where
  "text_of bs = map (\<lambda>b. char_of (unat b)) bs"

lemma text_of_bytes_of [simp]: "text_of (bytes_of s) = s"
  by (simp add: text_of_def bytes_of_def code_def unat_of_nat comp_def of_char_mod_256 [where 'a = nat])

definition publisherReadyPayload :: str where
  "publisherReadyPayload = json_object [(''type'', json_string ''publisher_ready'')]"

definition EncodePublisherReady :: bytes where
  "EncodePublisherReady = EncodeMessage MsgTypeControl (bytes_of publisherReadyPayload)"

definition EncodeRunnerDisconnected :: bytes where
  "EncodeRunnerDisconnected = EncodeMessage MsgTypeRunnerDisconnected []"

definition EncodeRunnerReconnected :: bytes where
  "EncodeRunnerReconnected = EncodeMessage MsgTypeRunnerReconnected []"

lemma publisherReadyPayload_text:
  "publisherReadyPayload = [CHR 0x7B, DQUOTE] @ ''type'' @ [DQUOTE, CHR 0x3A, DQUOTE] @ ''publisher_ready'' @ [DQUOTE, CHR 0x7D]"
  by code_simp

subsection \<open>Tunnel frames (tunnelframe/frame.go, twice)\<close>

datatype frame_error = ErrShortFrame

record frame =
  fr_type :: byte
  fr_stream :: "32 word"
  fr_payload :: bytes

definition HeaderSize :: nat where "HeaderSize = 5"

definition MaxChunk :: int where "MaxChunk = 256 * 2 ^ 10"

definition relay_Encode :: "frame \<Rightarrow> bytes" where
  "relay_Encode f = fr_type f # PutUint32 (fr_stream f) @ fr_payload f"

definition relay_Decode :: "bytes \<Rightarrow> frame_error + frame" where
  "relay_Decode raw = (if length raw < HeaderSize then Inl ErrShortFrame
     else Inr \<lparr>fr_type = raw ! 0, fr_stream = Uint32 (raw ! 1) (raw ! 2) (raw ! 3) (raw ! 4),
               fr_payload = drop HeaderSize raw\<rparr>)"

text \<open>The runner's copy.\<close>

definition runner_Encode :: "frame \<Rightarrow> bytes" where
  "runner_Encode f = fr_type f # PutUint32 (fr_stream f) @ fr_payload f"

definition runner_Decode :: "bytes \<Rightarrow> frame_error + frame" where
  "runner_Decode raw = (if length raw < HeaderSize then Inl ErrShortFrame
     else Inr \<lparr>fr_type = raw ! 0, fr_stream = Uint32 (raw ! 1) (raw ! 2) (raw ! 3) (raw ! 4),
               fr_payload = drop HeaderSize raw\<rparr>)"

lemma relay_Encode_unfold:
  "relay_Encode f = fr_type f # ucast (drop_bit 24 (fr_stream f)) # ucast (drop_bit 16 (fr_stream f))
     # ucast (drop_bit 8 (fr_stream f)) # ucast (fr_stream f) # fr_payload f"
  by (simp add: relay_Encode_def PutUint32_def)

lemma runner_is_relay: "runner_Encode = relay_Encode" "runner_Decode = relay_Decode"
  by (simp_all add: fun_eq_iff runner_Encode_def relay_Encode_def runner_Decode_def relay_Decode_def)

lemma relay_Decode_Encode: "relay_Decode (relay_Encode f) = Inr f"
  by (simp add: relay_Decode_def relay_Encode_unfold HeaderSize_def Uint32_Put)

lemma relay_Encode_Decode:
  assumes "relay_Decode raw = Inr f"
  shows "relay_Encode f = raw"
proof -
  have len: "5 \<le> length raw" using assms by (simp add: relay_Decode_def HeaderSize_def split: if_splits)
  then obtain a b c d e rest where raw: "raw = a # b # c # d # e # rest"
    by (auto simp: numeral_eq_Suc Suc_le_length_iff)
  have "f = \<lparr>fr_type = a, fr_stream = Uint32 b c d e, fr_payload = rest\<rparr>"
    using assms by (simp add: raw relay_Decode_def HeaderSize_def)
  then show ?thesis using Put_Uint32 [of b c d e] by (simp add: raw relay_Encode_def)
qed

end
