(* ===== verification/RelayLeaseMsg.thy ===== *)
theory RelayLeaseMsg
  imports RelayProtocol
begin

text \<open>
  The control-lease messages of the relay (relay/internal/protocol/control\_lease.go): json.Unmarshal
  of an object into a struct of string fields, the request a subscriber sends and the status the relay
  answers. A payload is read byte for byte as text. The scanner below keeps what such an Unmarshal
  looks at: the members of the outermost object in order, and of each value whether it is a string,
  null or something else. It accepts the texts package encoding/json accepts, whose scanner does not
  look at the value of a number either. A field name matches without regard to case; of Go's folding
  only the two non-ASCII runes that fold to ASCII letters (U+017F, U+212A) are left out.
\<close>

subsection \<open>A scanner for the members of an object\<close>

datatype jkind = JStr str | JNull | JOther

text \<open>Escapes above U+00FF are read as U+00FF: no name, type, action or lease id has either.\<close>

fun narrow_escapes :: "str \<Rightarrow> str" where
  "narrow_escapes (c # d # cs) =
     (if c \<noteq> BSLASH then c # narrow_escapes (d # cs)
      else if d \<noteq> CHR ''u'' then c # d # narrow_escapes cs
      else (case cs of
          w # x # y # z # rest \<Rightarrow>
            (case hex4 w x y z of
               Some n \<Rightarrow> if n < 256 then c # d # narrow_escapes cs else c # d # ''00ff'' @ narrow_escapes rest
             | None \<Rightarrow> c # d # narrow_escapes cs)
        | _ \<Rightarrow> c # d # narrow_escapes cs))"
| "narrow_escapes cs = cs"

datatype scan_mode = SValue | SFirst | SKey | SFirstKey | SColon | SDone jkind

text \<open>The scanner's state: the open containers (True for an object), the mode, the last key and the
  members of the outermost object.\<close>

record scan =
  sc_stack :: "bool list"
  sc_mode :: scan_mode
  sc_key :: str
  sc_members :: "(str \<times> jkind) list"

definition scan_start :: scan where
  "scan_start = \<lparr>sc_stack = [], sc_mode = SValue, sc_key = [], sc_members = []\<rparr>"

definition scan_number :: "str \<Rightarrow> str option" where
  "scan_number s =
     (let body = (case s of c # cs \<Rightarrow> if c = CHR ''-'' then cs else s | [] \<Rightarrow> s)
      in Option.bind (number_int body) (\<lambda>(i, r1).
         Option.bind (number_fraction r1) (\<lambda>(f, r2). map_option snd (number_exponent r2))))"

definition scan_open :: "bool \<Rightarrow> scan_mode \<Rightarrow> scan \<Rightarrow> str \<Rightarrow> (scan \<times> str) option" where
  "scan_open obj m st rest = (if length (sc_stack st) < maxNestingDepth
     then Some (st\<lparr>sc_stack := obj # sc_stack st, sc_mode := m\<rparr>, rest) else None)"

definition scan_literal :: "str \<Rightarrow> jkind \<Rightarrow> scan \<Rightarrow> str \<Rightarrow> (scan \<times> str) option" where
  "scan_literal w k st s = (if has_prefix s w then Some (st\<lparr>sc_mode := SDone k\<rparr>, drop (length w) s) else None)"

definition scan_value :: "scan \<Rightarrow> rune \<Rightarrow> str \<Rightarrow> (scan \<times> str) option" where
  "scan_value st c cs =
     (if c = CHR ''{'' then scan_open True SFirstKey st cs
      else if c = CHR ''['' then scan_open False SFirst st cs
      else if c = DQUOTE then (case read_json_string cs of
          Inl e \<Rightarrow> None | Inr (s, rest) \<Rightarrow> Some (st\<lparr>sc_mode := SDone (JStr s)\<rparr>, rest))
      else if c = CHR ''t'' then scan_literal ''true'' JOther st (c # cs)
      else if c = CHR ''f'' then scan_literal ''false'' JOther st (c # cs)
      else if c = CHR ''n'' then scan_literal ''null'' JNull st (c # cs)
      else map_option (Pair (st\<lparr>sc_mode := SDone JOther\<rparr>)) (scan_number (c # cs)))"

definition scan_key :: "scan \<Rightarrow> rune \<Rightarrow> str \<Rightarrow> (scan \<times> str) option" where
  "scan_key st c cs =
     (if c = DQUOTE then (case read_json_string cs of
          Inl e \<Rightarrow> None
        | Inr (k, rest) \<Rightarrow>
            Some ((if length (sc_stack st) = 1 then st\<lparr>sc_key := k\<rparr> else st)\<lparr>sc_mode := SColon\<rparr>, rest))
      else None)"

text \<open>The end of a value inside an object: a member, when the object is the outermost value.\<close>

definition scan_member :: "jkind \<Rightarrow> scan \<Rightarrow> scan" where
  "scan_member k st = (if length (sc_stack st) = 1
     then st\<lparr>sc_members := sc_members st @ [(sc_key st, k)]\<rparr> else st)"

definition scan_close :: "scan \<Rightarrow> scan" where
  "scan_close st = st\<lparr>sc_stack := tl (sc_stack st), sc_mode := SDone JOther\<rparr>"

definition scan_step :: "scan \<Rightarrow> rune \<Rightarrow> str \<Rightarrow> (scan \<times> str) option" where
  "scan_step st c cs = (case sc_mode st of
       SValue \<Rightarrow> scan_value st c cs
     | SFirst \<Rightarrow> if c = CHR '']'' then Some (scan_close st, cs) else scan_value st c cs
     | SKey \<Rightarrow> scan_key st c cs
     | SFirstKey \<Rightarrow> if c = CHR ''}'' then Some (scan_close st, cs) else scan_key st c cs
     | SColon \<Rightarrow> if c = CHR '':'' then Some (st\<lparr>sc_mode := SValue\<rparr>, cs) else None
     | SDone k \<Rightarrow> (case sc_stack st of
           [] \<Rightarrow> None
         | True # _ \<Rightarrow>
             if c = CHR '','' then Some ((scan_member k st)\<lparr>sc_mode := SKey\<rparr>, cs)
             else if c = CHR ''}'' then Some (scan_close (scan_member k st), cs) else None
         | False # _ \<Rightarrow>
             if c = CHR '','' then Some (st\<lparr>sc_mode := SValue\<rparr>, cs)
             else if c = CHR '']'' then Some (scan_close st, cs) else None))"

lemma scan_number_consumes: "scan_number s = Some rest \<Longrightarrow> length rest < length s"
  by (auto simp: scan_number_def Let_def Option.bind_eq_Some_conv split: list.splits if_splits
      dest!: number_int_consumes number_fraction_consumes number_exponent_consumes)

lemma scan_value_consumes: "scan_value st c cs = Some (st', rest) \<Longrightarrow> length rest \<le> length cs"
  by (auto simp: scan_value_def scan_open_def scan_literal_def split: if_splits sum.splits
      dest!: read_json_string_consumes scan_number_consumes)

lemma scan_key_consumes: "scan_key st c cs = Some (st', rest) \<Longrightarrow> length rest \<le> length cs"
  by (auto simp: scan_key_def split: if_splits sum.splits dest!: read_json_string_consumes)

lemma scan_step_consumes: "scan_step st c cs = Some (st', rest) \<Longrightarrow> length rest \<le> length cs"
  by (auto simp: scan_step_def split: scan_mode.splits list.splits bool.splits if_splits
      dest: scan_value_consumes scan_key_consumes)

function scan_run :: "scan \<Rightarrow> str \<Rightarrow> (jkind \<times> (str \<times> jkind) list) option" where
  "scan_run st s =
     (case dropWhile json_space s of
        [] \<Rightarrow> (case (sc_stack st, sc_mode st) of ([], SDone k) \<Rightarrow> Some (k, sc_members st) | _ \<Rightarrow> None)
      | c # cs \<Rightarrow> (case scan_step st c cs of None \<Rightarrow> None | Some (st', rest) \<Rightarrow> scan_run st' rest))"
  by pat_completeness auto
termination
proof (relation "measure (\<lambda>(st, s). length s)", simp)
  fix s c cs st x st' rest
  assume "dropWhile json_space s = c # cs" "scan_step st c cs = Some x" "(st', rest) = x"
  then show "((st', rest), st, s) \<in> measure (\<lambda>(st, s). length s)"
    using scan_step_consumes [of st c cs st' rest] length_dropWhile_le [of json_space s] by auto
qed

declare scan_run.simps [simp del]

subsection \<open>Unmarshal into a struct of string fields\<close>

text \<open>The members of a payload that Unmarshal writes to a struct: an object's, none for null; any
  other value, or a text that is not JSON, is an error. An object is told from the other values by
  its first character.\<close>

definition json_members :: "bytes \<Rightarrow> (str \<times> jkind) list option" where
  "json_members payload =
     (let s = narrow_escapes (text_of payload) in
      case scan_run scan_start s of
        None \<Rightarrow> None
      | Some (k, ms) \<Rightarrow>
          if k = JNull then Some []
          else if has_prefix (dropWhile json_space s) ''{'' then Some ms else None)"

text \<open>A string sets the field, null leaves it, any other value is an error.\<close>

definition set_string_field :: "str \<Rightarrow> str \<times> jkind \<Rightarrow> str option \<Rightarrow> str option" where
  "set_string_field name = (\<lambda>(key, k) cur.
     if to_lower key = name
     then (case k of JStr s \<Rightarrow> map_option (\<lambda>_. s) cur | JNull \<Rightarrow> cur | JOther \<Rightarrow> None)
     else cur)"

definition string_field :: "str \<Rightarrow> (str \<times> jkind) list \<Rightarrow> str option" where
  "string_field name ms = fold (set_string_field name) ms (Some [])"

subsection \<open>Requests and statuses\<close>

definition ControlLeaseType :: str where "ControlLeaseType = ''control_lease''"

definition ControlLeaseActionAcquire :: str where "ControlLeaseActionAcquire = ''acquire''"
definition ControlLeaseActionForceAcquire :: str where "ControlLeaseActionForceAcquire = ''force_acquire''"
definition ControlLeaseActionRenew :: str where "ControlLeaseActionRenew = ''renew''"
definition ControlLeaseActionRelease :: str where "ControlLeaseActionRelease = ''release''"

definition ControlLeaseStatusGranted :: str where "ControlLeaseStatusGranted = ''granted''"
definition ControlLeaseStatusBusy :: str where "ControlLeaseStatusBusy = ''busy''"
definition ControlLeaseStatusReleased :: str where "ControlLeaseStatusReleased = ''released''"
definition ControlLeaseStatusExpired :: str where "ControlLeaseStatusExpired = ''expired''"
definition ControlLeaseStatusRequired :: str where "ControlLeaseStatusRequired = ''control_required''"

record control_lease_request =
  clr_type :: str
  clr_action :: str
  clr_lease_id :: str
  clr_client_label :: str

definition mk_lease_request :: "str \<Rightarrow> str \<Rightarrow> str \<Rightarrow> str \<Rightarrow> control_lease_request" where
  "mk_lease_request t a l c = \<lparr>clr_type = t, clr_action = a, clr_lease_id = l, clr_client_label = c\<rparr>"

text \<open>The three outcomes of DecodeControlLeaseRequest: not matched, matched with an error, a request.\<close>

datatype lease_decode = LeaseUnmatched | LeaseInvalid | LeaseRequest control_lease_request

definition DecodeControlLeaseRequest :: "bytes \<Rightarrow> lease_decode" where
  "DecodeControlLeaseRequest payload = (case json_members payload of
       None \<Rightarrow> LeaseUnmatched
     | Some ms \<Rightarrow> (case string_field ''type'' ms of
           None \<Rightarrow> LeaseUnmatched
         | Some t \<Rightarrow>
             if t \<noteq> ControlLeaseType then LeaseUnmatched
             else (case (string_field ''action'' ms, string_field ''lease_id'' ms, string_field ''client_label'' ms) of
                 (Some a, Some l, Some c) \<Rightarrow>
                   if a = [] then LeaseInvalid else LeaseRequest (mk_lease_request t a l c)
               | _ \<Rightarrow> LeaseInvalid)))"

definition control_lease_status_json :: "str \<Rightarrow> str \<Rightarrow> int \<Rightarrow> str" where
  "control_lease_status_json status leaseID expiresAt = json_object
     ([(''type'', json_string ControlLeaseType), (''status'', json_string status)]
      @ (if leaseID = [] then [] else [(''lease_id'', json_string leaseID)])
      @ (if expiresAt = 0 then [] else [(''expires_at'', show_int expiresAt)]))"

definition EncodeControlLeaseStatus :: "str \<Rightarrow> str \<Rightarrow> int \<Rightarrow> bytes" where
  "EncodeControlLeaseStatus status leaseID expiresAt =
     EncodeMessage MsgTypeControl (bytes_of (control_lease_status_json status leaseID expiresAt))"

lemma DecodeControlLeaseRequest_type:
  "DecodeControlLeaseRequest payload = LeaseRequest r \<Longrightarrow> clr_type r = ControlLeaseType \<and> clr_action r \<noteq> []"
  by (auto simp: DecodeControlLeaseRequest_def mk_lease_request_def split: option.splits if_splits)

lemma EncodeControlLeaseStatus_type: "hd (EncodeControlLeaseStatus s l e) = MsgTypeControl"
  by (simp add: EncodeControlLeaseStatus_def EncodeMessage_def)

end
