(* ===== verification/RelayChannel.thy ===== *)
theory RelayChannel
  imports RelayLeaseMsg
begin

text \<open>
  The terminal channel of the relay (relay/internal/channel): one publisher (the runner), the
  subscribers (browsers) and the control lease that says which subscriber may type. The state is the
  Channel struct together with its surroundings: the clock, the random source, the connections with
  everything written to them, the armed timers and the reading goroutines. Every method is a function
  on the state, from its first lock to its return; what a concurrent goroutine can do in between is a
  step of its own in theory RelaySteps, where the methods and callbacks are interleaved.
\<close>

type_synonym conn = nat
type_synonym duration = int
type_synonym time = int

definition Second :: duration where "Second = 10 ^ 9"

datatype timer_kind = LeaseTimer "64 word" | KeepAliveTimer | ReconnectTimer

text \<open>An armed timer: when it is due and which callback it runs. Stopping a timer does not take it
  out of the armed ones, because a callback that has begun is not stopped.\<close>

type_synonym timer = "time \<times> timer_kind"

datatype callback = AllSubscribersGone str | ChannelClosed str

text \<open>The surroundings. The n-th read of the random source gives \<open>entropy n\<close>, None for an error;
  the n-th write to a connection fails when \<open>write_fails n\<close>.\<close>

record surroundings =
  clock :: time
  entropy :: "nat \<Rightarrow> bytes option"
  entropy_reads :: nat
  write_fails :: "nat \<Rightarrow> bool"
  writes :: nat
  sent :: "(conn \<times> bytes) list"
  closed_conns :: "conn list"
  armed :: "timer list"
  pub_readers :: "(conn \<times> 64 word) list"
  sub_readers :: "str list"
  called :: "callback list"

record channel_config =
  KeepAliveDuration :: duration
  PublisherReconnectTimeout :: duration
  SubscriberReconnectTimeout :: duration
  ControlLeaseDuration :: duration

definition DefaultChannelConfig :: channel_config where
  "DefaultChannelConfig = \<lparr>KeepAliveDuration = 30 * Second, PublisherReconnectTimeout = 30 * Second,
     SubscriberReconnectTimeout = 30 * Second, ControlLeaseDuration = 30 * Second\<rparr>"

record channel = surroundings +
  PodKey :: str
  config :: channel_config
  publisher :: "conn option"
  subscribers :: "(str, conn) gomap"
  controlOwner :: str
  controlLeaseID :: str
  controlExpiresAt :: "time option"
  controlTimer :: "timer option"
  controlEpoch :: "64 word"
  lastSubscriberDisconnect :: "time option"
  keepAliveTimer :: "timer option"
  publisherDisconnected :: bool
  publisherReconnectTimer :: "timer option"
  publisherEpoch :: "64 word"
  has_onAllSubscribersGone :: bool
  has_onChannelClosed :: bool
  closed :: bool

definition NewChannelWithConfig :: "str \<Rightarrow> channel_config \<Rightarrow> bool \<Rightarrow> bool \<Rightarrow> surroundings \<Rightarrow> channel" where
  "NewChannelWithConfig podKey cfg gone clsd w = surroundings.extend w (channel.fields
     podKey cfg None [] [] [] None None 0 None None False None 0 gone clsd False)"

definition NewChannel :: "str \<Rightarrow> duration \<Rightarrow> bool \<Rightarrow> bool \<Rightarrow> surroundings \<Rightarrow> channel" where
  "NewChannel podKey keepAliveDuration =
     NewChannelWithConfig podKey (DefaultChannelConfig\<lparr>KeepAliveDuration := keepAliveDuration\<rparr>)"

subsection \<open>Connections, timers, random ids\<close>

text \<open>A write succeeds or not; the error itself is only logged.\<close>

definition writeToConn :: "conn \<Rightarrow> bytes \<Rightarrow> channel \<Rightarrow> bool \<times> channel" where
  "writeToConn c data s =
     (if c \<in> set (closed_conns s) \<or> write_fails s (writes s) then (False, s\<lparr>writes := Suc (writes s)\<rparr>)
      else (True, s\<lparr>writes := Suc (writes s), sent := sent s @ [(c, data)]\<rparr>))"

definition conn_Close :: "conn \<Rightarrow> channel \<Rightarrow> channel" where
  "conn_Close c s = s\<lparr>closed_conns := closed_conns s @ [c]\<rparr>"

definition AfterFunc :: "duration \<Rightarrow> timer_kind \<Rightarrow> channel \<Rightarrow> timer \<times> channel" where
  "AfterFunc d k s = ((clock s + d, k), s\<lparr>armed := armed s @ [(clock s + d, k)]\<rparr>)"

definition hex_encode :: "bytes \<Rightarrow> str" where
  "hex_encode bs = concat (map (\<lambda>b. [hex_digit (unat b div 16), hex_digit (unat b mod 16)]) bs)"

definition newControlLeaseID :: "channel \<Rightarrow> str option \<times> channel" where
  "newControlLeaseID s = (map_option (\<lambda>bs. hex_encode (take 16 bs)) (entropy s (entropy_reads s)),
     s\<lparr>entropy_reads := Suc (entropy_reads s)\<rparr>)"

definition log_call :: "callback \<Rightarrow> channel \<Rightarrow> channel" where
  "log_call cb s = s\<lparr>called := called s @ [cb]\<rparr>"

text \<open>now.Before(t), where the zero Time is before every now.\<close>

definition before :: "time \<Rightarrow> time option \<Rightarrow> bool" where
  "before now t = (case t of None \<Rightarrow> False | Some e \<Rightarrow> now < e)"

subsection \<open>The publisher's side and broadcasting (channel\_io.go, channel\_lifecycle.go)\<close>

definition writeToPublisher :: "bytes \<Rightarrow> channel \<Rightarrow> bool \<times> channel" where
  "writeToPublisher data s = (case publisher s of None \<Rightarrow> (True, s) | Some pub \<Rightarrow> writeToConn pub data s)"

definition clearControlLeaseLocked :: "channel \<Rightarrow> channel" where
  "clearControlLeaseLocked s = s\<lparr>controlTimer := None, controlOwner := [], controlLeaseID := [],
     controlExpiresAt := None, controlEpoch := controlEpoch s + 1\<rparr>"

definition handleLastSubscriberGone :: "channel \<Rightarrow> channel" where
  "handleLastSubscriberGone s =
     (if subscribers s \<noteq> [] then s
      else case AfterFunc (KeepAliveDuration (config s)) KeepAliveTimer s of
        (t, s') \<Rightarrow> s'\<lparr>lastSubscriberDisconnect := Some (clock s), keepAliveTimer := Some t\<rparr>)"

definition broadcast_status :: "(bytes \<Rightarrow> channel \<Rightarrow> channel) \<Rightarrow> str \<Rightarrow> channel \<Rightarrow> channel" where
  "broadcast_status bc status s = bc (EncodeControlLeaseStatus status [] 0) s"

text \<open>Broadcast removes the subscribers it cannot write to, and removing the owner of the lease
  broadcasts. The two are written over the Broadcast they call.\<close>

definition release_for_subscriber_with :: "(bytes \<Rightarrow> channel \<Rightarrow> channel) \<Rightarrow> str \<Rightarrow> channel \<Rightarrow> channel" where
  "release_for_subscriber_with bc sid s =
     (if controlOwner s \<noteq> sid then s
      else broadcast_status bc ControlLeaseStatusReleased (clearControlLeaseLocked s))"

definition RemoveSubscriber_with :: "(bytes \<Rightarrow> channel \<Rightarrow> channel) \<Rightarrow> str \<Rightarrow> channel \<Rightarrow> channel" where
  "RemoveSubscriber_with bc sid s = (case gm_get (subscribers s) sid of
       None \<Rightarrow> s
     | Some c \<Rightarrow>
         (let s1 = (conn_Close c s)\<lparr>subscribers := gm_del sid (subscribers s)\<rparr>;
              s2 = release_for_subscriber_with bc sid s1
          in if subscribers s1 = [] then handleLastSubscriberGone s2 else s2))"

text \<open>The write loop of Broadcast: the ids it could not write to, in order.\<close>

primrec write_each :: "bytes \<Rightarrow> (str \<times> conn) list \<Rightarrow> channel \<Rightarrow> str list \<times> channel" where
  "write_each data [] s = ([], s)"
| "write_each data (x # xs) s = (case writeToConn (snd x) data s of
     (ok, s1) \<Rightarrow> (case write_each data xs s1 of
       (failed, s2) \<Rightarrow> (if ok then failed else fst x # failed, s2)))"

definition broadcast_with :: "(bytes \<Rightarrow> channel \<Rightarrow> channel) \<Rightarrow> bytes \<Rightarrow> channel \<Rightarrow> channel" where
  "broadcast_with bc data s = (case write_each data (subscribers s) s of
     (failed, s1) \<Rightarrow> fold (RemoveSubscriber_with bc) failed s1)"

text \<open>A nested Broadcast has fewer subscribers, so the recursion is at most as deep as there are
  subscribers; the subscribers are visited in the order of their ids.\<close>

primrec broadcast_n :: "nat \<Rightarrow> bytes \<Rightarrow> channel \<Rightarrow> channel" where
  "broadcast_n 0 data s = s"
| "broadcast_n (Suc n) data s = broadcast_with (broadcast_n n) data s"

definition Broadcast :: "bytes \<Rightarrow> channel \<Rightarrow> channel" where
  "Broadcast data s = broadcast_n (Suc (length (subscribers s))) data s"

definition RemoveSubscriber :: "str \<Rightarrow> channel \<Rightarrow> channel" where
  "RemoveSubscriber = RemoveSubscriber_with Broadcast"

definition releaseControlLeaseForSubscriber :: "str \<Rightarrow> channel \<Rightarrow> channel" where
  "releaseControlLeaseForSubscriber = release_for_subscriber_with Broadcast"

text \<open>The callback of the keep-alive timer.\<close>

definition keepAliveExpired :: "channel \<Rightarrow> channel" where
  "keepAliveExpired s =
     (if closed s then s
      else if subscribers s = [] \<and> has_onAllSubscribersGone s then log_call (AllSubscribersGone (PodKey s)) s
      else s)"

datatype subscriber_error = ChannelClosedError | MaxSubscribersError int

definition addSubscriberInternal :: "str \<Rightarrow> conn \<Rightarrow> int \<Rightarrow> channel \<Rightarrow> subscriber_error option \<times> channel" where
  "addSubscriberInternal sid c maxSubscribers s =
     (if closed s then (Some ChannelClosedError, conn_Close c s)
      else if maxSubscribers > 0 \<and> int (length (subscribers s)) \<ge> maxSubscribers
        then (Some (MaxSubscribersError maxSubscribers), s)
      else (let s1 = s\<lparr>subscribers := gm_set sid c (subscribers s), keepAliveTimer := None\<rparr>;
                s2 = (if publisherDisconnected s1 then snd (writeToConn c EncodeRunnerDisconnected s1) else s1)
            in (None, s2\<lparr>sub_readers := sid # sub_readers s2\<rparr>)))"

definition AddSubscriber :: "str \<Rightarrow> conn \<Rightarrow> channel \<Rightarrow> channel" where
  "AddSubscriber sid c s = snd (addSubscriberInternal sid c 0 s)"

definition AddSubscriberWithLimit :: "str \<Rightarrow> conn \<Rightarrow> int \<Rightarrow> channel \<Rightarrow> subscriber_error option \<times> channel" where
  "AddSubscriberWithLimit = addSubscriberInternal"

subsection \<open>The control lease (control\_lease.go, control\_lease\_force.go)\<close>

definition setControlLeaseLocked :: "str \<Rightarrow> str \<Rightarrow> time \<Rightarrow> channel \<Rightarrow> channel" where
  "setControlLeaseLocked sid leaseID now s =
     (let d = ControlLeaseDuration (config s);
          duration = (if d \<le> 0 then ControlLeaseDuration DefaultChannelConfig else d);
          epoch = controlEpoch s + 1
      in case AfterFunc duration (LeaseTimer epoch) s of
        (t, s') \<Rightarrow> s'\<lparr>controlOwner := sid, controlLeaseID := leaseID, controlExpiresAt := Some (now + duration),
                      controlEpoch := epoch, controlTimer := Some t\<rparr>)"

definition stopControlLease :: "channel \<Rightarrow> channel" where
  "stopControlLease = clearControlLeaseLocked"

text \<open>UnixMilli of a time counted in nanoseconds.\<close>

definition unix_milli :: "time option \<Rightarrow> int" where
  "unix_milli t = (case t of None \<Rightarrow> 0 | Some e \<Rightarrow> e div 10 ^ 6)"

definition sendControlStatus :: "str \<Rightarrow> str \<Rightarrow> str \<Rightarrow> time option \<Rightarrow> channel \<Rightarrow> channel" where
  "sendControlStatus sid status leaseID expiresAt s = (case gm_get (subscribers s) sid of
       None \<Rightarrow> s
     | Some c \<Rightarrow> (case writeToConn c (EncodeControlLeaseStatus status leaseID (unix_milli expiresAt)) s of
         (ok, s1) \<Rightarrow> if ok then s1 else RemoveSubscriber sid s1))"

definition send_required :: "str \<Rightarrow> channel \<Rightarrow> channel" where
  "send_required sid = sendControlStatus sid ControlLeaseStatusRequired [] None"

definition send_granted :: "str \<Rightarrow> channel \<Rightarrow> channel" where
  "send_granted sid s = sendControlStatus sid ControlLeaseStatusGranted (controlLeaseID s) (controlExpiresAt s) s"

definition acquireControlLease :: "str \<Rightarrow> channel \<Rightarrow> channel" where
  "acquireControlLease sid s0 = (case newControlLeaseID s0 of
       (None, s) \<Rightarrow> send_required sid s
     | (Some leaseID, s) \<Rightarrow>
         (let now = clock s in
          if closed s then s
          else if controlOwner s \<noteq> [] \<and> before now (controlExpiresAt s)
            then (if controlOwner s = sid then send_granted sid s
                  else sendControlStatus sid ControlLeaseStatusBusy [] None s)
          else send_granted sid (setControlLeaseLocked sid leaseID now s)))"

definition forceAcquireControlLease :: "str \<Rightarrow> channel \<Rightarrow> channel" where
  "forceAcquireControlLease sid s0 = (case newControlLeaseID s0 of
       (None, s) \<Rightarrow> send_required sid s
     | (Some leaseID, s) \<Rightarrow>
         (let now = clock s in
          if closed s then s
          else if controlOwner s = sid \<and> before now (controlExpiresAt s) then send_granted sid s
          else (let stole = (controlOwner s \<noteq> [] \<and> before now (controlExpiresAt s));
                    s1 = (if stole then clearControlLeaseLocked s else s);
                    s2 = setControlLeaseLocked sid leaseID now s1;
                    s3 = (if stole then broadcast_status Broadcast ControlLeaseStatusReleased s2 else s2)
                in sendControlStatus sid ControlLeaseStatusGranted leaseID (controlExpiresAt s2) s3)))"

definition renewControlLease :: "str \<Rightarrow> str \<Rightarrow> channel \<Rightarrow> channel" where
  "renewControlLease sid leaseID s =
     (let now = clock s in
      if closed s \<or> controlOwner s \<noteq> sid \<or> controlLeaseID s \<noteq> leaseID \<or> \<not> before now (controlExpiresAt s)
      then send_required sid s
      else send_granted sid (setControlLeaseLocked sid leaseID now s))"

definition releaseControlLease :: "str \<Rightarrow> str \<Rightarrow> channel \<Rightarrow> channel" where
  "releaseControlLease sid leaseID s =
     (if controlOwner s \<noteq> sid \<or> controlLeaseID s \<noteq> leaseID then send_required sid s
      else broadcast_status Broadcast ControlLeaseStatusReleased (clearControlLeaseLocked s))"

text \<open>Whether the write was allowed, and whether it succeeded.\<close>

definition writeToPublisherWithControlLease :: "str \<Rightarrow> bytes \<Rightarrow> channel \<Rightarrow> (bool \<times> bool) \<times> channel" where
  "writeToPublisherWithControlLease sid data s =
     (let now = clock s in
      if controlOwner s = sid \<and> before now (controlExpiresAt s)
      then (case writeToPublisher data s of (ok, s1) \<Rightarrow> ((True, ok), s1))
      else (let expired = (controlOwner s \<noteq> [] \<and> \<not> before now (controlExpiresAt s)) in
            ((False, True),
             if expired then broadcast_status Broadcast ControlLeaseStatusExpired (clearControlLeaseLocked s) else s)))"

definition expireControlLease :: "64 word \<Rightarrow> channel \<Rightarrow> channel" where
  "expireControlLease epoch s =
     (if controlOwner s = [] \<or> controlEpoch s \<noteq> epoch then s
      else (let s1 = clearControlLeaseLocked s in
            if closed s1 then s1 else broadcast_status Broadcast ControlLeaseStatusExpired s1))"

definition handleControlLeaseRequest :: "str \<Rightarrow> control_lease_request \<Rightarrow> channel \<Rightarrow> channel" where
  "handleControlLeaseRequest sid r s =
     (let a = clr_action r in
      if a = ControlLeaseActionAcquire then acquireControlLease sid s
      else if a = ControlLeaseActionForceAcquire then forceAcquireControlLease sid s
      else if a = ControlLeaseActionRenew then renewControlLease sid (clr_lease_id r) s
      else if a = ControlLeaseActionRelease then releaseControlLease sid (clr_lease_id r) s
      else send_required sid s)"

subsection \<open>What a subscriber sends (channel\_io.go)\<close>

definition needs_lease :: "byte \<Rightarrow> bool" where
  "needs_lease t \<longleftrightarrow> t = MsgTypeInput \<or> t = MsgTypeResize \<or> t = MsgTypeAcpCommand"

definition forward_message :: "str \<Rightarrow> byte \<Rightarrow> bytes \<Rightarrow> channel \<Rightarrow> channel" where
  "forward_message sid t data s =
     (if needs_lease t
      then (case writeToPublisherWithControlLease sid data s of
          ((allowed, _), s1) \<Rightarrow> if allowed then s1 else send_required sid s1)
      else snd (writeToPublisher data s))"

text \<open>The error it returns is only logged.\<close>

definition handleSubscriberMessage :: "str \<Rightarrow> bytes \<Rightarrow> channel \<Rightarrow> channel" where
  "handleSubscriberMessage sid data s = (case DecodeMessage data of
       Inl _ \<Rightarrow> snd (writeToPublisher data s)
     | Inr m \<Rightarrow>
         if msg_type m = MsgTypeControl
         then (case DecodeControlLeaseRequest (msg_payload m) of
             LeaseInvalid \<Rightarrow> send_required sid s
           | LeaseRequest r \<Rightarrow> handleControlLeaseRequest sid r s
           | LeaseUnmatched \<Rightarrow> forward_message sid (msg_type m) data s)
         else forward_message sid (msg_type m) data s)"

definition maxMessageSize :: nat where
  "maxMessageSize = 4 * 1024 * 1024"

subsection \<open>The life of the publisher and of the channel\<close>

definition handlePublisherDisconnect :: "conn \<Rightarrow> 64 word \<Rightarrow> channel \<Rightarrow> channel" where
  "handlePublisherDisconnect c epoch s =
     (if publisher s \<noteq> Some c \<or> publisherEpoch s \<noteq> epoch then s
      else (let s1 = s\<lparr>publisher := None, publisherDisconnected := True\<rparr> in
            case AfterFunc (PublisherReconnectTimeout (config s1)) ReconnectTimer s1 of
              (t, s2) \<Rightarrow> Broadcast EncodeRunnerDisconnected (conn_Close c (s2\<lparr>publisherReconnectTimer := Some t\<rparr>))))"

text \<open>publisherWg.Wait: the forwarding goroutines end, each at the error of its read.\<close>

definition publisherWg_Wait :: "channel \<Rightarrow> channel" where
  "publisherWg_Wait s =
     (fold (\<lambda>(c, e). handlePublisherDisconnect c e) (pub_readers s) s)\<lparr>pub_readers := []\<rparr>"

text \<open>The goroutine forwardPublisherToSubscribers up to its read loop.\<close>

definition start_forwarding :: "64 word \<Rightarrow> channel \<Rightarrow> channel" where
  "start_forwarding epoch s = (case publisher s of
       None \<Rightarrow> s
     | Some c \<Rightarrow> if publisherEpoch s \<noteq> epoch then s else s\<lparr>pub_readers := (c, epoch) # pub_readers s\<rparr>)"

definition SetPublisher :: "conn \<Rightarrow> channel \<Rightarrow> channel" where
  "SetPublisher c s =
     (if closed s then conn_Close c s
      else if publisher s = Some c then s
      else (let s1 = s\<lparr>publisher := Some c, publisherDisconnected := False,
                       publisherEpoch := publisherEpoch s + 1, publisherReconnectTimer := None\<rparr>;
                s2 = (case publisher s of None \<Rightarrow> s1 | Some old \<Rightarrow> conn_Close old s1);
                s3 = publisherWg_Wait s2;
                s4 = (if publisherDisconnected s then Broadcast EncodeRunnerReconnected s3 else s3)
            in start_forwarding (publisherEpoch s1) s4))"

definition close_publisher :: "channel \<Rightarrow> channel" where
  "close_publisher s = (case publisher s of None \<Rightarrow> s | Some c \<Rightarrow> (conn_Close c s)\<lparr>publisher := None\<rparr>)"

definition closeInternal :: "channel \<Rightarrow> channel" where
  "closeInternal s =
     (if closed s then s
      else (let s1 = stopControlLease (s\<lparr>closed := True\<rparr>);
                s2 = close_publisher (s1\<lparr>publisherReconnectTimer := None\<rparr>);
                s3 = publisherWg_Wait s2;
                s4 = (fold (\<lambda>x. conn_Close (snd x)) (subscribers s3) s3)\<lparr>subscribers := []\<rparr>
            in if has_onChannelClosed s4 then log_call (ChannelClosed (PodKey s4)) s4 else s4))"

definition Close :: "channel \<Rightarrow> channel" where
  "Close = closeInternal"

text \<open>The callback of the reconnect timer.\<close>

definition reconnectExpired :: "channel \<Rightarrow> channel" where
  "reconnectExpired s = (if publisherDisconnected s then closeInternal s else s)"

definition GetPublisher :: "channel \<Rightarrow> conn option" where "GetPublisher = publisher"
definition IsPublisherDisconnected :: "channel \<Rightarrow> bool" where "IsPublisherDisconnected = publisherDisconnected"
definition IsClosed :: "channel \<Rightarrow> bool" where "IsClosed = closed"
definition SubscriberCount :: "channel \<Rightarrow> nat" where "SubscriberCount s = length (subscribers s)"

end
