(* ===== verification/RelayBroadcast.thy ===== *)
theory RelayBroadcast
  imports RelayChannel
begin

text \<open>
  Broadcast and RemoveSubscriber call each other. This theory shows that the recursion bound of the
  model is enough, so that both satisfy the equations of the source, and gives one induction over the
  two: a relation on states that each elementary change respects holds between the state before and
  after any broadcast, removal or status message (locale broadcast\_relation).
\<close>

subsection \<open>Elementary facts\<close>

lemma writeToConn_fields [simp]:
  "subscribers (snd (writeToConn c d s)) = subscribers s"
  "closed (snd (writeToConn c d s)) = closed s"
  "publisher (snd (writeToConn c d s)) = publisher s"
  "controlOwner (snd (writeToConn c d s)) = controlOwner s"
  "controlLeaseID (snd (writeToConn c d s)) = controlLeaseID s"
  "controlExpiresAt (snd (writeToConn c d s)) = controlExpiresAt s"
  "controlEpoch (snd (writeToConn c d s)) = controlEpoch s"
  "controlTimer (snd (writeToConn c d s)) = controlTimer s"
  "clock (snd (writeToConn c d s)) = clock s"
  "armed (snd (writeToConn c d s)) = armed s"
  "config (snd (writeToConn c d s)) = config s"
  "closed_conns (snd (writeToConn c d s)) = closed_conns s"
  by (simp_all add: writeToConn_def)

lemma write_each_subscribers [simp]: "subscribers (snd (write_each d xs s)) = subscribers s"
proof (induction xs arbitrary: s)
  case (Cons x xs)
  then show ?case using writeToConn_fields(1) [of "snd x" d s] by (simp add: case_prod_beta del: writeToConn_fields)
qed simp

lemma write_each_failed: "set (fst (write_each d xs s)) \<subseteq> fst ` set xs"
  by (induction xs arbitrary: s) (auto simp: case_prod_beta split: if_splits)

lemma gm_del_length: "gm_get m k = Some v \<Longrightarrow> length (gm_del k m) < length m"
proof (induction m)
  case (Cons x m)
  then show ?case
    by (cases x) (auto simp: gm_get_def gm_del_def less_Suc_eq_le split: if_splits)
qed (simp add: gm_get_def)

lemma handleLastSubscriberGone_subscribers [simp]:
  "subscribers (handleLastSubscriberGone s) = subscribers s"
  by (simp add: handleLastSubscriberGone_def AfterFunc_def)

lemma clearControlLeaseLocked_subscribers [simp]:
  "subscribers (clearControlLeaseLocked s) = subscribers s"
  by (simp add: clearControlLeaseLocked_def)

subsection \<open>The recursion bound is enough\<close>

text \<open>A Broadcast does not add subscribers.\<close>

definition shrinks :: "(bytes \<Rightarrow> channel \<Rightarrow> channel) \<Rightarrow> bool" where
  "shrinks bc \<longleftrightarrow> (\<forall>d s. length (subscribers (bc d s)) \<le> length (subscribers s))"

text \<open>Two Broadcasts that agree on the states with fewer than k subscribers.\<close>

definition agree_below :: "nat \<Rightarrow> (bytes \<Rightarrow> channel \<Rightarrow> channel) \<Rightarrow> (bytes \<Rightarrow> channel \<Rightarrow> channel) \<Rightarrow> bool" where
  "agree_below k bc bc' \<longleftrightarrow> (\<forall>d s. length (subscribers s) < k \<longrightarrow> bc d s = bc' d s)"

lemma RemoveSubscriber_with_shrinks:
  assumes "shrinks bc"
  shows "length (subscribers (RemoveSubscriber_with bc sid s)) \<le> length (subscribers s)"
proof (cases "gm_get (subscribers s) sid")
  case (Some c)
  have le: "length (subscribers (bc d (clearControlLeaseLocked t))) \<le> length (subscribers s)"
    if "subscribers t = gm_del sid (subscribers s)" for d t
    using assms that gm_del_length [OF Some] unfolding shrinks_def
    by (metis clearControlLeaseLocked_subscribers less_imp_le order_trans)
  show ?thesis
    using gm_del_length [OF Some]
    by (auto simp: RemoveSubscriber_with_def Some Let_def release_for_subscriber_with_def broadcast_status_def
        intro!: le)
qed (simp add: RemoveSubscriber_with_def)

lemma RemoveSubscriber_with_agree:
  assumes "agree_below k bc bc'" "length (subscribers s) \<le> k"
  shows "RemoveSubscriber_with bc sid s = RemoveSubscriber_with bc' sid s"
proof (cases "gm_get (subscribers s) sid")
  case (Some c)
  then have "length (gm_del sid (subscribers s)) < k" using gm_del_length [OF Some] assms(2) by simp
  with assms(1) show ?thesis
    by (simp add: RemoveSubscriber_with_def Some Let_def release_for_subscriber_with_def broadcast_status_def
        agree_below_def)
qed (simp add: RemoveSubscriber_with_def)

lemma broadcast_with_agree:
  assumes "agree_below k bc bc'" "shrinks bc'" "length (subscribers s) \<le> k"
  shows "broadcast_with bc d s = broadcast_with bc' d s"
proof -
  have "fold (RemoveSubscriber_with bc) ids t = fold (RemoveSubscriber_with bc') ids t"
    if "length (subscribers t) \<le> k" for ids t
    using that
  proof (induction ids arbitrary: t)
    case (Cons i ids)
    have "length (subscribers (RemoveSubscriber_with bc' i t)) \<le> k"
      using RemoveSubscriber_with_shrinks [OF assms(2), of i t] Cons.prems by simp
    then show ?case using Cons RemoveSubscriber_with_agree [OF assms(1)] by simp
  qed simp
  moreover have "length (subscribers (snd (write_each d (subscribers s) s))) \<le> k" using assms(3) by simp
  ultimately show ?thesis by (simp add: broadcast_with_def case_prod_beta)
qed

lemma broadcast_with_shrinks: "shrinks bc \<Longrightarrow> shrinks (broadcast_with bc)"
proof -
  assume sh: "shrinks bc"
  have "length (subscribers (fold (RemoveSubscriber_with bc) ids t)) \<le> length (subscribers t)" for ids t
    by (induction ids arbitrary: t) (auto intro: order_trans RemoveSubscriber_with_shrinks [OF sh])
  from this [of _ "snd (write_each _ _ _)"] show ?thesis
    by (simp add: shrinks_def broadcast_with_def case_prod_beta)
qed

lemma broadcast_n_shrinks: "shrinks (broadcast_n n)"
proof (induction n)
  case (Suc n)
  have "broadcast_n (Suc n) = broadcast_with (broadcast_n n)" by (simp add: fun_eq_iff)
  with Suc broadcast_with_shrinks show ?case by simp
qed (simp add: shrinks_def)

lemma broadcast_n_enough:
  "length (subscribers s) < n \<Longrightarrow> broadcast_n n d s = Broadcast d s"
proof (induction "length (subscribers s)" arbitrary: n d s rule: less_induct)
  case less
  obtain m where n: "n = Suc m" using less.prems by (cases n) auto
  have "agree_below (length (subscribers s)) (broadcast_n m) (broadcast_n (length (subscribers s)))"
    unfolding agree_below_def using less.hyps less.prems n by (metis less_Suc_eq_le order_less_le_trans)
  then have "broadcast_with (broadcast_n m) d s = broadcast_with (broadcast_n (length (subscribers s))) d s"
    by (rule broadcast_with_agree) (simp_all add: broadcast_n_shrinks)
  then show ?case by (simp add: n Broadcast_def)
qed

lemma Broadcast_shrinks: "shrinks Broadcast"
  using broadcast_n_shrinks by (auto simp: shrinks_def Broadcast_def simp del: broadcast_n.simps)

text \<open>The equations of the source.\<close>

lemma Broadcast_unfold:
  "Broadcast d s = (case write_each d (subscribers s) s of (failed, s1) \<Rightarrow> fold RemoveSubscriber failed s1)"
proof -
  have "agree_below (length (subscribers s)) (broadcast_n (length (subscribers s))) Broadcast"
    unfolding agree_below_def using broadcast_n_enough by blast
  then have "broadcast_with (broadcast_n (length (subscribers s))) d s = broadcast_with Broadcast d s"
    by (rule broadcast_with_agree) (simp_all add: Broadcast_shrinks)
  then show ?thesis by (simp add: Broadcast_def broadcast_with_def RemoveSubscriber_def)
qed

lemma releaseControlLeaseForSubscriber_unfold:
  "releaseControlLeaseForSubscriber sid s =
     (if controlOwner s \<noteq> sid then s
      else Broadcast (EncodeControlLeaseStatus ControlLeaseStatusReleased [] 0) (clearControlLeaseLocked s))"
  by (simp add: releaseControlLeaseForSubscriber_def release_for_subscriber_with_def broadcast_status_def)

lemma RemoveSubscriber_unfold:
  "RemoveSubscriber sid s = (case gm_get (subscribers s) sid of
       None \<Rightarrow> s
     | Some c \<Rightarrow>
         (let s1 = (conn_Close c s)\<lparr>subscribers := gm_del sid (subscribers s)\<rparr>;
              s2 = releaseControlLeaseForSubscriber sid s1
          in if subscribers s1 = [] then handleLastSubscriberGone s2 else s2))"
  unfolding RemoveSubscriber_def RemoveSubscriber_with_def releaseControlLeaseForSubscriber_def ..

subsection \<open>One induction for broadcasts, removals and status messages\<close>

definition unsubscribe :: "str \<Rightarrow> conn \<Rightarrow> channel \<Rightarrow> channel" where
  "unsubscribe sid c s = (conn_Close c s)\<lparr>subscribers := gm_del sid (subscribers s)\<rparr>"

locale broadcast_relation =
  fixes R :: "channel \<Rightarrow> channel \<Rightarrow> bool"
  assumes refl: "R s s"
    and trans: "R s t \<Longrightarrow> R t u \<Longrightarrow> R s u"
    and sent: "c \<in> snd ` set (subscribers s) \<Longrightarrow> R s (snd (writeToConn c d s))"
    and drop: "gm_get (subscribers s) sid = Some c \<Longrightarrow> controlOwner s \<noteq> sid \<Longrightarrow> R s (unsubscribe sid c s)"
    and drop_owner: "gm_get (subscribers s) (controlOwner s) = Some c
        \<Longrightarrow> R s (clearControlLeaseLocked (unsubscribe (controlOwner s) c s))"
    and last: "subscribers s = [] \<Longrightarrow> R s (handleLastSubscriberGone s)"
begin

lemma write_each: "set xs \<subseteq> set (subscribers s) \<Longrightarrow> R s (snd (write_each d xs s))"
proof (induction xs arbitrary: s)
  case (Cons x xs)
  have "R s (snd (writeToConn (snd x) d s))" using Cons.prems by (intro sent) auto
  moreover have "R (snd (writeToConn (snd x) d s)) (snd (write_each d xs (snd (writeToConn (snd x) d s))))"
    using Cons by auto
  ultimately show ?case by (auto simp: case_prod_beta intro: trans)
qed (simp add: refl)

lemma remove_with:
  assumes bc: "\<And>d s. R s (bc d s)"
  shows "R s (RemoveSubscriber_with bc sid s)"
proof (cases "gm_get (subscribers s) sid")
  case (Some c)
  let ?s1 = "unsubscribe sid c s"
  let ?s2 = "release_for_subscriber_with bc sid ?s1"
  have owner: "controlOwner ?s1 = controlOwner s" by (simp add: unsubscribe_def conn_Close_def)
  have s2: "R s ?s2"
  proof (cases "controlOwner s = sid")
    case True
    have "R s (clearControlLeaseLocked ?s1)" using drop_owner [of s c] Some True by simp
    then show ?thesis
      using bc trans True owner by (auto simp: release_for_subscriber_with_def broadcast_status_def)
  next
    case False
    then show ?thesis using drop [OF Some] owner by (simp add: release_for_subscriber_with_def)
  qed
  moreover have "R ?s2 (handleLastSubscriberGone ?s2)"
  proof (cases "subscribers ?s2 = []")
    case False
    then show ?thesis by (simp add: handleLastSubscriberGone_def refl)
  qed (rule last)
  ultimately show ?thesis
    by (auto simp: RemoveSubscriber_with_def Some Let_def unsubscribe_def intro: trans)
qed (simp add: RemoveSubscriber_with_def refl)

lemma broadcast_n: "R s (broadcast_n n d s)"
proof (induction n arbitrary: d s)
  case (Suc n)
  have "R t (fold (RemoveSubscriber_with (RelayChannel.broadcast_n n)) ids t)" for ids t
  proof (induction ids arbitrary: t)
    case (Cons i ids)
    have "R t (RemoveSubscriber_with (RelayChannel.broadcast_n n) i t)" by (rule remove_with) (rule Suc.IH)
    from trans [OF this Cons.IH] show ?case by simp
  qed (simp add: refl)
  with write_each [of "subscribers s" s] show ?case
    by (auto simp: broadcast_with_def case_prod_beta intro: trans)
qed (simp add: refl)

lemma broadcast: "R s (Broadcast d s)"
  unfolding Broadcast_def by (rule broadcast_n)

lemma remove: "R s (RemoveSubscriber sid s)"
  unfolding RemoveSubscriber_def by (rule remove_with) (rule broadcast)

lemma status: "R s (sendControlStatus sid st l e s)"
proof (cases "gm_get (subscribers s) sid")
  case (Some c)
  then have "c \<in> snd ` set (subscribers s)" by (force simp: gm_get_def dest: map_of_SomeD)
  then have "R s (snd (writeToConn c d s))" for d by (rule sent)
  then show ?thesis by (auto simp: sendControlStatus_def Some case_prod_beta intro: trans remove)
qed (simp add: sendControlStatus_def refl)

end

end
