(* ===== verification/RelayLease.thy ===== *)
theory RelayLease
  imports RelayBroadcast
begin

text \<open>
  What broadcasts, removals and status messages leave alone, as instances of broadcast\_relation, and
  the control lease as an abstract lock: who holds it, under which id, until when. Each lease operation
  of the channel is the operation of the lock, up to the loss of the lease when its owner's connection
  breaks during the messages it sends.
\<close>

definition ids :: "channel \<Rightarrow> str set" where
  "ids s = fst ` set (subscribers s)"

definition conns :: "channel \<Rightarrow> conn set" where
  "conns s = snd ` set (subscribers s)"

lemma gm_get_in_conns: "gm_get (subscribers s) sid = Some c \<Longrightarrow> c \<in> conns s"
  by (force simp: gm_get_def conns_def dest: map_of_SomeD)

lemma gm_get_in_ids: "gm_get (subscribers s) sid = Some c \<Longrightarrow> sid \<in> ids s"
  by (force simp: gm_get_def ids_def dest: map_of_SomeD)

lemma gm_get_ids_None: "gm_get (subscribers s) sid = None \<longleftrightarrow> sid \<notin> ids s"
  by (simp add: gm_get_def ids_def map_of_eq_None_iff)

lemma gm_del_set: "set (gm_del k m) = {x \<in> set m. fst x \<noteq> k}"
  by (auto simp: gm_del_def)

lemmas elementary_defs = writeToConn_def unsubscribe_def conn_Close_def clearControlLeaseLocked_def
  handleLastSubscriberGone_def AfterFunc_def

subsection \<open>What stays\<close>

definition same_setting :: "channel \<Rightarrow> channel \<Rightarrow> bool" where
  "same_setting s s' \<longleftrightarrow>
     clock s' = clock s \<and> entropy s' = entropy s \<and> entropy_reads s' = entropy_reads s \<and>
     write_fails s' = write_fails s \<and> pub_readers s' = pub_readers s \<and> sub_readers s' = sub_readers s \<and>
     called s' = called s \<and> PodKey s' = PodKey s \<and> config s' = config s \<and> publisher s' = publisher s \<and>
     publisherDisconnected s' = publisherDisconnected s \<and>
     publisherReconnectTimer s' = publisherReconnectTimer s \<and> publisherEpoch s' = publisherEpoch s \<and>
     has_onAllSubscribersGone s' = has_onAllSubscribersGone s \<and> has_onChannelClosed s' = has_onChannelClosed s \<and>
     closed s' = closed s"

interpretation setting: broadcast_relation same_setting
  by unfold_locales (simp_all add: same_setting_def elementary_defs)

text \<open>Only keep-alive timers are armed, and none is forgotten.\<close>

definition arms_keep_alive :: "channel \<Rightarrow> channel \<Rightarrow> bool" where
  "arms_keep_alive s s' \<longleftrightarrow> (\<exists>l. armed s' = armed s @ l \<and> snd ` set l \<subseteq> {KeepAliveTimer})"

interpretation arming: broadcast_relation arms_keep_alive
proof
  fix s t u
  assume "arms_keep_alive s t" "arms_keep_alive t u"
  then show "arms_keep_alive s u" unfolding arms_keep_alive_def by (metis append.assoc Un_least image_Un set_append)
qed (simp_all add: arms_keep_alive_def elementary_defs)

text \<open>Messages go to subscribers, and no subscriber is added.\<close>

definition talks_to_subscribers :: "channel \<Rightarrow> channel \<Rightarrow> bool" where
  "talks_to_subscribers s s' \<longleftrightarrow> set (subscribers s') \<subseteq> set (subscribers s) \<and>
     (\<exists>l. sent s' = sent s @ l \<and> fst ` set l \<subseteq> conns s)"

lemma talks_trans: "talks_to_subscribers s t \<Longrightarrow> talks_to_subscribers t u \<Longrightarrow> talks_to_subscribers s u"
proof -
  assume st: "talks_to_subscribers s t" and tu: "talks_to_subscribers t u"
  from st obtain l where l: "sent t = sent s @ l" "fst ` set l \<subseteq> conns s" by (auto simp: talks_to_subscribers_def)
  from tu obtain k where k: "sent u = sent t @ k" "fst ` set k \<subseteq> conns t" by (auto simp: talks_to_subscribers_def)
  have "conns t \<subseteq> conns s" using st by (auto simp: talks_to_subscribers_def conns_def)
  then have "sent u = sent s @ (l @ k) \<and> fst ` set (l @ k) \<subseteq> conns s" using l k by auto
  then show ?thesis using st tu by (auto simp: talks_to_subscribers_def)
qed

interpretation talking: broadcast_relation talks_to_subscribers
proof
  show "talks_to_subscribers s t \<Longrightarrow> talks_to_subscribers t u \<Longrightarrow> talks_to_subscribers s u" for s t u
    by (rule talks_trans)
qed (auto simp: talks_to_subscribers_def elementary_defs gm_del_set conns_def)

text \<open>The lease stays, or its owner is gone and the lease with it.\<close>

definition lease_of :: "channel \<Rightarrow> str \<times> str \<times> time option \<times> timer option \<times> 64 word" where
  "lease_of s = (controlOwner s, controlLeaseID s, controlExpiresAt s, controlTimer s, controlEpoch s)"

definition lease_or_dropped :: "channel \<Rightarrow> channel \<Rightarrow> bool" where
  "lease_or_dropped s s' \<longleftrightarrow> ([] \<notin> ids s \<longrightarrow> ids s' \<subseteq> ids s \<and>
     (lease_of s' = lease_of s \<or>
      controlOwner s \<in> ids s \<and> controlOwner s \<notin> ids s' \<and>
        lease_of s' = ([], [], None, None, controlEpoch s + 1)))"

interpretation leasing: broadcast_relation lease_or_dropped
proof
  fix s t u
  assume "lease_or_dropped s t" "lease_or_dropped t u"
  then show "lease_or_dropped s u" by (auto simp: lease_or_dropped_def lease_of_def)
next
  fix s :: channel and c
  assume "gm_get (subscribers s) (controlOwner s) = Some c"
  then show "lease_or_dropped s (clearControlLeaseLocked (unsubscribe (controlOwner s) c s))"
    using gm_get_in_ids by (auto simp: lease_or_dropped_def lease_of_def elementary_defs ids_def gm_del_set)
qed (auto simp: lease_or_dropped_def lease_of_def elementary_defs ids_def gm_del_set)

text \<open>The keep-alive timer is forgotten only while there are no subscribers.\<close>

definition idle_timer :: "channel \<Rightarrow> bool" where
  "idle_timer s \<longleftrightarrow> (keepAliveTimer s \<noteq> None \<longrightarrow> subscribers s = [])"

interpretation idle: broadcast_relation "\<lambda>s s'. idle_timer s \<longrightarrow> idle_timer s'"
  by unfold_locales (auto simp: idle_timer_def elementary_defs gm_del_def)

text \<open>The connections of the subscribers are distinct and open.\<close>

definition conns_ok :: "channel \<Rightarrow> bool" where
  "conns_ok s \<longleftrightarrow> gm_ok (subscribers s) \<and> distinct (map snd (subscribers s)) \<and> conns s \<inter> set (closed_conns s) = {}"

lemma conns_ok_unsubscribe:
  assumes ok: "conns_ok s" and c: "gm_get (subscribers s) sid = Some c"
  shows "conns_ok (unsubscribe sid c s)"
proof -
  have inj: "k = sid" if "(k, c) \<in> set (subscribers s)" for k
  proof -
    have "(sid, c) \<in> set (subscribers s)" using c by (auto simp: gm_get_def dest: map_of_SomeD)
    with that ok show ?thesis
      unfolding conns_ok_def distinct_map by (auto dest: inj_onD [where x = "(k, c)" and y = "(sid, c)"])
  qed
  have "distinct (map snd (gm_del sid (subscribers s)))"
    using ok by (auto simp: conns_ok_def gm_del_def distinct_map intro: inj_on_subset)
  moreover have "c \<notin> snd ` set (gm_del sid (subscribers s))" using inj by (auto simp: gm_del_set)
  moreover have "snd ` set (gm_del sid (subscribers s)) \<subseteq> conns s" by (auto simp: gm_del_set conns_def)
  ultimately show ?thesis using ok
    by (auto simp: conns_ok_def conns_def unsubscribe_def conn_Close_def)
qed

interpretation connected: broadcast_relation "\<lambda>s s'. conns_ok s \<longrightarrow> conns_ok s'"
proof
  fix s :: channel and c
  assume "gm_get (subscribers s) (controlOwner s) = Some c"
  from conns_ok_unsubscribe [OF _ this]
  show "conns_ok s \<longrightarrow> conns_ok (clearControlLeaseLocked (unsubscribe (controlOwner s) c s))"
    by (auto simp: conns_ok_def conns_def clearControlLeaseLocked_def)
qed (auto simp: conns_ok_unsubscribe, auto simp: conns_ok_def conns_def elementary_defs)

text \<open>Connections are only closed; those closed belong to subscribers.\<close>

definition closes_subscribers :: "channel \<Rightarrow> channel \<Rightarrow> bool" where
  "closes_subscribers s s' \<longleftrightarrow> conns s' \<subseteq> conns s \<and> set (closed_conns s) \<subseteq> set (closed_conns s') \<and>
     set (closed_conns s') \<subseteq> set (closed_conns s) \<union> conns s"

interpretation closing: broadcast_relation closes_subscribers
proof
  show "closes_subscribers s t \<Longrightarrow> closes_subscribers t u \<Longrightarrow> closes_subscribers s u" for s t u
    unfolding closes_subscribers_def by blast
next
  fix s :: channel and c
  assume "gm_get (subscribers s) (controlOwner s) = Some c"
  from gm_get_in_conns [OF this]
  show "closes_subscribers s (clearControlLeaseLocked (unsubscribe (controlOwner s) c s))"
    by (auto simp: closes_subscribers_def elementary_defs conns_def gm_del_set)
next
  fix s :: channel and sid c
  assume "gm_get (subscribers s) sid = Some c"
  from gm_get_in_conns [OF this] show "closes_subscribers s (unsubscribe sid c s)"
    by (auto simp: closes_subscribers_def elementary_defs conns_def gm_del_set)
qed (auto simp: closes_subscribers_def elementary_defs conns_def)

subsection \<open>The lease as a lock\<close>

text \<open>The holder, the lease id and the time the lease ends.\<close>

type_synonym lock = "(str \<times> str \<times> time) option"

definition holder_of :: "channel \<Rightarrow> lock" where
  "holder_of s = (if controlOwner s = [] then None
     else Some (controlOwner s, controlLeaseID s, the (controlExpiresAt s)))"

text \<open>The requests a subscriber makes of the lock; a missing id is a failure of the random source.\<close>

datatype lock_op = Acquire "str option" | ForceAcquire "str option" | Renew str | Release str | Typing | Other

fun lock_step :: "duration \<Rightarrow> time \<Rightarrow> str \<Rightarrow> lock_op \<Rightarrow> lock \<Rightarrow> lock" where
  "lock_step d now sid (Acquire i) a = (case (i, a) of
       (None, _) \<Rightarrow> a
     | (Some l, None) \<Rightarrow> Some (sid, l, now + d)
     | (Some l, Some (_, _, e)) \<Rightarrow> if now < e then a else Some (sid, l, now + d))"
| "lock_step d now sid (ForceAcquire i) a = (case (i, a) of
       (None, _) \<Rightarrow> a
     | (Some l, None) \<Rightarrow> Some (sid, l, now + d)
     | (Some l, Some (h, _, e)) \<Rightarrow> if h = sid \<and> now < e then a else Some (sid, l, now + d))"
| "lock_step d now sid (Renew l) a = (case a of
       Some (h, l', e) \<Rightarrow> if h = sid \<and> l' = l \<and> now < e then Some (sid, l, now + d) else a
     | None \<Rightarrow> None)"
| "lock_step d now sid (Release l) a = (case a of
       Some (h, l', e) \<Rightarrow> if h = sid \<and> l' = l then None else a
     | None \<Rightarrow> None)"
| "lock_step d now sid Typing a = (case a of
       Some (h, l, e) \<Rightarrow> if now < e then a else None
     | None \<Rightarrow> None)"
| "lock_step d now sid Other a = a"

definition lease_duration :: "channel \<Rightarrow> duration" where
  "lease_duration s = (let d = ControlLeaseDuration (config s) in if d \<le> 0 then 30 * Second else d)"

definition fresh_lease_id :: "channel \<Rightarrow> str option" where
  "fresh_lease_id s = fst (newControlLeaseID s)"

text \<open>The operation a message asks for.\<close>

definition request_op :: "control_lease_request \<Rightarrow> channel \<Rightarrow> lock_op" where
  "request_op r s =
     (let a = clr_action r in
      if a = ControlLeaseActionAcquire then Acquire (fresh_lease_id s)
      else if a = ControlLeaseActionForceAcquire then ForceAcquire (fresh_lease_id s)
      else if a = ControlLeaseActionRenew then Renew (clr_lease_id r)
      else if a = ControlLeaseActionRelease then Release (clr_lease_id r) else Other)"

definition message_op :: "bytes \<Rightarrow> channel \<Rightarrow> lock_op" where
  "message_op data s = (case data of
       [] \<Rightarrow> Other
     | t # payload \<Rightarrow>
         if t = MsgTypeControl
         then (case DecodeControlLeaseRequest payload of LeaseRequest r \<Rightarrow> request_op r s | _ \<Rightarrow> Other)
         else if needs_lease t then Typing else Other)"

text \<open>The lease is empty or complete, and empty on a closed channel.\<close>

definition lease_inv :: "channel \<Rightarrow> bool" where
  "lease_inv s \<longleftrightarrow> (controlOwner s = [] \<longleftrightarrow> controlExpiresAt s = None) \<and>
     (controlOwner s = [] \<longrightarrow> controlLeaseID s = [] \<and> controlTimer s = None) \<and>
     (closed s \<longrightarrow> controlOwner s = [])"

text \<open>A state holds a lock, or its lease was dropped with the owner's connection.\<close>

definition holds_or_dropped :: "lock \<Rightarrow> channel \<Rightarrow> bool" where
  "holds_or_dropped a s \<longleftrightarrow> holder_of s = a \<or>
     holder_of s = None \<and> (\<exists>h l e. a = Some (h, l, e) \<and> h \<notin> ids s)"

lemma holds_or_droppedI:
  assumes "lease_or_dropped t s'" "[] \<notin> ids t" "holder_of t = a"
  shows "holds_or_dropped a s'"
  using assms by (cases "controlOwner t = []")
    (auto simp: holds_or_dropped_def lease_or_dropped_def holder_of_def lease_of_def)

lemma before_Some: "before now (Some e) \<longleftrightarrow> now < e" "\<not> before now None"
  by (simp_all add: before_def)

lemma newControlLeaseID_state:
  "newControlLeaseID s = (fresh_lease_id s, s\<lparr>entropy_reads := Suc (entropy_reads s)\<rparr>)"
  by (simp add: fresh_lease_id_def newControlLeaseID_def)

lemma holder_set [simp]:
  "sid \<noteq> [] \<Longrightarrow> holder_of (setControlLeaseLocked sid l now s) = Some (sid, l, now + lease_duration s)"
  "ids (setControlLeaseLocked sid l now s) = ids s"
  "controlExpiresAt (setControlLeaseLocked sid l now s) = Some (now + lease_duration s)"
  by (auto simp: holder_of_def setControlLeaseLocked_def AfterFunc_def Let_def lease_duration_def
      DefaultChannelConfig_def ids_def)

lemma holder_clear [simp]:
  "holder_of (clearControlLeaseLocked s) = None" "ids (clearControlLeaseLocked s) = ids s"
  "lease_duration (clearControlLeaseLocked s) = lease_duration s"
  by (simp_all add: holder_of_def clearControlLeaseLocked_def ids_def lease_duration_def)

lemma holder_entropy [simp]:
  "holder_of (s\<lparr>entropy_reads := n\<rparr>) = holder_of s" "ids (s\<lparr>entropy_reads := n\<rparr>) = ids s"
  "lease_duration (s\<lparr>entropy_reads := n\<rparr>) = lease_duration s"
  by (simp_all add: holder_of_def ids_def lease_duration_def)

lemma holder_None: "holder_of s = None \<longleftrightarrow> controlOwner s = []"
  by (simp add: holder_of_def)

lemma holder_Some: "holder_of s = Some (h, l, e) \<Longrightarrow> lease_inv s \<Longrightarrow>
    controlOwner s = h \<and> controlLeaseID s = l \<and> controlExpiresAt s = Some e \<and> h \<noteq> [] \<and> \<not> closed s"
  by (auto simp: holder_of_def lease_inv_def split: if_splits)

lemma send_leasing: "lease_or_dropped s (send_required sid s)" "lease_or_dropped s (send_granted sid s)"
  by (simp_all add: send_required_def send_granted_def leasing.status)

lemmas lock_moves = leasing.status leasing.broadcast send_leasing leasing.refl

end
