(* ===== verification/RelayLock.thy ===== *)
theory RelayLock
  imports RelayLease
begin

text \<open>
  The lease operations of the channel refine the lock of theory RelayLease, and what a subscriber
  types reaches the runner only under the lease.
\<close>

subsection \<open>The operations\<close>

lemma acquire_lock:
  assumes "lease_inv s" "\<not> closed s" "[] \<notin> ids s" "sid \<noteq> []"
  shows "holds_or_dropped (lock_step (lease_duration s) (clock s) sid (Acquire (fresh_lease_id s)) (holder_of s))
    (acquireControlLease sid s)"
proof (cases "fresh_lease_id s")
  case None
  then show ?thesis
    by (auto simp: acquireControlLease_def newControlLeaseID_state assms(3) intro!: holds_or_droppedI [OF send_leasing(1)])
next
  case (Some i)
  let ?s = "s\<lparr>entropy_reads := Suc (entropy_reads s)\<rparr>"
  show ?thesis
  proof (cases "holder_of s")
    case None
    then show ?thesis using assms
      by (auto simp: acquireControlLease_def newControlLeaseID_state Some holder_None [THEN iffD1, OF None] Let_def
          intro!: holds_or_droppedI [OF send_leasing(2)])
  next
    case (Some a)
    obtain h l e where a: "a = (h, l, e)" by (cases a) auto
    note h = holder_Some [OF Some [unfolded a] assms(1)]
    have "acquireControlLease sid s =
        (if clock s < e then (if h = sid then send_granted sid ?s
           else sendControlStatus sid ControlLeaseStatusBusy [] None ?s)
         else send_granted sid (setControlLeaseLocked sid i (clock s) ?s))"
      using h by (simp add: acquireControlLease_def newControlLeaseID_state \<open>fresh_lease_id s = Some i\<close> Let_def before_def)
    then show ?thesis using assms Some a \<open>fresh_lease_id s = Some i\<close>
      by (auto intro!: holds_or_droppedI [OF send_leasing(2)] holds_or_droppedI [OF leasing.status])
  qed
qed

lemma force_acquire_lock:
  assumes "lease_inv s" "\<not> closed s" "[] \<notin> ids s" "sid \<noteq> []"
  shows "holds_or_dropped
    (lock_step (lease_duration s) (clock s) sid (ForceAcquire (fresh_lease_id s)) (holder_of s))
    (forceAcquireControlLease sid s)"
proof (cases "fresh_lease_id s")
  case None
  then show ?thesis
    by (auto simp: forceAcquireControlLease_def newControlLeaseID_state assms(3)
        intro!: holds_or_droppedI [OF send_leasing(1)])
next
  case i: (Some i)
  let ?s = "s\<lparr>entropy_reads := Suc (entropy_reads s)\<rparr>"
  have new: "holds_or_dropped (Some (sid, i, clock s + lease_duration s)) s'"
    if "lease_or_dropped (setControlLeaseLocked sid i (clock s) t) s'" "ids t = ids s"
      "lease_duration t = lease_duration s" for t s'
    using holds_or_droppedI [OF that(1)] that(2,3) assms(3,4) by simp
  show ?thesis
  proof (cases "holder_of s")
    case None
    then show ?thesis using assms i
      by (auto simp: forceAcquireControlLease_def newControlLeaseID_state holder_None [THEN iffD1, OF None] Let_def
          intro!: new [OF leasing.status])
  next
    case (Some a)
    obtain h l e where a: "a = (h, l, e)" by (cases a) auto
    note h = holder_Some [OF Some [unfolded a] assms(1)]
    define t where "t = (if clock s < e then clearControlLeaseLocked ?s else ?s)"
    define s2 where "s2 = setControlLeaseLocked sid i (clock s) t"
    have step: "forceAcquireControlLease sid s =
        (if h = sid \<and> clock s < e then send_granted sid ?s
         else sendControlStatus sid ControlLeaseStatusGranted i (controlExpiresAt s2)
                (if clock s < e then broadcast_status Broadcast ControlLeaseStatusReleased s2 else s2))"
      using h by (simp add: forceAcquireControlLease_def newControlLeaseID_state i Let_def before_def t_def s2_def)
    have "lease_or_dropped s2 (sendControlStatus sid st l e
        (if b then broadcast_status Broadcast status s2 else s2))" for st l e b status
      using leasing.trans [OF leasing.broadcast leasing.status] leasing.status
      by (simp add: broadcast_status_def)
    then have "holds_or_dropped (Some (sid, i, clock s + lease_duration s)) (sendControlStatus sid st l e'
        (if b then broadcast_status Broadcast status s2 else s2))" for st l e' b status
      unfolding s2_def by (rule new) (simp_all add: t_def)
    moreover have "holds_or_dropped (holder_of s) (send_granted sid ?s)"
      by (rule holds_or_droppedI [OF send_leasing(2)]) (simp_all add: assms(3))
    ultimately show ?thesis using Some a i by (auto simp: step)
  qed
qed

lemma renew_lock:
  assumes "lease_inv s" "\<not> closed s" "[] \<notin> ids s" "sid \<noteq> []"
  shows "holds_or_dropped (lock_step (lease_duration s) (clock s) sid (Renew l) (holder_of s)) (renewControlLease sid l s)"
proof (cases "holder_of s")
  case None
  then show ?thesis using assms
    by (auto simp: renewControlLease_def holder_None [THEN iffD1, OF None] intro!: holds_or_droppedI [OF send_leasing(1)])
next
  case (Some a)
  obtain h l' e where a: "a = (h, l', e)" by (cases a) auto
  note h = holder_Some [OF Some [unfolded a] assms(1)]
  have "renewControlLease sid l s = (if h = sid \<and> l' = l \<and> clock s < e
      then send_granted sid (setControlLeaseLocked sid l (clock s) s) else send_required sid s)"
    using h by (auto simp: renewControlLease_def Let_def before_def)
  then show ?thesis using assms Some a
    by (auto intro!: holds_or_droppedI [OF send_leasing(1)] holds_or_droppedI [OF send_leasing(2)])
qed

lemma release_lock:
  assumes "lease_inv s" "[] \<notin> ids s" "sid \<noteq> []"
  shows "holds_or_dropped (lock_step (lease_duration s) (clock s) sid (Release l) (holder_of s))
    (releaseControlLease sid l s)"
proof (cases "holder_of s")
  case None
  then show ?thesis using assms
    by (auto simp: releaseControlLease_def holder_None [THEN iffD1, OF None] intro!: holds_or_droppedI [OF send_leasing(1)])
next
  case (Some a)
  obtain h l' e where a: "a = (h, l', e)" by (cases a) auto
  note h = holder_Some [OF Some [unfolded a] assms(1)]
  show ?thesis using assms Some a h
    by (auto simp: releaseControlLease_def broadcast_status_def
        intro!: holds_or_droppedI [OF send_leasing(1)] holds_or_droppedI [OF leasing.broadcast])
qed

lemma typing_lock:
  assumes "lease_inv s" "[] \<notin> ids s" "sid \<noteq> []" "needs_lease t"
  shows "holds_or_dropped (lock_step (lease_duration s) (clock s) sid Typing (holder_of s))
    (forward_message sid t data s)"
proof -
  have wr: "holder_of (snd (writeToPublisher data s)) = holder_of s" "ids (snd (writeToPublisher data s)) = ids s"
    by (auto simp: writeToPublisher_def writeToConn_def holder_of_def ids_def split: option.split)
  show ?thesis
  proof (cases "holder_of s")
    case None
    then show ?thesis using assms
      by (auto simp: forward_message_def writeToPublisherWithControlLease_def holder_None [THEN iffD1, OF None] Let_def
          intro!: holds_or_droppedI [OF send_leasing(1)])
  next
    case (Some a)
    obtain h l e where a: "a = (h, l, e)" by (cases a) auto
    note h = holder_Some [OF Some [unfolded a] assms(1)]
    have "forward_message sid t data s =
        (if clock s < e then (if h = sid then snd (writeToPublisher data s) else send_required sid s)
         else send_required sid (broadcast_status Broadcast ControlLeaseStatusExpired (clearControlLeaseLocked s)))"
      using h assms(4) by (auto simp: forward_message_def writeToPublisherWithControlLease_def Let_def before_def
          case_prod_beta)
    moreover have "holds_or_dropped (holder_of s) (snd (writeToPublisher data s))"
      by (simp add: holds_or_dropped_def wr)
    moreover have "holds_or_dropped (holder_of s) (send_required sid s)"
      by (rule holds_or_droppedI [OF send_leasing(1)]) (simp_all add: assms(2))
    moreover have "holds_or_dropped None
        (send_required sid (broadcast_status Broadcast status (clearControlLeaseLocked s)))" for status
      unfolding broadcast_status_def
      by (rule holds_or_droppedI [OF leasing.trans [OF leasing.broadcast send_leasing(1)]]) (simp_all add: assms(2))
    ultimately show ?thesis using Some a by auto
  qed
qed

subsection \<open>Messages\<close>

lemma writeToPublisher_holder:
  "holder_of (snd (writeToPublisher data s)) = holder_of s" "ids (snd (writeToPublisher data s)) = ids s"
  by (auto simp: writeToPublisher_def writeToConn_def holder_of_def ids_def split: option.split)

text \<open>On a closed channel nobody gets the lease.\<close>

lemma closed_request:
  assumes "closed s" "controlOwner s = []" "[] \<notin> ids s" "sid \<noteq> []"
  shows "holds_or_dropped None (handleControlLeaseRequest sid r s)"
proof -
  let ?s = "s\<lparr>entropy_reads := Suc (entropy_reads s)\<rparr>"
  have h: "holder_of s = None" using assms(2) by (simp add: holder_of_def)
  have req: "holds_or_dropped None (send_required sid s)" "holds_or_dropped None (send_required sid ?s)"
    using h assms(3) by (auto intro: holds_or_droppedI [OF send_leasing(1)])
  have stay: "holds_or_dropped None ?s" using h by (simp add: holds_or_dropped_def)
  show ?thesis using assms req stay
    by (auto simp: handleControlLeaseRequest_def Let_def acquireControlLease_def forceAcquireControlLease_def
        renewControlLease_def releaseControlLease_def newControlLeaseID_state split: option.split)
qed

lemma closed_forward:
  assumes "controlOwner s = []" "[] \<notin> ids s" "sid \<noteq> []"
  shows "holds_or_dropped None (forward_message sid t data s)"
proof -
  have h: "holder_of s = None" using assms(1) by (simp add: holder_of_def)
  then have "holds_or_dropped None (send_required sid s)"
    using assms(2) by (auto intro: holds_or_droppedI [OF send_leasing(1)])
  then show ?thesis using assms h
    by (auto simp: forward_message_def writeToPublisherWithControlLease_def Let_def holds_or_dropped_def
        writeToPublisher_holder)
qed

lemma request_lock:
  assumes "lease_inv s" "\<not> closed s" "[] \<notin> ids s" "sid \<noteq> []"
  shows "holds_or_dropped (lock_step (lease_duration s) (clock s) sid (request_op r s) (holder_of s))
    (handleControlLeaseRequest sid r s)"
  using acquire_lock [OF assms] force_acquire_lock [OF assms] renew_lock [OF assms]
    release_lock [OF assms(1,3,4)] holds_or_droppedI [OF send_leasing(1) assms(3) refl]
  by (simp add: request_op_def handleControlLeaseRequest_def Let_def)

text \<open>C4. The control lease of a channel is an exclusive lock: whatever a subscriber sends, the lease
  after the message is the one the lock has after the operation the message asks for (a grant when it
  is free, expired or taken by force; the holder's renewal and release under the right id; its end when
  somebody types after its expiry), and stays as it is on a closed channel. The only other outcome is
  that the holder's connection broke while messages were sent: then nobody has the lease.\<close>

theorem handleSubscriberMessage_refines_lock:
  assumes "lease_inv s" "[] \<notin> ids s" "sid \<noteq> []"
  shows "holds_or_dropped
    (if closed s then holder_of s
     else lock_step (lease_duration s) (clock s) sid (message_op data s) (holder_of s))
    (handleSubscriberMessage sid data s)"
proof -
  have cl: "closed s \<Longrightarrow> controlOwner s = []" using assms(1) by (simp add: lease_inv_def)
  have cl_None: "closed s \<Longrightarrow> holder_of s = None" using cl by (simp add: holder_of_def)
  have keep: "holds_or_dropped (holder_of s) (snd (writeToPublisher data s))"
    by (simp add: holds_or_dropped_def writeToPublisher_holder)
  have req: "holds_or_dropped (holder_of s) (send_required sid s)"
    by (rule holds_or_droppedI [OF send_leasing(1) assms(2) refl])
  have fwd: "holds_or_dropped (if closed s then holder_of s
      else lock_step (lease_duration s) (clock s) sid (if needs_lease t then Typing else Other) (holder_of s))
      (forward_message sid t data s)" for t
    using typing_lock [OF assms, of t data] closed_forward [OF cl assms(2,3)] keep cl_None
    by (auto simp: forward_message_def)
  show ?thesis
  proof (cases data)
    case Nil
    then show ?thesis using keep by (simp add: handleSubscriberMessage_def DecodeMessage_def message_op_def)
  next
    case (Cons t payload)
    have ctrl: "\<not> needs_lease MsgTypeControl" by (simp add: needs_lease_def msg_types)
    show ?thesis
      using fwd [of t] req request_lock [OF assms(1) _ assms(2,3)] closed_request [OF _ cl assms(2,3)] cl_None ctrl
      by (auto simp: Cons handleSubscriberMessage_def DecodeMessage_def message_op_def mk_message_def
          split: lease_decode.split)
  qed
qed

subsection \<open>What reaches the runner\<close>

text \<open>The messages a connection got.\<close>

definition received :: "conn \<Rightarrow> channel \<Rightarrow> bytes list" where
  "received p s = map snd (filter (\<lambda>x. fst x = p) (sent s))"

lemma received_talks: "talks_to_subscribers s s' \<Longrightarrow> p \<notin> conns s \<Longrightarrow> received p s' = received p s"
  by (fastforce simp: talks_to_subscribers_def received_def filter_empty_conv image_subset_iff)

text \<open>The messages that pass from a subscriber to the runner: typing under the lease, no request for
  the lease, everything else.\<close>

definition may_pass :: "str \<Rightarrow> bytes \<Rightarrow> channel \<Rightarrow> bool" where
  "may_pass sid data s = (case data of
       [] \<Rightarrow> True
     | t # payload \<Rightarrow>
         if needs_lease t then controlOwner s = sid \<and> before (clock s) (controlExpiresAt s)
         else if t = MsgTypeControl then DecodeControlLeaseRequest payload = LeaseUnmatched
         else True)"

lemma received_simps [simp]:
  "received p (clearControlLeaseLocked s) = received p s"
  "received p (setControlLeaseLocked sid l now s) = received p s"
  "received p (s\<lparr>entropy_reads := n\<rparr>) = received p s"
  "conns (clearControlLeaseLocked s) = conns s"
  "conns (setControlLeaseLocked sid l now s) = conns s"
  "conns (s\<lparr>entropy_reads := n\<rparr>) = conns s"
  by (simp_all add: received_def conns_def clearControlLeaseLocked_def setControlLeaseLocked_def AfterFunc_def Let_def)

lemma received_status:
  assumes "p \<notin> conns s"
  shows "received p (sendControlStatus sid st l e s) = received p s"
    "received p (send_required sid s) = received p s"
    "received p (send_granted sid s) = received p s"
    "received p (broadcast_status Broadcast st s) = received p s"
    "received p (Broadcast d s) = received p s"
  using assms by (simp_all add: send_required_def send_granted_def broadcast_status_def
      received_talks [OF talking.status] received_talks [OF talking.broadcast])

lemma conns_broadcast: "p \<notin> conns s \<Longrightarrow> p \<notin> conns (broadcast_status Broadcast st s)"
  using closing.broadcast [of s] by (auto simp: broadcast_status_def closes_subscribers_def)

lemma received_request: "p \<notin> conns s \<Longrightarrow> received p (handleControlLeaseRequest sid r s) = received p s"
  by (auto simp: handleControlLeaseRequest_def acquireControlLease_def forceAcquireControlLease_def
      renewControlLease_def releaseControlLease_def newControlLeaseID_state Let_def received_status conns_broadcast
      split: option.split)

lemma received_write:
  "publisher s = Some p \<Longrightarrow> received p (snd (writeToPublisher data s))
     = received p s @ (if p \<notin> set (closed_conns s) \<and> \<not> write_fails s (writes s) then [data] else [])"
  by (simp add: writeToPublisher_def writeToConn_def received_def)

lemma received_forward:
  assumes "publisher s = Some p" "p \<notin> conns s"
  shows "received p (forward_message sid t data s) = received p s @
    (if (needs_lease t \<longrightarrow> controlOwner s = sid \<and> before (clock s) (controlExpiresAt s))
        \<and> p \<notin> set (closed_conns s) \<and> \<not> write_fails s (writes s) then [data] else [])"
proof -
  have "received p (send_required sid (if b then broadcast_status Broadcast st (clearControlLeaseLocked s) else s))
      = received p s" for b st
    using assms(2) by (simp add: received_status conns_broadcast)
  then show ?thesis
    by (auto simp: forward_message_def writeToPublisherWithControlLease_def Let_def case_prod_beta
        received_write [OF assms(1)])
qed

text \<open>C7. Of what a subscriber sends, the runner gets exactly the messages that may pass, unchanged and
  at most once: input, resizes and agent commands only while the sender holds the lease and it has not
  expired; never a request for the lease; and nothing on a broken connection.\<close>

theorem handleSubscriberMessage_delivers:
  assumes "publisher s = Some p" "p \<notin> conns s"
  shows "received p (handleSubscriberMessage sid data s) = received p s @
    (if may_pass sid data s \<and> p \<notin> set (closed_conns s) \<and> \<not> write_fails s (writes s) then [data] else [])"
proof (cases data)
  case Nil
  then show ?thesis
    by (simp add: handleSubscriberMessage_def DecodeMessage_def may_pass_def received_write [OF assms(1)])
next
  case (Cons t payload)
  have "\<not> needs_lease MsgTypeControl" by (simp add: needs_lease_def msg_types)
  then show ?thesis
    using received_forward [OF assms, of sid t data]
    by (auto simp: Cons handleSubscriberMessage_def DecodeMessage_def may_pass_def mk_message_def
        received_status(2) [OF assms(2)] received_request [OF assms(2)] split: lease_decode.split)
qed

end
