(* ===== verification/RelaySteps.thy ===== *)
theory RelaySteps
  imports RelayLock
begin

text \<open>
  The channel as a state machine: connections arrive and break, the publisher and the subscribers send,
  timers fire (late, or although they were stopped), the clock advances, the channel is closed, in any
  order. The invariant of the reachable states, and what follows from it.
\<close>

subsection \<open>Steps\<close>

datatype event = Publish conn | Publisher_sends conn "64 word" bytes | Publisher_fails conn "64 word"
  | Subscribe str conn int | Subscriber_sends str bytes | Subscriber_fails str
  | Timer_fires timer | Closing | Clock_ticks duration

definition fresh_conn :: "conn \<Rightarrow> channel \<Rightarrow> bool" where
  "fresh_conn c s \<longleftrightarrow> c \<notin> set (closed_conns s) \<and> c \<notin> conns s \<and> publisher s \<noteq> Some c \<and> c \<notin> fst ` set (pub_readers s)"

definition run_timer :: "timer_kind \<Rightarrow> channel \<Rightarrow> channel" where
  "run_timer k s = (case k of
       LeaseTimer epoch \<Rightarrow> expireControlLease epoch s
     | KeepAliveTimer \<Rightarrow> keepAliveExpired s
     | ReconnectTimer \<Rightarrow> reconnectExpired s)"

text \<open>The read loops: a message, or the error that ends the goroutine. Subscribers have fresh ids,
  which the server takes from uuid.New.\<close>

inductive chan_step :: "channel \<Rightarrow> event \<Rightarrow> channel \<Rightarrow> bool" where
  publish: "fresh_conn c s \<Longrightarrow> chan_step s (Publish c) (SetPublisher c s)"
| publisher_sends: "(c, e) \<in> set (pub_readers s) \<Longrightarrow> length data \<le> maxMessageSize
    \<Longrightarrow> chan_step s (Publisher_sends c e data) (Broadcast data s)"
| publisher_fails: "(c, e) \<in> set (pub_readers s)
    \<Longrightarrow> chan_step s (Publisher_fails c e)
          ((handlePublisherDisconnect c e s)\<lparr>pub_readers := removeAll (c, e) (pub_readers s)\<rparr>)"
| subscribe: "fresh_conn c s \<Longrightarrow> sid \<noteq> [] \<Longrightarrow> sid \<notin> ids s \<Longrightarrow> sid \<notin> set (sub_readers s)
    \<Longrightarrow> chan_step s (Subscribe sid c m) (snd (AddSubscriberWithLimit sid c m s))"
| subscriber_sends: "sid \<in> set (sub_readers s) \<Longrightarrow> length data \<le> maxMessageSize
    \<Longrightarrow> chan_step s (Subscriber_sends sid data) (handleSubscriberMessage sid data s)"
| subscriber_fails: "sid \<in> set (sub_readers s)
    \<Longrightarrow> chan_step s (Subscriber_fails sid)
          ((RemoveSubscriber sid s)\<lparr>sub_readers := removeAll sid (sub_readers s)\<rparr>)"
| timer_fires: "(d, k) \<in> set (armed s) \<Longrightarrow> d \<le> clock s
    \<Longrightarrow> chan_step s (Timer_fires (d, k)) (run_timer k (s\<lparr>armed := remove1 (d, k) (armed s)\<rparr>))"
| closing: "chan_step s Closing (Close s)"
| clock_ticks: "0 \<le> d \<Longrightarrow> chan_step s (Clock_ticks d) (s\<lparr>clock := clock s + d\<rparr>)"

inductive_cases timer_stepE: "chan_step s (Timer_fires t) s'"
inductive_cases sends_stepE: "chan_step s (Subscriber_sends sid data) s'"

definition quiet :: "surroundings \<Rightarrow> bool" where
  "quiet w \<longleftrightarrow> armed w = [] \<and> pub_readers w = [] \<and> sub_readers w = []"

text \<open>The states after n steps.\<close>

inductive chan_reachable :: "nat \<Rightarrow> channel \<Rightarrow> bool" where
  start: "quiet w \<Longrightarrow> chan_reachable 0 (NewChannelWithConfig podKey cfg gone clsd w)"
| step: "chan_reachable n s \<Longrightarrow> chan_step s e s' \<Longrightarrow> chan_reachable (Suc n) s'"

subsection \<open>The invariant\<close>

text \<open>A lease that is held has its timer armed, due when the lease ends.\<close>

definition lease_armed :: "channel \<Rightarrow> bool" where
  "lease_armed s \<longleftrightarrow> (\<forall>e. controlExpiresAt s = Some e \<longrightarrow>
     (e, LeaseTimer (controlEpoch s)) \<in> set (armed s) \<and> controlTimer s = Some (e, LeaseTimer (controlEpoch s))
     \<and> e \<le> clock s + lease_duration s)"

text \<open>The epoch has advanced m times; a lease timer was armed at some epoch up to the current one, and
  the one of the current epoch ends the lease.\<close>

definition epoch_inv :: "nat \<Rightarrow> channel \<Rightarrow> bool" where
  "epoch_inv m s \<longleftrightarrow> controlEpoch s = of_nat m \<and>
     (\<forall>d k. (d, LeaseTimer k) \<in> set (armed s) \<longrightarrow>
        (\<exists>i\<le>m. k = of_nat i \<and> (i = m \<longrightarrow> controlOwner s = [] \<or> controlExpiresAt s = Some d)))"

definition pub_inv :: "channel \<Rightarrow> bool" where
  "pub_inv s \<longleftrightarrow>
     (closed s \<longrightarrow> publisher s = None \<and> subscribers s = []) \<and>
     (publisherDisconnected s \<longrightarrow> publisher s = None) \<and>
     (publisherDisconnected s \<and> \<not> closed s \<longrightarrow> (\<exists>d. (d, ReconnectTimer) \<in> set (armed s))) \<and>
     (\<forall>c. publisher s = Some c \<longrightarrow> c \<notin> conns s \<and> c \<notin> set (closed_conns s))"

definition sub_inv :: "channel \<Rightarrow> bool" where
  "sub_inv s \<longleftrightarrow> [] \<notin> ids s \<and> [] \<notin> set (sub_readers s) \<and> ids s \<subseteq> set (sub_readers s)
     \<and> conns_ok s \<and> idle_timer s"

definition chan_inv :: "nat \<Rightarrow> channel \<Rightarrow> bool" where
  "chan_inv m s \<longleftrightarrow> lease_inv s \<and> lease_armed s \<and> epoch_inv m s \<and> pub_inv s \<and> sub_inv s"

text \<open>The publisher's connection is being read.\<close>

definition pub_view :: "channel \<Rightarrow> conn option \<times> 64 word \<times> (conn \<times> 64 word) list" where
  "pub_view s = (publisher s, publisherEpoch s, pub_readers s)"

definition watched :: "channel \<Rightarrow> bool" where
  "watched s \<longleftrightarrow> (case pub_view s of
     (p, e, rs) \<Rightarrow> \<forall>c. p = Some c \<longrightarrow> (c, e) \<in> set rs)"

text \<open>What a broadcast, a removal or a status message does, all relations together.\<close>

definition moves :: "channel \<Rightarrow> channel \<Rightarrow> bool" where
  "moves s s' \<longleftrightarrow> same_setting s s' \<and> arms_keep_alive s s' \<and> lease_or_dropped s s' \<and>
     closes_subscribers s s' \<and> talks_to_subscribers s s' \<and>
     (conns_ok s \<longrightarrow> conns_ok s') \<and> (idle_timer s \<longrightarrow> idle_timer s')"

lemma moves_broadcast: "moves s (Broadcast d s)"
  by (simp add: moves_def setting.broadcast arming.broadcast leasing.broadcast closing.broadcast
      talking.broadcast connected.broadcast idle.broadcast)

lemma moves_remove: "moves s (RemoveSubscriber sid s)"
  by (simp add: moves_def setting.remove arming.remove leasing.remove closing.remove
      talking.remove connected.remove idle.remove)

lemma moves_status: "moves s (sendControlStatus sid st l e s)"
  by (simp add: moves_def setting.status arming.status leasing.status closing.status
      talking.status connected.status idle.status)

lemma moves_sends: "moves s (send_required sid s)" "moves s (send_granted sid s)"
    "moves s (broadcast_status Broadcast st s)"
  by (simp_all add: send_required_def send_granted_def broadcast_status_def moves_status moves_broadcast)

text \<open>One epoch on: the timers are the old ones and perhaps the new lease's.\<close>

lemma epoch_inv_next:
  assumes "epoch_inv m s" "controlEpoch s' = controlEpoch s + 1"
    and arm: "\<And>d k. (d, LeaseTimer k) \<in> set (armed s') \<Longrightarrow>
      (d, LeaseTimer k) \<in> set (armed s) \<or> k = controlEpoch s' \<and> controlExpiresAt s' = Some d"
  shows "epoch_inv (Suc m) s'"
proof -
  have "\<exists>i\<le>Suc m. k = of_nat i \<and> (i = Suc m \<longrightarrow> controlOwner s' = [] \<or> controlExpiresAt s' = Some d)"
    if t: "(d, LeaseTimer k) \<in> set (armed s')" for d k
  proof (cases "(d, LeaseTimer k) \<in> set (armed s)")
    case True
    then obtain i where "i \<le> m" "k = of_nat i" using assms(1) unfolding epoch_inv_def by blast
    then show ?thesis by (intro exI [of _ i]) simp
  next
    case False
    then have "k = of_nat (Suc m)" "controlExpiresAt s' = Some d"
      using arm [OF t] assms(1,2) by (simp_all add: epoch_inv_def)
    then show ?thesis by blast
  qed
  then show ?thesis using assms(1,2) by (simp add: epoch_inv_def)
qed

lemma arms_keep_alive_armed:
  assumes "arms_keep_alive s s'"
  shows "(d, LeaseTimer k) \<in> set (armed s') \<longleftrightarrow> (d, LeaseTimer k) \<in> set (armed s)"
    "set (armed s) \<subseteq> set (armed s')"
  using assms by (force simp: arms_keep_alive_def image_subset_iff)+

text \<open>A move keeps the invariant; it advances the epoch by one at most.\<close>

lemma moves_chan_inv:
  assumes inv: "chan_inv m s" and mv: "moves s s'"
  shows "\<exists>j\<le>1. chan_inv (m + j) s'"
proof -
  have set: "same_setting s s'" and ids: "ids s' \<subseteq> ids s"
    and ar: "arms_keep_alive s s'" and cl: "closes_subscribers s s'"
    and lease: "lease_of s' = lease_of s \<or> lease_of s' = ([], [], None, None, controlEpoch s + 1)"
    using mv inv by (auto simp: moves_def talks_to_subscribers_def ids_def
        lease_or_dropped_def chan_inv_def sub_inv_def)
  note arm = arms_keep_alive_armed(1) [OF ar] and arm2 = arms_keep_alive_armed(2) [OF ar]
  have same_pub: "closed s' = closed s" "publisher s' = publisher s" "publisherEpoch s' = publisherEpoch s"
    "publisherDisconnected s' = publisherDisconnected s" "pub_readers s' = pub_readers s"
    using set by (simp_all add: same_setting_def)
  have nil: "subscribers s = [] \<Longrightarrow> subscribers s' = []" using ids by (simp add: ids_def)
  have pub_s: "pub_inv s" using inv by (simp add: chan_inv_def)
  have opened: "c \<notin> conns s' \<and> c \<notin> set (closed_conns s')" if "publisher s = Some c" for c
    using pub_s that cl unfolding pub_inv_def closes_subscribers_def by blast
  have pub: "pub_inv s'"
    using pub_s nil opened arm2 unfolding pub_inv_def same_pub by blast
  have sub: "sub_inv s'"
    using inv set ids mv by (auto simp: chan_inv_def sub_inv_def same_setting_def moves_def)
  have dur: "lease_duration s' = lease_duration s" "clock s' = clock s" "closed s' = closed s"
    using set by (auto simp: same_setting_def lease_duration_def)
  from lease show ?thesis
  proof
    assume "lease_of s' = lease_of s"
    then have same: "controlOwner s' = controlOwner s" "controlLeaseID s' = controlLeaseID s"
      "controlExpiresAt s' = controlExpiresAt s" "controlTimer s' = controlTimer s"
      "controlEpoch s' = controlEpoch s" by (simp_all add: lease_of_def)
    have "epoch_inv m s' = epoch_inv m s" "lease_inv s' = lease_inv s" "lease_armed s' = lease_armed s"
      by (simp_all add: epoch_inv_def lease_inv_def lease_armed_def same dur arm)
    then have "chan_inv m s'" using inv pub sub by (simp add: chan_inv_def)
    then show ?thesis by (intro exI [of _ 0]) simp
  next
    assume "lease_of s' = ([], [], None, None, controlEpoch s + 1)"
    then have new: "controlOwner s' = []" "controlLeaseID s' = []" "controlExpiresAt s' = None"
      "controlTimer s' = None" "controlEpoch s' = controlEpoch s + 1" by (simp_all add: lease_of_def)
    have "epoch_inv (Suc m) s'"
      using inv new arm by (auto simp: chan_inv_def intro: epoch_inv_next)
    then have "chan_inv (m + 1) s'"
      using pub sub new by (simp add: chan_inv_def lease_inv_def lease_armed_def)
    then show ?thesis by (intro exI [of _ 1]) simp
  qed
qed

subsection \<open>Operations keep the invariant\<close>

text \<open>An operation that keeps the invariant and advances the epoch by at most k.\<close>

definition advances :: "nat \<Rightarrow> channel \<Rightarrow> channel \<Rightarrow> bool" where
  "advances k s s' \<longleftrightarrow> (\<forall>m. chan_inv m s \<longrightarrow> (\<exists>j\<le>k. chan_inv (m + j) s'))"

lemma advances_refl: "advances k s s"
  unfolding advances_def by (metis add.right_neutral le0)

lemma advances_trans: "advances a s t \<Longrightarrow> advances b t u \<Longrightarrow> advances (a + b) s u"
  unfolding advances_def by (metis add.assoc add_mono)

lemma advances_le: "advances a s t \<Longrightarrow> a \<le> b \<Longrightarrow> advances b s t"
  unfolding advances_def by (meson order_trans)

lemma advances_moves: "moves s s' \<Longrightarrow> advances 1 s s'"
  unfolding advances_def by (blast intro: moves_chan_inv)

lemma advances_then_move: "advances k s t \<Longrightarrow> moves t u \<Longrightarrow> advances (Suc k) s u"
  using advances_trans [OF _ advances_moves] by fastforce

lemmas inv_defs = chan_inv_def lease_inv_def lease_armed_def epoch_inv_def pub_inv_def sub_inv_def

text \<open>The invariant piece by piece under the elementary changes.\<close>

lemmas elementary_lease_defs = clearControlLeaseLocked_def setControlLeaseLocked_def AfterFunc_def Let_def

lemma sub_inv_view [simp]:
  "sub_inv (s\<lparr>entropy_reads := n\<rparr>) = sub_inv s"
  "sub_inv (clearControlLeaseLocked s) = sub_inv s"
  "sub_inv (setControlLeaseLocked sid l now s) = sub_inv s"
  by (simp_all add: sub_inv_def ids_def conns_ok_def conns_def idle_timer_def elementary_lease_defs)

lemma pub_inv_view [simp]:
  "pub_inv (s\<lparr>entropy_reads := n\<rparr>) = pub_inv s"
  "pub_inv (clearControlLeaseLocked s) = pub_inv s"
  "pub_inv (setControlLeaseLocked sid l now s) = pub_inv s"
  by (simp_all add: pub_inv_def conns_def elementary_lease_defs)

lemma lease_view [simp]:
  "lease_inv (s\<lparr>entropy_reads := n\<rparr>) = lease_inv s"
  "lease_armed (s\<lparr>entropy_reads := n\<rparr>) = lease_armed s"
  "epoch_inv m (s\<lparr>entropy_reads := n\<rparr>) = epoch_inv m s"
  "lease_inv (clearControlLeaseLocked s)" "lease_armed (clearControlLeaseLocked s)"
  by (simp_all add: lease_inv_def lease_armed_def epoch_inv_def lease_duration_def clearControlLeaseLocked_def)

lemma epoch_inv_clear: "epoch_inv m s \<Longrightarrow> epoch_inv (Suc m) (clearControlLeaseLocked s)"
  by (erule epoch_inv_next) (simp_all add: clearControlLeaseLocked_def)

lemma set_lease_fields:
  "controlOwner (setControlLeaseLocked sid l now s) = sid"
  "controlExpiresAt (setControlLeaseLocked sid l now s) = Some (now + lease_duration s)"
  "controlLeaseID (setControlLeaseLocked sid l now s) = l"
  "controlEpoch (setControlLeaseLocked sid l now s) = controlEpoch s + 1"
  "controlTimer (setControlLeaseLocked sid l now s) = Some (clock s + lease_duration s, LeaseTimer (controlEpoch s + 1))"
  "armed (setControlLeaseLocked sid l now s) = armed s @ [(clock s + lease_duration s, LeaseTimer (controlEpoch s + 1))]"
  "closed (setControlLeaseLocked sid l now s) = closed s"
  "clock (setControlLeaseLocked sid l now s) = clock s"
  "config (setControlLeaseLocked sid l now s) = config s"
  by (simp_all add: elementary_lease_defs lease_duration_def DefaultChannelConfig_def)

lemma epoch_inv_set: "epoch_inv m s \<Longrightarrow> epoch_inv (Suc m) (setControlLeaseLocked sid l (clock s) s)"
  by (erule epoch_inv_next) (auto simp: set_lease_fields)

lemma lease_set:
  "sid \<noteq> [] \<Longrightarrow> \<not> closed s \<Longrightarrow> lease_inv (setControlLeaseLocked sid l (clock s) s)"
  "lease_armed (setControlLeaseLocked sid l (clock s) s)"
  by (simp_all add: lease_inv_def lease_armed_def set_lease_fields lease_duration_def [of "setControlLeaseLocked sid l now s" for now]
      lease_duration_def [of s])

lemma advances_entropy: "advances 0 s (s\<lparr>entropy_reads := n\<rparr>)"
  by (simp add: advances_def chan_inv_def)

lemma advances_clear: "advances 1 s (clearControlLeaseLocked s)"
proof -
  have "chan_inv (m + 1) (clearControlLeaseLocked s)" if "chan_inv m s" for m
    using that epoch_inv_clear by (simp add: chan_inv_def)
  then show ?thesis unfolding advances_def by blast
qed

lemma advances_set:
  assumes "sid \<noteq> []" "\<not> closed s"
  shows "advances 1 s (setControlLeaseLocked sid l (clock s) s)"
proof -
  have "chan_inv (m + 1) (setControlLeaseLocked sid l (clock s) s)" if "chan_inv m s" for m
    using that epoch_inv_set lease_set assms by (simp add: chan_inv_def)
  then show ?thesis unfolding advances_def by blast
qed

text \<open>A write to the runner changes only what was sent.\<close>

lemma advances_write: "advances 0 s (snd (writeToPublisher data s))"
proof -
  have "sub_inv (s\<lparr>writes := n, sent := l\<rparr>) = sub_inv s" "pub_inv (s\<lparr>writes := n, sent := l\<rparr>) = pub_inv s"
    "lease_inv (s\<lparr>writes := n, sent := l\<rparr>) = lease_inv s" "lease_armed (s\<lparr>writes := n, sent := l\<rparr>) = lease_armed s"
    "epoch_inv m (s\<lparr>writes := n, sent := l\<rparr>) = epoch_inv m s"
    "sub_inv (s\<lparr>writes := n\<rparr>) = sub_inv s" "pub_inv (s\<lparr>writes := n\<rparr>) = pub_inv s"
    "lease_inv (s\<lparr>writes := n\<rparr>) = lease_inv s" "lease_armed (s\<lparr>writes := n\<rparr>) = lease_armed s"
    "epoch_inv m (s\<lparr>writes := n\<rparr>) = epoch_inv m s" for n l m
    by (simp_all add: sub_inv_def pub_inv_def lease_inv_def lease_armed_def epoch_inv_def ids_def conns_def
        conns_ok_def idle_timer_def lease_duration_def)
  then show ?thesis
    by (auto simp: writeToPublisher_def writeToConn_def advances_def chan_inv_def split: option.split)
qed

text \<open>The lease operations.\<close>

lemma advances_send: "advances 1 s (send_required sid s)" "advances 1 s (send_granted sid s)"
    "advances 1 s (broadcast_status Broadcast st s)" "advances 1 s (sendControlStatus sid st l e s)"
    "advances 1 s (Broadcast d s)"
  by (rule advances_moves, intro moves_sends moves_status moves_broadcast)+

lemma advances_acquire:
  assumes "sid \<noteq> []"
  shows "advances 2 s (acquireControlLease sid s)"
proof -
  let ?s = "s\<lparr>entropy_reads := Suc (entropy_reads s)\<rparr>"
  have e: "advances k ?s t \<Longrightarrow> advances k s t" for k t using advances_trans [OF advances_entropy] by fastforce
  have send: "advances 2 s (send_required sid ?s)" "advances 2 s (send_granted sid ?s)"
      "advances 2 s (sendControlStatus sid st l x ?s)" for st l x
    by (rule e, rule advances_le [of 1], rule advances_send, simp)+
  have set: "advances 2 s (send_granted sid (setControlLeaseLocked sid l (clock s) ?s))" if "\<not> closed s" for l
    using e [OF advances_then_move [OF advances_set moves_sends(2)], of sid sid l] assms that
    by (simp add: numeral_2_eq_2)
  show ?thesis
    using send set e [OF advances_refl]
    by (auto simp: acquireControlLease_def newControlLeaseID_state Let_def split: option.split)
qed

lemma advances_force:
  assumes "sid \<noteq> []"
  shows "advances 4 s (forceAcquireControlLease sid s)"
proof -
  let ?s = "s\<lparr>entropy_reads := Suc (entropy_reads s)\<rparr>"
  have e: "advances k ?s t \<Longrightarrow> advances k s t" for k t using advances_trans [OF advances_entropy] by fastforce
  have send: "advances 4 s (send_required sid ?s)" "advances 4 s (send_granted sid ?s)"
    by (rule e, rule advances_le [of 1], rule advances_send, simp)+
  have set: "advances 2 s (setControlLeaseLocked sid l (clock s) (if b then clearControlLeaseLocked ?s else ?s))"
    if "\<not> closed s" for l b
  proof -
    let ?t = "if b then clearControlLeaseLocked ?s else ?s"
    have "advances 1 ?s ?t" using advances_clear advances_refl by simp
    moreover have "advances 1 ?t (setControlLeaseLocked sid l (clock ?t) ?t)"
      by (rule advances_set) (use assms that in \<open>auto simp: clearControlLeaseLocked_def\<close>)
    moreover have "clock ?t = clock s" by (simp add: clearControlLeaseLocked_def)
    ultimately show ?thesis using e advances_trans [of 1 ?s ?t 1] by (auto simp: numeral_2_eq_2)
  qed
  have all: "advances 4 s (sendControlStatus sid st l x
      (if b then broadcast_status Broadcast st' t else t))" if "advances 2 s t" for st l x b st' t
  proof -
    have "advances 1 t (if b then broadcast_status Broadcast st' t else t)"
      using advances_send(3) advances_refl by simp
    from advances_trans [OF advances_trans [OF that this] advances_send(4)] show ?thesis by simp
  qed
  show ?thesis
    using send all [OF set] e [OF advances_refl]
    by (auto simp: forceAcquireControlLease_def newControlLeaseID_state Let_def split: option.split simp del: if_splits)
qed

lemma advances_renew:
  assumes "sid \<noteq> []"
  shows "advances 2 s (renewControlLease sid l s)"
proof -
  have "advances 2 s (send_granted sid (setControlLeaseLocked sid l (clock s) s))" if "\<not> closed s"
    using advances_then_move [OF advances_set moves_sends(2)] assms that by (simp add: numeral_2_eq_2)
  then show ?thesis
    using advances_le [OF advances_send(1), of 2] by (auto simp: renewControlLease_def Let_def)
qed

lemma advances_release: "advances 2 s (releaseControlLease sid l s)"
  using advances_then_move [OF advances_clear moves_sends(3)] advances_le [OF advances_send(1), of 2]
  by (auto simp: releaseControlLease_def numeral_2_eq_2)

lemma advances_request: "sid \<noteq> [] \<Longrightarrow> advances 4 s (handleControlLeaseRequest sid r s)"
  using advances_le [OF advances_acquire, of sid 4] advances_force advances_le [OF advances_renew, of sid 4]
    advances_le [OF advances_release, of 4] advances_le [OF advances_send(1), of 4]
  by (auto simp: handleControlLeaseRequest_def Let_def)

lemma advances_forward: "advances 4 s (forward_message sid t data s)"
proof -
  have "advances 4 s (send_required sid (broadcast_status Broadcast st (clearControlLeaseLocked s)))" for st
    using advances_le [OF advances_then_move [OF advances_then_move [OF advances_clear moves_sends(3)] moves_sends(1)], of 4]
    by simp
  then show ?thesis
    using advances_le [OF advances_send(1), of 4] advances_le [OF advances_write, of 4]
    by (auto simp: forward_message_def writeToPublisherWithControlLease_def Let_def case_prod_beta)
qed

lemma advances_message: "sid \<noteq> [] \<Longrightarrow> advances 4 s (handleSubscriberMessage sid data s)"
  using advances_request advances_forward advances_le [OF advances_send(1), of 4] advances_le [OF advances_write, of 4]
  by (auto simp: handleSubscriberMessage_def split: sum.split lease_decode.split)

lemma advances_expire: "advances 2 s (expireControlLease epoch s)"
  using advances_then_move [OF advances_clear moves_sends(3)] advances_le [OF advances_clear, of 2] advances_refl
  by (auto simp: expireControlLease_def Let_def numeral_2_eq_2)

text \<open>No operation on the lease touches the publisher.\<close>

lemma pub_view_same [simp]:
  "pub_view (send_required sid s) = pub_view s" "pub_view (send_granted sid s) = pub_view s"
  "pub_view (broadcast_status Broadcast st s) = pub_view s" "pub_view (sendControlStatus sid st l e s) = pub_view s"
  "pub_view (Broadcast d s) = pub_view s" "pub_view (RemoveSubscriber sid s) = pub_view s"
  using moves_sends [of s] moves_status [of s] moves_broadcast [of s] moves_remove [of s]
  by (auto simp: pub_view_def moves_def same_setting_def)

lemma pub_view_elementary [simp]:
  "pub_view (clearControlLeaseLocked s) = pub_view s" "pub_view (setControlLeaseLocked sid l now s) = pub_view s"
  "pub_view (s\<lparr>entropy_reads := n\<rparr>) = pub_view s" "pub_view (snd (writeToPublisher data s)) = pub_view s"
  by (auto simp: pub_view_def elementary_lease_defs writeToPublisher_def writeToConn_def split: option.split)

lemma pub_view_message [simp]: "pub_view (handleSubscriberMessage sid data s) = pub_view s"
proof -
  have "pub_view (handleControlLeaseRequest sid r s) = pub_view s" for r
    by (auto simp: handleControlLeaseRequest_def Let_def acquireControlLease_def forceAcquireControlLease_def
        renewControlLease_def releaseControlLease_def newControlLeaseID_state split: option.split)
  moreover have "pub_view (forward_message sid t data s) = pub_view s" for t
    by (auto simp: forward_message_def writeToPublisherWithControlLease_def Let_def case_prod_beta)
  ultimately show ?thesis by (auto simp: handleSubscriberMessage_def split: sum.split lease_decode.split)
qed

lemma pub_view_expire [simp]: "pub_view (expireControlLease epoch s) = pub_view s"
  by (auto simp: expireControlLease_def Let_def)

subsection \<open>The publisher and the life of the channel keep the invariant\<close>

text \<open>Changes of the publisher's side and of the readers.\<close>

lemma lease_side_cong:
  assumes "lease_of s' = lease_of s" "armed s' = armed s" "clock s' = clock s" "config s' = config s" "closed s' = closed s"
  shows "lease_inv s' = lease_inv s" "lease_armed s' = lease_armed s" "epoch_inv m s' = epoch_inv m s"
  using assms by (simp_all add: lease_of_def lease_inv_def lease_armed_def epoch_inv_def lease_duration_def)

lemma disconnect_inv:
  assumes inv: "chan_inv m s" and c: "publisher s = Some c"
  shows "chan_inv m (conn_Close c (s\<lparr>publisher := None, publisherDisconnected := True,
    armed := armed s @ [(d, ReconnectTimer)], publisherReconnectTimer := t\<rparr>))" (is "chan_inv m ?s")
proof -
  have "sub_inv ?s"
    using inv c by (auto simp: chan_inv_def sub_inv_def pub_inv_def ids_def conns_ok_def conns_def idle_timer_def
        conn_Close_def)
  moreover have "pub_inv ?s"
    using inv c by (auto simp: chan_inv_def pub_inv_def conn_Close_def)
  moreover have "lease_inv ?s = lease_inv s" "lease_armed s \<Longrightarrow> lease_armed ?s" "epoch_inv m ?s = epoch_inv m s"
    by (auto simp: lease_inv_def lease_armed_def epoch_inv_def lease_duration_def conn_Close_def)
  ultimately show ?thesis using inv by (simp add: chan_inv_def)
qed

lemma advances_disconnect: "advances 1 s (handlePublisherDisconnect c epoch s)"
proof (cases "publisher s = Some c \<and> publisherEpoch s = epoch")
  case True
  have "\<exists>j\<le>1. chan_inv (m + j) (handlePublisherDisconnect c epoch s)" if inv: "chan_inv m s" for m
    using moves_chan_inv [OF disconnect_inv [OF inv] moves_broadcast] True
    by (simp add: handlePublisherDisconnect_def AfterFunc_def Let_def)
  then show ?thesis by (simp add: advances_def)
next
  case False
  then show ?thesis using advances_refl by (auto simp: handlePublisherDisconnect_def)
qed

lemma wait_idle:
  assumes "\<And>c e. (c, e) \<in> set (pub_readers s) \<Longrightarrow> publisher s \<noteq> Some c"
  shows "publisherWg_Wait s = s\<lparr>pub_readers := []\<rparr>"
proof -
  have "fold (\<lambda>(c, e). handlePublisherDisconnect c e) rs s = s" if "set rs \<subseteq> set (pub_readers s)" for rs
    using that
  proof (induction rs)
    case (Cons r rs)
    obtain c e where r: "r = (c, e)" by (cases r)
    have "publisher s \<noteq> Some c" using Cons.prems assms r by auto
    then show ?case using Cons r by (simp add: handlePublisherDisconnect_def)
  qed simp
  then show ?thesis by (simp add: publisherWg_Wait_def)
qed

lemma SetPublisher_fresh:
  assumes f: "fresh_conn c s" and o: "\<not> closed s"
  shows "SetPublisher c s =
    (let s1 = s\<lparr>publisher := Some c, publisherDisconnected := False, publisherEpoch := publisherEpoch s + 1,
                publisherReconnectTimer := None,
                closed_conns := closed_conns s @ (case publisher s of None \<Rightarrow> [] | Some old \<Rightarrow> [old]), pub_readers := []\<rparr>
     in start_forwarding (publisherEpoch s + 1)
          (if publisherDisconnected s then Broadcast EncodeRunnerReconnected s1 else s1))"
proof -
  have ne: "c' \<noteq> c" if "(c', e) \<in> set (pub_readers s)" for c' e using f that by (force simp: fresh_conn_def)
  have w: "publisherWg_Wait t = t\<lparr>pub_readers := []\<rparr>"
    if "publisher t = Some c" "pub_readers t = pub_readers s" for t
    by (rule wait_idle) (use that ne in auto)
  have "publisher s \<noteq> Some c" using f by (simp add: fresh_conn_def)
  then show ?thesis
    using o by (cases "publisher s") (auto simp: SetPublisher_def Let_def w conn_Close_def)
qed

lemma set_publisher_inv:
  assumes inv: "chan_inv m s" and f: "fresh_conn c s" and o: "\<not> closed s"
  shows "chan_inv m (s\<lparr>publisher := Some c, publisherDisconnected := False, publisherEpoch := e,
    publisherReconnectTimer := t,
    closed_conns := closed_conns s @ (case publisher s of None \<Rightarrow> [] | Some old \<Rightarrow> [old]), pub_readers := rs\<rparr>)" (is "chan_inv m ?s")
proof -
  have "conns s \<inter> set (closed_conns ?s) = {}"
    using inv by (cases "publisher s") (auto simp: chan_inv_def sub_inv_def pub_inv_def conns_ok_def)
  then have "sub_inv ?s"
    using inv by (simp add: chan_inv_def sub_inv_def ids_def conns_ok_def conns_def idle_timer_def)
  moreover have "pub_inv ?s"
    using inv f o by (auto simp: chan_inv_def pub_inv_def fresh_conn_def conns_def split: option.splits)
  moreover have "lease_inv ?s = lease_inv s" "lease_armed ?s = lease_armed s" "epoch_inv m ?s = epoch_inv m s"
    by (simp_all add: lease_inv_def lease_armed_def epoch_inv_def lease_duration_def)
  ultimately show ?thesis using inv by (simp add: chan_inv_def)
qed

lemma pub_readers_inv: "chan_inv m (s\<lparr>pub_readers := rs\<rparr>) = chan_inv m s"
  by (simp add: chan_inv_def lease_inv_def lease_armed_def epoch_inv_def lease_duration_def pub_inv_def sub_inv_def
      ids_def conns_def conns_ok_def idle_timer_def)

lemma start_forwarding_inv: "chan_inv m (start_forwarding e s) = chan_inv m s"
  by (auto simp: start_forwarding_def pub_readers_inv split: option.split)

lemma close_conn_inv: "closed s \<Longrightarrow> subscribers s = [] \<Longrightarrow> chan_inv m s \<Longrightarrow> chan_inv m (conn_Close c s)"
  by (auto simp: chan_inv_def lease_inv_def lease_armed_def epoch_inv_def lease_duration_def pub_inv_def sub_inv_def
      ids_def conns_def conns_ok_def idle_timer_def conn_Close_def)

lemma advances_SetPublisher: "fresh_conn c s \<Longrightarrow> advances 1 s (SetPublisher c s)"
proof -
  assume f: "fresh_conn c s"
  have "\<exists>j\<le>1. chan_inv (m + j) (SetPublisher c s)" if inv: "chan_inv m s" for m
  proof (cases "closed s")
    case True
    moreover have "subscribers s = []" using inv True by (simp add: chan_inv_def pub_inv_def)
    ultimately have "chan_inv m (SetPublisher c s)"
      using inv close_conn_inv by (simp add: SetPublisher_def)
    then show ?thesis by (intro exI [of _ 0]) simp
  next
    case False
    note t = set_publisher_inv [OF inv f False]
    from moves_chan_inv [OF t moves_broadcast] t show ?thesis
      unfolding SetPublisher_fresh [OF f False] Let_def start_forwarding_inv by (auto intro: exI [of _ "0::nat"])
  qed
  then show ?thesis by (simp add: advances_def)
qed

lemma close_all: "fold (\<lambda>x. conn_Close (snd x)) xs s = s\<lparr>closed_conns := closed_conns s @ map snd xs\<rparr>"
  by (induction xs arbitrary: s) (simp_all add: conn_Close_def)

lemma closeInternal_idle:
  assumes o: "\<not> closed s"
  shows "closeInternal s =
    (let s1 = (clearControlLeaseLocked s)\<lparr>closed := True, publisherReconnectTimer := None, publisher := None,
                pub_readers := [], subscribers := [],
                closed_conns := closed_conns s @ (case publisher s of None \<Rightarrow> [] | Some c \<Rightarrow> [c]) @ map snd (subscribers s)\<rparr>
     in if has_onChannelClosed s then log_call (ChannelClosed (PodKey s)) s1 else s1)"
proof -
  have w: "publisherWg_Wait t = t\<lparr>pub_readers := []\<rparr>" if "publisher t = None" for t
    by (rule wait_idle) (simp add: that)
  show ?thesis using o
    by (cases "publisher s") (auto simp: closeInternal_def Let_def stopControlLease_def close_publisher_def
        clearControlLeaseLocked_def conn_Close_def w close_all log_call_def)
qed

lemma log_call_inv: "chan_inv m (log_call cb s) = chan_inv m s"
  by (simp add: log_call_def chan_inv_def lease_inv_def lease_armed_def epoch_inv_def lease_duration_def pub_inv_def
      sub_inv_def ids_def conns_def conns_ok_def idle_timer_def)

text \<open>Closing needs little of the state it finds.\<close>

lemma close_inv:
  assumes "epoch_inv m s" "sub_inv s" and o: "\<not> closed s"
  shows "chan_inv (m + 1) (closeInternal s)"
proof -
  let ?s = "(clearControlLeaseLocked s)\<lparr>closed := True, publisherReconnectTimer := None, publisher := None,
    pub_readers := [], subscribers := [],
    closed_conns := closed_conns s @ (case publisher s of None \<Rightarrow> [] | Some c \<Rightarrow> [c]) @ map snd (subscribers s)\<rparr>"
  have "epoch_inv (Suc m) (clearControlLeaseLocked s)" using assms(1) epoch_inv_clear by simp
  then have "epoch_inv (Suc m) ?s" by (simp add: epoch_inv_def)
  moreover have "lease_inv ?s" "lease_armed ?s" by (simp_all add: lease_inv_def lease_armed_def clearControlLeaseLocked_def)
  moreover have "sub_inv ?s" using assms(2)
    by (simp add: sub_inv_def ids_def conns_ok_def conns_def idle_timer_def clearControlLeaseLocked_def)
  moreover have "pub_inv ?s" by (simp add: pub_inv_def)
  ultimately show ?thesis
    by (simp add: closeInternal_idle [OF o] Let_def log_call_inv chan_inv_def [of "Suc m" ?s])
qed

lemma advances_close: "advances 1 s (closeInternal s)"
proof (cases "closed s")
  case True
  then show ?thesis using advances_refl by (simp add: closeInternal_def)
next
  case False
  have "chan_inv (m + 1) (closeInternal s)" if "chan_inv m s" for m
    by (rule close_inv) (use that False in \<open>simp_all add: chan_inv_def\<close>)
  then show ?thesis unfolding advances_def by blast
qed

lemma distinct_snd_gm_set:
  "distinct (map snd m) \<Longrightarrow> c \<notin> snd ` set m \<Longrightarrow> k \<notin> fst ` set m \<Longrightarrow> distinct (map snd (gm_set k c m))
    \<and> set (gm_set k c m) = insert (k, c) (set m)"
  by (induction k c m rule: gm_set.induct) auto

lemma advances_subscribe:
  assumes f: "fresh_conn c s" and sid: "sid \<noteq> []" "sid \<notin> ids s"
  shows "advances 0 s (snd (AddSubscriberWithLimit sid c mx s))"
proof -
  let ?t = "s\<lparr>subscribers := gm_set sid c (subscribers s), keepAliveTimer := None\<rparr>"
  let ?u = "if publisherDisconnected ?t then snd (writeToConn c EncodeRunnerDisconnected ?t) else ?t"
  let ?s = "?u\<lparr>sub_readers := sid # sub_readers ?u\<rparr>"
  have "chan_inv m ?s" if inv: "chan_inv m s" and o: "\<not> closed s" for m
  proof -
    have new: "distinct (map snd (gm_set sid c (subscribers s)))"
      "set (gm_set sid c (subscribers s)) = insert (sid, c) (set (subscribers s))"
      using distinct_snd_gm_set [of "subscribers s" c sid] inv f sid
      by (auto simp: chan_inv_def sub_inv_def conns_ok_def fresh_conn_def conns_def ids_def)
    have "sub_inv ?s" using inv new f sid
      by (auto simp: chan_inv_def sub_inv_def ids_def conns_ok_def conns_def idle_timer_def fresh_conn_def writeToConn_def)
    moreover have "pub_inv ?s" using inv new f o
      by (auto simp: chan_inv_def pub_inv_def conns_def fresh_conn_def writeToConn_def)
    moreover have "lease_inv ?s = lease_inv s" "lease_armed ?s = lease_armed s" "epoch_inv m ?s = epoch_inv m s"
      by (auto simp: lease_inv_def lease_armed_def epoch_inv_def lease_duration_def writeToConn_def)
    ultimately show ?thesis using inv by (simp add: chan_inv_def)
  qed
  then have add: "\<not> closed s \<Longrightarrow> advances 0 s ?s" by (simp add: advances_def)
  have "advances 0 s (conn_Close c s)" if "closed s"
    using that close_conn_inv by (auto simp: advances_def chan_inv_def pub_inv_def)
  then show ?thesis
    using add advances_refl by (auto simp: AddSubscriberWithLimit_def addSubscriberInternal_def Let_def)
qed

subsection \<open>Every step keeps the invariant\<close>

lemma advances_readers:
  "advances 0 s (s\<lparr>pub_readers := rs\<rparr>)"
  "(\<And>x. x \<in> ids s \<Longrightarrow> x \<in> set ks) \<Longrightarrow> [] \<notin> set ks \<Longrightarrow> advances 0 s (s\<lparr>sub_readers := ks\<rparr>)"
  by (auto simp: advances_def pub_readers_inv chan_inv_def lease_inv_def lease_armed_def epoch_inv_def
      lease_duration_def pub_inv_def sub_inv_def ids_def conns_def conns_ok_def idle_timer_def)

lemma armed_view:
  "sub_inv (s\<lparr>armed := a\<rparr>) = sub_inv s" "lease_inv (s\<lparr>armed := a\<rparr>) = lease_inv s"
  by (simp_all add: sub_inv_def lease_inv_def ids_def conns_def conns_ok_def idle_timer_def)

lemma pub_inv_armed:
  "pub_inv s \<Longrightarrow> (\<And>d. publisherDisconnected s \<Longrightarrow> \<not> closed s \<Longrightarrow> (d, ReconnectTimer) \<in> set (armed s) \<Longrightarrow> (d, ReconnectTimer) \<in> set a)
    \<Longrightarrow> pub_inv (s\<lparr>armed := a\<rparr>)"
  unfolding pub_inv_def conns_def by simp blast

lemma epoch_inv_fewer: "epoch_inv m s \<Longrightarrow> set a \<subseteq> set (armed s) \<Longrightarrow> epoch_inv m (s\<lparr>armed := a\<rparr>)"
  unfolding epoch_inv_def by auto

text \<open>Taking a timer out before its callback: a lease timer of the current epoch ends the lease, and
  the reconnect timer closes the channel, so what the invariant says of them is not needed any more.\<close>

lemma lease_timer_inv:
  assumes "chan_inv m s"
  shows "\<exists>j\<le>2. chan_inv (m + j) (expireControlLease k (s\<lparr>armed := remove1 (d, LeaseTimer k) (armed s)\<rparr>))"
proof (cases "controlOwner s = [] \<or> controlEpoch s \<noteq> k")
  case True
  let ?s = "s\<lparr>armed := remove1 (d, LeaseTimer k) (armed s)\<rparr>"
  have other: "x \<in> set (armed ?s)" if "x \<in> set (armed s)" "x \<noteq> (d, LeaseTimer k)" for x
    using that by simp
  have "lease_armed ?s"
    using assms True other by (auto simp: chan_inv_def lease_armed_def lease_inv_def lease_duration_def)
  moreover have "pub_inv ?s" using assms by (auto simp: chan_inv_def intro!: pub_inv_armed)
  moreover have "epoch_inv m ?s" using assms by (simp add: chan_inv_def epoch_inv_fewer set_remove1_subset)
  ultimately have "chan_inv m ?s" using assms by (simp add: chan_inv_def armed_view)
  then show ?thesis using True by (intro exI [of _ 0]) (simp add: expireControlLease_def)
next
  case False
  let ?s = "clearControlLeaseLocked (s\<lparr>armed := remove1 (d, LeaseTimer k) (armed s)\<rparr>)"
  have "epoch_inv m (s\<lparr>armed := remove1 (d, LeaseTimer k) (armed s)\<rparr>)"
    using assms by (simp add: chan_inv_def epoch_inv_fewer set_remove1_subset)
  moreover have "pub_inv (s\<lparr>armed := remove1 (d, LeaseTimer k) (armed s)\<rparr>)"
    using assms by (auto simp: chan_inv_def intro!: pub_inv_armed)
  ultimately have inv: "chan_inv (Suc m) ?s" using assms by (simp add: chan_inv_def armed_view epoch_inv_clear)
  have cl: "closed ?s = closed s" by (simp add: clearControlLeaseLocked_def)
  from moves_chan_inv [OF inv moves_sends(3)] obtain j
    where "j \<le> 1" "chan_inv (Suc m + j) (broadcast_status Broadcast ControlLeaseStatusExpired ?s)" by blast
  then have "\<exists>j\<le>2. chan_inv (m + j) (if closed s then ?s else broadcast_status Broadcast ControlLeaseStatusExpired ?s)"
    using inv by (cases "closed s") (auto intro: exI [of _ "Suc j"] exI [of _ "Suc 0"])
  then show ?thesis using False cl by (simp add: expireControlLease_def Let_def)
qed

text \<open>An armed timer that is neither the current lease's nor a needed reconnect timer is irrelevant.\<close>

lemma other_timer_inv:
  assumes "chan_inv m s" "k \<in> {KeepAliveTimer, ReconnectTimer}" "k = ReconnectTimer \<Longrightarrow> \<not> publisherDisconnected s"
  shows "chan_inv m (s\<lparr>armed := remove1 (d, k) (armed s)\<rparr>)"
proof -
  let ?s = "s\<lparr>armed := remove1 (d, k) (armed s)\<rparr>"
  have lease: "(d', LeaseTimer i) \<in> set (armed ?s) \<longleftrightarrow> (d', LeaseTimer i) \<in> set (armed s)" for d' i
    using assms(2) by auto
  have "lease_armed ?s = lease_armed s" "epoch_inv m ?s = epoch_inv m s"
    using lease by (simp_all add: lease_armed_def epoch_inv_def lease_duration_def)
  moreover have "pub_inv ?s" using assms by (auto simp: chan_inv_def intro!: pub_inv_armed)
  ultimately show ?thesis using assms(1) by (simp add: chan_inv_def armed_view)
qed

text \<open>Closing does not need the reconnect timer.\<close>

lemma reconnect_timer_inv:
  assumes inv: "chan_inv m s"
  shows "\<exists>j\<le>1. chan_inv (m + j) (reconnectExpired (s\<lparr>armed := remove1 (d, ReconnectTimer) (armed s)\<rparr>))"
    (is "\<exists>j\<le>1. chan_inv (m + j) (reconnectExpired ?s)")
proof -
  have lease: "(d', LeaseTimer i) \<in> set (armed ?s) \<longleftrightarrow> (d', LeaseTimer i) \<in> set (armed s)" for d' i by auto
  have same: "lease_armed ?s = lease_armed s" "epoch_inv m ?s = epoch_inv m s"
    using lease by (simp_all add: lease_armed_def epoch_inv_def lease_duration_def)
  have fields: "publisherDisconnected ?s = publisherDisconnected s" "closed ?s = closed s" by simp_all
  show ?thesis
  proof (cases "publisherDisconnected s \<and> \<not> closed s")
    case True
    then have "chan_inv (m + 1) (closeInternal ?s)"
      using inv same by (intro close_inv) (simp_all add: chan_inv_def armed_view)
    then show ?thesis using True by (intro exI [of _ 1]) (simp add: reconnectExpired_def)
  next
    case False
    then have "pub_inv ?s" using inv by (auto simp: chan_inv_def intro!: pub_inv_armed)
    then have "chan_inv m ?s" using inv same by (simp add: chan_inv_def armed_view)
    then show ?thesis using False by (intro exI [of _ 0]) (auto simp: reconnectExpired_def closeInternal_def)
  qed
qed

lemma keep_alive_inv: "chan_inv m (keepAliveExpired s) = chan_inv m s"
  by (simp add: keepAliveExpired_def log_call_inv)

lemma tick_inv:
  assumes "chan_inv m s" "0 \<le> d"
  shows "chan_inv m (s\<lparr>clock := clock s + d\<rparr>)"
proof -
  have "lease_armed (s\<lparr>clock := clock s + d\<rparr>)"
    using assms by (fastforce simp: chan_inv_def lease_armed_def lease_duration_def)
  moreover have "lease_inv (s\<lparr>clock := clock s + d\<rparr>) = lease_inv s" "pub_inv (s\<lparr>clock := clock s + d\<rparr>) = pub_inv s"
    "sub_inv (s\<lparr>clock := clock s + d\<rparr>) = sub_inv s" "epoch_inv m (s\<lparr>clock := clock s + d\<rparr>) = epoch_inv m s"
    by (simp_all add: lease_inv_def epoch_inv_def pub_inv_def sub_inv_def ids_def conns_def conns_ok_def idle_timer_def)
  ultimately show ?thesis using assms(1) by (simp add: chan_inv_def)
qed

lemma RemoveSubscriber_removes: "sid \<notin> ids (RemoveSubscriber sid s)"
proof (cases "gm_get (subscribers s) sid")
  case None
  then have "sid \<notin> ids s" by (simp add: gm_get_ids_None)
  with None show ?thesis by (simp add: RemoveSubscriber_unfold)
next
  case (Some c)
  let ?u = "unsubscribe sid c s"
  have "sid \<notin> ids ?u" by (auto simp: ids_def unsubscribe_def gm_del_set)
  moreover have "set (subscribers (releaseControlLeaseForSubscriber sid ?u)) \<subseteq> set (subscribers ?u)"
    using talking.broadcast [of "clearControlLeaseLocked ?u"]
    by (auto simp: releaseControlLeaseForSubscriber_unfold talks_to_subscribers_def)
  ultimately have "sid \<notin> ids (releaseControlLeaseForSubscriber sid ?u)" by (auto simp: ids_def)
  then show ?thesis
    by (auto simp: RemoveSubscriber_unfold Some Let_def ids_def unsubscribe_def)
qed

text \<open>A step keeps the invariant; it advances the epoch by at most four.\<close>

lemma chan_step_inv:
  assumes "chan_step s e s'" "chan_inv m s"
  shows "\<exists>j\<le>4. chan_inv (m + j) s'"
proof -
  have adv: "\<exists>j\<le>4. chan_inv (m + j) t" if "advances k s t" "k \<le> 4" for k t
    using that assms(2) unfolding advances_def by (meson order_trans)
  have up: "\<exists>j\<le>4. P (m + j)" if "\<exists>j\<le>k. P (m + j)" "k \<le> 4" for k P using that by (meson order_trans)
  have zero: "\<exists>j\<le>4. chan_inv (m + j) t" if "chan_inv m t" for t using that by (intro exI [of _ 0]) simp
  from assms show ?thesis
  proof (cases rule: chan_step.cases)
    case (publish c)
    then show ?thesis using adv [OF advances_SetPublisher] by simp
  next
    case (publisher_sends c e data)
    then show ?thesis using adv [OF advances_send(5)] by simp
  next
    case (publisher_fails c e)
    then show ?thesis using adv [OF advances_disconnect, of c e] pub_readers_inv by fastforce
  next
    case (subscribe c sid mx)
    then show ?thesis using adv [OF advances_subscribe] by simp
  next
    case (subscriber_sends sid data)
    then have "sid \<noteq> []" using assms(2) by (auto simp: chan_inv_def sub_inv_def)
    then show ?thesis using adv [OF advances_message] subscriber_sends by simp
  next
    case (subscriber_fails sid)
    let ?t = "RemoveSubscriber sid s"
    have readers: "sub_readers ?t = sub_readers s"
      using moves_remove [of s sid] by (simp add: moves_def same_setting_def)
    obtain j where j: "j \<le> 4" "chan_inv (m + j) ?t" using adv [OF advances_moves [OF moves_remove]] by auto
    have "advances 0 ?t (?t\<lparr>sub_readers := removeAll sid (sub_readers s)\<rparr>)"
      by (rule advances_readers(2)) (use j(2) readers RemoveSubscriber_removes [of sid s] in
          \<open>auto simp: chan_inv_def sub_inv_def\<close>)
    then show ?thesis using subscriber_fails j unfolding advances_def by fastforce
  next
    case (timer_fires d k)
    show ?thesis
    proof (cases k)
      case (LeaseTimer i)
      from up [OF lease_timer_inv [OF assms(2), of i d]] show ?thesis
        using timer_fires LeaseTimer by (simp add: run_timer_def)
    next
      case KeepAliveTimer
      have "chan_inv m (s\<lparr>armed := remove1 (d, KeepAliveTimer) (armed s)\<rparr>)"
        by (rule other_timer_inv [OF assms(2)]) simp_all
      then show ?thesis
        using timer_fires KeepAliveTimer zero by (simp add: run_timer_def keep_alive_inv)
    next
      case ReconnectTimer
      from up [OF reconnect_timer_inv [OF assms(2), of d]] show ?thesis
        using timer_fires ReconnectTimer by (simp add: run_timer_def)
    qed
  next
    case closing
    then show ?thesis using adv [OF advances_close] by (simp add: Close_def)
  next
    case (clock_ticks d)
    then show ?thesis using tick_inv [OF assms(2)] zero by simp
  qed
qed

lemma start_inv: "quiet w \<Longrightarrow> chan_inv 0 (NewChannelWithConfig podKey cfg gone clsd w)"
  by (simp add: quiet_def NewChannelWithConfig_def surroundings.extend_def channel.fields_def chan_inv_def
      lease_inv_def lease_armed_def epoch_inv_def pub_inv_def sub_inv_def ids_def conns_def conns_ok_def idle_timer_def)

lemma reachable_inv: "chan_reachable n s \<Longrightarrow> \<exists>m\<le>4 * n. chan_inv m s"
proof (induction rule: chan_reachable.induct)
  case (start w podKey cfg gone clsd)
  then show ?case using start_inv by blast
next
  case (step n s e s')
  then obtain m where m: "m \<le> 4 * n" "chan_inv m s" by blast
  from chan_step_inv [OF step.hyps(2) m(2)] obtain j where "j \<le> 4" "chan_inv (m + j) s'" by blast
  with m(1) show ?case by (intro exI [of _ "m + j"]) simp
qed

subsection \<open>The publisher is watched\<close>

lemma pub_view_disconnect:
  "publisher s \<noteq> Some c \<or> publisherEpoch s \<noteq> e \<Longrightarrow> handlePublisherDisconnect c e s = s"
  "publisher s = Some c \<Longrightarrow> publisherEpoch s = e \<Longrightarrow> publisher (handlePublisherDisconnect c e s) = None"
proof -
  assume "publisher s = Some c" "publisherEpoch s = e"
  then show "publisher (handlePublisherDisconnect c e s) = None"
    using setting.broadcast by (simp add: handlePublisherDisconnect_def AfterFunc_def same_setting_def conn_Close_def)
qed (auto simp: handlePublisherDisconnect_def)

lemma watched_view: "pub_view s' = pub_view s \<Longrightarrow> watched s' = watched s"
  by (simp add: watched_def)

lemma watched_closeInternal: "watched s \<Longrightarrow> watched (closeInternal s)"
  by (cases "closed s") (simp add: closeInternal_def,
      simp add: closeInternal_idle Let_def watched_def pub_view_def log_call_def)

lemma watched_SetPublisher:
  assumes f: "fresh_conn c s" and w: "watched s"
  shows "watched (SetPublisher c s)"
proof (cases "closed s")
  case True
  then show ?thesis using w by (simp add: SetPublisher_def watched_def pub_view_def conn_Close_def)
next
  case False
  let ?s1 = "s\<lparr>publisher := Some c, publisherDisconnected := False, publisherEpoch := publisherEpoch s + 1,
                publisherReconnectTimer := None,
                closed_conns := closed_conns s @ (case publisher s of None \<Rightarrow> [] | Some old \<Rightarrow> [old]), pub_readers := []\<rparr>"
  have view: "pub_view (if b then Broadcast d ?s1 else ?s1) = pub_view ?s1" for b d by simp
  have "watched (start_forwarding (publisherEpoch s + 1) t)" if "pub_view t = pub_view ?s1" for t
    using that by (simp add: start_forwarding_def watched_def pub_view_def)
  from this [OF view] show ?thesis by (simp only: SetPublisher_fresh [OF f False] Let_def)
qed

lemma watched_step: "chan_step s e s' \<Longrightarrow> watched s \<Longrightarrow> watched s'"
proof (induction rule: chan_step.induct)
  case (publish c s)
  then show ?case by (rule watched_SetPublisher)
next
  case (publisher_sends c e s data)
  then show ?case by (simp add: watched_view [OF pub_view_same(5)])
next
  case (publisher_fails c e s)
  show ?case
  proof (cases "publisher s = Some c \<and> publisherEpoch s = e")
    case True
    then show ?thesis by (simp add: watched_def pub_view_def pub_view_disconnect(2))
  next
    case False
    then show ?thesis using publisher_fails by (auto simp: pub_view_disconnect(1) watched_def pub_view_def)
  qed
next
  case (subscribe c s sid m)
  then show ?case
    by (auto simp: AddSubscriberWithLimit_def addSubscriberInternal_def Let_def watched_def pub_view_def conn_Close_def
        writeToConn_def)
next
  case (subscriber_sends sid s data)
  then show ?case by (simp add: watched_view [OF pub_view_message])
next
  case (subscriber_fails sid s)
  have "pub_view ((RemoveSubscriber sid s)\<lparr>sub_readers := r\<rparr>) = pub_view s" for r
    using pub_view_same(6) [of sid s] by (simp add: pub_view_def)
  then show ?case using subscriber_fails watched_view by blast
next
  case (timer_fires d k s)
  let ?s = "s\<lparr>armed := remove1 (d, k) (armed s)\<rparr>"
  have w: "watched ?s" using timer_fires by (simp add: watched_def pub_view_def)
  show ?case
  proof (cases k)
    case (LeaseTimer i)
    then show ?thesis using w watched_view [OF pub_view_expire] by (simp add: run_timer_def)
  next
    case KeepAliveTimer
    then show ?thesis using w
      by (simp add: run_timer_def keepAliveExpired_def log_call_def watched_def pub_view_def)
  next
    case ReconnectTimer
    then show ?thesis using w watched_closeInternal [OF w] by (simp add: run_timer_def reconnectExpired_def)
  qed
next
  case (closing s)
  then show ?case by (simp add: Close_def watched_closeInternal)
next
  case (clock_ticks d s)
  then show ?case by (simp add: watched_def pub_view_def)
qed

lemma reachable_watched: "chan_reachable n s \<Longrightarrow> watched s"
proof (induction rule: chan_reachable.induct)
  case (start w podKey cfg gone clsd)
  then show ?case
    by (simp add: NewChannelWithConfig_def surroundings.extend_def channel.fields_def watched_def pub_view_def)
qed (rule watched_step)

end
