(* ===== verification/RelayChannelProps.thy ===== *)
theory RelayChannelProps
  imports RelaySteps
begin

text \<open>
  The properties of the relay's channel and wire formats: what holds in every reachable state, what the
  timers can and cannot do, the errors of adding a subscriber, the round trips of the frames, and two
  runs that show the limits of the code.
\<close>

subsection \<open>Wire formats\<close>

text \<open>What one side sends the other reads: the two directions of a binary codec.\<close>

locale wire_codec =
  fixes enc :: "'a \<Rightarrow> bytes" and dec :: "bytes \<Rightarrow> 'e + 'a"
  assumes dec_enc: "dec (enc x) = Inr x"
    and enc_dec: "dec raw = Inr x \<Longrightarrow> enc x = raw"
begin

lemma decodes_iff: "dec raw = Inr x \<longleftrightarrow> raw = enc x"
  using dec_enc enc_dec by auto

lemma enc_inj: "enc x = enc y \<longleftrightarrow> x = y"
  by (metis dec_enc sum.inject(2))

end

interpretation to_runner: wire_codec relay_Encode runner_Decode
  by unfold_locales (simp_all add: runner_is_relay relay_Decode_Encode relay_Encode_Decode)

interpretation to_relay: wire_codec runner_Encode relay_Decode
  by unfold_locales (simp_all add: runner_is_relay relay_Decode_Encode relay_Encode_Decode)

interpretation terminal: wire_codec "\<lambda>m. EncodeMessage (msg_type m) (msg_payload m)" DecodeMessage
  by unfold_locales (auto simp: EncodeMessage_def DecodeMessage_def mk_message_def split: list.splits)

text \<open>The relay and the runner speak the same frame format: what either encodes the other decodes to
  the same type, stream and payload, and nothing else decodes to it.\<close>

theorem tunnel_frames_roundtrip:
  "(runner_Decode raw = Inr f \<longleftrightarrow> raw = relay_Encode f) \<and> (relay_Decode raw = Inr f \<longleftrightarrow> raw = runner_Encode f)"
  by (simp add: to_runner.decodes_iff to_relay.decodes_iff)

text \<open>A frame is refused exactly when it is shorter than its five-byte header.\<close>

theorem tunnel_frames_short:
  "(relay_Decode raw = Inl ErrShortFrame \<longleftrightarrow> length raw < 5) \<and> (\<exists>f. relay_Decode raw = Inr f) = (5 \<le> length raw)"
  by (auto simp: relay_Decode_def HeaderSize_def)

text \<open>The terminal messages: a message is decoded to the type and payload it was encoded from, only
  the empty message is refused, and a resize carries its two numbers through the payload.\<close>

theorem terminal_messages_roundtrip:
  "DecodeMessage (EncodeMessage t p) = Inr (mk_message t p) \<and>
   (DecodeMessage data = Inl ErrEmptyMessage) = (data = []) \<and>
   DecodeMessage (EncodeResize c r) = Inr (mk_message MsgTypeResize (PutUint16 c @ PutUint16 r)) \<and>
   DecodeResize (PutUint16 c @ PutUint16 r) = Inr (c, r) \<and>
   (DecodeResize p = Inl ErrInvalidMessage) = (length p < 4)"
  by (auto simp: EncodeMessage_def DecodeMessage_def EncodeResize_def DecodeResize_def PutUint16_def Uint16_Put
      split: list.split)

subsection \<open>A channel to try things on\<close>

definition sample_surroundings :: surroundings where
  "sample_surroundings = \<lparr>clock = 0, entropy = (\<lambda>_. Some (replicate 16 0)), entropy_reads = 0,
     write_fails = (\<lambda>_. False), writes = 0, sent = [], closed_conns = [], armed = [], pub_readers = [],
     sub_readers = [], called = []\<rparr>"

definition sample_channel :: channel where
  "sample_channel = NewChannelWithConfig ''pod'' DefaultChannelConfig True True sample_surroundings"

definition lease_request :: "str \<Rightarrow> bytes" where
  "lease_request action = MsgTypeControl #
     bytes_of (json_object [(''type'', json_string ''control_lease''), (''action'', json_string action)])"

text \<open>The runner on connection 1, a browser on connection 2, which takes the lease.\<close>

definition sample_connected :: channel where
  "sample_connected = snd (AddSubscriberWithLimit ''a'' 2 10 (SetPublisher 1 sample_channel))"

definition sample_leased :: channel where
  "sample_leased = handleSubscriberMessage ''a'' (lease_request ''acquire'') sample_connected"

abbreviation zeros :: str where "zeros \<equiv> replicate 32 (CHR ''0'')"

lemma lease_request_decoded:
  "DecodeControlLeaseRequest (tl (lease_request ''acquire'')) = LeaseRequest (mk_lease_request ''control_lease'' ''acquire'' [] [])"
  "length (lease_request ''acquire'') \<le> maxMessageSize"
  by code_simp+

lemma zeros_hex: "hex_encode (replicate 16 0) = zeros"
  by code_simp

lemmas sample_defs = sample_channel_def NewChannelWithConfig_def surroundings.extend_def channel.fields_def
  sample_surroundings_def DefaultChannelConfig_def

lemma sample_published_eq:
  "SetPublisher 1 sample_channel = sample_channel\<lparr>publisher := Some 1, publisherEpoch := 1, pub_readers := [(1, 1)]\<rparr>"
  by (simp add: SetPublisher_def publisherWg_Wait_def start_forwarding_def Let_def sample_defs)

lemma sample_connected_eq:
  "sample_connected = sample_channel\<lparr>publisher := Some 1, publisherEpoch := 1, pub_readers := [(1, 1)],
     subscribers := [(''a'', 2)], sub_readers := [''a'']\<rparr>"
  unfolding sample_connected_def sample_published_eq
  by (simp add: AddSubscriberWithLimit_def addSubscriberInternal_def Let_def sample_defs)

text \<open>A request for the lease, decoded.\<close>

lemma lease_message:
  assumes "DecodeControlLeaseRequest (tl m) = LeaseRequest r" "m \<noteq> []" "hd m = MsgTypeControl"
  shows "handleSubscriberMessage sid m s = handleControlLeaseRequest sid r s"
  using assms by (cases m) (simp_all add: handleSubscriberMessage_def DecodeMessage_def mk_message_def)

lemma acquire_message:
  "handleSubscriberMessage sid (lease_request ''acquire'') s = acquireControlLease sid s"
  by (subst lease_message [OF lease_request_decoded(1)])
    (simp_all add: lease_request_def handleControlLeaseRequest_def mk_lease_request_def ControlLeaseActionAcquire_def)

lemma sample_leased_eq:
  "sample_leased = sample_connected\<lparr>entropy_reads := 1, controlOwner := ''a'', controlLeaseID := zeros,
     controlExpiresAt := Some (30 * Second), controlEpoch := 1, controlTimer := Some (30 * Second, LeaseTimer 1),
     armed := [(30 * Second, LeaseTimer 1)], writes := 1,
     sent := [(2, EncodeControlLeaseStatus ControlLeaseStatusGranted zeros (unix_milli (Some (30 * Second))))]\<rparr>"
proof -
  have sec: "0 < Second" by (simp add: Second_def)
  have h: "hex_encode (take 16 (replicate 16 0)) = zeros" using zeros_hex by simp
  show ?thesis
    unfolding sample_leased_def acquire_message acquireControlLease_def newControlLeaseID_def
    by (simp add: sample_connected_eq sample_defs Let_def setControlLeaseLocked_def AfterFunc_def send_granted_def
        sendControlStatus_def gm_get_def writeToConn_def sec h zeros_hex)
qed

lemmas sample_leased_eqs = sample_leased_eq sample_connected_eq sample_defs

lemma sample_quiet: "quiet sample_surroundings"
  by (simp add: quiet_def sample_surroundings_def)

lemma sample_reachable:
  "chan_reachable 0 sample_channel" "chan_reachable 1 (SetPublisher 1 sample_channel)"
  "chan_reachable 2 sample_connected" "chan_reachable 3 sample_leased"
proof -
  show r0: "chan_reachable 0 sample_channel"
    unfolding sample_channel_def by (rule chan_reachable.start) (rule sample_quiet)
  have "fresh_conn 1 sample_channel" by (simp add: fresh_conn_def conns_def sample_defs)
  from chan_reachable.step [OF r0 publish [OF this]]
  show r1: "chan_reachable 1 (SetPublisher 1 sample_channel)" by simp
  have "chan_step (SetPublisher 1 sample_channel) (Subscribe ''a'' 2 10) sample_connected"
    unfolding sample_connected_def
    unfolding sample_published_eq by (intro subscribe) (simp_all add: fresh_conn_def conns_def ids_def sample_defs)
  from chan_reachable.step [OF r1 this] show r2: "chan_reachable 2 sample_connected" by (simp add: numeral_2_eq_2)
  have "chan_step sample_connected (Subscriber_sends ''a'' (lease_request ''acquire'')) sample_leased"
    unfolding sample_leased_def by (intro subscriber_sends lease_request_decoded(2)) (simp add: sample_connected_eq)
  from chan_reachable.step [OF r2 this] show "chan_reachable 3 sample_leased" by (simp add: numeral_3_eq_3 numeral_2_eq_2)
qed

theorem handleSubscriberMessage_refines_lock_witness:
  "controlOwner sample_leased = ''a'' \<and> holds_or_dropped (Some (''a'', replicate 32 (CHR ''0''), 30 * Second))
     (handleSubscriberMessage ''b'' [MsgTypeInput] sample_leased)"
proof -
  have "lease_inv sample_leased" "[] \<notin> ids sample_leased" "controlOwner sample_leased = ''a''"
    "holder_of sample_leased = Some (''a'', zeros, 30 * Second)"
    "\<not> closed sample_leased" "lease_duration sample_leased = 30 * Second" "clock sample_leased = 0"
    by (simp_all add: lease_inv_def ids_def holder_of_def lease_duration_def sample_leased_eqs Second_def)
  moreover have "message_op [MsgTypeInput] sample_leased = Typing"
    by (simp add: message_op_def needs_lease_def msg_types)
  ultimately show ?thesis
    using handleSubscriberMessage_refines_lock [of sample_leased "''b''" "[MsgTypeInput]"] by (simp add: Second_def)
qed

theorem handleSubscriberMessage_delivers_witness:
  "received 1 (handleSubscriberMessage ''a'' [MsgTypeInput, 7] sample_leased)
     = received 1 sample_leased @ [[MsgTypeInput, 7]]"
proof -
  have "publisher sample_leased = Some 1" "1 \<notin> conns sample_leased"
    by (simp_all add: conns_def sample_leased_eqs)
  from handleSubscriberMessage_delivers [OF this] have
    "received 1 (handleSubscriberMessage ''a'' [MsgTypeInput, 7] sample_leased) = received 1 sample_leased @
      (if may_pass ''a'' [MsgTypeInput, 7] sample_leased \<and> 1 \<notin> set (closed_conns sample_leased)
          \<and> \<not> write_fails sample_leased (writes sample_leased) then [[MsgTypeInput, 7]] else [])" .
  moreover have "may_pass ''a'' [MsgTypeInput, 7] sample_leased"
    by (simp add: may_pass_def before_def needs_lease_def msg_types sample_leased_eqs Second_def)
  moreover have "closed_conns sample_leased = []" "\<not> write_fails sample_leased (writes sample_leased)"
    by (simp_all add: sample_leased_eqs)
  ultimately show ?thesis by simp
qed



subsection \<open>Timers\<close>

text \<open>C14. A lease is not ended early: whichever lease timer fires in a reachable state, stopped or not,
  old or new, before the lease's end it changes nothing but the list of armed timers. The epoch counter
  has 64 bits, so this is for runs of fewer than a quarter of 2 to the 64 steps.\<close>

theorem lease_timer_not_early:
  assumes "chan_reachable n s" "4 * n < 2 ^ 64" "holder_of s = Some (h, l, e)" "clock s < e"
    "chan_step s (Timer_fires (d, LeaseTimer k)) s'"
  shows "s' = s\<lparr>armed := remove1 (d, LeaseTimer k) (armed s)\<rparr>"
proof -
  obtain m where m: "m \<le> 4 * n" "chan_inv m s" using reachable_inv [OF assms(1)] by blast
  from assms(5) have t: "(d, LeaseTimer k) \<in> set (armed s)" "d \<le> clock s"
    "s' = expireControlLease k (s\<lparr>armed := remove1 (d, LeaseTimer k) (armed s)\<rparr>)"
    by (auto elim: timer_stepE simp: run_timer_def)
  have e: "controlExpiresAt s = Some e" "controlOwner s \<noteq> []"
    using holder_Some [OF assms(3)] m(2) by (auto simp: chan_inv_def)
  have "k \<noteq> controlEpoch s"
  proof
    assume k: "k = controlEpoch s"
    obtain i where i: "i \<le> m" "k = of_nat i" "i = m \<longrightarrow> controlOwner s = [] \<or> controlExpiresAt s = Some d"
      using m(2) t(1) by (auto simp: chan_inv_def epoch_inv_def)
    have "(of_nat i :: 64 word) = of_nat m" using k i(2) m(2) by (simp add: chan_inv_def epoch_inv_def)
    then have "i = m" using i(1) m(1) assms(2) by (simp add: word_of_nat_eq_iff take_bit_nat_eq_self)
    then show False using i(3) e t(2) assms(4) by simp
  qed
  then show ?thesis using t(3) by (simp add: expireControlLease_def)
qed

text \<open>The lease renewed after ten seconds; twenty seconds later the first timer is due, ten seconds before
  the end of the lease.\<close>

definition renew_request :: bytes where
  "renew_request = MsgTypeControl # bytes_of (json_object [(''type'', json_string ''control_lease''),
     (''action'', json_string ''renew''), (''lease_id'', json_string (replicate 32 (CHR ''0'')))])"

definition after :: "duration \<Rightarrow> channel \<Rightarrow> channel" where
  "after d s = s\<lparr>clock := clock s + d\<rparr>"

definition sample_waited :: channel where
  "sample_waited = after (10 * Second) sample_leased"

definition sample_renewed :: channel where
  "sample_renewed = handleSubscriberMessage ''a'' renew_request sample_waited"

definition sample_due :: channel where
  "sample_due = after (20 * Second) sample_renewed"

lemma renew_request_decoded:
  "DecodeControlLeaseRequest (tl renew_request) = LeaseRequest (mk_lease_request ''control_lease'' ''renew'' zeros [])"
  "length renew_request \<le> maxMessageSize"
  by code_simp+

lemma sample_renewed_eq:
  "sample_renewed = renewControlLease ''a'' zeros sample_waited"
  unfolding sample_renewed_def
  by (subst lease_message [OF renew_request_decoded(1)])
    (simp_all add: renew_request_def handleControlLeaseRequest_def mk_lease_request_def ControlLeaseActionAcquire_def
      ControlLeaseActionForceAcquire_def ControlLeaseActionRenew_def)

lemma sample_due_reachable: "chan_reachable 6 sample_due"
proof -
  have "chan_reachable 4 sample_waited" unfolding sample_waited_def after_def
    using chan_reachable.step [OF sample_reachable(4) clock_ticks, of "10 * Second"] by (simp add: Second_def)
  moreover have "chan_step sample_waited (Subscriber_sends ''a'' renew_request) sample_renewed"
    unfolding sample_renewed_def
    by (intro subscriber_sends renew_request_decoded(2)) (simp add: sample_waited_def after_def sample_leased_eqs)
  ultimately have "chan_reachable (Suc 4) sample_renewed" by (rule chan_reachable.step)
  from chan_reachable.step [OF this clock_ticks, of "20 * Second"] show ?thesis
    unfolding sample_due_def after_def by (simp add: Second_def)
qed

lemma sample_due_facts:
  "holder_of sample_due = Some (''a'', zeros, 40 * Second)" "clock sample_due = 30 * Second"
  "armed sample_due = [(30 * Second, LeaseTimer 1), (40 * Second, LeaseTimer 2)]"
proof -
  have sec: "Second = 1000000000" by (simp add: Second_def)
  show "holder_of sample_due = Some (''a'', zeros, 40 * Second)" "clock sample_due = 30 * Second"
    "armed sample_due = [(30 * Second, LeaseTimer 1), (40 * Second, LeaseTimer 2)]"
    by (simp_all add: sample_due_def sample_renewed_eq sample_waited_def after_def sample_leased_eqs renewControlLease_def
        before_def Let_def setControlLeaseLocked_def AfterFunc_def send_granted_def sendControlStatus_def gm_get_def
        writeToConn_def holder_of_def sec)
qed

theorem lease_timer_not_early_witness:
  "run_timer (LeaseTimer 1) (sample_due\<lparr>armed := [(40 * Second, LeaseTimer 2)]\<rparr>)
    = sample_due\<lparr>armed := [(40 * Second, LeaseTimer 2)]\<rparr>"
proof -
  have "chan_step sample_due (Timer_fires (30 * Second, LeaseTimer 1))
      (run_timer (LeaseTimer 1) (sample_due\<lparr>armed := remove1 (30 * Second, LeaseTimer 1) (armed sample_due)\<rparr>))"
    using sample_due_facts by (intro timer_fires) simp_all
  from lease_timer_not_early [OF sample_due_reachable _ _ _ this] show ?thesis
    using sample_due_facts by (simp add: Second_def)
qed


lemma sample_leased_facts:
  "holder_of sample_leased = Some (''a'', zeros, 30 * Second)" "clock sample_leased = 0" "controlEpoch sample_leased = 1"
  by (simp_all add: holder_of_def sample_leased_eqs)


text \<open>A runner that is lost is not lost unnoticed: in every reachable state the loss of its connection
  can be handled, which leaves the channel without runner and closes the connection; and then, unless the
  channel is closed meanwhile, a timer is armed that closes it with all its connections once the
  reconnect time is over.\<close>

theorem publisher_loss_handled:
  assumes "chan_reachable n s"
  shows "(\<forall>c. publisher s = Some c \<longrightarrow> (\<exists>s'. chan_step s (Publisher_fails c (publisherEpoch s)) s'
        \<and> publisher s' = None \<and> publisherDisconnected s' \<and> c \<in> set (closed_conns s'))) \<and>
    (publisherDisconnected s \<and> \<not> closed s \<longrightarrow> (\<exists>d. (d, ReconnectTimer) \<in> set (armed s) \<and>
        (d \<le> clock s \<longrightarrow> (\<exists>s'. chan_step s (Timer_fires (d, ReconnectTimer)) s' \<and> closed s' \<and> subscribers s' = []
          \<and> snd ` set (subscribers s) \<subseteq> set (closed_conns s')))))"
proof (intro conjI allI impI)
  fix c assume c: "publisher s = Some c"
  have "(c, publisherEpoch s) \<in> set (pub_readers s)"
    using reachable_watched [OF assms] c by (simp add: watched_def pub_view_def)
  note st = publisher_fails [OF this]
  let ?t = "conn_Close c (s\<lparr>publisher := None, publisherDisconnected := True,
      armed := armed s @ [(clock s + PublisherReconnectTimeout (config s), ReconnectTimer)],
      publisherReconnectTimer := Some (clock s + PublisherReconnectTimeout (config s), ReconnectTimer)\<rparr>)"
  have h: "handlePublisherDisconnect c (publisherEpoch s) s = Broadcast EncodeRunnerDisconnected ?t"
    using c by (simp add: handlePublisherDisconnect_def AfterFunc_def Let_def)
  have "same_setting ?t (Broadcast EncodeRunnerDisconnected ?t)" "closes_subscribers ?t (Broadcast EncodeRunnerDisconnected ?t)"
    by (rule setting.broadcast, rule closing.broadcast)
  then have "publisher (handlePublisherDisconnect c (publisherEpoch s) s) = None
      \<and> publisherDisconnected (handlePublisherDisconnect c (publisherEpoch s) s)
      \<and> c \<in> set (closed_conns (handlePublisherDisconnect c (publisherEpoch s) s))"
    unfolding h by (auto simp: same_setting_def closes_subscribers_def conn_Close_def)
  then show "\<exists>s'. chan_step s (Publisher_fails c (publisherEpoch s)) s' \<and> publisher s' = None
      \<and> publisherDisconnected s' \<and> c \<in> set (closed_conns s')" by (intro exI conjI) (rule st, simp_all)
next
  assume d: "publisherDisconnected s \<and> \<not> closed s"
  obtain m where "chan_inv m s" using reachable_inv [OF assms] by blast
  with d obtain t where t: "(t, ReconnectTimer) \<in> set (armed s)" by (auto simp: chan_inv_def pub_inv_def)
  let ?r = "s\<lparr>armed := remove1 (t, ReconnectTimer) (armed s)\<rparr>"
  have "closed (closeInternal ?r) \<and> subscribers (closeInternal ?r) = []
      \<and> snd ` set (subscribers s) \<subseteq> set (closed_conns (closeInternal ?r))"
    using d by (auto simp: closeInternal_idle Let_def log_call_def)
  moreover have "t \<le> clock s \<Longrightarrow> chan_step s (Timer_fires (t, ReconnectTimer)) (closeInternal ?r)"
    using timer_fires [OF t] d by (simp add: run_timer_def reconnectExpired_def)
  ultimately show "\<exists>t. (t, ReconnectTimer) \<in> set (armed s) \<and> (t \<le> clock s \<longrightarrow>
      (\<exists>s'. chan_step s (Timer_fires (t, ReconnectTimer)) s' \<and> closed s' \<and> subscribers s' = []
        \<and> snd ` set (subscribers s) \<subseteq> set (closed_conns s')))" using t by blast
qed

theorem publisher_loss_handled_witness:
  "\<exists>s'. chan_step sample_leased (Publisher_fails 1 1) s' \<and> publisher s' = None \<and> publisherDisconnected s'"
proof -
  have "publisher sample_leased = Some 1 \<and> publisherEpoch sample_leased = 1" by (simp add: sample_leased_eqs)
  then show ?thesis using publisher_loss_handled [OF sample_reachable(4)] by auto
qed

subsection \<open>Subscribers\<close>

text \<open>Adding a subscriber: a closed channel refuses and closes the connection, a full one refuses and
  leaves the channel as it was; otherwise the subscriber is in under its id, the keep-alive timer is
  forgotten, and a channel without runner says so at once. The number of subscribers never passes the
  limit.\<close>

theorem addSubscriberInternal_correct:
  "(case addSubscriberInternal sid c mx s of
      (Some ChannelClosedError, s') \<Rightarrow> closed s \<and> s' = conn_Close c s
    | (Some (MaxSubscribersError k), s') \<Rightarrow> k = mx \<and> mx > 0 \<and> int (length (subscribers s)) \<ge> mx \<and> s' = s
    | (None, s') \<Rightarrow> \<not> closed s \<and> subscribers s' = gm_set sid c (subscribers s) \<and> keepAliveTimer s' = None
        \<and> (mx \<le> 0 \<or> int (length (subscribers s')) \<le> mx) \<and> sub_readers s' = sid # sub_readers s
        \<and> received c s' = received c s @ (if publisherDisconnected s \<and> c \<notin> set (closed_conns s)
            \<and> \<not> write_fails s (writes s) then [EncodeRunnerDisconnected] else []))"
proof -
  have len: "length (gm_set sid c m) \<le> Suc (length m)" for m :: "(str, conn) gomap"
    by (induction sid c m rule: gm_set.induct) auto
  have "int (length (gm_set sid c (subscribers s))) \<le> mx" if "\<not> mx \<le> int (length (subscribers s))"
    using len [of "subscribers s"] that by linarith
  then show ?thesis
    by (auto simp: addSubscriberInternal_def Let_def writeToConn_def received_def)
qed

text \<open>Broadcast and RemoveSubscriber return: the recursion of the two through the lease is as deep as
  there are subscribers at most, so that the bound of the model is never reached and both satisfy the
  equations of the code.\<close>

theorem Broadcast_returns:
  "Broadcast d s = (case write_each d (subscribers s) s of (failed, s1) \<Rightarrow> fold RemoveSubscriber failed s1) \<and>
   RemoveSubscriber sid s = (case gm_get (subscribers s) sid of
       None \<Rightarrow> s
     | Some c \<Rightarrow>
         (let s1 = (conn_Close c s)\<lparr>subscribers := gm_del sid (subscribers s)\<rparr>;
              s2 = (if controlOwner s1 \<noteq> sid then s1
                    else Broadcast (EncodeControlLeaseStatus ControlLeaseStatusReleased [] 0) (clearControlLeaseLocked s1))
          in if subscribers s1 = [] then handleLastSubscriberGone s2 else s2))"
  by (rule conjI [OF Broadcast_unfold RemoveSubscriber_unfold [unfolded releaseControlLeaseForSubscriber_unfold]])

subsection \<open>Limits of the code\<close>

text \<open>The reconnect timer has no epoch: the callback of an earlier break that is already running when
  the runner comes back closes the channel at the next break, thirty seconds before that break's own
  timer is due.\<close>

theorem stale_reconnect_timer_closes:
  "let s1 = handlePublisherDisconnect 1 1 (SetPublisher 1 sample_channel);
       s2 = s1\<lparr>clock := 30 * Second\<rparr>;
       s3 = handlePublisherDisconnect 2 2 (SetPublisher 2 s2)
   in publisherReconnectTimer s1 = Some (30 * Second, ReconnectTimer) \<and>
      publisherReconnectTimer s3 = Some (60 * Second, ReconnectTimer) \<and>
      clock s3 = 30 * Second \<and> \<not> closed s3 \<and> closed (reconnectExpired s3)"
  by (simp add: sample_defs SetPublisher_def publisherWg_Wait_def start_forwarding_def handlePublisherDisconnect_def
      AfterFunc_def conn_Close_def Broadcast_unfold reconnectExpired_def closeInternal_idle log_call_def Let_def)

text \<open>A subscriber that was removed because a write to it failed can still take the lease with a message
  that was already read: the lease then belongs to nobody connected, and the others are told it is busy.\<close>

theorem departed_subscriber_takes_lease:
  "let s1 = AddSubscriber ''b'' 3 (AddSubscriber ''a'' 2 sample_channel);
       s2 = RemoveSubscriber ''a'' s1;
       s3 = handleSubscriberMessage ''a'' (lease_request ''acquire'') s2;
       s4 = handleSubscriberMessage ''b'' (lease_request ''acquire'') s3
   in controlOwner s3 = ''a'' \<and> map fst (subscribers s3) = [''b''] \<and> controlOwner s4 = ''a'' \<and>
      received 3 s4 = [EncodeControlLeaseStatus ControlLeaseStatusBusy [] 0]"
  unfolding acquire_message
  by (simp add: sample_defs AddSubscriber_def addSubscriberInternal_def RemoveSubscriber_unfold
      releaseControlLeaseForSubscriber_unfold acquireControlLease_def newControlLeaseID_def setControlLeaseLocked_def
      AfterFunc_def conn_Close_def gm_get_def gm_del_def send_granted_def sendControlStatus_def writeToConn_def
      unix_milli_def before_def received_def Second_def Let_def)

end
