(* ===== verification/RelayManager.thy ===== *)
theory RelayManager
  imports RelaySteps
begin

text \<open>
  The manager of the relay's channels (relay/internal/channel/channel\_manager*.go): which channel a pod
  has, and the runner or browser connections that wait for their counterpart. Channels are objects: the
  manager's map holds references, and what a channel calls back while one of its methods runs is done by
  the manager at the end of the method.
\<close>

type_synonym chan_ref = nat

record manager_config =
  m_KeepAliveDuration :: duration
  MaxSubscribersPerPod :: int
  m_PublisherReconnectTimeout :: duration
  m_SubscriberReconnectTimeout :: duration
  PendingConnectionTimeout :: duration

definition DefaultChannelManagerConfig :: manager_config where
  "DefaultChannelManagerConfig = \<lparr>m_KeepAliveDuration = 30 * Second, MaxSubscribersPerPod = 10,
     m_PublisherReconnectTimeout = 30 * Second, m_SubscriberReconnectTimeout = 30 * Second,
     PendingConnectionTimeout = 60 * Second\<rparr>"

record pending_publisher =
  pp_conn :: conn
  pp_createdAt :: time

record pending_subscriber =
  ps_conn :: conn
  ps_subscriberID :: str
  ps_createdAt :: time

text \<open>The manager with the channels there are and the surroundings of new ones, whose clock is the
  manager's. The onAllSubscribersGone callback is the server's and is only noted.\<close>

record manager =
  channels :: "(str, chan_ref) gomap"
  pendingPublishers :: "(str, pending_publisher) gomap"
  pendingSubscribers :: "(str, pending_subscriber) gomap"
  m_config :: manager_config
  m_gone :: bool
  m_done :: bool
  objects :: "chan_ref \<Rightarrow> channel"
  next_ref :: chan_ref
  m_world :: surroundings
  m_closed :: "conn list"

definition NewChannelManagerWithConfig :: "manager_config \<Rightarrow> bool \<Rightarrow> surroundings \<Rightarrow> manager" where
  "NewChannelManagerWithConfig cfg gone w = \<lparr>channels = [], pendingPublishers = [], pendingSubscribers = [],
     m_config = cfg, m_gone = gone, m_done = False, objects = (\<lambda>_. NewChannelWithConfig [] DefaultChannelConfig False False w),
     next_ref = 0, m_world = w, m_closed = []\<rparr>"

definition NewChannelManager :: "duration \<Rightarrow> int \<Rightarrow> bool \<Rightarrow> surroundings \<Rightarrow> manager" where
  "NewChannelManager keepAliveDuration maxSubscribersPerPod = NewChannelManagerWithConfig
     (DefaultChannelManagerConfig\<lparr>m_KeepAliveDuration := keepAliveDuration, MaxSubscribersPerPod := maxSubscribersPerPod\<rparr>)"

definition GetChannel :: "str \<Rightarrow> manager \<Rightarrow> chan_ref option" where
  "GetChannel podKey m = gm_get (channels m) podKey"

text \<open>The lease duration is not in the manager's configuration, so it is 0 and a channel takes its
  default.\<close>

definition buildChannelConfig :: "manager \<Rightarrow> channel_config" where
  "buildChannelConfig m = \<lparr>KeepAliveDuration = m_KeepAliveDuration (m_config m),
     PublisherReconnectTimeout = m_PublisherReconnectTimeout (m_config m),
     SubscriberReconnectTimeout = m_SubscriberReconnectTimeout (m_config m), ControlLeaseDuration = 0\<rparr>"

definition onChannelClosed :: "str \<Rightarrow> manager \<Rightarrow> manager" where
  "onChannelClosed podKey m = m\<lparr>channels := gm_del podKey (channels m)\<rparr>"

definition run_callback :: "callback \<Rightarrow> manager \<Rightarrow> manager" where
  "run_callback cb m = (case cb of ChannelClosed podKey \<Rightarrow> onChannelClosed podKey m | AllSubscribersGone _ \<Rightarrow> m)"

text \<open>A method of the channel behind a reference, with its callbacks.\<close>

definition on_channel :: "chan_ref \<Rightarrow> (channel \<Rightarrow> channel) \<Rightarrow> manager \<Rightarrow> manager" where
  "on_channel i f m =
     (let s = objects m i; s' = f s
      in fold run_callback (drop (length (called s)) (called s')) (m\<lparr>objects := (objects m)(i := s')\<rparr>))"

definition create_channel :: "str \<Rightarrow> manager \<Rightarrow> chan_ref \<times> manager" where
  "create_channel podKey m =
     (let i = next_ref m;
          ch = NewChannelWithConfig podKey (buildChannelConfig m) (m_gone m) True (m_world m)
      in (i, m\<lparr>objects := (objects m)(i := ch), next_ref := Suc i, channels := gm_set podKey i (channels m)\<rparr>))"

text \<open>closeWithReason on a connection no channel has.\<close>

definition close_pending :: "conn \<Rightarrow> manager \<Rightarrow> manager" where
  "close_pending c m = m\<lparr>m_closed := m_closed m @ [c]\<rparr>"

definition HandlePublisherConnect :: "str \<Rightarrow> conn \<Rightarrow> manager \<Rightarrow> manager" where
  "HandlePublisherConnect podKey c m = (case gm_get (channels m) podKey of
       Some i \<Rightarrow> on_channel i (SetPublisher c) m
     | None \<Rightarrow> (case gm_get (pendingSubscribers m) podKey of
           Some p \<Rightarrow>
             (case create_channel podKey (m\<lparr>pendingSubscribers := gm_del podKey (pendingSubscribers m)\<rparr>) of
                (i, m1) \<Rightarrow> on_channel i (AddSubscriber (ps_subscriberID p) (ps_conn p)) (on_channel i (SetPublisher c) m1))
         | None \<Rightarrow>
             (let m1 = (case gm_get (pendingPublishers m) podKey of None \<Rightarrow> m | Some old \<Rightarrow> close_pending (pp_conn old) m)
              in m1\<lparr>pendingPublishers := gm_set podKey \<lparr>pp_conn = c, pp_createdAt = clock (m_world m)\<rparr>
                      (pendingPublishers m1)\<rparr>)))"

definition HandleSubscriberConnect :: "str \<Rightarrow> str \<Rightarrow> conn \<Rightarrow> manager \<Rightarrow> subscriber_error option \<times> manager" where
  "HandleSubscriberConnect podKey sid c m = (case gm_get (channels m) podKey of
       Some i \<Rightarrow>
         (fst (AddSubscriberWithLimit sid c (MaxSubscribersPerPod (m_config m)) (objects m i)),
          on_channel i (\<lambda>s. snd (AddSubscriberWithLimit sid c (MaxSubscribersPerPod (m_config m)) s)) m)
     | None \<Rightarrow> (None, (case gm_get (pendingPublishers m) podKey of
           Some p \<Rightarrow>
             (case create_channel podKey (m\<lparr>pendingPublishers := gm_del podKey (pendingPublishers m)\<rparr>) of
                (i, m1) \<Rightarrow> on_channel i (AddSubscriber sid c) (on_channel i (SetPublisher (pp_conn p)) m1))
         | None \<Rightarrow>
             (let m1 = (case gm_get (pendingSubscribers m) podKey of None \<Rightarrow> m | Some old \<Rightarrow> close_pending (ps_conn old) m)
              in m1\<lparr>pendingSubscribers := gm_set podKey \<lparr>ps_conn = c, ps_subscriberID = sid,
                      ps_createdAt = clock (m_world m)\<rparr> (pendingSubscribers m1)\<rparr>))))"

text \<open>CloseChannel in its two parts: under the lock the channel is taken out of the map, then it is
  closed without the lock.\<close>

definition take_channel :: "str \<Rightarrow> manager \<Rightarrow> chan_ref option \<times> manager" where
  "take_channel podKey m = (gm_get (channels m) podKey,
     if gm_get (channels m) podKey = None then m else m\<lparr>channels := gm_del podKey (channels m)\<rparr>)"

definition close_taken :: "chan_ref option \<Rightarrow> manager \<Rightarrow> manager" where
  "close_taken r m = (case r of None \<Rightarrow> m | Some i \<Rightarrow> on_channel i Close m)"

definition CloseChannel :: "str \<Rightarrow> manager \<Rightarrow> manager" where
  "CloseChannel podKey m = (case take_channel podKey m of (r, m1) \<Rightarrow> close_taken r m1)"

definition manager_Close :: "manager \<Rightarrow> manager" where
  "manager_Close m =
     fold (\<lambda>(_, i). on_channel i Close) (channels m)
       (m\<lparr>m_done := True, channels := [], pendingPublishers := [], pendingSubscribers := [],
          m_closed := m_closed m @ map (pp_conn \<circ> snd) (pendingPublishers m) @ map (ps_conn \<circ> snd) (pendingSubscribers m)\<rparr>)"

text \<open>One round of cleanupPendingConnections.\<close>

definition cleanup_round :: "manager \<Rightarrow> manager" where
  "cleanup_round m =
     (let stale = (\<lambda>t. clock (m_world m) - t > PendingConnectionTimeout (m_config m))
      in m\<lparr>m_closed := m_closed m @ map (pp_conn \<circ> snd) (filter (stale \<circ> pp_createdAt \<circ> snd) (pendingPublishers m))
                                  @ map (ps_conn \<circ> snd) (filter (stale \<circ> ps_createdAt \<circ> snd) (pendingSubscribers m)),
           pendingPublishers := filter (\<lambda>x. \<not> stale (pp_createdAt (snd x))) (pendingPublishers m),
           pendingSubscribers := filter (\<lambda>x. \<not> stale (ps_createdAt (snd x))) (pendingSubscribers m)\<rparr>)"

record channel_stats =
  ActiveChannels :: nat
  TotalSubscribers :: nat
  PendingPublishers :: nat
  PendingSubscribers :: nat

definition Stats :: "manager \<Rightarrow> channel_stats" where
  "Stats m = \<lparr>ActiveChannels = length (channels m),
     TotalSubscribers = sum_list (map (\<lambda>(_, i). SubscriberCount (objects m i)) (channels m)),
     PendingPublishers = length (pendingPublishers m), PendingSubscribers = length (pendingSubscribers m)\<rparr>"

end
