(* ===== verification/RelayManagerProps.thy ===== *)
theory RelayManagerProps
  imports RelayManager
begin

text \<open>
  What the manager promises: a pod has at most one open channel and the map leads to it, a pod that is
  served does not wait, and no channel has more subscribers than the limit. CloseChannel works in two
  parts, and between them the promise can be broken.
\<close>

subsection \<open>The life of a channel, as the manager sees it\<close>

definition life_view :: "channel \<Rightarrow> str \<times> bool \<times> bool \<times> callback list" where
  "life_view s = (PodKey s, has_onChannelClosed s, closed s, called s)"

lemma life_moves: "moves s s' \<Longrightarrow> life_view s' = life_view s"
  by (simp add: moves_def same_setting_def life_view_def)

lemma life_elementary [simp]:
  "life_view (clearControlLeaseLocked s) = life_view s" "life_view (setControlLeaseLocked sid l now s) = life_view s"
  "life_view (s\<lparr>entropy_reads := n\<rparr>) = life_view s" "life_view (snd (writeToPublisher data s)) = life_view s"
  "life_view (snd (writeToConn c data s)) = life_view s" "life_view (conn_Close c s) = life_view s"
  "life_view (start_forwarding e s) = life_view s"
  by (auto simp: life_view_def elementary_lease_defs writeToPublisher_def writeToConn_def conn_Close_def
      start_forwarding_def split: option.split)

lemma life_sends [simp]:
  "life_view (send_required sid s) = life_view s" "life_view (send_granted sid s) = life_view s"
  "life_view (broadcast_status Broadcast st s) = life_view s" "life_view (sendControlStatus sid st l e s) = life_view s"
  "life_view (Broadcast d s) = life_view s" "life_view (RemoveSubscriber sid s) = life_view s"
  by (rule life_moves, intro moves_sends moves_status moves_broadcast moves_remove)+

lemma life_message [simp]: "life_view (handleSubscriberMessage sid data s) = life_view s"
proof -
  have "life_view (handleControlLeaseRequest sid r s) = life_view s" for r
    by (auto simp: handleControlLeaseRequest_def Let_def acquireControlLease_def forceAcquireControlLease_def
        renewControlLease_def releaseControlLease_def newControlLeaseID_state split: option.split)
  moreover have "life_view (forward_message sid t data s) = life_view s" for t
    by (auto simp: forward_message_def writeToPublisherWithControlLease_def Let_def case_prod_beta)
  ultimately show ?thesis by (auto simp: handleSubscriberMessage_def split: sum.split lease_decode.split)
qed

lemma life_expire [simp]: "life_view (expireControlLease epoch s) = life_view s"
  by (auto simp: expireControlLease_def Let_def)

lemma life_disconnect [simp]: "life_view (handlePublisherDisconnect c e s) = life_view s"
  by (auto simp: handlePublisherDisconnect_def AfterFunc_def Let_def) (simp add: life_view_def)

lemma life_wait [simp]: "life_view (publisherWg_Wait s) = life_view s"
proof -
  have "life_view (fold (\<lambda>(c, e). handlePublisherDisconnect c e) rs t) = life_view t" for rs t
    by (induction rs arbitrary: t) auto
  then show ?thesis by (simp add: publisherWg_Wait_def life_view_def)
qed

lemma life_SetPublisher [simp]: "life_view (SetPublisher c s) = life_view s"
proof -
  have "life_view (s\<lparr>publisher := p, publisherDisconnected := d, publisherEpoch := e, publisherReconnectTimer := t\<rparr>) = life_view s"
    for p d e t by (simp add: life_view_def)
  then show ?thesis by (auto simp: SetPublisher_def Let_def split: option.split)
qed

lemma life_subscribe [simp]: "life_view (snd (addSubscriberInternal sid c mx s)) = life_view s"
  by (auto simp: addSubscriberInternal_def Let_def writeToConn_def conn_Close_def life_view_def)

text \<open>A method leaves a channel open or closed as it was and reports no closing, or it closes the channel
  and reports it.\<close>

definition life_step :: "channel \<Rightarrow> channel \<Rightarrow> bool" where
  "life_step s s' \<longleftrightarrow> PodKey s' = PodKey s \<and> has_onChannelClosed s' = has_onChannelClosed s \<and>
     (closed s' = closed s \<and> (\<exists>l. called s' = called s @ l \<and> (\<forall>k. ChannelClosed k \<notin> set l)) \<or>
      \<not> closed s \<and> closed s' \<and> called s' = called s @ (if has_onChannelClosed s then [ChannelClosed (PodKey s)] else []))"

lemma life_same: "life_view s' = life_view s \<Longrightarrow> life_step s s'"
  by (simp add: life_view_def life_step_def)

lemma life_close: "life_step s (closeInternal s)"
  by (cases "closed s") (simp add: life_same closeInternal_def,
      auto simp: closeInternal_idle Let_def log_call_def life_step_def clearControlLeaseLocked_def)

lemma life_timer: "life_step s (run_timer k (s\<lparr>armed := a\<rparr>))"
proof (cases k)
  case (LeaseTimer i)
  have "life_view (run_timer k (s\<lparr>armed := a\<rparr>)) = life_view s"
    unfolding LeaseTimer run_timer_def timer_kind.case life_expire by (simp add: life_view_def)
  then show ?thesis by (rule life_same)
next
  case KeepAliveTimer
  then show ?thesis by (simp add: run_timer_def keepAliveExpired_def log_call_def life_step_def)
next
  case ReconnectTimer
  have "life_step (s\<lparr>armed := a\<rparr>) (closeInternal (s\<lparr>armed := a\<rparr>))" by (rule life_close)
  then show ?thesis using ReconnectTimer
    by (auto simp: run_timer_def reconnectExpired_def life_step_def)
qed

text \<open>The steps a channel makes by itself; connections come through the manager.\<close>

fun inner_event :: "event \<Rightarrow> bool" where
  "inner_event (Publish _) = False"
| "inner_event (Subscribe _ _ _) = False"
| "inner_event Closing = False"
| "inner_event (Clock_ticks _) = False"
| "inner_event _ = True"

lemma life_inner: "chan_step s e s' \<Longrightarrow> inner_event e \<Longrightarrow> life_step s s'"
proof (induction rule: chan_step.induct)
  case (publisher_fails c e s)
  have "life_view ((handlePublisherDisconnect c e s)\<lparr>pub_readers := r\<rparr>) = life_view (handlePublisherDisconnect c e s)" for r
    by (simp add: life_view_def)
  then show ?case using life_same by simp
next
  case (subscriber_fails sid s)
  have "life_view ((RemoveSubscriber sid s)\<lparr>sub_readers := r\<rparr>) = life_view (RemoveSubscriber sid s)" for r
    by (simp add: life_view_def)
  then show ?case using life_same by simp
qed (simp_all add: life_same life_timer)

subsection \<open>Steps and invariant of the manager\<close>

definition all_tick :: "duration \<Rightarrow> manager \<Rightarrow> manager" where
  "all_tick d m = m\<lparr>objects := (\<lambda>i. (objects m i)\<lparr>clock := clock (objects m i) + d\<rparr>),
     m_world := (m_world m)\<lparr>clock := clock (m_world m) + d\<rparr>\<rparr>"

inductive manager_step :: "manager \<Rightarrow> manager \<Rightarrow> bool" where
  publisher: "manager_step m (HandlePublisherConnect k c m)"
| subscriber: "manager_step m (snd (HandleSubscriberConnect k sid c m))"
| close_one: "manager_step m (CloseChannel k m)"
| inner: "i < next_ref m \<Longrightarrow> chan_step (objects m i) e s' \<Longrightarrow> inner_event e \<Longrightarrow> manager_step m (on_channel i (\<lambda>_. s') m)"
| tick: "0 \<le> d \<Longrightarrow> manager_step m (all_tick d m)"
| cleanup: "manager_step m (cleanup_round m)"
| shutdown: "manager_step m (manager_Close m)"

inductive manager_reachable :: "manager \<Rightarrow> bool" where
  start: "manager_reachable (NewChannelManagerWithConfig cfg gone w)"
| step: "manager_reachable m \<Longrightarrow> manager_step m m' \<Longrightarrow> manager_reachable m'"

text \<open>Every open channel outside A is the one its pod's key leads to.\<close>

definition reaches_but :: "chan_ref set \<Rightarrow> manager \<Rightarrow> bool" where
  "reaches_but A m \<longleftrightarrow>
     (\<forall>i<next_ref m. has_onChannelClosed (objects m i) \<and>
        (i \<notin> A \<and> \<not> closed (objects m i) \<longrightarrow> gm_get (channels m) (PodKey (objects m i)) = Some i)) \<and>
     (\<forall>k i. gm_get (channels m) k = Some i \<longrightarrow> i < next_ref m \<and> i \<notin> A \<and> PodKey (objects m i) = k \<and> \<not> closed (objects m i))"

definition waits_apart :: "manager \<Rightarrow> bool" where
  "waits_apart m \<longleftrightarrow> gm_ok (channels m) \<and> (\<forall>k.
     (gm_get (channels m) k \<noteq> None \<longrightarrow> gm_get (pendingPublishers m) k = None \<and> gm_get (pendingSubscribers m) k = None) \<and>
     (gm_get (pendingPublishers m) k \<noteq> None \<longrightarrow> gm_get (pendingSubscribers m) k = None))"

lemma on_channel_open:
  assumes "life_step (objects m i) (f (objects m i))" "closed (f (objects m i)) = closed (objects m i)"
  shows "on_channel i f m = m\<lparr>objects := (objects m)(i := f (objects m i))\<rparr>"
proof -
  obtain l where l: "called (f (objects m i)) = called (objects m i) @ l" "\<forall>k. ChannelClosed k \<notin> set l"
    using assms by (auto simp: life_step_def)
  have "fold run_callback l m' = m'" if "\<forall>k. ChannelClosed k \<notin> set l" for l m'
    using that by (induction l) (auto simp: run_callback_def split: callback.split)
  then show ?thesis using l by (simp add: on_channel_def Let_def)
qed

lemma on_channel_close:
  assumes "life_step (objects m i) (f (objects m i))" "\<not> closed (objects m i)" "closed (f (objects m i))"
    "has_onChannelClosed (objects m i)"
  shows "on_channel i f m = m\<lparr>objects := (objects m)(i := f (objects m i)),
    channels := gm_del (PodKey (objects m i)) (channels m)\<rparr>"
  using assms by (auto simp: life_step_def on_channel_def Let_def run_callback_def onChannelClosed_def)

lemma reaches_update:
  assumes "PodKey t = PodKey (objects m i)" "has_onChannelClosed t = has_onChannelClosed (objects m i)"
    "closed t = closed (objects m i)"
  shows "reaches_but A (m\<lparr>objects := (objects m)(i := t)\<rparr>) = reaches_but A m"
proof -
  have "PodKey (((objects m)(i := t)) j) = PodKey (objects m j)"
    "has_onChannelClosed (((objects m)(i := t)) j) = has_onChannelClosed (objects m j)"
    "closed (((objects m)(i := t)) j) = closed (objects m j)" for j
    using assms by simp_all
  then show ?thesis by (simp add: reaches_but_def)
qed

text \<open>A channel is closed, and its key is taken out of the map.\<close>

lemma reaches_closed:
  assumes inv: "reaches_but A m" and t: "PodKey t = PodKey (objects m i)"
    "has_onChannelClosed t = has_onChannelClosed (objects m i)" "closed t"
    and k: "k = PodKey (objects m i)" "gm_get (channels m) k = Some i \<or> gm_get (channels m) k = None"
  shows "reaches_but (A - {i}) (m\<lparr>objects := (objects m)(i := t), channels := gm_del k (channels m)\<rparr>)" (is "reaches_but _ ?m")
proof -
  have key: "PodKey (objects ?m j) = PodKey (objects m j)" for j using t(1) by simp
  have has: "has_onChannelClosed (objects ?m j) = has_onChannelClosed (objects m j)" for j using t(2) by simp
  have get: "gm_get (channels ?m) k' = (if k' = k then None else gm_get (channels m) k')" for k'
    by (simp add: gm_get_del)
  have one: "has_onChannelClosed (objects ?m j) \<and>
      (j \<notin> A - {i} \<and> \<not> closed (objects ?m j) \<longrightarrow> gm_get (channels ?m) (PodKey (objects ?m j)) = Some j)"
    if "j < next_ref ?m" for j
  proof (cases "j = i")
    case True
    have "j < next_ref m" using that by simp
    then have "has_onChannelClosed (objects m j)" using inv by (simp add: reaches_but_def)
    then show ?thesis using True t by simp
  next
    case False
    have "j < next_ref m" using that by simp
    then have h: "has_onChannelClosed (objects m j)"
      "j \<notin> A \<Longrightarrow> \<not> closed (objects m j) \<Longrightarrow> gm_get (channels m) (PodKey (objects m j)) = Some j"
      using inv by (simp_all add: reaches_but_def)
    show ?thesis
    proof (cases "j \<in> A \<or> closed (objects m j)")
      case True
      then show ?thesis using h False by (cases "j \<in> A") auto
    next
      case open_j: False
      then have g: "gm_get (channels m) (PodKey (objects m j)) = Some j" using h by simp
      then have "PodKey (objects m j) \<noteq> k" using k(2) False by auto
      then show ?thesis unfolding key has get using h g by simp
    qed
  qed
  have two: "j < next_ref ?m \<and> j \<notin> A - {i} \<and> PodKey (objects ?m j) = k' \<and> \<not> closed (objects ?m j)"
    if "gm_get (channels ?m) k' = Some j" for k' j
  proof -
    have g: "gm_get (channels m) k' = Some j" "k' \<noteq> k" using that unfolding get by (auto split: if_splits)
    then have j: "j < next_ref m" "j \<notin> A" "PodKey (objects m j) = k'" "\<not> closed (objects m j)"
      using inv unfolding reaches_but_def by blast+
    then have "j \<noteq> i" using g(2) k(1) by auto
    then show ?thesis using j by simp
  qed
  show ?thesis unfolding reaches_but_def using one two by blast
qed

text \<open>A method of an open channel of the map keeps it reachable, or takes it out as it closes it.\<close>

lemma reaches_on_channel:
  assumes inv: "reaches_but {} m" and i: "i < next_ref m" and life: "life_step (objects m i) (f (objects m i))"
  shows "reaches_but {} (on_channel i f m) \<and> next_ref (on_channel i f m) = next_ref m
    \<and> (\<forall>k. gm_get (channels m) k = None \<longrightarrow> gm_get (channels (on_channel i f m)) k = None)"
proof (cases "closed (f (objects m i)) = closed (objects m i)")
  case True
  from on_channel_open [of m i f, OF life True] show ?thesis
    using inv life True by (simp add: reaches_update life_step_def)
next
  case False
  then have cl: "\<not> closed (objects m i)" "closed (f (objects m i))" using life by (auto simp: life_step_def)
  have h: "has_onChannelClosed (objects m i)" using inv i by (simp add: reaches_but_def)
  have k: "gm_get (channels m) (PodKey (objects m i)) = Some i" using inv i cl by (simp add: reaches_but_def)
  from on_channel_close [of m i f, OF life cl h] show ?thesis
    using reaches_closed [OF inv, of "f (objects m i)" i] life cl k by (simp add: life_step_def gm_get_del)
qed

text \<open>Closing a channel that is not in the map any more.\<close>

lemma reaches_close_taken:
  assumes inv: "reaches_but A m" and i: "i < next_ref m" "gm_get (channels m) (PodKey (objects m i)) = None"
  shows "reaches_but (A - {i}) (on_channel i Close m) \<and> next_ref (on_channel i Close m) = next_ref m \<and>
    (\<forall>k. gm_get (channels (on_channel i Close m)) k = gm_get (channels m) k) \<and>
    (\<forall>j. PodKey (objects (on_channel i Close m) j) = PodKey (objects m j))"
proof (cases "closed (objects m i)")
  case True
  then have same: "Close (objects m i) = objects m i" by (simp add: Close_def closeInternal_def)
  have "on_channel i Close m = m"
    by (subst on_channel_open) (simp_all add: same life_same)
  moreover have "i < next_ref m \<Longrightarrow> reaches_but (A - {i}) m"
    using inv True unfolding reaches_but_def by blast
  ultimately show ?thesis using i by simp
next
  case False
  have life: "life_step (objects m i) (Close (objects m i))" by (simp add: Close_def life_close)
  have cl: "closed (Close (objects m i))" using False by (simp add: Close_def closeInternal_idle Let_def log_call_def)
  have h: "has_onChannelClosed (objects m i)" using inv i by (simp add: reaches_but_def)
  have del: "gm_get (gm_del (PodKey (objects m i)) (channels m)) k = gm_get (channels m) k" for k
    using i(2) by (simp add: gm_get_del)
  from on_channel_close [of m i Close, OF life False cl h] show ?thesis
    using reaches_closed [OF inv, of "Close (objects m i)" i] life cl i(2) by (simp add: life_step_def del)
qed

text \<open>A new channel for a pod that has none.\<close>

lemma reaches_create:
  assumes inv: "reaches_but {} m" and k: "gm_get (channels m) k = None"
  shows "reaches_but {} (snd (create_channel k m))"
proof -
  let ?m = "snd (create_channel k m)"
  let ?c = "NewChannelWithConfig k (buildChannelConfig m) (m_gone m) True (m_world m)"
  have m: "?m = m\<lparr>objects := (objects m)(next_ref m := ?c), next_ref := Suc (next_ref m),
      channels := gm_set k (next_ref m) (channels m)\<rparr>"
    by (simp add: create_channel_def Let_def)
  have c: "PodKey ?c = k" "has_onChannelClosed ?c" "\<not> closed ?c"
    by (simp_all add: NewChannelWithConfig_def surroundings.extend_def channel.fields_def)
  have old: "i < next_ref m" "PodKey (objects m i) = k'" "\<not> closed (objects m i)"
    if "gm_get (channels m) k' = Some i" for k' i using inv that unfolding reaches_but_def by blast+
  have has: "has_onChannelClosed (objects m i)" if "i < next_ref m" for i using inv that by (simp add: reaches_but_def)
  have map: "gm_get (channels m) (PodKey (objects m i)) = Some i" if "i < next_ref m" "\<not> closed (objects m i)" for i
    using inv that by (simp add: reaches_but_def)
  have "gm_get (gm_set k (next_ref m) (channels m)) (PodKey (((objects m)(next_ref m := ?c)) i)) = Some i"
    if "i < Suc (next_ref m)" "\<not> closed (((objects m)(next_ref m := ?c)) i)" for i
    using that c map [of i] k by (cases "i = next_ref m") (auto simp: gm_get_set)
  moreover have "has_onChannelClosed (((objects m)(next_ref m := ?c)) i)" if "i < Suc (next_ref m)" for i
    using that c has [of i] by (cases "i = next_ref m") auto
  moreover have "i < Suc (next_ref m) \<and> PodKey (((objects m)(next_ref m := ?c)) i) = k'
      \<and> \<not> closed (((objects m)(next_ref m := ?c)) i)"
    if "gm_get (gm_set k (next_ref m) (channels m)) k' = Some i" for k' i
    using that c old [of k' i] by (auto simp: gm_get_set split: if_splits)
  ultimately show ?thesis unfolding m reaches_but_def by simp
qed

subsection \<open>Waiting connections\<close>

lemma callbacks_other:
  "pendingPublishers (fold run_callback l m) = pendingPublishers m"
  "pendingSubscribers (fold run_callback l m) = pendingSubscribers m"
  "gm_get (channels m) k = None \<Longrightarrow> gm_get (channels (fold run_callback l m)) k = None"
  "gm_ok (channels m) \<Longrightarrow> gm_ok (channels (fold run_callback l m))"
proof (induction l arbitrary: m)
  case (Cons cb l)
  {
    case 1
    then show ?case using Cons(1) [of "run_callback cb m"] by (simp add: run_callback_def onChannelClosed_def split: callback.split)
  next
    case 2
    then show ?case using Cons(2) [of "run_callback cb m"] by (simp add: run_callback_def onChannelClosed_def split: callback.split)
  next
    case 3
    then have "gm_get (channels (run_callback cb m)) k = None"
      by (simp add: run_callback_def onChannelClosed_def gm_get_del split: callback.split)
    from Cons(3) [OF this] show ?case by simp
  next
    case 4
    then have "gm_ok (channels (run_callback cb m))"
      by (simp add: run_callback_def onChannelClosed_def split: callback.split)
    from Cons(4) [OF this] show ?case by simp
  }
qed simp_all

lemma on_channel_other:
  "pendingPublishers (on_channel i f m) = pendingPublishers m"
  "pendingSubscribers (on_channel i f m) = pendingSubscribers m"
  "gm_get (channels m) k = None \<Longrightarrow> gm_get (channels (on_channel i f m)) k = None"
  "gm_ok (channels m) \<Longrightarrow> gm_ok (channels (on_channel i f m))"
  by (simp_all add: on_channel_def Let_def callbacks_other)

lemma waits_apartD:
  "waits_apart m \<Longrightarrow> (gm_get (channels m) k \<noteq> None \<longrightarrow> gm_get (pendingPublishers m) k = None \<and> gm_get (pendingSubscribers m) k = None)
     \<and> (gm_get (pendingPublishers m) k \<noteq> None \<longrightarrow> gm_get (pendingSubscribers m) k = None)"
  by (simp add: waits_apart_def)

lemma waits_fewer:
  assumes "waits_apart m" "gm_ok (channels m) \<Longrightarrow> gm_ok (channels m')"
    "\<And>k. gm_get (channels m) k = None \<Longrightarrow> gm_get (channels m') k = None"
    "\<And>k. gm_get (pendingPublishers m) k = None \<Longrightarrow> gm_get (pendingPublishers m') k = None"
    "\<And>k. gm_get (pendingSubscribers m) k = None \<Longrightarrow> gm_get (pendingSubscribers m') k = None"
  shows "waits_apart m'"
  unfolding waits_apart_def
proof (intro conjI allI)
  show "gm_ok (channels m')" using assms(1,2) by (simp add: waits_apart_def)
next
  fix k
  from assms(1) show "gm_get (channels m') k \<noteq> None \<longrightarrow> gm_get (pendingPublishers m') k = None \<and> gm_get (pendingSubscribers m') k = None"
    "gm_get (pendingPublishers m') k \<noteq> None \<longrightarrow> gm_get (pendingSubscribers m') k = None"
    using assms(3-5) [of k] unfolding waits_apart_def by (metis (no_types))+
qed

lemma waits_on_channel: "waits_apart m \<Longrightarrow> waits_apart (on_channel i f m)"
  by (erule waits_fewer) (simp_all add: on_channel_other)

lemma waits_create:
  assumes "waits_apart m" "gm_get (pendingPublishers m) k = None" "gm_get (pendingSubscribers m) k = None"
  shows "waits_apart (snd (create_channel k m))"
  using assms by (simp add: waits_apart_def create_channel_def Let_def gm_get_set)

definition manager_inv :: "manager \<Rightarrow> bool" where
  "manager_inv m \<longleftrightarrow> reaches_but {} m \<and> waits_apart m"

lemma manager_inv_on_channel:
  assumes "manager_inv m" "i < next_ref m" "life_step (objects m i) (f (objects m i))"
  shows "manager_inv (on_channel i f m)" "next_ref (on_channel i f m) = next_ref m"
  using assms reaches_on_channel [of m i f] waits_on_channel by (simp_all add: manager_inv_def)

lemma manager_inv_quiet:
  assumes "manager_inv m" "i < next_ref m" "\<And>s. life_view (f s) = life_view s"
  shows "manager_inv (on_channel i f m)" "next_ref (on_channel i f m) = next_ref m"
  using manager_inv_on_channel [where f = f, OF assms(1,2) life_same] assms(3) by simp_all

text \<open>A new channel gets its two connections.\<close>

lemma manager_inv_pair:
  assumes inv: "reaches_but {} m" "waits_apart m" and k: "gm_get (channels m) k = None"
    "gm_get (pendingPublishers m) k = None" "gm_get (pendingSubscribers m) k = None"
    and f: "\<And>s. life_view (f s) = life_view s" and g: "\<And>s. life_view (g s) = life_view s"
    and c: "create_channel k m = (i, m1)"
  shows "manager_inv (on_channel i g (on_channel i f m1))"
proof -
  have m1: "m1 = snd (create_channel k m)" "i < next_ref m1" using c by (auto simp: create_channel_def Let_def)
  then have "manager_inv m1" using reaches_create [OF inv(1) k(1)] waits_create [OF inv(2) k(2,3)] by (simp add: manager_inv_def)
  note one = manager_inv_quiet [where f = f, OF this m1(2) f]
  show ?thesis by (rule manager_inv_quiet(1) [OF one(1) _ g]) (use one(2) m1(2) in simp)
qed

lemma manager_inv_same:
  "manager_inv m \<Longrightarrow> channels m' = channels m \<Longrightarrow> objects m' = objects m \<Longrightarrow> next_ref m' = next_ref m
    \<Longrightarrow> waits_apart m' \<Longrightarrow> manager_inv m'"
  by (simp add: manager_inv_def reaches_but_def)

lemma manager_inv_ref: "manager_inv m \<Longrightarrow> gm_get (channels m) k = Some i \<Longrightarrow> i < next_ref m"
  unfolding manager_inv_def reaches_but_def by blast

lemma manager_inv_publisher: "manager_inv m \<Longrightarrow> manager_inv (HandlePublisherConnect k c m)"
proof -
  assume inv: "manager_inv m"
  show ?thesis
  proof (cases "gm_get (channels m) k")
    case (Some i)
    then show ?thesis
      using manager_inv_quiet(1) [where f = "SetPublisher c", OF inv manager_inv_ref [OF inv Some]]
      by (simp add: HandlePublisherConnect_def)
  next
    case no_channel: None
    show ?thesis
    proof (cases "gm_get (pendingSubscribers m) k")
      case (Some p)
      let ?m = "m\<lparr>pendingSubscribers := gm_del k (pendingSubscribers m)\<rparr>"
      have np: "gm_get (pendingPublishers m) k = None" using inv Some by (auto simp: manager_inv_def waits_apart_def)
      have r: "reaches_but {} ?m" using inv by (simp add: manager_inv_def reaches_but_def)
      have w: "waits_apart ?m" using inv unfolding manager_inv_def by (auto intro: waits_fewer simp: gm_get_del)
      have add: "life_view (AddSubscriber (ps_subscriberID p) (ps_conn p) s) = life_view s" for s
        by (simp add: AddSubscriber_def)
      obtain i m1 where c: "create_channel k ?m = (i, m1)" by (cases "create_channel k ?m")
      from manager_inv_pair [OF r w _ _ _ life_SetPublisher add c] show ?thesis
        using no_channel Some np c by (simp add: HandlePublisherConnect_def gm_get_del)
    next
      case None
      let ?m1 = "case gm_get (pendingPublishers m) k of None \<Rightarrow> m | Some old \<Rightarrow> close_pending (pp_conn old) m"
      have m1: "channels ?m1 = channels m" "objects ?m1 = objects m" "next_ref ?m1 = next_ref m"
        "pendingPublishers ?m1 = pendingPublishers m" "pendingSubscribers ?m1 = pendingSubscribers m"
        by (simp_all add: close_pending_def split: option.split)
      have "waits_apart m" using inv by (simp add: manager_inv_def)
      then have "waits_apart (?m1\<lparr>pendingPublishers := gm_set k p (pendingPublishers ?m1)\<rparr>)" for p
        using no_channel None unfolding waits_apart_def by (simp add: m1 gm_get_set)
      then show ?thesis using inv no_channel None
        by (simp add: HandlePublisherConnect_def Let_def) (erule manager_inv_same, simp_all add: m1)
    qed
  qed
qed

lemma manager_inv_subscriber: "manager_inv m \<Longrightarrow> manager_inv (snd (HandleSubscriberConnect k sid c m))"
proof -
  assume inv: "manager_inv m"
  show ?thesis
  proof (cases "gm_get (channels m) k")
    case (Some i)
    let ?f = "\<lambda>s. snd (AddSubscriberWithLimit sid c (MaxSubscribersPerPod (m_config m)) s)"
    have "life_view (?f s) = life_view s" for s by (simp add: AddSubscriberWithLimit_def)
    then show ?thesis
      using manager_inv_quiet(1) [where f = ?f, OF inv manager_inv_ref [OF inv Some]] Some
      by (simp add: HandleSubscriberConnect_def)
  next
    case no_channel: None
    show ?thesis
    proof (cases "gm_get (pendingPublishers m) k")
      case (Some p)
      let ?m = "m\<lparr>pendingPublishers := gm_del k (pendingPublishers m)\<rparr>"
      have np: "gm_get (pendingSubscribers m) k = None" using inv Some by (auto simp: manager_inv_def waits_apart_def)
      have r: "reaches_but {} ?m" using inv by (simp add: manager_inv_def reaches_but_def)
      have w: "waits_apart ?m" using inv unfolding manager_inv_def by (auto intro: waits_fewer simp: gm_get_del)
      have add: "life_view (AddSubscriber sid c s) = life_view s" for s by (simp add: AddSubscriber_def)
      obtain i m1 where cr: "create_channel k ?m = (i, m1)" by (cases "create_channel k ?m")
      from manager_inv_pair [OF r w _ _ _ life_SetPublisher add cr] show ?thesis
        using no_channel Some np cr by (simp add: HandleSubscriberConnect_def gm_get_del)
    next
      case None
      let ?m1 = "case gm_get (pendingSubscribers m) k of None \<Rightarrow> m | Some old \<Rightarrow> close_pending (ps_conn old) m"
      have m1: "channels ?m1 = channels m" "objects ?m1 = objects m" "next_ref ?m1 = next_ref m"
        "pendingPublishers ?m1 = pendingPublishers m" "pendingSubscribers ?m1 = pendingSubscribers m"
        by (simp_all add: close_pending_def split: option.split)
      have "waits_apart m" using inv by (simp add: manager_inv_def)
      then have "waits_apart (?m1\<lparr>pendingSubscribers := gm_set k p (pendingSubscribers ?m1)\<rparr>)" for p
        using no_channel None unfolding waits_apart_def by (simp add: m1 gm_get_set)
      then show ?thesis using inv no_channel None
        by (simp add: HandleSubscriberConnect_def Let_def) (erule manager_inv_same, simp_all add: m1)
    qed
  qed
qed

text \<open>Closing one channel: it is taken out of the map first, so nothing else loses its place.\<close>

lemma manager_inv_CloseChannel:
  assumes inv: "manager_inv m"
  shows "manager_inv (CloseChannel k m)"
proof (cases "gm_get (channels m) k")
  case None
  then show ?thesis using inv by (simp add: CloseChannel_def take_channel_def close_taken_def)
next
  case (Some i)
  let ?m = "m\<lparr>channels := gm_del k (channels m)\<rparr>"
  have r: "reaches_but {} m" and w: "waits_apart m" using inv by (simp_all add: manager_inv_def)
  have i: "i < next_ref m" "PodKey (objects m i) = k" using r Some unfolding reaches_but_def by blast+
  have "reaches_but {i} ?m"
    unfolding reaches_but_def
  proof (intro conjI allI impI; (elim conjE)?)
    fix j assume "j < next_ref ?m"
    then show "has_onChannelClosed (objects ?m j)" using r by (simp add: reaches_but_def)
  next
    fix j assume j: "j < next_ref ?m" "j \<notin> {i}" "\<not> closed (objects ?m j)"
    then have "gm_get (channels m) (PodKey (objects m j)) = Some j" using r by (simp add: reaches_but_def)
    then show "gm_get (channels ?m) (PodKey (objects ?m j)) = Some j" using Some j(2) by (auto simp: gm_get_del)
  next
    fix k' j assume "gm_get (channels ?m) k' = Some j"
    then have g: "gm_get (channels m) k' = Some j" "k' \<noteq> k" by (auto simp: gm_get_del split: if_splits)
    then have "j < next_ref m" "PodKey (objects m j) = k'" "\<not> closed (objects m j)" using r unfolding reaches_but_def by blast+
    then show "j < next_ref ?m" "j \<notin> {i}" "PodKey (objects ?m j) = k'" "\<not> closed (objects ?m j)" using g(2) i(2) by auto
  qed
  from reaches_close_taken [OF this, of i] i have "reaches_but {} (on_channel i Close ?m)" by (simp add: gm_get_del)
  moreover have "waits_apart (on_channel i Close ?m)"
    by (rule waits_on_channel, rule waits_fewer [OF w]) (simp_all add: gm_get_del)
  ultimately show ?thesis using Some by (simp add: CloseChannel_def take_channel_def close_taken_def manager_inv_def)
qed

lemma reaches_close_all:
  assumes "reaches_but A m" "\<And>k. gm_get (channels m) k = None" "\<And>x. x \<in> set xs \<Longrightarrow> snd x < next_ref m"
  shows "reaches_but (A - snd ` set xs) (fold (\<lambda>(_, i). on_channel i Close) xs m)
    \<and> (\<forall>k. gm_get (channels (fold (\<lambda>(_, i). on_channel i Close) xs m)) k = None)
    \<and> next_ref (fold (\<lambda>(_, i). on_channel i Close) xs m) = next_ref m"
  using assms
proof (induction xs arbitrary: A m)
  case (Cons x xs)
  obtain k i where x: "x = (k, i)" by (cases x)
  let ?m = "on_channel i Close m"
  have i: "i < next_ref m" using Cons.prems(3) [of x] x by simp
  note c = reaches_close_taken [OF Cons.prems(1) i Cons.prems(2)]
  have "reaches_but (A - {i}) ?m" "\<And>k. gm_get (channels ?m) k = None" "\<And>x. x \<in> set xs \<Longrightarrow> snd x < next_ref ?m"
    using c Cons.prems(2,3) by simp_all
  from Cons.IH [OF this] show ?case using c x by (simp add: Diff_insert2 [symmetric] insert_commute)
qed simp

text \<open>Shutting down closes every channel and drops every waiting connection.\<close>

lemma shutdown_inv:
  assumes inv: "manager_inv m"
  shows "manager_inv (manager_Close m) \<and> (\<forall>k. gm_get (channels (manager_Close m)) k = None)
    \<and> next_ref (manager_Close m) = next_ref m"
proof -
  let ?m = "m\<lparr>m_done := True, channels := [], pendingPublishers := [], pendingSubscribers := [],
          m_closed := m_closed m @ map (pp_conn \<circ> snd) (pendingPublishers m) @ map (ps_conn \<circ> snd) (pendingSubscribers m)\<rparr>"
  let ?A = "snd ` set (channels m)"
  have r: "reaches_but {} m" using inv by (simp add: manager_inv_def)
  have has: "has_onChannelClosed (objects m i)" if "i < next_ref m" for i using r that by (simp add: reaches_but_def)
  have "i \<in> ?A" if "i < next_ref m" "\<not> closed (objects m i)" for i
  proof -
    have "gm_get (channels m) (PodKey (objects m i)) = Some i" using r that by (simp add: reaches_but_def)
    then show ?thesis by (force simp: gm_get_def dest: map_of_SomeD)
  qed
  with has have "reaches_but ?A ?m" by (auto simp: reaches_but_def gm_get_Nil)
  moreover have "snd x < next_ref ?m" if "x \<in> set (channels m)" for x
  proof -
    have "gm_get (channels m) (fst x) = Some (snd x)"
      using inv that by (simp add: manager_inv_def waits_apart_def gm_get_def gm_ok_distinct)
    then show ?thesis using r unfolding reaches_but_def by auto
  qed
  ultimately have "reaches_but {} (manager_Close m) \<and> (\<forall>k. gm_get (channels (manager_Close m)) k = None)
      \<and> next_ref (manager_Close m) = next_ref m"
    using reaches_close_all [of ?A ?m "channels m"] by (simp add: manager_Close_def gm_get_Nil)
  moreover have fold_waits: "waits_apart (fold (\<lambda>(_, i). on_channel i Close) xs m')" if "waits_apart m'" for xs m'
    using that by (induction xs arbitrary: m') (auto intro: waits_on_channel)
  have "waits_apart (manager_Close m)"
    unfolding manager_Close_def by (rule fold_waits) (simp add: waits_apart_def gm_get_Nil)
  ultimately show ?thesis by (simp add: manager_inv_def)
qed

lemma tick_manager: "manager_inv m \<Longrightarrow> manager_inv (all_tick d m)"
  by (simp add: manager_inv_def all_tick_def reaches_but_def waits_apart_def)

lemma gm_get_filter: "gm_get m k = None \<Longrightarrow> gm_get (filter P m) k = None"
  by (auto simp: gm_get_def map_of_eq_None_iff)

lemma cleanup_manager: "manager_inv m \<Longrightarrow> manager_inv (cleanup_round m)"
proof -
  assume inv: "manager_inv m"
  have "waits_apart (cleanup_round m)"
    by (rule waits_fewer [of m]) (use inv in \<open>simp_all add: manager_inv_def cleanup_round_def Let_def gm_get_filter\<close>)
  then show ?thesis using inv by (simp add: manager_inv_def cleanup_round_def Let_def reaches_but_def)
qed

lemma manager_step_inv: "manager_step m m' \<Longrightarrow> manager_inv m \<Longrightarrow> manager_inv m'"
proof (induction rule: manager_step.induct)
  case (inner i m e s')
  from manager_inv_on_channel(1) [where f = "\<lambda>_. s'", OF inner.prems inner.hyps(1) life_inner [OF inner.hyps(2,3)]]
  show ?case .
qed (simp_all add: manager_inv_publisher manager_inv_subscriber manager_inv_CloseChannel tick_manager cleanup_manager shutdown_inv)

lemma manager_reachable_inv: "manager_reachable m \<Longrightarrow> manager_inv m"
proof (induction rule: manager_reachable.induct)
  case (start cfg gone w)
  then show ?case
    by (simp add: NewChannelManagerWithConfig_def manager_inv_def reaches_but_def waits_apart_def gm_get_Nil)
qed (rule manager_step_inv)

text \<open>After Close no channel is open.\<close>

lemma manager_Close_closes_all:
  assumes "manager_reachable m" "i < next_ref m"
  shows "closed (objects (manager_Close m) i)"
proof -
  note s = shutdown_inv [OF manager_reachable_inv [OF assms(1)]]
  then have "reaches_but {} (manager_Close m)" by (simp add: manager_inv_def)
  then show ?thesis using s assms(2) unfolding reaches_but_def by (metis empty_iff option.distinct(1))
qed


subsection \<open>Two parts of CloseChannel\<close>

definition sample_world :: surroundings where
  "sample_world = \<lparr>clock = 0, entropy = (\<lambda>_. None), entropy_reads = 0, write_fails = (\<lambda>_. False), writes = 0,
     sent = [], closed_conns = [], armed = [], pub_readers = [], sub_readers = [], called = []\<rparr>"

text \<open>A runner and a browser that meet: the pod gets a channel.\<close>

definition meet :: "str \<Rightarrow> conn \<Rightarrow> conn \<Rightarrow> manager \<Rightarrow> manager" where
  "meet sid p c m = HandlePublisherConnect ''pod'' p (snd (HandleSubscriberConnect ''pod'' sid c m))"

lemma meet_creates:
  assumes "gm_get (channels m) ''pod'' = None" "gm_get (pendingPublishers m) ''pod'' = None"
    "gm_get (pendingSubscribers m) ''pod'' = None" "pub_readers (m_world m) = []"
  shows "GetChannel ''pod'' (meet sid p c m) = Some (next_ref m)" "next_ref (meet sid p c m) = Suc (next_ref m)"
    "\<And>i. i \<noteq> next_ref m \<Longrightarrow> objects (meet sid p c m) i = objects m i"
    "life_view (objects (meet sid p c m) (next_ref m)) = (''pod'', True, False, called (m_world m))"
    "publisher (objects (meet sid p c m) (next_ref m)) = Some p"
    "gm_get (pendingPublishers (meet sid p c m)) ''pod'' = None" "gm_get (pendingSubscribers (meet sid p c m)) ''pod'' = None"
proof -
  define m0 where "m0 = snd (HandleSubscriberConnect ''pod'' sid c m)"
  have m0: "channels m0 = channels m" "objects m0 = objects m" "next_ref m0 = next_ref m" "m_world m0 = m_world m"
    "pendingPublishers m0 = pendingPublishers m" "gm_get (pendingSubscribers m0) ''pod'' =
      Some \<lparr>ps_conn = c, ps_subscriberID = sid, ps_createdAt = clock (m_world m)\<rparr>"
    using assms by (simp_all add: m0_def HandleSubscriberConnect_def Let_def gm_get_set)
  define m1 where "m1 = snd (create_channel ''pod'' (m0\<lparr>pendingSubscribers := gm_del ''pod'' (pendingSubscribers m0)\<rparr>))"
  define f where "f = AddSubscriber sid c"
  have meet: "meet sid p c m = on_channel (next_ref m) f (on_channel (next_ref m) (SetPublisher p) m1)"
    using assms m0 by (simp add: meet_def m0_def [symmetric] HandlePublisherConnect_def m1_def f_def create_channel_def Let_def)
  have f: "life_view (f s) = life_view s" "\<not> closed s \<Longrightarrow> publisher (f s) = publisher s" for s
    by (simp add: f_def AddSubscriber_def) (simp add: f_def AddSubscriber_def addSubscriberInternal_def Let_def writeToConn_def)
  have q: "on_channel i g m' = m'\<lparr>objects := (objects m')(i := g (objects m' i))\<rparr>"
    if "life_view (g (objects m' i)) = life_view (objects m' i)" for i g m'
    by (rule on_channel_open) (use that in \<open>simp_all add: life_same life_view_def\<close>)
  let ?ch = "objects m1 (next_ref m)"
  have ch: "life_view ?ch = (''pod'', True, False, called (m_world m))" "publisher ?ch = None" "pub_readers ?ch = pub_readers (m_world m)"
    "publisherDisconnected ?ch = False" "publisherEpoch ?ch = 0"
    using m0 by (simp_all add: m1_def create_channel_def Let_def life_view_def NewChannelWithConfig_def
        surroundings.extend_def channel.fields_def)
  have o: "\<not> closed (SetPublisher p ?ch)"
    using ch(1) life_SetPublisher [of p ?ch] by (simp add: life_view_def)
  have "on_channel (next_ref m) (SetPublisher p) m1 = m1\<lparr>objects := (objects m1)(next_ref m := SetPublisher p ?ch)\<rparr>"
    by (rule q) simp
  then have all: "meet sid p c m = m1\<lparr>objects := (objects m1)(next_ref m := f (SetPublisher p ?ch))\<rparr>"
    using q [of f "m1\<lparr>objects := (objects m1)(next_ref m := SetPublisher p ?ch)\<rparr>" "next_ref m"] f(1) by (simp add: meet)
  have m1: "channels m1 = gm_set ''pod'' (next_ref m) (channels m)" "next_ref m1 = Suc (next_ref m)"
    "pendingPublishers m1 = pendingPublishers m" "gm_get (pendingSubscribers m1) ''pod'' = None"
    "i \<noteq> next_ref m \<Longrightarrow> objects m1 i = objects m i" for i
    using m0 by (simp_all add: m1_def create_channel_def Let_def gm_get_del)
  show "GetChannel ''pod'' (meet sid p c m) = Some (next_ref m)" "next_ref (meet sid p c m) = Suc (next_ref m)"
    "\<And>i. i \<noteq> next_ref m \<Longrightarrow> objects (meet sid p c m) i = objects m i"
    "gm_get (pendingPublishers (meet sid p c m)) ''pod'' = None" "gm_get (pendingSubscribers (meet sid p c m)) ''pod'' = None"
    using m1 assms by (simp_all add: all GetChannel_def gm_get_set)
  show "life_view (objects (meet sid p c m) (next_ref m)) = (''pod'', True, False, called (m_world m))"
    using f(1) ch(1) by (simp add: all)
  have w: "publisherWg_Wait t = t\<lparr>pub_readers := []\<rparr>" if "pub_readers t = []" for t
    using that by (intro wait_idle) simp
  have "publisher (SetPublisher p ?ch) = Some p"
    using ch assms(4) by (simp add: SetPublisher_def Let_def w start_forwarding_def life_view_def)
  then show "publisher (objects (meet sid p c m) (next_ref m)) = Some p" using f(2) [OF o] by (simp add: all)
qed

definition sample_manager :: manager where
  "sample_manager = meet ''a'' 1 2 (NewChannelManagerWithConfig DefaultChannelManagerConfig True sample_world)"

lemma sample_manager_facts:
  "GetChannel ''pod'' sample_manager = Some 0" "next_ref sample_manager = 1"
  "life_view (objects sample_manager 0) = (''pod'', True, False, [])"
  "gm_get (pendingPublishers sample_manager) ''pod'' = None" "gm_get (pendingSubscribers sample_manager) ''pod'' = None"
proof -
  let ?m = "NewChannelManagerWithConfig DefaultChannelManagerConfig True sample_world"
  have "gm_get (channels ?m) ''pod'' = None" "gm_get (pendingPublishers ?m) ''pod'' = None"
    "gm_get (pendingSubscribers ?m) ''pod'' = None" "pub_readers (m_world ?m) = []" "next_ref ?m = 0" "called (m_world ?m) = []"
    by (simp_all add: NewChannelManagerWithConfig_def gm_get_Nil sample_world_def)
  with meet_creates [where sid = "''a''" and p = 1 and c = 2, OF this(1-4)] show
    "GetChannel ''pod'' sample_manager = Some 0" "next_ref sample_manager = 1"
    "life_view (objects sample_manager 0) = (''pod'', True, False, [])"
    "gm_get (pendingPublishers sample_manager) ''pod'' = None" "gm_get (pendingSubscribers sample_manager) ''pod'' = None"
    by (simp_all add: sample_manager_def)
qed

lemma meet_world: "m_world (meet sid p c m) = m_world m"
proof -
  have cb: "m_world (fold run_callback l m') = m_world m'" for l m'
    by (induction l arbitrary: m') (simp_all add: run_callback_def onChannelClosed_def split: callback.split)
  then have oc: "m_world (on_channel i f m') = m_world m'" for i f m' by (simp add: on_channel_def Let_def)
  have cr: "m_world m2 = m_world m1" if "create_channel k m1 = (i, m2)" for k m1 i m2
    using that by (auto simp: create_channel_def Let_def)
  have "m_world (snd (HandleSubscriberConnect k sid c m')) = m_world m'" for k m'
    by (auto simp: HandleSubscriberConnect_def close_pending_def oc Let_def dest!: cr split: option.split prod.split)
  moreover have "m_world (HandlePublisherConnect k c m') = m_world m'" for k c m'
    by (auto simp: HandlePublisherConnect_def close_pending_def oc Let_def dest!: cr split: option.split prod.split)
  ultimately show ?thesis by (simp add: meet_def)
qed


text \<open>Between the two parts of CloseChannel a new channel for the pod can be created; the second part
  then takes that one out of the map, although it is another channel and stays as it is, open and in
  use.\<close>

theorem CloseChannel_loses_new_channel:
  assumes "PodKey (objects m i) = k" "\<not> closed (objects m i)" "has_onChannelClosed (objects m i)"
    "GetChannel k m = Some j" "j \<noteq> i"
  shows "GetChannel k (close_taken (Some i) m) = None \<and> objects (close_taken (Some i) m) j = objects m j"
proof -
  have "life_step (objects m i) (Close (objects m i))" unfolding Close_def by (rule life_close)
  moreover have "closed (Close (objects m i))"
    using assms(2) by (simp add: Close_def closeInternal_idle Let_def log_call_def)
  ultimately have "on_channel i Close m = m\<lparr>objects := (objects m)(i := Close (objects m i)),
      channels := gm_del (PodKey (objects m i)) (channels m)\<rparr>"
    using assms(2,3) by (intro on_channel_close)
  then show ?thesis using assms by (simp add: close_taken_def GetChannel_def gm_get_del)
qed

text \<open>The browser and the runner reconnect while the first channel is being closed.\<close>

definition sample_between :: manager where
  "sample_between = meet ''b'' 3 4 (snd (take_channel ''pod'' sample_manager))"

theorem CloseChannel_loses_new_channel_witness:
  "fst (take_channel ''pod'' sample_manager) = Some 0 \<and> GetChannel ''pod'' sample_between = Some 1
    \<and> GetChannel ''pod'' (close_taken (Some 0) sample_between) = None
    \<and> publisher (objects (close_taken (Some 0) sample_between) 1) = Some 3"
proof -
  let ?m = "snd (take_channel ''pod'' sample_manager)"
  have m: "gm_get (channels ?m) ''pod'' = None" "gm_get (pendingPublishers ?m) ''pod'' = None"
    "gm_get (pendingSubscribers ?m) ''pod'' = None" "pub_readers (m_world ?m) = []" "next_ref ?m = 1"
    "objects ?m 0 = objects sample_manager 0"
    using sample_manager_facts
    by (simp_all add: take_channel_def gm_get_del sample_manager_def meet_world NewChannelManagerWithConfig_def sample_world_def)
  note mt = meet_creates [where sid = "''b''" and p = 3 and c = 4, OF m(1-4), folded sample_between_def, unfolded m(5)]
  have "objects sample_between 0 = objects sample_manager 0" using mt(3) [of 0] m(6) by simp
  then have "PodKey (objects sample_between 0) = ''pod''" "\<not> closed (objects sample_between 0)"
    "has_onChannelClosed (objects sample_between 0)"
    using sample_manager_facts(3) by (simp_all add: life_view_def)
  from CloseChannel_loses_new_channel [OF this, of 1] show ?thesis
    using mt(1,5) sample_manager_facts(1) by (simp add: take_channel_def GetChannel_def)
qed

end
