(* ===== verification/RelayHeaders.thy ===== *)
theory RelayHeaders
  imports Prelude
begin

text \<open>
  The headers that pass the relay's HTTP proxy (relay/internal/proxy/headers.go): http.Header as a map
  from keys to lists of values, and what the proxy removes from requests and responses.
\<close>

type_synonym header = "(str, str list) gomap"

subsection \<open>http.Header\<close>

definition valid_header_byte :: "rune \<Rightarrow> bool" where
  "valid_header_byte c \<longleftrightarrow> is_lower c \<or> is_upper c \<or> is_digit c
     \<or> c \<in> set ''!#$%&*+-.^_|~'' \<or> c = CHR 0x27 \<or> c = CHR 0x60"

fun canonical_case :: "bool \<Rightarrow> str \<Rightarrow> str" where
  "canonical_case up [] = []"
| "canonical_case up (c # cs) =
     (if up \<and> is_lower c then rune_upper c else if \<not> up \<and> is_upper c then rune_lower c else c)
     # canonical_case (c = CHR ''-'') cs"

text \<open>http.CanonicalHeaderKey; a key with a byte that is not allowed is left as it is.\<close>

definition CanonicalHeaderKey :: "str \<Rightarrow> str" where
  "CanonicalHeaderKey k = (if list_all valid_header_byte k then canonical_case True k else k)"

definition hdr_Values :: "header \<Rightarrow> str \<Rightarrow> str list" where
  "hdr_Values h k = (case gm_get h (CanonicalHeaderKey k) of None \<Rightarrow> [] | Some vs \<Rightarrow> vs)"

definition hdr_Del :: "str \<Rightarrow> header \<Rightarrow> header" where
  "hdr_Del k h = gm_del (CanonicalHeaderKey k) h"

definition hdr_Set :: "str \<Rightarrow> str \<Rightarrow> header \<Rightarrow> header" where
  "hdr_Set k v h = gm_set (CanonicalHeaderKey k) [v] h"

definition hdr_Add :: "str \<Rightarrow> str \<Rightarrow> header \<Rightarrow> header" where
  "hdr_Add k v h = gm_set (CanonicalHeaderKey k) (hdr_Values h k @ [v]) h"

text \<open>strings.Cut at a rune: what is before and after it, and whether it occurs.\<close>

definition strings_Cut :: "str \<Rightarrow> rune \<Rightarrow> str \<times> str \<times> bool" where
  "strings_Cut s sep = (takeWhile (\<lambda>c. c \<noteq> sep) s, drop 1 (dropWhile (\<lambda>c. c \<noteq> sep) s), sep \<in> set s)"

subsection \<open>What the proxy removes\<close>

definition hopByHopHeaders :: "str list" where
  "hopByHopHeaders = [''Connection'', ''Proxy-Connection'', ''Keep-Alive'', ''Transfer-Encoding'', ''TE'',
     ''Trailer'', ''Upgrade'']"

definition connection_names :: "header \<Rightarrow> str list" where
  "connection_names h =
     filter (\<lambda>n. n \<noteq> []) (concat (map (\<lambda>v. map trim_space (split_on (CHR '','') v)) (hdr_Values h ''Connection'')))"

definition stripHopByHop :: "header \<Rightarrow> header" where
  "stripHopByHop h = fold hdr_Del hopByHopHeaders (fold hdr_Del (connection_names h) h)"

text \<open>Of the cookies, those with a name other than the hidden one are kept.\<close>

definition other_cookie :: "str \<Rightarrow> str \<Rightarrow> bool" where
  "other_cookie hidden pair = (case strings_Cut pair (CHR ''='') of (name, _, found) \<Rightarrow> found \<and> name \<noteq> hidden)"

definition kept_cookies :: "str \<Rightarrow> header \<Rightarrow> str list" where
  "kept_cookies hidden h =
     filter (other_cookie hidden) (concat (map (\<lambda>line. map trim_space (split_on (CHR '';'') line)) (hdr_Values h ''Cookie'')))"

definition hideCookie :: "str \<Rightarrow> header \<Rightarrow> header" where
  "hideCookie hidden h =
     (if hidden = [] then h
      else (let kept = kept_cookies hidden h; h1 = hdr_Del ''Cookie'' h
            in if kept \<noteq> [] then hdr_Set ''Cookie'' (join ''; '' kept) h1 else h1))"

definition hideSetCookie :: "str \<Rightarrow> header \<Rightarrow> header" where
  "hideSetCookie hidden h =
     (if hidden = [] then h
      else fold (hdr_Add ''Set-Cookie'')
             (filter (\<lambda>v. other_cookie hidden (trim_space (fst (strings_Cut v (CHR '';''))))) (hdr_Values h ''Set-Cookie''))
             (hdr_Del ''Set-Cookie'' h))"

definition is_forwarding :: "str \<Rightarrow> bool" where
  "is_forwarding k = (let ck = CanonicalHeaderKey k in ck = ''Forwarded'' \<or> has_prefix ck ''X-Forwarded-'')"

definition set_unless_empty :: "str \<Rightarrow> str \<Rightarrow> header \<Rightarrow> header" where
  "set_unless_empty k v h = (if v = [] then h else hdr_Set k v h)"

definition SanitizeRequestHeaders :: "header \<Rightarrow> str \<Rightarrow> str \<Rightarrow> str \<Rightarrow> str \<Rightarrow> header" where
  "SanitizeRequestHeaders h clientIP proto host hidden =
     (let h1 = hdr_Del ''Referer'' (hideCookie hidden (stripHopByHop h));
          h2 = filter (\<lambda>(k, _). \<not> is_forwarding k) h1
      in set_unless_empty ''X-Forwarded-Host'' host
           (set_unless_empty ''X-Forwarded-Proto'' proto
             (set_unless_empty ''X-Forwarded-For'' clientIP h2)))"

definition SanitizeResponseHeaders :: "header \<Rightarrow> str \<Rightarrow> header" where
  "SanitizeResponseHeaders h hidden = hideSetCookie hidden (stripHopByHop h)"

text \<open>What the proxy passes as proto (http.go): the browser's own X-Forwarded-Proto when it has one.\<close>

definition hdr_Get :: "header \<Rightarrow> str \<Rightarrow> str" where
  "hdr_Get h k = (case hdr_Values h k of [] \<Rightarrow> [] | v # _ \<Rightarrow> v)"

definition forwardedProto :: "header \<Rightarrow> bool \<Rightarrow> str" where
  "forwardedProto h tls =
     (let p = hdr_Get h ''X-Forwarded-Proto''
      in if p \<noteq> [] then p else if tls then ''https'' else ''http'')"

text \<open>The headers ProxyHTTP and ProxyWebSocket send to the runner for a request with these headers.\<close>

definition forwarded_headers :: "header \<Rightarrow> str \<Rightarrow> bool \<Rightarrow> str \<Rightarrow> str \<Rightarrow> header" where
  "forwarded_headers h clientIP tls host hidden = SanitizeRequestHeaders h clientIP (forwardedProto h tls) host hidden"

subsection \<open>Lemmas\<close>

lemma canonical_constants:
  "CanonicalHeaderKey ''Connection'' = ''Connection''" "CanonicalHeaderKey ''Cookie'' = ''Cookie''"
  "CanonicalHeaderKey ''Set-Cookie'' = ''Set-Cookie''" "CanonicalHeaderKey ''Referer'' = ''Referer''"
  "CanonicalHeaderKey ''X-Forwarded-For'' = ''X-Forwarded-For''"
  "CanonicalHeaderKey ''X-Forwarded-Proto'' = ''X-Forwarded-Proto''"
  "CanonicalHeaderKey ''X-Forwarded-Host'' = ''X-Forwarded-Host''"
  by code_simp+

lemma hop_canonical:
  "map CanonicalHeaderKey hopByHopHeaders = [''Connection'', ''Proxy-Connection'', ''Keep-Alive'', ''Transfer-Encoding'',
     ''Te'', ''Trailer'', ''Upgrade'']"
  by code_simp

lemma hdr_get [gomap_simps]:
  "gm_get (hdr_Del k h) k' = (if k' = CanonicalHeaderKey k then None else gm_get h k')"
  "gm_get (hdr_Set k v h) k' = (if k' = CanonicalHeaderKey k then Some [v] else gm_get h k')"
  by (simp_all add: hdr_Del_def hdr_Set_def gm_get_del gm_get_set)

lemma gm_get_fold_hdr_Del:
  "gm_get (fold hdr_Del ks h) k = (if k \<in> CanonicalHeaderKey ` set ks then None else gm_get h k)"
  by (induction ks arbitrary: h) (auto simp: hdr_get)

lemma gm_get_stripHopByHop:
  "gm_get (stripHopByHop h) k =
     (if k \<in> CanonicalHeaderKey ` set (hopByHopHeaders @ connection_names h) then None else gm_get h k)"
  by (auto simp: stripHopByHop_def gm_get_fold_hdr_Del)

lemma gm_get_filter_key: "gm_get (filter (\<lambda>(k, _). P k) m) k = (if P k then gm_get m k else None)"
  by (induction m) (auto simp: gm_get_def)

lemma gm_get_hideCookie:
  "gm_get (hideCookie hidden h) k =
     (if hidden \<noteq> [] \<and> k = ''Cookie''
      then (if kept_cookies hidden h = [] then None else Some [join ''; '' (kept_cookies hidden h)])
      else gm_get h k)"
  by (auto simp: hideCookie_def Let_def hdr_get canonical_constants)

lemma gm_get_set_unless:
  "gm_get (set_unless_empty k v h) k' = (if v \<noteq> [] \<and> k' = CanonicalHeaderKey k then Some [v] else gm_get h k')"
  by (simp add: set_unless_empty_def hdr_get)

text \<open>The request's headers, key by key.\<close>

lemma gm_get_SanitizeRequestHeaders:
  "gm_get (SanitizeRequestHeaders h ip proto host hidden) k =
     (if host \<noteq> [] \<and> k = ''X-Forwarded-Host'' then Some [host]
      else if proto \<noteq> [] \<and> k = ''X-Forwarded-Proto'' then Some [proto]
      else if ip \<noteq> [] \<and> k = ''X-Forwarded-For'' then Some [ip]
      else if is_forwarding k \<or> k = ''Referer'' then None
      else gm_get (hideCookie hidden (stripHopByHop h)) k)"
  by (simp add: SanitizeRequestHeaders_def Let_def gm_get_set_unless gm_get_filter_key hdr_get canonical_constants)

text \<open>Splitting a joined line of cookies.\<close>

lemma split_on_free: "sep \<notin> set s \<Longrightarrow> split_on sep s = [s]"
  by (induction s) auto

lemma split_on_append: "sep \<notin> set s \<Longrightarrow> split_on sep (s @ sep # t) = s # split_on sep t"
  by (induction s) auto

lemma split_on_parts: "w \<in> set (split_on sep s) \<Longrightarrow> sep \<notin> set w"
proof (induction s arbitrary: w)
  case (Cons c cs)
  then show ?case by (cases "split_on sep cs") (auto split: if_splits)
qed simp

lemma split_on_join:
  assumes "\<And>v. v \<in> set (w # ws) \<Longrightarrow> sep \<notin> set v" "sep \<noteq> SP"
  shows "split_on sep (join [sep, SP] (w # ws)) = w # map (\<lambda>v. SP # v) ws"
  using assms
proof (induction ws arbitrary: w)
  case (Cons x ws)
  have "split_on sep (join [sep, SP] (x # ws)) = x # map (\<lambda>v. SP # v) ws" using Cons by simp
  then have "split_on sep (SP # join [sep, SP] (x # ws)) = (SP # x) # map (\<lambda>v. SP # v) ws"
    using assms(2) by simp
  then show ?case using split_on_append [of sep w "SP # join [sep, SP] (x # ws)"] Cons.prems by simp
qed (simp add: split_on_free)

lemma trim_right_idem: "trim_right_fn p (trim_right_fn p s) = trim_right_fn p s"
  by (simp add: trim_right_fn_def)

lemma trim_right_prefix: "prefix (trim_right_fn p s) s"
  using suffix_dropWhile [of p "rev s"] by (simp add: trim_right_fn_def suffix_to_prefix)

lemma trim_space_idem: "trim_space (trim_space s) = trim_space s"
proof -
  let ?t = "dropWhile unicode_is_space s"
  let ?u = "trim_right_fn unicode_is_space ?t"
  have "dropWhile unicode_is_space ?u = ?u"
  proof (cases ?u)
    case (Cons c cs)
    then obtain zs where t: "?t = c # zs" using trim_right_prefix [of unicode_is_space ?t] by (auto simp: prefix_def)
    then have "\<not> unicode_is_space c" using dropWhile_eq_Cons_conv by metis
    then show ?thesis by (simp add: Cons)
  qed simp
  then show ?thesis by (simp add: trim_space_def trim_fn_def trim_right_idem)
qed

lemma trim_space_SP: "trim_space (SP # s) = trim_space s"
  by (simp add: trim_space_def trim_fn_def unicode_is_space_def)

lemma set_trim_space: "set (trim_space s) \<subseteq> set s"
  using trim_space_sublist by (rule set_mono_sublist)

text \<open>A pair of the cookie line that goes out does not have the hidden name.\<close>

lemma hidden_cookie_gone:
  assumes "hidden \<noteq> []" "v \<in> set (hdr_Values (hideCookie hidden h) ''Cookie'')" "pair \<in> set (split_on (CHR '';'') v)"
  shows "other_cookie hidden (trim_space pair)"
proof -
  let ?kept = "kept_cookies hidden h"
  have v: "?kept \<noteq> []" "v = join ''; '' ?kept"
    using assms(1,2) by (auto simp: hdr_Values_def canonical_constants gm_get_hideCookie split: if_splits)
  have kept: "other_cookie hidden x \<and> trim_space x = x \<and> CHR '';'' \<notin> set x" if "x \<in> set ?kept" for x
    using that set_trim_space split_on_parts by (fastforce simp: kept_cookies_def trim_space_idem)
  obtain w ws where ws: "?kept = w # ws" using v(1) by (cases ?kept) auto
  have "pair \<in> set (w # map (\<lambda>v. SP # v) ws)"
    using assms(3) split_on_join [of w ws "CHR '';''"] kept unfolding v(2) ws by simp
  then have "trim_space pair \<in> set ?kept" using kept unfolding ws by (auto simp: trim_space_SP)
  then show ?thesis using kept by simp
qed

lemma forwarding_constants:
  "is_forwarding ''X-Forwarded-Host''" "is_forwarding ''X-Forwarded-Proto''" "is_forwarding ''X-Forwarded-For''"
  "\<not> is_forwarding ''Cookie''"
  by code_simp+

lemma Cookie_of_request:
  "hdr_Values (SanitizeRequestHeaders h ip proto host hidden) ''Cookie'' =
   hdr_Values (hideCookie hidden (stripHopByHop h)) ''Cookie''"
  using forwarding_constants
  by (simp add: hdr_Values_def canonical_constants gm_get_SanitizeRequestHeaders)

lemma stripped_key:
  assumes "k \<in> CanonicalHeaderKey ` set hopByHopHeaders" "k \<noteq> ''Cookie''" "\<not> is_forwarding k"
  shows "gm_get (SanitizeRequestHeaders h ip proto host hidden) k = None"
  using assms forwarding_constants
  by (auto simp: gm_get_SanitizeRequestHeaders gm_get_hideCookie gm_get_stripHopByHop)

definition hop_keys :: "str list" where
  "hop_keys = [''Connection'', ''Proxy-Connection'', ''Keep-Alive'', ''Transfer-Encoding'', ''Te'', ''Trailer'', ''Upgrade'']"

lemma hop_keys: "k \<in> set hop_keys \<Longrightarrow> k \<in> CanonicalHeaderKey ` set hopByHopHeaders \<and> k \<noteq> ''Cookie'' \<and> \<not> is_forwarding k"
proof -
  have "list_all (\<lambda>k. k \<noteq> ''Cookie'' \<and> \<not> is_forwarding k) hop_keys" by code_simp
  then show "k \<in> set hop_keys \<Longrightarrow> ?thesis"
    using hop_canonical by (auto simp: list_all_iff hop_keys_def simp flip: set_map)
qed


text \<open>A browser that spoofs its address, asks for X-Internal to be dropped as a connection header, and sends
  the preview session's cookie among others.\<close>

definition spoofed :: header where
  "spoofed = [(''Cookie'', [''a=1; preview=secret;b=2'']), (''X-Forwarded-For'', [''10.0.0.1'']),
     (''Connection'', [''keep-alive, x-internal'']), (''X-Internal'', [''1'']), (''Accept'', [''text/html''])]"

lemma spoofed_values:
  "hdr_Values (SanitizeRequestHeaders spoofed ''1.2.3.4'' ''https'' ''h'' ''preview'') ''Cookie'' = [''a=1; b=2'']"
  "split_on (CHR '';'') ''a=1; b=2'' = [''a=1'', '' b=2'']"
  "''Accept'' \<notin> CanonicalHeaderKey ` (set hopByHopHeaders \<union> set (connection_names spoofed))"
  "gm_get spoofed ''Accept'' = Some [''text/html'']"
  "\<not> is_forwarding ''Accept''"
  by code_simp+


text \<open>The limit of that guarantee: the scheme the proxy puts into X-Forwarded-Proto is the one the browser
  claims whenever it claims one, on a plain connection too.\<close>

theorem browser_chooses_forwarded_proto:
  assumes "gm_get h ''X-Forwarded-Proto'' = Some (p # more)" "p \<noteq> []"
  shows "gm_get (forwarded_headers h ip tls host hidden) ''X-Forwarded-Proto'' = Some [p]"
proof -
  have "forwardedProto h tls = p"
    using assms by (simp add: forwardedProto_def hdr_Get_def hdr_Values_def canonical_constants)
  then show ?thesis using assms(2) by (simp add: forwarded_headers_def gm_get_SanitizeRequestHeaders)
qed

theorem browser_chooses_forwarded_proto_witness:
  "gm_get (forwarded_headers [(''X-Forwarded-Proto'', [''https''])] ''1.2.3.4'' False ''h'' ''preview'') ''X-Forwarded-Proto''
     = Some [''https'']"
  by (rule browser_chooses_forwarded_proto) (code_simp, simp)

end
