(* ===== verification/LoopLexer.thy ===== *)
theory LoopLexer
  imports GoQuote
begin

text \<open>
  The lexer of the loop scripts (backend/internal/loopscript/lexer.go, token.go). A reader looks at the
  unread text and says which token it emits and how many runes it takes; the line and the column
  are those of the runes taken before. A string whose value the text type of the model cannot hold has a
  token kind of its own (\<open>tokenBeyond\<close>), which the program does not have.
\<close>

datatype (plugins only: code size) tokenKind =
    tokenEOF | tokenIllegal | tokenIdent | tokenNumber | tokenDuration | tokenString | tokenPrompt
  | tokenAt | tokenEqual | tokenDot | tokenComma | tokenColon | tokenLParen | tokenRParen | tokenLBrace | tokenRBrace
  | tokenID | tokenLoop | tokenLimits | tokenIterations | tokenTokens | tokenTimeout | tokenNoProgress
  | tokenSameError | tokenRepeat | tokenMax | tokenUntil | tokenCustomBlock | tokenNodeID | tokenDefinitionID
  | tokenSlug | tokenVersion | tokenDigest | tokenAgent | tokenPromptKey | tokenVerify | tokenCommand
  | tokenAccept | tokenOnFailure | tokenPause | tokenFail | tokenSecret
  | tokenBeyond

fun kind_name :: "tokenKind \<Rightarrow> str" where
  "kind_name tokenEOF = ''EOF''"
| "kind_name tokenIllegal = ''illegal''"
| "kind_name tokenIdent = ''identifier''"
| "kind_name tokenNumber = ''number''"
| "kind_name tokenDuration = ''duration''"
| "kind_name tokenString = ''string''"
| "kind_name tokenPrompt = ''prompt-string''"
| "kind_name tokenAt = ''@''"
| "kind_name tokenEqual = ''=''"
| "kind_name tokenDot = ''.''"
| "kind_name tokenComma = '',''"
| "kind_name tokenColon = '':''"
| "kind_name tokenLParen = ''(''"
| "kind_name tokenRParen = '')''"
| "kind_name tokenLBrace = ''{''"
| "kind_name tokenRBrace = ''}''"
| "kind_name tokenID = ''id''"
| "kind_name tokenLoop = ''loop''"
| "kind_name tokenLimits = ''limits''"
| "kind_name tokenIterations = ''iterations''"
| "kind_name tokenTokens = ''tokens''"
| "kind_name tokenTimeout = ''timeout''"
| "kind_name tokenNoProgress = ''no_progress''"
| "kind_name tokenSameError = ''same_error''"
| "kind_name tokenRepeat = ''repeat''"
| "kind_name tokenMax = ''max''"
| "kind_name tokenUntil = ''until''"
| "kind_name tokenCustomBlock = ''custom_block''"
| "kind_name tokenNodeID = ''node_id''"
| "kind_name tokenDefinitionID = ''definition_id''"
| "kind_name tokenSlug = ''slug''"
| "kind_name tokenVersion = ''version''"
| "kind_name tokenDigest = ''digest''"
| "kind_name tokenAgent = ''agent''"
| "kind_name tokenPromptKey = ''prompt''"
| "kind_name tokenVerify = ''verify''"
| "kind_name tokenCommand = ''command''"
| "kind_name tokenAccept = ''accept''"
| "kind_name tokenOnFailure = ''on_failure''"
| "kind_name tokenPause = ''pause''"
| "kind_name tokenFail = ''fail''"
| "kind_name tokenSecret = ''secret''"
| "kind_name tokenBeyond = ''string''"

text \<open>The keyword kinds; the text of a keyword is the name of its kind.\<close>

definition keyword_kinds :: "tokenKind list" where
  "keyword_kinds =
    [tokenID, tokenLoop, tokenLimits, tokenIterations, tokenTokens, tokenTimeout, tokenNoProgress,
     tokenSameError, tokenRepeat, tokenMax, tokenUntil, tokenCustomBlock, tokenNodeID, tokenDefinitionID,
     tokenSlug, tokenVersion, tokenDigest, tokenAgent, tokenPromptKey, tokenVerify, tokenCommand,
     tokenAccept, tokenOnFailure, tokenPause, tokenFail, tokenSecret]"

definition loop_keywords :: "(str \<times> tokenKind) list" where
  "loop_keywords = map (\<lambda>k. (kind_name k, k)) keyword_kinds"

record ls_token =
  tk_kind :: tokenKind
  tk_lit :: str
  tk_line :: nat
  tk_col :: nat

subsection \<open>The readers\<close>

definition isASCIIDigit :: "rune \<Rightarrow> bool" where
  "isASCIIDigit c \<longleftrightarrow> is_digit c"

definition isWordStart :: "rune \<Rightarrow> bool" where
  "isWordStart c \<longleftrightarrow> unicode_is_letter c \<or> c = CHR ''_'' \<or> c = CHR ''-''"

definition isWordPart :: "rune \<Rightarrow> bool" where
  "isWordPart c \<longleftrightarrow> unicode_is_letter c \<or> unicode_is_digit c \<or> c = CHR ''_'' \<or> c = CHR ''-''"

definition symbols :: "(rune \<times> tokenKind) list" where
  "symbols = [(CHR ''@'', tokenAt), (CHR ''='', tokenEqual), (CHR ''.'', tokenDot), (CHR '','', tokenComma),
     (CHR '':'', tokenColon), (CHR ''('', tokenLParen), (CHR '')'', tokenRParen), (CHR ''{'', tokenLBrace),
     (CHR ''}'', tokenRBrace)]"

definition symbolKind :: "rune \<Rightarrow> tokenKind option" where
  "symbolKind c = map_of symbols c"

text \<open>A token as a reader finds it: kind, literal, runes taken.\<close>

type_synonym item = "tokenKind \<times> str \<times> nat"

definition readWord :: "str \<Rightarrow> item" where
  "readWord s =
     (let w = takeWhile isWordPart s
      in (case map_of loop_keywords w of Some k \<Rightarrow> k | None \<Rightarrow> tokenIdent, w, length w))"

definition starts_with_part :: "str \<Rightarrow> bool" where
  "starts_with_part s \<longleftrightarrow> (case s of [] \<Rightarrow> False | c # _ \<Rightarrow> isWordPart c)"

definition ls_readNumber :: "str \<Rightarrow> item" where
  "ls_readNumber s =
     (let d = takeWhile isASCIIDigit s; r = dropWhile isASCIIDigit s
      in if r \<noteq> [] \<and> hd r = CHR ''m'' \<and> \<not> starts_with_part (tl r) then (tokenDuration, d @ ''m'', length d + 1)
         else if starts_with_part r
         then (let w = takeWhile isWordPart r in (tokenIdent, d @ w, length d + length w))
         else (tokenNumber, d, length d))"

text \<open>The runes of a string after its opening quote, and whether it is closed.\<close>

fun string_scan :: "str \<Rightarrow> nat \<times> bool" where
  "string_scan [] = (0, False)"
| "string_scan (c # cs) =
     (if c = NL then (0, False)
      else if c = BSLASH
      then (case cs of [] \<Rightarrow> (1, False) | _ # ds \<Rightarrow> (case string_scan ds of (n, b) \<Rightarrow> (n + 2, b)))
      else if c = DQUOTE then (1, True)
      else (case string_scan cs of (n, b) \<Rightarrow> (n + 1, b)))"

definition ls_readString :: "str \<Rightarrow> item" where
  "ls_readString s =
     (case string_scan (tl s) of (n, closed) \<Rightarrow>
        if closed
        then (case strconv_unquote (take (n + 1) s) of
                Unquoted v \<Rightarrow> (tokenString, v, n + 1)
              | BadEscape \<Rightarrow> (tokenIllegal, ''invalid string escape'', n + 1)
              | Beyond \<Rightarrow> (tokenBeyond, [], n + 1))
        else (tokenIllegal, ''unterminated string'', n + 1))"

definition triple :: str where
  "triple = [DQUOTE, DQUOTE, DQUOTE]"

text \<open>The runes before the closing quotes of a prompt.\<close>

fun prompt_scan :: "str \<Rightarrow> nat option" where
  "prompt_scan [] = None"
| "prompt_scan (c # cs) = (if prefix triple (c # cs) then Some 0 else map_option Suc (prompt_scan cs))"

definition readPrompt :: "str \<Rightarrow> item" where
  "readPrompt s =
     (case prompt_scan (drop 3 s) of
        Some n \<Rightarrow> (tokenPrompt, take n (drop 3 s), n + 6)
      | None \<Rightarrow> (tokenIllegal, ''unterminated prompt string'', length s))"

text \<open>The switch of \<open>lex\<close> at a rune that is not white space.\<close>

definition next_item :: "str \<Rightarrow> item" where
  "next_item s =
     (if prefix triple s then readPrompt s
      else if hd s = DQUOTE then ls_readString s
      else if isASCIIDigit (hd s) then ls_readNumber s
      else if isWordStart (hd s) then readWord s
      else (case symbolKind (hd s) of
              Some k \<Rightarrow> (k, [hd s], 1)
            | None \<Rightarrow> (tokenIllegal, ''unexpected character '' @ [hd s], 1)))"

lemma next_item_takes: "s \<noteq> [] \<Longrightarrow> next_item s = (k, v, n) \<Longrightarrow> 0 < n"
  by (cases s)
    (auto simp: next_item_def readPrompt_def ls_readString_def ls_readNumber_def readWord_def Let_def starts_with_part_def
      isWordStart_def isWordPart_def isASCIIDigit_def
      split: option.splits unquoted.splits prod.splits if_splits)

lemma next_item_shorter: "(k, v, n) = next_item (c # cs) \<Longrightarrow> Suc (length cs) - n < Suc (length cs)"
  using next_item_takes [of "c # cs" k v n] by simp

text \<open>The position after a rune, and after a text.\<close>

definition advance_rune :: "rune \<Rightarrow> nat \<times> nat \<Rightarrow> nat \<times> nat" where
  "advance_rune c pos = (case pos of (l, k) \<Rightarrow> if c = NL then (l + 1, 1) else (l, k + 1))"

definition advance_text :: "str \<Rightarrow> nat \<times> nat \<Rightarrow> nat \<times> nat" where
  "advance_text s pos = fold advance_rune s pos"

definition mk_ls_token :: "tokenKind \<Rightarrow> str \<Rightarrow> nat \<times> nat \<Rightarrow> ls_token" where
  "mk_ls_token k v pos = \<lparr>tk_kind = k, tk_lit = v, tk_line = fst pos, tk_col = snd pos\<rparr>"

function lex_from :: "str \<Rightarrow> nat \<times> nat \<Rightarrow> ls_token list" where
  "lex_from s pos =
     (case s of
        [] \<Rightarrow> [mk_ls_token tokenEOF [] pos]
      | c # cs \<Rightarrow>
        if unicode_is_space c then lex_from cs (advance_rune c pos)
        else (case next_item s of (k, v, n) \<Rightarrow>
                mk_ls_token k v pos # lex_from (drop n s) (advance_text (take n s) pos)))"
  by pat_completeness auto
termination by (relation "measure (length \<circ> fst)") (auto dest: next_item_shorter)

declare lex_from.simps [simp del]

definition lex :: "str \<Rightarrow> ls_token list" where
  "lex source = lex_from source (1, 1)"

subsection \<open>The tokens without their positions\<close>

definition strip :: "ls_token \<Rightarrow> tokenKind \<times> str" where
  "strip t = (tk_kind t, tk_lit t)"

function ls_scan :: "str \<Rightarrow> (tokenKind \<times> str) list" where
  "ls_scan s =
     (case s of
        [] \<Rightarrow> [(tokenEOF, [])]
      | c # cs \<Rightarrow>
        if unicode_is_space c then ls_scan cs
        else (case next_item s of (k, v, n) \<Rightarrow> (k, v) # ls_scan (drop n s)))"
  by pat_completeness auto
termination by (relation "measure length") (auto dest: next_item_shorter)

declare ls_scan.simps [simp del]

lemma strip_mk [simp]: "strip (mk_ls_token k v pos) = (k, v)"
  by (simp add: strip_def mk_ls_token_def)

lemma strip_lex_from: "map strip (lex_from s pos) = ls_scan s"
proof (induction s pos rule: lex_from.induct)
  case (1 s pos)
  then show ?case
    by (subst lex_from.simps, subst ls_scan.simps) (auto split: list.splits prod.splits)
qed

lemma strip_lex: "map strip (lex s) = ls_scan s"
  by (simp add: lex_def strip_lex_from)

end
