(* ===== verification/LoopParser.thy ===== *)
theory LoopParser
  imports LoopLexer "HOL-Library.State_Monad"
begin

text \<open>
  The syntax trees of the loop scripts (ast.go) and their parser (parser.go, parser_nodes.go,
  parser_support.go of backend/internal/loopscript). The parser struct is a state record, its methods
  are functions of the state monad; the tokens from \<open>pos\<close> on stand for the tokens and the position.
  A method goes on after a failure as the code does: only the first failure is kept, and Analyze
  returns nothing but that. \<open>secret\<close> stands for secretguard.ContainsCredentialLiteral.
\<close>

subsection \<open>Trees (ast.go)\<close>

record limits =
  Iterations :: int
  Tokens :: int
  TimeoutMins :: int
  NoProgress :: int
  SameError :: int

record until_ref =
  RefLocalID :: str
  RefField :: str

record custom_block =
  Custom_NodeID :: str
  DefinitionID :: str
  Custom_Slug :: str
  Custom_Version :: int
  DefinitionDigest :: str

record agent_node =
  Agent_NodeID :: str
  Agent_LocalID :: str
  AgentPrompt :: str

record verifier_node =
  Verifier_NodeID :: str
  Verifier_LocalID :: str
  Verifier_Command :: str
  Verifier_Accept :: str

record repeat_node =
  Repeat_NodeID :: str
  Repeat_LocalID :: str
  Repeat_Max :: int
  Until :: until_ref
  CustomBlock :: "custom_block option"
  Agent :: agent_node
  Verifier :: verifier_node

record loop_node =
  Loop_NodeID :: str
  Loop_LocalID :: str
  Limits :: limits
  Repeat :: repeat_node
  FailurePolicy :: str

record loop_program =
  SchemaVersion :: int
  Loop :: loop_node

definition FailurePause :: str where "FailurePause = ''pause''"
definition FailureFail :: str where "FailureFail = ''fail''"

record diagnostic =
  Diag_Code :: str
  Diag_Message :: str
  Diag_NodeID :: str
  Diag_FieldPath :: str
  Diag_Line :: nat
  Diag_Column :: nat

type_synonym sourcePosition = "nat \<times> nat"

record programPositions =
  pos_loop :: sourcePosition
  pos_limits :: sourcePosition
  pos_repeat :: sourcePosition
  pos_customBlock :: sourcePosition
  pos_agent :: sourcePosition
  pos_verifier :: sourcePosition
  pos_failure :: sourcePosition

record textRedactions =
  red_agentPrompt :: bool
  red_verifierCommand :: bool
  red_verifierAccept :: bool

text \<open>The zero values of Go.\<close>

definition no_limits :: limits where
  "no_limits = \<lparr>Iterations = 0, Tokens = 0, TimeoutMins = 0, NoProgress = 0, SameError = 0\<rparr>"

definition no_agent :: agent_node where
  "no_agent = \<lparr>Agent_NodeID = [], Agent_LocalID = [], AgentPrompt = []\<rparr>"

definition no_verifier :: verifier_node where
  "no_verifier = \<lparr>Verifier_NodeID = [], Verifier_LocalID = [], Verifier_Command = [], Verifier_Accept = []\<rparr>"

definition no_repeat :: repeat_node where
  "no_repeat = \<lparr>Repeat_NodeID = [], Repeat_LocalID = [], Repeat_Max = 0, Until = \<lparr>RefLocalID = [], RefField = []\<rparr>,
     CustomBlock = None, Agent = no_agent, Verifier = no_verifier\<rparr>"

definition no_positions :: programPositions where
  "no_positions = \<lparr>pos_loop = (0, 0), pos_limits = (0, 0), pos_repeat = (0, 0), pos_customBlock = (0, 0),
     pos_agent = (0, 0), pos_verifier = (0, 0), pos_failure = (0, 0)\<rparr>"

definition no_redactions :: textRedactions where
  "no_redactions = \<lparr>red_agentPrompt = False, red_verifierCommand = False, red_verifierAccept = False\<rparr>"

subsection \<open>The parser's state and primitive steps (parser_support.go)\<close>

text \<open>The last token of a text is EOF; when all are taken, it is still the current one.\<close>

record loop_parser =
  unread :: "ls_token list"
  eof_pos :: sourcePosition
  failure :: "diagnostic option"
  semanticDiagnostics :: "diagnostic list"
  positions :: programPositions
  redactions :: textRedactions

type_synonym 'a parse = "(loop_parser, 'a) state"

definition newDiagnostic :: "str \<Rightarrow> str \<Rightarrow> str \<Rightarrow> sourcePosition \<Rightarrow> diagnostic" where
  "newDiagnostic c m node pos =
     \<lparr>Diag_Code = c, Diag_Message = m, Diag_NodeID = node, Diag_FieldPath = [], Diag_Line = fst pos, Diag_Column = snd pos\<rparr>"

definition positionOf :: "ls_token \<Rightarrow> sourcePosition" where
  "positionOf t = (tk_line t, tk_col t)"

definition current_token :: "loop_parser \<Rightarrow> ls_token" where
  "current_token p = (case unread p of [] \<Rightarrow> mk_ls_token tokenEOF [] (eof_pos p) | t # _ \<Rightarrow> t)"

definition current_kind :: "loop_parser \<Rightarrow> tokenKind" where
  "current_kind p = tk_kind (current_token p)"

definition failed :: "loop_parser \<Rightarrow> bool" where
  "failed p \<longleftrightarrow> failure p \<noteq> None"

definition ls_current :: "ls_token parse" where
  "ls_current = State (\<lambda>p. (current_token p, p))"

definition ls_advance :: "unit parse" where
  "ls_advance = State (\<lambda>p. ((), p\<lparr>unread := tl (unread p)\<rparr>))"

definition failAt :: "str \<Rightarrow> str \<Rightarrow> str \<Rightarrow> sourcePosition \<Rightarrow> unit parse" where
  "failAt c m node pos =
     State (\<lambda>p. ((), if failed p then p else p\<lparr>failure := Some (newDiagnostic c m node pos)\<rparr>))"

definition failCurrent :: "str \<Rightarrow> str \<Rightarrow> str \<Rightarrow> unit parse" where
  "failCurrent c m node = do {
     t \<leftarrow> ls_current;
     failAt c m node (positionOf t)
   }"

definition ls_expect :: "tokenKind \<Rightarrow> unit parse" where
  "ls_expect k = State (\<lambda>p.
     if failed p then ((), p)
     else if current_kind p \<noteq> k
     then run_state (failCurrent ''loop.syntax.unexpected-token''
            (''expected '' @ kind_name k @ '', got '' @ kind_name (current_kind p)) []) p
     else run_state ls_advance p)"

definition takeIdentifier :: "str parse" where
  "takeIdentifier = do {
     t \<leftarrow> ls_current;
     if tk_kind t \<noteq> tokenIdent
     then do {
       failCurrent ''loop.syntax.unexpected-token'' ''expected identifier'' [];
       State_Monad.return []
     }
     else do {
       ls_advance;
       State_Monad.return (tk_lit t)
     }
   }"

definition ls_trim_suffix :: "str \<Rightarrow> str \<Rightarrow> str" where
  "ls_trim_suffix s x = (if has_suffix s x then take (length s - length x) s else s)"

text \<open>strconv.ParseInt with base 10 and 64 bits, on the digits a number token has.\<close>

definition ls_parse_int64 :: "str \<Rightarrow> int option" where
  "ls_parse_int64 s =
     (if s = [] \<or> \<not> list_all is_digit s \<or> read_base 10 s \<ge> 2 ^ 63 then None else Some (int (read_base 10 s)))"

definition takeInteger :: "tokenKind \<Rightarrow> int parse" where
  "takeInteger k = do {
     t \<leftarrow> ls_current;
     if tk_kind t \<noteq> k
     then do {
       failCurrent ''loop.syntax.unexpected-token'' (''expected '' @ kind_name k) [];
       State_Monad.return 0
     }
     else do {
       ls_advance;
       (case ls_parse_int64 (ls_trim_suffix (tk_lit t) ''m'') of
          Some v \<Rightarrow> State_Monad.return v
        | None \<Rightarrow> do {
            failAt ''loop.syntax.invalid-number'' ''invalid integer'' [] (positionOf t);
            State_Monad.return 0
          })
     }
   }"

definition takeString :: "str parse" where
  "takeString = do {
     t \<leftarrow> ls_current;
     if tk_kind t \<noteq> tokenString
     then do {
       failCurrent ''loop.syntax.unexpected-token'' ''expected string'' [];
       State_Monad.return []
     }
     else do {
       ls_advance;
       State_Monad.return (tk_lit t)
     }
   }"

definition addSecretDiagnostic :: "str \<Rightarrow> sourcePosition \<Rightarrow> unit parse" where
  "addSecretDiagnostic node pos =
     State (\<lambda>p. ((), p\<lparr>semanticDiagnostics := semanticDiagnostics p @
        [newDiagnostic ''loop.secret.literal-forbidden'' ''secret literals are forbidden'' node pos]\<rparr>))"

definition takeGuardedText :: "(str \<Rightarrow> bool) \<Rightarrow> str \<Rightarrow> str \<Rightarrow> tokenKind list \<Rightarrow> (str \<times> bool) parse" where
  "takeGuardedText secret node expected allowed = do {
     t \<leftarrow> ls_current;
     if tk_kind t = tokenSecret
     then do {
       ls_advance;
       addSecretDiagnostic node (positionOf t);
       State_Monad.return ([], True)
     }
     else if tk_kind t \<in> set allowed
     then do {
       ls_advance;
       if secret (tk_lit t)
       then do {
         addSecretDiagnostic node (positionOf t);
         State_Monad.return ([], True)
       }
       else State_Monad.return (tk_lit t, False)
     }
     else do {
       failCurrent ''loop.syntax.unexpected-token'' (''expected '' @ expected) node;
       State_Monad.return ([], False)
     }
   }"

definition set_positions :: "(programPositions \<Rightarrow> programPositions) \<Rightarrow> unit parse" where
  "set_positions f = State (\<lambda>p. ((), p\<lparr>positions := f (positions p)\<rparr>))"

definition set_redactions :: "(textRedactions \<Rightarrow> textRedactions) \<Rightarrow> unit parse" where
  "set_redactions f = State (\<lambda>p. ((), p\<lparr>redactions := f (redactions p)\<rparr>))"

subsection \<open>Nodes (parser_nodes.go)\<close>

definition parseNodeID :: "(str \<times> sourcePosition) parse" where
  "parseNodeID = do {
     t \<leftarrow> ls_current;
     if tk_kind t \<noteq> tokenAt
     then do {
       failCurrent ''loop.node-id.missing'' ''node must be preceded by @id(...)'' [];
       State_Monad.return ([], positionOf t)
     }
     else do {
       ls_advance;
       ls_expect tokenID;
       ls_expect tokenLParen;
       nodeID \<leftarrow> takeIdentifier;
       ls_expect tokenRParen;
       State_Monad.return (nodeID, positionOf t)
     }
   }"

text \<open>A field of an argument list: its name, the colon, its value.\<close>

definition field :: "tokenKind \<Rightarrow> 'a parse \<Rightarrow> 'a parse" where
  "field k m = do {
     ls_expect k;
     ls_expect tokenColon;
     m
   }"

definition parseLimits :: "limits parse" where
  "parseLimits = do {
     ls_expect tokenLimits;
     ls_expect tokenLParen;
     iterations \<leftarrow> field tokenIterations (takeInteger tokenNumber);
     ls_expect tokenComma;
     toks \<leftarrow> field tokenTokens (takeInteger tokenNumber);
     ls_expect tokenComma;
     timeout \<leftarrow> field tokenTimeout (takeInteger tokenDuration);
     ls_expect tokenComma;
     noProgress \<leftarrow> field tokenNoProgress (takeInteger tokenNumber);
     ls_expect tokenComma;
     sameError \<leftarrow> field tokenSameError (takeInteger tokenNumber);
     ls_expect tokenRParen;
     State_Monad.return \<lparr>Iterations = iterations, Tokens = toks, TimeoutMins = timeout, NoProgress = noProgress,
       SameError = sameError\<rparr>
   }"

definition parseReference :: "until_ref parse" where
  "parseReference = do {
     localID \<leftarrow> takeIdentifier;
     ls_expect tokenDot;
     f \<leftarrow> takeIdentifier;
     State_Monad.return \<lparr>RefLocalID = localID, RefField = f\<rparr>
   }"

definition parseCustomBlockRef :: "custom_block parse" where
  "parseCustomBlockRef = do {
     ls_expect tokenCustomBlock;
     ls_expect tokenLParen;
     nodeID \<leftarrow> field tokenNodeID takeIdentifier;
     ls_expect tokenComma;
     definitionID \<leftarrow> field tokenDefinitionID takeString;
     ls_expect tokenComma;
     slug \<leftarrow> field tokenSlug takeIdentifier;
     ls_expect tokenComma;
     version \<leftarrow> field tokenVersion (takeInteger tokenNumber);
     ls_expect tokenComma;
     digest \<leftarrow> field tokenDigest takeString;
     ls_expect tokenRParen;
     State_Monad.return \<lparr>Custom_NodeID = nodeID, DefinitionID = definitionID, Custom_Slug = slug,
       Custom_Version = version, DefinitionDigest = digest\<rparr>
   }"

definition parseAgent :: "(str \<Rightarrow> bool) \<Rightarrow> str \<Rightarrow> agent_node parse" where
  "parseAgent secret nodeID = do {
     ls_expect tokenAgent;
     localID \<leftarrow> takeIdentifier;
     ls_expect tokenLBrace;
     ls_expect tokenPromptKey;
     (prompt, redacted) \<leftarrow> takeGuardedText secret nodeID ''prompt string'' [tokenPrompt, tokenString];
     set_redactions (\<lambda>r. r\<lparr>red_agentPrompt := red_agentPrompt r \<or> redacted\<rparr>);
     ls_expect tokenRBrace;
     State_Monad.return \<lparr>Agent_NodeID = nodeID, Agent_LocalID = localID, AgentPrompt = prompt\<rparr>
   }"

definition parseVerifier :: "(str \<Rightarrow> bool) \<Rightarrow> str \<Rightarrow> verifier_node parse" where
  "parseVerifier secret nodeID = do {
     ls_expect tokenVerify;
     localID \<leftarrow> takeIdentifier;
     ls_expect tokenLBrace;
     ls_expect tokenCommand;
     (cmd, cmdRedacted) \<leftarrow> takeGuardedText secret nodeID ''string'' [tokenString];
     set_redactions (\<lambda>r. r\<lparr>red_verifierCommand := red_verifierCommand r \<or> cmdRedacted\<rparr>);
     ls_expect tokenAccept;
     (accept, acceptRedacted) \<leftarrow> takeGuardedText secret nodeID ''string'' [tokenString];
     set_redactions (\<lambda>r. r\<lparr>red_verifierAccept := red_verifierAccept r \<or> acceptRedacted\<rparr>);
     ls_expect tokenRBrace;
     State_Monad.return \<lparr>Verifier_NodeID = nodeID, Verifier_LocalID = localID, Verifier_Command = cmd,
       Verifier_Accept = accept\<rparr>
   }"

definition parseFailurePolicy :: "str parse" where
  "parseFailurePolicy = do {
     ls_expect tokenOnFailure;
     t \<leftarrow> ls_current;
     if tk_kind t = tokenPause
     then do {
       ls_advance;
       State_Monad.return FailurePause
     }
     else if tk_kind t = tokenFail
     then do {
       ls_advance;
       State_Monad.return FailureFail
     }
     else do {
       failCurrent ''loop.failure-policy.invalid'' ''failure policy must be pause or fail'' [];
       State_Monad.return []
     }
   }"

subsection \<open>Every method takes tokens from the front\<close>

definition shrinks :: "'a parse \<Rightarrow> bool" where
  "shrinks m \<longleftrightarrow> (\<forall>p x p'. run_state m p = (x, p') \<longrightarrow>
     length (unread p') \<le> length (unread p) \<and> (failed p \<longrightarrow> failed p'))"

text \<open>It takes one at least, or fails.\<close>

definition takes :: "'a parse \<Rightarrow> bool" where
  "takes m \<longleftrightarrow> shrinks m \<and> (\<forall>p x p'. run_state m p = (x, p') \<longrightarrow>
     failed p' \<or> length (unread p') < length (unread p))"

named_theorems shrink_intros \<open>how the parser's methods shrink the input\<close>

lemma shrinks_return [shrink_intros]: "shrinks (State_Monad.return x)"
  by (simp add: shrinks_def)

lemma shrinks_bind [shrink_intros]: "shrinks m \<Longrightarrow> (\<And>x. shrinks (f x)) \<Longrightarrow> shrinks (m \<bind> f)"
  unfolding shrinks_def by (fastforce split: prod.splits)

lemma shrinks_if [shrink_intros]: "(b \<Longrightarrow> shrinks m) \<Longrightarrow> (\<not> b \<Longrightarrow> shrinks n) \<Longrightarrow> shrinks (if b then m else n)"
  by simp

lemma shrinks_option [shrink_intros]:
  "shrinks m \<Longrightarrow> (\<And>v. shrinks (f v)) \<Longrightarrow> shrinks (case x of None \<Rightarrow> m | Some v \<Rightarrow> f v)"
  by (cases x) auto

lemma shrinks_prod [shrink_intros]: "(\<And>a b. shrinks (f a b)) \<Longrightarrow> shrinks (case x of (a, b) \<Rightarrow> f a b)"
  by (cases x) auto

lemma shrinks_primitive [shrink_intros]:
  "shrinks ls_current" "shrinks ls_advance" "shrinks (failAt c m node pos)" "shrinks (addSecretDiagnostic node pos)"
  "shrinks (set_positions g)" "shrinks (set_redactions h)"
  by (auto simp: shrinks_def ls_current_def ls_advance_def failAt_def addSecretDiagnostic_def set_positions_def
      set_redactions_def failed_def)

lemma shrinks_failCurrent [shrink_intros]: "shrinks (failCurrent c m node)"
  unfolding failCurrent_def by (intro shrink_intros)

lemma shrinks_expect [shrink_intros]: "shrinks (ls_expect k)"
  using shrinks_failCurrent shrinks_primitive(2) by (auto simp: shrinks_def ls_expect_def split: if_splits)

lemma shrinks_take [shrink_intros]:
  "shrinks takeIdentifier" "shrinks (takeInteger k)" "shrinks takeString"
  "shrinks (takeGuardedText secret node expected allowed)"
  unfolding takeIdentifier_def takeInteger_def takeString_def takeGuardedText_def
  by (intro shrink_intros)+

lemma shrinks_field [shrink_intros]: "shrinks m \<Longrightarrow> shrinks (field k m)"
  unfolding field_def by (intro shrink_intros)

lemma shrinks_nodes [shrink_intros]:
  "shrinks parseNodeID" "shrinks parseLimits" "shrinks parseReference" "shrinks parseCustomBlockRef"
  "shrinks (parseAgent secret nodeID)" "shrinks (parseVerifier secret nodeID)" "shrinks parseFailurePolicy"
  unfolding parseNodeID_def parseLimits_def parseReference_def parseCustomBlockRef_def
    parseAgent_def parseVerifier_def parseFailurePolicy_def
  by (intro shrink_intros)+

named_theorems take_intros \<open>the methods that take a token or fail\<close>

lemma takes_bind [take_intros]: "takes m \<Longrightarrow> (\<And>x. shrinks (f x)) \<Longrightarrow> takes (m \<bind> f)"
  unfolding takes_def using shrinks_bind [of m f]
  by (simp add: shrinks_def split: prod.splits) (meson le_trans less_le_trans not_le)

lemma failCurrent_fails [take_intros]: "takes (failCurrent c m node)"
  using shrinks_failCurrent by (auto simp: takes_def failCurrent_def failAt_def ls_current_def failed_def)

lemma takes_expect [take_intros]: "k \<noteq> tokenEOF \<Longrightarrow> takes (ls_expect k)"
  using shrinks_expect failCurrent_fails
  by (auto simp: takes_def ls_expect_def ls_advance_def current_kind_def current_token_def mk_ls_token_def failed_def
      split: if_splits list.splits)

lemma takes_parseNodeID [take_intros]: "takes parseNodeID"
proof -
  have "failed p' \<or> length (unread p') < length (unread p)" if "run_state parseNodeID p = (x, p')" for p x p'
  proof (cases "current_kind p = tokenAt")
    case True
    then obtain t r where t: "unread p = t # r"
      by (auto simp: current_kind_def current_token_def mk_ls_token_def split: list.splits)
    let ?tail = "ls_expect tokenID \<bind> (\<lambda>_. ls_expect tokenLParen \<bind> (\<lambda>_. takeIdentifier \<bind>
        (\<lambda>nodeID. ls_expect tokenRParen \<bind> (\<lambda>_. State_Monad.return (nodeID, positionOf t)))))"
    have "run_state ?tail (p\<lparr>unread := r\<rparr>) = (x, p')"
      using that True t
      by (simp add: parseNodeID_def ls_current_def ls_advance_def current_kind_def current_token_def split: prod.splits)
    moreover have "shrinks ?tail" by (intro shrink_intros)
    ultimately have "length (unread p') \<le> length (unread (p\<lparr>unread := r\<rparr>))" unfolding shrinks_def by blast
    then show ?thesis using t by simp
  next
    case False
    then show ?thesis
      using that failCurrent_fails
      by (auto simp: parseNodeID_def ls_current_def current_kind_def failCurrent_def failAt_def failed_def)
  qed
  then show ?thesis using shrinks_nodes(1) unfolding takes_def by blast
qed

subsection \<open>The repeat node\<close>

text \<open>One turn of the loop in parseRepeat: the node so far, and whether it has its agent and its verifier.\<close>

type_synonym repeat_state = "repeat_node \<times> bool \<times> bool"

definition repeat_custom :: "str \<Rightarrow> repeat_state \<Rightarrow> repeat_state parse" where
  "repeat_custom nodeID st = (case st of (rp, hasAgent, hasVerifier) \<Rightarrow>
     if CustomBlock rp \<noteq> None
     then do {
       failCurrent ''loop.custom-block.count'' ''at most one custom block reference is allowed'' nodeID;
       State_Monad.return st
     }
     else if hasAgent \<or> hasVerifier
     then do {
       failCurrent ''loop.custom-block.position'' ''custom block reference must precede the expanded nodes'' nodeID;
       State_Monad.return st
     }
     else do {
       t \<leftarrow> ls_current;
       set_positions (\<lambda>q. q\<lparr>pos_customBlock := positionOf t\<rparr>);
       custom \<leftarrow> parseCustomBlockRef;
       State_Monad.return (rp\<lparr>CustomBlock := Some custom\<rparr>, hasAgent, hasVerifier)
     })"

definition repeat_child :: "(str \<Rightarrow> bool) \<Rightarrow> repeat_state \<Rightarrow> repeat_state parse" where
  "repeat_child secret st = (case st of (rp, hasAgent, hasVerifier) \<Rightarrow> do {
     (childID, childPosition) \<leftarrow> parseNodeID;
     t \<leftarrow> ls_current;
     if tk_kind t = tokenAgent
     then (if hasAgent
           then do {
             failCurrent ''loop.structure.agent-count'' ''exactly one agent is allowed'' childID;
             State_Monad.return st
           }
           else do {
             set_positions (\<lambda>q. q\<lparr>pos_agent := childPosition\<rparr>);
             agent \<leftarrow> parseAgent secret childID;
             State_Monad.return (rp\<lparr>Agent := agent\<rparr>, True, hasVerifier)
           })
     else if tk_kind t = tokenVerify
     then (if hasVerifier
           then do {
             failCurrent ''loop.structure.verifier-count'' ''exactly one verifier is allowed'' childID;
             State_Monad.return st
           }
           else do {
             set_positions (\<lambda>q. q\<lparr>pos_verifier := childPosition\<rparr>);
             verifier \<leftarrow> parseVerifier secret childID;
             State_Monad.return (rp\<lparr>Verifier := verifier\<rparr>, hasAgent, True)
           })
     else do {
       failCurrent ''loop.syntax.unknown'' ''unknown attributed repeat node'' childID;
       State_Monad.return st
     }
   })"

definition repeat_step :: "(str \<Rightarrow> bool) \<Rightarrow> str \<Rightarrow> repeat_state \<Rightarrow> repeat_state parse" where
  "repeat_step secret nodeID st = do {
     t \<leftarrow> ls_current;
     if tk_kind t = tokenCustomBlock then repeat_custom nodeID st
     else if tk_kind t \<noteq> tokenAt
     then do {
       (if tk_kind t = tokenAgent \<or> tk_kind t = tokenVerify
        then failCurrent ''loop.node-id.missing'' ''node must be preceded by @id(...)'' []
        else failCurrent ''loop.syntax.unknown'' ''unknown repeat syntax'' []);
       State_Monad.return st
     }
     else repeat_child secret st
   }"

lemma takes_if [take_intros]: "(b \<Longrightarrow> takes m) \<Longrightarrow> (\<not> b \<Longrightarrow> takes n) \<Longrightarrow> takes (if b then m else n)"
  by simp

lemma takes_prod [take_intros]: "(\<And>a b. takes (f a b)) \<Longrightarrow> takes (case x of (a, b) \<Rightarrow> f a b)"
  by (cases x) auto

text \<open>What happens before the first token is taken: a look at it, or notes of its position.\<close>

lemma takes_after_look: "(\<And>t. takes (f t)) \<Longrightarrow> takes (ls_current \<bind> f)"
  unfolding takes_def shrinks_def by (simp add: ls_current_def)

lemma takes_after_note: "takes m \<Longrightarrow> takes (set_positions f \<bind> (\<lambda>_. m))"
  unfolding takes_def shrinks_def by (fastforce simp: set_positions_def failed_def)

lemma takes_custom [take_intros]: "takes parseCustomBlockRef"
  unfolding parseCustomBlockRef_def by (intro take_intros shrink_intros) simp

lemma takes_repeat_step: "takes (repeat_step secret nodeID st)"
proof -
  have "takes (repeat_custom nodeID st)"
    unfolding repeat_custom_def
    by (intro takes_prod takes_if takes_after_look takes_after_note takes_bind [OF takes_custom]
        takes_bind [OF failCurrent_fails] shrink_intros)
  moreover have "takes (repeat_child secret st)"
    unfolding repeat_child_def by (intro takes_prod takes_bind [OF takes_parseNodeID] shrink_intros)
  ultimately show ?thesis
    unfolding repeat_step_def
    by (intro takes_after_look takes_if takes_bind [OF takes_if] failCurrent_fails shrink_intros)
qed

lemma takes_step:
  assumes "takes m" "run_state m p = (x, p')" "\<not> failed p"
  shows "(if failed p' then 0 else Suc (length (unread p'))) < (if failed p then 0 else Suc (length (unread p)))"
  using assms unfolding takes_def by auto

definition block_ends :: "loop_parser \<Rightarrow> bool" where
  "block_ends p \<longleftrightarrow> failed p \<or> current_kind p = tokenRBrace \<or> current_kind p = tokenEOF"

lemma not_block_ends: "\<not> block_ends p \<Longrightarrow> \<not> failed p"
  by (simp add: block_ends_def)

function repeat_loop :: "(str \<Rightarrow> bool) \<Rightarrow> str \<Rightarrow> repeat_state \<Rightarrow> loop_parser \<Rightarrow> repeat_state \<times> loop_parser" where
  "repeat_loop secret nodeID st p =
     (if block_ends p then (st, p)
      else (case run_state (repeat_step secret nodeID st) p of (st', p') \<Rightarrow> repeat_loop secret nodeID st' p'))"
  by pat_completeness auto
termination
proof (relation "measure (\<lambda>(_, _, _, p). if failed p then 0 else Suc (length (unread p)))", goal_cases)
  case (2 secret nodeID st p x y)
  show ?case
    using takes_step [OF takes_repeat_step sym [OF 2(2)] not_block_ends [OF 2(1)]] not_block_ends [OF 2(1)] by simp
qed simp

declare repeat_loop.simps [simp del]

definition parseRepeat :: "(str \<Rightarrow> bool) \<Rightarrow> str \<Rightarrow> repeat_node parse" where
  "parseRepeat secret nodeID = do {
     ls_expect tokenRepeat;
     localID \<leftarrow> takeIdentifier;
     ls_expect tokenLParen;
     maximum \<leftarrow> field tokenMax (takeInteger tokenNumber);
     ls_expect tokenComma;
     until \<leftarrow> field tokenUntil parseReference;
     ls_expect tokenRParen;
     ls_expect tokenLBrace;
     (rp, hasAgent, hasVerifier) \<leftarrow> State (repeat_loop secret nodeID
        (no_repeat\<lparr>Repeat_NodeID := nodeID, Repeat_LocalID := localID, Repeat_Max := maximum, Until := until\<rparr>, False, False));
     ls_expect tokenRBrace;
     (if \<not> hasAgent
      then failCurrent ''loop.structure.agent-count'' ''exactly one agent is required'' nodeID
      else if \<not> hasVerifier
      then failCurrent ''loop.structure.verifier-count'' ''exactly one verifier is required'' nodeID
      else State_Monad.return ());
     State_Monad.return rp
   }"

subsection \<open>The program (parser.go)\<close>

type_synonym program_state = "loop_node \<times> bool \<times> bool \<times> bool"

definition once :: "bool \<Rightarrow> str \<Rightarrow> str \<Rightarrow> str \<Rightarrow> 'a \<Rightarrow> 'a parse \<Rightarrow> 'a parse" where
  "once again c m node st body =
     (if again then do {
        failCurrent c m node;
        State_Monad.return st
      }
      else body)"

definition program_step :: "(str \<Rightarrow> bool) \<Rightarrow> program_state \<Rightarrow> program_state parse" where
  "program_step secret st = (case st of (lp, hasLimits, hasRepeat, hasFailure) \<Rightarrow> do {
     t \<leftarrow> ls_current;
     (case tk_kind t of
        tokenAt \<Rightarrow> do {
          (childID, childPosition) \<leftarrow> parseNodeID;
          u \<leftarrow> ls_current;
          (if tk_kind u = tokenRepeat
           then once hasRepeat ''loop.structure.repeat-count'' ''exactly one repeat is allowed'' childID st (do {
             set_positions (\<lambda>q. q\<lparr>pos_repeat := childPosition\<rparr>);
             rp \<leftarrow> parseRepeat secret childID;
             State_Monad.return (lp\<lparr>Repeat := rp\<rparr>, hasLimits, True, hasFailure)
           })
           else do {
             failCurrent ''loop.syntax.unknown'' ''unknown attributed loop node'' childID;
             State_Monad.return st
           })
        }
      | tokenLimits \<Rightarrow>
          once hasLimits ''loop.structure.limits-count'' ''exactly one limits declaration is allowed'' [] st (do {
            set_positions (\<lambda>q. q\<lparr>pos_limits := positionOf t\<rparr>);
            lim \<leftarrow> parseLimits;
            State_Monad.return (lp\<lparr>Limits := lim\<rparr>, True, hasRepeat, hasFailure)
          })
      | tokenOnFailure \<Rightarrow>
          once hasFailure ''loop.structure.failure-count'' ''exactly one failure policy is allowed'' [] st (do {
            set_positions (\<lambda>q. q\<lparr>pos_failure := positionOf t\<rparr>);
            policy \<leftarrow> parseFailurePolicy;
            State_Monad.return (lp\<lparr>FailurePolicy := policy\<rparr>, hasLimits, hasRepeat, True)
          })
      | tokenRepeat \<Rightarrow> do {
          failCurrent ''loop.node-id.missing'' ''node must be preceded by @id(...)'' [];
          State_Monad.return st
        }
      | _ \<Rightarrow> do {
          failCurrent ''loop.syntax.unknown'' ''unknown loop syntax'' [];
          State_Monad.return st
        })
   })"

lemma shrinks_repeat_loop: "shrinks (State (repeat_loop secret nodeID st))"
proof -
  have "length (unread (snd (repeat_loop secret nodeID st p))) \<le> length (unread p) \<and>
      (failed p \<longrightarrow> failed (snd (repeat_loop secret nodeID st p)))" for p
  proof (induction secret nodeID st p rule: repeat_loop.induct)
    case (1 secret nodeID st p)
    obtain st' p' where step: "run_state (repeat_step secret nodeID st) p = (st', p')" by fastforce
    have "length (unread p') \<le> length (unread p)"
      using takes_repeat_step step unfolding takes_def shrinks_def by blast
    then show ?case
      using 1 step not_block_ends by (subst (1 2) repeat_loop.simps) fastforce
  qed
  then show ?thesis by (auto simp: shrinks_def) (metis snd_conv)+
qed

lemma shrinks_parseRepeat [shrink_intros]: "shrinks (parseRepeat secret nodeID)"
  unfolding parseRepeat_def by (intro shrink_intros shrinks_repeat_loop)

lemma takes_limits_failure: "takes parseLimits" "takes parseFailurePolicy"
  unfolding parseLimits_def parseFailurePolicy_def by (intro takes_bind takes_expect shrink_intros; simp)+

lemma takes_once: "takes body \<Longrightarrow> takes (once again c m node st body)"
  unfolding once_def by (intro takes_if takes_bind [OF failCurrent_fails] shrink_intros)

lemma takes_program_step: "takes (program_step secret st)"
proof -
  have at: "takes (parseNodeID \<bind> f)" if "\<And>x. shrinks (f x)" for f :: "str \<times> sourcePosition \<Rightarrow> program_state parse"
    using takes_parseNodeID that by (intro takes_bind)
  note fails = takes_bind [OF failCurrent_fails shrinks_return]
  show ?thesis
    unfolding program_step_def
    apply (intro takes_prod takes_after_look)
    subgoal for lp rest hasLimits rest' hasRepeat hasFailure t
      by (cases "tk_kind t")
        (simp_all add: fails takes_once takes_after_note takes_bind takes_limits_failure shrinks_return at once_def shrink_intros
          split: prod.split)
    done
qed

function program_loop :: "(str \<Rightarrow> bool) \<Rightarrow> program_state \<Rightarrow> loop_parser \<Rightarrow> program_state \<times> loop_parser" where
  "program_loop secret st p =
     (if block_ends p then (st, p)
      else (case run_state (program_step secret st) p of (st', p') \<Rightarrow> program_loop secret st' p'))"
  by pat_completeness auto
termination
proof (relation "measure (\<lambda>(_, _, p). if failed p then 0 else Suc (length (unread p)))", goal_cases)
  case (2 secret st p x y)
  show ?case
    using takes_step [OF takes_program_step sym [OF 2(2)] not_block_ends [OF 2(1)]] not_block_ends [OF 2(1)] by simp
qed simp

declare program_loop.simps [simp del]

definition failMissingStructure :: "bool \<Rightarrow> bool \<Rightarrow> bool \<Rightarrow> unit parse" where
  "failMissingStructure hasLimits hasRepeat hasFailure =
     (if \<not> hasLimits then failCurrent ''loop.structure.limits-count'' ''exactly one limits declaration is required'' []
      else if \<not> hasRepeat then failCurrent ''loop.structure.repeat-count'' ''exactly one repeat is required'' []
      else if \<not> hasFailure then failCurrent ''loop.structure.failure-count'' ''exactly one failure policy is required'' []
      else State_Monad.return ())"

definition has_failed :: "bool parse" where
  "has_failed = State (\<lambda>p. (failed p, p))"

definition loop_parseProgram :: "(str \<Rightarrow> bool) \<Rightarrow> loop_program option parse" where
  "loop_parseProgram secret = do {
     (nodeID, nodePosition) \<leftarrow> parseNodeID;
     f \<leftarrow> has_failed;
     if f then State_Monad.return None
     else do {
       set_positions (\<lambda>q. q\<lparr>pos_loop := nodePosition\<rparr>);
       ls_expect tokenLoop;
       localID \<leftarrow> takeIdentifier;
       ls_expect tokenLBrace;
       (lp, hasLimits, hasRepeat, hasFailure) \<leftarrow> State (program_loop secret
          (\<lparr>Loop_NodeID = nodeID, Loop_LocalID = localID, Limits = no_limits, Repeat = no_repeat, FailurePolicy = []\<rparr>,
           False, False, False));
       ls_expect tokenRBrace;
       ls_expect tokenEOF;
       g \<leftarrow> has_failed;
       if g then State_Monad.return None
       else if \<not> hasLimits \<or> \<not> hasRepeat \<or> \<not> hasFailure
       then do {
         failMissingStructure hasLimits hasRepeat hasFailure;
         State_Monad.return None
       }
       else State_Monad.return (Some \<lparr>SchemaVersion = 1, Loop = lp\<rparr>)
     }
   }"

definition new_parser :: "ls_token list \<Rightarrow> loop_parser" where
  "new_parser ts = \<lparr>unread = ts, eof_pos = positionOf (last ts), failure = None, semanticDiagnostics = [],
     positions = no_positions, redactions = no_redactions\<rparr>"

end
