(* ===== verification/Slugkit.thy ===== *)
theory Slugkit
  imports Prelude
begin

text \<open>
  Identifiers (backend/pkg/slugkit): the rule a slug satisfies, the sanitizer that makes one
  from a name, and the generator that finds one that is free. A slug is printed into URLs and DNS
  labels, so what reaches the database is what these functions let pass.
\<close>

datatype slug_error = ErrEmpty | ErrTooShort | ErrTooLong | ErrInvalidFormat | ErrReserved | ErrCollisionExhausted

definition MinLen :: nat where "MinLen = 2"
definition MaxLen :: nat where "MaxLen = 100"
definition DNSMaxLabelLen :: nat where "DNSMaxLabelLen = 63"
definition generatorMaxAttempts :: nat where "generatorMaxAttempts = 100"
definition suffixReserve :: nat where "suffixReserve = 4"

definition reserved :: "str list" where
  "reserved =
    [''auth'', ''forgot-password'', ''invite'', ''login'', ''logout'', ''onboarding'', ''register'',
     ''reset-password'', ''verify-email'', ''admin'', ''billing'', ''dashboard'', ''settings'', ''support'',
     ''about'', ''blog'', ''careers'', ''changelog'', ''demo'', ''docs'', ''enterprise'', ''mock-checkout'',
     ''offline'', ''popout'', ''privacy'', ''terms'', ''api'', ''app'', ''www'', ''organizations'', ''orgs'',
     ''personal'', ''runners'', ''agents'', ''me'', ''new'', ''null'', ''true'', ''false'', ''undefined'']"

definition IsReserved :: "str \<Rightarrow> bool" where
  "IsReserved s \<longleftrightarrow> s \<in> set reserved"

subsection \<open>The rule (rules.go)\<close>

definition is_slug_char :: "rune \<Rightarrow> bool" where
  "is_slug_char c \<longleftrightarrow> is_lower c \<or> is_digit c"

text \<open>The regular expression: segments of lower case letters and digits with single hyphens between.\<close>

definition slug_pattern :: "str \<Rightarrow> bool" where
  "slug_pattern s \<longleftrightarrow> list_all (\<lambda>w. w \<noteq> [] \<and> list_all is_slug_char w) (split_on (CHR ''-'') s)"

text \<open>The length of a Go string is that of its bytes.\<close>

definition slug_Validate :: "str \<Rightarrow> slug_error option" where
  "slug_Validate s =
     (if byte_len s = 0 then Some ErrEmpty
      else if byte_len s < MinLen then Some ErrTooShort
      else if byte_len s > MaxLen then Some ErrTooLong
      else if \<not> slug_pattern s then Some ErrInvalidFormat
      else if IsReserved s then Some ErrReserved
      else None)"

definition ValidateIdentifier :: "str \<Rightarrow> slug_error option" where
  "ValidateIdentifier v = (if v = [] then None else slug_Validate v)"

subsection \<open>The sanitizer (sanitize.go, dns.go)\<close>

text \<open>The maximal runs of other runes become one hyphen.\<close>

function nonAlnum_replace :: "str \<Rightarrow> str" where
  "nonAlnum_replace s =
     (case s of
        [] \<Rightarrow> []
      | c # cs \<Rightarrow> if is_slug_char c then c # nonAlnum_replace cs
                  else CHR ''-'' # nonAlnum_replace (dropWhile (\<lambda>d. \<not> is_slug_char d) cs))"
  by pat_completeness auto
termination by (relation "measure length") (auto simp: le_imp_less_Suc length_dropWhile_le)

declare nonAlnum_replace.simps [simp del]

definition is_dash :: "rune \<Rightarrow> bool" where
  "is_dash c \<longleftrightarrow> c = CHR ''-''"

definition Sanitize :: "str \<Rightarrow> str" where
  "Sanitize raw =
     (let s = trim_fn is_dash (nonAlnum_replace (to_lower (trim_space raw)))
      in if byte_len s > MaxLen then trim_right_fn is_dash (take MaxLen s) else s)"

definition SanitizeAndValidate :: "str \<Rightarrow> slug_error + str" where
  "SanitizeAndValidate raw =
     (let s = Sanitize raw in case slug_Validate s of Some e \<Rightarrow> Inl e | None \<Rightarrow> Inr s)"

definition SanitizeDNS :: "str \<Rightarrow> str" where
  "SanitizeDNS raw =
     (let s = Sanitize raw
      in if byte_len s > DNSMaxLabelLen then trim_right_fn is_dash (take DNSMaxLabelLen s) else s)"

subsection \<open>The generator (generator.go)\<close>

text \<open>The check of a candidate is the caller's; it answers whether the candidate is free, or fails.\<close>

datatype 'e gen_error = SlugErr slug_error | CheckErr 'e

definition candidate :: "str \<Rightarrow> nat \<Rightarrow> str" where
  "candidate base i = (if i > 0 then base @ ''-'' @ show_nat (i + 1) else base)"

fun try_candidates :: "(str \<Rightarrow> 'e + bool) \<Rightarrow> str \<Rightarrow> nat list \<Rightarrow> 'e gen_error + str" where
  "try_candidates check base [] = Inl (SlugErr ErrCollisionExhausted)"
| "try_candidates check base (i # is) =
     (let c = candidate base i
      in if slug_Validate c \<noteq> None then try_candidates check base is
         else (case check c of
                 Inl e \<Rightarrow> Inl (CheckErr e)
               | Inr ok \<Rightarrow> if ok then Inr c else try_candidates check base is))"

definition safe_base :: "str \<Rightarrow> slug_error + str" where
  "safe_base base =
     (if byte_len base > MaxLen - suffixReserve
      then (let t = trim_right_fn is_dash (take (MaxLen - suffixReserve) base)
            in case slug_Validate t of Some e \<Rightarrow> Inl e | None \<Rightarrow> Inr t)
      else Inr base)"

definition GenerateUnique :: "(str \<Rightarrow> 'e + bool) \<Rightarrow> str \<Rightarrow> 'e gen_error + str" where
  "GenerateUnique check raw =
     (case SanitizeAndValidate raw of
        Inl e \<Rightarrow> Inl (SlugErr e)
      | Inr base \<Rightarrow>
        (case safe_base base of
           Inl e \<Rightarrow> Inl (SlugErr e)
         | Inr b \<Rightarrow> try_candidates check b [0..<generatorMaxAttempts]))"

definition FromExistsCheck :: "(str \<Rightarrow> 'e + bool) \<Rightarrow> str \<Rightarrow> 'e + bool" where
  "FromExistsCheck taken c = (case taken c of Inl e \<Rightarrow> Inl e | Inr b \<Rightarrow> Inr (\<not> b))"

fun TrySeeds :: "(str \<Rightarrow> 'e + bool) \<Rightarrow> str list \<Rightarrow> str option" where
  "TrySeeds check [] = None"
| "TrySeeds check (seed # seeds) =
     (if seed = [] then TrySeeds check seeds
      else (case GenerateUnique check seed of Inr s \<Rightarrow> Some s | Inl _ \<Rightarrow> TrySeeds check seeds))"

subsection \<open>What the rule accepts\<close>

text \<open>The rule read from the left: \<open>d\<close> says that a hyphen may not come next.\<close>

fun seg_ok :: "bool \<Rightarrow> str \<Rightarrow> bool" where
  "seg_ok d [] = (\<not> d)"
| "seg_ok d (c # cs) = (if is_dash c then \<not> d \<and> seg_ok True cs else is_slug_char c \<and> seg_ok False cs)"

text \<open>The same without a condition at the end.\<close>

fun seg_prefix :: "bool \<Rightarrow> str \<Rightarrow> bool" where
  "seg_prefix d [] = True"
| "seg_prefix d (c # cs) = (if is_dash c then \<not> d \<and> seg_prefix True cs else is_slug_char c \<and> seg_prefix False cs)"

lemma dash_not_slug_char: "is_slug_char c \<Longrightarrow> \<not> is_dash c"
  by (auto simp: is_slug_char_def is_dash_def is_lower_def is_digit_def less_eq_char_def)

lemma split_on_ne: "split_on sep s \<noteq> []"
  by (induction s) (auto split: list.splits)

lemma seg_ok_split:
  "(case split_on (CHR ''-'') s of w # ws \<Rightarrow> (d \<longrightarrow> w \<noteq> []) \<and> list_all is_slug_char w \<and>
      list_all (\<lambda>w. w \<noteq> [] \<and> list_all is_slug_char w) ws | [] \<Rightarrow> False) = seg_ok d s"
proof (induction s arbitrary: d)
  case (Cons c s)
  then show ?case
    using split_on_ne [of "CHR ''-''" s] Cons.IH [of True] Cons.IH [of False]
    by (cases "split_on (CHR ''-'') s") (auto simp: is_dash_def)
qed simp

lemma slug_pattern_seg: "slug_pattern s \<longleftrightarrow> seg_ok True s"
  using seg_ok_split [where s = s and d = True] split_on_ne [of "CHR ''-''" s]
  by (cases "split_on (CHR ''-'') s") (auto simp: slug_pattern_def)

lemma seg_ok_prefix: "seg_ok d s \<Longrightarrow> seg_prefix d s"
  by (induction d s rule: seg_ok.induct) (auto split: if_splits)

lemma seg_prefix_take: "seg_prefix d s \<Longrightarrow> prefix t s \<Longrightarrow> seg_prefix d t"
  by (induction d s arbitrary: t rule: seg_prefix.induct) (auto simp: prefix_Cons split: if_splits)

lemma seg_prefix_last: "seg_prefix d s \<Longrightarrow> s \<noteq> [] \<Longrightarrow> \<not> is_dash (last s) \<Longrightarrow> seg_ok d s"
  by (induction d s rule: seg_prefix.induct) (auto split: if_splits)

lemma seg_ok_append: "seg_ok d s \<Longrightarrow> seg_ok True t \<Longrightarrow> seg_ok d (s @ CHR ''-'' # t)"
  by (induction d s rule: seg_ok.induct) (auto simp: is_dash_def)

lemma seg_ok_chars: "list_all is_slug_char s \<Longrightarrow> s \<noteq> [] \<or> \<not> d \<Longrightarrow> seg_ok d s"
  by (induction s arbitrary: d) (auto dest: dash_not_slug_char)

lemma seg_prefix_ascii: "seg_prefix d s \<Longrightarrow> list_all (\<lambda>c. is_slug_char c \<or> is_dash c) s"
  by (induction d s rule: seg_prefix.induct) (auto split: if_splits)

lemma slug_char_facts:
  assumes "is_slug_char c \<or> is_dash c"
  shows "code c < 128" "rune_lower c = c" "\<not> unicode_is_space c"
  using assms
  by (auto simp: is_slug_char_def is_dash_def is_lower_def is_digit_def code_def rune_lower_def is_upper_def
      unicode_is_space_def less_eq_char_def)

lemma byte_len_ascii: "list_all (\<lambda>c. code c < 128) s \<Longrightarrow> byte_len s = length s"
  by (induction s) (auto simp: byte_len_def)

lemma byte_len_slug: "seg_prefix d s \<Longrightarrow> byte_len s = length s"
  using seg_prefix_ascii slug_char_facts(1) by (intro byte_len_ascii) (auto simp: list_all_iff)

lemma Validate_None:
  "slug_Validate s = None \<longleftrightarrow> seg_ok True s \<and> 2 \<le> length s \<and> length s \<le> 100 \<and> \<not> IsReserved s"
  using byte_len_slug [of True s] seg_ok_prefix [of True s]
  by (auto simp: slug_Validate_def MinLen_def MaxLen_def slug_pattern_seg)

subsection \<open>What the sanitizer makes\<close>

lemma hd_trim: "s \<noteq> [] \<Longrightarrow> dropWhile p s \<noteq> [] \<Longrightarrow> \<not> p (hd (dropWhile p s))"
  by (rule hd_dropWhile)

lemma trim_right_last: "trim_right_fn p s \<noteq> [] \<Longrightarrow> \<not> p (last (trim_right_fn p s))"
  using hd_dropWhile [of p "rev s"] by (simp add: trim_right_fn_def last_rev)

lemma slug_trim_right_prefix: "prefix (trim_right_fn p s) s"
  using suffix_dropWhile [of p "rev s"] by (simp add: trim_right_fn_def suffix_to_prefix)

lemma trim_right_keep: "s = [] \<or> \<not> p (last s) \<Longrightarrow> trim_right_fn p s = s"
  by (cases s rule: rev_cases) (auto simp: trim_right_fn_def)

lemma nonAlnum_prefix: "seg_prefix False (nonAlnum_replace s)"
proof (induction s rule: nonAlnum_replace.induct)
  case (1 s)
  show ?case
  proof (cases s)
    case (Cons c cs)
    let ?r = "dropWhile (\<lambda>d. \<not> is_slug_char d) cs"
    have start: "seg_prefix True (nonAlnum_replace ?r)" if "seg_prefix False (nonAlnum_replace ?r)"
    proof (cases ?r)
      case Nil
      show ?thesis unfolding Nil by (simp add: nonAlnum_replace.simps)
    next
      case (Cons d ds)
      then have "is_slug_char d" using hd_dropWhile [of "\<lambda>d. \<not> is_slug_char d" cs] by simp
      then show ?thesis
        using that dash_not_slug_char by (simp add: Cons nonAlnum_replace.simps [of "d # ds"])
    qed
    show ?thesis
      using 1 start dash_not_slug_char Cons
      by (cases "is_slug_char c") (auto simp: nonAlnum_replace.simps [of "c # cs"] is_dash_def)
  qed (simp add: nonAlnum_replace.simps)
qed

lemma dropWhile_seg: "seg_prefix d s \<Longrightarrow> seg_prefix True (dropWhile is_dash s)"
  by (induction d s rule: seg_prefix.induct) (auto split: if_splits)

lemma trim_right_seg:
  assumes "seg_prefix True s"
  shows "trim_right_fn is_dash s = [] \<or> seg_ok True (trim_right_fn is_dash s)"
  using seg_prefix_take [OF assms slug_trim_right_prefix] trim_right_last seg_prefix_last by blast

lemma Sanitize_shape: "(Sanitize raw = [] \<or> seg_ok True (Sanitize raw)) \<and> length (Sanitize raw) \<le> 100"
proof -
  let ?n = "nonAlnum_replace (to_lower (trim_space raw))"
  let ?s = "trim_fn is_dash ?n"
  have s: "?s = [] \<or> seg_ok True ?s"
    using trim_right_seg [OF dropWhile_seg [OF nonAlnum_prefix]] by (simp add: trim_fn_def)
  then have p: "seg_prefix True ?s" using seg_ok_prefix by fastforce
  have t: "seg_prefix True (take 100 ?s)" using seg_prefix_take [OF p take_is_prefix] .
  have "length (trim_right_fn is_dash (take 100 ?s)) \<le> 100"
    using prefix_length_le [OF slug_trim_right_prefix, of is_dash "take 100 ?s"] by simp
  then show ?thesis
    using s trim_right_seg [OF t] byte_len_slug [OF p] by (auto simp: Sanitize_def Let_def MaxLen_def)
qed

text \<open>A text that follows the rule is its own slug.\<close>

lemma nonAlnum_keep: "seg_ok d s \<Longrightarrow> nonAlnum_replace s = s"
proof (induction d s rule: seg_ok.induct)
  case (2 d c cs)
  then show ?case
    using dash_not_slug_char
    by (cases cs) (auto simp: nonAlnum_replace.simps [of "c # _"] is_dash_def split: if_splits)
qed (simp add: nonAlnum_replace.simps)

lemma dropWhile_keep: "s = [] \<or> \<not> p (hd s) \<Longrightarrow> dropWhile p s = s"
  by (cases s) auto

lemma seg_ok_last: "seg_ok d s \<Longrightarrow> s \<noteq> [] \<Longrightarrow> \<not> is_dash (last s)"
  by (induction d s rule: seg_ok.induct) (auto split: if_splits)

lemma Sanitize_keeps: "seg_ok True s \<Longrightarrow> length s \<le> 100 \<Longrightarrow> Sanitize s = s"
proof -
  assume ok: "seg_ok True s" and len: "length s \<le> 100"
  have all: "list_all (\<lambda>c. is_slug_char c \<or> is_dash c) s" by (rule seg_prefix_ascii [OF seg_ok_prefix [OF ok]])
  then have "to_lower s = s" using slug_char_facts(2) by (auto simp: to_lower_def list_all_iff intro!: map_idI)
  moreover have "trim_space s = s"
    using all slug_char_facts(3)
    by (cases "s = []") (auto simp: trim_space_def trim_fn_def list_all_iff dropWhile_keep intro!: trim_right_keep)
  moreover have "\<not> is_dash (hd s)" "s \<noteq> []" using ok by (cases s; auto split: if_splits)+
  moreover have "\<not> is_dash (last s)" using seg_ok_last [OF ok] ok by (cases s) auto
  ultimately show ?thesis
    using len byte_len_slug [OF seg_ok_prefix [OF ok]] nonAlnum_keep [OF ok]
    by (simp add: Sanitize_def Let_def trim_fn_def dropWhile_keep trim_right_keep MaxLen_def)
qed

lemma SanitizeAndValidate_cases:
  "SanitizeAndValidate raw =
     (if Sanitize raw = [] then Inl ErrEmpty
      else if length (Sanitize raw) < 2 then Inl ErrTooShort
      else if IsReserved (Sanitize raw) then Inl ErrReserved
      else Inr (Sanitize raw))"
proof -
  have "byte_len [] = 0" by (simp add: byte_len_def)
  moreover have "byte_len (Sanitize raw) = length (Sanitize raw)" "slug_pattern (Sanitize raw)"
    if "Sanitize raw \<noteq> []"
    using that Sanitize_shape [of raw] byte_len_slug [OF seg_ok_prefix] by (auto simp: slug_pattern_seg)
  ultimately show ?thesis
    using Sanitize_shape [of raw]
    by (cases "Sanitize raw = []") (auto simp: SanitizeAndValidate_def slug_Validate_def MinLen_def MaxLen_def Let_def)
qed

subsection \<open>The generator finds a free slug\<close>

lemma suffix_slug: "list_all (\<lambda>i. list_all is_digit (show_nat (i + 1)) \<and> show_nat (i + 1) \<noteq> []
    \<and> length (show_nat (i + 1)) \<le> 3) [0..<100]"
  by code_simp

lemma reserved_facts: "list_all (\<lambda>w. length w < 16 \<and> list_all (\<lambda>c. \<not> is_digit c) w) reserved"
  by code_simp

lemma candidate_valid:
  assumes "slug_Validate b = None" "length b \<le> 96" "i < 100"
  shows "slug_Validate (candidate b i) = None"
proof (cases "i = 0")
  case False
  let ?n = "show_nat (i + 1)"
  have n: "list_all is_digit ?n" "?n \<noteq> []" "length ?n \<le> 3"
    using suffix_slug assms(3) by (auto simp: list_all_iff)
  have "seg_ok True ?n" using n(1,2) by (intro seg_ok_chars) (auto simp: is_slug_char_def list_all_iff)
  then have "seg_ok True (b @ CHR ''-'' # ?n)" using assms(1) by (intro seg_ok_append) (simp_all add: Validate_None)
  moreover have "\<not> IsReserved (b @ CHR ''-'' # ?n)"
    using reserved_facts n(1,2) by (cases ?n) (auto simp: IsReserved_def list_all_iff)
  ultimately show ?thesis using False assms n by (simp add: candidate_def Validate_None)
qed (use assms(1) in \<open>simp add: candidate_def\<close>)

lemma seg_prefix_snoc: "seg_prefix d (t @ [y]) \<Longrightarrow> is_dash y \<Longrightarrow> t \<noteq> [] \<Longrightarrow> \<not> is_dash (last t)"
  by (induction d t rule: seg_prefix.induct) (auto split: if_splits)

lemma trim_dash_length:
  assumes "seg_prefix d s"
  shows "length s \<le> Suc (length (trim_right_fn is_dash s))"
proof (cases s rule: rev_cases)
  case (snoc t y)
  show ?thesis
  proof (cases "is_dash y")
    case True
    then have "trim_right_fn is_dash s = trim_right_fn is_dash t" by (simp add: snoc trim_right_fn_def)
    also have "\<dots> = t" using seg_prefix_snoc assms True snoc by (intro trim_right_keep) blast
    finally show ?thesis by (simp add: snoc)
  qed (simp add: snoc trim_right_keep)
qed simp

lemma safe_base_valid:
  assumes "slug_Validate b = None"
  shows "\<exists>t. safe_base b = Inr t \<and> slug_Validate t = None \<and> length t \<le> 96 \<and> prefix t b"
proof (cases "length b \<le> 96")
  case True
  then show ?thesis
    using assms byte_len_slug [OF seg_ok_prefix]
    by (auto simp: safe_base_def Validate_None MaxLen_def suffixReserve_def)
next
  case False
  let ?t = "trim_right_fn is_dash (take 96 b)"
  have ok: "seg_prefix True (take 96 b)" using assms seg_prefix_take [OF seg_ok_prefix take_is_prefix] by (simp add: Validate_None)
  have len: "95 \<le> length ?t" "length ?t \<le> 96"
    using trim_dash_length [OF ok] prefix_length_le [OF slug_trim_right_prefix, of is_dash "take 96 b"] False by auto
  then have "seg_ok True ?t" using trim_right_seg [OF ok] by auto
  moreover have "\<not> IsReserved ?t" using reserved_facts len by (auto simp: IsReserved_def list_all_iff)
  moreover have "prefix ?t b" using slug_trim_right_prefix take_is_prefix prefix_order.trans by blast
  ultimately have t: "slug_Validate ?t = None" "prefix ?t b" using len by (simp_all add: Validate_None)
  have "byte_len b = length b" using assms byte_len_slug seg_ok_prefix Validate_None by metis
  then have "safe_base b = Inr ?t" using False t(1) by (simp add: safe_base_def MaxLen_def suffixReserve_def)
  then show ?thesis using t len(2) by blast
qed

lemma try_candidates_correct:
  assumes "\<And>i. i \<in> set is \<Longrightarrow> slug_Validate (candidate b i) = None"
  shows "case try_candidates check b is of
      Inr c \<Rightarrow> c \<in> candidate b ` set is \<and> check c = Inr True
    | Inl (CheckErr e) \<Rightarrow> (\<exists>c\<in>candidate b ` set is. check c = Inl e)
    | Inl (SlugErr e) \<Rightarrow> e = ErrCollisionExhausted \<and> (\<forall>c\<in>candidate b ` set is. check c = Inr False)"
  using assms
proof (induction "is")
  case (Cons i "is")
  then show ?case
    by (cases "try_candidates check b is"; cases "check (candidate b i)")
      (auto simp: Let_def split: gen_error.splits)
qed simp

text \<open>C24. A slug that the generator returns satisfies the rule and was reported free; when it reports that
  it found none, each of the hundred candidates, all of them slugs, was reported taken; an error of the
  caller's check is passed on; and the only other errors are those of a name whose sanitized form is
  empty, too short or reserved: no name makes it stop with a wrong format, a length or a failed truncation.\<close>

theorem GenerateUnique_correct:
  "case GenerateUnique check raw of
     Inr c \<Rightarrow> slug_Validate c = None \<and> check c = Inr True
   | Inl (CheckErr e) \<Rightarrow> (\<exists>c. slug_Validate c = None \<and> check c = Inl e)
   | Inl (SlugErr e) \<Rightarrow>
       (if e = ErrCollisionExhausted
        then (\<exists>b. prefix b (Sanitize raw) \<and> list_all (\<lambda>i. slug_Validate (candidate b i) = None \<and> check (candidate b i) = Inr False)
               [0..<generatorMaxAttempts])
        else (e = ErrEmpty \<and> Sanitize raw = []) \<or> (e = ErrTooShort \<and> length (Sanitize raw) = 1)
           \<or> (e = ErrReserved \<and> IsReserved (Sanitize raw)))"
proof (cases "SanitizeAndValidate raw")
  case (Inl e)
  then show ?thesis
    by (cases "Sanitize raw = []") (auto simp: GenerateUnique_def SanitizeAndValidate_cases less_2_cases_iff split: if_splits)
next
  case (Inr base)
  then have base: "base = Sanitize raw" "slug_Validate base = None"
    by (auto simp: SanitizeAndValidate_def Let_def split: option.splits)
  then obtain b where b: "safe_base base = Inr b" "slug_Validate b = None" "length b \<le> 96" "prefix b base"
    using safe_base_valid by blast
  have valid: "slug_Validate (candidate b i) = None" if "i < 100" for i using candidate_valid b that by blast
  have "GenerateUnique check raw = try_candidates check b [0..<generatorMaxAttempts]"
    using Inr b(1) by (simp add: GenerateUnique_def)
  moreover note try_candidates_correct [of "[0..<generatorMaxAttempts]" b check]
  ultimately show ?thesis
    using valid b(4) base(1)
    by (fastforce simp: list_all_iff generatorMaxAttempts_def split: sum.splits gen_error.splits)
qed

end
