(* ===== verification/LoopScript.thy ===== *)
theory LoopScript
  imports LoopParser Slugkit
begin

text \<open>
  Loop scripts (backend/internal/loopscript): validation, the analysis of a source text, the
  canonical printer and the compiler to the launch specification of a goal loop; and the rules by
  which the goal loop service (backend/internal/service/goalloop) accepts a draft a model has changed.
\<close>

subsection \<open>Validation (validation.go, validation_values.go)\<close>

definition diagnosticForField :: "str \<Rightarrow> str \<Rightarrow> str \<Rightarrow> str \<Rightarrow> sourcePosition \<Rightarrow> diagnostic" where
  "diagnosticForField c m node path pos = (newDiagnostic c m node pos)\<lparr>Diag_FieldPath := path\<rparr>"

definition slug_error_text :: "slug_error \<Rightarrow> str" where
  "slug_error_text e = (case e of
       ErrEmpty \<Rightarrow> ''slug: empty''
     | ErrTooShort \<Rightarrow> ''slug: too short''
     | ErrTooLong \<Rightarrow> ''slug: too long''
     | ErrInvalidFormat \<Rightarrow> ''slug: invalid format''
     | ErrReserved \<Rightarrow> ''slug: reserved word''
     | ErrCollisionExhausted \<Rightarrow> ''slug: unable to find unique slug after retries'')"

definition invalid_identifier :: "str \<Rightarrow> str \<Rightarrow> sourcePosition \<Rightarrow> diagnostic list" where
  "invalid_identifier v node pos =
     (case slug_Validate v of
        None \<Rightarrow> []
      | Some e \<Rightarrow> [newDiagnostic ''loop.identifier.invalid''
          (''identifier '' @ strconv_quote v @ '' is invalid: '' @ slug_error_text e) node pos])"

definition programNodes :: "loop_program \<Rightarrow> programPositions \<Rightarrow> (str \<times> str \<times> sourcePosition) list" where
  "programNodes prog q =
     (let lp = Loop prog; rp = Repeat lp
      in [(Loop_NodeID lp, Loop_LocalID lp, pos_loop q),
          (Repeat_NodeID rp, Repeat_LocalID rp, pos_repeat q),
          (Agent_NodeID (Agent rp), Agent_LocalID (Agent rp), pos_agent q),
          (Verifier_NodeID (Verifier rp), Verifier_LocalID (Verifier rp), pos_verifier q)])"

definition duplicate_node :: "str \<Rightarrow> str set \<Rightarrow> sourcePosition \<Rightarrow> diagnostic list" where
  "duplicate_node node seen pos =
     (if node \<in> seen
      then [newDiagnostic ''loop.node-id.duplicate'' (''duplicate node id '' @ strconv_quote node) node pos] else [])"

text \<open>The loop over the nodes, with the identifiers seen so far; it gives the node identifiers at the end.\<close>

fun check_nodes :: "(str \<times> str \<times> sourcePosition) list \<Rightarrow> str set \<Rightarrow> str set \<Rightarrow> diagnostic list \<times> str set" where
  "check_nodes [] seenNode seenLocal = ([], seenNode)"
| "check_nodes ((node, loc, pos) # ns) seenNode seenLocal =
     (let d1 = (if node = []
                then [newDiagnostic ''loop.node-id.missing'' ''every node requires @id(...)'' [] pos]
                else invalid_identifier node node pos @ duplicate_node node seenNode pos);
          d2 = invalid_identifier loc node pos;
          d3 = (if loc \<in> seenLocal
                then [newDiagnostic ''loop.local-id.duplicate'' (''duplicate local id '' @ strconv_quote loc) node pos]
                else []);
          (ds, seen) = check_nodes ns (if node = [] then seenNode else insert node seenNode) (insert loc seenLocal)
      in (d1 @ d2 @ d3 @ ds, seen))"

definition is_digest :: "str \<Rightarrow> bool" where
  "is_digest s \<longleftrightarrow> length s = 64 \<and> list_all (\<lambda>c. is_digit c \<or> (CHR ''a'' \<le> c \<and> c \<le> CHR ''f'')) s"

definition customBlockDiagnostics :: "custom_block option \<Rightarrow> str set \<Rightarrow> programPositions \<Rightarrow> diagnostic list" where
  "customBlockDiagnostics custom seen q =
     (case custom of
        None \<Rightarrow> []
      | Some c \<Rightarrow>
        (let pos = pos_customBlock q; node = Custom_NodeID c
         in (if node = []
             then [newDiagnostic ''loop.custom-block.node-id.required'' ''custom block node id is required'' [] pos]
             else invalid_identifier node node pos @ duplicate_node node seen pos)
          @ (if DefinitionID c = []
             then [newDiagnostic ''loop.custom-block.definition-id.required'' ''custom block definition id is required'' node pos]
             else [])
          @ invalid_identifier (Custom_Slug c) node pos
          @ (if Custom_Version c < 1
             then [diagnosticForField ''loop.custom-block.version.invalid'' ''custom block version must be positive'' node
                     ''repeat.custom_block.version'' pos]
             else [])
          @ (if \<not> is_digest (DefinitionDigest c)
             then [diagnosticForField ''loop.custom-block.digest.invalid''
                     ''custom block definition digest must be a lowercase SHA-256 hex value'' node
                     ''repeat.custom_block.definition_digest'' pos]
             else [])))"

definition max_int64 :: int where "max_int64 = 2 ^ 63 - 1"

text \<open>The table of appendRangeDiagnostics: name, value, minimum, maximum, node, position.\<close>

definition range_table :: "loop_node \<Rightarrow> programPositions \<Rightarrow> (str \<times> int \<times> int \<times> int \<times> str \<times> sourcePosition) list" where
  "range_table lp q =
     (let lim = Limits lp; rp = Repeat lp; ln = Loop_NodeID lp
      in [(''limits.iterations'', Iterations lim, 1, 100, ln, pos_limits q),
          (''limits.tokens'', Tokens lim, 1, max_int64, ln, pos_limits q),
          (''limits.timeout'', TimeoutMins lim, 1, 1440, ln, pos_limits q),
          (''limits.no_progress'', NoProgress lim, 1, 20, ln, pos_limits q),
          (''limits.same_error'', SameError lim, 1, 20, ln, pos_limits q),
          (''repeat.max'', Repeat_Max rp, 1, 100, Repeat_NodeID rp, pos_repeat q)])"

definition rangeDiagnostics :: "loop_node \<Rightarrow> programPositions \<Rightarrow> diagnostic list" where
  "rangeDiagnostics lp q =
     concat (map (\<lambda>(name, v, lo, hi, node, pos).
        if v < lo \<or> v > hi
        then [diagnosticForField ''loop.value.out-of-range''
                (name @ '' must be between '' @ show_int lo @ '' and '' @ show_int hi) node name pos]
        else []) (range_table lp q))"

definition text_table :: "loop_node \<Rightarrow> programPositions \<Rightarrow> textRedactions \<Rightarrow> (str \<times> str \<times> str \<times> sourcePosition \<times> bool) list" where
  "text_table lp q red =
     (let a = Agent (Repeat lp); v = Verifier (Repeat lp)
      in [(''agent prompt'', AgentPrompt a, Agent_NodeID a, pos_agent q, red_agentPrompt red),
          (''verifier command'', Verifier_Command v, Verifier_NodeID v, pos_verifier q, red_verifierCommand red),
          (''verifier acceptance'', Verifier_Accept v, Verifier_NodeID v, pos_verifier q, red_verifierAccept red)])"

definition textDiagnostics :: "(str \<Rightarrow> bool) \<Rightarrow> loop_node \<Rightarrow> programPositions \<Rightarrow> textRedactions \<Rightarrow> diagnostic list" where
  "textDiagnostics secret lp q red =
     concat (map (\<lambda>(name, v, node, pos, redacted).
        if redacted then []
        else if secret v then [newDiagnostic ''loop.secret.literal-forbidden'' ''secret literals are forbidden'' node pos]
        else if trim_space v = [] then [newDiagnostic ''loop.text.empty'' (name @ '' must not be empty'') node pos]
        else []) (text_table lp q red))"

definition validateProgram :: "(str \<Rightarrow> bool) \<Rightarrow> loop_program option \<Rightarrow> programPositions \<Rightarrow> textRedactions \<Rightarrow> diagnostic list" where
  "validateProgram secret program q red =
     (case program of
        None \<Rightarrow> [newDiagnostic ''loop.program.nil'' ''program is required'' [] (0, 0)]
      | Some prog \<Rightarrow>
        (let lp = Loop prog; rp = Repeat lp; (ds, seen) = check_nodes (programNodes prog q) {} {}
         in (if SchemaVersion prog \<noteq> 1
             then [newDiagnostic ''loop.schema-version.unsupported'' ''schema version must be 1'' (Loop_NodeID lp) (pos_loop q)]
             else [])
          @ ds
          @ customBlockDiagnostics (CustomBlock rp) seen q
          @ rangeDiagnostics lp q
          @ (if RefLocalID (Until rp) \<noteq> Verifier_LocalID (Verifier rp) \<or> RefField (Until rp) \<noteq> ''passed''
             then [newDiagnostic ''loop.reference.until-invalid'' ''repeat until must equal <verify-local-id>.passed''
                     (Repeat_NodeID rp) (pos_repeat q)]
             else [])
          @ (if Repeat_Max rp > Iterations (Limits lp)
             then [diagnosticForField ''loop.repeat.max-exceeds-limit'' ''repeat max must not exceed limits.iterations''
                     (Repeat_NodeID rp) ''repeat.max'' (pos_repeat q)]
             else [])
          @ (if FailurePolicy lp \<noteq> FailurePause \<and> FailurePolicy lp \<noteq> FailureFail
             then [newDiagnostic ''loop.failure-policy.invalid'' ''failure policy must be pause or fail'' (Loop_NodeID lp)
                     (pos_failure q)]
             else [])
          @ textDiagnostics secret lp q red))"

subsection \<open>Analysis (parser.go)\<close>

text \<open>The result of a source is None when a string literal in it has a value beyond the model.\<close>

definition Analyze :: "(str \<Rightarrow> bool) \<Rightarrow> str \<Rightarrow> (loop_program option \<times> diagnostic list) option" where
  "Analyze secret source =
     (let ts = lex source
      in case List.find (\<lambda>t. tk_kind t = tokenIllegal) ts of
           Some t \<Rightarrow> Some (None, [newDiagnostic ''loop.syntax.invalid-token'' (tk_lit t) [] (positionOf t)])
         | None \<Rightarrow>
           if list_ex (\<lambda>t. tk_kind t = tokenBeyond) ts then None
           else (case run_state (loop_parseProgram secret) (new_parser ts) of (program, p) \<Rightarrow>
                   Some (case failure p of
                           Some d \<Rightarrow> (None, [d])
                         | None \<Rightarrow> (program, semanticDiagnostics p @ validateProgram secret program (positions p) (redactions p)))))"

definition loop_Parse :: "(str \<Rightarrow> bool) \<Rightarrow> str \<Rightarrow> (loop_program option \<times> diagnostic list) option" where
  "loop_Parse secret source =
     (case Analyze secret source of
        None \<Rightarrow> None
      | Some (program, ds) \<Rightarrow> Some (if ds \<noteq> [] then (None, ds) else (program, [])))"

subsection \<open>The printer (formatter.go)\<close>

definition formatPrompt :: "str \<Rightarrow> str" where
  "formatPrompt prompt =
     (if contains prompt triple \<or> has_suffix prompt [DQUOTE] \<or> has_prefix prompt '' '' \<or> has_suffix prompt '' ''
         \<or> contains prompt [NL]
      then strconv_quote prompt
      else triple @ prompt @ triple)"

definition format_custom :: "custom_block option \<Rightarrow> str" where
  "format_custom custom =
     (case custom of
        None \<Rightarrow> []
      | Some c \<Rightarrow> ''    custom_block(node_id: '' @ Custom_NodeID c @ '', definition_id: '' @ strconv_quote (DefinitionID c)
          @ '', slug: '' @ Custom_Slug c @ '', version: '' @ show_int (Custom_Version c)
          @ '', digest: '' @ strconv_quote (DefinitionDigest c) @ '')'' @ [NL])"

definition format_text :: "loop_program \<Rightarrow> str" where
  "format_text prog =
     (let lp = Loop prog; rp = Repeat lp; lim = Limits lp; a = Agent rp; v = Verifier rp
      in ''@id('' @ Loop_NodeID lp @ '')'' @ [NL]
       @ ''loop '' @ Loop_LocalID lp @ '' {'' @ [NL]
       @ ''  limits(iterations: '' @ show_int (Iterations lim) @ '', tokens: '' @ show_int (Tokens lim)
       @ '', timeout: '' @ show_int (TimeoutMins lim) @ ''m, no_progress: '' @ show_int (NoProgress lim)
       @ '', same_error: '' @ show_int (SameError lim) @ '')'' @ [NL]
       @ ''  @id('' @ Repeat_NodeID rp @ '')'' @ [NL]
       @ ''  repeat '' @ Repeat_LocalID rp @ ''(max: '' @ show_int (Repeat_Max rp) @ '', until: '' @ RefLocalID (Until rp)
       @ ''.'' @ RefField (Until rp) @ '') {'' @ [NL]
       @ format_custom (CustomBlock rp)
       @ ''    @id('' @ Agent_NodeID a @ '')'' @ [NL]
       @ ''    agent '' @ Agent_LocalID a @ '' { prompt '' @ formatPrompt (AgentPrompt a) @ '' }'' @ [NL]
       @ ''    @id('' @ Verifier_NodeID v @ '')'' @ [NL]
       @ ''    verify '' @ Verifier_LocalID v @ '' { command '' @ strconv_quote (Verifier_Command v)
       @ '' accept '' @ strconv_quote (Verifier_Accept v) @ '' }'' @ [NL]
       @ ''  }'' @ [NL]
       @ ''  on_failure '' @ FailurePolicy lp @ [NL]
       @ ''}'')"

definition loop_Format :: "(str \<Rightarrow> bool) \<Rightarrow> loop_program option \<Rightarrow> diagnostic list + str" where
  "loop_Format secret program =
     (case validateProgram secret program no_positions no_redactions of
        [] \<Rightarrow> (case program of None \<Rightarrow> Inr [] | Some prog \<Rightarrow> Inr (format_text prog))
      | d # ds \<Rightarrow> Inl (d # ds))"

subsection \<open>The compiler (compiler.go)\<close>

record launch_spec =
  Launch_Name :: str
  Launch_Slug :: str
  Objective :: str
  AcceptanceCriteria :: "str list"
  VerificationCommand :: str
  MaxIterations :: int
  TokenBudget :: int
  TimeoutMinutes :: int
  NoProgressLimit :: int
  SameErrorLimit :: int
  EscalationPolicy :: str

definition compiled :: "loop_program \<Rightarrow> launch_spec" where
  "compiled prog =
     (let lp = Loop prog; rp = Repeat lp; lim = Limits lp
      in \<lparr>Launch_Name = Loop_LocalID lp, Launch_Slug = Loop_LocalID lp, Objective = AgentPrompt (Agent rp),
          AcceptanceCriteria = [Verifier_Accept (Verifier rp)], VerificationCommand = Verifier_Command (Verifier rp),
          MaxIterations = Repeat_Max rp, TokenBudget = Tokens lim, TimeoutMinutes = TimeoutMins lim,
          NoProgressLimit = NoProgress lim, SameErrorLimit = SameError lim, EscalationPolicy = FailurePolicy lp\<rparr>)"

definition CompileGoalLoopV1 :: "(str \<Rightarrow> bool) \<Rightarrow> loop_program option \<Rightarrow> diagnostic list + launch_spec" where
  "CompileGoalLoopV1 secret program =
     (case validateProgram secret program no_positions no_redactions of
        d # ds \<Rightarrow> Inl (d # ds)
      | [] \<Rightarrow> (case program of None \<Rightarrow> Inl [] | Some prog \<Rightarrow> Inr (compiled prog)))"

end
