(* ===== verification/LoopScan.thy ===== *)
theory LoopScan
  imports LoopScript
begin

text \<open>
  What the lexer of the loop scripts makes of the pieces the printer writes: one lemma for each kind
  of token, and with them the tokens of the whole canonical text (\<open>scan_format\<close>).
\<close>

subsection \<open>Single tokens\<close>

lemma ls_scan_Nil: "ls_scan [] = [(tokenEOF, [])]"
  by (simp add: ls_scan.simps)

lemma scan_space: "unicode_is_space c \<Longrightarrow> ls_scan (c # s) = ls_scan s"
  by (subst ls_scan.simps) simp

lemma scan_item:
  assumes "s \<noteq> []" "\<not> unicode_is_space (hd s)" "next_item (s @ r) = (k, v, length s)"
  shows "ls_scan (s @ r) = (k, v) # ls_scan r"
proof -
  obtain c cs where "s = c # cs" using assms(1) by (cases s) auto
  then show ?thesis using assms by (subst ls_scan.simps) simp
qed

lemma rune_classes:
  assumes "isWordPart c"
  shows "\<not> unicode_is_space c" "c \<noteq> DQUOTE"
  using assms
  by (auto simp: isWordPart_def unicode_is_letter_def unicode_is_digit_def unicode_is_space_def is_lower_def
      is_upper_def is_digit_def less_eq_char_def)

lemma digit_part: "is_digit c \<Longrightarrow> isWordPart c"
  by (simp add: isWordPart_def unicode_is_digit_def)

lemma scan_symbol:
  assumes "symbolKind c = Some k"
  shows "ls_scan (c # s) = (k, [c]) # ls_scan s"
proof -
  have "c \<in> set (map fst symbols)"
    using assms by (auto simp: symbolKind_def dest!: map_of_SomeD intro: rev_image_eqI)
  moreover have "list_all (\<lambda>c. \<not> isWordStart c \<and> \<not> is_digit c \<and> c \<noteq> DQUOTE \<and> \<not> unicode_is_space c) (map fst symbols)"
    by code_simp
  ultimately have "\<not> isWordStart c" "\<not> is_digit c" "c \<noteq> DQUOTE" "\<not> unicode_is_space c"
    by (auto simp: list_all_iff)
  then show ?thesis
    using scan_item [of "[c]" s] assms by (simp add: next_item_def triple_def isASCIIDigit_def)
qed

lemma symbol_kinds:
  "symbolKind (CHR ''@'') = Some tokenAt" "symbolKind (CHR ''.'') = Some tokenDot" "symbolKind (CHR '','') = Some tokenComma"
  "symbolKind (CHR '':'') = Some tokenColon" "symbolKind (CHR ''('') = Some tokenLParen" "symbolKind (CHR '')'') = Some tokenRParen"
  "symbolKind (CHR ''{'') = Some tokenLBrace" "symbolKind (CHR ''}'') = Some tokenRBrace"
  by code_simp+

lemmas scan_symbols = scan_symbol [OF symbol_kinds(1)] scan_symbol [OF symbol_kinds(2)] scan_symbol [OF symbol_kinds(3)]
  scan_symbol [OF symbol_kinds(4)] scan_symbol [OF symbol_kinds(5)] scan_symbol [OF symbol_kinds(6)]
  scan_symbol [OF symbol_kinds(7)] scan_symbol [OF symbol_kinds(8)]

subsection \<open>Words\<close>

lemma takeWhile_part:
  "list_all P w \<Longrightarrow> r = [] \<or> \<not> P (hd r) \<Longrightarrow> takeWhile P (w @ r) = w \<and> dropWhile P (w @ r) = r"
  by (induction w) (cases r; auto)+

lemma not_starts_with_part: "\<not> starts_with_part r \<longleftrightarrow> r = [] \<or> \<not> isWordPart (hd r)"
  by (cases r) (auto simp: starts_with_part_def)

text \<open>The texts that the lexer reads as one identifier: words that are no keyword, no number and no duration.\<close>

definition readable :: "str \<Rightarrow> bool" where
  "readable s \<longleftrightarrow> s \<noteq> [] \<and> list_all isWordPart s \<and> s \<notin> fst ` set loop_keywords \<and>
     (let r = dropWhile is_digit s in r \<noteq> [] \<and> (is_digit (hd s) \<longrightarrow> r \<noteq> ''m''))"

lemma next_word:
  assumes "w \<noteq> []" "list_all isWordPart w" "\<not> is_digit (hd w)" "\<not> starts_with_part r"
  shows "next_item (w @ r) = (case map_of loop_keywords w of Some k \<Rightarrow> k | None \<Rightarrow> tokenIdent, w, length w)"
proof -
  have w: "hd (w @ r) = hd w" "isWordPart (hd w)" using assms(1,2) by (cases w; simp)+
  have "\<not> prefix triple (w @ r)"
    using rune_classes(2) [OF w(2)] assms(1) by (cases w) (auto simp: triple_def)
  moreover have "isWordStart (hd w)"
    using w(2) assms(3) by (auto simp: isWordStart_def isWordPart_def unicode_is_digit_def)
  moreover have "takeWhile isWordPart (w @ r) = w"
    using takeWhile_part assms(2,4) not_starts_with_part by blast
  ultimately show ?thesis
    using rune_classes(2) [OF w(2)] assms(3) by (simp add: next_item_def w(1) readWord_def isASCIIDigit_def)
qed

lemma ls_scan_keyword:
  assumes "k \<in> set keyword_kinds" "\<not> starts_with_part r"
  shows "ls_scan (kind_name k @ r) = (k, kind_name k) # ls_scan r"
proof -
  have "list_all (\<lambda>k. kind_name k \<noteq> [] \<and> list_all isWordPart (kind_name k) \<and> \<not> is_digit (hd (kind_name k))
      \<and> map_of loop_keywords (kind_name k) = Some k) keyword_kinds"
    by code_simp
  then have k: "kind_name k \<noteq> []" "list_all isWordPart (kind_name k)" "\<not> is_digit (hd (kind_name k))"
    "map_of loop_keywords (kind_name k) = Some k"
    using assms(1) unfolding list_all_iff by blast+
  then have "\<not> unicode_is_space (hd (kind_name k))" using rune_classes(1) by (cases "kind_name k") auto
  then show ?thesis using scan_item [OF k(1)] next_word [OF k(1-3) assms(2)] k(4) by simp
qed

lemma next_number:
  assumes "d \<noteq> []" "list_all is_digit d" "r = [] \<or> \<not> is_digit (hd r)"
  shows "next_item (d @ r) =
     (if r \<noteq> [] \<and> hd r = CHR ''m'' \<and> \<not> starts_with_part (tl r) then (tokenDuration, d @ ''m'', length d + 1)
      else if starts_with_part r
      then (tokenIdent, d @ takeWhile isWordPart r, length d + length (takeWhile isWordPart r))
      else (tokenNumber, d, length d))"
proof -
  have d: "hd (d @ r) = hd d" "is_digit (hd d)" using assms(1,2) by (cases d; simp)+
  have "hd d \<noteq> DQUOTE" using d(2) rune_classes(2) digit_part by blast
  moreover have "\<not> prefix triple (d @ r)" using calculation assms(1) by (cases d) (auto simp: triple_def)
  moreover have "isASCIIDigit = is_digit" by (simp add: fun_eq_iff isASCIIDigit_def)
  ultimately show ?thesis
    using takeWhile_part [OF assms(2,3)] d by (simp add: next_item_def ls_readNumber_def Let_def)
qed

lemma readable_ident:
  assumes "readable s" "\<not> starts_with_part r"
  shows "next_item (s @ r) = (tokenIdent, s, length s)"
proof (cases "is_digit (hd s)")
  case False
  then have "map_of loop_keywords s = None" using assms(1) by (simp add: readable_def map_of_eq_None_iff)
  then show ?thesis using next_word [of s r] False assms by (simp add: readable_def)
next
  case True
  let ?d = "takeWhile is_digit s" and ?w = "dropWhile is_digit s"
  have ne: "s \<noteq> []" and w: "?w \<noteq> []" "?w \<noteq> ''m''" and part: "list_all isWordPart s"
    using assms(1) True by (auto simp: readable_def Let_def)
  have d1: "?d \<noteq> []" using True ne by (cases s) auto
  have d2: "list_all is_digit ?d" by (auto simp: list_all_iff dest: set_takeWhileD)
  have d3: "\<not> is_digit (hd ?w)" using hd_dropWhile w(1) by blast
  note d = d1 d2 d3
  obtain x xs where x: "?w = x # xs" using w(1) by (cases ?w) auto
  have pw: "list_all isWordPart ?w" using part by (auto simp: list_all_iff dest: set_dropWhileD)
  have "takeWhile isWordPart (?w @ r) = ?w"
    using takeWhile_part [OF pw] assms(2) not_starts_with_part by blast
  moreover have "\<not> (x = CHR ''m'' \<and> \<not> starts_with_part (xs @ r))"
    using x w(2) pw by (cases xs) (auto simp: starts_with_part_def)
  ultimately have "next_item (?d @ ?w @ r) = (tokenIdent, ?d @ ?w, length ?d + length ?w)"
    unfolding x using next_number [OF d(1,2), of "x # xs @ r"] d(3) pw unfolding x
    by (simp add: starts_with_part_def [of "x # _"])
  then show ?thesis
    by (metis append_assoc length_append takeWhile_dropWhile_id)
qed

lemma ls_scan_ident:
  assumes "readable s" "\<not> starts_with_part r"
  shows "ls_scan (s @ r) = (tokenIdent, s) # ls_scan r"
proof -
  have "s \<noteq> []" "isWordPart (hd s)" using assms(1) by (cases s; simp add: readable_def)+
  then show ?thesis using scan_item readable_ident [OF assms] rune_classes(1) by simp
qed

text \<open>Conversely, what the lexer reads as an identifier is readable.\<close>

lemma ident_readable:
  assumes "next_item s = (tokenIdent, v, n)" "s \<noteq> []"
  shows "readable v"
proof -
  have kw: "(k, v) \<in> set loop_keywords \<Longrightarrow> v \<noteq> tokenIdent" for k v
    by (auto simp: loop_keywords_def keyword_kinds_def)
  consider "\<not> is_digit (hd s)" "isWordStart (hd s)" "readWord s = (tokenIdent, v, n)"
    | "is_digit (hd s)" "ls_readNumber s = (tokenIdent, v, n)"
    using assms
    by (auto simp: next_item_def readPrompt_def ls_readString_def isASCIIDigit_def symbolKind_def symbols_def
        split: if_splits option.splits prod.splits unquoted.splits)
  then show ?thesis
  proof cases
    case 1
    then have v: "v = takeWhile isWordPart s" "map_of loop_keywords v = None"
      using kw by (auto simp: readWord_def Let_def split: option.splits dest: map_of_SomeD)
    have s: "isWordPart (hd s)" using 1(2) by (auto simp: isWordStart_def isWordPart_def)
    obtain c cs where "s = c # cs" using assms(2) by (cases s) auto
    then show ?thesis
      using v s 1(1) by (auto simp: readable_def Let_def map_of_eq_None_iff list_all_iff dest: set_takeWhileD)
  next
    case 2
    let ?d = "takeWhile is_digit s" and ?r = "dropWhile is_digit s"
    have eq: "isASCIIDigit = is_digit" by (simp add: fun_eq_iff isASCIIDigit_def)
    have v: "v = ?d @ takeWhile isWordPart ?r" "starts_with_part ?r"
      "\<not> (?r \<noteq> [] \<and> hd ?r = CHR ''m'' \<and> \<not> starts_with_part (tl ?r))"
      using 2(2) by (auto simp: ls_readNumber_def Let_def eq split: if_splits)
    obtain x xs where x: "?r = x # xs" using v(2) by (cases ?r) (auto simp: starts_with_part_def)
    have nd: "\<not> is_digit x" using hd_dropWhile [of is_digit s] x by simp
    have d: "?d \<noteq> []" using 2(1) assms(2) by (cases s) auto
    have part: "list_all isWordPart v"
      using digit_part by (auto simp: v(1) list_all_iff dest: set_takeWhileD)
    have "dropWhile is_digit v = takeWhile isWordPart ?r"
    proof -
      have dd: "list_all is_digit ?d" by (auto simp: list_all_iff dest: set_takeWhileD)
      show ?thesis
        using takeWhile_part [OF dd, of "takeWhile isWordPart ?r"] x nd v(2)
        by (simp add: v(1) starts_with_part_def)
    qed
    moreover have "takeWhile isWordPart ?r \<noteq> [] \<and> takeWhile isWordPart ?r \<noteq> ''m''"
      using v(2,3) x by (cases xs) (auto simp: starts_with_part_def)
    moreover have "v \<notin> fst ` set loop_keywords"
    proof -
      have "list_all (\<lambda>k. \<not> is_digit (hd (fst k))) loop_keywords" by code_simp
      moreover have "is_digit (hd v)" using d v(1) 2(1) assms(2) by (cases s) auto
      ultimately show ?thesis by (auto simp: list_all_iff)
    qed
    ultimately show ?thesis using part d v(1) by (simp add: readable_def Let_def)
  qed
qed

subsection \<open>Numbers, strings, prompts\<close>

lemma not_digit_next: "\<not> starts_with_part r \<Longrightarrow> r = [] \<or> \<not> is_digit (hd r)"
  using digit_part by (auto simp: not_starts_with_part)

lemma part_m: "isWordPart (CHR ''m'')"
  by code_simp

lemma show_int_digits: "0 \<le> i \<Longrightarrow> list_all is_digit (show_int i) \<and> show_int i \<noteq> []"
  using show_nat_digits by (simp add: show_int_def)

lemma digits_start: "list_all is_digit d \<Longrightarrow> d \<noteq> [] \<Longrightarrow> \<not> unicode_is_space (hd d)"
  using digit_part rune_classes(1) by (cases d) auto

lemma ls_scan_number:
  assumes "0 \<le> i" "\<not> starts_with_part r"
  shows "ls_scan (show_int i @ r) = (tokenNumber, show_int i) # ls_scan r"
proof -
  note d = show_int_digits [OF assms(1), THEN conjunct1] show_int_digits [OF assms(1), THEN conjunct2]
  have "\<not> (r \<noteq> [] \<and> hd r = CHR ''m'')" using assms(2) part_m by (auto simp: not_starts_with_part)
  then have "next_item (show_int i @ r) = (tokenNumber, show_int i, length (show_int i))"
    using next_number [OF d(2,1) not_digit_next [OF assms(2)]] assms(2) by auto
  then show ?thesis by (rule scan_item [OF d(2) digits_start [OF d]])
qed

lemma scan_duration:
  assumes "0 \<le> i" "\<not> starts_with_part r"
  shows "ls_scan (show_int i @ CHR ''m'' # r) = (tokenDuration, show_int i @ ''m'') # ls_scan r"
proof -
  note d = show_int_digits [OF assms(1), THEN conjunct1] show_int_digits [OF assms(1), THEN conjunct2]
  have "\<not> is_digit (CHR ''m'')" by code_simp
  then have "next_item (show_int i @ CHR ''m'' # r) = (tokenDuration, show_int i @ ''m'', length (show_int i) + 1)"
    using next_number [OF d(2,1), of "CHR ''m'' # r"] assms(2) by simp
  then show ?thesis
    using scan_item [of "show_int i @ ''m''" r] d(2) digits_start [OF d] by (cases "show_int i") auto
qed

lemma low_hex_plain: "d < 16 \<Longrightarrow> low_hex d \<noteq> NL \<and> low_hex d \<noteq> BSLASH \<and> low_hex d \<noteq> DQUOTE"
proof -
  assume "d < 16"
  moreover have "list_all (\<lambda>d. low_hex d \<noteq> NL \<and> low_hex d \<noteq> BSLASH \<and> low_hex d \<noteq> DQUOTE) [0..<16]" by code_simp
  ultimately show ?thesis by (auto simp: list_all_iff)
qed

lemma string_scan_rune:
  "string_scan (go_quote_rune c @ s) = (case string_scan s of (n, b) \<Rightarrow> (n + length (go_quote_rune c), b))"
proof -
  have "code c div 16 < 16" "code c mod 16 < 16" using code_less [of c] by simp_all
  then show ?thesis using low_hex_plain by (auto simp: go_quote_rune_def less_eq_char_def split: prod.split)
qed

lemma string_scan_quoted:
  "string_scan (concat (map go_quote_rune v) @ DQUOTE # r) = (length (concat (map go_quote_rune v)) + 1, True)"
  by (induction v) (simp_all add: string_scan_rune)

lemma ls_scan_quoted:
  assumes "r = [] \<or> hd r \<noteq> DQUOTE"
  shows "ls_scan (strconv_quote v @ r) = (tokenString, v) # ls_scan r"
proof -
  have "\<not> prefix triple (strconv_quote v @ r)"
  proof (cases v)
    case Nil
    then show ?thesis using assms by (cases r) (auto simp: strconv_quote_def triple_def)
  next
    case (Cons c cs)
    then show ?thesis using go_quote_rune_start [of c] by (auto simp: strconv_quote_def triple_def)
  qed
  moreover have "take (length (concat (map go_quote_rune v)) + 2) (strconv_quote v @ r) = strconv_quote v"
    by (simp add: strconv_quote_def)
  ultimately have "next_item (strconv_quote v @ r) = (tokenString, v, length (strconv_quote v))"
    using string_scan_quoted [of v r]
    using unquote_quote [of v] by (simp add: next_item_def ls_readString_def strconv_quote_def)
  then show ?thesis
    using scan_item [of "strconv_quote v" r] by (simp add: strconv_quote_def unicode_is_space_def)
qed

lemma prompt_scan_end:
  assumes "\<not> contains p triple" "\<not> has_suffix p [DQUOTE]"
  shows "prompt_scan (p @ triple @ r) = Some (length p)"
  using assms
proof (induction p)
  case Nil
  then show ?case by (simp add: triple_def)
next
  case (Cons c cs)
  have "\<not> prefix triple (c # cs @ triple @ r)"
  proof (cases cs)
    case Nil
    then show ?thesis using Cons.prems(2) by (auto simp: triple_def has_suffix_def suffix_def)
  next
    case (Cons d ds)
    then show ?thesis
      using \<open>\<not> contains (c # cs) triple\<close> \<open>\<not> has_suffix (c # cs) [DQUOTE]\<close>
      by (cases ds) (auto simp: triple_def has_suffix_def suffix_def)
  qed
  moreover have "\<not> has_suffix cs [DQUOTE]"
    using Cons.prems(2) by (auto simp: has_suffix_def suffix_Cons)
  ultimately show ?case using Cons by simp
qed

definition prompt_kind :: "str \<Rightarrow> tokenKind" where
  "prompt_kind p = (if formatPrompt p = strconv_quote p then tokenString else tokenPrompt)"

lemma scan_formatPrompt:
  assumes "r = [] \<or> hd r \<noteq> DQUOTE"
  shows "ls_scan (formatPrompt p @ r) = (prompt_kind p, p) # ls_scan r"
proof (cases "formatPrompt p = strconv_quote p")
  case True
  then show ?thesis using ls_scan_quoted [OF assms] by (simp add: prompt_kind_def)
next
  case False
  then have p: "\<not> contains p triple" "\<not> has_suffix p [DQUOTE]" "formatPrompt p = triple @ p @ triple"
    by (auto simp: formatPrompt_def split: if_splits)
  have "next_item (triple @ p @ triple @ r) = (tokenPrompt, p, length p + 6)"
    using prompt_scan_end [OF p(1,2), of r] by (simp add: next_item_def readPrompt_def triple_def)
  then show ?thesis
    using scan_item [of "triple @ p @ triple" r] False p(3)
    by (simp add: prompt_kind_def triple_def unicode_is_space_def)
qed

subsection \<open>The tokens of the canonical text\<close>

definition fixed :: "tokenKind \<Rightarrow> tokenKind \<times> str" where
  "fixed k = (k, kind_name k)"

definition id_items :: "str \<Rightarrow> (tokenKind \<times> str) list" where
  "id_items n = [fixed tokenAt, fixed tokenID, fixed tokenLParen, (tokenIdent, n), fixed tokenRParen]"

definition number_item :: "int \<Rightarrow> tokenKind \<times> str" where
  "number_item i = (tokenNumber, show_int i)"

definition limits_items :: "limits \<Rightarrow> (tokenKind \<times> str) list" where
  "limits_items lim =
     [fixed tokenLimits, fixed tokenLParen,
      fixed tokenIterations, fixed tokenColon, number_item (Iterations lim), fixed tokenComma,
      fixed tokenTokens, fixed tokenColon, number_item (Tokens lim), fixed tokenComma,
      fixed tokenTimeout, fixed tokenColon, (tokenDuration, show_int (TimeoutMins lim) @ ''m''), fixed tokenComma,
      fixed tokenNoProgress, fixed tokenColon, number_item (NoProgress lim), fixed tokenComma,
      fixed tokenSameError, fixed tokenColon, number_item (SameError lim), fixed tokenRParen]"

definition custom_items :: "custom_block option \<Rightarrow> (tokenKind \<times> str) list" where
  "custom_items custom = (case custom of None \<Rightarrow> [] | Some c \<Rightarrow>
     [fixed tokenCustomBlock, fixed tokenLParen,
      fixed tokenNodeID, fixed tokenColon, (tokenIdent, Custom_NodeID c), fixed tokenComma,
      fixed tokenDefinitionID, fixed tokenColon, (tokenString, DefinitionID c), fixed tokenComma,
      fixed tokenSlug, fixed tokenColon, (tokenIdent, Custom_Slug c), fixed tokenComma,
      fixed tokenVersion, fixed tokenColon, number_item (Custom_Version c), fixed tokenComma,
      fixed tokenDigest, fixed tokenColon, (tokenString, DefinitionDigest c), fixed tokenRParen])"

definition agent_items :: "agent_node \<Rightarrow> (tokenKind \<times> str) list" where
  "agent_items a =
     [fixed tokenAgent, (tokenIdent, Agent_LocalID a), fixed tokenLBrace, fixed tokenPromptKey,
      (prompt_kind (AgentPrompt a), AgentPrompt a), fixed tokenRBrace]"

definition verifier_items :: "verifier_node \<Rightarrow> (tokenKind \<times> str) list" where
  "verifier_items v =
     [fixed tokenVerify, (tokenIdent, Verifier_LocalID v), fixed tokenLBrace, fixed tokenCommand,
      (tokenString, Verifier_Command v), fixed tokenAccept, (tokenString, Verifier_Accept v), fixed tokenRBrace]"

definition repeat_head :: "repeat_node \<Rightarrow> (tokenKind \<times> str) list" where
  "repeat_head rp =
     [fixed tokenRepeat, (tokenIdent, Repeat_LocalID rp), fixed tokenLParen,
      fixed tokenMax, fixed tokenColon, number_item (Repeat_Max rp), fixed tokenComma,
      fixed tokenUntil, fixed tokenColon, (tokenIdent, RefLocalID (Until rp)), fixed tokenDot,
      (tokenIdent, RefField (Until rp)), fixed tokenRParen, fixed tokenLBrace]"

definition repeat_items :: "repeat_node \<Rightarrow> (tokenKind \<times> str) list" where
  "repeat_items rp = repeat_head rp @ custom_items (CustomBlock rp)
     @ id_items (Agent_NodeID (Agent rp)) @ agent_items (Agent rp)
     @ id_items (Verifier_NodeID (Verifier rp)) @ verifier_items (Verifier rp) @ [fixed tokenRBrace]"

definition failure_items :: "str \<Rightarrow> (tokenKind \<times> str) list" where
  "failure_items policy = [fixed tokenOnFailure, fixed (if policy = FailurePause then tokenPause else tokenFail)]"

definition format_items :: "loop_program \<Rightarrow> (tokenKind \<times> str) list" where
  "format_items prog =
     id_items (Loop_NodeID (Loop prog)) @ [fixed tokenLoop, (tokenIdent, Loop_LocalID (Loop prog)), fixed tokenLBrace]
     @ limits_items (Limits (Loop prog))
     @ id_items (Repeat_NodeID (Repeat (Loop prog))) @ repeat_items (Repeat (Loop prog))
     @ failure_items (FailurePolicy (Loop prog)) @ [fixed tokenRBrace, (tokenEOF, [])]"

text \<open>The printer's constant texts as symbols, spaces and keywords.\<close>

lemma spell:
  "''@id('' @ r = CHR ''@'' # kind_name tokenID @ CHR ''('' # r"
  "''  @id('' @ r = SP # SP # CHR ''@'' # kind_name tokenID @ CHR ''('' # r"
  "''    @id('' @ r = SP # SP # SP # SP # CHR ''@'' # kind_name tokenID @ CHR ''('' # r"
  "'')'' @ r = CHR '')'' # r"
  "''loop '' @ r = kind_name tokenLoop @ SP # r"
  "'' {'' @ r = SP # CHR ''{'' # r"
  "''  limits(iterations: '' @ r =
     SP # SP # kind_name tokenLimits @ CHR ''('' # kind_name tokenIterations @ CHR '':'' # SP # r"
  "'', tokens: '' @ r = CHR '','' # SP # kind_name tokenTokens @ CHR '':'' # SP # r"
  "'', timeout: '' @ r = CHR '','' # SP # kind_name tokenTimeout @ CHR '':'' # SP # r"
  "''m, no_progress: '' @ r = CHR ''m'' # CHR '','' # SP # kind_name tokenNoProgress @ CHR '':'' # SP # r"
  "'', same_error: '' @ r = CHR '','' # SP # kind_name tokenSameError @ CHR '':'' # SP # r"
  "''  repeat '' @ r = SP # SP # kind_name tokenRepeat @ SP # r"
  "''(max: '' @ r = CHR ''('' # kind_name tokenMax @ CHR '':'' # SP # r"
  "'', until: '' @ r = CHR '','' # SP # kind_name tokenUntil @ CHR '':'' # SP # r"
  "''.'' @ r = CHR ''.'' # r"
  "'') {'' @ r = CHR '')'' # SP # CHR ''{'' # r"
  "''    custom_block(node_id: '' @ r =
     SP # SP # SP # SP # kind_name tokenCustomBlock @ CHR ''('' # kind_name tokenNodeID @ CHR '':'' # SP # r"
  "'', definition_id: '' @ r = CHR '','' # SP # kind_name tokenDefinitionID @ CHR '':'' # SP # r"
  "'', slug: '' @ r = CHR '','' # SP # kind_name tokenSlug @ CHR '':'' # SP # r"
  "'', version: '' @ r = CHR '','' # SP # kind_name tokenVersion @ CHR '':'' # SP # r"
  "'', digest: '' @ r = CHR '','' # SP # kind_name tokenDigest @ CHR '':'' # SP # r"
  "''    agent '' @ r = SP # SP # SP # SP # kind_name tokenAgent @ SP # r"
  "'' { prompt '' @ r = SP # CHR ''{'' # SP # kind_name tokenPromptKey @ SP # r"
  "'' }'' @ r = SP # CHR ''}'' # r"
  "''    verify '' @ r = SP # SP # SP # SP # kind_name tokenVerify @ SP # r"
  "'' { command '' @ r = SP # CHR ''{'' # SP # kind_name tokenCommand @ SP # r"
  "'' accept '' @ r = SP # kind_name tokenAccept @ SP # r"
  "''  }'' @ r = SP # SP # CHR ''}'' # r"
  "''  on_failure '' @ r = SP # SP # kind_name tokenOnFailure @ SP # r"
  "[NL] @ r = NL # r"
  by simp_all

lemma ends_part:
  "\<not> starts_with_part (CHR ''('' # r)" "\<not> starts_with_part (CHR '')'' # r)" "\<not> starts_with_part (CHR '':'' # r)"
  "\<not> starts_with_part (CHR '','' # r)" "\<not> starts_with_part (CHR ''.'' # r)" "\<not> starts_with_part (SP # r)"
  "\<not> starts_with_part (NL # r)"
proof -
  have "list_all (\<lambda>c. \<not> isWordPart c) [CHR ''('', CHR '')'', CHR '':'', CHR '','', CHR ''.'', SP, NL]" by code_simp
  then show "\<not> starts_with_part (CHR ''('' # r)" "\<not> starts_with_part (CHR '')'' # r)" "\<not> starts_with_part (CHR '':'' # r)"
    "\<not> starts_with_part (CHR '','' # r)" "\<not> starts_with_part (CHR ''.'' # r)" "\<not> starts_with_part (SP # r)"
    "\<not> starts_with_part (NL # r)"
    by (simp_all add: starts_with_part_def)
qed

lemma ends_quote:
  "CHR '','' # r = [] \<or> hd (CHR '','' # r) \<noteq> DQUOTE" "CHR '')'' # r = [] \<or> hd (CHR '')'' # r) \<noteq> DQUOTE"
  "SP # r = [] \<or> hd (SP # r) \<noteq> DQUOTE"
  by simp_all

lemma keyword_in:
  "tokenID \<in> set keyword_kinds" "tokenLoop \<in> set keyword_kinds" "tokenLimits \<in> set keyword_kinds"
  "tokenIterations \<in> set keyword_kinds" "tokenTokens \<in> set keyword_kinds" "tokenTimeout \<in> set keyword_kinds"
  "tokenNoProgress \<in> set keyword_kinds" "tokenSameError \<in> set keyword_kinds" "tokenRepeat \<in> set keyword_kinds"
  "tokenMax \<in> set keyword_kinds" "tokenUntil \<in> set keyword_kinds" "tokenCustomBlock \<in> set keyword_kinds"
  "tokenNodeID \<in> set keyword_kinds" "tokenDefinitionID \<in> set keyword_kinds" "tokenSlug \<in> set keyword_kinds"
  "tokenVersion \<in> set keyword_kinds" "tokenDigest \<in> set keyword_kinds" "tokenAgent \<in> set keyword_kinds"
  "tokenPromptKey \<in> set keyword_kinds" "tokenVerify \<in> set keyword_kinds" "tokenCommand \<in> set keyword_kinds"
  "tokenAccept \<in> set keyword_kinds" "tokenOnFailure \<in> set keyword_kinds" "tokenPause \<in> set keyword_kinds"
  "tokenFail \<in> set keyword_kinds"
  by (simp_all add: keyword_kinds_def)

lemma blanks: "unicode_is_space SP" "unicode_is_space NL"
  by (simp_all add: unicode_is_space_def)

lemmas scan_rules = scan_symbols scan_space [OF blanks(1)] scan_space [OF blanks(2)] ls_scan_keyword [OF keyword_in(1)]
  ls_scan_keyword [OF keyword_in(2)] ls_scan_keyword [OF keyword_in(3)] ls_scan_keyword [OF keyword_in(4)]
  ls_scan_keyword [OF keyword_in(5)] ls_scan_keyword [OF keyword_in(6)] ls_scan_keyword [OF keyword_in(7)]
  ls_scan_keyword [OF keyword_in(8)] ls_scan_keyword [OF keyword_in(9)] ls_scan_keyword [OF keyword_in(10)]
  ls_scan_keyword [OF keyword_in(11)] ls_scan_keyword [OF keyword_in(12)] ls_scan_keyword [OF keyword_in(13)]
  ls_scan_keyword [OF keyword_in(14)] ls_scan_keyword [OF keyword_in(15)] ls_scan_keyword [OF keyword_in(16)]
  ls_scan_keyword [OF keyword_in(17)] ls_scan_keyword [OF keyword_in(18)] ls_scan_keyword [OF keyword_in(19)]
  ls_scan_keyword [OF keyword_in(20)] ls_scan_keyword [OF keyword_in(21)] ls_scan_keyword [OF keyword_in(22)]
  ls_scan_keyword [OF keyword_in(23)] ls_scan_keyword [OF keyword_in(24)] ls_scan_keyword [OF keyword_in(25)]
  ls_scan_number scan_duration ls_scan_ident ls_scan_quoted [OF ends_quote(1)] ls_scan_quoted [OF ends_quote(2)]
  ls_scan_quoted [OF ends_quote(3)] scan_formatPrompt [OF ends_quote(3)]

text \<open>A program whose identifiers the lexer reads back and whose numbers are not negative.\<close>

definition readable_custom :: "custom_block \<Rightarrow> bool" where
  "readable_custom c \<longleftrightarrow> readable (Custom_NodeID c) \<and> readable (Custom_Slug c) \<and> 0 \<le> Custom_Version c
     \<and> Custom_Version c \<le> max_int64"

definition readable_repeat :: "repeat_node \<Rightarrow> bool" where
  "readable_repeat rp \<longleftrightarrow> readable (Repeat_NodeID rp) \<and> readable (Repeat_LocalID rp) \<and> 0 \<le> Repeat_Max rp
     \<and> readable (RefLocalID (Until rp)) \<and> readable (RefField (Until rp))
     \<and> (case CustomBlock rp of None \<Rightarrow> True | Some c \<Rightarrow> readable_custom c)
     \<and> readable (Agent_NodeID (Agent rp)) \<and> readable (Agent_LocalID (Agent rp))
     \<and> readable (Verifier_NodeID (Verifier rp)) \<and> readable (Verifier_LocalID (Verifier rp))"

definition readable_limits :: "limits \<Rightarrow> bool" where
  "readable_limits lim \<longleftrightarrow> 0 \<le> Iterations lim \<and> 0 \<le> Tokens lim \<and> 0 \<le> TimeoutMins lim \<and> 0 \<le> NoProgress lim \<and> 0 \<le> SameError lim"

definition readable_program :: "loop_program \<Rightarrow> bool" where
  "readable_program prog \<longleftrightarrow> readable (Loop_NodeID (Loop prog)) \<and> readable (Loop_LocalID (Loop prog))
     \<and> readable_limits (Limits (Loop prog)) \<and> readable_repeat (Repeat (Loop prog))
     \<and> (FailurePolicy (Loop prog) = FailurePause \<or> FailurePolicy (Loop prog) = FailureFail)"

lemma scan_format_custom:
  assumes "\<And>c. custom = Some c \<Longrightarrow> readable_custom c"
  shows "ls_scan (format_custom custom @ r) = custom_items custom @ ls_scan r"
proof (cases custom)
  case (Some c)
  then have c: "readable (Custom_NodeID c)" "readable (Custom_Slug c)" "0 \<le> Custom_Version c"
    using assms by (simp_all add: readable_custom_def)
  show ?thesis
    unfolding format_custom_def custom_items_def Some option.case
    by (simp only: append_assoc, simp only: spell scan_rules ends_part not_False_eq_True c)
      (simp add: fixed_def number_item_def)
qed (simp add: format_custom_def custom_items_def)

lemma scan_policy:
  "p = FailurePause \<or> p = FailureFail \<Longrightarrow> ls_scan (p @ NL # r) = fixed (if p = FailurePause then tokenPause else tokenFail) # ls_scan r"
  using scan_rules(33) [of "NL # r"] ls_scan_keyword [of tokenPause "NL # r"] ls_scan_keyword [of tokenFail "NL # r"]
    keyword_in(24,25) ends_part(7) scan_space [OF blanks(2)]
  by (auto simp: FailurePause_def FailureFail_def fixed_def)

lemma scan_format:
  assumes "readable_program prog"
  shows "ls_scan (format_text prog) = format_items prog"
proof -
  let ?lp = "Loop prog" let ?rp = "Repeat ?lp" let ?lim = "Limits ?lp"
  have r: "readable (Loop_NodeID ?lp)" "readable (Loop_LocalID ?lp)" "0 \<le> Iterations ?lim" "0 \<le> Tokens ?lim"
    "0 \<le> TimeoutMins ?lim" "0 \<le> NoProgress ?lim" "0 \<le> SameError ?lim" "readable (Repeat_NodeID ?rp)"
    "readable (Repeat_LocalID ?rp)" "0 \<le> Repeat_Max ?rp" "readable (RefLocalID (Until ?rp))"
    "readable (RefField (Until ?rp))" "readable (Agent_NodeID (Agent ?rp))" "readable (Agent_LocalID (Agent ?rp))"
    "readable (Verifier_NodeID (Verifier ?rp))" "readable (Verifier_LocalID (Verifier ?rp))"
    and policy: "FailurePolicy ?lp = FailurePause \<or> FailurePolicy ?lp = FailureFail"
    using assms by (simp_all add: readable_program_def readable_limits_def readable_repeat_def)
  have c: "ls_scan (format_custom (CustomBlock ?rp) @ r) = custom_items (CustomBlock ?rp) @ ls_scan r" for r
    using assms by (intro scan_format_custom) (simp add: readable_program_def readable_repeat_def)
  show ?thesis
    unfolding format_text_def Let_def
    by (simp only: spell scan_rules ends_part not_False_eq_True r c scan_policy [OF policy] ls_scan_Nil)
      (simp add: fixed_def number_item_def format_items_def id_items_def limits_items_def repeat_items_def
        repeat_head_def agent_items_def verifier_items_def failure_items_def)
qed

end
