(* ===== verification/LoopParses.thy ===== *)
theory LoopParses
  imports LoopScan
begin

text \<open>
  What the parser of the loop scripts makes of the tokens the printer writes: \<open>parses m ks X ks'\<close> says
  that the method \<open>m\<close> takes the tokens \<open>ks\<close> up to \<open>ks'\<close> without a failure or a diagnostic and returns a
  value of \<open>X\<close>; \<open>parses_program\<close> puts the methods together.
\<close>

subsection \<open>A method that takes given tokens\<close>

definition parses :: "'a parse \<Rightarrow> (tokenKind \<times> str) list \<Rightarrow> ('a \<Rightarrow> bool) \<Rightarrow> (tokenKind \<times> str) list \<Rightarrow> bool" where
  "parses m ks X ks' \<longleftrightarrow> (\<forall>p. failure p = None \<longrightarrow> map strip (unread p) = ks \<longrightarrow>
     (\<exists>x p'. run_state m p = (x, p') \<and> X x \<and> failure p' = None \<and> map strip (unread p') = ks'
        \<and> semanticDiagnostics p' = semanticDiagnostics p \<and> redactions p' = redactions p))"

lemma parsesE:
  assumes "parses m ks X ks'" "failure p = None" "map strip (unread p) = ks"
  obtains x p' where "run_state m p = (x, p')" "X x" "failure p' = None" "map strip (unread p') = ks'"
    "semanticDiagnostics p' = semanticDiagnostics p" "redactions p' = redactions p"
proof -
  have "\<exists>x p'. run_state m p = (x, p') \<and> X x \<and> failure p' = None \<and> map strip (unread p') = ks' \<and>
      semanticDiagnostics p' = semanticDiagnostics p \<and> redactions p' = redactions p"
    using assms unfolding parses_def by simp
  then show thesis using that by (elim exE conjE)
qed

lemma parsesI:
  assumes "\<And>p. failure p = None \<Longrightarrow> map strip (unread p) = ks \<Longrightarrow>
    \<exists>x p'. run_state m p = (x, p') \<and> X x \<and> failure p' = None \<and> map strip (unread p') = ks' \<and>
      semanticDiagnostics p' = semanticDiagnostics p \<and> redactions p' = redactions p"
  shows "parses m ks X ks'"
  using assms by (simp add: parses_def)

lemma parses_bind:
  assumes "parses m ks X ks'" "\<And>x. X x \<Longrightarrow> parses (f x) ks' Y ks''"
  shows "parses (m \<bind> f) ks Y ks''"
proof (rule parsesI)
  fix p :: loop_parser
  assume "failure p = None" "map strip (unread p) = ks"
  then obtain x p1 where p1: "run_state m p = (x, p1)" "X x" "failure p1 = None" "map strip (unread p1) = ks'"
    "semanticDiagnostics p1 = semanticDiagnostics p" "redactions p1 = redactions p"
    by (rule parsesE [OF assms(1)])
  obtain y p2 where "run_state (f x) p1 = (y, p2)" "Y y" "failure p2 = None" "map strip (unread p2) = ks''"
    "semanticDiagnostics p2 = semanticDiagnostics p1" "redactions p2 = redactions p1"
    by (rule parsesE [OF assms(2) [OF p1(2)] p1(3,4)])
  then show "\<exists>y p'. run_state (m \<bind> f) p = (y, p') \<and> Y y \<and> failure p' = None \<and> map strip (unread p') = ks'' \<and>
      semanticDiagnostics p' = semanticDiagnostics p \<and> redactions p' = redactions p"
    using p1 by simp
qed

lemma parses_return: "X x \<Longrightarrow> parses (State_Monad.return x) ks X ks"
  by (simp add: parses_def)

lemma parses_weaken: "parses m ks X ks' \<Longrightarrow> (\<And>x. X x \<Longrightarrow> Y x) \<Longrightarrow> parses m ks Y ks'"
  unfolding parses_def by blast

lemma parses_positions: "parses (set_positions f) ks (\<lambda>_. True) ks"
  by (simp add: parses_def set_positions_def)

lemma parses_redactions: "(\<And>r. f r = r) \<Longrightarrow> parses (set_redactions f) ks (\<lambda>_. True) ks"
  by (simp add: parses_def set_redactions_def)

lemma parses_current: "parses ls_current (k # ks) (\<lambda>t. strip t = k) (k # ks)"
  by (auto simp: parses_def ls_current_def current_token_def)

lemma parses_advance: "parses ls_advance (k # ks) (\<lambda>_. True) ks"
  by (auto simp: parses_def ls_advance_def)

lemma parses_expect: "parses (ls_expect k) ((k, v) # ks) (\<lambda>_. True) ks"
  by (auto simp: parses_def ls_expect_def ls_advance_def current_kind_def current_token_def failed_def strip_def)

lemma parses_fixed: "parses (ls_expect k) (fixed k # ks) (\<lambda>_. True) ks"
  by (simp add: fixed_def parses_expect)

lemma parses_ident: "parses takeIdentifier ((tokenIdent, v) # ks) (\<lambda>x. x = v) ks"
  unfolding takeIdentifier_def
  by (rule parses_bind [OF parses_current]) (auto simp: strip_def intro!: parses_bind [OF parses_advance] parses_return)

lemma parses_string: "parses takeString ((tokenString, v) # ks) (\<lambda>x. x = v) ks"
  unfolding takeString_def
  by (rule parses_bind [OF parses_current]) (auto simp: strip_def intro!: parses_bind [OF parses_advance] parses_return)

lemma parses_integer:
  "ls_parse_int64 (ls_trim_suffix v ''m'') = Some i \<Longrightarrow> parses (takeInteger k) ((k, v) # ks) (\<lambda>x. x = i) ks"
  unfolding takeInteger_def
  by (rule parses_bind [OF parses_current]) (auto simp: strip_def intro!: parses_bind [OF parses_advance] parses_return)

lemma parses_guarded:
  "k \<in> set allowed \<Longrightarrow> k \<noteq> tokenSecret \<Longrightarrow> \<not> secret v \<Longrightarrow>
   parses (takeGuardedText secret node expected allowed) ((k, v) # ks) (\<lambda>x. x = (v, False)) ks"
  unfolding takeGuardedText_def
  by (rule parses_bind [OF parses_current]) (auto simp: strip_def intro!: parses_bind [OF parses_advance] parses_return)

lemma parse_int64_show:
  assumes "0 \<le> i" "i \<le> max_int64"
  shows "ls_parse_int64 (show_int i) = Some i"
proof -
  have "nat i < 2 ^ 63" using assms by (simp add: max_int64_def nat_less_iff)
  then show ?thesis
    using assms(1) show_nat_digits [of "nat i"] by (simp add: ls_parse_int64_def show_int_def read_show_nat)
qed

lemma trim_m:
  "0 \<le> i \<Longrightarrow> ls_trim_suffix (show_int i) ''m'' = show_int i" "ls_trim_suffix (s @ ''m'') ''m'' = s"
proof -
  assume "0 \<le> i"
  have "\<not> is_digit (CHR ''m'')" by code_simp
  then have "\<not> has_suffix (show_int i) ''m''"
    using show_int_digits [OF \<open>0 \<le> i\<close>] by (auto simp: has_suffix_def suffix_def)
  then show "ls_trim_suffix (show_int i) ''m'' = show_int i" by (simp add: ls_trim_suffix_def)
qed (simp add: ls_trim_suffix_def has_suffix_def suffix_def)

lemma parses_number:
  "0 \<le> i \<Longrightarrow> i \<le> max_int64 \<Longrightarrow> parses (takeInteger tokenNumber) (number_item i # ks) (\<lambda>x. x = i) ks"
  unfolding number_item_def by (rule parses_integer) (simp add: trim_m parse_int64_show)

lemma parses_duration:
  "0 \<le> i \<Longrightarrow> i \<le> max_int64 \<Longrightarrow> parses (takeInteger tokenDuration) ((tokenDuration, show_int i @ ''m'') # ks) (\<lambda>x. x = i) ks"
  by (rule parses_integer) (simp add: trim_m parse_int64_show)

lemma parses_field:
  "parses m ks X ks' \<Longrightarrow> parses (field k m) (fixed k # fixed tokenColon # ks) X ks'"
  unfolding field_def by (rule parses_bind [OF parses_fixed]) (rule parses_bind [OF parses_fixed])

subsection \<open>The nodes\<close>

lemma parses_id: "parses parseNodeID (id_items n @ ks) (\<lambda>x. fst x = n) ks"
  unfolding parseNodeID_def id_items_def append_Cons append_Nil
  apply (rule parses_bind [OF parses_current])
  subgoal for t
    by (simp add: strip_def fixed_def)
      (rule parses_bind [OF parses_advance], rule parses_bind [OF parses_expect], rule parses_bind [OF parses_expect],
        rule parses_bind [OF parses_ident], rule parses_bind [OF parses_expect], rule parses_return, simp)
  done

definition numbers_fit :: "limits \<Rightarrow> bool" where
  "numbers_fit lim \<longleftrightarrow> readable_limits lim \<and> Iterations lim \<le> max_int64 \<and> Tokens lim \<le> max_int64
     \<and> TimeoutMins lim \<le> max_int64 \<and> NoProgress lim \<le> max_int64 \<and> SameError lim \<le> max_int64"

lemma parses_limits:
  assumes "numbers_fit lim"
  shows "parses parseLimits (limits_items lim @ ks) (\<lambda>x. x = lim) ks"
proof -
  have fit: "0 \<le> Iterations lim" "Iterations lim \<le> max_int64" "0 \<le> Tokens lim" "Tokens lim \<le> max_int64"
    "0 \<le> TimeoutMins lim" "TimeoutMins lim \<le> max_int64" "0 \<le> NoProgress lim" "NoProgress lim \<le> max_int64"
    "0 \<le> SameError lim" "SameError lim \<le> max_int64"
    using assms by (simp_all add: numbers_fit_def readable_limits_def)
  show ?thesis
    unfolding parseLimits_def limits_items_def append_Cons append_Nil
    by (intro parses_bind [OF parses_fixed] parses_bind [OF parses_field [OF parses_number]]
        parses_bind [OF parses_field [OF parses_duration]] parses_return fit) simp
qed

lemma parses_reference:
  "parses parseReference ((tokenIdent, a) # fixed tokenDot # (tokenIdent, b) # ks)
     (\<lambda>x. x = \<lparr>RefLocalID = a, RefField = b\<rparr>) ks"
  unfolding parseReference_def
  by (rule parses_bind [OF parses_ident], rule parses_bind [OF parses_fixed], rule parses_bind [OF parses_ident],
      rule parses_return, simp)

lemma parses_custom:
  assumes "0 \<le> Custom_Version c" "Custom_Version c \<le> max_int64"
  shows "parses parseCustomBlockRef (custom_items (Some c) @ ks) (\<lambda>x. x = c) ks"
  unfolding parseCustomBlockRef_def custom_items_def option.case append_Cons append_Nil
  by (intro parses_bind [OF parses_fixed] parses_bind [OF parses_field [OF parses_number]] assms
      parses_bind [OF parses_field [OF parses_ident]] parses_bind [OF parses_field [OF parses_string]] parses_return) simp

lemma parses_agent:
  assumes "\<not> secret (AgentPrompt a)"
  shows "parses (parseAgent secret (Agent_NodeID a)) (agent_items a @ ks) (\<lambda>x. x = a) ks"
proof -
  have k: "prompt_kind (AgentPrompt a) \<in> set [tokenPrompt, tokenString]" "prompt_kind (AgentPrompt a) \<noteq> tokenSecret"
    by (simp_all add: prompt_kind_def)
  show ?thesis
    unfolding parseAgent_def agent_items_def append_Cons append_Nil
    by (rule parses_bind [OF parses_fixed], rule parses_bind [OF parses_ident], rule parses_bind [OF parses_fixed],
        rule parses_bind [OF parses_fixed], rule parses_bind [OF parses_guarded [where secret = secret, OF k(1) k(2) assms]], simp,
        rule parses_bind [OF parses_redactions], simp, rule parses_bind [OF parses_fixed], rule parses_return, simp)
qed

lemma parses_verifier:
  assumes "\<not> secret (Verifier_Command v)" "\<not> secret (Verifier_Accept v)"
  shows "parses (parseVerifier secret (Verifier_NodeID v)) (verifier_items v @ ks) (\<lambda>x. x = v) ks"
proof -
  have k: "tokenString \<in> set [tokenString]" "tokenString \<noteq> tokenSecret" by simp_all
  show ?thesis
    unfolding parseVerifier_def verifier_items_def append_Cons append_Nil
    by (rule parses_bind [OF parses_fixed], rule parses_bind [OF parses_ident], rule parses_bind [OF parses_fixed],
        rule parses_bind [OF parses_fixed], rule parses_bind [OF parses_guarded [where secret = secret, OF k(1) k(2) assms(1)]], simp,
        rule parses_bind [OF parses_redactions], simp, rule parses_bind [OF parses_fixed],
        rule parses_bind [OF parses_guarded [where secret = secret, OF k(1) k(2) assms(2)]], simp, rule parses_bind [OF parses_redactions], simp,
        rule parses_bind [OF parses_fixed], rule parses_return, simp)
qed

lemma parses_failure:
  assumes "policy = FailurePause \<or> policy = FailureFail"
  shows "parses parseFailurePolicy (failure_items policy @ ks) (\<lambda>x. x = policy) ks"
  unfolding parseFailurePolicy_def failure_items_def append_Cons append_Nil
  apply (rule parses_bind [OF parses_fixed], rule parses_bind [OF parses_current])
  subgoal for _ t
    using assms
    by (auto simp: strip_def fixed_def FailurePause_def FailureFail_def
        intro!: parses_bind [OF parses_advance] parses_return split: if_splits)
  done

subsection \<open>The loops\<close>

text \<open>Both loops of the parser go on as long as their block does not end.\<close>

lemma parses_while_end:
  assumes "\<And>st p. L st p = (if block_ends p then (st, p) else case run_state (step st) p of (st', p') \<Rightarrow> L st' p')"
    "k = tokenRBrace"
  shows "parses (State (L st)) ((k, v) # ks) (\<lambda>x. x = st) ((k, v) # ks)"
proof (rule parsesI)
  fix p :: loop_parser
  assume p: "failure p = None" "map strip (unread p) = (k, v) # ks"
  then have "block_ends p" using assms(2) by (auto simp: block_ends_def current_kind_def current_token_def strip_def)
  then have "run_state (State (L st)) p = (st, p)" by (simp add: assms(1))
  then show "\<exists>x p'. run_state (State (L st)) p = (x, p') \<and> x = st \<and> failure p' = None \<and>
      map strip (unread p') = (k, v) # ks \<and> semanticDiagnostics p' = semanticDiagnostics p \<and> redactions p' = redactions p"
    using p by (intro exI conjI) simp_all
qed

lemma parses_while_step:
  assumes "\<And>st p. L st p = (if block_ends p then (st, p) else case run_state (step st) p of (st', p') \<Rightarrow> L st' p')"
    "fst k \<noteq> tokenRBrace" "fst k \<noteq> tokenEOF" "parses (step st) (k # ks) (\<lambda>x. x = st') ks'"
    "parses (State (L st')) ks' X ks''"
  shows "parses (State (L st)) (k # ks) X ks''"
proof (rule parsesI)
  fix p :: loop_parser
  assume p: "failure p = None" "map strip (unread p) = k # ks"
  obtain x p1 where p1: "run_state (step st) p = (x, p1)" "x = st'" "failure p1 = None"
    "map strip (unread p1) = ks'" "semanticDiagnostics p1 = semanticDiagnostics p" "redactions p1 = redactions p"
    by (rule parsesE [OF assms(4) p])
  obtain y p2 where p2: "run_state (State (L st')) p1 = (y, p2)" "X y" "failure p2 = None" "map strip (unread p2) = ks''"
    "semanticDiagnostics p2 = semanticDiagnostics p1" "redactions p2 = redactions p1"
    by (rule parsesE [OF assms(5) p1(3,4)])
  have "\<not> block_ends p"
    using assms(2,3) p by (auto simp: block_ends_def failed_def current_kind_def current_token_def strip_def)
  then have "L st p = L st' p1" using p1(1,2) by (subst assms(1)) simp
  then show "\<exists>x p'. run_state (State (L st)) p = (x, p') \<and> X x \<and> failure p' = None \<and>
      map strip (unread p') = ks'' \<and> semanticDiagnostics p' = semanticDiagnostics p \<and> redactions p' = redactions p"
    using p1 p2 by simp
qed

lemmas repeat_while = parses_while_end [OF repeat_loop.simps] parses_while_step [OF repeat_loop.simps]
lemmas program_while = parses_while_end [OF program_loop.simps] parses_while_step [OF program_loop.simps]

lemma fixed_fst [simp]: "fst (fixed k) = k"
  by (simp add: fixed_def)

lemma parses_look:
  "(\<And>t. strip t = k \<Longrightarrow> parses (f t) (k # ks) X ks') \<Longrightarrow> parses (ls_current \<bind> f) (k # ks) X ks'"
  by (rule parses_bind [OF parses_current]) blast

lemma parses_repeat_child:
  "parses (repeat_child secret (rp, False, b)) (id_items (Agent_NodeID a) @ agent_items a @ ks)
     (\<lambda>x. x = (rp\<lparr>Agent := a\<rparr>, True, b)) ks" if "\<not> secret (AgentPrompt a)"
  unfolding repeat_child_def case_prod_conv
  apply (rule parses_bind [OF parses_id])
  subgoal for x
    using parses_agent [where secret = secret, OF that, of ks]
    by (cases x)
      (auto simp: agent_items_def fixed_def strip_def
        intro!: parses_look parses_bind [OF parses_positions] parses_bind [where m = "parseAgent _ _"] parses_return)
  done

lemma parses_repeat_verifier:
  "parses (repeat_child secret (rp, b, False)) (id_items (Verifier_NodeID v) @ verifier_items v @ ks)
     (\<lambda>x. x = (rp\<lparr>Verifier := v\<rparr>, b, True)) ks" if "\<not> secret (Verifier_Command v)" "\<not> secret (Verifier_Accept v)"
  unfolding repeat_child_def case_prod_conv
  apply (rule parses_bind [OF parses_id])
  subgoal for x
    using parses_verifier [where secret = secret, OF that, of ks]
    by (cases x)
      (auto simp: verifier_items_def fixed_def strip_def
        intro!: parses_look parses_bind [OF parses_positions] parses_bind [where m = "parseVerifier _ _"] parses_return)
  done

lemma parses_repeat_custom:
  assumes "0 \<le> Custom_Version c" "Custom_Version c \<le> max_int64" "CustomBlock rp = None"
  shows "parses (repeat_custom nodeID (rp, False, False)) (custom_items (Some c) @ ks)
    (\<lambda>x. x = (rp\<lparr>CustomBlock := Some c\<rparr>, False, False)) ks"
  using parses_custom [OF assms(1,2), of ks] assms(3)
  by (auto simp: repeat_custom_def custom_items_def fixed_def
      intro!: parses_look parses_bind [OF parses_positions] parses_bind [where m = parseCustomBlockRef] parses_return)

text \<open>A turn of the loop at a custom block, and at an identifier.\<close>

lemma parses_repeat_step_custom:
  assumes "parses (repeat_custom nodeID st) (fixed tokenCustomBlock # ks) X ks'"
  shows "parses (repeat_step secret nodeID st) (fixed tokenCustomBlock # ks) X ks'"
  unfolding repeat_step_def by (rule parses_look) (use assms in \<open>simp add: strip_def fixed_def\<close>)

lemma parses_repeat_step_at:
  assumes "parses (repeat_child secret st) (fixed tokenAt # ks) X ks'"
  shows "parses (repeat_step secret nodeID st) (fixed tokenAt # ks) X ks'"
  unfolding repeat_step_def by (rule parses_look) (use assms in \<open>simp add: strip_def fixed_def\<close>)

text \<open>What the numbers and texts of a program must be, for its text to be read back.\<close>

definition repeat_fits :: "(str \<Rightarrow> bool) \<Rightarrow> repeat_node \<Rightarrow> bool" where
  "repeat_fits secret rp \<longleftrightarrow> 0 \<le> Repeat_Max rp \<and> Repeat_Max rp \<le> max_int64
     \<and> (\<forall>c. CustomBlock rp = Some c \<longrightarrow> 0 \<le> Custom_Version c \<and> Custom_Version c \<le> max_int64)
     \<and> \<not> secret (AgentPrompt (Agent rp)) \<and> \<not> secret (Verifier_Command (Verifier rp)) \<and> \<not> secret (Verifier_Accept (Verifier rp))"

lemma at_items: "id_items n @ ks = fixed tokenAt # tl (id_items n) @ ks"
  by (simp add: id_items_def)

lemma parses_repeat_nodes:
  assumes "repeat_fits secret rp"
  shows "parses (State (repeat_loop secret nodeID (rp0, False, False)))
    (id_items (Agent_NodeID (Agent rp)) @ agent_items (Agent rp) @ id_items (Verifier_NodeID (Verifier rp))
      @ verifier_items (Verifier rp) @ fixed tokenRBrace # ks)
    (\<lambda>x. x = (rp0\<lparr>Agent := Agent rp, Verifier := Verifier rp\<rparr>, True, True)) (fixed tokenRBrace # ks)"
proof -
  have secrets: "\<not> secret (AgentPrompt (Agent rp))" "\<not> secret (Verifier_Command (Verifier rp))"
    "\<not> secret (Verifier_Accept (Verifier rp))"
    using assms by (simp_all add: repeat_fits_def)
  note child = parses_repeat_child [where secret = secret and a = "Agent rp" and b = False and rp = rp0, OF secrets(1)]
  note verifier = parses_repeat_verifier [where secret = secret and v = "Verifier rp" and b = True, OF secrets(2,3)]
  note fst_at = fixed_fst [of tokenAt]
  show ?thesis
    apply (subst at_items)
    apply (rule repeat_while(2), simp, simp)
     apply (rule parses_repeat_step_at, fold at_items, rule child)
    apply (subst at_items)
    apply (rule repeat_while(2), simp, simp)
     apply (rule parses_repeat_step_at, fold at_items, rule verifier)
    unfolding fixed_def
    apply (rule parses_weaken [OF repeat_while(1)])
    by simp_all
qed

lemma parses_repeat_body:
  assumes "repeat_fits secret rp" "CustomBlock rp0 = None"
  shows "parses (State (repeat_loop secret nodeID (rp0, False, False)))
    (custom_items (CustomBlock rp) @ id_items (Agent_NodeID (Agent rp)) @ agent_items (Agent rp)
      @ id_items (Verifier_NodeID (Verifier rp)) @ verifier_items (Verifier rp) @ fixed tokenRBrace # ks)
    (\<lambda>x. x = (rp0\<lparr>CustomBlock := CustomBlock rp, Agent := Agent rp, Verifier := Verifier rp\<rparr>, True, True))
    (fixed tokenRBrace # ks)"
proof (cases "CustomBlock rp")
  case None
  have "rp0\<lparr>CustomBlock := None, Agent := Agent rp, Verifier := Verifier rp\<rparr> = rp0\<lparr>Agent := Agent rp, Verifier := Verifier rp\<rparr>"
    using assms(2) by simp
  then show ?thesis
    using parses_repeat_nodes [OF assms(1)] by (simp add: None custom_items_def)
next
  case (Some c)
  have fit: "0 \<le> Custom_Version c" "Custom_Version c \<le> max_int64" using assms(1) Some by (simp_all add: repeat_fits_def)
  have items: "custom_items (Some c) @ ks = fixed tokenCustomBlock # tl (custom_items (Some c)) @ ks" for ks
    by (simp add: custom_items_def)
  show ?thesis
    unfolding Some
    apply (subst items)
    apply (rule repeat_while(2), simp, simp)
     apply (rule parses_repeat_step_custom, fold items, rule parses_repeat_custom [OF fit assms(2)])
    by (rule parses_weaken [OF parses_repeat_nodes [OF assms(1)]]) simp
qed

lemma parses_repeat:
  assumes "repeat_fits secret rp"
  shows "parses (parseRepeat secret (Repeat_NodeID rp)) (repeat_items rp @ ks) (\<lambda>x. x = rp) ks"
proof -
  have fit: "0 \<le> Repeat_Max rp" "Repeat_Max rp \<le> max_int64" using assms by (simp_all add: repeat_fits_def)
  let ?rp0 = "no_repeat\<lparr>Repeat_NodeID := Repeat_NodeID rp, Repeat_LocalID := Repeat_LocalID rp, Repeat_Max := Repeat_Max rp,
      Until := \<lparr>RefLocalID = RefLocalID (Until rp), RefField = RefField (Until rp)\<rparr>\<rparr>"
  have none: "CustomBlock ?rp0 = None" by (simp add: no_repeat_def)
  show ?thesis
    unfolding parseRepeat_def repeat_items_def repeat_head_def append_Cons append_Nil append_assoc
    apply (rule parses_bind [OF parses_fixed], rule parses_bind [OF parses_ident], rule parses_bind [OF parses_fixed])
    apply (rule parses_bind [OF parses_field [OF parses_number [OF fit]]], rule parses_bind [OF parses_fixed])
    apply (rule parses_bind [OF parses_field [OF parses_reference]], rule parses_bind [OF parses_fixed],
        rule parses_bind [OF parses_fixed])
    apply (rule parses_bind)
     apply (simp only:)
     apply (rule parses_repeat_body [OF assms none])
    apply (simp only: case_prod_conv simp_thms if_True if_False)
    apply (rule parses_bind [OF parses_fixed])
    apply (simp add: parses_return no_repeat_def)
    done
qed

lemma parses_program_limits:
  assumes "numbers_fit lim"
  shows "parses (program_step secret (lp, False, b, c)) (limits_items lim @ ks)
    (\<lambda>x. x = (lp\<lparr>Limits := lim\<rparr>, True, b, c)) ks"
  using parses_limits [OF assms, of ks]
  by (auto simp: program_step_def limits_items_def fixed_def strip_def once_def
      intro!: parses_look parses_bind [OF parses_positions] parses_bind [where m = parseLimits] parses_return)

lemma parses_program_failure:
  assumes "policy = FailurePause \<or> policy = FailureFail"
  shows "parses (program_step secret (lp, a, b, False)) (failure_items policy @ ks)
    (\<lambda>x. x = (lp\<lparr>FailurePolicy := policy\<rparr>, a, b, True)) ks"
  using parses_failure [OF assms, of ks]
  by (auto simp: program_step_def failure_items_def fixed_def strip_def once_def
      intro!: parses_look parses_bind [OF parses_positions] parses_bind [where m = parseFailurePolicy] parses_return)

lemma parses_program_repeat:
  assumes "repeat_fits secret rp"
  shows "parses (program_step secret (lp, a, False, b)) (id_items (Repeat_NodeID rp) @ repeat_items rp @ ks)
    (\<lambda>x. x = (lp\<lparr>Repeat := rp\<rparr>, a, True, b)) ks"
proof -
  have items: "repeat_items rp @ ks = fixed tokenRepeat # tl (repeat_items rp) @ ks"
    by (simp add: repeat_items_def repeat_head_def)
  have "parses (parseNodeID \<bind> (\<lambda>(childID, childPosition). ls_current \<bind> (\<lambda>u.
      (if tk_kind u = tokenRepeat
       then once False ''loop.structure.repeat-count'' ''exactly one repeat is allowed'' childID (lp, a, False, b)
         (set_positions (\<lambda>q. q\<lparr>pos_repeat := childPosition\<rparr>) \<bind> (\<lambda>_. parseRepeat secret childID \<bind>
           (\<lambda>rp. State_Monad.return (lp\<lparr>Repeat := rp\<rparr>, a, True, b))))
       else failCurrent ''loop.syntax.unknown'' ''unknown attributed loop node'' childID \<bind>
         (\<lambda>_. State_Monad.return (lp, a, False, b))))))
     (id_items (Repeat_NodeID rp) @ repeat_items rp @ ks) (\<lambda>x. x = (lp\<lparr>Repeat := rp\<rparr>, a, True, b)) ks"
    apply (rule parses_bind [OF parses_id])
    subgoal for x
      using parses_repeat [OF assms, of ks] unfolding items
      by (cases x)
        (auto simp: strip_def fixed_def once_def
          intro!: parses_look parses_bind [OF parses_positions] parses_bind [where m = "parseRepeat _ _"] parses_return)
    done
  then show ?thesis
    unfolding program_step_def case_prod_conv at_items
    by (intro parses_look) (simp add: strip_def fixed_def)
qed

definition program_fits :: "(str \<Rightarrow> bool) \<Rightarrow> loop_program \<Rightarrow> bool" where
  "program_fits secret prog \<longleftrightarrow> SchemaVersion prog = 1 \<and> numbers_fit (Limits (Loop prog)) \<and> repeat_fits secret (Repeat (Loop prog))
     \<and> (FailurePolicy (Loop prog) = FailurePause \<or> FailurePolicy (Loop prog) = FailureFail)"

lemma parses_has_failed: "parses has_failed ks (\<lambda>x. x = False) ks"
  by (auto simp: parses_def has_failed_def failed_def intro: exI [of _ False])

lemma parses_program:
  assumes "program_fits secret prog"
  shows "parses (loop_parseProgram secret) (format_items prog) (\<lambda>x. x = Some prog) []"
proof -
  let ?lp = "Loop prog"
  have fit: "numbers_fit (Limits ?lp)" "repeat_fits secret (Repeat ?lp)"
    "FailurePolicy ?lp = FailurePause \<or> FailurePolicy ?lp = FailureFail" "SchemaVersion prog = 1"
    using assms by (simp_all add: program_fits_def)
  have heads: "limits_items l @ ks = fixed tokenLimits # tl (limits_items l) @ ks"
    "failure_items p @ ks = fixed tokenOnFailure # tl (failure_items p) @ ks" for l p ks
    by (simp_all add: limits_items_def failure_items_def)
  have body: "parses (State (program_loop secret (lp0, False, False, False)))
      (limits_items (Limits ?lp) @ id_items (Repeat_NodeID (Repeat ?lp)) @ repeat_items (Repeat ?lp)
        @ failure_items (FailurePolicy ?lp) @ fixed tokenRBrace # ks)
      (\<lambda>x. x = (lp0\<lparr>Limits := Limits ?lp, Repeat := Repeat ?lp, FailurePolicy := FailurePolicy ?lp\<rparr>, True, True, True))
      (fixed tokenRBrace # ks)" for lp0 ks
    apply (subst heads(1), rule program_while(2), simp, simp, fold heads(1), rule parses_program_limits [OF fit(1)])
    apply (subst at_items, rule program_while(2), simp, simp, fold at_items, rule parses_program_repeat [OF fit(2)])
    apply (subst heads(2), rule program_while(2), simp, simp, fold heads(2), rule parses_program_failure [OF fit(3)])
    unfolding fixed_def
    by (rule parses_weaken [OF program_while(1)]) simp_all
  show ?thesis
    unfolding loop_parseProgram_def format_items_def append_Cons append_Nil append_assoc
    apply (rule parses_bind [OF parses_id])
    subgoal for x
      apply (cases x, simp only: case_prod_conv fst_conv)
      apply (rule parses_bind [OF parses_has_failed], simp only: if_False)
      apply (rule parses_bind [OF parses_positions], rule parses_bind [OF parses_fixed], rule parses_bind [OF parses_ident],
          rule parses_bind [OF parses_fixed])
      apply (rule parses_bind [OF body])
      apply (simp only: case_prod_conv)
      apply (rule parses_bind [OF parses_fixed], rule parses_bind [OF parses_expect], rule parses_bind [OF parses_has_failed])
      using fit(4) by (simp add: parses_return)
    done
qed

end
