(* ===== verification/LoopYields.thy ===== *)
theory LoopYields
  imports LoopParses
begin

text \<open>
  What a loop script the parser accepts is like. \<open>regular\<close> methods keep a failure, the diagnostics
  and the readable identifiers of the tokens; \<open>yields m P\<close> says that the value of \<open>m\<close> satisfies \<open>P\<close>
  unless a failure or a diagnostic was noted. \<open>parsed_readable\<close>: the identifiers of an accepted program
  are readable and its numbers fit 64 bits.
\<close>

subsection \<open>Regular methods\<close>

definition good :: "loop_parser \<Rightarrow> bool" where
  "good p \<longleftrightarrow> (\<forall>t\<in>set (unread p). tk_kind t = tokenIdent \<longrightarrow> readable (tk_lit t))"

definition regular :: "'a parse \<Rightarrow> bool" where
  "regular m \<longleftrightarrow> (\<forall>p x p'. run_state m p = (x, p') \<longrightarrow>
     (failed p \<longrightarrow> failed p') \<and> (good p \<longrightarrow> good p') \<and> (semanticDiagnostics p' = [] \<longrightarrow> semanticDiagnostics p = []))"

text \<open>The result when nothing was found wrong: it has the property, and no text was redacted.\<close>

definition yields :: "'a parse \<Rightarrow> ('a \<Rightarrow> bool) \<Rightarrow> bool" where
  "yields m P \<longleftrightarrow> regular m \<and> (\<forall>p x p'. run_state m p = (x, p') \<longrightarrow> good p \<longrightarrow> \<not> failed p' \<longrightarrow>
     semanticDiagnostics p' = [] \<longrightarrow> P x \<and> redactions p' = redactions p)"

named_theorems regular_intros \<open>methods that keep failures, diagnostics and good tokens\<close>

lemma regular_bind [regular_intros]:
  assumes "regular m" "\<And>x. regular (f x)"
  shows "regular (m \<bind> f)"
  unfolding regular_def
proof (intro allI impI)
  fix p y p'
  assume "run_state (m \<bind> f) p = (y, p')"
  then obtain x p1 where "run_state m p = (x, p1)" "run_state (f x) p1 = (y, p')" by (auto split: prod.splits)
  then show "(failed p \<longrightarrow> failed p') \<and> (good p \<longrightarrow> good p') \<and> (semanticDiagnostics p' = [] \<longrightarrow> semanticDiagnostics p = [])"
    using assms unfolding regular_def by metis
qed

lemma regular_return [regular_intros]: "regular (State_Monad.return x)"
  by (simp add: regular_def)

lemma regular_cases [regular_intros]:
  "(b \<Longrightarrow> regular m) \<Longrightarrow> (\<not> b \<Longrightarrow> regular n) \<Longrightarrow> regular (if b then m else n)"
  "regular m' \<Longrightarrow> (\<And>v. regular (g v)) \<Longrightarrow> regular (case x of None \<Rightarrow> m' | Some v \<Rightarrow> g v)"
  "(\<And>a b. regular (h a b)) \<Longrightarrow> regular (case y of (a, b) \<Rightarrow> h a b)"
  by (auto split: option.split prod.split)

lemma good_tl: "good p \<Longrightarrow> good (p\<lparr>unread := tl (unread p)\<rparr>)"
  by (cases "unread p") (auto simp: good_def)

lemma regular_primitive [regular_intros]:
  "regular ls_current" "regular ls_advance" "regular (failAt c m node pos)" "regular (addSecretDiagnostic node pos)"
  "regular (set_positions g)" "regular (set_redactions h)" "regular has_failed"
  using good_tl
  by (auto simp: regular_def ls_current_def ls_advance_def failAt_def addSecretDiagnostic_def set_positions_def
      set_redactions_def has_failed_def failed_def good_def)

lemma regular_failCurrent [regular_intros]: "regular (failCurrent c m node)"
  unfolding failCurrent_def by (intro regular_intros)

lemma regular_expect [regular_intros]: "regular (ls_expect k)"
proof -
  have "regular (failCurrent c m node)" "regular ls_advance" for c m node by (intro regular_intros)+
  then show ?thesis by (auto simp: regular_def ls_expect_def split: if_splits)
qed

lemma regular_take [regular_intros]:
  "regular takeIdentifier" "regular (takeInteger k)" "regular takeString"
  "regular (takeGuardedText secret node expected allowed)"
  unfolding takeIdentifier_def takeInteger_def takeString_def takeGuardedText_def
  by (intro regular_intros)+

lemma regular_field [regular_intros]: "regular m \<Longrightarrow> regular (field k m)"
  unfolding field_def by (intro regular_intros)

lemma regular_nodes [regular_intros]:
  "regular parseNodeID" "regular parseLimits" "regular parseReference" "regular parseCustomBlockRef"
  "regular (parseAgent secret nodeID)" "regular (parseVerifier secret nodeID)" "regular parseFailurePolicy"
  unfolding parseNodeID_def parseLimits_def parseReference_def parseCustomBlockRef_def
    parseAgent_def parseVerifier_def parseFailurePolicy_def
  by (intro regular_intros)+

lemma regular_steps [regular_intros]:
  "regular (repeat_custom nodeID st)" "regular (repeat_child secret st)" "regular (repeat_step secret nodeID st)"
  unfolding repeat_step_def repeat_custom_def repeat_child_def by (intro regular_intros)+

lemma regular_while:
  assumes "\<And>st p. L st p = (if block_ends p then (st, p) else case run_state (step st) p of (st', p') \<Rightarrow> L st' p')"
    "\<And>st. takes (step st)" "\<And>st. regular (step st)"
  shows "regular (State (L st))"
proof -
  have "L st p = (x, p') \<longrightarrow> (failed p \<longrightarrow> failed p') \<and> (good p \<longrightarrow> good p')
      \<and> (semanticDiagnostics p' = [] \<longrightarrow> semanticDiagnostics p = [])" for st p x p'
  proof (induction "if failed p then 0 else Suc (length (unread p))" arbitrary: st p rule: less_induct)
    case less
    show ?case
    proof (cases "block_ends p")
      case True
      then show ?thesis by (simp add: assms(1) [of st p])
    next
      case False
      obtain st1 p1 where step: "run_state (step st) p = (st1, p1)" by fastforce
      then show ?thesis
        using less [OF takes_step [OF assms(2) step not_block_ends [OF False]], of st1] assms(3) [of st] False
        unfolding regular_def by (simp add: assms(1) [of st p])
    qed
  qed
  then show ?thesis by (auto simp: regular_def)
qed

lemma yields_while:
  assumes "\<And>st p. L st p = (if block_ends p then (st, p) else case run_state (step st) p of (st', p') \<Rightarrow> L st' p')"
    "\<And>st. takes (step st)" "\<And>st. regular (step st)" "\<And>st. I st \<Longrightarrow> yields (step st) I" "I st"
  shows "yields (State (L st)) I"
proof -
  have r: "regular (State (L st))" for st by (rule regular_while [OF assms(1-3)])
  have "L st p = (x, p') \<longrightarrow> I st \<longrightarrow> good p \<longrightarrow> \<not> failed p' \<longrightarrow> semanticDiagnostics p' = [] \<longrightarrow>
      I x \<and> redactions p' = redactions p" for st p x p'
  proof (induction "if failed p then 0 else Suc (length (unread p))" arbitrary: st p rule: less_induct)
    case less
    show ?case
    proof (cases "block_ends p")
      case True
      then show ?thesis by (simp add: assms(1) [of st p])
    next
      case False
      obtain st1 p1 where step: "run_state (step st) p = (st1, p1)" by fastforce
      have eq: "L st p = L st1 p1" using False step by (simp add: assms(1) [of st p])
      show ?thesis
      proof (intro impI)
        assume l: "L st p = (x, p')" and I: "I st" and g: "good p" and f: "\<not> failed p'" and s: "semanticDiagnostics p' = []"
        have "L st1 p1 = (x, p')" using l eq by simp
        then have "\<not> failed p1" "semanticDiagnostics p1 = []" using r [of st1] f s unfolding regular_def by auto
        moreover have "good p1" using assms(3) step g unfolding regular_def by blast
        moreover have "I st1 \<and> redactions p1 = redactions p"
          using assms(4) [OF I] step g calculation unfolding yields_def by blast
        ultimately show "I x \<and> redactions p' = redactions p"
          using less [OF takes_step [OF assms(2) step not_block_ends [OF False]], of st1] l eq f s by simp
      qed
    qed
  qed
  then show ?thesis using r assms(5) by (auto simp: yields_def)
qed


subsection \<open>What the methods yield\<close>

lemma yields_bind:
  assumes "yields m P" "\<And>x. regular (f x)" "\<And>x. P x \<Longrightarrow> yields (f x) Q"
  shows "yields (m \<bind> f) Q"
  unfolding yields_def
proof (intro conjI allI impI)
  show "regular (m \<bind> f)" using assms(1,2) by (simp add: yields_def regular_bind)
next
  fix p y p'
  assume r: "run_state (m \<bind> f) p = (y, p')" and g: "good p" and n: "\<not> failed p'" "semanticDiagnostics p' = []"
  obtain x p1 where s: "run_state m p = (x, p1)" "run_state (f x) p1 = (y, p')" using r by (auto split: prod.splits)
  have "\<not> failed p1" "semanticDiagnostics p1 = []" using assms(2) s(2) n unfolding regular_def by blast+
  then have x: "P x" "redactions p1 = redactions p" and g1: "good p1"
    using assms(1) s(1) g unfolding yields_def regular_def by blast+
  then show "Q y" "redactions p' = redactions p"
    using assms(3) [OF x(1)] s(2) n unfolding yields_def by auto
qed

lemma yieldsI:
  assumes "regular m" "\<And>p x p'. run_state m p = (x, p') \<Longrightarrow> \<not> failed p' \<Longrightarrow> P x \<and> redactions p' = redactions p"
  shows "yields m P"
  using assms by (simp add: yields_def)

lemma yields_return: "P x \<Longrightarrow> yields (State_Monad.return x) P"
  by (simp add: yields_def regular_return)

lemma yields_regular: "yields m P \<Longrightarrow> regular m"
  by (simp add: yields_def)

lemma yields_weaken: "yields m P \<Longrightarrow> (\<And>x. P x \<Longrightarrow> Q x) \<Longrightarrow> yields m Q"
  unfolding yields_def by blast

lemma yields_if:
  "(b \<Longrightarrow> yields m P) \<Longrightarrow> (\<not> b \<Longrightarrow> yields n P) \<Longrightarrow> yields (if b then m else n) P"
  by simp

text \<open>After a failure or a diagnostic nothing is claimed.\<close>

lemma yields_void:
  "yields (failAt c m node pos) (\<lambda>_. False)" "yields (failCurrent c m node) (\<lambda>_. False)"
  "yields (addSecretDiagnostic node pos) (\<lambda>_. False)"
  using regular_primitive regular_failCurrent
  by (auto simp: yields_def failAt_def failCurrent_def addSecretDiagnostic_def ls_current_def failed_def)

lemmas yields_fail = yields_bind [OF yields_void(1)] yields_bind [OF yields_void(2)] yields_bind [OF yields_void(3)]

lemma yields_expect: "yields (ls_expect k) (\<lambda>_. True)"
  by (rule yieldsI [OF regular_expect])
    (auto simp: ls_expect_def ls_advance_def failCurrent_def failAt_def ls_current_def failed_def split: if_splits)

lemma yields_plain:
  "yields ls_advance (\<lambda>_. True)" "yields (set_positions f) (\<lambda>_. True)" "yields (ls_expect k) (\<lambda>_. True)"
  "yields has_failed (\<lambda>_. True)" "(\<And>r. h r = r) \<Longrightarrow> yields (set_redactions h) (\<lambda>_. True)"
proof -
  show "yields ls_advance (\<lambda>_. True)" "yields (set_positions f) (\<lambda>_. True)" "yields has_failed (\<lambda>_. True)"
    by (rule yieldsI [OF regular_primitive(2)] yieldsI [OF regular_primitive(5)] yieldsI [OF regular_primitive(7)];
        auto simp: ls_advance_def set_positions_def has_failed_def)+
  assume "\<And>r. h r = r"
  then show "yields (set_redactions h) (\<lambda>_. True)"
    by (intro yieldsI [OF regular_primitive(6)]) (auto simp: set_redactions_def)
qed (rule yields_expect)

lemma yields_current: "yields ls_current (\<lambda>t. tk_kind t = tokenIdent \<longrightarrow> readable (tk_lit t))"
  using regular_primitive
  by (auto simp: yields_def ls_current_def current_token_def good_def mk_ls_token_def split: list.splits)

lemma yields_identifier: "yields takeIdentifier readable"
  unfolding takeIdentifier_def
  by (rule yields_bind [OF yields_current])
    (auto intro!: regular_intros yields_if yields_fail yields_bind [OF yields_plain(1)] yields_return)

definition fits :: "int \<Rightarrow> bool" where
  "fits i \<longleftrightarrow> 0 \<le> i \<and> i \<le> max_int64"

lemma parse_int64_fits: "ls_parse_int64 s = Some i \<Longrightarrow> fits i"
  by (auto simp: ls_parse_int64_def fits_def max_int64_def split: if_splits)

lemma yields_integer: "yields (takeInteger k) fits"
  unfolding takeInteger_def
  apply (rule yields_bind [OF yields_current])
   apply (intro regular_intros)
  subgoal for t
    by (cases "ls_parse_int64 (ls_trim_suffix (tk_lit t) ''m'')")
      (auto intro!: regular_intros yields_if yields_fail yields_bind [OF yields_plain(1)] yields_return parse_int64_fits)
  done

lemma yields_string: "yields takeString (\<lambda>_. True)"
  unfolding takeString_def
  by (rule yields_bind [OF yields_current])
    (auto intro!: regular_intros yields_if yields_fail yields_bind [OF yields_plain(1)] yields_return)

lemma yields_guarded: "yields (takeGuardedText secret node expected allowed) (\<lambda>x. \<not> snd x)"
  unfolding takeGuardedText_def
  by (rule yields_bind [OF yields_current])
    (auto intro!: regular_intros yields_if yields_fail yields_bind [OF yields_plain(1)] yields_return)

lemma yields_field: "yields m P \<Longrightarrow> yields (field k m) P"
  unfolding field_def
  by (intro yields_bind [OF yields_plain(3)] regular_intros) (auto dest: yields_regular)

lemmas yields_fails = yields_fail yields_bind [OF yields_if [OF yields_void(2) yields_void(2)]]

lemmas yields_steps = yields_bind [OF yields_plain(1)] yields_bind [OF yields_plain(2)] yields_bind [OF yields_plain(3)]

lemma yields_node_id: "yields parseNodeID (\<lambda>x. readable (fst x))"
  unfolding parseNodeID_def
  by (rule yields_bind [OF yields_current])
    (auto intro!: regular_intros yields_if yields_fail yields_steps yields_bind [OF yields_identifier] yields_return)

lemma yields_limits: "yields parseLimits numbers_fit"
  unfolding parseLimits_def
  by (intro yields_steps yields_bind [OF yields_field [OF yields_integer]] regular_intros yields_return)
    (simp add: numbers_fit_def readable_limits_def fits_def)

lemma yields_reference: "yields parseReference (\<lambda>r. readable (RefLocalID r) \<and> readable (RefField r))"
  unfolding parseReference_def
  by (intro yields_steps yields_bind [OF yields_identifier] regular_intros yields_return) simp

lemma yields_custom: "yields parseCustomBlockRef readable_custom"
  unfolding parseCustomBlockRef_def
  by (intro yields_steps yields_bind [OF yields_field [OF yields_integer]] yields_bind [OF yields_field [OF yields_identifier]]
      yields_bind [OF yields_field [OF yields_string]] regular_intros yields_return)
    (simp add: readable_custom_def fits_def)

definition agent_fits :: "agent_node \<Rightarrow> bool" where
  "agent_fits a \<longleftrightarrow> readable (Agent_NodeID a) \<and> readable (Agent_LocalID a)"

definition verifier_fits :: "verifier_node \<Rightarrow> bool" where
  "verifier_fits v \<longleftrightarrow> readable (Verifier_NodeID v) \<and> readable (Verifier_LocalID v)"

text \<open>The text read and its note of a redaction, before the rest of a node.\<close>

lemma yields_text:
  assumes "\<And>v. regular (f v)" "\<And>v. yields (f v) Q" "\<And>r. h False r = r"
  shows "yields (takeGuardedText secret node expected allowed \<bind> (\<lambda>(v, b). set_redactions (h b) \<bind> (\<lambda>_. f v))) Q"
  apply (rule yields_bind [OF yields_guarded])
   apply (intro regular_intros assms(1))
  subgoal for x
    by (cases x) (auto intro!: yields_bind [OF yields_plain(5)] assms)
  done

lemma yields_agent: "readable nodeID \<Longrightarrow> yields (parseAgent secret nodeID) agent_fits"
  unfolding parseAgent_def
  by (intro yields_steps yields_bind [OF yields_identifier] yields_text regular_intros yields_return)
    (simp_all add: agent_fits_def)

lemma yields_verifier: "readable nodeID \<Longrightarrow> yields (parseVerifier secret nodeID) verifier_fits"
  unfolding parseVerifier_def
  by (intro yields_steps yields_bind [OF yields_identifier] yields_text regular_intros yields_return)
    (simp_all add: verifier_fits_def)

lemma yields_failure: "yields parseFailurePolicy (\<lambda>s. s = FailurePause \<or> s = FailureFail)"
  unfolding parseFailurePolicy_def
  by (intro yields_steps yields_bind [OF yields_current] yields_if yields_fail regular_intros yields_return) simp_all

subsection \<open>The loops\<close>

definition repeat_inv :: "repeat_state \<Rightarrow> bool" where
  "repeat_inv st = (case st of (rp, hasAgent, hasVerifier) \<Rightarrow>
     readable (Repeat_NodeID rp) \<and> readable (Repeat_LocalID rp) \<and> fits (Repeat_Max rp)
     \<and> readable (RefLocalID (Until rp)) \<and> readable (RefField (Until rp))
     \<and> (case CustomBlock rp of None \<Rightarrow> True | Some c \<Rightarrow> readable_custom c)
     \<and> (hasAgent \<longrightarrow> agent_fits (Agent rp)) \<and> (hasVerifier \<longrightarrow> verifier_fits (Verifier rp)))"

lemma yields_repeat_step: "repeat_inv st \<Longrightarrow> yields (repeat_step secret nodeID st) repeat_inv"
proof -
  assume inv: "repeat_inv st"
  have "yields (repeat_custom nodeID st) repeat_inv"
    using inv unfolding repeat_custom_def
    by (cases st)
      (auto simp: repeat_inv_def
        intro!: yields_if yields_fail yields_steps yields_bind [OF yields_current] yields_bind [OF yields_custom]
        regular_intros yields_return)
  moreover have "yields (repeat_child secret st) repeat_inv"
    unfolding repeat_child_def
    apply (cases st, simp only: case_prod_conv)
    apply (rule yields_bind [OF yields_node_id], intro regular_intros)
    subgoal for rp hasAgent hasVerifier x
      using inv
      by (cases x)
        (auto simp: repeat_inv_def
          intro!: yields_if yields_fail yields_steps yields_bind [OF yields_current] yields_bind [OF yields_agent]
          yields_bind [OF yields_verifier] regular_intros yields_return)
    done
  ultimately show ?thesis
    unfolding repeat_step_def
    by (intro yields_bind [OF yields_current] yields_if yields_fails regular_intros) simp_all
qed

lemmas repeat_whiles = takes_repeat_step regular_steps(3)

lemma regular_repeat [regular_intros]: "regular (State (repeat_loop secret nodeID st))" "regular (parseRepeat secret nodeID)"
proof -
  show loop: "regular (State (repeat_loop secret nodeID st))" for st
    by (rule regular_while [OF repeat_loop.simps repeat_whiles])
  show "regular (parseRepeat secret nodeID)"
    unfolding parseRepeat_def by (intro regular_intros loop)
qed

definition repeat_ok :: "repeat_node \<Rightarrow> bool" where
  "repeat_ok rp \<longleftrightarrow> readable_repeat rp \<and> Repeat_Max rp \<le> max_int64"

lemma repeat_inv_ok: "repeat_inv (rp, True, True) \<Longrightarrow> repeat_ok rp"
  by (simp add: repeat_inv_def repeat_ok_def readable_repeat_def fits_def agent_fits_def verifier_fits_def)

lemma yields_repeat:
  assumes "readable nodeID"
  shows "yields (parseRepeat secret nodeID) repeat_ok"
proof -
  have "repeat_inv (no_repeat\<lparr>Repeat_NodeID := nodeID, Repeat_LocalID := l, Repeat_Max := m, Until := u\<rparr>, False, False)"
    if "readable l" "fits m" "readable (RefLocalID u) \<and> readable (RefField u)" for l m u
    using that assms by (simp add: repeat_inv_def no_repeat_def)
  note loop = yields_while [OF repeat_loop.simps repeat_whiles yields_repeat_step this]
  show ?thesis
    unfolding parseRepeat_def
    apply (intro yields_steps yields_bind [OF yields_identifier] yields_bind [OF yields_field [OF yields_integer]]
        yields_bind [OF yields_field [OF yields_reference]] regular_intros)
    apply (rule yields_bind [OF loop], assumption+, intro regular_intros)
    subgoal for _ l _ m _ u _ _ x
      by (cases x, cases "fst (snd x)"; cases "snd (snd x)")
        (auto intro!: yields_steps yields_bind [OF yields_void(2)] regular_intros yields_return repeat_inv_ok)
    done
qed

subsection \<open>The program\<close>

definition program_inv :: "program_state \<Rightarrow> bool" where
  "program_inv st = (case st of (lp, hasLimits, hasRepeat, hasFailure) \<Rightarrow>
     readable (Loop_NodeID lp) \<and> readable (Loop_LocalID lp)
     \<and> (hasLimits \<longrightarrow> numbers_fit (Limits lp)) \<and> (hasRepeat \<longrightarrow> repeat_ok (Repeat lp))
     \<and> (hasFailure \<longrightarrow> FailurePolicy lp = FailurePause \<or> FailurePolicy lp = FailureFail))"

lemma regular_once [regular_intros]: "regular body \<Longrightarrow> regular (once again c m node st body)"
  unfolding once_def by (intro regular_intros)

lemma yields_once: "(\<not> again \<Longrightarrow> yields body P) \<Longrightarrow> yields (once again c m node st body) P"
  unfolding once_def by (intro yields_if yields_fail regular_intros) simp_all

lemma regular_program_step: "regular (program_step secret st)"
  unfolding program_step_def
  apply (intro regular_intros)
  subgoal for lp rest hasLimits rest' hasRepeat hasFailure t
    by (cases "tk_kind t") (auto intro!: regular_intros)
  done

lemma yields_program_step: "program_inv st \<Longrightarrow> yields (program_step secret st) program_inv"
proof -
  assume inv: "program_inv st"
  obtain lp hasLimits hasRepeat hasFailure where st: "st = (lp, hasLimits, hasRepeat, hasFailure)" by (cases st)
  have at: "yields (parseNodeID \<bind> f) program_inv"
    if "\<And>x. regular (f x)" "\<And>a b. readable a \<Longrightarrow> yields (f (a, b)) program_inv"
    for f :: "str \<times> sourcePosition \<Rightarrow> program_state parse"
    using that by (intro yields_bind [OF yields_node_id]) (auto split: prod.splits)
  show ?thesis
    using inv unfolding program_step_def st case_prod_conv
    apply (intro yields_bind [OF yields_current])
    subgoal for t by (cases "tk_kind t") (auto intro!: regular_intros)
    subgoal for t
      by (cases "tk_kind t")
        (auto simp: program_inv_def
          intro!: at yields_if yields_fail yields_once yields_steps yields_bind [OF yields_current] yields_bind [OF yields_limits]
          yields_bind [OF yields_failure] yields_bind [OF yields_repeat] regular_intros yields_return)
    done
qed

lemma regular_program_loop [regular_intros]: "regular (State (program_loop secret st))"
  by (rule regular_while [OF program_loop.simps takes_program_step regular_program_step])

definition program_parsed :: "loop_program option \<Rightarrow> bool" where
  "program_parsed program \<longleftrightarrow> (\<forall>prog. program = Some prog \<longrightarrow> SchemaVersion prog = 1 \<and> readable_program prog
     \<and> numbers_fit (Limits (Loop prog)) \<and> repeat_ok (Repeat (Loop prog)))"

lemma program_inv_parsed:
  "program_inv (lp, True, True, True) \<Longrightarrow> program_parsed (Some \<lparr>SchemaVersion = 1, Loop = lp\<rparr>)"
  by (simp add: program_inv_def program_parsed_def readable_program_def numbers_fit_def repeat_ok_def)

lemma regular_missing [regular_intros]: "regular (failMissingStructure a b c)"
  unfolding failMissingStructure_def by (intro regular_intros)

lemma yields_program: "yields (loop_parseProgram secret) program_parsed"
proof -
  have "program_inv (\<lparr>Loop_NodeID = n, Loop_LocalID = l, Limits = no_limits, Repeat = no_repeat, FailurePolicy = []\<rparr>,
      False, False, False)" if "readable n" "readable l" for n l
    using that by (simp add: program_inv_def)
  note loop = yields_while [OF program_loop.simps takes_program_step regular_program_step yields_program_step this]
  have none: "yields (State_Monad.return None) program_parsed" by (rule yields_return) (simp add: program_parsed_def)
  have missing: "yields (failMissingStructure a b c \<bind> (\<lambda>_. State_Monad.return None)) program_parsed" for a b c
    unfolding failMissingStructure_def
    by (intro yields_bind [where P = "\<lambda>_. True"] yields_if yields_weaken [OF yields_void(2)] regular_intros none yields_return)
      simp_all
  have case4: "yields (case y of (a, b, c, d) \<Rightarrow> f a b c d) Q" if "\<And>a b c d. y = (a, b, c, d) \<Longrightarrow> yields (f a b c d) Q"
    for y :: program_state and f and Q :: "loop_program option \<Rightarrow> bool"
    using that by (cases y) simp
  show ?thesis
    unfolding loop_parseProgram_def
    apply (rule yields_bind [OF yields_node_id], intro regular_intros)
    subgoal for x
      apply (cases x, simp only: case_prod_conv fst_conv)
      apply (intro yields_bind [OF yields_plain(4)] yields_if none yields_steps yields_bind [OF yields_identifier] regular_intros)
      apply (rule yields_bind [OF loop], assumption+, intro regular_intros)
      apply (rule case4)
      by (auto intro!: yields_steps yields_bind [OF yields_plain(4)] yields_if none missing regular_intros yields_return
          program_inv_parsed)
    done
qed

text \<open>The identifiers among the tokens of a text are readable.\<close>

lemma scan_idents: "(tokenIdent, v) \<in> set (ls_scan s) \<Longrightarrow> readable v"
proof (induction s rule: ls_scan.induct)
  case (1 s)
  then show ?case
    by (subst (asm) (2) ls_scan.simps) (auto split: list.splits prod.splits if_splits dest: ident_readable)
qed

lemma good_new_parser: "good (new_parser (lex s))"
proof -
  have "readable (tk_lit t)" if "t \<in> set (lex s)" "tk_kind t = tokenIdent" for t
  proof (rule scan_idents)
    have "strip t \<in> set (map strip (lex s))" using that(1) by simp
    then show "(tokenIdent, tk_lit t) \<in> set (ls_scan s)" using that(2) by (simp only: strip_lex) (simp add: strip_def)
  qed
  then show ?thesis by (simp add: good_def new_parser_def)
qed

lemma parsed_readable:
  assumes "run_state (loop_parseProgram secret) (new_parser (lex s)) = (Some prog, p')" "failure p' = None"
    "semanticDiagnostics p' = []"
  shows "SchemaVersion prog = 1" "readable_program prog" "numbers_fit (Limits (Loop prog))" "repeat_ok (Repeat (Loop prog))"
    "redactions p' = no_redactions"
proof -
  have "program_parsed (Some prog) \<and> redactions p' = redactions (new_parser (lex s))"
    using yields_program [of secret] assms good_new_parser [of s] unfolding yields_def failed_def by blast
  then show "SchemaVersion prog = 1" "readable_program prog" "numbers_fit (Limits (Loop prog))"
    "repeat_ok (Repeat (Loop prog))" "redactions p' = no_redactions"
    by (simp_all add: program_parsed_def new_parser_def)
qed

end
