(* ===== verification/LoopRoundtrip.thy ===== *)
theory LoopRoundtrip
  imports LoopYields
begin

text \<open>
  The properties of the loop scripts: the validator decides the well-formedness of a program
  whatever the positions (\<open>program_ok\<close>), the canonical text of a parsed program is printed and parses
  to the same program, what a compiled program promises the goal loop, and a limit of the
  printer.
\<close>

subsection \<open>Well-formed programs\<close>

text \<open>What validation stands for, with no word of diagnostics or positions.\<close>

definition node_ids :: "loop_program \<Rightarrow> str list" where
  "node_ids prog = (let lp = Loop prog; rp = Repeat lp
     in [Loop_NodeID lp, Repeat_NodeID rp, Agent_NodeID (Agent rp), Verifier_NodeID (Verifier rp)])"

definition local_ids :: "loop_program \<Rightarrow> str list" where
  "local_ids prog = (let lp = Loop prog; rp = Repeat lp
     in [Loop_LocalID lp, Repeat_LocalID rp, Agent_LocalID (Agent rp), Verifier_LocalID (Verifier rp)])"

definition is_slug :: "str \<Rightarrow> bool" where
  "is_slug s \<longleftrightarrow> slug_Validate s = None"

definition custom_ok :: "str list \<Rightarrow> custom_block option \<Rightarrow> bool" where
  "custom_ok ids custom = (case custom of
       None \<Rightarrow> True
     | Some c \<Rightarrow> is_slug (Custom_NodeID c) \<and> Custom_NodeID c \<notin> set ids \<and> DefinitionID c \<noteq> [] \<and> is_slug (Custom_Slug c)
         \<and> 1 \<le> Custom_Version c \<and> is_digest (DefinitionDigest c))"

definition upto :: "int \<Rightarrow> int \<Rightarrow> bool" where
  "upto hi i \<longleftrightarrow> 1 \<le> i \<and> i \<le> hi"

definition limits_ok :: "limits \<Rightarrow> bool" where
  "limits_ok l \<longleftrightarrow> upto 100 (Iterations l) \<and> upto max_int64 (Tokens l) \<and> upto 1440 (TimeoutMins l)
     \<and> upto 20 (NoProgress l) \<and> upto 20 (SameError l)"

definition text_ok :: "(str \<Rightarrow> bool) \<Rightarrow> str \<Rightarrow> bool" where
  "text_ok secret s \<longleftrightarrow> \<not> secret s \<and> trim_space s \<noteq> []"

definition program_ok :: "(str \<Rightarrow> bool) \<Rightarrow> loop_program \<Rightarrow> bool" where
  "program_ok secret prog \<longleftrightarrow>
     (let lp = Loop prog; rp = Repeat lp
      in SchemaVersion prog = 1
       \<and> list_all is_slug (node_ids prog) \<and> distinct (node_ids prog)
       \<and> list_all is_slug (local_ids prog) \<and> distinct (local_ids prog)
       \<and> custom_ok (node_ids prog) (CustomBlock rp)
       \<and> limits_ok (Limits lp) \<and> upto 100 (Repeat_Max rp) \<and> Repeat_Max rp \<le> Iterations (Limits lp)
       \<and> Until rp = \<lparr>RefLocalID = Verifier_LocalID (Verifier rp), RefField = ''passed''\<rparr>
       \<and> (FailurePolicy lp = FailurePause \<or> FailurePolicy lp = FailureFail)
       \<and> text_ok secret (AgentPrompt (Agent rp)) \<and> text_ok secret (Verifier_Command (Verifier rp))
       \<and> text_ok secret (Verifier_Accept (Verifier rp)))"

lemma not_empty_slug: "is_slug s \<Longrightarrow> s \<noteq> []"
proof -
  have "slug_Validate [] = Some ErrEmpty" by code_simp
  then show "is_slug s \<Longrightarrow> s \<noteq> []" by (auto simp: is_slug_def)
qed

lemma invalid_identifier_Nil: "invalid_identifier v node pos = [] \<longleftrightarrow> is_slug v"
  by (simp add: invalid_identifier_def is_slug_def split: option.split)

lemma check_nodes_Cons:
  "fst (check_nodes ((node, loc, pos) # ns) seen locs) = [] \<longleftrightarrow> is_slug node \<and> is_slug loc \<and> node \<notin> seen \<and> loc \<notin> locs
     \<and> fst (check_nodes ns (insert node seen) (insert loc locs)) = []"
  "is_slug node \<Longrightarrow> snd (check_nodes ((node, loc, pos) # ns) seen locs) = snd (check_nodes ns (insert node seen) (insert loc locs))"
  using not_empty_slug [of node]
  by (auto simp: Let_def duplicate_node_def invalid_identifier_Nil split: prod.splits if_splits)

lemma check_nodes_Nil:
  "fst (check_nodes ns seen locs) = [] \<longleftrightarrow>
     list_all is_slug (map fst ns) \<and> distinct (map fst ns) \<and> set (map fst ns) \<inter> seen = {} \<and>
     list_all is_slug (map (fst \<circ> snd) ns) \<and> distinct (map (fst \<circ> snd) ns) \<and> set (map (fst \<circ> snd) ns) \<inter> locs = {}"
proof (induction ns arbitrary: seen locs)
  case (Cons n ns)
  show ?case by (cases n) (auto simp add: check_nodes_Cons Cons simp del: check_nodes.simps)
qed simp

lemma check_nodes_seen:
  "list_all is_slug (map fst ns) \<Longrightarrow> snd (check_nodes ns seen locs) = seen \<union> set (map fst ns)"
proof (induction ns arbitrary: seen locs)
  case (Cons n ns)
  then show ?case by (cases n) (auto simp add: check_nodes_Cons simp del: check_nodes.simps)
qed simp

lemma custom_Nil: "customBlockDiagnostics custom (set ids) q = [] \<longleftrightarrow> custom_ok ids custom"
  by (cases custom)
    (use not_empty_slug in \<open>auto simp: customBlockDiagnostics_def custom_ok_def Let_def invalid_identifier_Nil duplicate_node_def\<close>)

lemma range_Nil: "rangeDiagnostics lp q = [] \<longleftrightarrow> limits_ok (Limits lp) \<and> upto 100 (Repeat_Max (Repeat lp))"
  by (auto simp: rangeDiagnostics_def range_table_def Let_def limits_ok_def upto_def)

lemma text_Nil:
  "textDiagnostics secret lp q no_redactions = [] \<longleftrightarrow> text_ok secret (AgentPrompt (Agent (Repeat lp)))
     \<and> text_ok secret (Verifier_Command (Verifier (Repeat lp))) \<and> text_ok secret (Verifier_Accept (Verifier (Repeat lp)))"
  by (simp add: textDiagnostics_def text_table_def Let_def text_ok_def no_redactions_def)

lemma validate_Nil: "validateProgram secret (Some prog) q no_redactions = [] \<longleftrightarrow> program_ok secret prog"
proof -
  let ?ns = "programNodes prog q"
  have ids: "map fst ?ns = node_ids prog" "map (fst \<circ> snd) ?ns = local_ids prog"
    by (simp_all add: programNodes_def node_ids_def local_ids_def Let_def)
  have nodes: "fst (check_nodes ?ns {} {}) = [] \<longleftrightarrow>
      list_all is_slug (node_ids prog) \<and> distinct (node_ids prog) \<and> list_all is_slug (local_ids prog) \<and> distinct (local_ids prog)"
    unfolding check_nodes_Nil ids by simp
  have seen: "snd (check_nodes ?ns {} {}) = set (node_ids prog)" if "list_all is_slug (node_ids prog)"
    using check_nodes_seen [of ?ns "{}" "{}"] that unfolding ids by simp
  obtain ds seen where c: "check_nodes ?ns {} {} = (ds, seen)" by fastforce
  have split: "validateProgram secret (Some prog) q no_redactions = [] \<longleftrightarrow>
      SchemaVersion prog = 1 \<and> ds = [] \<and> customBlockDiagnostics (CustomBlock (Repeat (Loop prog))) seen q = []
      \<and> rangeDiagnostics (Loop prog) q = []
      \<and> Until (Repeat (Loop prog)) = \<lparr>RefLocalID = Verifier_LocalID (Verifier (Repeat (Loop prog))), RefField = ''passed''\<rparr>
      \<and> Repeat_Max (Repeat (Loop prog)) \<le> Iterations (Limits (Loop prog))
      \<and> (FailurePolicy (Loop prog) = FailurePause \<or> FailurePolicy (Loop prog) = FailureFail)
      \<and> textDiagnostics secret (Loop prog) q no_redactions = []"
    by (cases "Until (Repeat (Loop prog))") (auto simp: validateProgram_def Let_def c)
  show ?thesis
    using nodes seen
    by (cases "ds = []") (auto simp: split c range_Nil text_Nil custom_Nil program_ok_def Let_def)
qed

text \<open>C5. Validation is a type system: a program has no diagnostics exactly when it is well-formed - its
  node and local identifiers are slugs and pairwise distinct, the custom block's node is a further
  one and its digest a SHA-256, every number is in its range and the repeat bound within the
  iteration limit, the loop ends on the verifier's verdict, and no text is blank or holds a secret -
  whatever the source positions are; and the printer and the compiler refuse exactly the others.\<close>

theorem validateProgram_wellformed:
  "(validateProgram secret (Some prog) q no_redactions = [] \<longleftrightarrow> program_ok secret prog)
   \<and> ((\<exists>text. loop_Format secret (Some prog) = Inr text) \<longleftrightarrow> program_ok secret prog)
   \<and> ((\<exists>spec. CompileGoalLoopV1 secret (Some prog) = Inr spec) \<longleftrightarrow> program_ok secret prog)"
  using validate_Nil [of secret prog q] validate_Nil [of secret prog no_positions]
  by (auto simp: loop_Format_def CompileGoalLoopV1_def split: list.splits)

subsection \<open>There and back\<close>

lemma loop_Parse_accepts:
  "loop_Parse secret source = Some (Some prog, []) \<longleftrightarrow>
     list_all (\<lambda>t. tk_kind t \<noteq> tokenIllegal \<and> tk_kind t \<noteq> tokenBeyond) (lex source)
     \<and> (\<exists>p. run_state (loop_parseProgram secret) (new_parser (lex source)) = (Some prog, p) \<and> failure p = None
          \<and> semanticDiagnostics p = [] \<and> program_ok secret prog)"
  (is "?l \<longleftrightarrow> ?r")
proof -
  obtain program p where run: "run_state (loop_parseProgram secret) (new_parser (lex source)) = (program, p)" by fastforce
  have valid: "validateProgram secret (Some prog) (positions p) (redactions p) = [] \<longleftrightarrow> program_ok secret prog"
    if "program = Some prog" "failure p = None" "semanticDiagnostics p = []"
    using parsed_readable(5) [of secret source prog p] run that validate_Nil by simp
  have find: "List.find P ts = None \<longleftrightarrow> list_all (\<lambda>t. \<not> P t) ts" for P and ts :: "ls_token list"
    by (auto simp: find_None_iff list_all_iff)
  have found: "x \<in> set ts \<and> P x" if "List.find P ts = Some x" for P x and ts :: "ls_token list"
    using that by (auto simp: find_Some_iff)
  show ?thesis
    using valid
    by (auto simp: loop_Parse_def Analyze_def Let_def run find list_all_iff list_ex_iff dest!: found
        split: option.splits if_splits)
qed

lemma format_items_kinds: "list_all (\<lambda>(k, v). k \<noteq> tokenIllegal \<and> k \<noteq> tokenBeyond) (format_items prog)"
  by (auto simp: format_items_def id_items_def limits_items_def repeat_items_def repeat_head_def agent_items_def
      verifier_items_def failure_items_def custom_items_def fixed_def number_item_def prompt_kind_def split: option.split)

text \<open>Any text with the tokens of the canonical one is accepted, however it is spaced.\<close>

lemma loop_Parse_items:
  assumes "program_ok secret prog" "readable_program prog" "ls_scan source = format_items prog"
  shows "loop_Parse secret source = Some (Some prog, [])"
proof -
  have "program_fits secret prog"
    using assms(1,2)
    by (auto simp: program_fits_def numbers_fit_def repeat_fits_def readable_repeat_def readable_program_def custom_ok_def
        readable_custom_def program_ok_def limits_ok_def upto_def text_ok_def max_int64_def Let_def split: option.splits)
  moreover have items: "map strip (lex source) = format_items prog"
    using assms(3) by (simp add: strip_lex)
  ultimately obtain p' where "run_state (loop_parseProgram secret) (new_parser (lex source)) = (Some prog, p')"
    "failure p' = None" "semanticDiagnostics p' = []"
    by (auto simp: new_parser_def elim: parsesE [OF parses_program, where p = "new_parser (lex source)"])
  moreover have "list_all (\<lambda>t. tk_kind t \<noteq> tokenIllegal \<and> tk_kind t \<noteq> tokenBeyond) (lex source)"
    using format_items_kinds [of prog] unfolding items [symmetric] by (simp add: list.pred_map strip_def comp_def)
  ultimately show ?thesis using assms(1) by (simp add: loop_Parse_accepts)
qed

lemma loop_Parse_readable:
  "loop_Parse secret source = Some (Some prog, []) \<Longrightarrow> program_ok secret prog \<and> readable_program prog"
  unfolding loop_Parse_accepts using parsed_readable(2) by blast

lemma Format_ok: "program_ok secret prog \<Longrightarrow> loop_Format secret (Some prog) = Inr (format_text prog)"
  using validate_Nil [of secret prog no_positions] by (simp add: loop_Format_def)

text \<open>C3. Printing and parsing are inverse on everything that parses: when a source text is accepted,
  its program has a canonical text, and parsing that text gives the same program again, with no
  diagnostics, so a stored draft survives any number of rewrites.\<close>

theorem loop_roundtrip:
  assumes "loop_Parse secret source = Some (Some prog, [])"
  shows "loop_Format secret (Some prog) = Inr (format_text prog)
    \<and> loop_Parse secret (format_text prog) = Some (Some prog, [])"
  using loop_Parse_readable [OF assms] by (simp add: Format_ok loop_Parse_items scan_format)

text \<open>A source text with a custom block, spaced unlike the canonical text.\<close>

definition quoted :: "str \<Rightarrow> str" where
  "quoted s = DQUOTE # s @ [DQUOTE]"

definition example_custom :: str where
  "example_custom = ''custom_block(node_id: n-block, definition_id: '' @ quoted ''d-1'' @ '', slug: my-block, version: 2, digest: ''
     @ quoted (replicate 64 (CHR ''a'')) @ '')''"

definition example_source :: str where
  "example_source = [NL] @ ''@id ( n-loop )loop fix-tax{limits(iterations:5,tokens : 80000,timeout:60m ,''
     @ [NL] @ ''no_progress:3, same_error:2) @id(n-cycle) repeat fix-cycle ( max:5, until: tests . passed) { '' @ example_custom
     @ ''@id(n-agent) agent fixer { prompt'' @ triple @ ''fix the tax'' @ triple @ ''} @id(n-tests) verify tests{command ''
     @ quoted ''go test'' @ ''accept '' @ quoted ''all pass'' @ ''}}on_failure pause } ''"

definition example_loop :: loop_program where
  "example_loop = \<lparr>SchemaVersion = 1, Loop = \<lparr>Loop_NodeID = ''n-loop'', Loop_LocalID = ''fix-tax'',
     Limits = \<lparr>Iterations = 5, Tokens = 80000, TimeoutMins = 60, NoProgress = 3, SameError = 2\<rparr>,
     Repeat = \<lparr>Repeat_NodeID = ''n-cycle'', Repeat_LocalID = ''fix-cycle'', Repeat_Max = 5,
       Until = \<lparr>RefLocalID = ''tests'', RefField = ''passed''\<rparr>,
       CustomBlock = Some \<lparr>Custom_NodeID = ''n-block'', DefinitionID = ''d-1'', Custom_Slug = ''my-block'', Custom_Version = 2,
         DefinitionDigest = replicate 64 (CHR ''a'')\<rparr>,
       Agent = \<lparr>Agent_NodeID = ''n-agent'', Agent_LocalID = ''fixer'', AgentPrompt = ''fix the tax''\<rparr>,
       Verifier = \<lparr>Verifier_NodeID = ''n-tests'', Verifier_LocalID = ''tests'', Verifier_Command = ''go test'',
         Verifier_Accept = ''all pass''\<rparr>\<rparr>,
     FailurePolicy = FailurePause\<rparr>\<rparr>"

definition no_secret :: "str \<Rightarrow> bool" where
  "no_secret s \<longleftrightarrow> False"

lemma example_ok: "program_ok no_secret example_loop"
  by code_simp

lemma example_readable: "readable_program example_loop"
  by code_simp

lemma example_parses: "loop_Parse no_secret example_source = Some (Some example_loop, [])"
proof (rule loop_Parse_items [OF example_ok example_readable])
  show "ls_scan example_source = format_items example_loop" by code_simp
qed

theorem loop_roundtrip_witness:
  "loop_Parse no_secret (format_text example_loop) = Some (Some example_loop, [])"
  using loop_roundtrip [OF example_parses] by blast

subsection \<open>What the goal loop is promised\<close>

text \<open>C18. A compiled program is a launch specification within its bounds: 1 to 100 iterations, a positive
  64-bit token budget, a timeout of 1 to 1440 minutes, 1 to 20 turns without progress or with the same
  error, a valid slug as name, a known escalation policy, exactly one acceptance criterion, and
  objective, criterion and command are neither blank nor secret.\<close>

theorem CompileGoalLoopV1_bounds:
  assumes "CompileGoalLoopV1 secret (Some prog) = Inr spec"
  shows "upto 100 (MaxIterations spec) \<and> MaxIterations spec \<le> Iterations (Limits (Loop prog))
    \<and> upto (2 ^ 63 - 1) (TokenBudget spec) \<and> upto 1440 (TimeoutMinutes spec)
    \<and> upto 20 (NoProgressLimit spec) \<and> upto 20 (SameErrorLimit spec)
    \<and> slug_Validate (Launch_Slug spec) = None \<and> EscalationPolicy spec \<in> {''pause'', ''fail''}
    \<and> text_ok secret (Objective spec) \<and> text_ok secret (VerificationCommand spec)
    \<and> map (text_ok secret) (AcceptanceCriteria spec) = [True]"
proof -
  have "program_ok secret prog" "spec = compiled prog"
    using assms validate_Nil [of secret prog no_positions] by (auto simp: CompileGoalLoopV1_def split: list.splits)
  then show ?thesis
    by (auto simp: compiled_def program_ok_def limits_ok_def upto_def local_ids_def is_slug_def Let_def max_int64_def
        FailurePause_def FailureFail_def)
qed

lemma example_compiles: "CompileGoalLoopV1 no_secret (Some example_loop) = Inr (compiled example_loop)"
  using example_ok validate_Nil [of no_secret example_loop no_positions] by (simp add: CompileGoalLoopV1_def)

theorem CompileGoalLoopV1_bounds_witness:
  "upto 100 (MaxIterations (compiled example_loop)) \<and> slug_Validate (Launch_Slug (compiled example_loop)) = None"
  using CompileGoalLoopV1_bounds [OF example_compiles] by blast

subsection \<open>A limit of the printer\<close>

text \<open>Identifiers the validator accepts and the lexer reads as something else: a keyword, a duration, a number.\<close>

definition with_local_id :: "str \<Rightarrow> loop_program" where
  "with_local_id s = example_loop\<lparr>Loop := (Loop example_loop)\<lparr>Loop_LocalID := s\<rparr>\<rparr>"

text \<open>C26. Which programs the printer's text gives back: a well-formed program is always printed, and
  its text parses to it exactly when the lexer reads its identifiers as identifiers. Programs that
  are parsed have such identifiers; one that is built (as the API does from its wire form) may have
  a valid slug that is a keyword, a duration or a number, and its text is not accepted as it.\<close>

theorem Format_parses_back:
  assumes "program_ok secret prog"
  shows "loop_Format secret (Some prog) = Inr (format_text prog)
    \<and> (loop_Parse secret (format_text prog) = Some (Some prog, []) \<longleftrightarrow> readable_program prog)"
  using assms loop_Parse_readable by (blast intro: Format_ok loop_Parse_items scan_format)

lemma keyword_ids_ok: "list_all (\<lambda>s. program_ok no_secret (with_local_id s) \<and> \<not> readable_program (with_local_id s))
    [''loop'', ''agent'', ''30m'', ''42'']"
  by code_simp

theorem Format_parses_back_witness:
  "list_all (\<lambda>s. loop_Format no_secret (Some (with_local_id s)) = Inr (format_text (with_local_id s))
      \<and> loop_Parse no_secret (format_text (with_local_id s)) \<noteq> Some (Some (with_local_id s), []))
    [''loop'', ''agent'', ''30m'', ''42'']"
  using keyword_ids_ok Format_parses_back [of no_secret "with_local_id _"] by (simp only: list.pred_inject) blast

end
