(* ===== verification/GoUrl.thy ===== *)
theory GoUrl
  imports GoQuote RelayHeaders
begin

text \<open>
  What the preview code uses of Go's net/url and path: PathUnescape, URL.EscapedPath, path.Clean and
  path.Join, ParseQuery and Values.Encode. A char is a byte here, as in these functions of Go.
\<close>

subsection \<open>Escapes (net/url)\<close>

definition SLASH :: rune where "SLASH = CHR ''/''"
definition PERCENT :: rune where "PERCENT = CHR 0x25"

text \<open>The modes of unescape and escape: a query component or a path. \<open>None\<close> is the EscapeError.\<close>

fun url_unescape :: "bool \<Rightarrow> str \<Rightarrow> str option" where
  "url_unescape query [] = Some []"
| "url_unescape query (c # cs) =
     (if c = PERCENT
      then (case cs of
              a # b # ds \<Rightarrow> (case (unhex a, unhex b) of
                 (Some x, Some y) \<Rightarrow> map_option (\<lambda>r. char_of (16 * x + y) # r) (url_unescape query ds)
               | _ \<Rightarrow> None)
            | _ \<Rightarrow> None)
      else map_option (\<lambda>r. (if query \<and> c = CHR ''+'' then SP else c) # r) (url_unescape query cs))"

definition PathUnescape :: "str \<Rightarrow> str option" where
  "PathUnescape = url_unescape False"

definition QueryUnescape :: "str \<Rightarrow> str option" where
  "QueryUnescape = url_unescape True"

text \<open>The bytes that shouldEscape leaves, and the escape of a byte.\<close>

definition url_safe :: "bool \<Rightarrow> rune \<Rightarrow> bool" where
  "url_safe query c \<longleftrightarrow> is_lower c \<or> is_upper c \<or> is_digit c \<or> c \<in> set ''-_.~'' \<or> \<not> query \<and> c \<in> set ''$&+,/:;=@''"

definition upper_hex :: "nat \<Rightarrow> rune" where
  "upper_hex d = (if d < 10 then digit_char d else char_of (55 + d))"

definition escape_byte :: "bool \<Rightarrow> rune \<Rightarrow> str" where
  "escape_byte query c =
     (if url_safe query c then [c]
      else if query \<and> c = SP then ''+''
      else [PERCENT, upper_hex (code c div 16), upper_hex (code c mod 16)])"

definition path_escape :: "str \<Rightarrow> str" where
  "path_escape s = concat (map (escape_byte False) s)"

definition QueryEscape :: "str \<Rightarrow> str" where
  "QueryEscape s = concat (map (escape_byte True) s)"

text \<open>(&url.URL{Path: p}).EscapedPath().\<close>

definition EscapedPath :: "str \<Rightarrow> str" where
  "EscapedPath p = (if p = ''*'' then ''*'' else path_escape p)"

subsection \<open>Paths (path)\<close>

text \<open>The elements of a path from left to right, with those kept so far, the last one first.\<close>

fun clean_elements :: "bool \<Rightarrow> str list \<Rightarrow> str list \<Rightarrow> str list" where
  "clean_elements rooted kept [] = rev kept"
| "clean_elements rooted kept (e # es) =
     (if e = [] \<or> e = ''.'' then clean_elements rooted kept es
      else if e = ''..''
      then (case kept of
              [] \<Rightarrow> clean_elements rooted (if rooted then [] else [e]) es
            | k # ks \<Rightarrow> if k = ''..'' then clean_elements rooted (e # kept) es else clean_elements rooted ks es)
      else clean_elements rooted (e # kept) es)"

definition path_Clean :: "str \<Rightarrow> str" where
  "path_Clean p =
     (if p = [] then ''.''
      else (let rooted = (hd p = SLASH); out = join [SLASH] (clean_elements rooted [] (split_on SLASH p))
            in if rooted then SLASH # out else if out = [] then ''.'' else out))"

definition path_Join :: "str \<Rightarrow> str \<Rightarrow> str" where
  "path_Join a b = (if a = [] \<and> b = [] then [] else if a = [] then path_Clean b else path_Clean (a @ SLASH # b))"

subsection \<open>Escaping and unescaping\<close>

lemma unhex_upper_hex: "d < 16 \<Longrightarrow> unhex (upper_hex d) = Some d"
  by (auto simp: unhex_def upper_hex_def digit_char_def is_digit_def code_def less_eq_char_def)

lemma url_unescape_byte: "url_unescape q (escape_byte q c @ s) = map_option (\<lambda>r. c # r) (url_unescape q s)"
proof (cases "url_safe q c \<or> q \<and> c = SP")
  case True
  then have "url_safe q c \<longrightarrow> c \<noteq> PERCENT \<and> (q \<longrightarrow> c \<noteq> CHR ''+'')"
    by (auto simp: url_safe_def PERCENT_def is_lower_def is_upper_def is_digit_def less_eq_char_def code_def)
  moreover have "CHR ''+'' \<noteq> PERCENT" by (simp add: PERCENT_def)
  ultimately show ?thesis using True by (auto simp: escape_byte_def)
next
  case False
  have "code c div 16 < 16" "code c mod 16 < 16" using code_less [of c] by simp_all
  then show ?thesis using False by (auto simp: escape_byte_def unhex_upper_hex)
qed

lemma url_unescape_append:
  "url_unescape q (concat (map (escape_byte q) s) @ t) = map_option (\<lambda>r. s @ r) (url_unescape q t)"
  by (induction s) (simp_all add: url_unescape_byte option.map_comp comp_def option.map_ident)

lemma PathUnescape_escape: "PathUnescape (path_escape s) = Some s"
  using url_unescape_append [of False s "[]"] by (simp add: PathUnescape_def path_escape_def)

lemma QueryUnescape_escape: "QueryUnescape (QueryEscape s) = Some s"
  using url_unescape_append [of True s "[]"] by (simp add: QueryUnescape_def QueryEscape_def)

lemma path_escape_append [simp]: "path_escape (s @ t) = path_escape s @ path_escape t"
  by (simp add: path_escape_def)

lemma path_escape_SLASH [simp]: "path_escape (SLASH # s) = SLASH # path_escape s" "path_escape [] = []"
  by (simp_all add: path_escape_def escape_byte_def url_safe_def SLASH_def)

lemma path_escape_join: "path_escape (join [SLASH] ws) = join [SLASH] (map path_escape ws)"
  by (induction "[SLASH]" ws rule: join.induct) simp_all

lemma hex_bytes: "d < 16 \<Longrightarrow> url_safe True (upper_hex d) \<and> upper_hex d \<noteq> SLASH"
proof -
  have "\<forall>d\<in>set [0..<16]. url_safe True (upper_hex d) \<and> upper_hex d \<noteq> SLASH" by code_simp
  then show "d < 16 \<Longrightarrow> url_safe True (upper_hex d) \<and> upper_hex d \<noteq> SLASH" by simp
qed

lemma hex_of_code:
  "url_safe True (upper_hex (code c div 16))" "url_safe True (upper_hex (code c mod 16))"
  "SLASH \<noteq> upper_hex (code c div 16)" "SLASH \<noteq> upper_hex (code c mod 16)"
proof -
  have "code c div 16 < 16" using code_less [of c] by simp
  then show "url_safe True (upper_hex (code c div 16))" "url_safe True (upper_hex (code c mod 16))"
    "SLASH \<noteq> upper_hex (code c div 16)" "SLASH \<noteq> upper_hex (code c mod 16)"
    using hex_bytes [of "code c div 16"] hex_bytes [of "code c mod 16"] by auto
qed

lemma url_safe_query: "url_safe True c \<Longrightarrow> url_safe q c"
  by (auto simp: url_safe_def)

lemma escape_byte_chars: "x \<in> set (escape_byte q c) \<Longrightarrow> url_safe q x \<or> x = PERCENT \<or> q \<and> x = CHR ''+''"
  using hex_of_code(1,2) [of c, THEN url_safe_query, of q] by (auto simp: escape_byte_def split: if_splits)

lemma path_escape_chars: "x \<in> set (path_escape s) \<Longrightarrow> x \<noteq> CHR ''?'' \<and> x \<noteq> CHR ''#''"
proof -
  have "\<not> url_safe False (CHR ''?'') \<and> \<not> url_safe False (CHR ''#'')" by code_simp
  then show "x \<in> set (path_escape s) \<Longrightarrow> x \<noteq> CHR ''?'' \<and> x \<noteq> CHR ''#''"
    using escape_byte_chars [of x False] by (auto simp: path_escape_def PERCENT_def)
qed

lemma QueryEscape_chars: "x \<in> set (QueryEscape s) \<Longrightarrow> x \<noteq> CHR ''&'' \<and> x \<noteq> CHR ''='' \<and> x \<noteq> CHR '';''"
proof -
  have "\<not> url_safe True (CHR ''&'') \<and> \<not> url_safe True (CHR ''='') \<and> \<not> url_safe True (CHR '';'')" by code_simp
  then show "x \<in> set (QueryEscape s) \<Longrightarrow> x \<noteq> CHR ''&'' \<and> x \<noteq> CHR ''='' \<and> x \<noteq> CHR '';''"
    using escape_byte_chars [of x True] by (auto simp: QueryEscape_def PERCENT_def)
qed

text \<open>An escape keeps what makes an element of a path what it is.\<close>

lemma path_escape_Nil [simp]: "path_escape s = [] \<longleftrightarrow> s = []"
  by (cases s) (auto simp: path_escape_def escape_byte_def)

lemma path_escape_SLASH_free: "SLASH \<in> set (path_escape s) \<longleftrightarrow> SLASH \<in> set s"
proof -
  have "SLASH \<in> set (escape_byte False c) \<longleftrightarrow> c = SLASH" for c
  proof -
    have "url_safe False SLASH" "SLASH \<noteq> PERCENT" by code_simp+
    then show ?thesis using hex_of_code(3,4) [of c] by (auto simp: escape_byte_def)
  qed
  then show ?thesis by (auto simp: path_escape_def)
qed

lemma path_escape_inj: "path_escape s = path_escape t \<longleftrightarrow> s = t"
  using PathUnescape_escape by (metis option.inject)

subsection \<open>Queries (net/url)\<close>

text \<open>url.Values as a map with ordered keys, since Encode sorts them. ParseQuery goes on after an error
  and returns the first one; here the pair of what it read and whether it met one.\<close>

type_synonym url_values = "(str, str list) gomap"

definition values_add :: "str \<Rightarrow> str \<Rightarrow> url_values \<Rightarrow> url_values" where
  "values_add k v m = gm_set k ((case gm_get m k of None \<Rightarrow> [] | Some vs \<Rightarrow> vs) @ [v]) m"

definition query_pair :: "str \<Rightarrow> url_values \<times> bool \<Rightarrow> url_values \<times> bool" where
  "query_pair key acc = (case acc of (m, ok) \<Rightarrow>
     if CHR '';'' \<in> set key then (m, False)
     else if key = [] then (m, ok)
     else (case strings_Cut key (CHR ''='') of (k, v, _) \<Rightarrow>
       (case (QueryUnescape k, QueryUnescape v) of
          (Some k', Some v') \<Rightarrow> (values_add k' v' m, ok)
        | _ \<Rightarrow> (m, False))))"

definition ParseQuery :: "str \<Rightarrow> url_values option" where
  "ParseQuery s = (case fold query_pair (if s = [] then [] else split_on (CHR ''&'') s) ([], True) of
     (m, ok) \<Rightarrow> if ok then Some m else None)"

definition Values_Encode :: "url_values \<Rightarrow> str" where
  "Values_Encode m = join ''&'' (concat (map (\<lambda>(k, vs). map (\<lambda>v. QueryEscape k @ ''='' @ QueryEscape v) vs) m))"

text \<open>Reading an encoded query: every key gets back its values, in a map of the same keys.\<close>

lemma split_join_amp:
  "list_all (\<lambda>e. CHR ''&'' \<notin> set e) (e # es) \<Longrightarrow> split_on (CHR ''&'') (join ''&'' (e # es)) = e # es"
proof (induction es arbitrary: e)
  case (Cons x es)
  then show ?case using split_on_append [of "CHR ''&''" e "join ''&'' (x # es)"] by simp
qed (simp add: split_on_free)

lemma query_pair_encoded:
  "query_pair (QueryEscape k @ ''='' @ QueryEscape v) (m, ok) = (values_add k v m, ok)"
proof -
  have "takeWhile (\<lambda>c. c \<noteq> CHR ''='') (QueryEscape k @ ''='' @ QueryEscape v) = QueryEscape k"
    "dropWhile (\<lambda>c. c \<noteq> CHR ''='') (QueryEscape k @ ''='' @ QueryEscape v) = ''='' @ QueryEscape v"
    using QueryEscape_chars [of _ k] by (subst takeWhile_append2 dropWhile_append2; auto)+
  moreover have "CHR '';'' \<notin> set (QueryEscape k @ ''='' @ QueryEscape v)"
    using QueryEscape_chars [of _ k] QueryEscape_chars [of _ v] by auto
  ultimately show ?thesis by (auto simp: query_pair_def strings_Cut_def QueryUnescape_escape)
qed

definition values_pairs :: "url_values \<Rightarrow> (str \<times> str) list" where
  "values_pairs m = concat (map (\<lambda>(k, vs). map (\<lambda>v. (k, v)) vs) m)"

lemma Values_Encode_pairs:
  "Values_Encode m = join ''&'' (map (\<lambda>(k, v). QueryEscape k @ ''='' @ QueryEscape v) (values_pairs m))"
  by (simp add: Values_Encode_def values_pairs_def map_concat comp_def case_prod_unfold)

lemma fold_query_pairs:
  "fold query_pair (map (\<lambda>(k, v). QueryEscape k @ ''='' @ QueryEscape v) ps) (m, ok) = (fold (\<lambda>(k, v). values_add k v) ps m, ok)"
  by (induction ps arbitrary: m) (auto simp: query_pair_encoded simp del: append.simps)

lemma ParseQuery_Encode: "ParseQuery (Values_Encode m) = Some (fold (\<lambda>(k, v). values_add k v) (values_pairs m) [])"
proof (cases "values_pairs m")
  case (Cons p ps)
  let ?e = "map (\<lambda>(k, v). QueryEscape k @ ''='' @ QueryEscape v) (values_pairs m)"
  have amp: "list_all (\<lambda>e. CHR ''&'' \<notin> set e) ?e" using QueryEscape_chars by (auto simp: list_all_iff)
  have "join ''&'' ?e \<noteq> []" using Cons by (cases ps) (auto split: prod.splits)
  moreover have "split_on (CHR ''&'') (join ''&'' ?e) = ?e"
    using split_join_amp [of "hd ?e" "tl ?e"] amp Cons by simp
  ultimately show ?thesis
    by (simp only: ParseQuery_def Values_Encode_pairs if_False fold_query_pairs) simp
qed (simp add: ParseQuery_def Values_Encode_pairs)

lemma gm_get_values_add:
  "gm_get (values_add k v m) k' = (if k' = k then Some ((case gm_get m k of None \<Rightarrow> [] | Some vs \<Rightarrow> vs) @ [v]) else gm_get m k')"
  by (simp add: values_add_def gomap_simps)

lemma gm_get_fold_values:
  "gm_get (fold (\<lambda>(k, v). values_add k v) ps m) k =
     (let vs = map snd (filter (\<lambda>p. fst p = k) ps)
      in if vs = [] then gm_get m k else Some ((case gm_get m k of None \<Rightarrow> [] | Some ws \<Rightarrow> ws) @ vs))"
  by (induction ps arbitrary: m) (auto simp: gm_get_values_add Let_def split: option.splits)

lemma pairs_of_key:
  "gm_ok m \<Longrightarrow> map snd (filter (\<lambda>p. fst p = k) (values_pairs m)) = (case gm_get m k of None \<Rightarrow> [] | Some vs \<Rightarrow> vs)"
proof (induction m)
  case (Cons e m)
  obtain k' vs where e: "e = (k', vs)" by fastforce
  have "filter (\<lambda>p. fst p = k) (map (\<lambda>v. (k', v)) vs) = (if k' = k then map (\<lambda>v. (k', v)) vs else [])"
    by (induction vs) auto
  moreover have "gm_get m k' = None" using Cons.prems unfolding e by (auto simp: gm_get_def map_of_eq_None_iff)
  ultimately show ?case
    using Cons e by (auto simp: values_pairs_def gm_get_def comp_def)
qed (simp add: values_pairs_def gm_get_def)

lemma query_roundtrip:
  assumes "gm_ok m"
  obtains m' where "ParseQuery (Values_Encode m) = Some m'"
    "\<And>k. gm_get m' k = (case gm_get m k of Some (v # vs) \<Rightarrow> Some (v # vs) | _ \<Rightarrow> None)"
  using ParseQuery_Encode [of m]
  by (rule that) (simp add: gm_get_fold_values pairs_of_key [OF assms] Let_def gm_get_Nil split: option.split list.split)

lemma ParseQuery_ok: "ParseQuery s = Some m \<Longrightarrow> gm_ok m"
proof -
  have pair: "gm_ok (fst (query_pair key acc))" if "gm_ok (fst acc)" for key acc
    using that by (cases acc) (auto simp: query_pair_def values_add_def split: prod.splits option.splits)
  have "gm_ok (fst (fold query_pair ks acc))" if "gm_ok (fst acc)" for ks acc
    using that by (induction ks arbitrary: acc) (auto simp: pair)
  then show "ParseQuery s = Some m \<Longrightarrow> gm_ok m"
    by (auto simp: ParseQuery_def split: prod.splits if_splits) (metis fst_conv gm_ok_Nil)+
qed

end
