(* ===== verification/RelayPreview.thy ===== *)
theory RelayPreview
  imports GoUrl
begin

text \<open>
  The paths of the pod preview: the canonical form in which the backend signs a preview path into a
  token (backend/internal/service/relay/preview.go), the relay's check of it
  (relay/internal/auth/preview_path.go), and the path a browser's request gets below it
  (relay/internal/server/handler_preview.go, handler_preview_route.go). The properties: a
  canonical path is a fixed point that both services agree on, and no request leaves the signed path.
\<close>

subsection \<open>Canonical paths\<close>

datatype preview_error = ErrInvalidToken | ErrPodNotActive | ErrPreviewDisabled | ErrInvalidPreviewPort | ErrInvalidPreviewPath

definition has_dot_dot :: "str \<Rightarrow> bool" where
  "has_dot_dot decoded \<longleftrightarrow> ''..'' \<in> set (split_on SLASH decoded)"

text \<open>The relay's version.\<close>

definition NormalizePreviewPath :: "str \<Rightarrow> preview_error + str" where
  "NormalizePreviewPath raw =
     (if raw = [] \<or> CHR ''?'' \<in> set raw \<or> CHR ''#'' \<in> set raw then Inl ErrInvalidToken
      else (case PathUnescape raw of
              None \<Rightarrow> Inl ErrInvalidToken
            | Some decoded \<Rightarrow>
                if \<not> has_prefix decoded [SLASH] \<or> has_dot_dot decoded then Inl ErrInvalidToken
                else Inr (EscapedPath (path_Clean decoded))))"

text \<open>The backend's version: an empty path is the root, and the column holds 255 bytes.\<close>

definition backend_NormalizePreviewPath :: "str \<Rightarrow> preview_error + str" where
  "backend_NormalizePreviewPath raw =
     (if raw = [] then Inr [SLASH]
      else if CHR ''?'' \<in> set raw \<or> CHR ''#'' \<in> set raw then Inl ErrInvalidPreviewPath
      else (case PathUnescape raw of
              None \<Rightarrow> Inl ErrInvalidPreviewPath
            | Some decoded \<Rightarrow>
                if \<not> has_prefix decoded [SLASH] \<or> has_dot_dot decoded then Inl ErrInvalidPreviewPath
                else (let canonical = EscapedPath (path_Clean decoded)
                      in if length canonical > 255 then Inl ErrInvalidPreviewPath else Inr canonical)))"

definition NormalizePreviewConfig :: "int \<Rightarrow> str \<Rightarrow> preview_error + str" where
  "NormalizePreviewConfig port rawPath =
     (if port \<noteq> 0 \<and> (port < 1024 \<or> port > 65535) then Inl ErrInvalidPreviewPort
      else backend_NormalizePreviewPath rawPath)"

record preview_pod =
  Pod_Active :: bool
  Pod_RunnerID :: int
  Pod_PreviewPort :: int
  Pod_PreviewPath :: str

record preview_route =
  Route_RunnerID :: int
  Route_Target :: str
  Route_Path :: str

definition ResolvePreviewRoute :: "preview_pod option \<Rightarrow> preview_error + preview_route" where
  "ResolvePreviewRoute pod =
     (case pod of
        None \<Rightarrow> Inl ErrPodNotActive
      | Some p \<Rightarrow>
          if \<not> Pod_Active p \<or> Pod_RunnerID p = 0 then Inl ErrPodNotActive
          else if Pod_PreviewPort p = 0 then Inl ErrPreviewDisabled
          else (case NormalizePreviewConfig (Pod_PreviewPort p) (Pod_PreviewPath p) of
                  Inl e \<Rightarrow> Inl e
                | Inr path \<Rightarrow> Inr \<lparr>Route_RunnerID = Pod_RunnerID p,
                     Route_Target = ''127.0.0.1:'' @ show_int (Pod_PreviewPort p), Route_Path = path\<rparr>))"

subsection \<open>The path of a request\<close>

definition trim_prefix :: "str \<Rightarrow> str \<Rightarrow> str" where
  "trim_prefix s p = (if has_prefix s p then drop (length p) s else s)"

definition trim_slash :: "str \<Rightarrow> str" where
  "trim_slash s = (if has_suffix s [SLASH] then butlast s else s)"

definition parsePreviewPath :: "str \<Rightarrow> (str \<times> str) option" where
  "parsePreviewPath p =
     (let trimmed = trim_prefix p ''/preview/''
      in if trimmed = [] \<or> trimmed = p then None
         else Some (takeWhile (\<lambda>c. c \<noteq> SLASH) trimmed, drop 1 (dropWhile (\<lambda>c. c \<noteq> SLASH) trimmed)))"

definition previewHostForPod :: "str \<Rightarrow> str \<Rightarrow> preview_error + str" where
  "previewHostForPod baseHost podKey =
     (if baseHost = [] \<or> podKey = [] then Inl ErrInvalidToken else Inr (podKey @ ''.'' @ baseHost))"

text \<open>The rest of the escaped path of a request to a pod; None is the 404.\<close>

definition escaped_rest :: "str \<Rightarrow> str \<Rightarrow> str option" where
  "escaped_rest podKey escapedPath =
     (let escapedPrefix = ''/preview/'' @ podKey
      in if escapedPath = escapedPrefix then Some []
         else if \<not> has_prefix escapedPath (escapedPrefix @ [SLASH]) then None
         else Some (trim_prefix escapedPath (escapedPrefix @ [SLASH])))"

definition joinPreviewUpstreamPath :: "str \<Rightarrow> str \<Rightarrow> preview_error + str" where
  "joinPreviewUpstreamPath base rest =
     (if rest = [] then Inr base
      else (let requestPath = SLASH # rest
            in case NormalizePreviewPath requestPath of
                 Inl e \<Rightarrow> Inl e
               | Inr normalizedRest \<Rightarrow>
                  (let hasTrailingSlash = has_suffix requestPath [SLASH]
                   in if requestPath \<noteq> normalizedRest \<and> (\<not> hasTrailingSlash \<or> trim_slash requestPath \<noteq> normalizedRest)
                      then Inl ErrInvalidToken
                      else (let joined = path_Join base (trim_prefix normalizedRest [SLASH])
                            in Inr (if hasTrailingSlash \<and> joined \<noteq> [SLASH] then joined @ [SLASH] else joined)))))"

subsection \<open>The form of a canonical path\<close>

definition path_element :: "str \<Rightarrow> bool" where
  "path_element e \<longleftrightarrow> e \<noteq> [] \<and> e \<noteq> ''.'' \<and> e \<noteq> ''..'' \<and> SLASH \<notin> set e"

definition path_of :: "str list \<Rightarrow> str" where
  "path_of es = SLASH # join [SLASH] es"

lemma split_join_SLASH:
  "list_all (\<lambda>e. SLASH \<notin> set e) (e # es) \<Longrightarrow> split_on SLASH (join [SLASH] (e # es)) = e # es"
proof (induction es arbitrary: e)
  case (Cons x es)
  then show ?case using split_on_append [of SLASH e "join [SLASH] (x # es)"] by simp
qed (simp add: split_on_free)

lemma split_path_of:
  "list_all path_element es \<Longrightarrow> split_on SLASH (path_of es) = [] # (if es = [] then [[]] else es)"
  using split_join_SLASH [of "hd es" "tl es"]
  by (cases es) (simp_all add: path_of_def path_element_def list_all_iff)

lemma clean_elements_keep:
  "list_all path_element es \<Longrightarrow> clean_elements rooted kept es = rev kept @ es"
  by (induction es arbitrary: kept) (auto simp: path_element_def)

lemma Clean_path_of: "list_all path_element es \<Longrightarrow> path_Clean (path_of es) = path_of es"
  using clean_elements_keep [of es True "[]"]
  by (simp add: path_Clean_def Let_def split_path_of) (simp add: path_of_def)

lemma clean_elements_elements:
  assumes "list_all path_element kept" "list_all (\<lambda>e. SLASH \<notin> set e) es" "''..'' \<notin> set es"
  shows "list_all path_element (clean_elements True kept es)"
  using assms
proof (induction es arbitrary: kept)
  case (Cons e es)
  have "e \<noteq> ''..''" using Cons.prems(3) by auto
  moreover have "path_element e" if "e \<noteq> []" "e \<noteq> ''.''" using that calculation Cons.prems(2) by (simp add: path_element_def)
  ultimately show ?case using Cons.IH [of kept] Cons.IH [of "e # kept"] Cons.prems by simp
qed (simp add: list_all_iff)

lemma Clean_elements:
  assumes "has_prefix d [SLASH]" "\<not> has_dot_dot d"
  obtains es where "list_all path_element es" "path_Clean d = path_of es"
proof
  let ?es = "clean_elements True [] (split_on SLASH d)"
  show "list_all path_element ?es"
    using assms(2) split_on_parts [of _ SLASH d] by (intro clean_elements_elements) (auto simp: has_dot_dot_def list_all_iff)
  show "path_Clean d = path_of ?es"
    using assms(1) by (cases d) (auto simp: path_Clean_def path_of_def has_prefix_def Let_def)
qed

lemma EscapedPath_of: "EscapedPath (path_of es) = path_of (map path_escape es)"
  by (simp add: EscapedPath_def path_of_def path_escape_join SLASH_def) (simp add: path_escape_join flip: SLASH_def)

lemma has_dot_dot_path_of: "list_all path_element es \<Longrightarrow> \<not> has_dot_dot (path_of es)"
  by (auto simp: has_dot_dot_def split_path_of path_element_def list_all_iff)

lemma path_escape_dots: "path_escape e = ''.'' \<longleftrightarrow> e = ''.''" "path_escape e = ''..'' \<longleftrightarrow> e = ''..''"
proof -
  have "path_escape ''.'' = ''.''" "path_escape ''..'' = ''..''" by code_simp+
  then show "path_escape e = ''.'' \<longleftrightarrow> e = ''.''" "path_escape e = ''..'' \<longleftrightarrow> e = ''..''"
    using path_escape_inj [of e "''.''"] path_escape_inj [of e "''..''"] by simp_all
qed

lemma path_element_escape: "path_element (path_escape e) \<longleftrightarrow> path_element e"
  by (simp add: path_element_def path_escape_SLASH_free path_escape_dots)

lemma path_escape_path_of: "path_escape (path_of es) = path_of (map path_escape es)"
  by (simp add: path_of_def path_escape_join)

lemma escaped_chars: "x \<in> set (path_of (map path_escape es)) \<Longrightarrow> x \<noteq> CHR ''?'' \<and> x \<noteq> CHR ''#''"
  using path_escape_chars [of x "path_of es"] by (auto simp flip: path_escape_path_of)

text \<open>The canonical paths are the escaped paths of elements.\<close>

lemma Normalize_path_of:
  assumes "list_all path_element es"
  shows "NormalizePreviewPath (path_of (map path_escape es)) = Inr (path_of (map path_escape es))"
proof -
  have "PathUnescape (path_of (map path_escape es)) = Some (path_of es)"
    using PathUnescape_escape [of "path_of es"] by (simp add: path_escape_path_of)
  moreover have "has_prefix (path_of es) [SLASH]" by (simp add: path_of_def has_prefix_def)
  moreover have "path_of (map path_escape es) \<noteq> []" by (simp add: path_of_def)
  ultimately show ?thesis
    using escaped_chars [of _ es]
    by (auto simp: NormalizePreviewPath_def has_dot_dot_path_of Clean_path_of EscapedPath_of assms)
qed

lemma Normalize_elements:
  assumes "NormalizePreviewPath raw = Inr out"
  obtains es where "list_all path_element es" "out = path_of (map path_escape es)"
proof -
  obtain d where d: "has_prefix d [SLASH]" "\<not> has_dot_dot d" "out = EscapedPath (path_Clean d)"
    using assms by (auto simp: NormalizePreviewPath_def split: if_splits option.splits)
  obtain es where es: "list_all path_element es" "path_Clean d = path_of es" by (rule Clean_elements [OF d(1,2)])
  then have "out = path_of (map path_escape es)" using d(3) by (simp add: EscapedPath_of)
  then show ?thesis using es(1) that by blast
qed

lemma backend_Normalize:
  "raw \<noteq> [] \<Longrightarrow> backend_NormalizePreviewPath raw =
     (case NormalizePreviewPath raw of Inl _ \<Rightarrow> Inl ErrInvalidPreviewPath
      | Inr p \<Rightarrow> if length p > 255 then Inl ErrInvalidPreviewPath else Inr p)"
  by (auto simp: backend_NormalizePreviewPath_def NormalizePreviewPath_def Let_def split: option.splits)

text \<open>C25. Backend and relay agree on the preview path of a pod, and it is a fixed point: what the backend signs
  into a token is accepted by the relay unchanged and would be signed unchanged again, fits the
  255 bytes of its column, is absolute and has no element that leads upwards when it is decoded.\<close>

theorem preview_path_agreement:
  assumes "backend_NormalizePreviewPath raw = Inr p"
  shows "NormalizePreviewPath p = Inr p \<and> backend_NormalizePreviewPath p = Inr p \<and> length p \<le> 255 \<and> hd p = SLASH
    \<and> (\<exists>d. PathUnescape p = Some d \<and> path_Clean d = d \<and> \<not> has_dot_dot d)"
proof -
  obtain es where es: "list_all path_element es" "p = path_of (map path_escape es)" and len: "length p \<le> 255"
  proof (cases "raw = []")
    case True
    then have "p = path_of (map path_escape [])" using assms by (simp add: backend_NormalizePreviewPath_def path_of_def)
    moreover from this have "length p \<le> 255" by (simp add: path_of_def)
    ultimately show ?thesis using that [of "[]"] by simp
  next
    case False
    then have p: "NormalizePreviewPath raw = Inr p" "length p \<le> 255"
      using assms backend_Normalize [OF False] by (auto split: sum.splits if_splits)
    show ?thesis by (rule Normalize_elements [OF p(1)]) (rule that [OF _ _ p(2)])
  qed
  have "NormalizePreviewPath p = Inr p" using Normalize_path_of [OF es(1)] es(2) by simp
  moreover from this have "backend_NormalizePreviewPath p = Inr p"
    using backend_Normalize [of p] len es(2) by (simp add: path_of_def)
  moreover have "PathUnescape p = Some (path_of es)"
    using PathUnescape_escape [of "path_of es"] es(2) by (simp add: path_escape_path_of)
  ultimately show ?thesis using Clean_path_of [OF es(1)] has_dot_dot_path_of [OF es(1)] es(2) len by (simp add: path_of_def)
qed

theorem preview_path_agreement_witness:
  "NormalizePreviewPath ''/my%20app/x@1'' = Inr ''/my%20app/x@1''"
proof -
  have "backend_NormalizePreviewPath ''/my app/./%78@1//'' = Inr ''/my%20app/x@1''" by code_simp
  then show ?thesis using preview_path_agreement by blast
qed

subsection \<open>Below the signed path\<close>

definition slashed :: "str \<Rightarrow> str" where
  "slashed base = (if base = [SLASH] then base else base @ [SLASH])"

lemma join_snoc: "join [SLASH] (a @ b # bs) = (if a = [] then join [SLASH] (b # bs) else join [SLASH] a @ SLASH # join [SLASH] (b # bs))"
  by (induction "[SLASH]" a rule: join.induct) auto

lemma join_SLASH_Nil: "list_all path_element es \<Longrightarrow> join [SLASH] es = [] \<longleftrightarrow> es = []"
  by (cases "([SLASH], es)" rule: join.cases) (auto simp: path_element_def)

lemma path_of_append:
  "list_all path_element as \<Longrightarrow> bs \<noteq> [] \<Longrightarrow> path_of (as @ bs) = slashed (path_of as) @ join [SLASH] bs"
  using join_SLASH_Nil [of as] by (cases bs) (auto simp: path_of_def slashed_def join_snoc)

lemma split_on_SLASH_append: "split_on SLASH (s @ SLASH # t) = split_on SLASH s @ split_on SLASH t"
proof (induction s)
  case (Cons c s)
  moreover have "split_on SLASH s \<noteq> []" by (cases s) (auto split: list.split)
  ultimately show ?case by (cases "split_on SLASH s") auto
qed simp

lemma path_Join_path_of:
  assumes "list_all path_element as" "list_all path_element bs"
  shows "path_Join (path_of as) (join [SLASH] bs) = path_of (as @ bs)"
proof -
  have free: "list_all (\<lambda>e. SLASH \<notin> set e) es" if "list_all path_element es" for es
    using that by (auto simp: path_element_def list_all_iff)
  have split: "split_on SLASH (join [SLASH] es) = (if es = [] then [[]] else es)" if "list_all path_element es" for es
    using split_join_SLASH [of "hd es" "tl es"] free [OF that] by (cases es) auto
  have skip: "clean_elements True kept (es @ [[]]) = rev kept @ es" if "list_all path_element es" for kept es
    using that by (induction es arbitrary: kept) (auto simp: path_element_def)
  have "clean_elements True [] (split_on SLASH (path_of as @ SLASH # join [SLASH] bs)) = as @ bs"
    using assms
    by (auto simp: split_on_SLASH_append split_path_of split clean_elements_keep skip [of "[]", simplified] skip [of as "[]", simplified] append_assoc [symmetric]
        simp del: append_assoc intro: clean_elements_keep [of "as @ bs" True "[]", simplified])
  then show ?thesis
    by (simp add: path_Join_def path_Clean_def Let_def) (simp add: path_of_def)
qed

lemma suffix_last: "has_suffix s [x] \<Longrightarrow> s = butlast s @ [x]"
  by (auto simp: has_suffix_def suffix_def)

lemma path_of_no_slash: "list_all path_element es \<Longrightarrow> es \<noteq> [] \<Longrightarrow> \<not> has_suffix (path_of es) [SLASH]"
proof -
  assume es: "list_all path_element es" "es \<noteq> []"
  have "last (join [SLASH] es) \<noteq> SLASH \<and> join [SLASH] es \<noteq> []"
    using es
  proof (induction "[SLASH]" es rule: join.induct)
    case (2 w)
    then have "w \<noteq> []" "SLASH \<notin> set w" by (simp_all add: path_element_def)
    then have "last w \<noteq> SLASH" by (metis last_in_set)
    then show ?case using \<open>w \<noteq> []\<close> by simp
  qed simp_all
  then show ?thesis using suffix_last [of "path_of es" SLASH] by (metis last.simps last_snoc path_of_def)
qed

text \<open>Which rests are accepted: the elements of a path, with or without a slash at the end.\<close>

lemma join_accepts:
  assumes "joinPreviewUpstreamPath base rest = Inr p" "rest \<noteq> []"
  obtains (path) es where "list_all path_element es" "es \<noteq> []" "rest = join [SLASH] (map path_escape es)"
      "p = path_Join base rest"
  | (dir) es where "list_all path_element es" "rest = join [SLASH] (map path_escape es) @ [SLASH]"
      "p = slashed (path_Join base (join [SLASH] (map path_escape es)))"
proof -
  obtain n where n: "NormalizePreviewPath (SLASH # rest) = Inr n"
    and shape: "SLASH # rest = n \<or> has_suffix (SLASH # rest) [SLASH] \<and> trim_slash (SLASH # rest) = n"
    and p: "p = (let joined = path_Join base (trim_prefix n [SLASH])
      in if has_suffix (SLASH # rest) [SLASH] \<and> joined \<noteq> [SLASH] then joined @ [SLASH] else joined)"
    using assms by (auto simp: joinPreviewUpstreamPath_def Let_def split: sum.splits if_splits)
  obtain es where es: "list_all path_element es" "n = path_of (map path_escape es)" by (rule Normalize_elements [OF n])
  have esc: "list_all path_element (map path_escape es)" using es(1) by (simp add: list.pred_map comp_def path_element_escape)
  have tl: "trim_prefix n [SLASH] = join [SLASH] (map path_escape es)" using es(2) by (simp add: trim_prefix_def has_prefix_def path_of_def)
  show thesis
  proof (cases "SLASH # rest = n")
    case True
    then have r: "rest = join [SLASH] (map path_escape es)" using es(2) by (simp add: path_of_def)
    then have "es \<noteq> []" using assms(2) by auto
    moreover from this have "\<not> has_suffix (SLASH # rest) [SLASH]" using path_of_no_slash [OF esc] True es(2) by simp
    ultimately show thesis using path [OF es(1) _ r] p tl r by (simp add: Let_def)
  next
    case False
    then have s: "has_suffix (SLASH # rest) [SLASH]" "trim_slash (SLASH # rest) = n" using shape by simp_all
    then have "SLASH # rest = n @ [SLASH]" using suffix_last [of "SLASH # rest"] by (simp add: trim_slash_def)
    then have "rest = join [SLASH] (map path_escape es) @ [SLASH]" using es(2) by (simp add: path_of_def)
    then show thesis using dir [OF es(1)] p s(1) tl by (simp add: Let_def slashed_def)
  qed
qed

text \<open>C8. No request leaves the path signed into its token: whatever a browser asks for below a pod's
  preview, the path sent to the pod is the signed path itself or the signed path, a slash, and exactly
  the text the browser sent, and decoded it has no element that leads upwards; all else is refused.\<close>

theorem joinPreviewUpstreamPath_stays:
  assumes "NormalizePreviewPath base = Inr base" "joinPreviewUpstreamPath base rest = Inr p"
  shows "p = (if rest = [] then base else if rest = [SLASH] then slashed base else slashed base @ rest)
    \<and> (\<exists>d. PathUnescape p = Some d \<and> \<not> has_dot_dot d)"
proof -
  obtain bs where bs: "list_all path_element bs" "base = path_of (map path_escape bs)"
    by (rule Normalize_elements [OF assms(1)])
  have esc: "list_all path_element (map path_escape es)" if "list_all path_element es" for es
    using that by (simp add: list.pred_map comp_def path_element_escape)
  have decoded: "PathUnescape (path_of (map path_escape es)) = Some (path_of es)" for es
    using PathUnescape_escape [of "path_of es"] by (simp add: path_escape_path_of)
  have decoded_dir: "PathUnescape (path_of (map path_escape es) @ [SLASH]) = Some (path_of es @ [SLASH])" for es
    using PathUnescape_escape [of "path_of es @ [SLASH]"] by (simp add: path_escape_path_of)
  have dots_dir: "\<not> has_dot_dot (path_of es @ [SLASH])" if "list_all path_element es" for es
    using has_dot_dot_path_of [OF that] split_on_SLASH_append [of "path_of es" "[]"] by (simp add: has_dot_dot_def)
  have joined: "path_Join base (join [SLASH] (map path_escape es)) = path_of (map path_escape (bs @ es))"
    if "list_all path_element es" for es
    using path_Join_path_of [OF esc [OF bs(1)] esc [OF that]] bs(2) by simp
  show ?thesis
  proof (cases "rest = []")
    case True
    then have "p = base" using assms(2) by (simp add: joinPreviewUpstreamPath_def)
    then show ?thesis using True bs decoded [of bs] has_dot_dot_path_of [OF bs(1)] by simp
  next
    case False
    show ?thesis
    proof (rule join_accepts [OF assms(2) False])
      fix es
      assume es: "list_all path_element es" "es \<noteq> []" "rest = join [SLASH] (map path_escape es)" "p = path_Join base rest"
      have p: "p = path_of (map path_escape (bs @ es))" using joined [OF es(1)] es(3,4) by simp
      then have "p = slashed base @ rest" using path_of_append [OF esc [OF bs(1)], of "map path_escape es"] bs(2) es(2,3) by simp
      moreover have "rest \<noteq> [SLASH]"
        using path_of_no_slash [OF esc [OF es(1)]] es(2,3) by (auto simp: path_of_def has_suffix_def suffix_def)
      ultimately show ?thesis using False p decoded [of "bs @ es"] has_dot_dot_path_of [of "bs @ es"] bs(1) es(1) by simp
    next
      fix es
      assume es: "list_all path_element es" "rest = join [SLASH] (map path_escape es) @ [SLASH]"
        "p = slashed (path_Join base (join [SLASH] (map path_escape es)))"
      have p: "p = slashed (path_of (map path_escape (bs @ es)))" using joined [OF es(1)] es(3) by simp
      show ?thesis
      proof (cases "bs @ es = []")
        case True
        then show ?thesis using p es(2) bs(2) decoded [of "[]"] has_dot_dot_path_of [of "[]"] by (simp add: path_of_def slashed_def)
      next
        case False
        then have "path_of (map path_escape (bs @ es)) \<noteq> [SLASH]"
          using path_of_no_slash [OF esc, of "bs @ es"] bs(1) es(1) by (auto simp: has_suffix_def)
        then have p': "p = path_of (map path_escape (bs @ es)) @ [SLASH]" using p by (simp add: slashed_def)
        have "p = (if rest = [SLASH] then slashed base else slashed base @ rest)"
        proof (cases "es = []")
          case False
          then have "rest \<noteq> [SLASH]" using join_SLASH_Nil [OF esc [OF es(1)]] es(2) by simp
          then show ?thesis
            using False p' path_of_append [OF esc [OF bs(1)], of "map path_escape es"] bs(2) es(2) by simp
        qed (use p es(2) bs(2) in simp)
        then show ?thesis
          using \<open>rest \<noteq> []\<close> p' decoded_dir [of "bs @ es"] dots_dir [of "bs @ es"] bs(1) es(1) by simp
      qed
    qed
  qed
qed

theorem joinPreviewUpstreamPath_stays_witness:
  "\<exists>d. PathUnescape ''/app/v1/my%20file/'' = Some d \<and> \<not> has_dot_dot d"
proof -
  have "NormalizePreviewPath ''/app'' = Inr ''/app''"
    "joinPreviewUpstreamPath ''/app'' ''v1/my%20file/'' = Inr ''/app/v1/my%20file/''" by code_simp+
  then show ?thesis using joinPreviewUpstreamPath_stays by blast
qed

end
