(* ===== verification/RelayAccess.thy ===== *)
theory RelayAccess
  imports RelayPreview
begin

text \<open>
  Who may see a pod's preview: the claims of relay tokens and their checks (relay/internal/auth/token.go,
  preview_session_issuer.go, backend/internal/service/relay/preview_token.go), the exchange of a
  bootstrap token for a session, and the handler of a preview request up to the proxy
  (relay/internal/server/handler_preview*.go, preview_query.go, preview_session_cookie.go). Parameters: the JWT library
  (\<open>jwt\<close> gives the claims of a token with a valid signature and expiry), the backend's answers, the
  tunnel registry and the limiter.
\<close>

subsection \<open>Claims (token.go)\<close>

datatype token_error = TokenInvalid | TokenExpired

record relay_claims =
  clm_PodKey :: str
  clm_RunnerID :: int
  clm_UserID :: int
  clm_OrgID :: int
  clm_TokenType :: str
  clm_PreviewTarget :: str
  clm_PreviewPath :: str
  clm_PreviewOrigin :: str
  clm_Issuer :: str
  clm_Subject :: str
  clm_ID :: str
  clm_Audience :: "str list"
  clm_ExpiresAt :: int

definition TokenTypeRunner :: str where "TokenTypeRunner = ''runner''"
definition TokenTypeBrowser :: str where "TokenTypeBrowser = ''browser''"
definition TokenTypePreviewBootstrap :: str where "TokenTypePreviewBootstrap = ''preview_bootstrap''"
definition TokenTypePreviewSession :: str where "TokenTypePreviewSession = ''preview_session''"

definition IsRunnerToken :: "relay_claims \<Rightarrow> bool" where
  "IsRunnerToken c \<longleftrightarrow> clm_UserID c = 0"

definition IsBrowserToken :: "relay_claims \<Rightarrow> bool" where
  "IsBrowserToken c \<longleftrightarrow> clm_UserID c \<noteq> 0"

definition ResolvedType :: "relay_claims \<Rightarrow> str" where
  "ResolvedType c =
     (if clm_TokenType c \<noteq> [] then clm_TokenType c
      else if clm_UserID c = 0 then TokenTypeRunner else TokenTypeBrowser)"

definition preview_claims_ok :: "relay_claims \<Rightarrow> bool" where
  "preview_claims_ok c \<longleftrightarrow>
     NormalizePreviewPath (clm_PreviewPath c) = Inr (clm_PreviewPath c) \<and> clm_PreviewTarget c \<noteq> []
     \<and> clm_PreviewOrigin c \<noteq> [] \<and> clm_ID c \<noteq> [] \<and> clm_Audience c = [clm_PreviewOrigin c]"

type_synonym jwt_library = "str \<Rightarrow> token_error + relay_claims"

definition ValidateToken :: "jwt_library \<Rightarrow> str \<Rightarrow> str \<Rightarrow> token_error + relay_claims" where
  "ValidateToken jwt issuer tokenString =
     (case jwt tokenString of
        Inl e \<Rightarrow> Inl e
      | Inr claims \<Rightarrow>
          if issuer \<noteq> [] \<and> clm_Issuer claims \<noteq> issuer then Inl TokenInvalid
          else if (ResolvedType claims = TokenTypePreviewBootstrap \<or> ResolvedType claims = TokenTypePreviewSession)
               \<and> \<not> preview_claims_ok claims
          then Inl TokenInvalid
          else Inr claims)"

definition ValidatePreviewToken :: "jwt_library \<Rightarrow> str \<Rightarrow> str \<Rightarrow> str \<Rightarrow> str \<Rightarrow> token_error + relay_claims" where
  "ValidatePreviewToken jwt issuer tokenString tokenType previewOrigin =
     (if tokenType \<noteq> TokenTypePreviewBootstrap \<and> tokenType \<noteq> TokenTypePreviewSession then Inl TokenInvalid
      else (case ValidateToken jwt issuer tokenString of
              Inl e \<Rightarrow> Inl e
            | Inr claims \<Rightarrow>
                if clm_TokenType claims \<noteq> tokenType \<or> clm_PreviewOrigin claims \<noteq> previewOrigin then Inl TokenInvalid
                else Inr claims))"

text \<open>The claims of the bootstrap token the backend makes, and of the session token the relay makes from it.\<close>

datatype issue_error = PodKeyMissing | TargetMissing | OriginMissing | BadPath preview_error | BadExpiry | NotBootstrap

definition GeneratePreviewBootstrapToken ::
    "str \<Rightarrow> str \<Rightarrow> int \<Rightarrow> str \<Rightarrow> int \<Rightarrow> int \<Rightarrow> int \<Rightarrow> str \<Rightarrow> str \<Rightarrow> str \<Rightarrow> int \<Rightarrow> issue_error + relay_claims" where
  "GeneratePreviewBootstrapToken issuer uuid now podKey runnerID userID orgID previewTarget previewPath previewOrigin expiry =
     (if podKey = [] then Inl PodKeyMissing
      else if previewTarget = [] then Inl TargetMissing
      else if previewOrigin = [] then Inl OriginMissing
      else (case backend_NormalizePreviewPath previewPath of
              Inl e \<Rightarrow> Inl (BadPath e)
            | Inr normalizedPath \<Rightarrow>
                if expiry \<le> 0 then Inl BadExpiry
                else Inr \<lparr>clm_PodKey = podKey, clm_RunnerID = runnerID, clm_UserID = userID, clm_OrgID = orgID,
                       clm_TokenType = TokenTypePreviewBootstrap, clm_PreviewTarget = previewTarget,
                       clm_PreviewPath = normalizedPath, clm_PreviewOrigin = previewOrigin, clm_Issuer = issuer,
                       clm_Subject = podKey, clm_ID = uuid, clm_Audience = [previewOrigin], clm_ExpiresAt = now + expiry\<rparr>))"

definition Issue :: "str \<Rightarrow> str \<Rightarrow> int \<Rightarrow> relay_claims option \<Rightarrow> int \<Rightarrow> issue_error + relay_claims" where
  "Issue issuer sessionID now bootstrap expiry =
     (case bootstrap of
        None \<Rightarrow> Inl NotBootstrap
      | Some b \<Rightarrow>
          if clm_TokenType b \<noteq> TokenTypePreviewBootstrap then Inl NotBootstrap
          else if expiry \<le> 0 then Inl BadExpiry
          else Inr \<lparr>clm_PodKey = clm_PodKey b, clm_RunnerID = clm_RunnerID b, clm_UserID = clm_UserID b,
                 clm_OrgID = clm_OrgID b, clm_TokenType = TokenTypePreviewSession, clm_PreviewTarget = clm_PreviewTarget b,
                 clm_PreviewPath = clm_PreviewPath b, clm_PreviewOrigin = clm_PreviewOrigin b, clm_Issuer = issuer,
                 clm_Subject = clm_PodKey b, clm_ID = sessionID, clm_Audience = [clm_PreviewOrigin b],
                 clm_ExpiresAt = now + expiry\<rparr>)"

subsection \<open>The surroundings of the handler\<close>

text \<open>\<open>cfg_PublicOrigin\<close> is what url.Parse makes of the configured origin: scheme, host and host name.\<close>

datatype cookie_mode = PreviewCookieSameSite | PreviewCookiePartitioned | OtherCookieMode str

record preview_config =
  cfg_Issuer :: str
  cfg_PublicOrigin :: "(str \<times> str \<times> str) option"
  cfg_PublicHost :: str
  cfg_CookieSecure :: bool
  cfg_CookieMode :: cookie_mode

record session_identity =
  ident_ID :: str
  ident_PodKey :: str
  ident_UserID :: int
  ident_OrgID :: int

datatype authorize_answer = Authorized | SessionUnauthorized | AuthorizeFailed
datatype redeem_answer = Redeemed | BootstrapConsumed | RedeemFailed
datatype limiter_answer = Acquired | TargetBusy | RequestCancelled

text \<open>The relay's partners; whether there is a session issuer; None is a missing backend.\<close>

record preview_env =
  env_jwt :: jwt_library
  env_issuer :: bool
  env_authorize :: "(session_identity \<Rightarrow> authorize_answer) option"
  env_redeem :: "str \<Rightarrow> session_identity \<Rightarrow> redeem_answer"
  env_has_tunnel :: "int \<Rightarrow> bool"
  env_acquire :: "str \<Rightarrow> limiter_answer"

definition EqualFold :: "str \<Rightarrow> str \<Rightarrow> bool" where
  "EqualFold s t \<longleftrightarrow> to_lower s = to_lower t"

definition previewOriginForPod :: "(str \<times> str \<times> str) option \<Rightarrow> str \<Rightarrow> preview_error + str" where
  "previewOriginForPod baseOrigin podKey =
     (case baseOrigin of
        None \<Rightarrow> Inl ErrInvalidToken
      | Some (scheme, host, hostname) \<Rightarrow>
          if scheme = [] \<or> hostname = [] then Inl ErrInvalidToken
          else (case previewHostForPod host podKey of Inl e \<Rightarrow> Inl e | Inr h \<Rightarrow> Inr (scheme @ ''://'' @ h)))"

definition previewSessionIdentity :: "relay_claims \<Rightarrow> session_identity" where
  "previewSessionIdentity c =
     \<lparr>ident_ID = clm_ID c, ident_PodKey = clm_PodKey c, ident_UserID = clm_UserID c, ident_OrgID = clm_OrgID c\<rparr>"

text \<open>None is the error of ParseQuery.\<close>

definition previewRawQuery :: "str \<Rightarrow> str option" where
  "previewRawQuery rawQuery = map_option (\<lambda>query. Values_Encode (gm_del ''token'' query)) (ParseQuery rawQuery)"

definition previewCookieName :: str where "previewCookieName = ''gw_preview''"

record proxy_params =
  pp_PodKey :: str
  pp_Target :: str
  pp_Path :: str
  pp_RawQuery :: str
  pp_HiddenCookieName :: str
  pp_ExpectedOrigin :: str

datatype preview_outcome = NotFound | PreviewError str nat | Proxied proxy_params

subsection \<open>A preview request (handler_preview.go, handler_preview_auth.go, handler_preview_route.go)\<close>

text \<open>\<open>Inl\<close> is the response already written.\<close>

definition requirePublicHost :: "preview_config \<Rightarrow> str \<Rightarrow> str \<Rightarrow> preview_outcome option" where
  "requirePublicHost cfg host urlPath =
     (case parsePreviewPath urlPath of
        None \<Rightarrow> Some NotFound
      | Some (podKey, _) \<Rightarrow>
          (case previewHostForPod (cfg_PublicHost cfg) podKey of
             Inl _ \<Rightarrow> Some (PreviewError ''misdirected_request'' 421)
           | Inr expectedHost \<Rightarrow>
               if \<not> EqualFold host expectedHost then Some (PreviewError ''misdirected_request'' 421) else None))"

definition authenticate :: "preview_config \<Rightarrow> preview_env \<Rightarrow> str \<Rightarrow> str \<Rightarrow> preview_outcome + relay_claims" where
  "authenticate cfg env token podKey =
     (if token = [] then Inl (PreviewError ''token_required'' 401)
      else (case previewOriginForPod (cfg_PublicOrigin cfg) podKey of
              Inl _ \<Rightarrow> Inl (PreviewError ''invalid_token'' 401)
            | Inr expectedOrigin \<Rightarrow>
                (case ValidatePreviewToken (env_jwt env) (cfg_Issuer cfg) token TokenTypePreviewSession expectedOrigin of
                   Inl _ \<Rightarrow> Inl (PreviewError ''invalid_token'' 401)
                 | Inr claims \<Rightarrow>
                     if clm_PodKey claims \<noteq> podKey then Inl (PreviewError ''invalid_token'' 401)
                     else (case env_authorize env of
                             None \<Rightarrow> Inl (PreviewError ''preview_session_unavailable'' 503)
                           | Some authorize \<Rightarrow>
                               (case authorize (previewSessionIdentity claims) of
                                  Authorized \<Rightarrow> Inr claims
                                | SessionUnauthorized \<Rightarrow> Inl (PreviewError ''invalid_token'' 401)
                                | AuthorizeFailed \<Rightarrow> Inl (PreviewError ''preview_session_unavailable'' 503))))))"

definition handlePreview :: "preview_config \<Rightarrow> preview_env \<Rightarrow> str \<Rightarrow> str \<Rightarrow> str \<Rightarrow> str \<Rightarrow> preview_outcome" where
  "handlePreview cfg env urlPath escapedPath token rawQuery =
     (case parsePreviewPath urlPath of
        None \<Rightarrow> NotFound
      | Some (podKey, _) \<Rightarrow>
          (case escaped_rest podKey escapedPath of
             None \<Rightarrow> NotFound
           | Some rest \<Rightarrow>
               (case authenticate cfg env token podKey of
                  Inl response \<Rightarrow> response
                | Inr claims \<Rightarrow>
                    (case previewRawQuery rawQuery of
                       None \<Rightarrow> PreviewError ''invalid_query'' 400
                     | Some query \<Rightarrow>
                         (case joinPreviewUpstreamPath (clm_PreviewPath claims) rest of
                            Inl _ \<Rightarrow> PreviewError ''invalid_path'' 400
                          | Inr upstreamPath \<Rightarrow>
                              if \<not> env_has_tunnel env (clm_RunnerID claims) then PreviewError ''target_offline'' 502
                              else (case env_acquire env podKey of
                                      TargetBusy \<Rightarrow> PreviewError ''target_busy'' 429
                                    | RequestCancelled \<Rightarrow> PreviewError ''request_cancelled'' 503
                                    | Acquired \<Rightarrow> Proxied
                                        \<lparr>pp_PodKey = podKey, pp_Target = clm_PreviewTarget claims, pp_Path = upstreamPath,
                                         pp_RawQuery = query, pp_HiddenCookieName = previewCookieName,
                                         pp_ExpectedOrigin = clm_PreviewOrigin claims\<rparr>))))))"

definition HandlePreview :: "preview_config \<Rightarrow> preview_env \<Rightarrow> str \<Rightarrow> str \<Rightarrow> str \<Rightarrow> str \<Rightarrow> str \<Rightarrow> preview_outcome" where
  "HandlePreview cfg env host urlPath escapedPath token rawQuery =
     (case requirePublicHost cfg host urlPath of
        Some response \<Rightarrow> response
      | None \<Rightarrow> handlePreview cfg env urlPath escapedPath token rawQuery)"

subsection \<open>The exchange of a bootstrap token (handler_preview_session.go, preview_session_cookie.go)\<close>

record preview_cookie =
  ck_Value :: str
  ck_Path :: str
  ck_HttpOnly :: bool
  ck_Secure :: bool
  ck_MaxAge :: int
  ck_Strict :: bool
  ck_Partitioned :: bool

definition previewSessionTTL :: int where "previewSessionTTL = 900"

definition previewSessionCookie :: "preview_config \<Rightarrow> str \<Rightarrow> str \<Rightarrow> preview_cookie option" where
  "previewSessionCookie cfg podKey token =
     (let cookie = \<lparr>ck_Value = token, ck_Path = ''/preview/'' @ podKey, ck_HttpOnly = True, ck_Secure = cfg_CookieSecure cfg,
            ck_MaxAge = previewSessionTTL, ck_Strict = False, ck_Partitioned = False\<rparr>
      in case cfg_CookieMode cfg of
           PreviewCookieSameSite \<Rightarrow> Some (cookie\<lparr>ck_Strict := True\<rparr>)
         | PreviewCookiePartitioned \<Rightarrow> if \<not> ck_Secure cookie then None else Some (cookie\<lparr>ck_Partitioned := True\<rparr>)
         | OtherCookieMode _ \<Rightarrow> None)"

datatype session_outcome = SessionNotFound | SessionError str nat | SessionCookie preview_cookie relay_claims

text \<open>\<open>sign\<close> is the JWT library's signature of claims; \<open>token\<close> is the query's token.\<close>

definition handlePreviewSession ::
    "preview_config \<Rightarrow> preview_env \<Rightarrow> (relay_claims \<Rightarrow> str) \<Rightarrow> str \<Rightarrow> int \<Rightarrow> str \<Rightarrow> str \<Rightarrow> session_outcome" where
  "handlePreviewSession cfg env sign sessionID now urlPath token =
     (case parsePreviewPath urlPath of
        None \<Rightarrow> SessionNotFound
      | Some (podKey, _) \<Rightarrow>
          if token = [] then SessionError ''token_required'' 401
          else (case previewOriginForPod (cfg_PublicOrigin cfg) podKey of
                  Inl _ \<Rightarrow> SessionError ''invalid_token'' 401
                | Inr expectedOrigin \<Rightarrow>
                    (case ValidatePreviewToken (env_jwt env) (cfg_Issuer cfg) token TokenTypePreviewBootstrap expectedOrigin of
                       Inl _ \<Rightarrow> SessionError ''invalid_token'' 401
                     | Inr claims \<Rightarrow>
                         if clm_PodKey claims \<noteq> podKey then SessionError ''invalid_token'' 401
                         else if \<not> env_issuer env then SessionError ''preview_session_unavailable'' 503
                         else (case Issue (cfg_Issuer cfg) sessionID now (Some claims) previewSessionTTL of
                                 Inl _ \<Rightarrow> SessionError ''preview_session_unavailable'' 503
                               | Inr session \<Rightarrow>
                                   if env_authorize env = None then SessionError ''preview_bootstrap_unavailable'' 503
                                   else (case env_redeem env (clm_ID claims) (previewSessionIdentity session) of
                                           BootstrapConsumed \<Rightarrow> SessionError ''invalid_token'' 401
                                         | RedeemFailed \<Rightarrow> SessionError ''preview_bootstrap_unavailable'' 503
                                         | Redeemed \<Rightarrow>
                                             (case previewSessionCookie cfg podKey (sign session) of
                                                None \<Rightarrow> SessionError ''preview_session_unavailable'' 503
                                              | Some cookie \<Rightarrow> SessionCookie cookie session))))))"

definition url_Query :: "str \<Rightarrow> url_values" where
  "url_Query s = fst (fold query_pair (if s = [] then [] else split_on (CHR ''&'') s) ([], True))"

definition values_Get :: "url_values \<Rightarrow> str \<Rightarrow> str" where
  "values_Get m k = (case gm_get m k of Some (v # vs) \<Rightarrow> v | _ \<Rightarrow> [])"

text \<open>The handler of all requests under /preview/.\<close>

definition preview_route_request ::
    "preview_config \<Rightarrow> preview_env \<Rightarrow> (relay_claims \<Rightarrow> str) \<Rightarrow> str \<Rightarrow> int \<Rightarrow> str \<Rightarrow> str \<Rightarrow> str \<Rightarrow> str \<Rightarrow> str
      \<Rightarrow> session_outcome + preview_outcome" where
  "preview_route_request cfg env sign sessionID now host urlPath escapedPath token rawQuery =
     (case requirePublicHost cfg host urlPath of
        Some response \<Rightarrow> Inr response
      | None \<Rightarrow>
          (case parsePreviewPath urlPath of
             None \<Rightarrow> Inr NotFound
           | Some (_, rest) \<Rightarrow>
               if rest = ''__session''
               then Inl (handlePreviewSession cfg env sign sessionID now urlPath (values_Get (url_Query rawQuery) ''token''))
               else Inr (handlePreview cfg env urlPath escapedPath token rawQuery)))"

subsection \<open>Only the session's pod, target and path\<close>

lemma values_nonempty:
  assumes "ParseQuery s = Some m"
  shows "gm_get m k \<noteq> Some []"
proof -
  have pair: "gm_get (fst (query_pair key acc)) k \<noteq> Some []" if "gm_get (fst acc) k \<noteq> Some []" for key acc
    using that by (cases acc) (auto simp: query_pair_def gm_get_values_add split: prod.splits option.splits)
  have "gm_get (fst (fold query_pair ks acc)) k \<noteq> Some []" if "gm_get (fst acc) k \<noteq> Some []" for ks acc
    using that by (induction ks arbitrary: acc) (auto simp: pair)
  from this [of "([], True)" "if s = [] then [] else split_on (CHR ''&'') s"] show ?thesis
    using assms by (auto simp: ParseQuery_def gm_get_Nil split: prod.splits if_splits)
qed

lemma previewRawQuery_drops_token:
  assumes "previewRawQuery q = Some q'"
  obtains m m' where "ParseQuery q = Some m" "ParseQuery q' = Some m'"
    "\<And>k. gm_get m' k = (if k = ''token'' then None else gm_get m k)"
proof -
  obtain m where m: "ParseQuery q = Some m" "q' = Values_Encode (gm_del ''token'' m)"
    using assms by (auto simp: previewRawQuery_def)
  obtain m' where m': "ParseQuery q' = Some m'"
    "\<And>k. gm_get m' k = (case gm_get (gm_del ''token'' m) k of Some (v # vs) \<Rightarrow> Some (v # vs) | _ \<Rightarrow> None)"
    using query_roundtrip [OF gm_ok_del [OF ParseQuery_ok [OF m(1)], of "''token''"]] m(2) by blast
  have "gm_get m' k = (if k = ''token'' then None else gm_get m k)" for k
    using values_nonempty [OF m(1), of k] unfolding m'(2) by (auto simp: gm_get_del split: option.split list.split)
  then show ?thesis using that m(1) m'(1) by blast
qed

lemma authenticate_claims:
  assumes "authenticate cfg env token podKey = Inr c"
  obtains expected auth where "previewOriginForPod (cfg_PublicOrigin cfg) podKey = Inr expected"
    "ValidateToken (env_jwt env) (cfg_Issuer cfg) token = Inr c" "clm_TokenType c = TokenTypePreviewSession"
    "clm_PreviewOrigin c = expected" "clm_PodKey c = podKey" "env_authorize env = Some auth"
    "auth (previewSessionIdentity c) = Authorized"
  using assms
  by (auto simp: authenticate_def ValidatePreviewToken_def split: if_splits sum.splits option.splits authorize_answer.splits)

lemma ValidateToken_claims:
  assumes "ValidateToken jwt issuer token = Inr c" "clm_TokenType c = TokenTypePreviewSession"
  shows "jwt token = Inr c" "issuer = [] \<or> clm_Issuer c = issuer" "preview_claims_ok c"
proof -
  have "TokenTypePreviewSession \<noteq> []" by (simp add: TokenTypePreviewSession_def)
  then show "jwt token = Inr c" "issuer = [] \<or> clm_Issuer c = issuer" "preview_claims_ok c"
    using assms by (auto simp: ValidateToken_def ResolvedType_def split: sum.splits if_splits)
qed

text \<open>C2. What the relay forwards for a preview request is bound to its session: the cookie is a token the JWT
  library accepts, of type session, from the relay's issuer, for the pod the URL and the host name, and
  the backend authorized it now; the target is the one in the token, the path lies in the signed path
  and never leads upwards, and the query is the browser's without any token.\<close>

theorem HandlePreview_bound:
  assumes "HandlePreview cfg env host urlPath escapedPath token rawQuery = Proxied pp"
  shows "\<exists>c auth rest m m' d. env_jwt env token = Inr c \<and> clm_TokenType c = ''preview_session''
    \<and> (cfg_Issuer cfg = [] \<or> clm_Issuer c = cfg_Issuer cfg)
    \<and> parsePreviewPath urlPath = Some (clm_PodKey c, rest) \<and> EqualFold host (clm_PodKey c @ ''.'' @ cfg_PublicHost cfg)
    \<and> env_authorize env = Some auth \<and> auth (previewSessionIdentity c) = Authorized
    \<and> previewOriginForPod (cfg_PublicOrigin cfg) (clm_PodKey c) = Inr (clm_PreviewOrigin c)
    \<and> clm_Audience c = [clm_PreviewOrigin c]
    \<and> pp_PodKey pp = clm_PodKey c \<and> pp_Target pp = clm_PreviewTarget c \<and> pp_ExpectedOrigin pp = clm_PreviewOrigin c
    \<and> has_prefix (pp_Path pp) (clm_PreviewPath c) \<and> PathUnescape (pp_Path pp) = Some d \<and> \<not> has_dot_dot d
    \<and> ParseQuery rawQuery = Some m \<and> ParseQuery (pp_RawQuery pp) = Some m'
    \<and> gm_get m' = (gm_get m)(''token'' := None)"
proof -
  have public: "requirePublicHost cfg host urlPath = None"
    and inner: "handlePreview cfg env urlPath escapedPath token rawQuery = Proxied pp"
    using assms by (auto simp: HandlePreview_def requirePublicHost_def split: option.splits sum.splits if_splits)
  obtain podKey rest where url: "parsePreviewPath urlPath = Some (podKey, rest)"
    and host: "EqualFold host (podKey @ ''.'' @ cfg_PublicHost cfg)"
    using public by (auto simp: requirePublicHost_def previewHostForPod_def split: option.splits sum.splits if_splits)
  obtain c er query path where steps: "authenticate cfg env token podKey = Inr c" "previewRawQuery rawQuery = Some query"
    "joinPreviewUpstreamPath (clm_PreviewPath c) er = Inr path"
    and pp: "pp = \<lparr>pp_PodKey = podKey, pp_Target = clm_PreviewTarget c, pp_Path = path, pp_RawQuery = query,
      pp_HiddenCookieName = previewCookieName, pp_ExpectedOrigin = clm_PreviewOrigin c\<rparr>"
    using inner url
    by (auto simp: handlePreview_def split: option.splits sum.splits if_splits limiter_answer.splits)
      (auto simp: authenticate_def split: if_splits sum.splits option.splits authorize_answer.splits)
  obtain expected auth where auth: "previewOriginForPod (cfg_PublicOrigin cfg) podKey = Inr expected"
    "ValidateToken (env_jwt env) (cfg_Issuer cfg) token = Inr c" "clm_TokenType c = TokenTypePreviewSession"
    "clm_PreviewOrigin c = expected" "clm_PodKey c = podKey" "env_authorize env = Some auth"
    "auth (previewSessionIdentity c) = Authorized"
    by (rule authenticate_claims [OF steps(1)])
  note valid = ValidateToken_claims [OF auth(2,3)]
  have base: "NormalizePreviewPath (clm_PreviewPath c) = Inr (clm_PreviewPath c)" using valid(3) by (simp add: preview_claims_ok_def)
  note path = joinPreviewUpstreamPath_stays [OF base steps(3)]
  obtain m m' where m: "ParseQuery rawQuery = Some m" "ParseQuery query = Some m'"
    "\<And>k. gm_get m' k = (if k = ''token'' then None else gm_get m k)"
    using previewRawQuery_drops_token [OF steps(2)] by metis
  have "has_prefix path (clm_PreviewPath c)"
    using path by (auto simp: has_prefix_def slashed_def prefix_def split: if_splits)
  moreover have "gm_get m' = (gm_get m)(''token'' := None)" using m(3) by auto
  ultimately show ?thesis
    using auth valid path url host m(1,2) by (auto simp: pp preview_claims_ok_def TokenTypePreviewSession_def)
qed

text \<open>A relay with a token table instead of the library, and a pod with a preview.\<close>

definition example_config :: preview_config where
  "example_config = \<lparr>cfg_Issuer = ''agentcloud'', cfg_PublicOrigin = Some (''https'', ''pv.test'', ''pv.test''),
     cfg_PublicHost = ''pv.test'', cfg_CookieSecure = True, cfg_CookieMode = PreviewCookieSameSite\<rparr>"

definition example_pod :: preview_pod where
  "example_pod = \<lparr>Pod_Active = True, Pod_RunnerID = 7, Pod_PreviewPort = 3000, Pod_PreviewPath = ''/app/''\<rparr>"

definition example_claims :: "str \<Rightarrow> str \<Rightarrow> int \<Rightarrow> relay_claims" where
  "example_claims kind tokenID expires = \<lparr>clm_PodKey = ''pod1'', clm_RunnerID = 7, clm_UserID = 1, clm_OrgID = 2, clm_TokenType = kind,
     clm_PreviewTarget = ''127.0.0.1:3000'', clm_PreviewPath = ''/app'', clm_PreviewOrigin = ''https://pod1.pv.test'',
     clm_Issuer = ''agentcloud'', clm_Subject = ''pod1'', clm_ID = tokenID, clm_Audience = [''https://pod1.pv.test''],
     clm_ExpiresAt = expires\<rparr>"

definition example_env :: preview_env where
  "example_env = \<lparr>env_jwt = (\<lambda>t. if t = ''b'' then Inr (example_claims ''preview_bootstrap'' ''b1'' 160)
       else if t = ''s'' then Inr (example_claims ''preview_session'' ''s1'' 1010) else Inl TokenInvalid),
     env_issuer = True, env_authorize = Some (\<lambda>i. if ident_ID i = ''s1'' then Authorized else SessionUnauthorized),
     env_redeem = (\<lambda>i _. if i = ''b1'' then Redeemed else BootstrapConsumed), env_has_tunnel = (\<lambda>r. r = 7),
     env_acquire = (\<lambda>_. Acquired)\<rparr>"

theorem HandlePreview_bound_witness:
  "\<exists>c. env_jwt example_env ''s'' = Inr c \<and> clm_PreviewTarget c = ''127.0.0.1:3000''"
proof -
  have "HandlePreview example_config example_env ''POD1.pv.test'' ''/preview/pod1/a'' ''/preview/pod1/a'' ''s'' ''x=1&token=b'' =
    Proxied \<lparr>pp_PodKey = ''pod1'', pp_Target = ''127.0.0.1:3000'', pp_Path = ''/app/a'', pp_RawQuery = ''x=1'',
      pp_HiddenCookieName = ''gw_preview'', pp_ExpectedOrigin = ''https://pod1.pv.test''\<rparr>"
    by code_simp
  from HandlePreview_bound [OF this] show ?thesis by auto
qed

subsection \<open>The way of a user\<close>



end
