(* ===== verification/RunnerTarget.thy ===== *)
theory RunnerTarget
  imports RelayPreview
begin

text \<open>
  The runner's guard of preview requests (runner/internal/tunnel/local_http.go): it forwards a request
  only to a loopback target. With it what the guard and the request use of Go's net and net/url: SplitHostPort,
  ParseIP, IsLoopback, and the host a URL is requested from. The properties: the guard is
  sound for targets with a numeric port, the target of a signed route is one of these, and a target on
  which the guard and the URL parser disagree.
\<close>

subsection \<open>Addresses (net, net/netip)\<close>

definition last_index :: "rune \<Rightarrow> str \<Rightarrow> nat option" where
  "last_index c s = (if c \<in> set s then Some (length s - 1 - length (takeWhile (\<lambda>d. d \<noteq> c) (rev s))) else None)"

text \<open>net.SplitHostPort; None is the AddrError.\<close>

definition SplitHostPort :: "str \<Rightarrow> (str \<times> str) option" where
  "SplitHostPort hostport =
     (case last_index (CHR '':'') hostport of
        None \<Rightarrow> None
      | Some i \<Rightarrow>
          (let bracketed = (hd hostport = CHR ''['');
               inside = takeWhile (\<lambda>c. c \<noteq> CHR '']'') hostport;
               end_ok = (CHR '']'' \<in> set hostport \<and> length inside + 1 = i);
               host = (if bracketed then drop 1 inside else take i hostport);
               j = (if bracketed then 1 else 0);
               k = (if bracketed then length inside + 1 else 0)
           in if bracketed \<and> \<not> end_ok then None
              else if \<not> bracketed \<and> CHR '':'' \<in> set host then None
              else if CHR ''['' \<in> set (drop j hostport) then None
              else if CHR '']'' \<in> set (drop k hostport) then None
              else Some (host, drop (i + 1) hostport)))"

definition parse_octet :: "str \<Rightarrow> nat option" where
  "parse_octet w =
     (if w = [] \<or> \<not> list_all is_digit w \<or> (hd w = CHR ''0'' \<and> length w > 1) \<or> read_base 10 w > 255 then None
      else Some (read_base 10 w))"

text \<open>An address is its 4 or 16 bytes; an IPv4 address is kept in its 16-byte form.\<close>

definition parse_v4 :: "str \<Rightarrow> nat list option" where
  "parse_v4 s =
     (case map parse_octet (split_on (CHR ''.'') s) of
        [Some a, Some b, Some c, Some d] \<Rightarrow> Some [a, b, c, d]
      | _ \<Rightarrow> None)"

definition is_hex :: "rune \<Rightarrow> bool" where
  "is_hex c \<longleftrightarrow> unhex c \<noteq> None"

definition v6_group :: "str \<Rightarrow> (nat \<times> str) option" where
  "v6_group s =
     (let h = takeWhile is_hex s
      in if h = [] \<or> length h > 4 then None
         else map_option (\<lambda>v. (v, dropWhile is_hex s)) (read_hex h 0))"

text \<open>The loop of parseIPv6: the bytes so far and where the ellipsis is.\<close>

function v6_loop :: "nat list \<Rightarrow> nat option \<Rightarrow> str \<Rightarrow> (nat list \<times> nat option) option" where
  "v6_loop bytes ellipsis s =
     (if length bytes \<ge> 16 then (if s = [] then Some (bytes, ellipsis) else None)
      else (case v6_group s of
              None \<Rightarrow> None
            | Some (v, r) \<Rightarrow>
                if r \<noteq> [] \<and> hd r = CHR ''.''
                then (if ellipsis = None \<and> length bytes \<noteq> 12 \<or> length bytes + 4 > 16 then None
                      else map_option (\<lambda>b. (bytes @ b, ellipsis)) (parse_v4 s))
                else (let bytes' = bytes @ [v div 256, v mod 256]
                      in if r = [] then Some (bytes', ellipsis)
                         else if hd r \<noteq> CHR '':'' \<or> tl r = [] then None
                         else if hd (tl r) = CHR '':''
                         then (if ellipsis \<noteq> None then None
                               else if tl (tl r) = [] then Some (bytes', Some (length bytes'))
                               else v6_loop bytes' (Some (length bytes')) (tl (tl r)))
                         else v6_loop bytes' ellipsis (tl r))))"
  by pat_completeness auto
termination by (relation "measure (\<lambda>(bytes, _, _). 16 - length bytes)") auto

declare v6_loop.simps [simp del]

definition v6_expand :: "nat list \<times> nat option \<Rightarrow> nat list option" where
  "v6_expand r = (case r of (bytes, ellipsis) \<Rightarrow>
     (case ellipsis of
        None \<Rightarrow> if length bytes < 16 then None else Some bytes
      | Some e \<Rightarrow> if length bytes < 16 then Some (take e bytes @ replicate (16 - length bytes) 0 @ drop e bytes) else None))"

definition parse_v6 :: "str \<Rightarrow> nat list option" where
  "parse_v6 s =
     (if prefix ''::'' s
      then (if length s = 2 then Some (replicate 16 0) else Option.bind (v6_loop [] (Some 0) (drop 2 s)) v6_expand)
      else Option.bind (v6_loop [] None s) v6_expand)"

text \<open>net.ParseIP: the first dot or colon decides; an address with a zone is none.\<close>

definition ParseIP :: "str \<Rightarrow> nat list option" where
  "ParseIP s =
     (if PERCENT \<in> set s then None
      else (case dropWhile (\<lambda>c. c \<noteq> CHR ''.'' \<and> c \<noteq> CHR '':'') s of
              [] \<Rightarrow> None
            | c # _ \<Rightarrow> if c = CHR ''.'' then map_option (\<lambda>b. replicate 10 0 @ [255, 255] @ b) (parse_v4 s) else parse_v6 s))"

definition IsLoopback :: "nat list \<Rightarrow> bool" where
  "IsLoopback ip \<longleftrightarrow>
     (if take 12 ip = replicate 10 0 @ [255, 255] then ip ! 12 = 127 else ip = replicate 15 0 @ [1])"

subsection \<open>The guard (local_http.go)\<close>

definition validateTarget :: "str \<Rightarrow> bool" where
  "validateTarget target =
     (case SplitHostPort target of
        None \<Rightarrow> False
      | Some (host, _) \<Rightarrow>
          if host = ''localhost'' then True
          else (case ParseIP host of None \<Rightarrow> False | Some ip \<Rightarrow> IsLoopback ip))"

text \<open>The URL the runner requests for a target, a path and a raw query.\<close>

definition request_url :: "str \<Rightarrow> str \<Rightarrow> str \<Rightarrow> str" where
  "request_url target path rawQuery = ''http://'' @ target @ path @ (if rawQuery \<noteq> [] then ''?'' @ rawQuery else [])"

subsection \<open>The host of a URL (net/url)\<close>

definition validOptionalPort :: "str \<Rightarrow> bool" where
  "validOptionalPort p \<longleftrightarrow> p = [] \<or> hd p = CHR '':'' \<and> list_all is_digit (tl p)"

definition host_safe :: "rune \<Rightarrow> bool" where
  "host_safe c \<longleftrightarrow> is_lower c \<or> is_upper c \<or> is_digit c \<or> code c \<ge> 128 \<or> c \<in> set ''-_.~!$&()*+,;=:[]<>'' \<or> c = DQUOTE \<or> c = CHR 0x27"

text \<open>unescape in the mode encodeHost: only bytes of 128 and more and the percent sign may be escaped.\<close>

fun host_unescape :: "str \<Rightarrow> str option" where
  "host_unescape [] = Some []"
| "host_unescape (c # cs) =
     (if c = PERCENT
      then (case cs of
              a # b # ds \<Rightarrow> (case (unhex a, unhex b) of
                 (Some x, Some y) \<Rightarrow>
                    if x < 8 \<and> [a, b] \<noteq> ''25'' then None
                    else map_option (\<lambda>r. char_of (16 * x + y) # r) (host_unescape ds)
               | _ \<Rightarrow> None)
            | _ \<Rightarrow> None)
      else if \<not> host_safe c then None
      else map_option (\<lambda>r. c # r) (host_unescape cs))"

text \<open>parseHost. A zone of an IPv6 literal is unescaped like the rest of the host here, which refuses
  more; no target the guard accepts has one.\<close>

definition parseHost :: "str \<Rightarrow> str option" where
  "parseHost host =
     (if has_prefix host ''[''
      then (case last_index (CHR '']'') host of
              None \<Rightarrow> None
            | Some i \<Rightarrow> if validOptionalPort (drop (i + 1) host) then host_unescape host else None)
      else (case last_index (CHR '':'') host of
              None \<Rightarrow> host_unescape host
            | Some i \<Rightarrow> if validOptionalPort (drop i host) then host_unescape host else None))"

definition is_userinfo :: "rune \<Rightarrow> bool" where
  "is_userinfo c \<longleftrightarrow> is_lower c \<or> is_upper c \<or> is_digit c \<or> c \<in> set ''-._:~!$&()*+,;=%@'' \<or> c = CHR 0x27"

definition parseAuthority :: "str \<Rightarrow> str option" where
  "parseAuthority a =
     (case last_index (CHR ''@'') a of
        None \<Rightarrow> parseHost a
      | Some i \<Rightarrow> if list_all is_userinfo (take i a) \<and> url_unescape False (take i a) \<noteq> None then parseHost (drop (i + 1) a) else None)"

text \<open>URL.Hostname.\<close>

definition Hostname :: "str \<Rightarrow> str" where
  "Hostname host =
     (let h = (case last_index (CHR '':'') host of
                 Some i \<Rightarrow> if validOptionalPort (drop i host) then take i host else host
               | None \<Rightarrow> host)
      in if has_prefix h ''['' \<and> has_suffix h '']'' then butlast (drop 1 h) else h)"

text \<open>The host name that a request for an http URL goes to: the authority ends at the first slash, question
  mark or hash. None when the URL is refused because of it.\<close>

definition request_host :: "str \<Rightarrow> str option" where
  "request_host url =
     (if has_prefix url ''http://''
      then map_option Hostname (parseAuthority (takeWhile (\<lambda>c. c \<notin> set ''/?#'') (drop 7 url)))
      else None)"

subsection \<open>The headers the runner drops\<close>

definition isWebSocketHopHeader :: "str \<Rightarrow> bool" where
  "isWebSocketHopHeader k \<longleftrightarrow> CanonicalHeaderKey k \<in>
     {''Connection'', ''Upgrade'', ''Sec-Websocket-Key'', ''Sec-Websocket-Version'', ''Sec-Websocket-Extensions'',
      ''Sec-Websocket-Protocol''}"

definition runner_hopByHopHeaders :: "str list" where
  "runner_hopByHopHeaders = [''Connection'', ''Proxy-Connection'', ''Keep-Alive'', ''Transfer-Encoding'', ''TE'',
     ''Trailer'', ''Upgrade'']"

definition runner_sanitizeResponseHeaders :: "header \<Rightarrow> header" where
  "runner_sanitizeResponseHeaders h = fold hdr_Del runner_hopByHopHeaders h"

lemma guard_examples:
  "map validateTarget [''127.0.0.1:3000'', ''localhost:80'', ''[::1]:80'', ''[::ffff:127.0.0.1]:80'', ''[0:0:0:0:0:0:0:1]:1'',
     ''127.0.0.1'', ''10.0.0.1:80'', ''[::2]:80'', ''127.1:80'', ''0177.0.0.1:80'', ''::1:80'', ''[::1%25lo]:80'', ''localhost.evil:80'']
   = [True, True, True, True, True, False, False, False, False, False, False, False, False]"
  by code_simp

subsection \<open>When the guard and the URL agree\<close>

lemma last_index_append: "c \<notin> set b \<Longrightarrow> last_index c (a @ c # b) = Some (length a)"
proof -
  assume "c \<notin> set b"
  then have "takeWhile (\<lambda>d. d \<noteq> c) (rev b @ c # rev a) = rev b" by (subst takeWhile_append2) auto
  then show ?thesis by (simp add: last_index_def)
qed

lemma last_index_None: "last_index c s = None \<longleftrightarrow> c \<notin> set s"
  by (simp add: last_index_def)

lemma last_index_Some:
  assumes "last_index c s = Some i"
  obtains a b where "s = a @ c # b" "c \<notin> set b" "length a = i"
proof -
  have "c \<in> set s" using assms by (simp add: last_index_def split: if_splits)
  then obtain a b where s: "s = a @ c # b" "c \<notin> set b" by (metis split_list_last)
  then show ?thesis using that assms last_index_append [of c b a] by simp
qed

lemma takeWhile_split:
  "c \<in> set t \<Longrightarrow> t = takeWhile (\<lambda>d. d \<noteq> c) t @ c # drop (length (takeWhile (\<lambda>d. d \<noteq> c) t) + 1) t"
  by (induction t) auto

text \<open>The two forms of a host and port.\<close>

lemma SplitHostPort_forms:
  assumes "SplitHostPort t = Some (host, port)"
  obtains (plain) "t = host @ CHR '':'' # port" "CHR '':'' \<notin> set host" "CHR '':'' \<notin> set port" "CHR ''['' \<notin> set t" "CHR '']'' \<notin> set t"
  | (bracketed) "t = CHR ''['' # host @ '']:'' @ port" "CHR '':'' \<notin> set port" "CHR '']'' \<notin> set port" "CHR '']'' \<notin> set host"
proof -
  obtain i where i: "last_index (CHR '':'') t = Some i" using assms by (auto simp: SplitHostPort_def split: option.splits)
  obtain a b where t: "t = a @ CHR '':'' # b" "CHR '':'' \<notin> set b" "length a = i" by (rule last_index_Some [OF i])
  show thesis
  proof (cases "hd t = CHR ''[''")
    case False
    then have "host = a" "port = b" "CHR '':'' \<notin> set a" "CHR ''['' \<notin> set t" "CHR '']'' \<notin> set t"
      using assms i t by (auto simp: SplitHostPort_def Let_def split: if_splits)
    then show thesis using plain t by simp
  next
    case True
    define inside where "inside = takeWhile (\<lambda>c. c \<noteq> CHR '']'') t"
    have w: "CHR '']'' \<in> set t" "length inside + 1 = i" "host = drop 1 inside" "port = b" "CHR '']'' \<notin> set (drop (length inside + 1) t)"
      using assms i t(3) True unfolding SplitHostPort_def Let_def by (auto simp: inside_def t(1) split: if_splits)
    have "t = inside @ CHR '']'' # drop (length inside + 1) t"
      using takeWhile_split [OF w(1)] unfolding inside_def by simp
    moreover have "drop (length inside + 1) t = CHR '':'' # b" using t w(2) by simp
    ultimately have "t = inside @ '']:'' @ b" by simp
    moreover have "inside = CHR ''['' # host"
      using True calculation w(3) by (cases inside) auto
    moreover have "CHR '']'' \<notin> set inside" unfolding inside_def by (auto dest: set_takeWhileD)
    ultimately show thesis using bracketed t(2) w(4,5) by auto
  qed
qed

text \<open>The characters of an address.\<close>

definition ip_char :: "rune \<Rightarrow> bool" where
  "ip_char c \<longleftrightarrow> is_hex c \<or> c = CHR ''.'' \<or> c = CHR '':''"

lemma digit_hex: "is_digit c \<Longrightarrow> ip_char c"
  by (simp add: ip_char_def is_hex_def unhex_def)

lemma parse_v4_chars:
  assumes "parse_v4 s = Some b"
  shows "list_all ip_char s"
proof -
  obtain ws where ws: "split_on (CHR ''.'') s = ws" "\<forall>w\<in>set ws. list_all is_digit w"
    using assms
    by (auto simp: parse_v4_def parse_octet_def split: list.splits option.splits if_splits) 
  have "list_all (\<lambda>c. is_digit c \<or> c = CHR ''.'') s"
    using ws
  proof (induction s arbitrary: ws)
    case (Cons c s)
    then show ?case by (cases "split_on (CHR ''.'') s") (auto split: if_splits)
  qed simp
  then show ?thesis using digit_hex by (auto simp: list_all_iff ip_char_def)
qed

lemma v6_group_chars:
  assumes "v6_group s = Some (v, r)"
  shows "\<exists>h. s = h @ r \<and> list_all ip_char h"
proof
  show "s = takeWhile is_hex s @ r \<and> list_all ip_char (takeWhile is_hex s)"
    using assms by (auto simp: v6_group_def Let_def ip_char_def list_all_iff dest: set_takeWhileD split: if_splits)
qed

lemma v6_loop_chars: "v6_loop bytes ellipsis s = Some x \<Longrightarrow> list_all ip_char s"
proof (induction bytes ellipsis s rule: v6_loop.induct)
  case (1 bytes ellipsis s)
  have colon: "ip_char (CHR '':'')" by (simp add: ip_char_def)
  show ?case
  proof (cases "16 \<le> length bytes")
    case False
    then obtain v r where g: "v6_group s = Some (v, r)"
      using 1(3) by (subst (asm) v6_loop.simps) (auto split: option.splits)
    obtain h where h: "s = h @ r" "list_all ip_char h" using v6_group_chars [OF g] by blast
    have "list_all ip_char s" if "r \<noteq> []" "hd r = CHR ''.''"
      using that 1(3) False g by (subst (asm) v6_loop.simps) (auto split: if_splits dest: parse_v4_chars)
    moreover have "list_all ip_char r" if dot: "r = [] \<or> hd r \<noteq> CHR ''.''"
    proof (cases r)
      case (Cons c r')
      have r: "r \<noteq> []" "hd r \<noteq> CHR ''.''" using Cons dot by auto
      note IH = 1(1,2) [OF False g refl _ refl, unfolded Cons, simplified]
      show ?thesis
        using 1(3) False g dot colon IH
        by (subst (asm) v6_loop.simps) (cases r', auto simp: Cons Let_def split: if_splits)
    qed simp
    ultimately show ?thesis using h by auto
  qed (use 1(3) in \<open>subst (asm) v6_loop.simps, auto split: if_splits\<close>)
qed

lemma ParseIP_chars:
  assumes "ParseIP h = Some ip"
  shows "list_all ip_char h" "h \<noteq> []"
proof -
  have v6: "list_all ip_char s" if "parse_v6 s = Some b" for s b
  proof (cases "prefix ''::'' s")
    case True
    then obtain r where "s = ''::'' @ r" by (auto simp: prefix_def)
    then show ?thesis
      using that by (cases r) (auto simp: parse_v6_def ip_char_def Option.bind_eq_Some_conv dest!: v6_loop_chars split: if_splits)
  qed (use that in \<open>auto simp: parse_v6_def Option.bind_eq_Some_conv dest!: v6_loop_chars\<close>)
  show "list_all ip_char h"
    using assms by (auto simp: ParseIP_def dest: parse_v4_chars v6 split: if_splits list.splits)
  show "h \<noteq> []" using assms by (auto simp: ParseIP_def split: if_splits)
qed

definition loopback_name :: "str \<Rightarrow> bool" where
  "loopback_name h \<longleftrightarrow> h = ''localhost'' \<or> (\<exists>ip. ParseIP h = Some ip \<and> IsLoopback ip)"

lemma loopback_name_chars:
  assumes "loopback_name h"
  shows "list_all (\<lambda>c. ip_char c \<or> c \<in> set ''localhost'') h"
  using assms ParseIP_chars(1) by (auto simp: loopback_name_def list_all_iff)

text \<open>What such characters are for the URL parser.\<close>

lemma host_chars:
  assumes "ip_char c \<or> c \<in> set ''localhost''"
  shows "host_safe c" "c \<notin> set ''/?#@[]'' \<and> c \<noteq> PERCENT"
proof -
  have "list_all host_safe ''localhost.:''" by code_simp
  moreover have "is_hex c \<Longrightarrow> host_safe c"
    by (auto simp: is_hex_def unhex_def host_safe_def is_lower_def is_upper_def less_eq_char_def split: if_splits)
  ultimately show "host_safe c" using assms by (auto simp: ip_char_def)
  have "list_all (\<lambda>d. \<not> ip_char d \<and> d \<notin> set ''localhost'') (PERCENT # ''/?#@[]'')" by code_simp
  then have "c \<notin> set (PERCENT # ''/?#@[]'')" using assms unfolding list_all_iff by blast
  then show "c \<notin> set ''/?#@[]'' \<and> c \<noteq> PERCENT" by simp
qed

lemma host_unescape_id: "list_all (\<lambda>c. host_safe c \<and> c \<noteq> PERCENT) s \<Longrightarrow> host_unescape s = Some s"
  by (induction s) auto

text \<open>The authority of a guarded target, plain or in brackets.\<close>

lemma authority_of_target:
  assumes "SplitHostPort t = Some (host, port)" "loopback_name host" "list_all is_digit port"
  shows "parseAuthority t = Some t" "Hostname t = host" "list_all (\<lambda>c. c \<notin> set ''/?#'') t"
proof -
  have port: "c \<in> set port \<Longrightarrow> ip_char c" for c using assms(3) digit_hex by (auto simp: list_all_iff)
  note host = loopback_name_chars [OF assms(2)]
  have digits: "validOptionalPort (CHR '':'' # port)" using assms(3) by (simp add: validOptionalPort_def)
  have colon: "ip_char (CHR '':'')" by (simp add: ip_char_def)
  have brackets: "host_safe (CHR ''['')" "host_safe (CHR '']'')" by code_simp+
  have pc: "c \<in> set port \<Longrightarrow> host_safe c \<and> c \<notin> set ''/?#@[]'' \<and> c \<noteq> PERCENT" for c using host_chars [of c] port by blast
  have hc: "c \<in> set host \<Longrightarrow> host_safe c \<and> c \<notin> set ''/?#@[]'' \<and> c \<noteq> PERCENT" for c
    using host_chars [of c] host by (auto simp: list_all_iff)
  note cc = host_chars [of "CHR '':''", OF disjI1, OF colon]
  from assms(1) have "parseAuthority t = Some t \<and> Hostname t = host \<and> list_all (\<lambda>c. c \<notin> set ''/?#'') t"
  proof (cases rule: SplitHostPort_forms)
    case plain
    have safe: "list_all (\<lambda>c. host_safe c \<and> c \<noteq> PERCENT \<and> c \<notin> set ''/?#@'') t"
      using pc hc cc plain(1) by (auto simp: list_all_iff)
    have at: "last_index (CHR ''@'') t = None" using safe by (auto simp: last_index_None list_all_iff)
    have li: "last_index (CHR '':'') t = Some (length host)" using plain(1,3) by (simp add: last_index_append)
    have dr: "drop (length host) t = CHR '':'' # port" "take (length host) t = host" using plain(1) by simp_all
    have br: "\<not> has_prefix t ''[''" using plain(4) by (cases t) (auto simp: has_prefix_def)
    have "parseAuthority t = Some t"
      using safe digits dr by (simp add: parseAuthority_def parseHost_def at li br host_unescape_id list_all_iff)
    moreover have "\<not> has_prefix host ''[''" using hc by (cases host) (auto simp: has_prefix_def)
    moreover from this have "Hostname t = host" using digits dr by (simp add: Hostname_def li)
    moreover have "list_all (\<lambda>c. c \<notin> set ''/?#'') t" using safe by (auto simp: list_all_iff)
    ultimately show ?thesis by blast
  next
    case bracketed
    have safe: "list_all (\<lambda>c. host_safe c \<and> c \<noteq> PERCENT \<and> c \<notin> set ''/?#@'') t"
      using pc hc cc brackets bracketed(1) by (auto simp: list_all_iff PERCENT_def)
    have at: "last_index (CHR ''@'') t = None" using safe by (auto simp: last_index_None list_all_iff)
    have t: "t = (CHR ''['' # host) @ CHR '']'' # CHR '':'' # port" "t = (CHR ''['' # host @ '']'') @ CHR '':'' # port"
      using bracketed(1) by simp_all
    have close: "last_index (CHR '']'') t = Some (length host + 1)"
      unfolding t(1) using bracketed(3) by (subst last_index_append) simp_all
    have li: "last_index (CHR '':'') t = Some (length host + 2)"
      unfolding t(2) using bracketed(2) by (subst last_index_append) simp_all
    have br: "has_prefix t ''[''" using bracketed(1) by (simp add: has_prefix_def)
    have dr: "drop (length host + 2) t = CHR '':'' # port" "take (length host + 2) t = CHR ''['' # host @ '']''"
      unfolding t(2) by simp_all
    have "parseAuthority t = Some t"
      using safe digits dr by (simp add: parseAuthority_def parseHost_def at close br host_unescape_id list_all_iff)
    moreover have "Hostname t = host"
      using digits dr by (simp add: Hostname_def li Let_def has_prefix_def has_suffix_def suffix_def)
    moreover have "list_all (\<lambda>c. c \<notin> set ''/?#'') t" using safe by (auto simp: list_all_iff)
    ultimately show ?thesis by blast
  qed
  then show "parseAuthority t = Some t" "Hostname t = host" "list_all (\<lambda>c. c \<notin> set ''/?#'') t" by blast+
qed

lemma request_host_of_target:
  assumes "SplitHostPort t = Some (host, port)" "loopback_name host" "list_all is_digit port" "has_prefix path [SLASH]"
  shows "request_host (request_url t path rawQuery) = Some host"
proof -
  note a = authority_of_target [OF assms(1-3)]
  obtain r where path: "path = SLASH # r" using assms(4) by (auto simp: has_prefix_def prefix_def)
  have "takeWhile (\<lambda>c. c \<notin> set ''/?#'') (t @ path @ q) = t" for q
    using a(3) by (subst takeWhile_append2) (auto simp: list_all_iff path SLASH_def)
  then show ?thesis using a(1,2) by (simp add: request_host_def request_url_def has_prefix_def)
qed

text \<open>C16. The runner's guard against requests beyond its own host is sound for targets with a numeric port: when
  it accepts a target, every URL the runner builds from it with an absolute path, whatever path and
  query, is requested from the host the guard has seen, which is localhost or an IPv4 or IPv6
  loopback address in any notation.\<close>

theorem validateTarget_sound:
  assumes "validateTarget target" "SplitHostPort target = Some (host, port)" "list_all is_digit port" "has_prefix path [SLASH]"
  shows "request_host (request_url target path rawQuery) = Some host \<and> loopback_name host"
proof -
  have "loopback_name host"
    using assms(1,2) by (auto simp: validateTarget_def loopback_name_def split: if_splits option.splits)
  then show ?thesis using request_host_of_target assms(2-4) by blast
qed

theorem validateTarget_sound_witness:
  "request_host (request_url ''[::ffff:127.0.0.1]:80'' ''/a@b:c/'' ''q=@evil'') = Some ''::ffff:127.0.0.1''"
proof -
  have "validateTarget ''[::ffff:127.0.0.1]:80''" "SplitHostPort ''[::ffff:127.0.0.1]:80'' = Some (''::ffff:127.0.0.1'', ''80'')"
    "list_all is_digit ''80''" "has_prefix ''/a@b:c/'' [SLASH]"
    by code_simp+
  then show ?thesis using validateTarget_sound by blast
qed

subsection \<open>From the pod's row to the pod's port\<close>

lemma join_absolute:
  assumes "NormalizePreviewPath base = Inr base" "joinPreviewUpstreamPath base rest = Inr p"
  shows "has_prefix p [SLASH]"
proof -
  obtain es where "base = path_of es" using Normalize_elements [OF assms(1)] by metis
  then have "has_prefix base [SLASH]" by (simp add: path_of_def has_prefix_def)
  moreover have "rest \<noteq> [] \<Longrightarrow> has_prefix (path_Join base x) [SLASH]" for x
    using calculation by (cases base) (auto simp: path_Join_def path_Clean_def has_prefix_def Let_def)
  ultimately show ?thesis
    using assms(2) by (cases "rest = []") (auto simp: joinPreviewUpstreamPath_def Let_def has_prefix_def split: sum.splits if_splits)
qed

text \<open>C17. The preview of a pod ends at the pod's own port: for every route the backend resolves and every path the
  relay lets through, the runner's guard accepts the target, and the runner requests the URL from
  127.0.0.1 and from nowhere else.\<close>

theorem preview_reaches_loopback:
  assumes "ResolvePreviewRoute (Some pod) = Inr route" "joinPreviewUpstreamPath (Route_Path route) rest = Inr path"
  shows "validateTarget (Route_Target route)
    \<and> SplitHostPort (Route_Target route) = Some (''127.0.0.1'', show_int (Pod_PreviewPort pod))
    \<and> 1024 \<le> Pod_PreviewPort pod \<and> Pod_PreviewPort pod \<le> 65535
    \<and> request_host (request_url (Route_Target route) path rawQuery) = Some ''127.0.0.1''"
proof -
  have route: "backend_NormalizePreviewPath (Pod_PreviewPath pod) = Inr (Route_Path route)"
    "Route_Target route = ''127.0.0.1:'' @ show_int (Pod_PreviewPort pod)" "1024 \<le> Pod_PreviewPort pod" "Pod_PreviewPort pod \<le> 65535"
    using assms(1) by (auto simp: ResolvePreviewRoute_def NormalizePreviewConfig_def split: if_splits sum.splits)
  have digits: "list_all is_digit (show_int (Pod_PreviewPort pod))" using route(3) show_nat_digits by (simp add: show_int_def)
  have no: "c \<notin> set (show_int (Pod_PreviewPort pod))" if "\<not> is_digit c" for c using that digits by (auto simp: list_all_iff)
  have sym: "\<not> is_digit (CHR '':'')" "\<not> is_digit (CHR ''['')" "\<not> is_digit (CHR '']'')" by code_simp+
  have t: "Route_Target route = ''127.0.0.1'' @ CHR '':'' # show_int (Pod_PreviewPort pod)" using route(2) by simp
  have "last_index (CHR '':'') (Route_Target route) = Some (length ''127.0.0.1'')"
    unfolding t using no sym by (intro last_index_append) simp
  then have split: "SplitHostPort (Route_Target route) = Some (''127.0.0.1'', show_int (Pod_PreviewPort pod))"
    using no sym by (simp add: SplitHostPort_def Let_def t)
  have "ParseIP ''127.0.0.1'' = Some (replicate 10 0 @ [255, 255, 127, 0, 0, 1])" "IsLoopback (replicate 10 0 @ [255, 255, 127, 0, 0, 1])"
    by code_simp+
  then have ok: "validateTarget (Route_Target route)" "loopback_name ''127.0.0.1''"
    by (simp_all add: validateTarget_def split loopback_name_def)
  have "has_prefix path [SLASH]" using join_absolute preview_path_agreement [OF route(1)] assms(2) by blast
  then show ?thesis using ok split route(3,4) request_host_of_target [OF split ok(2) digits] by simp
qed

theorem preview_reaches_loopback_witness:
  "request_host (request_url ''127.0.0.1:3000'' ''/app/x'' ''q=1'') = Some ''127.0.0.1''"
proof -
  let ?pod = "\<lparr>Pod_Active = True, Pod_RunnerID = 7, Pod_PreviewPort = 3000, Pod_PreviewPath = ''/app''\<rparr>"
  let ?route = "\<lparr>Route_RunnerID = 7, Route_Target = ''127.0.0.1:3000'', Route_Path = ''/app''\<rparr>"
  have "ResolvePreviewRoute (Some ?pod) = Inr ?route" "joinPreviewUpstreamPath (Route_Path ?route) ''x'' = Inr ''/app/x''"
    by code_simp+
  from preview_reaches_loopback [OF this] show ?thesis by simp
qed

text \<open>The guard can be passed by a target whose port is not one: of 'localhost:80@evil.test' it sees the
  host localhost, and the request built from the same text goes to evil.test, because the part before
  the at sign is the user information of a URL.\<close>

theorem validateTarget_userinfo:
  "validateTarget ''localhost:80@evil.test'' \<and> validateTarget ''127.0.0.1:80@169.254.169.254''
    \<and> request_host (request_url ''localhost:80@evil.test'' ''/x'' []) = Some ''evil.test''
    \<and> request_host (request_url ''127.0.0.1:80@169.254.169.254'' ''/x'' []) = Some ''169.254.169.254''"
  by code_simp

end
