(* ===== verification/TunnelStream.thy ===== *)
theory TunnelStream
  imports RelayProtocol
begin

text \<open>
  One HTTP exchange of the preview tunnel from end to end: the relay's proxy (relay/internal/proxy/http.go,
  response.go) with its stream (relay/internal/tunnel/stream.go), the two directions of the connection, the
  runner's dispatcher and local request (runner/internal/tunnel/dispatcher.go, local_http.go, credit.go). Each
  goroutine's step between two blocking operations is one step of the relation \<open>tstep\<close>, so that every
  interleaving is a run: the request sender, the response pump, the relay's read loop, the runner's
  read loop, the local request and the reader of its body. Payloads are the values that the JSON carries. A
  body is the list of the chunks that its reads return (at most MaxChunk bytes each in the code). \<open>endpoints\<close> holds what does not change: the windows of both
  sides, the two bodies, and whether the runner accepts the target.
\<close>

subsection \<open>Credit windows (stream.go, credit.go)\<close>

record credit_window =
  avail :: int
  win_closed :: bool

definition newCreditWindow :: "int \<Rightarrow> credit_window" where
  "newCreditWindow initial = \<lparr>avail = initial, win_closed = False\<rparr>"

datatype acquired = MustWait | Cancelled | Got credit_window

text \<open>acquire under the mutex; it waits while there is too little credit, until something changes or the
  context is done. A call that has waited looks at the context before it looks at the window again.\<close>

definition acquire :: "bool \<Rightarrow> bool \<Rightarrow> credit_window \<Rightarrow> nat \<Rightarrow> acquired" where
  "acquire waited ctxDone w n =
     (if waited \<and> ctxDone then Cancelled
      else if avail w < int n \<and> \<not> win_closed w then (if ctxDone then Cancelled else MustWait)
      else if win_closed w then Cancelled
      else Got (w\<lparr>avail := avail w - int n\<rparr>))"

definition win_add :: "nat \<Rightarrow> credit_window \<Rightarrow> credit_window" where
  "win_add n w = w\<lparr>avail := avail w + int n\<rparr>"

definition win_close :: "credit_window \<Rightarrow> credit_window" where
  "win_close w = w\<lparr>win_closed := True\<rparr>"

subsection \<open>Frames and the state of an exchange\<close>

datatype tframe = ReqStart | ReqBody bytes | ReqEnd | StreamCancel
  | RespStart nat | RespBody bytes | RespEnd | RespError str | Credit nat

datatype sender = SndIdle | SndReading | SndHave bytes | SndDone
datatype pump_result = PumpOk | PumpFailed
datatype pump = PumpIdle | PumpWait bool | PumpDone pump_result
datatype pipe_writer = NoPipe | WOpen | WEof | WError
datatype serve = SrvIdle | SrvCheck | SrvDo | SrvReading | SrvHave bytes | SrvExit

text \<open>Tunnel.Close runs once, in the read loop when it ends (\<open>ByReader\<close>) or in another goroutine, the heartbeat's or that of a
  connection which replaces this one (\<open>ByOther\<close>). \<open>TunClosing\<close>: t.closed is closed; \<open>TunSwapped\<close>: the table is emptied, and
  whether the stream was in it.\<close>

datatype closer = ByReader | ByOther
datatype tun_phase = TunOpen | TunClosing closer | TunSwapped closer bool | TunClosed closer

record endpoints =
  relay_window :: nat
  runner_window :: nat
  request :: "bytes list"
  response :: "bytes list"
  response_status :: nat
  target_ok :: bool
  may_have_body :: bool

record exchange =
  conn :: bool
  down :: "tframe list"
  up :: "tframe list"
  ctx_done :: bool
  unread_body :: "bytes list"
  sending :: sender
  sendWin :: credit_window
  tun :: tun_phase
  in_table :: bool
  reading :: "tframe option"
  respCh :: "tframe list"
  pump :: pump
  http_status :: nat
  out :: bytes
  entry :: bool
  rctx_done :: bool
  rwin :: credit_window
  pipe :: pipe_writer
  pending :: "bytes option"
  reader_closed :: bool
  requested :: bool
  taken :: bytes
  srv :: serve
  unread_resp :: "bytes list"
  sent :: bytes

text \<open>The capacity of the channel of a stream.\<close>

definition respCap :: nat where "respCap = 64"

definition init_exchange :: "endpoints \<Rightarrow> exchange" where
  "init_exchange S = \<lparr>conn = True, down = [], up = [], ctx_done = False, unread_body = request S, sending = SndIdle,
     sendWin = newCreditWindow (int (relay_window S)), tun = TunOpen, in_table = False, reading = None, respCh = [], pump = PumpIdle, http_status = 0, out = [],
     entry = False, rctx_done = False, rwin = newCreditWindow (int (runner_window S)), pipe = NoPipe, pending = None,
     reader_closed = False, requested = False, taken = [], srv = SrvIdle, unread_resp = response S, sent = []\<rparr>"

subsection \<open>The relay (http.go, response.go, stream.go, tunnel.go)\<close>

definition relay_WriteFrame :: "tframe \<Rightarrow> exchange \<Rightarrow> exchange" where
  "relay_WriteFrame f s = (if conn s then s\<lparr>down := down s @ [f]\<rparr> else s)"

text \<open>ProxyHTTP: open the stream, send the head of the request, start the sender and the pump.\<close>

definition ProxyHTTP :: "exchange \<Rightarrow> exchange" where
  "ProxyHTTP s =
     (let s' = s\<lparr>in_table := True\<rparr>
      in if conn s' then (relay_WriteFrame ReqStart s')\<lparr>sending := SndReading, pump := PumpWait False\<rparr>
         else s'\<lparr>http_status := 502, sending := SndDone, pump := PumpDone PumpFailed\<rparr>)"

text \<open>sendRequestBody: a chunk in hand waits for credit.\<close>

definition send_chunk :: "bool \<Rightarrow> bytes \<Rightarrow> exchange \<Rightarrow> exchange option" where
  "send_chunk waited c s =
     (case acquire waited (ctx_done s) (sendWin s) (length c) of
        MustWait \<Rightarrow> None
      | Cancelled \<Rightarrow> Some ((relay_WriteFrame StreamCancel s)\<lparr>sending := SndDone\<rparr>)
      | Got w \<Rightarrow> Some (if conn s then (relay_WriteFrame (ReqBody c) s)\<lparr>sendWin := w, sending := SndReading\<rparr>
                     else s\<lparr>sendWin := w, sending := SndDone\<rparr>))"

text \<open>dispatch: getStream looks the stream up; with the stream in hand the read loop waits until the channel has room or the tunnel
  is closed, and when both are so either may be chosen.\<close>

definition relay_dispatch :: "tframe \<Rightarrow> exchange \<Rightarrow> exchange" where
  "relay_dispatch f s = (if in_table s then s\<lparr>reading := Some f\<rparr> else s)"

definition relay_deliver :: "tframe \<Rightarrow> exchange \<Rightarrow> exchange" where
  "relay_deliver f s = s\<lparr>reading := None, respCh := respCh s @ [f]\<rparr>"

definition relay_skip :: "exchange \<Rightarrow> exchange" where
  "relay_skip s = s\<lparr>reading := None\<rparr>"

definition statusForCode :: "str \<Rightarrow> nat" where
  "statusForCode c = (if c = ''target_busy'' then 429 else 502)"

text \<open>pumpResponse on a frame; the write to the browser succeeds.\<close>

definition pump_frame :: "bool \<Rightarrow> tframe \<Rightarrow> exchange \<Rightarrow> exchange" where
  "pump_frame started f s =
     (case f of
        RespStart st \<Rightarrow> s\<lparr>http_status := if st = 0 then 200 else st, pump := PumpWait True\<rparr>
      | RespBody b \<Rightarrow>
          if \<not> started then s\<lparr>pump := PumpDone PumpFailed\<rparr>
          else if b = [] then s
          else relay_WriteFrame (Credit (length b)) (s\<lparr>out := out s @ b\<rparr>)
      | RespEnd \<Rightarrow> s\<lparr>pump := PumpDone PumpOk\<rparr>
      | RespError c \<Rightarrow>
          (if started then s else s\<lparr>http_status := statusForCode c\<rparr>)\<lparr>pump := PumpDone PumpFailed\<rparr>
      | Credit n \<Rightarrow> if n > 0 then s\<lparr>sendWin := win_add n (sendWin s)\<rparr> else s
      | _ \<Rightarrow> s)"

definition pump_timeout :: "bool \<Rightarrow> exchange \<Rightarrow> exchange" where
  "pump_timeout started s =
     (relay_WriteFrame StreamCancel (if started then s else s\<lparr>http_status := 504\<rparr>))\<lparr>pump := PumpDone PumpFailed\<rparr>"

text \<open>CloseStream when ProxyHTTP returns. Tunnel.Close closes t.closed, then the connection, then empties the table and then tells
  the stream.\<close>

definition relay_CloseStream :: "exchange \<Rightarrow> exchange" where
  "relay_CloseStream s = s\<lparr>in_table := False, sendWin := win_close (sendWin s)\<rparr>"

definition tunnel_Close :: "closer \<Rightarrow> exchange \<Rightarrow> exchange" where
  "tunnel_Close c s = s\<lparr>tun := TunClosing c\<rparr>"

definition tunnel_swap :: "closer \<Rightarrow> exchange \<Rightarrow> exchange" where
  "tunnel_swap c s = s\<lparr>tun := TunSwapped c (in_table s), in_table := False\<rparr>"

definition tunnel_drain :: "closer \<Rightarrow> bool \<Rightarrow> exchange \<Rightarrow> exchange" where
  "tunnel_drain c listed s =
     (if listed
      then s\<lparr>tun := TunClosed c, sendWin := win_close (sendWin s),
             respCh := respCh s @ (if length (respCh s) < respCap then [RespError ''target_offline''] else [])\<rparr>
      else s\<lparr>tun := TunClosed c\<rparr>)"

subsection \<open>The runner (dispatcher.go, local_http.go)\<close>

definition runner_send :: "tframe \<Rightarrow> exchange \<Rightarrow> exchange" where
  "runner_send f s = (if conn s then s\<lparr>up := up s @ [f]\<rparr> else s)"

text \<open>The deferred cancel and remove of the goroutine of a stream.\<close>

definition serve_exit :: "exchange \<Rightarrow> exchange" where
  "serve_exit s = s\<lparr>srv := SrvExit, entry := False, rctx_done := True, rwin := win_close (rwin s)\<rparr>"

definition handleReqStart :: "endpoints \<Rightarrow> exchange \<Rightarrow> exchange" where
  "handleReqStart S s =
     s\<lparr>entry := True, rwin := newCreditWindow (int (runner_window S)), pipe := (if may_have_body S then WOpen else NoPipe), srv := SrvCheck\<rparr>"

text \<open>The body pipe's Write blocks until the body is read; a closed pipe refuses it.\<close>

definition pipe_Write :: "bytes \<Rightarrow> exchange \<Rightarrow> exchange" where
  "pipe_Write b s = (if pipe s \<noteq> WOpen \<or> reader_closed s then s else s\<lparr>pending := Some b\<rparr>)"

definition cancelStream :: "exchange \<Rightarrow> exchange" where
  "cancelStream s =
     (if entry s
      then s\<lparr>entry := False, rctx_done := True, rwin := win_close (rwin s),
             pipe := (if pipe s = NoPipe then NoPipe else if pipe s = WEof then WEof else WError),
             pending := (if pipe s = NoPipe then pending s else None)\<rparr>
      else s)"

definition runner_Dispatch :: "endpoints \<Rightarrow> tframe \<Rightarrow> exchange \<Rightarrow> exchange" where
  "runner_Dispatch S f s =
     (case f of
        ReqStart \<Rightarrow> handleReqStart S s
      | ReqBody b \<Rightarrow> if entry s \<and> pipe s \<noteq> NoPipe then pipe_Write b s else s
      | ReqEnd \<Rightarrow> if entry s \<and> pipe s = WOpen then s\<lparr>pipe := WEof\<rparr> else s
      | Credit n \<Rightarrow> if entry s \<and> n > 0 then s\<lparr>rwin := win_add n (rwin s)\<rparr> else s
      | StreamCancel \<Rightarrow> cancelStream s
      | _ \<Rightarrow> s)"

text \<open>serveLocalHTTP: the guard, and a chunk of the response in hand that waits for credit.\<close>

definition serve_check :: "endpoints \<Rightarrow> exchange \<Rightarrow> exchange" where
  "serve_check S s =
     (if \<not> target_ok S then serve_exit (runner_send (RespError ''target_forbidden'') s)
      else s\<lparr>srv := SrvDo, requested := True\<rparr>)"

definition serve_chunk :: "bool \<Rightarrow> bytes \<Rightarrow> exchange \<Rightarrow> exchange option" where
  "serve_chunk waited c s =
     (case acquire waited (rctx_done s) (rwin s) (length c) of
        MustWait \<Rightarrow> None
      | Cancelled \<Rightarrow> Some (serve_exit s)
      | Got w \<Rightarrow> Some (if conn s then (runner_send (RespBody c) s)\<lparr>rwin := w, srv := SrvReading, sent := sent s @ c\<rparr>
                     else serve_exit (s\<lparr>rwin := w\<rparr>)))"

subsection \<open>Runs\<close>

text \<open>Whether a sender has waited before its acquire returns is left open. The runner's dispatcher is closed when its read loop
  sees the end of the connection, and by Stop or a reconnect at any time, so \<open>runner_close\<close> does not wait for the read loop. The
  connection ends when it breaks or when one side closes it; frames that have already arrived may still be read, the others
  are lost, and a write to it fails or goes unseen. The relay's read loop ends when it has nothing more to read, and then closes the
  tunnel; any other goroutine may close it at any time.\<close>

inductive tstep :: "endpoints \<Rightarrow> exchange \<Rightarrow> exchange \<Rightarrow> bool" for S :: endpoints where
  start: "pump s = PumpIdle \<Longrightarrow> tstep S s (ProxyHTTP s)"
| read_body: "sending s = SndReading \<Longrightarrow> unread_body s = c # cs \<Longrightarrow> 
    tstep S s (s\<lparr>sending := (if c = [] then SndReading else SndHave c), unread_body := cs\<rparr>)"
| send_body: "sending s = SndHave c \<Longrightarrow> send_chunk waited c s = Some s' \<Longrightarrow> tstep S s s'"
| end_body: "sending s = SndReading \<Longrightarrow> unread_body s = [] \<Longrightarrow> tstep S s ((relay_WriteFrame ReqEnd s)\<lparr>sending := SndDone\<rparr>)"
| fail_body: "sending s = SndReading \<Longrightarrow> tstep S s ((relay_WriteFrame StreamCancel s)\<lparr>sending := SndDone\<rparr>)"
| send_unseen: "sending s = SndHave c \<Longrightarrow> \<not> conn s \<Longrightarrow> acquire waited (ctx_done s) (sendWin s) (length c) = Got w \<Longrightarrow>
    tstep S s (s\<lparr>sendWin := w, sending := SndReading\<rparr>)"
| relay_receive: "up s = f # fs \<Longrightarrow> reading s = None \<Longrightarrow> tstep S s (relay_dispatch f (s\<lparr>up := fs\<rparr>))"
| relay_deliver: "reading s = Some f \<Longrightarrow> length (respCh s) < respCap \<Longrightarrow> tstep S s (relay_deliver f s)"
| relay_skip: "reading s = Some f \<Longrightarrow> tun s \<noteq> TunOpen \<Longrightarrow> tstep S s (relay_skip s)"
| pump_one: "pump s = PumpWait b \<Longrightarrow> respCh s = f # fs \<Longrightarrow> tstep S s (pump_frame b f (s\<lparr>respCh := fs\<rparr>))"
| browser_gone: "pump s = PumpWait True \<Longrightarrow> respCh s = RespBody c # fs \<Longrightarrow> c \<noteq> [] \<Longrightarrow>
    tstep S s ((relay_WriteFrame StreamCancel (s\<lparr>respCh := fs\<rparr>))\<lparr>pump := PumpDone PumpFailed\<rparr>)"
| timeout: "pump s = PumpWait b \<Longrightarrow> ctx_done s \<Longrightarrow> tstep S s (pump_timeout b s)"
| cancel: "tstep S s (s\<lparr>ctx_done := True\<rparr>)"
| close_stream: "pump s = PumpDone r \<Longrightarrow> in_table s \<Longrightarrow> tstep S s (relay_CloseStream s)"
| connection_lost: "conn s \<Longrightarrow> tstep S s (s\<lparr>conn := False\<rparr>)"
| frames_lost: "\<not> conn s \<Longrightarrow> tstep S s (s\<lparr>up := []\<rparr>)"
| reader_closes: "\<not> conn s \<Longrightarrow> reading s = None \<Longrightarrow> tun s = TunOpen \<Longrightarrow> tstep S s (tunnel_Close ByReader (s\<lparr>up := []\<rparr>))"
| other_closes: "tun s = TunOpen \<Longrightarrow> tstep S s (tunnel_Close ByOther s)"
| swap_table: "tun s = TunClosing c \<Longrightarrow> \<not> conn s \<Longrightarrow> tstep S s (tunnel_swap c s)"
| drain_stream: "tun s = TunSwapped c listed \<Longrightarrow> tstep S s (tunnel_drain c listed s)"
| runner_receive: "down s = f # fs \<Longrightarrow> pending s = None \<Longrightarrow> tstep S s (runner_Dispatch S f (s\<lparr>down := fs\<rparr>))"
| runner_close: "\<not> conn s \<Longrightarrow> tstep S s (cancelStream (s\<lparr>down := []\<rparr>))"
| body_read: "requested s \<Longrightarrow> \<not> reader_closed s \<Longrightarrow> pending s = Some (x @ y) \<Longrightarrow> x \<noteq> [] \<Longrightarrow>
    tstep S s (s\<lparr>taken := taken s @ x, pending := (if y = [] then None else Some y)\<rparr>)"
| body_closed: "requested s \<Longrightarrow> \<not> reader_closed s \<Longrightarrow> tstep S s (s\<lparr>reader_closed := True, pending := None\<rparr>)"
| check_target: "srv s = SrvCheck \<Longrightarrow> tstep S s (serve_check S s)"
| respond: "srv s = SrvDo \<Longrightarrow> tstep S s ((runner_send (RespStart (response_status S)) s)\<lparr>srv := SrvReading\<rparr>)"
| unreachable: "srv s = SrvDo \<Longrightarrow> tstep S s (serve_exit (runner_send (RespError ''target_unreachable'') s))"
| read_response: "srv s = SrvReading \<Longrightarrow> unread_resp s = c # cs \<Longrightarrow> 
    tstep S s (s\<lparr>srv := (if c = [] then SrvReading else SrvHave c), unread_resp := cs\<rparr>)"
| send_response: "srv s = SrvHave c \<Longrightarrow> serve_chunk waited c s = Some s' \<Longrightarrow> tstep S s s'"
| send_response_unseen: "srv s = SrvHave c \<Longrightarrow> \<not> conn s \<Longrightarrow> acquire waited (rctx_done s) (rwin s) (length c) = Got w \<Longrightarrow>
    tstep S s (s\<lparr>rwin := w, srv := SrvReading, sent := sent s @ c\<rparr>)"
| end_response: "srv s = SrvReading \<Longrightarrow> unread_resp s = [] \<Longrightarrow> tstep S s (serve_exit (runner_send RespEnd s))"
| fail_response: "srv s = SrvReading \<Longrightarrow> tstep S s (serve_exit (runner_send (RespError ''target_read_error'') s))"

inductive treach :: "endpoints \<Rightarrow> exchange \<Rightarrow> bool" for S :: endpoints where
  init: "treach S (init_exchange S)"
| step: "treach S s \<Longrightarrow> tstep S s s' \<Longrightarrow> treach S s'"

end
