(* ===== verification/TunnelFlow.thy ===== *)
theory TunnelFlow
  imports TunnelStream
begin

text \<open>
  What holds in every reachable state of an exchange (\<open>treach\<close>): the flow of the response is bounded by
  the window of the runner and nothing of it is lost, doubled or reordered on the way to the browser; and three limits of the
  code: a request body larger than the relay's window is never sent to its end, because the runner grants no credit;
  and a body chunk can block the runner's read loop for ever.
\<close>

subsection \<open>Sizes of what is under way\<close>

definition resp_len :: "tframe list \<Rightarrow> nat" where
  "resp_len fs = sum_list (map (\<lambda>f. case f of RespBody b \<Rightarrow> length b | _ \<Rightarrow> 0) fs)"

definition credit_len :: "tframe list \<Rightarrow> nat" where
  "credit_len fs = sum_list (map (\<lambda>f. case f of Credit n \<Rightarrow> n | _ \<Rightarrow> 0) fs)"

definition req_len :: "tframe list \<Rightarrow> nat" where
  "req_len fs = sum_list (map (\<lambda>f. case f of ReqBody b \<Rightarrow> length b | _ \<Rightarrow> 0) fs)"

definition resp_bytes :: "tframe list \<Rightarrow> bytes" where
  "resp_bytes fs = concat (map (\<lambda>f. case f of RespBody b \<Rightarrow> b | _ \<Rightarrow> []) fs)"

lemma lens [simp]:
  "resp_len [] = 0" "resp_len (f # fs) = (case f of RespBody b \<Rightarrow> length b | _ \<Rightarrow> 0) + resp_len fs"
  "resp_len (fs @ gs) = resp_len fs + resp_len gs"
  "credit_len [] = 0" "credit_len (f # fs) = (case f of Credit n \<Rightarrow> n | _ \<Rightarrow> 0) + credit_len fs"
  "credit_len (fs @ gs) = credit_len fs + credit_len gs"
  "req_len [] = 0" "req_len (f # fs) = (case f of ReqBody b \<Rightarrow> length b | _ \<Rightarrow> 0) + req_len fs"
  "req_len (fs @ gs) = req_len fs + req_len gs"
  "resp_bytes [] = []" "resp_bytes (f # fs) = (case f of RespBody b \<Rightarrow> b | _ \<Rightarrow> []) @ resp_bytes fs"
  "resp_bytes (fs @ gs) = resp_bytes fs @ resp_bytes gs"
  by (simp_all add: resp_len_def credit_len_def req_len_def resp_bytes_def)

text \<open>The frame in the hand of the relay's read loop.\<close>

definition hold :: "tframe option \<Rightarrow> tframe list" where
  "hold f = (case f of None \<Rightarrow> [] | Some f \<Rightarrow> [f])"

lemma hold_simps [simp]: "hold None = []" "hold (Some f) = [f]"
  by (simp_all add: hold_def)

text \<open>Whether another goroutine than the read loop has closed the tunnel.\<close>

definition closed_elsewhere :: "tun_phase \<Rightarrow> bool" where
  "closed_elsewhere p = (case p of TunOpen \<Rightarrow> False | TunClosing c \<Rightarrow> c = ByOther | TunSwapped c listed \<Rightarrow> c = ByOther | TunClosed c \<Rightarrow> c = ByOther)"

lemma closed_elsewhere_simps [simp]: "\<not> closed_elsewhere TunOpen" "closed_elsewhere (TunClosing c) = (c = ByOther)"
  "closed_elsewhere (TunSwapped c listed) = (c = ByOther)" "closed_elsewhere (TunClosed c) = (c = ByOther)"
  by (simp_all add: closed_elsewhere_def)

lemma resp_bytes_none: "resp_len fs = 0 \<Longrightarrow> resp_bytes fs = []"
  by (induction fs) (auto split: tframe.splits)

lemmas step_defs = ProxyHTTP_def relay_WriteFrame_def send_chunk_def relay_dispatch_def relay_deliver_def relay_skip_def pump_frame_def
  pump_timeout_def relay_CloseStream_def tunnel_Close_def tunnel_swap_def tunnel_drain_def runner_send_def serve_exit_def handleReqStart_def pipe_Write_def cancelStream_def
  runner_Dispatch_def serve_check_def serve_chunk_def Let_def

lemmas window_defs = acquire_def win_add_def win_close_def newCreditWindow_def

subsection \<open>Invariants\<close>

text \<open>Before the runner has the head of the request, nothing else is under way.\<close>

definition phase_inv :: "exchange \<Rightarrow> bool" where
  "phase_inv s \<longleftrightarrow>
     (pump s = PumpIdle \<longrightarrow> down s = [] \<and> srv s = SrvIdle \<and> sending s = SndIdle) \<and>
     (ReqStart \<in> set (down s) \<longrightarrow> srv s = SrvIdle) \<and> count_list (down s) ReqStart \<le> 1 \<and>
     (srv s = SrvIdle \<longrightarrow> up s = [] \<and> reading s = None \<and> resp_len (respCh s) = 0 \<and> credit_len (down s) = 0)"

lemma phase_step: "tstep S s s' \<Longrightarrow> phase_inv s \<Longrightarrow> phase_inv s'"
  by (induction rule: tstep.induct;
      auto simp: phase_inv_def step_defs count_list_0_iff split: if_splits tframe.splits acquired.splits)

definition flow_inv :: "endpoints \<Rightarrow> exchange \<Rightarrow> bool" where
  "flow_inv S s \<longleftrightarrow> 0 \<le> avail (rwin s) \<and>
     avail (rwin s) + int (resp_len (respCh s @ hold (reading s) @ up s)) + int (credit_len (down s)) \<le> int (runner_window S)"

lemma flow_step: "tstep S s s' \<Longrightarrow> phase_inv s \<Longrightarrow> flow_inv S s \<Longrightarrow> flow_inv S s'"
  by (induction rule: tstep.induct;
      auto simp: flow_inv_def phase_inv_def step_defs window_defs split: if_splits tframe.splits)

text \<open>The runner grants no credit.\<close>

definition no_credit :: "exchange \<Rightarrow> bool" where
  "no_credit s \<longleftrightarrow> (\<forall>n. Credit n \<notin> set (up s) \<and> reading s \<noteq> Some (Credit n) \<and> Credit n \<notin> set (respCh s))"

lemma no_credit_step: "tstep S s s' \<Longrightarrow> no_credit s \<Longrightarrow> no_credit s'"
  by (induction rule: tstep.induct;
      auto simp: no_credit_def step_defs split: if_splits tframe.splits acquired.splits)

text \<open>The bytes of the request: those the target has taken, those on the way, those in the sender's hand.\<close>

definition used :: "endpoints \<Rightarrow> exchange \<Rightarrow> int" where
  "used S s = int (relay_window S) - avail (sendWin s)"

definition held :: "bytes option \<Rightarrow> nat" where
  "held p = (case p of None \<Rightarrow> 0 | Some b \<Rightarrow> length b)"

definition in_hand :: "sender \<Rightarrow> nat" where
  "in_hand x = (case x of SndHave c \<Rightarrow> length c | _ \<Rightarrow> 0)"

lemma held_simps [simp]: "held None = 0" "held (Some b) = length b" "in_hand SndIdle = 0" "in_hand SndReading = 0"
  "in_hand (SndHave c) = length c" "in_hand SndDone = 0"
  by (simp_all add: held_def in_hand_def)

definition upload_inv :: "endpoints \<Rightarrow> exchange \<Rightarrow> bool" where
  "upload_inv S s \<longleftrightarrow> 0 \<le> avail (sendWin s) \<and>
     int (length (taken s) + held (pending s) + req_len (down s)) \<le> used S s"

lemma upload_step: "tstep S s s' \<Longrightarrow> no_credit s \<Longrightarrow> upload_inv S s \<Longrightarrow> upload_inv S s'"
  by (induction rule: tstep.induct;
      auto simp: upload_inv_def used_def no_credit_def step_defs window_defs split: if_splits tframe.splits)

definition body_inv :: "endpoints \<Rightarrow> exchange \<Rightarrow> bool" where
  "body_inv S s \<longleftrightarrow>
     (sending s \<noteq> SndDone \<longrightarrow>
        int (length (concat (request S))) = used S s + int (in_hand (sending s)) + int (length (concat (unread_body s)))) \<and>
     (ReqEnd \<in> set (down s) \<or> pipe s = WEof \<longrightarrow> length (concat (request S)) \<le> relay_window S)"

lemma body_step: "tstep S s s' \<Longrightarrow> phase_inv s \<Longrightarrow> no_credit s \<Longrightarrow> upload_inv S s \<Longrightarrow> body_inv S s \<Longrightarrow> body_inv S s'"
  by (induction rule: tstep.induct;
      auto simp: phase_inv_def body_inv_def upload_inv_def used_def no_credit_def step_defs window_defs split: if_splits tframe.splits)

text \<open>While the exchange is whole, credit and bytes under way add up to the window exactly.\<close>

definition whole :: "exchange \<Rightarrow> bool" where
  "whole s \<longleftrightarrow> conn s \<and> tun s = TunOpen \<and> in_table s \<and> entry s \<and> (\<exists>b. pump s = PumpWait b)"

definition exact_inv :: "endpoints \<Rightarrow> exchange \<Rightarrow> bool" where
  "exact_inv S s \<longleftrightarrow> (entry s \<or> rctx_done s \<longrightarrow> srv s \<noteq> SrvIdle) \<and> (whole s \<longrightarrow>
     avail (rwin s) + int (resp_len (respCh s @ hold (reading s) @ up s)) + int (credit_len (down s)) = int (runner_window S) \<and>
     \<not> win_closed (rwin s) \<and> \<not> rctx_done s)"

text \<open>Nothing of a body follows the end of the response.\<close>

fun quiet :: "tframe list \<Rightarrow> bool" where
  "quiet [] \<longleftrightarrow> True"
| "quiet (f # fs) \<longleftrightarrow> (f = RespEnd \<longrightarrow> resp_bytes fs = []) \<and> quiet fs"

lemma quiet_append: "quiet (as @ bs) \<longleftrightarrow> quiet as \<and> quiet bs \<and> (RespEnd \<in> set as \<longrightarrow> resp_bytes bs = [])"
  by (induction as) auto

definition serve_hand :: "serve \<Rightarrow> bytes" where
  "serve_hand x = (case x of SrvHave c \<Rightarrow> c | _ \<Rightarrow> [])"

lemma serve_hand_simps [simp]: "serve_hand SrvIdle = []" "serve_hand SrvCheck = []" "serve_hand SrvDo = []"
  "serve_hand SrvReading = []" "serve_hand (SrvHave c) = c" "serve_hand SrvExit = []"
  by (simp_all add: serve_hand_def)

definition runner_inv :: "endpoints \<Rightarrow> exchange \<Rightarrow> bool" where
  "runner_inv S s \<longleftrightarrow>
     (srv s \<noteq> SrvExit \<longrightarrow> concat (response S) = sent s @ serve_hand (srv s) @ concat (unread_resp s)) \<and>
     prefix (sent s) (concat (response S)) \<and> (srv s = SrvIdle \<longrightarrow> sent s = []) \<and>
     (RespEnd \<in> set (respCh s @ hold (reading s) @ up s) \<longrightarrow> srv s = SrvExit \<and> sent s = concat (response S)) \<and>
     quiet (respCh s @ hold (reading s) @ up s)"

text \<open>What the browser has and will have, in order: with a tunnel that another goroutine closes frames may be missing in
  between, otherwise only at the end.\<close>

definition order_inv :: "exchange \<Rightarrow> bool" where
  "order_inv s \<longleftrightarrow> subseq (out s @ resp_bytes (respCh s @ hold (reading s) @ up s)) (sent s)"

definition arrived :: "exchange \<Rightarrow> bytes" where
  "arrived s = out s @ resp_bytes (respCh s) @ resp_bytes (hold (reading s))"

definition browser_inv :: "endpoints \<Rightarrow> exchange \<Rightarrow> bool" where
  "browser_inv S s \<longleftrightarrow> closed_elsewhere (tun s) \<or> prefix (out s) (sent s) \<and>
     ((\<exists>b. pump s = PumpWait b) \<longrightarrow>
        prefix (arrived s) (sent s) \<and>
        (in_table s \<longrightarrow> prefix (arrived s @ resp_bytes (up s)) (sent s)) \<and>
        (in_table s \<and> (conn s \<or> RespEnd \<in> set (up s)) \<longrightarrow> arrived s @ resp_bytes (up s) = sent s) \<and>
        (RespEnd \<in> set (respCh s @ hold (reading s)) \<longrightarrow> arrived s = sent s)) \<and>
     (pump s = PumpDone PumpOk \<longrightarrow> out s = concat (response S))"

text \<open>The data invariants do not see the sender, the frames to the runner and the state of the runner's stream.\<close>

lemma runner_inv_frame [simp]:
  "runner_inv S (s\<lparr>conn := a\<rparr>) = runner_inv S s" "runner_inv S (s\<lparr>down := b\<rparr>) = runner_inv S s"
  "runner_inv S (s\<lparr>ctx_done := a\<rparr>) = runner_inv S s" "runner_inv S (s\<lparr>unread_body := c\<rparr>) = runner_inv S s"
  "runner_inv S (s\<lparr>sending := d\<rparr>) = runner_inv S s" "runner_inv S (s\<lparr>sendWin := w\<rparr>) = runner_inv S s"
  "runner_inv S (s\<lparr>http_status := n\<rparr>) = runner_inv S s" "runner_inv S (s\<lparr>entry := a\<rparr>) = runner_inv S s"
  "runner_inv S (s\<lparr>rctx_done := a\<rparr>) = runner_inv S s" "runner_inv S (s\<lparr>rwin := w\<rparr>) = runner_inv S s"
  "runner_inv S (s\<lparr>pipe := p\<rparr>) = runner_inv S s" "runner_inv S (s\<lparr>pending := q\<rparr>) = runner_inv S s"
  "runner_inv S (s\<lparr>reader_closed := a\<rparr>) = runner_inv S s" "runner_inv S (s\<lparr>requested := a\<rparr>) = runner_inv S s"
  "runner_inv S (s\<lparr>taken := o1\<rparr>) = runner_inv S s" "runner_inv S (s\<lparr>in_table := a\<rparr>) = runner_inv S s"
  "runner_inv S (s\<lparr>out := o1\<rparr>) = runner_inv S s" "runner_inv S (s\<lparr>pump := r\<rparr>) = runner_inv S s"
  "runner_inv S (s\<lparr>tun := t\<rparr>) = runner_inv S s"
  by (simp_all add: runner_inv_def)

lemma browser_inv_frame [simp]:
  "browser_inv S (s\<lparr>down := b\<rparr>) = browser_inv S s"
  "browser_inv S (s\<lparr>ctx_done := a\<rparr>) = browser_inv S s" "browser_inv S (s\<lparr>unread_body := c\<rparr>) = browser_inv S s"
  "browser_inv S (s\<lparr>sending := d\<rparr>) = browser_inv S s" "browser_inv S (s\<lparr>sendWin := w\<rparr>) = browser_inv S s"
  "browser_inv S (s\<lparr>http_status := n\<rparr>) = browser_inv S s" "browser_inv S (s\<lparr>entry := a\<rparr>) = browser_inv S s"
  "browser_inv S (s\<lparr>rctx_done := a\<rparr>) = browser_inv S s" "browser_inv S (s\<lparr>rwin := w\<rparr>) = browser_inv S s"
  "browser_inv S (s\<lparr>pipe := p\<rparr>) = browser_inv S s" "browser_inv S (s\<lparr>pending := q\<rparr>) = browser_inv S s"
  "browser_inv S (s\<lparr>reader_closed := a\<rparr>) = browser_inv S s" "browser_inv S (s\<lparr>requested := a\<rparr>) = browser_inv S s"
  "browser_inv S (s\<lparr>taken := o1\<rparr>) = browser_inv S s" "browser_inv S (s\<lparr>srv := x\<rparr>) = browser_inv S s"
  "browser_inv S (s\<lparr>unread_resp := c\<rparr>) = browser_inv S s"
  by (simp_all add: browser_inv_def arrived_def)

lemma order_inv_frame [simp]:
  "order_inv (s\<lparr>conn := a\<rparr>) = order_inv s" "order_inv (s\<lparr>down := b\<rparr>) = order_inv s"
  "order_inv (s\<lparr>ctx_done := a\<rparr>) = order_inv s" "order_inv (s\<lparr>unread_body := c\<rparr>) = order_inv s"
  "order_inv (s\<lparr>sending := d\<rparr>) = order_inv s" "order_inv (s\<lparr>sendWin := w\<rparr>) = order_inv s"
  "order_inv (s\<lparr>http_status := n\<rparr>) = order_inv s" "order_inv (s\<lparr>entry := a\<rparr>) = order_inv s"
  "order_inv (s\<lparr>rctx_done := a\<rparr>) = order_inv s" "order_inv (s\<lparr>rwin := w\<rparr>) = order_inv s"
  "order_inv (s\<lparr>pipe := p\<rparr>) = order_inv s" "order_inv (s\<lparr>pending := q\<rparr>) = order_inv s"
  "order_inv (s\<lparr>reader_closed := a\<rparr>) = order_inv s" "order_inv (s\<lparr>requested := a\<rparr>) = order_inv s"
  "order_inv (s\<lparr>taken := o1\<rparr>) = order_inv s" "order_inv (s\<lparr>srv := x\<rparr>) = order_inv s"
  "order_inv (s\<lparr>unread_resp := c\<rparr>) = order_inv s" "order_inv (s\<lparr>in_table := a\<rparr>) = order_inv s"
  "order_inv (s\<lparr>pump := r\<rparr>) = order_inv s" "order_inv (s\<lparr>tun := t\<rparr>) = order_inv s"
  by (simp_all add: order_inv_def)

text \<open>A step of the sender touches only the sender, its window and what it sends.\<close>

lemma send_chunk_keeps:
  assumes "send_chunk waited c s = Some s'"
  shows "\<exists>fs w x. s' = s\<lparr>down := down s @ fs, sendWin := w, sending := x\<rparr> \<and> set fs \<subseteq> {StreamCancel, ReqBody c}"
  using assms
  by (cases s) (auto simp: send_chunk_def relay_WriteFrame_def split: acquired.splits if_splits intro: exI [of _ "[]"])

lemma send_chunk_cases:
  assumes "send_chunk waited c s = Some s'"
  obtains (cancelled) "s' = (relay_WriteFrame StreamCancel s)\<lparr>sending := SndDone\<rparr>"
  | (sent) w where "conn s" "s' = s\<lparr>down := down s @ [ReqBody c], sendWin := w, sending := SndReading\<rparr>"
  | (lost) w where "\<not> conn s" "s' = s\<lparr>sendWin := w, sending := SndDone\<rparr>"
  using assms by (auto simp: send_chunk_def relay_WriteFrame_def split: acquired.splits if_splits)

lemma credit_len_none: "set fs \<subseteq> {StreamCancel, ReqBody c} \<Longrightarrow> credit_len fs = 0"
  by (induction fs) auto

text \<open>What the runner's read loop touches.\<close>

lemma cancelStream_keeps:
  "\<exists>e r w p q. cancelStream s = s\<lparr>entry := e, rctx_done := r, rwin := w, pipe := p, pending := q\<rparr>"
  by (cases s) (auto simp: cancelStream_def)

lemma runner_Dispatch_keeps:
  "\<exists>e r w p q. runner_Dispatch S f s = s\<lparr>entry := e, rctx_done := r, rwin := w, pipe := p, pending := q,
      srv := (if f = ReqStart then SrvCheck else srv s)\<rparr>"
proof (cases f)
  case StreamCancel
  then show ?thesis using cancelStream_keeps [of s] by (cases s) (auto simp: runner_Dispatch_def)
qed (cases s; auto simp: runner_Dispatch_def handleReqStart_def pipe_Write_def)+

lemma runner_loop_inv:
  assumes "down s = f # fs" "phase_inv s"
  shows "runner_inv S s \<Longrightarrow> runner_inv S (runner_Dispatch S f (s\<lparr>down := fs\<rparr>))"
    "browser_inv S s \<Longrightarrow> browser_inv S (runner_Dispatch S f (s\<lparr>down := fs\<rparr>))"
    "runner_inv S s \<Longrightarrow> runner_inv S (cancelStream (s\<lparr>down := []\<rparr>))"
    "browser_inv S s \<Longrightarrow> browser_inv S (cancelStream (s\<lparr>down := []\<rparr>))"
proof -
  obtain e r w p q where "runner_Dispatch S f (s\<lparr>down := fs\<rparr>) = s\<lparr>down := fs, entry := e, rctx_done := r, rwin := w,
      pipe := p, pending := q, srv := (if f = ReqStart then SrvCheck else srv (s\<lparr>down := fs\<rparr>))\<rparr>"
    using runner_Dispatch_keeps [of S f "s\<lparr>down := fs\<rparr>"] by blast
  then have d: "runner_Dispatch S f (s\<lparr>down := fs\<rparr>) = s\<lparr>down := fs, entry := e, rctx_done := r, rwin := w,
      pipe := p, pending := q, srv := (if f = ReqStart then SrvCheck else srv s)\<rparr>" by simp
  have "f = ReqStart \<Longrightarrow> srv s = SrvIdle" using assms by (auto simp: phase_inv_def)
  then show "runner_inv S s \<Longrightarrow> runner_inv S (runner_Dispatch S f (s\<lparr>down := fs\<rparr>))"
    "browser_inv S s \<Longrightarrow> browser_inv S (runner_Dispatch S f (s\<lparr>down := fs\<rparr>))"
    unfolding d by (cases "f = ReqStart"; simp add: runner_inv_def)+
next
  obtain e r w p q where "cancelStream (s\<lparr>down := []\<rparr>) = s\<lparr>down := [], entry := e, rctx_done := r, rwin := w, pipe := p, pending := q\<rparr>"
    using cancelStream_keeps [of "s\<lparr>down := []\<rparr>"] by auto
  then show "runner_inv S s \<Longrightarrow> runner_inv S (cancelStream (s\<lparr>down := []\<rparr>))"
    "browser_inv S s \<Longrightarrow> browser_inv S (cancelStream (s\<lparr>down := []\<rparr>))"
    by simp_all
qed

text \<open>What the relay's read loop and the loss of the connection touch.\<close>

lemma quiet_drop: "quiet (as @ f # bs) \<Longrightarrow> quiet (as @ bs)"
  by (auto simp: quiet_append)

lemma relay_receive_runner:
  assumes "up s = f # fs" "reading s = None" "runner_inv S s"
  shows "runner_inv S (relay_dispatch f (s\<lparr>up := fs\<rparr>))"
proof (cases "in_table s")
  case True
  then show ?thesis using assms by (simp add: relay_dispatch_def runner_inv_def)
next
  case False
  then show ?thesis using assms quiet_drop [of "respCh s" f fs] by (simp add: relay_dispatch_def runner_inv_def)
qed

lemma relay_deliver_runner: "reading s = Some f \<Longrightarrow> runner_inv S s \<Longrightarrow> runner_inv S (relay_deliver f s)"
  by (simp add: relay_deliver_def runner_inv_def)

lemma relay_skip_runner: "reading s = Some f \<Longrightarrow> runner_inv S s \<Longrightarrow> runner_inv S (relay_skip s)"
  using quiet_drop [of "respCh s" f "up s"] by (simp add: relay_skip_def runner_inv_def)

lemma relay_receive_browser:
  assumes "up s = f # fs" "reading s = None" "runner_inv S s" "browser_inv S s"
  shows "browser_inv S (relay_dispatch f (s\<lparr>up := fs\<rparr>))"
proof (cases "closed_elsewhere (tun s)")
  case True
  then show ?thesis by (simp add: relay_dispatch_def browser_inv_def)
next
  case open': False
  show ?thesis
  proof (cases "in_table s")
    case True
    have q: "f = RespEnd \<Longrightarrow> resp_bytes fs = []" using assms(1,2,3) by (simp add: runner_inv_def quiet_append)
    let ?m = "out s @ resp_bytes (respCh s)"
    have p: "prefix ((?m @ resp_bytes [f]) @ resp_bytes fs) (sent s)" "conn s \<or> RespEnd \<in> set (f # fs) \<Longrightarrow> (?m @ resp_bytes [f]) @ resp_bytes fs = sent s"
        "RespEnd \<in> set (respCh s) \<Longrightarrow> ?m = sent s"
      if "pump s = PumpWait b" for b
      using assms(4) open' True that by (simp_all add: browser_inv_def arrived_def assms(1,2))
    have "RespEnd \<in> set (respCh s @ [f]) \<Longrightarrow> ?m @ resp_bytes [f] = sent s" if b: "pump s = PumpWait b" for b
    proof -
      assume e: "RespEnd \<in> set (respCh s @ [f])"
      show "?m @ resp_bytes [f] = sent s"
      proof (cases "f = RespEnd")
        case True
        then show ?thesis using p(2) [OF b] q by simp
      next
        case False
        then have "?m = sent s" using e p(3) [OF b] by simp
        then show ?thesis using append_prefixD [OF p(1) [OF b]] by (metis append_prefixD prefix_order.antisym prefix_def)
      qed
    qed
    moreover have "prefix (?m @ resp_bytes [f]) (sent s)" if "pump s = PumpWait b" for b by (rule append_prefixD [OF p(1) [OF that]])
    ultimately show ?thesis using assms(2,4) open' True p unfolding browser_inv_def arrived_def relay_dispatch_def
      by clarsimp
  next
    case False
    then show ?thesis using assms(4) open' by (simp add: relay_dispatch_def browser_inv_def arrived_def)
  qed
qed

lemma relay_deliver_browser: "reading s = Some f \<Longrightarrow> browser_inv S s \<Longrightarrow> browser_inv S (relay_deliver f s)"
  by (simp add: relay_deliver_def browser_inv_def arrived_def)

text \<open>The read loop is at its end when it closes the tunnel, so it has no frame in hand that it could drop.\<close>

definition reader_inv :: "exchange \<Rightarrow> bool" where
  "reader_inv s \<longleftrightarrow> tun s = TunOpen \<or> closed_elsewhere (tun s) \<or> \<not> conn s \<and> up s = [] \<and> reading s = None"

lemma reader_step: "tstep S s s' \<Longrightarrow> reader_inv s \<Longrightarrow> reader_inv s'"
  by (induction rule: tstep.induct; auto simp: reader_inv_def step_defs split: if_splits tframe.splits acquired.splits)

lemma relay_skip_browser: "reading s = Some f \<Longrightarrow> tun s \<noteq> TunOpen \<Longrightarrow> reader_inv s \<Longrightarrow> browser_inv S (relay_skip s)"
  by (auto simp: relay_skip_def reader_inv_def browser_inv_def)

lemma pump_frame_inv:
  assumes "pump s = PumpWait b" "respCh s = f # fs" "runner_inv S s" "browser_inv S s"
  shows "browser_inv S (pump_frame b f (s\<lparr>respCh := fs\<rparr>))"
proof (cases "closed_elsewhere (tun s)")
  case True
  then show ?thesis by (cases f) (simp_all add: pump_frame_def relay_WriteFrame_def browser_inv_def)
next
  case False
  let ?h = "resp_bytes (hold (reading s))"
  have h: "prefix (out s @ resp_bytes [f] @ resp_bytes fs @ ?h) (sent s)"
    "in_table s \<Longrightarrow> prefix (out s @ resp_bytes [f] @ resp_bytes fs @ ?h @ resp_bytes (up s)) (sent s)"
    "in_table s \<Longrightarrow> conn s \<or> RespEnd \<in> set (up s) \<Longrightarrow> out s @ resp_bytes [f] @ resp_bytes fs @ ?h @ resp_bytes (up s) = sent s"
    "f = RespEnd \<or> RespEnd \<in> set (fs @ hold (reading s)) \<Longrightarrow> out s @ resp_bytes [f] @ resp_bytes fs @ ?h = sent s"
    using assms(1,2,4) False by (simp_all add: browser_inv_def arrived_def) (cases f, auto)
  have p: "prefix (out s @ resp_bytes [f]) (sent s)" "prefix (out s) (sent s)"
    using append_prefixD h(1) append.assoc by metis+
  have e: "resp_bytes fs = [] \<and> ?h = [] \<and> sent s = concat (response S)" if "f = RespEnd"
    using assms(2,3) that by (simp add: runner_inv_def)
  show ?thesis
    using h p e assms(1) False by (cases f) (auto simp: pump_frame_def relay_WriteFrame_def browser_inv_def arrived_def)
qed

lemma pump_frame_runner:
  assumes "pump s = PumpWait b" "respCh s = f # fs" "phase_inv s" "runner_inv S s"
  shows "runner_inv S (pump_frame b f (s\<lparr>respCh := fs\<rparr>))"
proof -
  have "runner_inv S (pump_frame b f x) = runner_inv S x" for x
    by (cases f) (simp_all add: pump_frame_def relay_WriteFrame_def)
  then show ?thesis using assms(2,4) by (simp add: runner_inv_def)
qed

lemma connection_lost_inv: "browser_inv S s \<Longrightarrow> browser_inv S (s\<lparr>conn := False\<rparr>)"
  by (auto simp: browser_inv_def arrived_def)

lemma frames_lost_inv:
  "runner_inv S s \<Longrightarrow> runner_inv S (s\<lparr>up := []\<rparr>)" "\<not> conn s \<Longrightarrow> browser_inv S s \<Longrightarrow> browser_inv S (s\<lparr>up := []\<rparr>)"
  by (auto simp: runner_inv_def quiet_append browser_inv_def arrived_def)

lemma tunnel_close_inv:
  "tun s = TunOpen \<Longrightarrow> browser_inv S s \<Longrightarrow> browser_inv S (tunnel_Close c s)"
  "tun s = TunClosing c \<Longrightarrow> browser_inv S s \<Longrightarrow> browser_inv S (tunnel_swap c s)"
  "tun s = TunSwapped c listed \<Longrightarrow> browser_inv S s \<Longrightarrow> browser_inv S (tunnel_drain c listed s)"
  "tun s = TunSwapped c listed \<Longrightarrow> runner_inv S s \<Longrightarrow> runner_inv S (tunnel_drain c listed s)"
  by (auto simp: tunnel_Close_def tunnel_swap_def tunnel_drain_def browser_inv_def runner_inv_def arrived_def quiet_append)

lemma serve_chunk_cases:
  assumes "serve_chunk waited c s = Some s'"
  obtains (cancelled) "s' = serve_exit s"
  | (sent) w where "conn s" "s' = s\<lparr>up := up s @ [RespBody c], rwin := w, srv := SrvReading, sent := sent s @ c\<rparr>"
  | (lost) w where "s' = serve_exit (s\<lparr>rwin := w\<rparr>)"
  using assms by (auto simp: serve_chunk_def runner_send_def split: acquired.splits if_splits)

lemma runner_send_browser: "resp_bytes [f] = [] \<Longrightarrow> browser_inv S s \<Longrightarrow> browser_inv S (runner_send f s)"
  by (cases f) (auto simp: runner_send_def browser_inv_def arrived_def)

lemma serve_exit_inv: "browser_inv S (serve_exit s) = browser_inv S s" "order_inv (serve_exit s) = order_inv s"
  by (simp_all add: serve_exit_def)

lemma respond_inv:
  assumes "srv s = SrvHave c" "runner_inv S s" "conn s \<and> x = [RespBody c] \<or> \<not> conn s \<and> x = []"
  shows "runner_inv S (s\<lparr>up := up s @ x, rwin := w, srv := SrvReading, sent := sent s @ c\<rparr>)"
    "browser_inv S s \<Longrightarrow> browser_inv S (s\<lparr>up := up s @ x, rwin := w, srv := SrvReading, sent := sent s @ c\<rparr>)"
proof -
  have e: "RespEnd \<notin> set (respCh s @ hold (reading s) @ up s)" using assms(1,2) by (auto simp: runner_inv_def)
  show "runner_inv S (s\<lparr>up := up s @ x, rwin := w, srv := SrvReading, sent := sent s @ c\<rparr>)"
    using assms e by (auto simp: runner_inv_def quiet_append)
  show "browser_inv S (s\<lparr>up := up s @ x, rwin := w, srv := SrvReading, sent := sent s @ c\<rparr>)" if "browser_inv S s"
    using that assms(3) e by (auto simp: browser_inv_def arrived_def simp flip: append_assoc)
qed

lemma serve_chunk_inv:
  assumes "srv s = SrvHave c" "serve_chunk waited c s = Some s'" "runner_inv S s"
  shows "runner_inv S s'" "browser_inv S s \<Longrightarrow> browser_inv S s'"
proof -
  have exit: "runner_inv S (serve_exit (s\<lparr>rwin := w\<rparr>))" "runner_inv S (serve_exit s)" for w
    using assms(1,3) by (simp_all add: serve_exit_def runner_inv_def)
  show "runner_inv S s'" using assms(2)
  proof (cases rule: serve_chunk_cases)
    case (sent w)
    then show ?thesis using respond_inv(1) [OF assms(1,3)] by simp
  qed (simp_all add: exit)
  show "browser_inv S s'" if "browser_inv S s" using assms(2)
  proof (cases rule: serve_chunk_cases)
    case (sent w)
    then show ?thesis using respond_inv(2) [OF assms(1,3)] that by simp
  qed (use that in \<open>simp_all add: serve_exit_inv\<close>)
qed

lemma respond_unseen_inv:
  assumes "srv s = SrvHave c" "\<not> conn s" "runner_inv S s"
  shows "runner_inv S (s\<lparr>rwin := w, srv := SrvReading, sent := sent s @ c\<rparr>)"
    "browser_inv S s \<Longrightarrow> browser_inv S (s\<lparr>rwin := w, srv := SrvReading, sent := sent s @ c\<rparr>)"
  using respond_inv [OF assms(1,3), of "[]" w] assms(2) by simp_all

lemma send_chunk_inv:
  assumes "send_chunk waited c s = Some s'"
  shows "exact_inv S s \<Longrightarrow> exact_inv S s'" "runner_inv S s \<Longrightarrow> runner_inv S s'" "browser_inv S s \<Longrightarrow> browser_inv S s'"
    "order_inv s \<Longrightarrow> order_inv s'"
proof -
  obtain fs w x where "s' = s\<lparr>down := down s @ fs, sendWin := w, sending := x\<rparr>" "credit_len fs = 0"
    using send_chunk_keeps [OF assms] credit_len_none by blast
  then show "exact_inv S s \<Longrightarrow> exact_inv S s'" "runner_inv S s \<Longrightarrow> runner_inv S s'" "browser_inv S s \<Longrightarrow> browser_inv S s'"
    "order_inv s \<Longrightarrow> order_inv s'"
    by (simp_all add: exact_inv_def whole_def runner_inv_def)
qed

lemma exact_step: "tstep S s s' \<Longrightarrow> phase_inv s \<Longrightarrow> exact_inv S s \<Longrightarrow> exact_inv S s'"
  by (induction rule: tstep.induct;
      (erule (1) send_chunk_inv(1) | auto simp: exact_inv_def whole_def phase_inv_def step_defs window_defs split: if_splits tframe.splits))

lemmas step_inv = serve_chunk_inv respond_unseen_inv relay_receive_runner relay_deliver_runner relay_skip_runner relay_receive_browser
  relay_deliver_browser relay_skip_browser connection_lost_inv frames_lost_inv tunnel_close_inv runner_loop_inv pump_frame_runner pump_frame_inv

lemma runner_step: "tstep S s s' \<Longrightarrow> phase_inv s \<Longrightarrow> runner_inv S s \<Longrightarrow> runner_inv S s'"
proof (induction rule: tstep.induct)
  case (start s)
  then show ?case by (simp add: ProxyHTTP_def relay_WriteFrame_def Let_def)
next
  case (reader_closes s)
  then show ?case by (simp add: tunnel_Close_def frames_lost_inv(1))
next
  case (browser_gone s c fs)
  then show ?case by (simp add: relay_WriteFrame_def runner_inv_def)
next
  case (check_target s)
  then show ?case by (auto simp: serve_check_def serve_exit_def runner_send_def runner_inv_def quiet_append)
next
  case (unreachable s)
  then show ?case by (auto simp: serve_exit_def runner_send_def runner_inv_def quiet_append)
next
  case (end_response s)
  then show ?case by (auto simp: serve_exit_def runner_send_def runner_inv_def quiet_append)
next
  case (fail_response s)
  then show ?case by (auto simp: serve_exit_def runner_send_def runner_inv_def quiet_append)
next
  case (respond s)
  then show ?case by (auto simp: runner_send_def runner_inv_def quiet_append)
next
  case (timeout s b)
  then show ?case by (simp add: pump_timeout_def relay_WriteFrame_def)
next
  case (read_response s c cs)
  then show ?case by (auto simp: runner_inv_def)
next
  case (close_stream s r)
  then show ?case by (simp add: relay_CloseStream_def)
qed (erule (1) send_chunk_inv | (rule step_inv; assumption) | (simp add: relay_WriteFrame_def tunnel_Close_def tunnel_swap_def cancelStream_def; fail))+

lemma browser_step: "tstep S s s' \<Longrightarrow> phase_inv s \<Longrightarrow> reader_inv s \<Longrightarrow> runner_inv S s \<Longrightarrow> browser_inv S s \<Longrightarrow> browser_inv S s'"
proof (induction rule: tstep.induct)
  case (start s)
  then show ?case
    by (auto simp: resp_bytes_none browser_inv_def runner_inv_def phase_inv_def arrived_def ProxyHTTP_def relay_WriteFrame_def Let_def)
next
  case (reader_closes s)
  then have "browser_inv S (s\<lparr>up := []\<rparr>)" by (intro frames_lost_inv(2))
  then show ?case by (intro tunnel_close_inv(1)) (simp_all add: reader_closes)
next
  case (pump_one s b f fs)
  then show ?case by (intro pump_frame_inv)
next
  case (browser_gone s c fs)
  then show ?case by (auto simp: browser_inv_def relay_WriteFrame_def)
next
  case (check_target s)
  then show ?case by (simp add: serve_check_def serve_exit_inv runner_send_browser)
next
  case (unreachable s)
  then show ?case by (simp add: serve_exit_inv runner_send_browser)
next
  case (end_response s)
  then show ?case by (simp add: serve_exit_inv runner_send_browser)
next
  case (fail_response s)
  then show ?case by (simp add: serve_exit_inv runner_send_browser)
next
  case (respond s)
  then show ?case by (simp add: runner_send_browser)
next
  case (timeout s b)
  then show ?case by (auto simp: browser_inv_def pump_timeout_def relay_WriteFrame_def)
next
  case (close_stream s r)
  then show ?case by (auto simp: browser_inv_def relay_CloseStream_def)
qed (erule (1) send_chunk_inv | (rule step_inv; assumption) | (simp add: relay_WriteFrame_def cancelStream_def; fail) | simp)+

text \<open>The order of the bytes.\<close>

lemma order_less:
  assumes "order_inv s" "subseq x (out s @ resp_bytes (respCh s @ hold (reading s) @ up s))"
    "out s' @ resp_bytes (respCh s' @ hold (reading s') @ up s') = x" "sent s' = sent s"
  shows "order_inv s'"
  using assms subseq_order.trans unfolding order_inv_def by metis

lemma subseq_skip: "subseq (a @ c) (a @ b @ c)"
  by (simp add: subseq_append' list_emb_append2)

lemma order_send: "resp_bytes [f] = [] \<Longrightarrow> order_inv s \<Longrightarrow> order_inv (runner_send f s)"
  by (cases f) (auto simp: runner_send_def order_inv_def)

lemma order_step: "tstep S s s' \<Longrightarrow> phase_inv s \<Longrightarrow> order_inv s \<Longrightarrow> order_inv s'"
proof (induction rule: tstep.induct)
  case (start s)
  then show ?case by (simp add: ProxyHTTP_def relay_WriteFrame_def Let_def)
next
  case (send_body s c waited s')
  then show ?case using send_chunk_inv(4) by blast
next
  case (relay_receive s f fs)
  show ?case
  proof (cases "in_table s")
    case True
    show ?thesis by (rule order_less [OF relay_receive(4) subseq_order.refl]) (simp_all add: relay_dispatch_def True relay_receive(1,2))
  next
    case False
    have "subseq (out s @ resp_bytes (respCh s @ fs)) (out s @ resp_bytes (respCh s @ hold (reading s) @ up s))"
      using subseq_skip [of "out s @ resp_bytes (respCh s)" "resp_bytes fs" "resp_bytes [f]"] by (simp add: relay_receive(1,2))
    then show ?thesis by (rule order_less [OF relay_receive(4)]) (simp_all add: relay_dispatch_def False relay_receive(2))
  qed
next
  case (relay_skip s f)
  have "subseq (out s @ resp_bytes (respCh s @ up s)) (out s @ resp_bytes (respCh s @ hold (reading s) @ up s))"
    using subseq_skip [of "out s @ resp_bytes (respCh s)" "resp_bytes (up s)" "resp_bytes [f]"] by (simp add: relay_skip(1))
  then show ?case by (rule order_less [OF relay_skip(4)]) (simp_all add: relay_skip_def)
next
  case (relay_deliver s f)
  then show ?case by (simp add: relay_deliver_def order_inv_def)
next
  case (pump_one s b f fs)
  have less: "subseq (out s @ resp_bytes (fs @ hold (reading s) @ up s)) (out s @ resp_bytes (respCh s @ hold (reading s) @ up s))"
    unfolding pump_one(2) using subseq_skip [of "out s" "resp_bytes (fs @ hold (reading s) @ up s)" "resp_bytes [f]"] by simp
  show ?case
  proof (cases "\<exists>c. b \<and> f = RespBody c")
    case True
    then obtain c where c: "b" "f = RespBody c" by blast
    show ?thesis using pump_one(4) by (auto simp: c pump_frame_def relay_WriteFrame_def order_inv_def pump_one(2))
  next
    case False
    show ?thesis
      by (rule order_less [OF pump_one(4) less]) (use False in \<open>cases f; simp add: pump_frame_def relay_WriteFrame_def\<close>)+
  qed
next
  case (browser_gone s c fs)
  have "subseq (out s @ resp_bytes (fs @ hold (reading s) @ up s)) (out s @ resp_bytes (respCh s @ hold (reading s) @ up s))"
    using subseq_skip [of "out s" "resp_bytes (fs @ hold (reading s) @ up s)" c] by (simp add: browser_gone(2))
  then show ?case by (rule order_less [OF browser_gone(5)]) (simp_all add: relay_WriteFrame_def)
next
  case (frames_lost s)
  have "subseq (out s @ resp_bytes (respCh s @ hold (reading s))) (out s @ resp_bytes (respCh s @ hold (reading s) @ up s))"
    using subseq_skip [of "out s @ resp_bytes (respCh s @ hold (reading s))" "[]" "resp_bytes (up s)"] by simp
  then show ?case by (rule order_less [OF frames_lost(3)]) simp_all
next
  case (reader_closes s)
  have "subseq (out s @ resp_bytes (respCh s @ hold (reading s))) (out s @ resp_bytes (respCh s @ hold (reading s) @ up s))"
    using subseq_skip [of "out s @ resp_bytes (respCh s @ hold (reading s))" "[]" "resp_bytes (up s)"] by simp
  then show ?case by (rule order_less [OF reader_closes(5)]) (simp_all add: tunnel_Close_def)
next
  case (check_target s)
  then show ?case by (simp add: serve_check_def serve_exit_inv order_send)
next
  case (unreachable s)
  then show ?case by (simp add: serve_exit_inv order_send)
next
  case (end_response s)
  then show ?case by (simp add: serve_exit_inv order_send)
next
  case (fail_response s)
  then show ?case by (simp add: serve_exit_inv order_send)
next
  case (respond s)
  then show ?case by (simp add: order_send)
next
  case (timeout s b)
  then show ?case by (simp add: pump_timeout_def relay_WriteFrame_def)
next
  case (close_stream s r)
  then show ?case by (simp add: relay_CloseStream_def)
next
  case (drain_stream s c listed)
  show ?case
    by (rule order_less [OF drain_stream(3) subseq_order.refl]) (simp_all add: tunnel_drain_def)
next
  case (runner_receive s f fs)
  then show ?case using runner_Dispatch_keeps [of S f "s\<lparr>down := fs\<rparr>"] by auto
next
  case (send_response s c waited s')
  show ?case using send_response(2)
  proof (cases rule: serve_chunk_cases)
    case (sent w)
    then show ?thesis using send_response(4) by (simp add: order_inv_def flip: append_assoc)
  qed (use send_response(4) in \<open>simp_all add: serve_exit_inv\<close>)
next
  case (send_response_unseen s c waited w)
  have "subseq (sent s) (sent s @ c)" using subseq_skip [of "sent s" "[]" c] by simp
  then show ?case using send_response_unseen(5) subseq_order.trans unfolding order_inv_def by simp
qed (simp add: relay_WriteFrame_def tunnel_Close_def tunnel_swap_def cancelStream_def; fail)+

subsection \<open>The bytes of the request\<close>

definition req_bytes :: "tframe list \<Rightarrow> bytes" where
  "req_bytes fs = concat (map (\<lambda>f. case f of ReqBody b \<Rightarrow> b | _ \<Rightarrow> []) fs)"

lemma req_bytes_simps [simp]:
  "req_bytes [] = []" "req_bytes (f # fs) = (case f of ReqBody b \<Rightarrow> b | _ \<Rightarrow> []) @ req_bytes fs"
  "req_bytes (fs @ gs) = req_bytes fs @ req_bytes gs"
  by (simp_all add: req_bytes_def)

definition pend :: "bytes option \<Rightarrow> bytes" where
  "pend p = (case p of None \<Rightarrow> [] | Some b \<Rightarrow> b)"

definition send_hand :: "sender \<Rightarrow> bytes" where
  "send_hand x = (case x of SndHave c \<Rightarrow> c | _ \<Rightarrow> [])"

lemma pend_simps [simp]: "pend None = []" "pend (Some b) = b" "send_hand SndIdle = []" "send_hand SndReading = []"
  "send_hand (SndHave c) = c" "send_hand SndDone = []"
  by (simp_all add: pend_def send_hand_def)

fun ended :: "tframe list \<Rightarrow> bool" where
  "ended [] \<longleftrightarrow> True"
| "ended (f # fs) \<longleftrightarrow> (f = ReqEnd \<longrightarrow> req_bytes fs = []) \<and> ended fs"

lemma ended_append: "ended (as @ bs) \<longleftrightarrow> ended as \<and> ended bs \<and> (ReqEnd \<in> set as \<longrightarrow> req_bytes bs = [])"
  by (induction as) auto

definition accepting :: "exchange \<Rightarrow> bool" where
  "accepting s \<longleftrightarrow> srv s = SrvIdle \<or> entry s \<and> pipe s = WOpen \<and> \<not> reader_closed s"

definition head_inv :: "exchange \<Rightarrow> bool" where
  "head_inv s \<longleftrightarrow>
     (srv s = SrvIdle \<longrightarrow> taken s = [] \<and> pending s = None \<and> pipe s = NoPipe \<and> \<not> entry s \<and> \<not> requested s) \<and>
     (srv s = SrvIdle \<and> pump s \<noteq> PumpIdle \<longrightarrow> \<not> conn s \<and> down s = [] \<or> (\<exists>fs. down s = ReqStart # fs)) \<and>
     (ReqEnd \<in> set (down s) \<longrightarrow> sending s = SndDone) \<and> ended (down s) \<and> (pipe s = WEof \<longrightarrow> pending s = None)"

lemma head_inv_frame [simp]:
  "head_inv (s\<lparr>up := b\<rparr>) = head_inv s" "head_inv (s\<lparr>ctx_done := a\<rparr>) = head_inv s"
  "head_inv (s\<lparr>unread_body := c\<rparr>) = head_inv s" "head_inv (s\<lparr>sendWin := w\<rparr>) = head_inv s"
  "head_inv (s\<lparr>in_table := a\<rparr>) = head_inv s" "head_inv (s\<lparr>respCh := b\<rparr>) = head_inv s"
  "head_inv (s\<lparr>http_status := n\<rparr>) = head_inv s" "head_inv (s\<lparr>out := o1\<rparr>) = head_inv s"
  "head_inv (s\<lparr>rctx_done := a\<rparr>) = head_inv s" "head_inv (s\<lparr>rwin := w\<rparr>) = head_inv s"
  "head_inv (s\<lparr>reader_closed := a\<rparr>) = head_inv s" "head_inv (s\<lparr>unread_resp := c\<rparr>) = head_inv s"
  "head_inv (s\<lparr>sent := o1\<rparr>) = head_inv s"
  by (simp_all add: head_inv_def)

lemma head_dispatch:
  assumes "down s = f # fs" "pending s = None" "phase_inv s" "head_inv s"
  shows "head_inv (runner_Dispatch S f (s\<lparr>down := fs\<rparr>))"
  using assms
  by (cases f) (auto simp: head_inv_def phase_inv_def runner_Dispatch_def handleReqStart_def pipe_Write_def cancelStream_def)

lemma head_step: "tstep S s s' \<Longrightarrow> phase_inv s \<Longrightarrow> head_inv s \<Longrightarrow> head_inv s'"
  by (induction rule: tstep.induct;
      ((rule head_dispatch; assumption)
      | (erule send_chunk_cases; auto simp: head_inv_def phase_inv_def relay_WriteFrame_def ended_append; fail)
      | auto simp: head_inv_def phase_inv_def step_defs ended_append split: if_splits tframe.splits acquired.splits))

definition request_inv :: "endpoints \<Rightarrow> exchange \<Rightarrow> bool" where
  "request_inv S s \<longleftrightarrow>
     prefix (taken s @ pend (pending s)) (concat (request S)) \<and>
     (accepting s \<longrightarrow>
        prefix (taken s @ pend (pending s) @ req_bytes (down s)) (concat (request S)) \<and>
        (sending s \<noteq> SndDone \<and> conn s \<longrightarrow>
           taken s @ pend (pending s) @ req_bytes (down s) @ send_hand (sending s) @ concat (unread_body s) = concat (request S)) \<and>
        (ReqEnd \<in> set (down s) \<longrightarrow> taken s @ pend (pending s) @ req_bytes (down s) = concat (request S))) \<and>
     (pipe s = WEof \<and> \<not> reader_closed s \<longrightarrow> taken s @ pend (pending s) = concat (request S))"

lemma request_dispatch:
  assumes "down s = f # fs" "pending s = None" "phase_inv s" "head_inv s" "request_inv S s"
  shows "request_inv S (runner_Dispatch S f (s\<lparr>down := fs\<rparr>))"
proof (cases f)
  case ReqStart
  then have "srv s = SrvIdle" using assms(1,3) by (simp add: phase_inv_def)
  then show ?thesis using assms ReqStart
    by (simp add: request_inv_def accepting_def head_inv_def runner_Dispatch_def handleReqStart_def)
next
  case (ReqBody b)
  then have "srv s \<noteq> SrvIdle" using assms(1,3,4) by (auto simp: head_inv_def phase_inv_def)
  then show ?thesis
  proof (cases "accepting s")
    case True
    then have p: "prefix ((taken s @ b) @ req_bytes fs) (concat (request S))"
      using assms(1,2,5) ReqBody by (simp add: request_inv_def)
    show ?thesis
      using True assms ReqBody \<open>srv s \<noteq> SrvIdle\<close> append_prefixD [OF p]
      by (simp add: request_inv_def accepting_def head_inv_def runner_Dispatch_def pipe_Write_def)
  next
    case False
    then show ?thesis using assms ReqBody
      by (simp add: request_inv_def accepting_def head_inv_def runner_Dispatch_def pipe_Write_def) blast
  qed
next
  case ReqEnd
  then have "srv s \<noteq> SrvIdle" using assms(1,3,4) by (auto simp: head_inv_def phase_inv_def)
  then show ?thesis using assms ReqEnd
    by (simp add: request_inv_def accepting_def head_inv_def runner_Dispatch_def)
next
  case StreamCancel
  then have "srv s \<noteq> SrvIdle" using assms(1,3,4) by (auto simp: head_inv_def phase_inv_def)
  then show ?thesis using assms StreamCancel
    by (simp add: request_inv_def accepting_def head_inv_def runner_Dispatch_def cancelStream_def)
qed (use assms in \<open>simp_all add: request_inv_def accepting_def runner_Dispatch_def\<close>)

lemma send_chunk_request:
  assumes "sending s = SndHave c" "send_chunk waited c s = Some s'" "head_inv s" "request_inv S s"
  shows "request_inv S s'"
  using assms(2)
proof (cases rule: send_chunk_cases)
  case cancelled
  then show ?thesis using assms(4) by (simp add: request_inv_def accepting_def relay_WriteFrame_def)
next
  case (sent w)
  have "ReqEnd \<notin> set (down s)" using assms(1,3) by (auto simp: head_inv_def)
  moreover have "taken s @ pend (pending s) @ req_bytes (down s) @ c @ concat (unread_body s) = concat (request S)"
    if "accepting s" using assms(1,4) sent(1) that by (simp add: request_inv_def)
  then have "prefix (taken s @ pend (pending s) @ req_bytes (down s) @ c) (concat (request S))" if "accepting s"
    using that by (intro prefixI [of _ _ "concat (unread_body s)"]) simp
  ultimately show ?thesis using assms(1,4) sent by (simp add: request_inv_def accepting_def)
next
  case (lost w)
  then show ?thesis using assms(4) by (simp add: request_inv_def accepting_def)
qed

lemma request_taken: "request_inv S s \<Longrightarrow> prefix (taken s) (concat (request S))"
  unfolding request_inv_def using append_prefixD by blast

lemma request_closed:
  assumes "phase_inv s" "head_inv s" "request_inv S s"
  shows "requested s \<Longrightarrow> request_inv S (s\<lparr>reader_closed := True, pending := None\<rparr>)"
    "\<not> conn s \<Longrightarrow> request_inv S (cancelStream (s\<lparr>down := []\<rparr>))"
  using assms request_taken [OF assms(3)]
  by (simp_all add: request_inv_def accepting_def head_inv_def)
    (cases "pipe s"; simp add: request_inv_def accepting_def cancelStream_def head_inv_def)+

lemma request_step: "tstep S s s' \<Longrightarrow> phase_inv s \<Longrightarrow> head_inv s \<Longrightarrow> request_inv S s \<Longrightarrow> request_inv S s'"
  by (induction rule: tstep.induct;
      ((rule request_dispatch send_chunk_request request_closed; assumption)
      | (erule serve_chunk_cases; simp add: request_inv_def accepting_def serve_exit_def; fail)
      | auto simp: request_inv_def accepting_def head_inv_def phase_inv_def step_defs split: if_splits tframe.splits acquired.splits))

subsection \<open>Reachable states\<close>

definition exchange_inv :: "endpoints \<Rightarrow> exchange \<Rightarrow> bool" where
  "exchange_inv S s \<longleftrightarrow> phase_inv s \<and> flow_inv S s \<and> no_credit s \<and> upload_inv S s \<and> body_inv S s \<and> exact_inv S s
     \<and> runner_inv S s \<and> reader_inv s \<and> order_inv s \<and> browser_inv S s \<and> head_inv s \<and> request_inv S s"

lemma exchange_init: "exchange_inv S (init_exchange S)"
  by (simp add: exchange_inv_def init_exchange_def phase_inv_def flow_inv_def no_credit_def upload_inv_def body_inv_def
      exact_inv_def whole_def runner_inv_def reader_inv_def order_inv_def arrived_def browser_inv_def head_inv_def request_inv_def used_def newCreditWindow_def accepting_def)

lemma exchange_step: "tstep S s s' \<Longrightarrow> exchange_inv S s \<Longrightarrow> exchange_inv S s'"
  unfolding exchange_inv_def
  by (blast intro: phase_step flow_step no_credit_step upload_step body_step exact_step runner_step reader_step order_step browser_step head_step request_step)

text \<open>A request for which the runner makes no pipe.\<close>

definition bodiless :: "endpoints \<Rightarrow> exchange \<Rightarrow> bool" where
  "bodiless S s \<longleftrightarrow> may_have_body S \<or> pipe s = NoPipe \<and> pending s = None \<and> taken s = []"

lemma bodiless_dispatch: "bodiless S s \<Longrightarrow> bodiless S (runner_Dispatch S f (s\<lparr>down := fs\<rparr>))"
  by (cases f) (auto simp: bodiless_def runner_Dispatch_def handleReqStart_def cancelStream_def)

lemma bodiless_step: "tstep S s s' \<Longrightarrow> bodiless S s \<Longrightarrow> bodiless S s'"
  by (induction rule: tstep.induct;
      ((rule bodiless_dispatch; assumption) | (erule send_chunk_cases serve_chunk_cases; simp add: bodiless_def relay_WriteFrame_def serve_exit_def; fail)
      | auto simp: bodiless_def step_defs split: if_splits tframe.splits))

lemma bodiless_reach: "treach S s \<Longrightarrow> bodiless S s"
  by (induction rule: treach.induct) (auto intro: bodiless_step, simp add: bodiless_def init_exchange_def)

lemma exchange_reach: "treach S s \<Longrightarrow> exchange_inv S s"
  by (induction rule: treach.induct) (auto intro: exchange_init exchange_step)

end
