(* ===== verification/TunnelProps.thy ===== *)
theory TunnelProps
  imports TunnelFlow
begin

text \<open>
  What the invariants of TunnelFlow give for the reachable states of an exchange over the preview tunnel: its flow
  control, the integrity of both bodies, no credit lost, downloads of any length; and two limits of the code.
\<close>

lemma reach_by: "treach S s \<Longrightarrow> tstep S s t \<Longrightarrow> t = s' \<Longrightarrow> treach S s'"
  using treach.step by simp

subsection \<open>Downloads\<close>

text \<open>A frame that the read loop takes and delivers.\<close>

lemma receive_frame:
  assumes "treach S s" "up s = [f]" "reading s = None" "in_table s" "length (respCh s) < respCap"
  shows "treach S (s\<lparr>up := [], respCh := respCh s @ [f]\<rparr>)"
proof -
  have "treach S (s\<lparr>up := [], reading := Some f\<rparr>)"
    by (rule reach_by [OF assms(1) tstep.relay_receive [where f = f]]) (use assms in \<open>simp_all add: relay_dispatch_def\<close>)
  then show ?thesis
    by (rule reach_by [OF _ tstep.relay_deliver [where f = f]]) (use assms in \<open>simp_all add: relay_deliver_def\<close>)
qed

text \<open>Between two chunks, when everything sent has arrived and its credit has come back.\<close>

definition settled :: "endpoints \<Rightarrow> exchange \<Rightarrow> bool" where
  "settled S s \<longleftrightarrow> conn s \<and> tun s = TunOpen \<and> reading s = None \<and> in_table s \<and> entry s \<and> srv s = SrvReading \<and> up s = [] \<and> respCh s = [] \<and> down s = []
     \<and> pump s = PumpWait True \<and> pending s = None \<and> \<not> rctx_done s
     \<and> rwin s = \<lparr>avail = int (runner_window S), win_closed = False\<rparr>"

lemma download_chunk:
  assumes "treach S s" "settled S s" "unread_resp s = c # cs" "length c \<le> runner_window S"
  shows "\<exists>s'. treach S s' \<and> settled S s' \<and> unread_resp s' = cs \<and> out s' = out s @ c \<and> http_status s' = http_status s"
proof (cases "c = []")
  case True
  let ?s1 = "s\<lparr>srv := SrvReading, unread_resp := cs\<rparr>"
  have "treach S ?s1"
    by (rule reach_by [OF assms(1) tstep.read_response [where c = c]]) (use True assms in \<open>simp_all add: settled_def\<close>)
  then show ?thesis using True assms(2) by (intro exI [of _ ?s1]) (simp add: settled_def)
next
  case False
  let ?s1 = "s\<lparr>srv := SrvHave c, unread_resp := cs\<rparr>"
  let ?s2 = "?s1\<lparr>up := [RespBody c], rwin := \<lparr>avail = int (runner_window S) - int (length c), win_closed = False\<rparr>,
    srv := SrvReading, sent := sent s @ c\<rparr>"
  let ?s3 = "?s2\<lparr>up := [], respCh := [RespBody c]\<rparr>"
  let ?s4 = "?s3\<lparr>respCh := [], out := out s @ c, down := [Credit (length c)]\<rparr>"
  let ?s5 = "?s4\<lparr>down := [], rwin := rwin s\<rparr>"
  note simps = settled_def step_defs acquire_def respCap_def win_add_def
  have "treach S ?s1" by (rule reach_by [OF assms(1) tstep.read_response [where c = c]]) (use False assms in \<open>simp_all add: simps\<close>)
  then have "treach S ?s2" by (rule reach_by [OF _ tstep.send_response [where c = c and waited = False]]) (use assms in \<open>simp_all add: simps\<close>)
  then have "treach S ?s3" using receive_frame [of S ?s2 "RespBody c"] assms by (simp add: simps)
  then have "treach S ?s4" by (rule reach_by [OF _ tstep.pump_one [where b = True and f = "RespBody c"]]) (use False assms in \<open>simp_all add: simps\<close>)
  then have "treach S ?s5" by (rule reach_by [OF _ tstep.runner_receive [where f = "Credit (length c)"]]) (use False assms in \<open>simp_all add: simps\<close>)
  then show ?thesis using assms(2) by (intro exI [of _ ?s5] conjI) (assumption, simp_all add: settled_def)
qed

lemma download_chunks:
  assumes "treach S s" "settled S s" "unread_resp s = cs" "\<forall>c\<in>set cs. length c \<le> runner_window S"
  shows "\<exists>s'. treach S s' \<and> settled S s' \<and> unread_resp s' = [] \<and> out s' = out s @ concat cs \<and> http_status s' = http_status s"
  using assms
proof (induction cs arbitrary: s)
  case (Cons c cs)
  then obtain t where "treach S t" "settled S t" "unread_resp t = cs" "out t = out s @ c" "http_status t = http_status s"
    using download_chunk [of S s c cs] by auto
  with Cons.IH [of t] Cons.prems(4) show ?case by auto
qed auto

lemma download_start:
  assumes "target_ok S"
  shows "\<exists>s. treach S s \<and> settled S s \<and> unread_resp s = response S \<and> out s = []
    \<and> http_status s = (if response_status S = 0 then 200 else response_status S)"
proof -
  let ?s0 = "init_exchange S"
  let ?s1 = "?s0\<lparr>in_table := True, down := [ReqStart], sending := SndReading, pump := PumpWait False\<rparr>"
  let ?s2 = "?s1\<lparr>down := [], entry := True, pipe := (if may_have_body S then WOpen else NoPipe), srv := SrvCheck\<rparr>"
  let ?s3 = "?s2\<lparr>srv := SrvDo, requested := True\<rparr>"
  let ?s4 = "?s3\<lparr>up := [RespStart (response_status S)], srv := SrvReading\<rparr>"
  let ?s5 = "?s4\<lparr>up := [], respCh := [RespStart (response_status S)]\<rparr>"
  let ?s6 = "?s5\<lparr>respCh := [], http_status := (if response_status S = 0 then 200 else response_status S), pump := PumpWait True\<rparr>"
  note simps = init_exchange_def newCreditWindow_def step_defs acquire_def respCap_def
  have "treach S ?s1" by (rule reach_by [OF treach.init tstep.start]) (simp_all add: simps)
  then have "treach S ?s2" by (rule reach_by [OF _ tstep.runner_receive [where f = ReqStart]]) (simp_all add: simps)
  then have "treach S ?s3" by (rule reach_by [OF _ tstep.check_target]) (use assms in \<open>simp_all add: simps\<close>)
  then have "treach S ?s4" by (rule reach_by [OF _ tstep.respond]) (simp_all add: simps)
  then have "treach S ?s5" using receive_frame [of S ?s4 "RespStart (response_status S)"] by (simp add: simps)
  then have "treach S ?s6" by (rule reach_by [OF _ tstep.pump_one [where b = False and f = "RespStart (response_status S)"]]) (simp_all add: simps)
  moreover have "settled S ?s6" "unread_resp ?s6 = response S" "out ?s6 = []"
    by (simp_all add: settled_def init_exchange_def newCreditWindow_def)
  ultimately show ?thesis by (intro exI [of _ ?s6] conjI) (assumption, simp_all)
qed

lemma download_all:
  assumes "target_ok S" "\<forall>c\<in>set (response S). length c \<le> runner_window S"
  shows "\<exists>s. treach S s \<and> settled S s \<and> unread_resp s = [] \<and> out s = concat (response S)
    \<and> http_status s = (if response_status S = 0 then 200 else response_status S)"
proof -
  obtain t where "treach S t" "settled S t" "unread_resp t = response S" "out t = []"
      "http_status t = (if response_status S = 0 then 200 else response_status S)"
    using download_start [OF assms(1)] by blast
  with download_chunks [of S t "response S"] assms(2) show ?thesis by auto
qed

subsection \<open>An exchange\<close>

definition example_ends :: endpoints where
  "example_ends = \<lparr>relay_window = 1, runner_window = 2, request = [[1, 2]], response = [[3, 4], [5], []], response_status = 0,
     target_ok = True, may_have_body = True\<rparr>"

definition refused_ends :: endpoints where
  "refused_ends = example_ends\<lparr>relay_window := 4, target_ok := False\<rparr>"

lemma example_run: "\<exists>s. treach example_ends s \<and> whole s \<and> out s = [3, 4, 5]"
proof -
  obtain s where "treach example_ends s" "settled example_ends s" "out s = [3, 4, 5]"
    using download_all [of example_ends] by (auto simp: example_ends_def)
  then show ?thesis by (auto simp: settled_def whole_def)
qed

subsection \<open>Flow control and integrity\<close>

text \<open>C19. The flow control of the tunnel holds in every reachable state: the bytes of a response between the runner
  and the browser, the frame in the hand of the relay's read loop included, with the credit on its way back, never exceed the runner's window, those of a request between the
  relay and the target never exceed the relay's, and neither window is ever overdrawn.\<close>

theorem tunnel_flow_control:
  assumes "treach S s"
  shows "resp_len (respCh s @ hold (reading s) @ up s) + credit_len (down s) \<le> runner_window S
    \<and> req_len (down s) + held (pending s) \<le> relay_window S
    \<and> 0 \<le> avail (rwin s) \<and> 0 \<le> avail (sendWin s)"
proof -
  have "flow_inv S s" "upload_inv S s" using exchange_reach [OF assms] by (simp_all add: exchange_inv_def)
  then show ?thesis by (auto simp: flow_inv_def upload_inv_def used_def)
qed

theorem tunnel_flow_control_witness:
  "\<exists>s. treach example_ends s \<and> out s = [3, 4, 5] \<and> resp_len (respCh s @ hold (reading s) @ up s) + credit_len (down s) \<le> 2"
  using example_run tunnel_flow_control [of example_ends] by (auto simp: example_ends_def)



text \<open>The heartbeat, or a connection that replaces this one, closes the tunnel while two frames of the response wait to be read: the
  read loop drops the first and delivers the second, and the proxy reports success for a response with its body missing.\<close>

definition short_ends :: endpoints where
  "short_ends = example_ends\<lparr>response := [[3, 4]]\<rparr>"

lemma closed_tunnel_drops_middle:
  "\<exists>s. treach short_ends s \<and> pump s = PumpDone PumpOk \<and> http_status s = 200 \<and> out s = [] \<and> concat (response short_ends) = [3, 4]"
proof -
  obtain t where t: "treach short_ends t" "settled short_ends t" "unread_resp t = response short_ends" "out t = []" "http_status t = 200"
    using download_start [of short_ends] by (auto simp: short_ends_def example_ends_def)
  let ?s1 = "t\<lparr>srv := SrvHave [3, 4], unread_resp := []\<rparr>"
  let ?s2 = "?s1\<lparr>up := [RespBody [3, 4]], rwin := \<lparr>avail = 0, win_closed = False\<rparr>, srv := SrvReading, sent := sent t @ [3, 4]\<rparr>"
  let ?s3 = "serve_exit (?s2\<lparr>up := [RespBody [3, 4], RespEnd]\<rparr>)"
  let ?s4 = "?s3\<lparr>tun := TunClosing ByOther\<rparr>"
  let ?s5 = "?s4\<lparr>up := [RespEnd], reading := Some (RespBody [3, 4])\<rparr>"
  let ?s6 = "?s5\<lparr>reading := None\<rparr>"
  let ?s7 = "?s6\<lparr>up := [], respCh := [RespEnd]\<rparr>"
  let ?s8 = "?s7\<lparr>respCh := [], pump := PumpDone PumpOk\<rparr>"
  note simps = t(2-) settled_def step_defs acquire_def respCap_def short_ends_def example_ends_def
  have "treach short_ends ?s1"
    by (rule reach_by [OF t(1) tstep.read_response [where c = "[3, 4]"]]) (use t(2-) in \<open>simp_all add: simps\<close>)
  then have "treach short_ends ?s2"
    by (rule reach_by [OF _ tstep.send_response [where c = "[3, 4]" and waited = False]]) (use t(2-) in \<open>simp_all add: simps\<close>)
  then have "treach short_ends ?s3" by (rule reach_by [OF _ tstep.end_response]) (use t(2-) in \<open>simp_all add: simps\<close>)
  then have "treach short_ends ?s4" by (rule reach_by [OF _ tstep.other_closes]) (use t(2-) in \<open>simp_all add: simps\<close>)
  then have "treach short_ends ?s5"
    by (rule reach_by [OF _ tstep.relay_receive [where f = "RespBody [3, 4]"]]) (use t(2-) in \<open>simp_all add: simps\<close>)
  then have "treach short_ends ?s6" by (rule reach_by [OF _ tstep.relay_skip]) (use t(2-) in \<open>simp_all add: simps\<close>)
  then have "treach short_ends ?s7" using receive_frame [of short_ends ?s6 RespEnd] t(2-) by (simp add: simps)
  then have "treach short_ends ?s8"
    by (rule reach_by [OF _ tstep.pump_one [where b = True and f = RespEnd]]) (use t(2-) in \<open>simp_all add: simps\<close>)
  then show ?thesis using t(4,5) by (intro exI [of _ ?s8]) (simp add: serve_exit_def short_ends_def)
qed

text \<open>C20. No credit is lost while an exchange is whole: what the runner may send, what is under way and the credit on
  its way back add up to the window exactly. So when a chunk waits for credit, a frame that will bring it is under
  way, and a response never stalls for want of credit.\<close>

theorem tunnel_no_credit_lost:
  assumes "treach S s" "whole s"
  shows "avail (rwin s) + int (resp_len (respCh s @ hold (reading s) @ up s)) + int (credit_len (down s)) = int (runner_window S)
    \<and> (srv s = SrvHave c \<and> length c \<le> runner_window S \<and> serve_chunk False c s = None
         \<longrightarrow> 0 < resp_len (respCh s @ hold (reading s) @ up s) + credit_len (down s))"
proof -
  have "exact_inv S s" using exchange_reach [OF assms(1)] by (simp add: exchange_inv_def)
  then show ?thesis using assms(2)
    by (auto simp: exact_inv_def serve_chunk_def acquire_def split: if_splits acquired.splits)
qed

theorem tunnel_no_credit_lost_witness:
  "\<exists>s. treach example_ends s \<and> whole s \<and> avail (rwin s) + int (resp_len (respCh s @ hold (reading s) @ up s)) + int (credit_len (down s)) = 2"
  using example_run tunnel_no_credit_lost [of example_ends] by (auto simp: example_ends_def)

subsection \<open>The limits\<close>

text \<open>The limit of uploads: the runner grants no credit, so of a request body that is longer than the relay's
  window the target gets at most a window, and never the end.\<close>

theorem tunnel_upload_limit:
  assumes "treach S s" "relay_window S < length (concat (request S))"
  shows "length (taken s) \<le> relay_window S \<and> ReqEnd \<notin> set (down s) \<and> pipe s \<noteq> WEof"
proof -
  have "upload_inv S s" "body_inv S s" using exchange_reach [OF assms(1)] by (simp_all add: exchange_inv_def)
  then show ?thesis using assms(2) by (auto simp: upload_inv_def used_def body_inv_def)
qed

theorem tunnel_upload_limit_witness:
  "\<exists>s. treach example_ends s \<and> whole s \<and> length (taken s) \<le> 1 \<and> pipe s \<noteq> WEof"
  using example_run tunnel_upload_limit [of example_ends] by (auto simp: example_ends_def)

text \<open>A target that is refused while a chunk of the body is in the pipe.\<close>

definition stuck :: "bytes \<Rightarrow> exchange \<Rightarrow> bool" where
  "stuck b s \<longleftrightarrow> pending s = Some b \<and> \<not> requested s \<and> \<not> entry s \<and> srv s = SrvExit"

lemma stuck_step: "tstep S s s' \<Longrightarrow> stuck b s \<Longrightarrow> stuck b s'"
  by (induction rule: tstep.induct; auto simp: stuck_def step_defs split: if_splits tframe.splits acquired.splits)

lemma stuck_for_ever: "(tstep S)\<^sup>*\<^sup>* s s' \<Longrightarrow> stuck b s \<Longrightarrow> stuck b s'"
  by (induction rule: rtranclp_induct) (auto intro: stuck_step)

text \<open>The runner's read loop can block for ever: for a request with a body to a target that the guard refuses
  there is a run after which the chunk in the body's pipe is never read or discarded, whatever happens then, so
  that no frame of any stream of this runner is read again, though the connection stands.\<close>

theorem tunnel_read_loop_stuck:
  assumes "\<not> target_ok S" "may_have_body S" "request S = b # bs" "b \<noteq> []" "length b \<le> relay_window S"
  shows "\<exists>s. treach S s \<and> conn s \<and> (\<forall>s'. (tstep S)\<^sup>*\<^sup>* s s' \<longrightarrow> pending s' = Some b)"
proof -
  let ?s0 = "init_exchange S"
  let ?s1 = "?s0\<lparr>in_table := True, down := [ReqStart], sending := SndReading, pump := PumpWait False\<rparr>"
  let ?s2 = "?s1\<lparr>sending := SndHave b, unread_body := bs\<rparr>"
  let ?s3 = "?s2\<lparr>down := [ReqStart, ReqBody b], sending := SndReading,
    sendWin := \<lparr>avail = int (relay_window S) - int (length b), win_closed = False\<rparr>\<rparr>"
  let ?s4 = "?s3\<lparr>down := [ReqBody b], entry := True, pipe := WOpen, srv := SrvCheck\<rparr>"
  let ?s5 = "?s4\<lparr>down := [], pending := Some b\<rparr>"
  let ?s6 = "serve_check S ?s5"
  note simps = init_exchange_def newCreditWindow_def step_defs acquire_def
  have "treach S ?s1" by (rule reach_by [OF treach.init tstep.start]) (simp_all add: simps)
  then have "treach S ?s2" by (rule reach_by [OF _ tstep.read_body [where c = b]]) (use assms in \<open>simp_all add: simps\<close>)
  then have "treach S ?s3" by (rule reach_by [OF _ tstep.send_body [where c = b and waited = False]]) (use assms in \<open>simp_all add: simps\<close>)
  then have "treach S ?s4" by (rule reach_by [OF _ tstep.runner_receive [where f = ReqStart]]) (use assms in \<open>simp_all add: simps\<close>)
  then have "treach S ?s5" by (rule reach_by [OF _ tstep.runner_receive [where f = "ReqBody b"]]) (use assms in \<open>simp_all add: simps\<close>)
  then have "treach S ?s6" by (rule reach_by [OF _ tstep.check_target]) (simp_all add: simps)
  moreover have "stuck b ?s6" "conn ?s6" using assms(1) by (simp_all add: simps stuck_def)
  moreover have "pending t = Some b" if "stuck b t" for t using that by (simp add: stuck_def)
  ultimately show ?thesis using stuck_for_ever by blast
qed

theorem tunnel_read_loop_stuck_witness:
  "\<exists>s. treach refused_ends s \<and> conn s \<and> (\<forall>s'. (tstep refused_ends)\<^sup>*\<^sup>* s s' \<longrightarrow> pending s' = Some [1, 2])"
  by (rule tunnel_read_loop_stuck [where bs = "[]"]) (simp_all add: refused_ends_def example_ends_def)

text \<open>C21. A response of any length can be downloaded in full, however small the runner's window, as long as no
  single read of the target's body exceeds it: the credit that the relay returns is enough.\<close>

theorem tunnel_download_completes:
  assumes "target_ok S" "\<forall>c\<in>set (response S). length c \<le> runner_window S"
  shows "\<exists>s. treach S s \<and> pump s = PumpDone PumpOk \<and> out s = concat (response S)
    \<and> http_status s = (if response_status S = 0 then 200 else response_status S)"
proof -
  obtain s where s: "treach S s" "settled S s" "unread_resp s = []" "out s = concat (response S)"
      "http_status s = (if response_status S = 0 then 200 else response_status S)"
    using download_all [OF assms] by blast
  let ?t1 = "serve_exit (s\<lparr>up := [RespEnd]\<rparr>)"
  let ?t2 = "?t1\<lparr>up := [], respCh := [RespEnd]\<rparr>"
  let ?t3 = "?t2\<lparr>respCh := [], pump := PumpDone PumpOk\<rparr>"
  note simps = settled_def step_defs respCap_def
  have "treach S ?t1" by (rule reach_by [OF s(1) tstep.end_response]) (use s in \<open>simp_all add: simps\<close>)
  then have "treach S ?t2" using receive_frame [of S ?t1 RespEnd] s by (simp add: simps)
  then have "treach S ?t3" by (rule reach_by [OF _ tstep.pump_one [where b = True and f = RespEnd]]) (use s in \<open>simp_all add: simps\<close>)
  then show ?thesis using s(4,5) by (intro exI [of _ ?t3]) (simp add: serve_exit_def)
qed

theorem tunnel_download_completes_witness:
  "\<exists>s. treach example_ends s \<and> pump s = PumpDone PumpOk \<and> out s = [3, 4, 5] \<and> http_status s = 200"
  using tunnel_download_completes [of example_ends] by (simp add: example_ends_def)

end
