(* ===== verification/TunnelLimits.thy ===== *)
theory TunnelLimits
  imports Prelude "HOL-Library.Multiset"
begin

text \<open>
  The limiter of preview requests (relay/internal/tunnel/limits.go). The channel of a pod's slot is the number of
  tokens in it. A call of Acquire is split where it blocks or takes the mutex again; the calls under way and the
  places held are a multiset of pod and phase, so a run interleaves any number of requests of any pods.
\<close>

subsection \<open>The limiter (limits.go)\<close>

record pod_slot =
  tokens :: nat
  queueLen :: nat

record pod_limiter =
  maxConcurrent :: nat
  maxQueue :: nat
  slots :: "(str, pod_slot) gomap"

definition NewPodLimiter :: "int \<Rightarrow> int \<Rightarrow> pod_limiter" where
  "NewPodLimiter max_concurrent max_queue =
     \<lparr>maxConcurrent = (if max_concurrent \<le> 0 then 1 else nat max_concurrent),
      maxQueue = (if max_queue < 0 then 0 else nat max_queue), slots = []\<rparr>"

definition empty_slot :: pod_slot where "empty_slot = \<lparr>tokens = 0, queueLen = 0\<rparr>"

text \<open>The slot of a pod, and the limiter after slotFor has made it.\<close>

definition slot_of :: "str \<Rightarrow> pod_limiter \<Rightarrow> pod_slot" where
  "slot_of podKey l = (case gm_get (slots l) podKey of None \<Rightarrow> empty_slot | Some s \<Rightarrow> s)"

definition set_slot :: "str \<Rightarrow> pod_slot \<Rightarrow> pod_limiter \<Rightarrow> pod_limiter" where
  "set_slot podKey s l = l\<lparr>slots := gm_set podKey s (slots l)\<rparr>"

definition slotFor :: "str \<Rightarrow> pod_limiter \<Rightarrow> pod_limiter" where
  "slotFor podKey l = (case gm_get (slots l) podKey of None \<Rightarrow> set_slot podKey empty_slot l | Some _ \<Rightarrow> l)"

text \<open>The select on the channel, without waiting: the limiter with a token more, or None when the channel is full.\<close>

definition take_slot :: "str \<Rightarrow> pod_limiter \<Rightarrow> pod_limiter option" where
  "take_slot podKey l =
     (let s = slot_of podKey l
      in if tokens s < maxConcurrent l then Some (set_slot podKey (s\<lparr>tokens := tokens s + 1\<rparr>) l) else None)"

text \<open>The decision whether to queue; None is ErrTargetBusy.\<close>

definition enter_queue :: "str \<Rightarrow> pod_limiter \<Rightarrow> pod_limiter option" where
  "enter_queue podKey l =
     (let s = slot_of podKey l
      in if maxQueue l \<le> queueLen s then None else Some (set_slot podKey (s\<lparr>queueLen := queueLen s + 1\<rparr>) l))"

definition leave_queue :: "str \<Rightarrow> pod_limiter \<Rightarrow> pod_limiter" where
  "leave_queue podKey l = (let s = slot_of podKey l in set_slot podKey (s\<lparr>queueLen := queueLen s - 1\<rparr>) l)"

definition release_slot :: "str \<Rightarrow> pod_limiter \<Rightarrow> pod_limiter" where
  "release_slot podKey l = (let s = slot_of podKey l in set_slot podKey (s\<lparr>tokens := tokens s - 1\<rparr>) l)"

subsection \<open>Runs\<close>

text \<open>Where a request stands: before the fast path, after it failed, waiting in the queue, with a place or without one but
  not yet out of the queue, and holding its place until its one release.\<close>

datatype attempt = Starting | SlotFull | Queued | GotSlot | GivenUp | Holding

type_synonym lstate = "pod_limiter \<times> (str \<times> attempt) multiset"

inductive lstep :: "lstate \<Rightarrow> lstate \<Rightarrow> bool" where
  arrive: "lstep (l, M) (slotFor p l, add_mset (p, Starting) M)"
| fast: "take_slot p l = Some l' \<Longrightarrow> lstep (l, add_mset (p, Starting) M) (l', add_mset (p, Holding) M)"
| full: "take_slot p l = None \<Longrightarrow> lstep (l, add_mset (p, Starting) M) (l, add_mset (p, SlotFull) M)"
| busy: "enter_queue p l = None \<Longrightarrow> lstep (l, add_mset (p, SlotFull) M) (l, M)"
| queue: "enter_queue p l = Some l' \<Longrightarrow> lstep (l, add_mset (p, SlotFull) M) (l', add_mset (p, Queued) M)"
| served: "take_slot p l = Some l' \<Longrightarrow> lstep (l, add_mset (p, Queued) M) (l', add_mset (p, GotSlot) M)"
| give_up: "lstep (l, add_mset (p, Queued) M) (l, add_mset (p, GivenUp) M)"
| acquired: "lstep (l, add_mset (p, GotSlot) M) (leave_queue p l, add_mset (p, Holding) M)"
| refused: "lstep (l, add_mset (p, GivenUp) M) (leave_queue p l, M)"
| release: "lstep (l, add_mset (p, Holding) M) (release_slot p l, M)"

inductive lreach :: "int \<Rightarrow> int \<Rightarrow> lstate \<Rightarrow> bool" for mc mq where
  init: "lreach mc mq (NewPodLimiter mc mq, {#})"
| step: "lreach mc mq x \<Longrightarrow> lstep x y \<Longrightarrow> lreach mc mq y"

subsection \<open>The counters are exact\<close>

lemma slot_of_set [simp]: "slot_of p (set_slot q s l) = (if p = q then s else slot_of p l)"
  by (simp add: slot_of_def set_slot_def gomap_simps)

lemma set_slot_sizes [simp]: "maxConcurrent (set_slot p s l) = maxConcurrent l" "maxQueue (set_slot p s l) = maxQueue l"
  by (simp_all add: set_slot_def)

lemma slotFor_same [simp]: "slot_of p (slotFor q l) = slot_of p l" "maxConcurrent (slotFor q l) = maxConcurrent l"
  "maxQueue (slotFor q l) = maxQueue l"
  by (simp_all add: slotFor_def split: option.splits) (simp add: slot_of_def)

definition slot_ok :: "str \<Rightarrow> lstate \<Rightarrow> bool" where
  "slot_ok p x \<longleftrightarrow> (case x of (l, M) \<Rightarrow>
     tokens (slot_of p l) = count M (p, Holding) + count M (p, GotSlot) \<and>
     queueLen (slot_of p l) = count M (p, Queued) + count M (p, GotSlot) + count M (p, GivenUp) \<and>
     tokens (slot_of p l) \<le> maxConcurrent l \<and> queueLen (slot_of p l) \<le> maxQueue l)"

lemmas limiter_ops = take_slot_def enter_queue_def leave_queue_def release_slot_def Let_def

lemma slot_step: "lstep x y \<Longrightarrow> slot_ok p x \<Longrightarrow> slot_ok p y"
  by (induction rule: lstep.induct; auto simp: slot_ok_def limiter_ops split: if_splits)

lemma sizes_step: "lstep x y \<Longrightarrow> maxConcurrent (fst y) = maxConcurrent (fst x) \<and> maxQueue (fst y) = maxQueue (fst x)"
  by (induction rule: lstep.induct; auto simp: limiter_ops split: if_splits)

lemma limiter_reach:
  "lreach mc mq x \<Longrightarrow> slot_ok p x \<and> maxConcurrent (fst x) = (if mc \<le> 0 then 1 else nat mc)
    \<and> maxQueue (fst x) = (if mq < 0 then 0 else nat mq)"
proof (induction rule: lreach.induct)
  case init
  then show ?case by (simp add: slot_ok_def NewPodLimiter_def slot_of_def empty_slot_def gomap_simps)
next
  case (step x y)
  then show ?case using slot_step sizes_step by metis
qed

text \<open>C28. The limiter keeps its promise under any interleaving of requests: never more requests of a pod hold a place
  than configured (one, if less is configured), never more wait than the queue may hold, no place and no waiting
  counter is lost or doubled, and a request is let through at once exactly when a place of its pod is free, so
  one pod's requests never keep out another's.\<close>

theorem limiter_exact:
  assumes "lreach mc mq (l, M)"
  shows "count M (p, Holding) + count M (p, GotSlot) \<le> (if mc \<le> 0 then 1 else nat mc)
    \<and> count M (p, Queued) + count M (p, GotSlot) + count M (p, GivenUp) \<le> (if mq < 0 then 0 else nat mq)
    \<and> tokens (slot_of p l) = count M (p, Holding) + count M (p, GotSlot)
    \<and> queueLen (slot_of p l) = count M (p, Queued) + count M (p, GotSlot) + count M (p, GivenUp)
    \<and> (take_slot p l \<noteq> None \<longleftrightarrow> count M (p, Holding) + count M (p, GotSlot) < (if mc \<le> 0 then 1 else nat mc))"
proof -
  have i: "slot_ok p (l, M)" and m: "maxConcurrent l = (if mc \<le> 0 then 1 else nat mc)"
    "maxQueue l = (if mq < 0 then 0 else nat mq)"
    using limiter_reach [OF assms, of p] by simp_all
  from i have c: "tokens (slot_of p l) = count M (p, Holding) + count M (p, GotSlot)"
    "queueLen (slot_of p l) = count M (p, Queued) + count M (p, GotSlot) + count M (p, GivenUp)"
    "tokens (slot_of p l) \<le> maxConcurrent l" "queueLen (slot_of p l) \<le> maxQueue l"
    by (simp_all add: slot_ok_def)
  have "take_slot p l \<noteq> None \<longleftrightarrow> tokens (slot_of p l) < maxConcurrent l" by (simp add: limiter_ops)
  then have "take_slot p l \<noteq> None \<longleftrightarrow> count M (p, Holding) + count M (p, GotSlot) < (if mc \<le> 0 then 1 else nat mc)"
    unfolding c(1) m(1) .
  moreover note c(3) [unfolded c(1) m(1)] c(4) [unfolded c(2) m(2)] c(1,2)
  ultimately show ?thesis by blast
qed

lemma example_limiter:
  "lreach 1 0 (slotFor ''b'' (set_slot ''a'' \<lparr>tokens = 1, queueLen = 0\<rparr> (slotFor ''a'' (NewPodLimiter 1 0))),
     {#(''b'', Starting), (''a'', Holding)#})"
proof -
  let ?l0 = "NewPodLimiter 1 0"
  have "lreach 1 0 (slotFor ''a'' ?l0, {#(''a'', Starting)#})"
    using lreach.step [OF lreach.init lstep.arrive [of ?l0 "{#}" "''a''"]] .
  moreover have "take_slot ''a'' (slotFor ''a'' ?l0) = Some (set_slot ''a'' \<lparr>tokens = 1, queueLen = 0\<rparr> (slotFor ''a'' ?l0))"
    by (simp add: take_slot_def Let_def) (simp add: NewPodLimiter_def slot_of_def empty_slot_def gomap_simps)
  ultimately have "lreach 1 0 (set_slot ''a'' \<lparr>tokens = 1, queueLen = 0\<rparr> (slotFor ''a'' ?l0), {#(''a'', Holding)#})"
    using lreach.step lstep.fast by blast
  from lreach.step [OF this lstep.arrive [of _ _ "''b''"]] show ?thesis .
qed

theorem limiter_exact_witness:
  "take_slot ''b'' (slotFor ''b'' (set_slot ''a'' \<lparr>tokens = 1, queueLen = 0\<rparr> (slotFor ''a'' (NewPodLimiter 1 0)))) \<noteq> None
   \<and> take_slot ''a'' (slotFor ''b'' (set_slot ''a'' \<lparr>tokens = 1, queueLen = 0\<rparr> (slotFor ''a'' (NewPodLimiter 1 0)))) = None"
  using limiter_exact [OF example_limiter, of "''b''"] limiter_exact [OF example_limiter, of "''a''"] by simp

end
