(* ===== verification/TunnelTable.thy ===== *)
theory TunnelTable
  imports TunnelStream
begin

text \<open>
  The tables of the tunnels on the relay: the streams of one connection (relay/internal/tunnel/tunnel.go,
  stream.go) and the tunnels of the runners (registry.go, with the handler of a runner's connection in
  relay/internal/server/handler_tunnel.go). Pointers are positions in a list of objects, so an object that has left
  its table is still there for those who hold it.
\<close>

subsection \<open>The streams of a tunnel (tunnel.go)\<close>

datatype mframe = TypePing | TypePong | TypeHello | StreamFrame tframe

record stream_obj =
  stm_ID :: "32 word"
  sendWindow :: credit_window
  recvWindow :: credit_window
  inbox :: "(32 word \<times> mframe) list"

record stream_table =
  window :: int
  streams :: "(32 word, nat) gomap"
  nextID :: "32 word"
  tun_closed :: bool
  lastPong :: int
  stream_objs :: "stream_obj list"
  written :: "(32 word \<times> mframe) list"

definition defaultStreamWindow :: int where "defaultStreamWindow = 2 ^ 20"

definition pongTimeout :: int where "pongTimeout = 30 * 10 ^ 9"

definition newTunnel :: "int \<Rightarrow> int \<Rightarrow> stream_table" where
  "newTunnel now w = \<lparr>window = (if w \<le> 0 then defaultStreamWindow else w), streams = [], nextID = 0, tun_closed = False,
     lastPong = now, stream_objs = [], written = []\<rparr>"

definition newStream :: "32 word \<Rightarrow> int \<Rightarrow> stream_obj" where
  "newStream sid w = \<lparr>stm_ID = sid, sendWindow = newCreditWindow w, recvWindow = newCreditWindow w, inbox = []\<rparr>"

definition OpenStream :: "stream_table \<Rightarrow> stream_table \<times> nat" where
  "OpenStream t =
     (let sid = nextID t + 1; st = length (stream_objs t)
      in (t\<lparr>nextID := sid, stream_objs := stream_objs t @ [newStream sid (window t)], streams := gm_set sid st (streams t)\<rparr>, st))"

definition getStream :: "32 word \<Rightarrow> stream_table \<Rightarrow> nat option" where
  "getStream sid t = gm_get (streams t) sid"

definition closeStream :: "stream_obj \<Rightarrow> stream_obj" where
  "closeStream st = st\<lparr>sendWindow := win_close (sendWindow st), recvWindow := win_close (recvWindow st)\<rparr>"

definition update_stream :: "nat \<Rightarrow> (stream_obj \<Rightarrow> stream_obj) \<Rightarrow> stream_table \<Rightarrow> stream_table" where
  "update_stream i f t = (if i < length (stream_objs t) then t\<lparr>stream_objs := (stream_objs t)[i := f (stream_objs t ! i)]\<rparr> else t)"

definition CloseStream :: "32 word \<Rightarrow> stream_table \<Rightarrow> stream_table" where
  "CloseStream sid t =
     (let t' = t\<lparr>streams := gm_del sid (streams t)\<rparr>
      in case getStream sid t of None \<Rightarrow> t' | Some i \<Rightarrow> update_stream i closeStream t')"

definition deliver :: "32 word \<times> mframe \<Rightarrow> stream_obj \<Rightarrow> stream_obj" where
  "deliver f st = st\<lparr>inbox := inbox st @ [f]\<rparr>"

text \<open>dispatch; None when it blocks on a full channel of an open tunnel.\<close>

definition dispatch :: "int \<Rightarrow> 32 word \<times> mframe \<Rightarrow> stream_table \<Rightarrow> stream_table option" where
  "dispatch now f t =
     (if fst f = 0 then
        Some (case snd f of TypePing \<Rightarrow> t\<lparr>written := written t @ [(0, TypePong)]\<rparr>
              | TypePong \<Rightarrow> t\<lparr>lastPong := now\<rparr> | _ \<Rightarrow> t)
      else (case getStream (fst f) t of
              None \<Rightarrow> Some t
            | Some i \<Rightarrow> if length (inbox (stream_objs t ! i)) < respCap then Some (update_stream i (deliver f) t)
                        else if tun_closed t then Some t else None))"

text \<open>The drain of one stream in CloseTunnel, and CloseTunnel, which runs once.\<close>

definition drain :: "stream_obj \<Rightarrow> stream_obj" where
  "drain st =
     closeStream (if length (inbox st) < respCap then deliver (stm_ID st, StreamFrame (RespError ''target_offline'')) st else st)"

definition CloseTunnel :: "stream_table \<Rightarrow> stream_table" where
  "CloseTunnel t =
     (if tun_closed t then t
      else fold (\<lambda>(_, i). update_stream i drain) (streams t) (t\<lparr>tun_closed := True, streams := []\<rparr>))"

text \<open>One tick of the heartbeat; the write of the ping fails or not.\<close>

definition ping_tick :: "bool \<Rightarrow> int \<Rightarrow> stream_table \<Rightarrow> stream_table" where
  "ping_tick write_ok now t =
     (if tun_closed t then t
      else if now - lastPong t > pongTimeout then CloseTunnel t
      else if write_ok then t\<lparr>written := written t @ [(0, TypePing)]\<rparr> else CloseTunnel t)"

definition StreamCount :: "stream_table \<Rightarrow> nat" where
  "StreamCount t = length (streams t)"

text \<open>The proxy takes the next frame of a stream.\<close>

definition take_frame :: "stream_obj \<Rightarrow> stream_obj" where
  "take_frame st = st\<lparr>inbox := drop 1 (inbox st)\<rparr>"

inductive mstep :: "stream_table \<Rightarrow> stream_table \<Rightarrow> bool" where
  open_stream: "mstep t (fst (OpenStream t))"
| close_stream: "mstep t (CloseStream sid t)"
| receive: "dispatch now f t = Some t' \<Longrightarrow> mstep t t'"
| take: "mstep t (update_stream i take_frame t)"
| tick: "mstep t (ping_tick ok now t)"
| close: "mstep t (CloseTunnel t)"

inductive mreach :: "stream_table \<Rightarrow> bool" where
  init: "mreach (newTunnel now w)"
| step: "mreach t \<Longrightarrow> mstep t t' \<Longrightarrow> mreach t'"

subsection \<open>Streams do not mix\<close>

definition good_stream :: "stream_obj \<Rightarrow> bool" where
  "good_stream st \<longleftrightarrow> (\<forall>f\<in>set (inbox st). fst f = stm_ID st) \<and> length (inbox st) \<le> respCap"

definition table_inv :: "stream_table \<Rightarrow> bool" where
  "table_inv t \<longleftrightarrow> nextID t = of_nat (length (stream_objs t)) \<and> list_all good_stream (stream_objs t) \<and>
     map stm_ID (stream_objs t) = map (\<lambda>i. of_nat (Suc i)) [0..<length (stream_objs t)] \<and>
     (\<forall>sid i. gm_get (streams t) sid = Some i \<longrightarrow> i < length (stream_objs t) \<and> stm_ID (stream_objs t ! i) = sid)"

lemma good_simps [simp]:
  "good_stream (closeStream st) = good_stream st" "stm_ID (closeStream st) = stm_ID st"
  "stm_ID (deliver f st) = stm_ID st" "stm_ID (drain st) = stm_ID st" "stm_ID (take_frame st) = stm_ID st"
  "inbox (deliver f st) = inbox st @ [f]" "good_stream (newStream sid w)" "stm_ID (newStream sid w) = sid"
  by (simp_all add: good_stream_def closeStream_def deliver_def drain_def take_frame_def newStream_def)

lemma good_deliver: "good_stream st \<Longrightarrow> fst f = stm_ID st \<Longrightarrow> length (inbox st) < respCap \<Longrightarrow> good_stream (deliver f st)"
  by (auto simp: good_stream_def)

lemma good_drain: "good_stream st \<Longrightarrow> good_stream (drain st)"
  by (simp add: drain_def good_deliver)

lemma good_take: "good_stream st \<Longrightarrow> good_stream (take_frame st)"
  by (auto simp: good_stream_def take_frame_def dest: in_set_dropD)

lemma update_stream_same [simp]:
  "streams (update_stream i f t) = streams t" "nextID (update_stream i f t) = nextID t"
  "length (stream_objs (update_stream i f t)) = length (stream_objs t)" "tun_closed (update_stream i f t) = tun_closed t"
  by (simp_all add: update_stream_def)

lemma table_update:
  assumes "table_inv t" "i < length (stream_objs t) \<Longrightarrow> good_stream (f (stream_objs t ! i))" "\<And>st. stm_ID (f st) = stm_ID st"
  shows "table_inv (update_stream i f t)"
proof (cases "i < length (stream_objs t)")
  case True
  have "map stm_ID ((stream_objs t)[i := f (stream_objs t ! i)]) = map stm_ID (stream_objs t)"
    using True assms(3) by (simp add: map_update list_update_same_conv)
  moreover have "stm_ID ((stream_objs t)[i := f (stream_objs t ! i)] ! j) = stm_ID (stream_objs t ! j)" if "j < length (stream_objs t)" for j
    using True assms(3) that by (simp add: nth_list_update)
  ultimately show ?thesis using assms(1,2) True
    by (auto simp: table_inv_def update_stream_def list_all_iff dest!: set_update_subset_insert [THEN subsetD])
next
  case False
  then show ?thesis using assms(1) by (simp add: update_stream_def)
qed

lemma table_fold: "table_inv t \<Longrightarrow> table_inv (fold (\<lambda>(_, i). update_stream i drain) xs t)"
proof (induction xs arbitrary: t)
  case (Cons x xs)
  have "table_inv (update_stream (snd x) drain t)"
    using Cons.prems by (intro table_update) (auto simp: table_inv_def list_all_length intro: good_drain)
  then show ?case using Cons.IH by (simp add: case_prod_beta)
qed simp

lemma table_Close: "table_inv t \<Longrightarrow> table_inv (CloseTunnel t)"
  using table_fold [of "t\<lparr>tun_closed := True, streams := []\<rparr>" "streams t"]
  by (simp add: CloseTunnel_def) (simp add: table_inv_def gomap_simps)

lemma table_step: "mstep t t' \<Longrightarrow> table_inv t \<Longrightarrow> table_inv t'"
proof (induction rule: mstep.induct)
  case (open_stream t)
  then show ?case
    by (auto simp: table_inv_def OpenStream_def Let_def gomap_simps nth_append less_Suc_eq split: if_splits)
next
  case (close_stream t sid)
  let ?t = "t\<lparr>streams := gm_del sid (streams t)\<rparr>"
  have t: "table_inv ?t" using close_stream by (auto simp: table_inv_def gomap_simps split: if_splits)
  moreover have "table_inv (update_stream i closeStream ?t)" for i
    using t by (intro table_update) (auto simp: table_inv_def list_all_length)
  ultimately show ?case by (simp add: CloseStream_def Let_def split: option.splits)
next
  case (receive now f t t')
  show ?case
  proof (cases "fst f = 0 \<or> getStream (fst f) t = None")
    case True
    then show ?thesis using receive by (auto simp: dispatch_def table_inv_def split: mframe.splits if_splits option.splits)
  next
    case False
    then obtain i where i: "gm_get (streams t) (fst f) = Some i" by (auto simp: getStream_def)
    then have "i < length (stream_objs t)" "stm_ID (stream_objs t ! i) = fst f" "good_stream (stream_objs t ! i)"
      using receive(2) by (auto simp: table_inv_def list_all_length)
    then have "table_inv (update_stream i (deliver f) t)" if "length (inbox (stream_objs t ! i)) < respCap"
      using receive(2) that by (intro table_update) (auto intro: good_deliver)
    then show ?thesis using receive i False by (auto simp: dispatch_def getStream_def split: if_splits)
  qed
next
  case (take t i)
  then show ?case by (intro table_update) (auto simp: table_inv_def list_all_length intro: good_take)
next
  case (tick t ok now)
  then show ?case using table_Close [of t] by (auto simp: ping_tick_def table_inv_def)
next
  case (close t)
  then show ?case by (rule table_Close)
qed

lemma table_reach: "mreach t \<Longrightarrow> table_inv t"
proof (induction rule: mreach.induct)
  case (init now w)
  then show ?case by (simp add: newTunnel_def table_inv_def gomap_simps)
next
  case (step t t')
  then show ?case using table_step by blast
qed

text \<open>C30. The streams of a tunnel do not mix: whatever the runner sends, a stream receives only frames with its own
  number and at most as many as its channel holds, and a number leads to the stream that has it. While fewer than
  2^32 - 1 streams have been opened, the numbers are distinct and not the reserved zero, and a new stream is
  found under its number at once, with all others as they were.\<close>

theorem stream_table_isolation:
  assumes "mreach t" "length (stream_objs t) < 2 ^ 32 - 1" "OpenStream t = (t', i)"
  shows "(\<forall>st\<in>set (stream_objs t). length (inbox st) \<le> 64 \<and> (\<forall>f\<in>set (inbox st). fst f = stm_ID st))
    \<and> (\<forall>sid j. getStream sid t = Some j \<longrightarrow> stm_ID (stream_objs t ! j) = sid)
    \<and> distinct (map stm_ID (stream_objs t')) \<and> 0 \<notin> stm_ID ` set (stream_objs t')
    \<and> getStream (stm_ID (stream_objs t' ! i)) t' = Some i
    \<and> (\<forall>sid. sid \<noteq> stm_ID (stream_objs t' ! i) \<longrightarrow> getStream sid t' = getStream sid t)"
proof -
  have inv: "table_inv t" by (rule table_reach [OF assms(1)])
  have t': "t' = fst (OpenStream t)" and i: "i = length (stream_objs t)" using assms(3) by (auto simp: OpenStream_def Let_def)
  have inv': "table_inv t'" unfolding t' by (rule table_step [OF mstep.open_stream inv])
  have len: "length (stream_objs t') = Suc (length (stream_objs t))" unfolding t' by (simp add: OpenStream_def Let_def)
  have ids: "map stm_ID (stream_objs t') = map (\<lambda>j. of_nat (Suc j)) [0..<length (stream_objs t')]"
    using inv' by (simp add: table_inv_def)
  have u: "unat (of_nat (Suc j) :: 32 word) = Suc j" if "j < length (stream_objs t')" for j
    using that assms(2) len by (simp add: unat_of_nat del: of_nat_Suc)
  have "inj_on (\<lambda>j. of_nat (Suc j) :: 32 word) {0..<length (stream_objs t')}"
    using u by (intro inj_on_inverseI [where g = "\<lambda>w. unat w - 1"]) (simp del: of_nat_Suc)
  then have "distinct (map stm_ID (stream_objs t'))" unfolding ids by (simp add: distinct_map)
  moreover have "0 \<notin> stm_ID ` set (stream_objs t')"
  proof
    assume "0 \<in> stm_ID ` set (stream_objs t')"
    then obtain j where "j < length (stream_objs t')" "(of_nat (Suc j) :: 32 word) = 0"
      using arg_cong [OF ids, of set] by (auto simp del: of_nat_Suc)
    then show False using u [of j] by (simp del: of_nat_Suc)
  qed
  moreover have "getStream (stm_ID (stream_objs t' ! i)) t' = Some i"
    "\<forall>sid. sid \<noteq> stm_ID (stream_objs t' ! i) \<longrightarrow> getStream sid t' = getStream sid t"
    unfolding t' i by (simp_all add: OpenStream_def Let_def getStream_def gomap_simps nth_append)
  ultimately show ?thesis using inv
    by (auto simp: table_inv_def getStream_def list_all_iff good_stream_def respCap_def)
qed

theorem stream_table_isolation_witness:
  "getStream 1 (fst (OpenStream (newTunnel 0 0))) = Some 0
    \<and> distinct (map stm_ID (stream_objs (fst (OpenStream (newTunnel 0 0)))))"
  using stream_table_isolation [OF mreach.init [of 0 0], of "fst (OpenStream (newTunnel 0 0))" 0]
  by (simp add: OpenStream_def newTunnel_def Let_def newStream_def)

text \<open>After 2^32 - 1 streams the next number is the reserved zero: nothing the runner answers reaches that stream.\<close>

lemma OpenStream_reserved:
  assumes "nextID t = - 1" "OpenStream t = (t', i)" "dispatch now (0, f) t' = Some t''"
  shows "stm_ID (stream_objs t' ! i) = 0 \<and> stream_objs t'' = stream_objs t'"
  using assms by (auto simp: OpenStream_def Let_def dispatch_def nth_append newStream_def split: mframe.splits)

end
