(* ===== verification/TunnelRegistry.thy ===== *)
theory TunnelRegistry
  imports Prelude
begin

text \<open>
  The tunnels of the runners on the relay (relay/internal/tunnel/registry.go) and the life of a runner's connection in
  its handler (relay/internal/server/handler_tunnel.go, from the accepted HELLO on). A tunnel is a position in the
  list of all tunnels made; it has a phase, where its handler stands. The registry's waiters are left out: nothing in the
  program adds one, waiting is the polling of WaitForTunnel.
\<close>

subsection \<open>The registry (registry.go)\<close>

record tunnel =
  RunnerID :: int
  shut :: bool

record registry =
  all_tunnels :: "tunnel list"
  registered :: "(int, nat) gomap"

definition NewRegistry :: registry where
  "NewRegistry = \<lparr>all_tunnels = [], registered = []\<rparr>"

definition reg_Get :: "int \<Rightarrow> registry \<Rightarrow> nat option" where
  "reg_Get runnerID r = gm_get (registered r) runnerID"

definition shut_tunnel :: "nat \<Rightarrow> registry \<Rightarrow> registry" where
  "shut_tunnel i r =
     (if i < length (all_tunnels r) then r\<lparr>all_tunnels := (all_tunnels r)[i := (all_tunnels r ! i)\<lparr>shut := True\<rparr>]\<rparr> else r)"

text \<open>Register under the lock; the old tunnel, which the caller closes after it has unlocked, comes back.\<close>

definition Register :: "nat \<Rightarrow> registry \<Rightarrow> registry \<times> nat option" where
  "Register t r =
     (let runner = RunnerID (all_tunnels r ! t); old = reg_Get runner r
      in (r\<lparr>registered := gm_set runner t (registered r)\<rparr>, if old = Some t then None else old))"

definition Unregister :: "nat \<Rightarrow> registry \<Rightarrow> registry" where
  "Unregister t r =
     (let runner = RunnerID (all_tunnels r ! t)
      in if reg_Get runner r = Some t then r\<lparr>registered := gm_del runner (registered r)\<rparr> else r)"

definition ActiveTunnels :: "registry \<Rightarrow> nat" where
  "ActiveTunnels r = length (registered r)"

text \<open>WaitForTunnel sees the registry again at every tick; \<open>None\<close> is a call that still waits.\<close>

datatype wait_event = CtxDone | Deadline registry | Tick registry

fun poll :: "int \<Rightarrow> wait_event list \<Rightarrow> nat option option" where
  "poll runnerID [] = None"
| "poll runnerID (CtxDone # _) = Some None"
| "poll runnerID (Deadline r # _) = Some (reg_Get runnerID r)"
| "poll runnerID (Tick r # es) = (case reg_Get runnerID r of Some t \<Rightarrow> Some (Some t) | None \<Rightarrow> poll runnerID es)"

definition WaitForTunnel :: "int \<Rightarrow> registry \<Rightarrow> int \<Rightarrow> wait_event list \<Rightarrow> nat option option" where
  "WaitForTunnel runnerID r grace es =
     (case reg_Get runnerID r of
        Some t \<Rightarrow> Some (Some t)
      | None \<Rightarrow> if grace \<le> 0 then Some None else poll runnerID es)"

subsection \<open>The handlers of the runners' connections (handler_tunnel.go)\<close>

text \<open>Registered and about to close the old tunnel; about to write HELLO_ACK; in Start; after the failed write,
  before and after Unregister; after Start, which has closed the tunnel; and done.\<close>

datatype hphase = Replacing nat | Acking | Serving | AckFailed | Unregistered | Leaving | Done

type_synonym hub = "registry \<times> hphase list"

definition new_tunnel :: "int \<Rightarrow> registry \<Rightarrow> registry" where
  "new_tunnel runner r = r\<lparr>all_tunnels := all_tunnels r @ [\<lparr>RunnerID = runner, shut = False\<rparr>]\<rparr>"

definition accept_tunnel :: "int \<Rightarrow> hub \<Rightarrow> hub" where
  "accept_tunnel runner x =
     (case x of (r, ph) \<Rightarrow>
        (case Register (length (all_tunnels r)) (new_tunnel runner r) of
           (r', old) \<Rightarrow> (r', ph @ [case old of Some t \<Rightarrow> Replacing t | None \<Rightarrow> Acking])))"

inductive hstep :: "hub \<Rightarrow> hub \<Rightarrow> bool" where
  accept: "hstep (r, ph) (accept_tunnel runner (r, ph))"
| close_old: "j < length ph \<Longrightarrow> ph ! j = Replacing t \<Longrightarrow> hstep (r, ph) (shut_tunnel t r, ph[j := Acking])"
| ack: "j < length ph \<Longrightarrow> ph ! j = Acking \<Longrightarrow> hstep (r, ph) (r, ph[j := Serving])"
| ack_fails: "j < length ph \<Longrightarrow> ph ! j = Acking \<Longrightarrow> hstep (r, ph) (r, ph[j := AckFailed])"
| unregister_failed: "j < length ph \<Longrightarrow> ph ! j = AckFailed \<Longrightarrow> hstep (r, ph) (Unregister j r, ph[j := Unregistered])"
| close_failed: "j < length ph \<Longrightarrow> ph ! j = Unregistered \<Longrightarrow> hstep (r, ph) (shut_tunnel j r, ph[j := Done])"
| heartbeat: "j < length ph \<Longrightarrow> ph ! j = Serving \<Longrightarrow> hstep (r, ph) (shut_tunnel j r, ph)"
| read_ends: "j < length ph \<Longrightarrow> ph ! j = Serving \<Longrightarrow> hstep (r, ph) (shut_tunnel j r, ph[j := Leaving])"
| unregister: "j < length ph \<Longrightarrow> ph ! j = Leaving \<Longrightarrow> hstep (r, ph) (Unregister j r, ph[j := Done])"

inductive hreach :: "hub \<Rightarrow> bool" where
  init: "hreach (NewRegistry, [])"
| step: "hreach x \<Longrightarrow> hstep x y \<Longrightarrow> hreach y"

subsection \<open>Who is registered\<close>

definition live :: "hphase \<Rightarrow> bool" where
  "live p \<longleftrightarrow> (case p of Unregistered \<Rightarrow> False | Done \<Rightarrow> False | _ \<Rightarrow> True)"

definition tunnel_ok :: "nat \<Rightarrow> hub \<Rightarrow> bool" where
  "tunnel_ok i x \<longleftrightarrow> (case x of (r, ph) \<Rightarrow> length ph = length (all_tunnels r) \<and>
     (\<forall>n. gm_get (registered r) n = Some i \<longrightarrow> i < length ph \<and> RunnerID (all_tunnels r ! i) = n \<and> live (ph ! i)) \<and>
     (i < length ph \<and> live (ph ! i) \<and> \<not> shut (all_tunnels r ! i) \<longrightarrow>
        gm_get (registered r) (RunnerID (all_tunnels r ! i)) = Some i \<or> Replacing i \<in> set ph) \<and>
     (i < length ph \<and> ph ! i = Leaving \<longrightarrow> shut (all_tunnels r ! i)))"

lemma shut_tunnel_simps [simp]:
  "registered (shut_tunnel t r) = registered r" "length (all_tunnels (shut_tunnel t r)) = length (all_tunnels r)"
  "i < length (all_tunnels r) \<Longrightarrow> RunnerID (all_tunnels (shut_tunnel t r) ! i) = RunnerID (all_tunnels r ! i)"
  "i < length (all_tunnels r) \<Longrightarrow> shut (all_tunnels (shut_tunnel t r) ! i) = (shut (all_tunnels r ! i) \<or> i = t)"
  by (auto simp: shut_tunnel_def nth_list_update)

lemma Unregister_simps [simp]:
  "all_tunnels (Unregister t r) = all_tunnels r"
  "gm_get (registered (Unregister t r)) n =
     (if n = RunnerID (all_tunnels r ! t) \<and> gm_get (registered r) n = Some t then None else gm_get (registered r) n)"
  by (auto simp: Unregister_def reg_Get_def Let_def gomap_simps)

lemma Unregister_Some:
  "gm_get (registered (Unregister j r)) n = Some i \<longleftrightarrow>
     gm_get (registered r) n = Some i \<and> (i = j \<longrightarrow> n \<noteq> RunnerID (all_tunnels r ! j))"
  by auto

lemma accept_eq:
  "accept_tunnel runner (r, ph) =
     (r\<lparr>all_tunnels := all_tunnels r @ [\<lparr>RunnerID = runner, shut = False\<rparr>],
        registered := gm_set runner (length (all_tunnels r)) (registered r)\<rparr>,
      ph @ [case reg_Get runner r of
              Some t \<Rightarrow> if t = length (all_tunnels r) then Acking else Replacing t | None \<Rightarrow> Acking])"
  by (auto simp: accept_tunnel_def Register_def new_tunnel_def reg_Get_def Let_def split: option.splits)

lemma stays_in: "p \<in> set ph \<Longrightarrow> ph ! i \<noteq> p \<Longrightarrow> p \<in> set (ph[i := q])"
  by (metis in_set_conv_nth length_list_update nth_list_update_neq)

lemma live_simps [simp]: "live (Replacing t)" "live Acking" "live Serving" "live AckFailed" "live Leaving"
  "\<not> live Unregistered" "\<not> live Done"
  by (simp_all add: live_def)

lemma tunnel_step: "hstep x y \<Longrightarrow> tunnel_ok i x \<Longrightarrow> tunnel_ok i y"
proof (induction rule: hstep.induct)
  case (accept r ph runner)
  then have len: "length ph = length (all_tunnels r)"
    and old: "gm_get (registered r) n = Some i \<Longrightarrow> i < length ph \<and> RunnerID (all_tunnels r ! i) = n \<and> live (ph ! i)" for n
    by (auto simp: tunnel_ok_def)
  show ?case
  proof (cases "i < length ph")
    case True
    have reg: "gm_get (registered (fst (accept_tunnel runner (r, ph)))) n
        = (if n = runner then Some (length ph) else gm_get (registered r) n)" for n
      by (simp add: accept_eq gomap_simps len)
    have tun: "all_tunnels (fst (accept_tunnel runner (r, ph))) ! i = all_tunnels r ! i"
      "snd (accept_tunnel runner (r, ph)) ! i = ph ! i"
      using True len by (simp_all add: accept_eq nth_append)
    have rep: "Replacing i \<in> set (snd (accept_tunnel runner (r, ph)))"
      if "gm_get (registered r) runner = Some i \<or> Replacing i \<in> set ph"
      using that True len by (auto simp: accept_eq reg_Get_def)
    have "length (snd (accept_tunnel runner (r, ph))) = length (all_tunnels (fst (accept_tunnel runner (r, ph))))"
      "length (snd (accept_tunnel runner (r, ph))) = Suc (length ph)"
      using len by (simp_all add: accept_eq)
    then show ?thesis using accept True reg tun rep unfolding tunnel_ok_def
      by (cases "accept_tunnel runner (r, ph)") (simp split: if_splits, blast)
  next
    case False
    then have "gm_get (registered r) n \<noteq> Some i" for n using old by blast
    then show ?thesis using False len by (auto simp: tunnel_ok_def accept_eq gomap_simps nth_append split: option.splits)
  qed
next
  case (close_old j ph t r)
  then show ?case by (cases "i = j") (auto simp: tunnel_ok_def stays_in)
next
  case (ack j ph r)
  then show ?case by (cases "i = j") (auto simp: tunnel_ok_def stays_in)
next
  case (ack_fails j ph r)
  then show ?case by (cases "i = j") (auto simp: tunnel_ok_def stays_in)
next
  case (unregister_failed j ph r)
  then show ?case
    by (cases "i = j") (auto simp: tunnel_ok_def Unregister_Some stays_in simp del: Unregister_simps(2))
next
  case (close_failed j ph r)
  then show ?case by (cases "i = j") (auto simp: tunnel_ok_def stays_in)
next
  case (heartbeat j ph r)
  then show ?case by (cases "i = j") (auto simp: tunnel_ok_def stays_in)
next
  case (read_ends j ph r)
  then show ?case by (cases "i = j") (auto simp: tunnel_ok_def stays_in)
next
  case (unregister j ph r)
  then show ?case
    by (cases "i = j") (auto simp: tunnel_ok_def Unregister_Some stays_in simp del: Unregister_simps(2))
qed

lemma tunnel_reach: "hreach x \<Longrightarrow> tunnel_ok i x"
proof (induction rule: hreach.induct)
  case init
  then show ?case by (simp add: tunnel_ok_def NewRegistry_def gomap_simps)
next
  case (step x y)
  then show ?case using tunnel_step by blast
qed

text \<open>C29. A runner has one tunnel: in every interleaving of connections, replacements, heartbeats and endings, a
  registered tunnel is one of that runner whose handler has not finished, and every open tunnel of a running
  handler is the registered one of its runner or is about to be closed by the one that replaced it. The
  end of a replaced tunnel never takes its successor out.\<close>

theorem registry_one_tunnel:
  assumes "hreach (r, ph)"
  shows "(reg_Get n r = Some i \<longrightarrow> i < length ph \<and> RunnerID (all_tunnels r ! i) = n \<and> live (ph ! i))
    \<and> (i < length ph \<and> live (ph ! i) \<and> \<not> shut (all_tunnels r ! i)
         \<longrightarrow> reg_Get (RunnerID (all_tunnels r ! i)) r = Some i \<or> Replacing i \<in> set ph)
    \<and> (reg_Get n r \<noteq> Some i \<longrightarrow> reg_Get n (Unregister i r) = reg_Get n r)"
proof -
  have "tunnel_ok i (r, ph)" by (rule tunnel_reach [OF assms])
  then show ?thesis by (auto simp: tunnel_ok_def reg_Get_def)
qed

definition reconnected :: hub where
  "reconnected = accept_tunnel 7 (accept_tunnel 7 (NewRegistry, []))"

lemma reconnected_eq:
  "reconnected = (\<lparr>all_tunnels = [\<lparr>RunnerID = 7, shut = False\<rparr>, \<lparr>RunnerID = 7, shut = False\<rparr>], registered = [(7, 1)]\<rparr>,
     [Acking, Replacing 0])"
  by (simp add: reconnected_def accept_eq NewRegistry_def reg_Get_def gm_get_def)

lemma reconnected_reach: "hreach reconnected"
  unfolding reconnected_def
  by (rule hreach.step [OF _ hstep.accept [where r = "fst (accept_tunnel 7 (NewRegistry, []))" and ph = "snd (accept_tunnel 7 (NewRegistry, []))", simplified]])
    (rule hreach.step [OF hreach.init hstep.accept])

theorem registry_one_tunnel_witness:
  "reg_Get 7 (fst reconnected) = Some 1 \<and> reg_Get 7 (Unregister 0 (fst reconnected)) = Some 1
    \<and> Replacing 0 \<in> set (snd reconnected)"
  using registry_one_tunnel [OF reconnected_reach [unfolded reconnected_eq], of 7 0]
    registry_one_tunnel [OF reconnected_reach [unfolded reconnected_eq], of 7 1]
  by (simp add: reconnected_eq reg_Get_def gm_get_def)

end
