(* ===== verification/Autopilot.thy ===== *)
theory Autopilot
  imports Prelude
begin

text \<open>
  The autopilot of the runner (runner/internal/autopilot): the controller that prompts a control agent whenever the
  controlled pod waits for input. The controller is concurrent: state events of the pod, commands of the
  user and the decision cycles run in goroutines of their own, and each takes a lock only for one field at a time. An \<open>instr\<close> is what a
  goroutine does in one such critical section (or in one send to the backend, one wait, one call of the control
  agent's client); \<open>exec\<close> carries it out and gives the instructions that the goroutine goes on with and
  the goroutines that it starts. A configuration is the state of the controller and the goroutines; \<open>apply_move\<close> runs one
  instruction of one of them, or lets something happen outside: a command, a state of the pod, an output or the
  exit of the control agent, the passing of time. Times are in milliseconds. Decisions are taken as they come from the parser of
  the agent's output; the text of an error is represented by its kind, and the summaries of iteration reports stand for what is
  sent before ReportIterationEvent cuts them to 1000 bytes of valid UTF-8.
\<close>

subsection \<open>Phases, decisions and reports (types.go, phase_manager.go, decision_types.go)\<close>

datatype Phase = PhaseInitializing | PhaseRunning | PhasePaused | PhaseUserTakeover | PhaseWaitingApproval
  | PhaseCompleted | PhaseFailed | PhaseStopped | PhaseMaxIterations

definition IsTerminalPhase :: "Phase \<Rightarrow> bool" where
  "IsTerminalPhase p \<longleftrightarrow> p \<in> {PhaseCompleted, PhaseFailed, PhaseStopped, PhaseMaxIterations}"

definition CanProcessIteration :: "Phase \<Rightarrow> bool" where
  "CanProcessIteration p \<longleftrightarrow>
     p \<notin> {PhasePaused, PhaseStopped, PhaseCompleted, PhaseFailed, PhaseWaitingApproval, PhaseMaxIterations}"

datatype DecisionType = DecisionCompleted | DecisionContinue | DecisionNeedHumanHelp | DecisionGiveUp

fun decision_name :: "DecisionType \<Rightarrow> str" where
  "decision_name DecisionCompleted = ''TASK_COMPLETED''"
| "decision_name DecisionContinue = ''CONTINUE''"
| "decision_name DecisionNeedHumanHelp = ''NEED_HUMAN_HELP''"
| "decision_name DecisionGiveUp = ''GIVE_UP''"

record decision =
  dec_Type :: DecisionType
  dec_Summary :: str
  dec_FilesChanged :: "str list"

datatype ctl_error = StartFailed | NotIdle | PromptRejected | CtxDone | NoOutput

datatype report = CreatedEvent
  | StatusEvent Phase int int "nat option" str
  | IterationEvent int str str "str list"
  | ErrorEvent int ctl_error
  | ThinkingEvent int decision
  | TerminatedEvent str

subsection \<open>The state of a controller\<close>

datatype client_state = ClUninitialized | ClInitializing | ClIdle | ClProcessing
  | ClWaitingPermission | ClStopped

record pilot =
  ap_phase :: Phase
  ap_currentIter :: int
  ap_maxIterations :: int
  ap_lastIterationAt :: "nat option"
  ap_lastTriggerTime :: "nat option"
  ap_minTriggerGap :: nat
  ap_consecutiveErrors :: int
  ap_maxConsecutiveErrors :: int
  ap_userTakeover :: bool
  ap_takeoverCh :: bool
  ap_handbackCh :: bool
  ap_lastDecision :: str
  ap_lastDecisionMsg :: str
  ap_stopped :: bool
  ap_cancelled :: bool
  ap_wg :: nat
  ap_stopOnce :: bool
  ap_stopDone :: bool
  ap_timeout :: nat
  ap_reporter :: bool
  ap_sent :: "report list"
  ap_detecting :: bool
  ap_subscribed :: bool
  ap_lastStatus :: str
  ap_podStatus :: str
  ap_ctlStarted :: bool
  ap_client :: client_state
  ap_iterDone :: nat
  ap_closed :: "nat set"
  ap_output :: "decision option"
  ap_snapshot :: "str list"
  ap_now :: nat
  ap_runs :: "int list"

text \<open>\<open>ap_iterDone\<close> is the number of the iterDone channel in use (0 while it is nil) and \<open>ap_closed\<close> the closed ones;
  \<open>ap_runs\<close> records the iterations whose decision cycle was started. maxIterations and the timeout come from the
  configuration of the command; a zero asks for the default.\<close>

definition DefaultMaxIterations :: int where "DefaultMaxIterations = 10"
definition DefaultMaxConsecutiveErrors :: int where "DefaultMaxConsecutiveErrors = 3"
definition DefaultIterationTimeout :: nat where "DefaultIterationTimeout = 300000"
definition DefaultResumeDelay :: nat where "DefaultResumeDelay = 500"
definition MinRetryDelay :: nat where "MinRetryDelay = 2000"
definition MaxRetryDelay :: nat where "MaxRetryDelay = 30000"
definition stopTimeout :: nat where "stopTimeout = 30000"

definition NewAutopilotController :: "int \<Rightarrow> nat \<Rightarrow> str \<Rightarrow> nat \<Rightarrow> pilot" where
  "NewAutopilotController maxIter timeout podStatus now = \<lparr>
     ap_phase = PhaseInitializing, ap_currentIter = 0,
     ap_maxIterations = (if maxIter = 0 then DefaultMaxIterations else maxIter),
     ap_lastIterationAt = None, ap_lastTriggerTime = None, ap_minTriggerGap = 5000,
     ap_consecutiveErrors = 0, ap_maxConsecutiveErrors = DefaultMaxConsecutiveErrors,
     ap_userTakeover = False, ap_takeoverCh = False, ap_handbackCh = False, ap_lastDecision = [], ap_lastDecisionMsg = [],
     ap_stopped = False, ap_cancelled = False, ap_wg = 0, ap_stopOnce = False, ap_stopDone = False,
     ap_timeout = (if timeout = 0 then DefaultIterationTimeout else timeout), ap_reporter = True, ap_sent = [],
     ap_detecting = False, ap_subscribed = False, ap_lastStatus = [], ap_podStatus = podStatus, ap_ctlStarted = False,
     ap_client = ClUninitialized, ap_iterDone = 0, ap_closed = {}, ap_output = None, ap_snapshot = [], ap_now = now, ap_runs = []\<rparr>"

subsection \<open>Operations under one lock (iteration_controller.go, control_runner_acp.go)\<close>

definition too_soon :: "pilot \<Rightarrow> bool" where
  "too_soon s = (case ap_lastTriggerTime s of None \<Rightarrow> False | Some t \<Rightarrow> ap_now s - t < ap_minTriggerGap s)"

definition UpdateTriggerTime :: "pilot \<Rightarrow> pilot" where
  "UpdateTriggerTime s = s\<lparr>ap_lastTriggerTime := Some (ap_now s)\<rparr>"

definition CheckTriggerDedup :: "pilot \<Rightarrow> pilot option" where
  "CheckTriggerDedup s = (if too_soon s then None else Some (UpdateTriggerTime s))"

definition HasReachedMaxIterations :: "pilot \<Rightarrow> bool" where
  "HasReachedMaxIterations s \<longleftrightarrow> ap_currentIter s \<ge> ap_maxIterations s"

definition IncrementIteration :: "pilot \<Rightarrow> pilot option" where
  "IncrementIteration s =
     (if ap_currentIter s \<ge> ap_maxIterations s then None
      else Some (s\<lparr>ap_currentIter := ap_currentIter s + 1, ap_lastIterationAt := Some (ap_now s)\<rparr>))"

definition SetInitialIteration :: "pilot \<Rightarrow> pilot" where
  "SetInitialIteration s = s\<lparr>ap_currentIter := 1, ap_lastIterationAt := Some (ap_now s)\<rparr>"

definition AddMaxIterations :: "int \<Rightarrow> pilot \<Rightarrow> pilot" where
  "AddMaxIterations n s = s\<lparr>ap_maxIterations := ap_maxIterations s + n\<rparr>"

definition RecordError :: "pilot \<Rightarrow> pilot \<times> bool" where
  "RecordError s =
     (let n = ap_consecutiveErrors s + 1
      in (s\<lparr>ap_consecutiveErrors := n\<rparr>, n \<ge> ap_maxConsecutiveErrors s))"

definition ResetErrors :: "pilot \<Rightarrow> pilot" where
  "ResetErrors s = (if ap_consecutiveErrors s > 0 then s\<lparr>ap_consecutiveErrors := 0\<rparr> else s)"

definition GetRetryDelay :: "int \<Rightarrow> nat" where
  "GetRetryDelay errors =
     (if errors = 0 then MinRetryDelay
      else let delay = 2 ^ nat errors * 1000 in if delay > MaxRetryDelay then MaxRetryDelay else delay)"

definition report_if :: "report \<Rightarrow> pilot \<Rightarrow> pilot" where
  "report_if r s = (if ap_reporter s then s\<lparr>ap_sent := ap_sent s @ [r]\<rparr> else s)"

definition signalDone :: "pilot \<Rightarrow> pilot" where
  "signalDone s = (if ap_iterDone s = 0 then s else s\<lparr>ap_closed := insert (ap_iterDone s) (ap_closed s)\<rparr>)"

definition setIdle :: "pilot \<Rightarrow> pilot" where
  "setIdle s = (if ap_client s = ClIdle then s else signalDone (s\<lparr>ap_client := ClIdle\<rparr>))"

subsection \<open>What a goroutine does\<close>

text \<open>The stages of OnPodWaiting and of the start of a decision cycle.\<close>

datatype trigger_step = DedupTrigger | CheckTakeover | CheckPhase | CheckMax | Increment | Launch int

text \<open>SetPhase and its report: \<open>ReadIterations\<close> and \<open>ReadPodStatus\<close> are what buildAutopilotStatus reads.\<close>

datatype phase_step = SetPhase Phase | ReadIterations Phase | ReadPodStatus Phase int int "nat option"

text \<open>RunControlProcess and runSingleDecision, for an iteration; the control steps also carry the deadline of the cycle.\<close>

datatype control_step = EnsureClient | StartClient | CheckIdle | ResetOutput | CheckPrompt | WritePrompt | SelectDone | AwaitDone nat

datatype decision_step = Attempt | CollectOutput | DecisionError ctl_error | CountError | CheckWaiting | BackOff | AwaitRetry nat
  | ClearErrors | TakeSnapshot decision | StoreDecision decision | HandleDecision decision

datatype start_step = StartDetector | Subscribe | StartCheck | TouchTrigger | SetInitial

datatype stop_step = StopOnce | SetPhaseQuietly Phase | StopDetector | Unsubscribe | StopControl | SetStopped | CancelContext
  | StartWait | AwaitGroup nat | StopReturn

datatype user_step = PauseCheck | ResumeCheck | TakeoverFlag | NotifyTakeover | HandbackFlag | NotifyHandback
  | ApproveCheck bool int | AddMax int | SpawnResume | ResumeDelay | AwaitResume nat | CheckResumed

text \<open>\<open>WgDone\<close> is the deferred wg.Done of a decision goroutine.\<close>

datatype instr = Trigger trigger_step | Phased phase_step | Send report | Control int nat control_step
  | Decide int decision_step | WgDone | Starting start_step | Stopping stop_step | User user_step

type_synonym goroutine = "instr list"
type_synonym config = "pilot \<times> goroutine list"

text \<open>How a wait or an uncertain call ends.\<close>

datatype outcome = Normally | Failing | TimingOut | OnCancel

text \<open>The new state, how the goroutine goes on, and the goroutines it starts; None where the step cannot end so.\<close>

type_synonym effect = "(pilot \<times> goroutine \<times> goroutine list) option"

abbreviation go_on :: "pilot \<Rightarrow> goroutine \<Rightarrow> effect" where
  "go_on s k \<equiv> Some (s, k, [])"

definition Pilot_Start :: goroutine where
  "Pilot_Start = [Starting StartDetector, Send CreatedEvent, Starting StartCheck, Phased (SetPhase PhaseRunning)]"

definition sendPrompt :: goroutine where
  "sendPrompt = [Starting TouchTrigger, Starting SetInitial]"

definition launch_decision :: "int \<Rightarrow> goroutine" where
  "launch_decision it = [Send (IterationEvent it ''started'' [] []), Trigger (Launch it)]"

definition runSingleDecision :: "int \<Rightarrow> goroutine" where
  "runSingleDecision it = [Decide it Attempt, WgDone]"

definition max_reached :: goroutine where
  "max_reached = [Phased (SetPhase PhaseMaxIterations), Send (TerminatedEvent ''max_iterations'')]"

definition OnPodWaiting :: goroutine where
  "OnPodWaiting = [Trigger DedupTrigger]"

definition Pilot_Stop :: goroutine where
  "Pilot_Stop = [Stopping StopOnce]"

definition stop_body :: goroutine where
  "stop_body = map Stopping [SetPhaseQuietly PhaseStopped, StopDetector, StopControl, SetStopped, CancelContext, StartWait]
     @ [Send (TerminatedEvent ''stopped''), Stopping StopReturn]"

definition handleDecision :: "int \<Rightarrow> decision \<Rightarrow> goroutine" where
  "handleDecision it d = Send (ThinkingEvent it d) #
     (case dec_Type d of
        DecisionCompleted \<Rightarrow> [Phased (SetPhase PhaseCompleted),
          Send (IterationEvent it ''completed'' (dec_Summary d) (dec_FilesChanged d)), Send (TerminatedEvent ''completed'')]
      | DecisionNeedHumanHelp \<Rightarrow> [Phased (SetPhase PhaseWaitingApproval),
          Send (IterationEvent it ''need_human_help'' (dec_Summary d) [])]
      | DecisionGiveUp \<Rightarrow> [Phased (SetPhase PhaseFailed), Send (IterationEvent it ''give_up'' (dec_Summary d) []),
          Send (TerminatedEvent ''failed'')]
      | DecisionContinue \<Rightarrow> [Send (IterationEvent it ''action_sent'' (dec_Summary d) (dec_FilesChanged d))])"

primrec exec_trigger :: "trigger_step \<Rightarrow> pilot \<Rightarrow> effect" where
  "exec_trigger DedupTrigger s =
     (case CheckTriggerDedup s of None \<Rightarrow> go_on s [] | Some s' \<Rightarrow> go_on s' [Trigger CheckTakeover])"
| "exec_trigger CheckTakeover s = go_on s (if ap_userTakeover s then [] else [Trigger CheckPhase])"
| "exec_trigger CheckPhase s = go_on s (if CanProcessIteration (ap_phase s) then [Trigger CheckMax] else [])"
| "exec_trigger CheckMax s = go_on s (if HasReachedMaxIterations s then max_reached else [Trigger Increment])"
| "exec_trigger Increment s =
     (case IncrementIteration s of None \<Rightarrow> go_on s max_reached
      | Some s' \<Rightarrow> go_on s' (launch_decision (ap_currentIter s')))"
| "exec_trigger (Launch it) s =
     (if ap_stopped s then go_on s []
      else Some (s\<lparr>ap_wg := Suc (ap_wg s), ap_runs := ap_runs s @ [it]\<rparr>, [], [runSingleDecision it]))"

primrec exec_phase :: "phase_step \<Rightarrow> pilot \<Rightarrow> effect" where
  "exec_phase (SetPhase p) s =
     (if ap_phase s = p then go_on s [] else go_on (s\<lparr>ap_phase := p\<rparr>) [Phased (ReadIterations p)])"
| "exec_phase (ReadIterations p) s =
     go_on s (if ap_reporter s
              then [Phased (ReadPodStatus p (ap_currentIter s) (ap_maxIterations s) (ap_lastIterationAt s))] else [])"
| "exec_phase (ReadPodStatus p cur mx t) s = go_on s [Send (StatusEvent p cur mx t (ap_podStatus s))]"

primrec exec_control :: "control_step \<Rightarrow> int \<Rightarrow> nat \<Rightarrow> outcome \<Rightarrow> pilot \<Rightarrow> effect" where
  "exec_control EnsureClient it dl c s =
     (if c \<noteq> Normally then None
      else if ap_ctlStarted s \<and> ap_client s \<noteq> ClStopped then go_on s [Control it dl CheckIdle]
      else go_on (s\<lparr>ap_ctlStarted := False, ap_client := ClInitializing\<rparr>) [Control it dl StartClient])"
| "exec_control StartClient it dl c s =
     (case c of Normally \<Rightarrow> go_on ((setIdle s)\<lparr>ap_ctlStarted := True\<rparr>) [Control it dl CheckIdle]
      | Failing \<Rightarrow> go_on s [Decide it (DecisionError StartFailed)]
      | TimingOut \<Rightarrow> go_on (s\<lparr>ap_client := ClStopped\<rparr>) [Decide it (DecisionError StartFailed)]
      | OnCancel \<Rightarrow> None)"
| "exec_control CheckIdle it dl c s =
     (if c \<noteq> Normally then None
      else go_on s [if ap_client s = ClIdle then Control it dl ResetOutput else Decide it (DecisionError NotIdle)])"
| "exec_control ResetOutput it dl c s =
     (if c \<noteq> Normally then None
      else go_on (s\<lparr>ap_output := None, ap_iterDone := Suc (ap_iterDone s)\<rparr>) [Control it dl CheckPrompt])"
| "exec_control CheckPrompt it dl c s =
     (if c \<noteq> Normally then None
      else go_on s [if ap_client s = ClIdle then Control it dl WritePrompt else Decide it (DecisionError PromptRejected)])"
| "exec_control WritePrompt it dl c s =
     (case c of Normally \<Rightarrow> go_on (s\<lparr>ap_client := ClProcessing\<rparr>) [Control it dl SelectDone]
      | Failing \<Rightarrow> go_on (setIdle (s\<lparr>ap_client := ClProcessing\<rparr>)) [Decide it (DecisionError PromptRejected)]
      | _ \<Rightarrow> None)"
| "exec_control SelectDone it dl c s =
     (if c \<noteq> Normally then None else go_on s [Control it dl (AwaitDone (ap_iterDone s))])"
| "exec_control (AwaitDone ch) it dl c s =
     (case c of Normally \<Rightarrow> if ch \<in> ap_closed s then go_on s [Decide it CollectOutput] else None
      | TimingOut \<Rightarrow> if ap_now s \<ge> dl then go_on s [Decide it (DecisionError CtxDone)] else None
      | OnCancel \<Rightarrow> if ap_cancelled s then go_on s [Decide it (DecisionError CtxDone)] else None
      | Failing \<Rightarrow> None)"

primrec exec_decision :: "decision_step \<Rightarrow> int \<Rightarrow> outcome \<Rightarrow> pilot \<Rightarrow> effect" where
  "exec_decision Attempt it c s =
     (if c \<noteq> Normally then None
      else go_on s (if ap_cancelled s then [] else [Control it (ap_now s + ap_timeout s) EnsureClient]))"
| "exec_decision CollectOutput it c s =
     (if c \<noteq> Normally then None
      else go_on s (case ap_output s of None \<Rightarrow> [Decide it (DecisionError NoOutput)]
                    | Some d \<Rightarrow> [Decide it ClearErrors, Decide it (TakeSnapshot d)]))"
| "exec_decision (DecisionError e) it c s =
     (if c \<noteq> Normally then None else go_on s [Send (ErrorEvent it e), Decide it CountError])"
| "exec_decision CountError it c s =
     (if c \<noteq> Normally then None
      else case RecordError s of (s', exceeded) \<Rightarrow>
        go_on s' (if exceeded then [Phased (SetPhase PhaseFailed), Send (TerminatedEvent ''max_consecutive_errors'')]
                  else [Decide it CheckWaiting]))"
| "exec_decision CheckWaiting it c s =
     (if c \<noteq> Normally then None else go_on s (if ap_podStatus s = ''waiting'' then [Decide it BackOff] else []))"
| "exec_decision BackOff it c s =
     (if c \<noteq> Normally then None
      else go_on s [Decide it (AwaitRetry (ap_now s + GetRetryDelay (ap_consecutiveErrors s)))])"
| "exec_decision (AwaitRetry t) it c s =
     (case c of TimingOut \<Rightarrow> if ap_now s \<ge> t then go_on s [Decide it Attempt] else None
      | OnCancel \<Rightarrow> if ap_cancelled s then go_on s [] else None
      | _ \<Rightarrow> None)"
| "exec_decision ClearErrors it c s = (if c \<noteq> Normally then None else go_on (ResetErrors s) [])"
| "exec_decision (TakeSnapshot d) it c s =
     (if c \<noteq> Normally then None
      else go_on s [Decide it (StoreDecision (if dec_FilesChanged d = [] \<and> ap_snapshot s \<noteq> []
                                              then d\<lparr>dec_FilesChanged := ap_snapshot s\<rparr> else d))])"
| "exec_decision (StoreDecision d) it c s =
     (if c \<noteq> Normally then None
      else go_on (s\<lparr>ap_lastDecision := decision_name (dec_Type d), ap_lastDecisionMsg := dec_Summary d\<rparr>)
             [Decide it (HandleDecision d)])"
| "exec_decision (HandleDecision d) it c s = (if c \<noteq> Normally then None else go_on s (handleDecision it d))"

primrec exec_start :: "start_step \<Rightarrow> pilot \<Rightarrow> effect" where
  "exec_start StartDetector s =
     (if ap_detecting s then go_on s [] else go_on (s\<lparr>ap_detecting := True\<rparr>) [Starting Subscribe])"
| "exec_start Subscribe s = go_on (s\<lparr>ap_subscribed := True\<rparr>) []"
| "exec_start StartCheck s = go_on s (if ap_podStatus s = ''waiting'' then sendPrompt else [])"
| "exec_start TouchTrigger s = go_on (UpdateTriggerTime s) []"
| "exec_start SetInitial s = go_on (SetInitialIteration s) (launch_decision 1)"

primrec exec_stop :: "stop_step \<Rightarrow> outcome \<Rightarrow> pilot \<Rightarrow> effect" where
  "exec_stop StopOnce c s =
     (if c \<noteq> Normally then None
      else if \<not> ap_stopOnce s then go_on (s\<lparr>ap_stopOnce := True\<rparr>) stop_body
      else if ap_stopDone s then go_on s [] else None)"
| "exec_stop (SetPhaseQuietly p) c s = (if c \<noteq> Normally then None else go_on (s\<lparr>ap_phase := p\<rparr>) [])"
| "exec_stop StopDetector c s =
     (if c \<noteq> Normally then None
      else if ap_detecting s then go_on (s\<lparr>ap_detecting := False\<rparr>) [Stopping Unsubscribe] else go_on s [])"
| "exec_stop Unsubscribe c s = (if c \<noteq> Normally then None else go_on (s\<lparr>ap_subscribed := False\<rparr>) [])"
| "exec_stop StopControl c s =
     (if c \<noteq> Normally then None
      else if ap_ctlStarted s then go_on (s\<lparr>ap_client := ClStopped, ap_ctlStarted := False\<rparr>) [] else go_on s [])"
| "exec_stop SetStopped c s = (if c \<noteq> Normally then None else go_on (s\<lparr>ap_stopped := True\<rparr>) [])"
| "exec_stop CancelContext c s = (if c \<noteq> Normally then None else go_on (s\<lparr>ap_cancelled := True\<rparr>) [])"
| "exec_stop StartWait c s =
     (if c \<noteq> Normally then None else go_on s [Stopping (AwaitGroup (ap_now s + stopTimeout))])"
| "exec_stop (AwaitGroup t) c s =
     (case c of Normally \<Rightarrow> if ap_wg s = 0 then go_on s [] else None
      | TimingOut \<Rightarrow> if ap_now s \<ge> t then go_on s [] else None
      | _ \<Rightarrow> None)"
| "exec_stop StopReturn c s = (if c \<noteq> Normally then None else go_on (s\<lparr>ap_stopDone := True\<rparr>) [])"

primrec exec_user :: "user_step \<Rightarrow> outcome \<Rightarrow> pilot \<Rightarrow> effect" where
  "exec_user PauseCheck c s =
     (if c \<noteq> Normally then None else go_on s (if ap_phase s = PhaseRunning then [Phased (SetPhase PhasePaused)] else []))"
| "exec_user ResumeCheck c s =
     (if c \<noteq> Normally then None else go_on s (if ap_phase s = PhasePaused then [Phased (SetPhase PhaseRunning)] else []))"
| "exec_user TakeoverFlag c s =
     (if c \<noteq> Normally then None
      else go_on (s\<lparr>ap_userTakeover := True\<rparr>) [Phased (SetPhase PhaseUserTakeover), User NotifyTakeover])"
| "exec_user NotifyTakeover c s = (if c \<noteq> Normally then None else go_on (s\<lparr>ap_takeoverCh := True\<rparr>) [])"
| "exec_user HandbackFlag c s =
     (if c \<noteq> Normally then None
      else go_on (s\<lparr>ap_userTakeover := False\<rparr>) [Phased (SetPhase PhaseRunning), User NotifyHandback, User SpawnResume])"
| "exec_user NotifyHandback c s = (if c \<noteq> Normally then None else go_on (s\<lparr>ap_handbackCh := True\<rparr>) [])"
| "exec_user (ApproveCheck cont n) c s =
     (if c \<noteq> Normally then None
      else go_on s (if ap_phase s \<noteq> PhaseWaitingApproval then []
                    else if \<not> cont then [Phased (SetPhase PhaseStopped)]
                    else (if n > 0 then [User (AddMax n)] else []) @ [Phased (SetPhase PhaseRunning), User SpawnResume]))"
| "exec_user (AddMax n) c s = (if c \<noteq> Normally then None else go_on (AddMaxIterations n s) [])"
| "exec_user SpawnResume c s = (if c \<noteq> Normally then None else Some (s, [], [[User ResumeDelay]]))"
| "exec_user ResumeDelay c s =
     (if c \<noteq> Normally then None else go_on s [User (AwaitResume (ap_now s + DefaultResumeDelay))])"
| "exec_user (AwaitResume t) c s =
     (case c of TimingOut \<Rightarrow> if ap_now s \<ge> t then go_on s [User CheckResumed] else None
      | OnCancel \<Rightarrow> if ap_cancelled s then go_on s [] else None
      | _ \<Rightarrow> None)"
| "exec_user CheckResumed c s =
     (if c \<noteq> Normally then None else go_on s (if ap_podStatus s = ''waiting'' then OnPodWaiting else []))"

primrec exec :: "instr \<Rightarrow> outcome \<Rightarrow> pilot \<Rightarrow> effect" where
  "exec (Trigger x) c s = (if c \<noteq> Normally then None else exec_trigger x s)"
| "exec (Phased x) c s = (if c \<noteq> Normally then None else exec_phase x s)"
| "exec (Send r) c s = (if c \<noteq> Normally then None else go_on (report_if r s) [])"
| "exec (Control it dl x) c s = exec_control x it dl c s"
| "exec (Decide it x) c s = exec_decision x it c s"
| "exec WgDone c s = (if c \<noteq> Normally then None else go_on (s\<lparr>ap_wg := ap_wg s - 1\<rparr>) [])"
| "exec (Starting x) c s = (if c \<noteq> Normally then None else exec_start x s)"
| "exec (Stopping x) c s = exec_stop x c s"
| "exec (User x) c s = exec_user x c s"

subsection \<open>Runs\<close>

datatype command = Pause | Resume | Stop | Takeover | Handback | Approve bool int

fun command_body :: "command \<Rightarrow> goroutine" where
  "command_body Pause = [User PauseCheck]"
| "command_body Resume = [User ResumeCheck]"
| "command_body Stop = Pilot_Stop"
| "command_body Takeover = [User TakeoverFlag]"
| "command_body Handback = [User HandbackFlag]"
| "command_body (Approve cont n) = [User (ApproveCheck cont n)]"

datatype move = Exec nat outcome | Command command | PodNow str | AgentSays decision | AgentIdle | AgentAsks | AgentExit
  | FilesNow "str list" | Elapse nat

text \<open>The callback of the state detector (state_detector.go).\<close>

definition on_state_change :: "str \<Rightarrow> pilot \<Rightarrow> pilot \<times> goroutine list" where
  "on_state_change new s =
     (let s' = s\<lparr>ap_podStatus := new\<rparr>
      in if \<not> ap_subscribed s then (s', [])
         else (s'\<lparr>ap_lastStatus := new\<rparr>,
               if ap_lastStatus s = ''executing'' \<and> (new = ''waiting'' \<or> new = ''idle'') then [OnPodWaiting] else []))"

fun apply_move :: "move \<Rightarrow> config \<Rightarrow> config option" where
  "apply_move (Exec i c) (s, T) =
     (if i < length T
      then case T ! i of [] \<Rightarrow> None
           | x # k \<Rightarrow> (case exec x c s of None \<Rightarrow> None | Some (s', k', G) \<Rightarrow> Some (s', T[i := k' @ k] @ G))
      else None)"
| "apply_move (Command cmd) (s, T) = Some (s, T @ [command_body cmd])"
| "apply_move (PodNow st) (s, T) = (case on_state_change st s of (s', G) \<Rightarrow> Some (s', T @ G))"
| "apply_move (AgentSays d) (s, T) =
     (if ap_client s \<in> {ClUninitialized, ClStopped} then None else Some (s\<lparr>ap_output := Some d\<rparr>, T))"
| "apply_move AgentIdle (s, T) =
     (if ap_client s \<in> {ClProcessing, ClWaitingPermission} then Some (setIdle s, T) else None)"
| "apply_move AgentAsks (s, T) =
     (if ap_client s = ClProcessing then Some (s\<lparr>ap_client := ClWaitingPermission\<rparr>, T) else None)"
| "apply_move AgentExit (s, T) =
     (if ap_client s \<in> {ClUninitialized, ClStopped} then None else Some (signalDone s, T))"
| "apply_move (FilesNow fs) (s, T) = Some (s\<lparr>ap_snapshot := fs\<rparr>, T)"
| "apply_move (Elapse d) (s, T) = Some (s\<lparr>ap_now := ap_now s + d\<rparr>, T)"

fun run_moves :: "move list \<Rightarrow> config \<Rightarrow> config option" where
  "run_moves [] cf = Some cf"
| "run_moves (m # ms) cf = (case apply_move m cf of None \<Rightarrow> None | Some cf' \<Rightarrow> run_moves ms cf')"

definition created :: "int \<Rightarrow> nat \<Rightarrow> str \<Rightarrow> nat \<Rightarrow> config" where
  "created maxIter timeout podStatus now = (NewAutopilotController maxIter timeout podStatus now, [Pilot_Start])"

inductive preach :: "config \<Rightarrow> bool" where
  init: "preach (created maxIter timeout podStatus now)"
| step: "preach cf \<Longrightarrow> apply_move m cf = Some cf' \<Longrightarrow> preach cf'"

end
