(* ===== verification/AutopilotProps.thy ===== *)
theory AutopilotProps
  imports Autopilot
begin

text \<open>
  What holds of every run of a controller: how often it prompts the control agent, what keeps it from doing so, and
  what its Stop guarantees. Most facts are counted: \<open>load f\<close> adds a weight of the instructions up over all goroutines, and
  an instruction changes it by what it is replaced with.
\<close>

subsection \<open>Counting instructions\<close>

definition weigh :: "(instr \<Rightarrow> nat) \<Rightarrow> goroutine \<Rightarrow> nat" where
  "weigh f k = sum_list (map f k)"

definition load :: "(instr \<Rightarrow> nat) \<Rightarrow> goroutine list \<Rightarrow> nat" where
  "load f T = sum_list (map (weigh f) T)"

lemma weigh_simps [simp]:
  "weigh f [] = 0" "weigh f (x # k) = f x + weigh f k" "weigh f (k @ k') = weigh f k + weigh f k'"
  by (simp_all add: weigh_def)

lemma load_simps [simp]: "load f [] = 0" "load f (k # T) = weigh f k + load f T" "load f (T @ T') = load f T + load f T'"
  by (simp_all add: load_def)

lemma load_ge: "i < length T \<Longrightarrow> weigh f (T ! i) \<le> load f T"
  using member_le_sum_list [of "weigh f (T ! i)" "map (weigh f) T"] by (simp add: load_def)

lemma load_exec:
  "i < length T \<Longrightarrow> T ! i = x # k \<Longrightarrow> load f (T[i := k' @ k] @ G) + f x = load f T + weigh f k' + load f G"
  using load_ge [of i T f] by (simp add: load_def map_update sum_list_update)

text \<open>A step is a step of a goroutine, or it leaves what follows alone and may add a goroutine that begins with a command
  or with OnPodWaiting.\<close>

definition kept :: "pilot \<Rightarrow> pilot \<Rightarrow> bool" where
  "kept s s' \<longleftrightarrow> ap_phase s' = ap_phase s \<and> ap_currentIter s' = ap_currentIter s \<and> ap_maxIterations s' = ap_maxIterations s
     \<and> ap_userTakeover s' = ap_userTakeover s \<and> ap_stopped s' = ap_stopped s \<and> ap_cancelled s' = ap_cancelled s
     \<and> ap_wg s' = ap_wg s \<and> ap_runs s' = ap_runs s"

definition command_of :: "move \<Rightarrow> command option" where
  "command_of m = (case m of Command cmd \<Rightarrow> Some cmd | _ \<Rightarrow> None)"

lemma kept_simps [simp]: "kept s s" "kept s (fst (on_state_change st s))" "kept s (signalDone s)" "kept s (setIdle s)"
  by (simp_all add: kept_def on_state_change_def Let_def signalDone_def setIdle_def)

lemma move_cases:
  assumes "apply_move m (s, T) = Some (s', T')"
  obtains (exec) i c x k k' G where "m = Exec i c" "i < length T" "T ! i = x # k" "exec x c s = Some (s', k', G)"
      "T' = T[i := k' @ k] @ G"
    | (env) G where "kept s s'" "T' = T @ G" "\<forall>i c. m \<noteq> Exec i c"
      "\<forall>g\<in>set G. g = OnPodWaiting \<or> (\<exists>cmd. command_of m = Some cmd \<and> g = command_body cmd)"
  using assms
  by (cases m)
    (auto split: if_splits list.splits option.splits simp: case_prod_beta command_of_def on_state_change_def Let_def kept_def
      setIdle_def signalDone_def)

lemma tasks_step:
  assumes "apply_move m (s, T) = Some (s', T')" "\<forall>k\<in>set T. list_all P k"
    and "\<And>x c k' G. exec x c s = Some (s', k', G) \<Longrightarrow> P x \<Longrightarrow> list_all P k' \<and> (\<forall>g\<in>set G. list_all P g)"
    and "\<And>cmd. command_of m = Some cmd \<Longrightarrow> list_all P (command_body cmd)" "P (Trigger DedupTrigger)"
  shows "\<forall>k\<in>set T'. list_all P k"
  using assms(1)
proof (cases rule: move_cases)
  case (exec i c x k k' G)
  then have "list_all P (x # k)" using assms(2) nth_mem by metis
  then show ?thesis using exec assms(2,3) by (auto dest!: set_update_subset_insert [THEN subsetD])
next
  case (env G)
  then show ?thesis using assms(2,4,5) by (auto simp: OnPodWaiting_def)
qed

lemma new_load:
  assumes "\<forall>g\<in>set G. g = OnPodWaiting \<or> (\<exists>cmd. command_of m = Some cmd \<and> g = command_body cmd)"
    "f (Trigger DedupTrigger) = 0" "f (Stopping StopOnce) = 0" "\<And>y. f (User y) = 0"
  shows "load f G = 0"
proof -
  have "weigh f (command_body cmd) = 0" for cmd using assms(3,4) by (cases cmd) (simp_all add: Pilot_Stop_def)
  then show ?thesis using assms(1,2) by (induction G) (auto simp: OnPodWaiting_def)
qed

lemmas op_defs = CheckTriggerDedup_def UpdateTriggerTime_def IncrementIteration_def SetInitialIteration_def AddMaxIterations_def
  RecordError_def ResetErrors_def report_if_def signalDone_def setIdle_def Let_def
lemmas body_defs = sendPrompt_def launch_decision_def runSingleDecision_def max_reached_def OnPodWaiting_def Pilot_Stop_def
  stop_body_def handleDecision_def


lemma exec_cases:
  assumes "exec x c s = Some e"
  obtains (trigger) y where "x = Trigger y" "exec_trigger y s = Some e"
    | (phase) y where "x = Phased y" "exec_phase y s = Some e"
    | (send) y where "x = Send y" "e = (report_if y s, [], [])"
    | (control) it dl y where "x = Control it dl y" "exec_control y it dl c s = Some e"
    | (decide) it y where "x = Decide it y" "exec_decision y it c s = Some e"
    | (wg) y where "y = ()" "x = WgDone" "e = (s\<lparr>ap_wg := ap_wg s - 1\<rparr>, [], [])"
    | (start) y where "x = Starting y" "exec_start y s = Some e"
    | (stop) y where "x = Stopping y" "exec_stop y c s = Some e"
    | (user) y where "x = User y" "exec_user y c s = Some e"
  using assms by (cases x) (auto split: if_splits)

subsection \<open>The wait group counts the decision goroutines\<close>

definition is_done :: "instr \<Rightarrow> nat" where "is_done x = of_bool (x = WgDone)"

lemma exec_wg:
  "exec x c s = Some (s', k', G) \<Longrightarrow> is_done x \<le> ap_wg s \<Longrightarrow>
   ap_wg s' + is_done x = ap_wg s + load is_done G \<and> weigh is_done k' = 0"
  by (erule exec_cases; case_tac y; auto simp: op_defs body_defs is_done_def
      split: if_splits option.splits outcome.splits DecisionType.splits)

lemma load_bound: "i < length T \<Longrightarrow> T ! i = x # k \<Longrightarrow> f x \<le> load f T"
  using load_ge [of i T f] by simp

lemma wg_step:
  assumes "apply_move m (s, T) = Some (s', T')" "ap_wg s = load is_done T"
  shows "ap_wg s' = load is_done T'"
  using assms(1)
proof (cases rule: move_cases)
  case (exec i c x k k' G)
  then show ?thesis
    using exec_wg [OF exec(4)] load_bound [OF exec(2,3), of is_done] load_exec [OF exec(2,3), of is_done k' G] assms(2) by simp
next
  case (env G)
  have "load is_done G = 0" using env(4) by (rule new_load) (auto simp: is_done_def)
  then show ?thesis using env assms(2) by (simp add: kept_def)
qed

lemma preach_induct [consumes 1, case_names init step]:
  assumes "preach (s, T)"
    and "\<And>maxIter timeout podStatus now s T. created maxIter timeout podStatus now = (s, T) \<Longrightarrow> P s T"
    and "\<And>s T m s' T'. preach (s, T) \<Longrightarrow> P s T \<Longrightarrow> apply_move m (s, T) = Some (s', T') \<Longrightarrow> P s' T'"
  shows "P s T"
proof -
  have "P (fst cf) (snd cf)" if "preach cf" for cf
    using that by induction (metis assms(2) prod.collapse, metis assms(3) prod.collapse)
  then show ?thesis using assms(1) by fastforce
qed

lemma wg_reach: "preach (s, T) \<Longrightarrow> ap_wg s = load is_done T"
proof (induction rule: preach_induct)
  case (init maxIter timeout podStatus now s T)
  then show ?case by (auto simp: created_def NewAutopilotController_def Pilot_Start_def is_done_def)
qed (rule wg_step)

subsection \<open>The quota of iterations\<close>

definition launches :: "int \<Rightarrow> instr \<Rightarrow> nat" where "launches it x = of_bool (x = Trigger (Launch it))"

definition initial_prompt :: "instr \<Rightarrow> nat" where
  "initial_prompt x = of_bool (x = Starting StartCheck \<or> x = Starting SetInitial)"

definition adds_more :: "instr \<Rightarrow> bool" where
  "adds_more x \<longleftrightarrow> (\<forall>n. x = User (AddMax n) \<longrightarrow> n > 0)"

definition quota :: "pilot \<Rightarrow> int" where
  "quota s = max 1 (ap_maxIterations s)"

definition started :: "int \<Rightarrow> pilot \<Rightarrow> goroutine list \<Rightarrow> nat" where
  "started it s T = count_list (ap_runs s) it + load (launches it) T"

lemmas weight_defs = launches_def initial_prompt_def adds_more_def

lemma exec_initial: "exec x c s = Some (s', k', G) \<Longrightarrow> weigh initial_prompt k' + load initial_prompt G \<le> initial_prompt x"
  by (erule exec_cases; case_tac y; auto simp: op_defs body_defs initial_prompt_def
      split: if_splits option.splits outcome.splits DecisionType.splits)

lemma exec_adds: "exec x c s = Some (s', k', G) \<Longrightarrow> adds_more x \<Longrightarrow> list_all adds_more k' \<and> (\<forall>g\<in>set G. list_all adds_more g)"
  by (erule exec_cases; case_tac y; auto simp: op_defs body_defs adds_more_def
      split: if_splits option.splits outcome.splits DecisionType.splits)

lemma exec_iterations:
  assumes "exec x c s = Some (s', k', G)" "adds_more x"
  shows "(ap_currentIter s' = ap_currentIter s \<and> quota s \<le> quota s' \<and>
            (\<forall>it. count_list (ap_runs s') it + weigh (launches it) k' + load (launches it) G
                   \<le> count_list (ap_runs s) it + launches it x))
    \<or> (ap_currentIter s' = ap_currentIter s + 1 \<and> ap_currentIter s' \<le> quota s \<and> quota s' = quota s \<and> ap_runs s' = ap_runs s \<and> G = []
        \<and> x = Trigger Increment \<and> (\<forall>it. weigh (launches it) k' = of_bool (it = ap_currentIter s')))
    \<or> (x = Starting SetInitial \<and> ap_currentIter s' = 1 \<and> quota s' = quota s \<and> ap_runs s' = ap_runs s \<and> G = []
        \<and> weigh initial_prompt k' = 0 \<and> (\<forall>it. weigh (launches it) k' = of_bool (it = 1)))"
  using assms
  by (elim exec_cases; case_tac y; auto simp: op_defs body_defs weight_defs quota_def
      split: if_splits option.splits outcome.splits DecisionType.splits)

definition quota_inv :: "pilot \<Rightarrow> goroutine list \<Rightarrow> bool" where
  "quota_inv s T \<longleftrightarrow> (\<forall>k\<in>set T. list_all adds_more k) \<and> load initial_prompt T \<le> 1 \<and>
     0 \<le> ap_currentIter s \<and> ap_currentIter s \<le> quota s \<and>
     (\<exists>a \<le> quota s. \<forall>it. started it s T \<le> of_bool (1 \<le> it \<and> it \<le> ap_currentIter s)
        + of_bool (load initial_prompt T = 0 \<and> 1 \<le> it \<and> it \<le> a))"

lemma quota_invI:
  assumes "\<forall>k\<in>set T. list_all adds_more k" "load initial_prompt T \<le> 1" "0 \<le> ap_currentIter s" "ap_currentIter s \<le> quota s"
    "a \<le> quota s" "\<And>it. started it s T \<le> of_bool (1 \<le> it \<and> it \<le> ap_currentIter s)
        + of_bool (load initial_prompt T = 0 \<and> 1 \<le> it \<and> it \<le> a)"
  shows "quota_inv s T"
  unfolding quota_inv_def using assms by blast

lemma quota_step:
  assumes "apply_move m (s, T) = Some (s', T')" "quota_inv s T"
  shows "quota_inv s' T'"
proof -
  obtain a where a: "a \<le> quota s" "\<And>it. started it s T \<le> of_bool (1 \<le> it \<and> it \<le> ap_currentIter s)
        + of_bool (load initial_prompt T = 0 \<and> 1 \<le> it \<and> it \<le> a)"
    using assms(2) by (auto simp: quota_inv_def)
  have cur: "0 \<le> ap_currentIter s" "ap_currentIter s \<le> quota s" "load initial_prompt T \<le> 1"
    and adds: "\<forall>k\<in>set T. list_all adds_more k" using assms(2) by (auto simp: quota_inv_def)
  have cmds: "list_all adds_more (command_body cmd)" for cmd by (cases cmd) (simp_all add: adds_more_def Pilot_Stop_def)
  have adds': "\<forall>k\<in>set T'. list_all adds_more k"
    by (rule tasks_step [OF assms(1) adds exec_adds cmds]) (simp_all add: adds_more_def)
  show ?thesis using assms(1)
  proof (cases rule: move_cases)
    case (exec i c x k k' G)
    have "list_all adds_more (x # k)" using exec(2,3) adds nth_mem by metis
    then have x: "adds_more x" by simp
    have init: "load initial_prompt T' + initial_prompt x \<le> load initial_prompt T + initial_prompt x"
      using load_exec [OF exec(2,3), of initial_prompt k' G] exec_initial [OF exec(4)] exec(5) by simp
    have st: "load (launches it) T' + launches it x = load (launches it) T + weigh (launches it) k' + load (launches it) G" for it
      using load_exec [OF exec(2,3), of "launches it" k' G] exec(5) by simp
    from exec_iterations [OF exec(4) x] show ?thesis
    proof (elim disjE conjE)
      assume *: "ap_currentIter s' = ap_currentIter s" "quota s \<le> quota s'"
        "\<forall>it. count_list (ap_runs s') it + weigh (launches it) k' + load (launches it) G \<le> count_list (ap_runs s) it + launches it x"
      have le: "started it s' T' \<le> started it s T" for it using *(3) st [of it] by (auto simp: started_def dest: spec [of _ it])
      have b: "started it s' T' \<le> of_bool (1 \<le> it \<and> it \<le> ap_currentIter s')
          + of_bool (load initial_prompt T' = 0 \<and> 1 \<le> it \<and> it \<le> (if load initial_prompt T = 0 then a else 0))" for it
        using le [of it] a(2) [of it] init *(1) by (auto simp: of_bool_def split: if_splits)
      show ?thesis by (rule quota_invI [OF _ _ _ _ _ b]) (use * cur a(1) init adds' in \<open>auto simp: quota_def\<close>)
    next
      assume *: "ap_currentIter s' = ap_currentIter s + 1" "ap_currentIter s' \<le> quota s" "quota s' = quota s" "ap_runs s' = ap_runs s"
        "G = []" "x = Trigger Increment" "\<forall>it. weigh (launches it) k' = of_bool (it = ap_currentIter s')"
      have same: "load initial_prompt T' \<le> load initial_prompt T" using init by simp
      have "started it s' T' = started it s T + of_bool (it = ap_currentIter s')" for it
        using * st [of it] by (simp add: started_def launches_def)
      then have b: "started it s' T' \<le> of_bool (1 \<le> it \<and> it \<le> ap_currentIter s')
          + of_bool (load initial_prompt T' = 0 \<and> 1 \<le> it \<and> it \<le> a)" for it
        using a(2) [of it] same *(1) cur by (auto simp: of_bool_def split: if_splits)
      show ?thesis by (rule quota_invI [OF _ _ _ _ _ b]) (use * cur a(1) same adds' in auto)
    next
      assume *: "x = Starting SetInitial" "ap_currentIter s' = 1" "quota s' = quota s" "ap_runs s' = ap_runs s" "G = []"
        "weigh initial_prompt k' = 0" "\<forall>it. weigh (launches it) k' = of_bool (it = 1)"
      have one: "load initial_prompt T' = 0" "load initial_prompt T \<noteq> 0"
        using load_exec [OF exec(2,3), of initial_prompt k' G] exec(5) *(1,5,6) cur(3) by (auto simp: initial_prompt_def)
      have "started it s' T' = started it s T + of_bool (it = 1)" for it
        using * st [of it] by (simp add: started_def launches_def)
      then have b: "started it s' T' \<le> of_bool (1 \<le> it \<and> it \<le> ap_currentIter s')
          + of_bool (load initial_prompt T' = 0 \<and> 1 \<le> it \<and> it \<le> ap_currentIter s)" for it
        using a(2) [of it] one *(2) by (auto simp: of_bool_def split: if_splits)
      show ?thesis by (rule quota_invI [OF _ _ _ _ _ b]) (use * cur one adds' in \<open>auto simp: quota_def\<close>)
    qed
  next
    case (env G)
    have "load initial_prompt G = 0" "load (launches it) G = 0" for it
      using new_load [OF env(4)] by (simp_all add: weight_defs)
    then have "started it s' T' = started it s T" "load initial_prompt T' = load initial_prompt T" for it
      using env(1,2) by (simp_all add: kept_def started_def)
    then show ?thesis using env(1) a cur adds' by (intro quota_invI [of _ _ a]) (simp_all add: kept_def quota_def)
  qed
qed

lemma quota_reach: "preach (s, T) \<Longrightarrow> quota_inv s T"
proof (induction rule: preach_induct)
  case (init maxIter timeout podStatus now s T)
  then show ?case
    by (auto simp: created_def NewAutopilotController_def Pilot_Start_def quota_inv_def started_def quota_def weight_defs
        intro!: exI [of _ 0])
qed (rule quota_step)

text \<open>C36. The iteration quota of the autopilot: in every run, however commands, pod events and retries interleave, each
  decision cycle that starts has a number from 1 to the maximum (at least 1: the initial prompt is sent whatever
  the maximum), no number is used more than twice, and so at most twice the maximum of cycles start; the counter never
  exceeds the maximum.\<close>

theorem autopilot_iteration_quota:
  assumes "preach (s, T)"
  shows "(\<forall>it\<in>set (ap_runs s). 1 \<le> it \<and> it \<le> max 1 (ap_maxIterations s)) \<and> (\<forall>it. count_list (ap_runs s) it \<le> 2)
    \<and> int (length (ap_runs s)) \<le> 2 * max 1 (ap_maxIterations s)
    \<and> 0 \<le> ap_currentIter s \<and> ap_currentIter s \<le> max 1 (ap_maxIterations s)"
proof -
  have inv: "quota_inv s T" by (rule quota_reach [OF assms])
  then obtain a where a: "a \<le> quota s" "\<And>it. started it s T \<le> of_bool (1 \<le> it \<and> it \<le> ap_currentIter s)
        + of_bool (load initial_prompt T = 0 \<and> 1 \<le> it \<and> it \<le> a)"
    by (auto simp: quota_inv_def)
  have cur: "0 \<le> ap_currentIter s" "ap_currentIter s \<le> quota s" using inv by (auto simp: quota_inv_def)
  have two: "count_list (ap_runs s) it \<le> 2" for it
    using a(2) [of it] by (simp add: started_def of_bool_def split: if_splits)
  have range: "set (ap_runs s) \<subseteq> {1..quota s}"
  proof
    fix it assume "it \<in> set (ap_runs s)"
    then have "count_list (ap_runs s) it \<noteq> 0" by (simp add: count_list_0_iff)
    then show "it \<in> {1..quota s}" using a(2) [of it] a(1) cur by (auto simp: started_def of_bool_def split: if_splits)
  qed
  have "length (ap_runs s) = (\<Sum>it\<in>{1..quota s}. count_list (ap_runs s) it)" using range by (simp add: sum_count_set)
  also have "\<dots> \<le> (\<Sum>it\<in>{1..quota s}. 2)" by (rule sum_mono) (rule two)
  finally have "length (ap_runs s) \<le> 2 * nat (quota s)" by simp
  then have len: "int (length (ap_runs s)) \<le> 2 * quota s" by (simp add: quota_def)
  show ?thesis using range two cur len by (auto simp: quota_def)
qed

subsection \<open>What keeps the autopilot from prompting\<close>

text \<open>\<open>inert\<close>: nothing that could lead to a decision cycle without passing the check for a takeover.\<close>

definition inert :: "instr \<Rightarrow> bool" where
  "inert x \<longleftrightarrow> (case x of
      Trigger y \<Rightarrow> (case y of DedupTrigger \<Rightarrow> True | CheckTakeover \<Rightarrow> True | _ \<Rightarrow> False)
    | Starting y \<Rightarrow> y \<noteq> StartCheck \<and> y \<noteq> SetInitial | User y \<Rightarrow> y \<noteq> HandbackFlag | _ \<Rightarrow> True)"

lemma exec_inert:
  "exec x c s = Some (s', k', G) \<Longrightarrow> inert x \<Longrightarrow> ap_userTakeover s \<Longrightarrow>
   ap_userTakeover s' \<and> ap_runs s' = ap_runs s \<and> list_all inert k' \<and> (\<forall>g\<in>set G. list_all inert g)"
  by (erule exec_cases; case_tac y; auto simp: op_defs body_defs inert_def
      split: if_splits option.splits outcome.splits DecisionType.splits)

lemma inert_step:
  assumes "apply_move m (s, T) = Some (s', T')" "\<forall>k\<in>set T. list_all inert k" "ap_userTakeover s" "m \<noteq> Command Handback"
  shows "ap_userTakeover s' \<and> ap_runs s' = ap_runs s \<and> (\<forall>k\<in>set T'. list_all inert k)"
proof -
  have "list_all inert (command_body cmd)" if "command_of m = Some cmd" for cmd
    using that assms(4) by (cases cmd) (auto simp: command_of_def inert_def Pilot_Stop_def split: move.splits)
  then have "\<forall>k\<in>set T'. list_all inert k"
    using assms(3) exec_inert by (intro tasks_step [OF assms(1,2)]) (auto simp: inert_def)
  moreover have "ap_userTakeover s' \<and> ap_runs s' = ap_runs s" using assms(1)
  proof (cases rule: move_cases)
    case (exec i c x k k' G)
    then have "list_all inert (x # k)" using assms(2) nth_mem by metis
    then show ?thesis using exec_inert [OF exec(4)] assms(3) by simp
  qed (use assms(3) in \<open>simp add: kept_def\<close>)
  ultimately show ?thesis by simp
qed


text \<open>\<open>settled\<close>: nothing of a start, of a decision cycle or of a command that could leave a terminal phase.\<close>

definition settled :: "instr \<Rightarrow> bool" where
  "settled x \<longleftrightarrow> (case x of
      Trigger y \<Rightarrow> y \<in> {DedupTrigger, CheckTakeover, CheckPhase}
    | Phased y \<Rightarrow> (case y of SetPhase p \<Rightarrow> IsTerminalPhase p | _ \<Rightarrow> True)
    | Send r \<Rightarrow> True | Control it dl y \<Rightarrow> False | Decide it y \<Rightarrow> False | WgDone \<Rightarrow> True | Starting y \<Rightarrow> False
    | Stopping y \<Rightarrow> (case y of SetPhaseQuietly p \<Rightarrow> IsTerminalPhase p | _ \<Rightarrow> True)
    | User y \<Rightarrow> (case y of TakeoverFlag \<Rightarrow> False | HandbackFlag \<Rightarrow> False | _ \<Rightarrow> True))"

lemma exec_settled:
  "exec x c s = Some (s', k', G) \<Longrightarrow> settled x \<Longrightarrow> IsTerminalPhase (ap_phase s) \<Longrightarrow>
   IsTerminalPhase (ap_phase s') \<and> ap_runs s' = ap_runs s \<and> list_all settled k' \<and> (\<forall>g\<in>set G. list_all settled g)"
  by (erule exec_cases; case_tac y; auto simp: op_defs body_defs settled_def IsTerminalPhase_def CanProcessIteration_def
      split: if_splits option.splits outcome.splits)

lemma settled_step:
  assumes "apply_move m (s, T) = Some (s', T')" "\<forall>k\<in>set T. list_all settled k" "IsTerminalPhase (ap_phase s)"
    "m \<noteq> Command Handback" "m \<noteq> Command Takeover"
  shows "IsTerminalPhase (ap_phase s') \<and> ap_runs s' = ap_runs s \<and> (\<forall>k\<in>set T'. list_all settled k)"
proof -
  have "list_all settled (command_body cmd)" if "command_of m = Some cmd" for cmd
    using that assms(4,5) by (cases cmd) (auto simp: command_of_def settled_def Pilot_Stop_def split: move.splits)
  then have "\<forall>k\<in>set T'. list_all settled k"
    using assms(3) exec_settled by (intro tasks_step [OF assms(1,2)]) (auto simp: settled_def)
  moreover have "IsTerminalPhase (ap_phase s') \<and> ap_runs s' = ap_runs s" using assms(1)
  proof (cases rule: move_cases)
    case (exec i c x k k' G)
    then have "list_all settled (x # k)" using assms(2) nth_mem by metis
    then show ?thesis using exec_settled [OF exec(4)] assms(3) by simp
  qed (use assms(3) in \<open>simp add: kept_def\<close>)
  ultimately show ?thesis by simp
qed

text \<open>A finished autopilot stays finished: in a terminal phase, with no start, decision cycle or conflicting command under
  way, every run without a takeover or a handback leaves the phase terminal and starts no cycle; neither pod events nor Pause,
  Resume, Approve or Stop wake it.\<close>

theorem autopilot_terminal_stays:
  assumes "run_moves ms (s, T) = Some (s', T')" "IsTerminalPhase (ap_phase s)" "\<forall>k\<in>set T. list_all settled k"
    "Command Handback \<notin> set ms" "Command Takeover \<notin> set ms"
  shows "IsTerminalPhase (ap_phase s') \<and> ap_runs s' = ap_runs s"
  using assms
proof (induction ms arbitrary: s T)
  case (Cons m ms)
  then obtain s1 T1 where m: "apply_move m (s, T) = Some (s1, T1)" "run_moves ms (s1, T1) = Some (s', T')"
    by (auto split: option.splits)
  then show ?case using Cons.IH [OF m(2)] settled_step [OF m(1)] Cons.prems by auto
qed simp

subsection \<open>Stop\<close>

text \<open>A goroutine is a decision cycle, which ends with wg.Done and only talks to the control agent, reports and sets the phase, or it
  does none of the steps of a cycle.\<close>

definition cycle_step :: "instr \<Rightarrow> bool" where
  "cycle_step x \<longleftrightarrow> (\<exists>it dl y. x = Control it dl y) \<or> (\<exists>it y. x = Decide it y)"

definition cycle_body :: "instr \<Rightarrow> bool" where
  "cycle_body x \<longleftrightarrow> cycle_step x \<or> (\<exists>r. x = Send r) \<or> (\<exists>y. x = Phased y)"

definition plain_step :: "instr \<Rightarrow> bool" where
  "plain_step x \<longleftrightarrow> \<not> cycle_step x \<and> x \<noteq> WgDone"

definition cycle :: "goroutine \<Rightarrow> bool" where
  "cycle k \<longleftrightarrow> (\<exists>pre. k = pre @ [WgDone] \<and> list_all cycle_body pre)"

definition well_formed :: "goroutine \<Rightarrow> bool" where
  "well_formed k \<longleftrightarrow> cycle k \<or> list_all plain_step k"

lemmas cycle_defs = cycle_step_def cycle_body_def plain_step_def

lemma exec_cycle_body: "exec x c s = Some (s', k', G) \<Longrightarrow> cycle_body x \<Longrightarrow> list_all cycle_body k' \<and> G = []"
  by (erule exec_cases; case_tac y; auto simp: op_defs body_defs cycle_defs
      split: if_splits option.splits outcome.splits DecisionType.splits)

lemma cycle_start: "cycle (runSingleDecision it)"
  by (auto simp: cycle_def runSingleDecision_def cycle_defs intro!: exI [of _ "[Decide it Attempt]"])

lemma exec_plain:
  "exec x c s = Some (s', k', G) \<Longrightarrow> plain_step x \<Longrightarrow>
   list_all plain_step k' \<and> (\<forall>g\<in>set G. list_all plain_step g \<or> (\<exists>it. g = runSingleDecision it))"
  by (erule exec_cases; case_tac y; auto simp: op_defs sendPrompt_def launch_decision_def max_reached_def OnPodWaiting_def
      Pilot_Stop_def stop_body_def cycle_defs split: if_splits option.splits outcome.splits)

lemma cycle_Cons:
  assumes "cycle (x # k)"
  shows "(x = WgDone \<and> k = []) \<or> (cycle_body x \<and> cycle k)"
proof -
  obtain pre where p: "x # k = pre @ [WgDone]" "list_all cycle_body pre" using assms by (auto simp: cycle_def)
  then show ?thesis by (cases pre) (auto simp: cycle_def)
qed

lemma cycle_append: "list_all cycle_body k' \<Longrightarrow> cycle k \<Longrightarrow> cycle (k' @ k)"
  by (auto simp: cycle_def)

lemma well_formed_step:
  assumes "apply_move m (s, T) = Some (s', T')" "\<forall>k\<in>set T. well_formed k"
  shows "\<forall>k\<in>set T'. well_formed k"
  using assms(1)
proof (cases rule: move_cases)
  case (exec i c x k k' G)
  have wf: "well_formed (x # k)" using exec(2,3) assms(2) nth_mem by metis
  have "well_formed (k' @ k) \<and> (\<forall>g\<in>set G. well_formed g)"
  proof (cases "cycle (x # k)")
    case True
    then consider "x = WgDone" "k = []" | "cycle_body x" "cycle k" using cycle_Cons by blast
    then show ?thesis
    proof cases
      case 1
      then show ?thesis using exec(4) by (auto simp: well_formed_def split: if_splits)
    next
      case 2
      then show ?thesis using exec_cycle_body [OF exec(4)] cycle_append by (auto simp: well_formed_def)
    qed
  next
    case False
    then have "list_all plain_step (x # k)" using wf by (simp add: well_formed_def)
    then show ?thesis using exec_plain [OF exec(4)] cycle_start by (auto simp: well_formed_def)
  qed
  then show ?thesis using exec assms(2) by (auto dest!: set_update_subset_insert [THEN subsetD])
next
  case (env G)
  have "list_all plain_step (command_body cmd)" for cmd by (cases cmd) (simp_all add: cycle_defs Pilot_Stop_def)
  then show ?thesis using env(2,4) assms(2) by (auto simp: well_formed_def OnPodWaiting_def cycle_defs)
qed

lemma well_formed_reach: "preach (s, T) \<Longrightarrow> \<forall>k\<in>set T. well_formed k"
proof (induction rule: preach_induct)
  case (init maxIter timeout podStatus now s T)
  then show ?case by (auto simp: created_def Pilot_Start_def well_formed_def cycle_defs)
qed (rule well_formed_step)

lemma run_reach: "run_moves ms cf = Some cf' \<Longrightarrow> preach cf \<Longrightarrow> preach cf'"
  by (induction ms arbitrary: cf) (auto split: option.splits intro: preach.step)

lemma exec_stopped:
  "exec x c s = Some (s', k', G) \<Longrightarrow> ap_stopped s \<Longrightarrow>
   ap_stopped s' \<and> ap_runs s' = ap_runs s \<and> load is_done G = 0 \<and> (ap_cancelled s \<longrightarrow> ap_cancelled s') \<and> ap_wg s' \<le> ap_wg s"
  by (erule exec_cases; case_tac y; auto simp: op_defs body_defs is_done_def
      split: if_splits option.splits outcome.splits)

lemma stopped_step:
  assumes "apply_move m (s, T) = Some (s', T')" "ap_stopped s"
  shows "ap_stopped s' \<and> ap_runs s' = ap_runs s \<and> (ap_cancelled s \<longrightarrow> ap_cancelled s') \<and> ap_wg s' \<le> ap_wg s"
  using assms(1)
proof (cases rule: move_cases)
  case (exec i c x k k' G)
  then show ?thesis using exec_stopped [OF exec(4) assms(2)] by simp
qed (use assms(2) in \<open>simp add: kept_def\<close>)

lemma stopped_run:
  "run_moves ms (s, T) = Some (s', T') \<Longrightarrow> ap_stopped s \<Longrightarrow>
   ap_stopped s' \<and> ap_runs s' = ap_runs s \<and> (ap_cancelled s \<longrightarrow> ap_cancelled s') \<and> ap_wg s' \<le> ap_wg s"
proof (induction ms arbitrary: s T)
  case (Cons m ms)
  then obtain s1 T1 where m: "apply_move m (s, T) = Some (s1, T1)" "run_moves ms (s1, T1) = Some (s', T')"
    by (auto split: option.splits)
  then show ?case using Cons.IH [OF m(2)] stopped_step [OF m(1) Cons.prems(2)] by auto
qed simp

lemma no_cycles:
  assumes "preach (s, T)" "ap_wg s = 0"
  shows "\<forall>k\<in>set T. \<forall>x\<in>set k. \<not> cycle_step x"
proof
  fix k assume k: "k \<in> set T"
  have "weigh is_done k \<le> load is_done T" using k member_le_sum_list [of "weigh is_done k" "map (weigh is_done) T"]
    by (simp add: load_def)
  then have "weigh is_done k = 0" using wg_reach [OF assms(1)] assms(2) by simp
  then have "\<not> cycle k" by (auto simp: cycle_def is_done_def)
  then have "list_all plain_step k" using well_formed_reach [OF assms(1)] k by (auto simp: well_formed_def)
  then show "\<forall>x\<in>set k. \<not> cycle_step x" by (auto simp: list_all_iff plain_step_def)
qed

text \<open>C38. What Stop guarantees when its wait has ended: once the controller is stopped and the wait group is at zero, no
  goroutine talks to the control agent, and none will: whatever happens afterwards, no decision cycle is started.\<close>

theorem autopilot_stop_quiesces:
  assumes "preach (s, T)" "ap_stopped s" "ap_wg s = 0" "run_moves ms (s, T) = Some (s', T')"
  shows "ap_runs s' = ap_runs s \<and> ap_wg s' = 0 \<and> (\<forall>k\<in>set T'. \<forall>x\<in>set k. \<not> cycle_step x)"
proof -
  have "ap_wg s' = 0" "ap_runs s' = ap_runs s" using stopped_run [OF assms(4,2)] assms(3) by auto
  then show ?thesis using no_cycles [OF run_reach [OF assms(4,1)]] by simp
qed

end
