(* ===== verification/AutopilotRuns.thy ===== *)
theory AutopilotRuns
  imports AutopilotProps
begin

text \<open>
  How a stopped autopilot winds down, and runs that show limits of the code: overlapping decision cycles that fail the
  autopilot, a control agent that is not restarted, a takeover that does not hold, a pod whose turn is missed.
\<close>

subsection \<open>Winding down\<close>

text \<open>The steps that an instruction can still lead to when the context is cancelled.\<close>

primrec phase_work :: "phase_step \<Rightarrow> nat" where
  "phase_work (SetPhase p) = 4" | "phase_work (ReadIterations p) = 3" | "phase_work (ReadPodStatus p cur mx t) = 2"

primrec trigger_work :: "trigger_step \<Rightarrow> nat" where
  "trigger_work (Launch it) = 1" | "trigger_work Increment = 6" | "trigger_work CheckMax = 7" | "trigger_work CheckPhase = 8"
| "trigger_work CheckTakeover = 9" | "trigger_work DedupTrigger = 10"

primrec control_work :: "control_step \<Rightarrow> nat" where
  "control_work EnsureClient = 20" | "control_work StartClient = 19" | "control_work CheckIdle = 18" | "control_work ResetOutput = 17"
| "control_work CheckPrompt = 16" | "control_work WritePrompt = 15" | "control_work SelectDone = 14"
| "control_work (AwaitDone ch) = 13"

primrec decision_work :: "decision_step \<Rightarrow> nat" where
  "decision_work Attempt = 1" | "decision_work CollectOutput = 12" | "decision_work (DecisionError e) = 8"
| "decision_work CountError = 6" | "decision_work CheckWaiting = 4" | "decision_work BackOff = 3" | "decision_work (AwaitRetry t) = 2"
| "decision_work ClearErrors = 1" | "decision_work (TakeSnapshot d) = 10" | "decision_work (StoreDecision d) = 9"
| "decision_work (HandleDecision d) = 8"

primrec start_work :: "start_step \<Rightarrow> nat" where
  "start_work StartDetector = 2" | "start_work Subscribe = 1" | "start_work StartCheck = 5" | "start_work TouchTrigger = 1"
| "start_work SetInitial = 3"

primrec stop_work :: "stop_step \<Rightarrow> nat" where
  "stop_work StopOnce = 11" | "stop_work (SetPhaseQuietly p) = 1" | "stop_work StopDetector = 2" | "stop_work Unsubscribe = 1"
| "stop_work StopControl = 1" | "stop_work SetStopped = 1" | "stop_work CancelContext = 1" | "stop_work StartWait = 2"
| "stop_work (AwaitGroup t) = 1" | "stop_work StopReturn = 1"

primrec user_work :: "user_step \<Rightarrow> nat" where
  "user_work PauseCheck = 5" | "user_work ResumeCheck = 5" | "user_work TakeoverFlag = 6" | "user_work NotifyTakeover = 1"
| "user_work HandbackFlag = 20" | "user_work NotifyHandback = 1" | "user_work (ApproveCheck cont n) = 20"
| "user_work (AddMax n) = 1" | "user_work SpawnResume = 14" | "user_work ResumeDelay = 13" | "user_work (AwaitResume t) = 12"
| "user_work CheckResumed = 11"

primrec work :: "instr \<Rightarrow> nat" where
  "work (Trigger y) = trigger_work y" | "work (Phased y) = phase_work y" | "work (Send r) = 1"
| "work (Control it dl y) = control_work y" | "work (Decide it y) = decision_work y" | "work WgDone = 1"
| "work (Starting y) = start_work y" | "work (Stopping y) = stop_work y" | "work (User y) = user_work y"

lemma exec_work:
  "exec x c s = Some (s', k', G) \<Longrightarrow> ap_cancelled s \<Longrightarrow> ap_stopped s \<Longrightarrow> weigh work k' + load work G < work x"
  by (erule exec_cases; case_tac y; auto simp: op_defs body_defs
      split: if_splits option.splits outcome.splits DecisionType.splits)

text \<open>The context is cancelled only after \<open>stopped\<close> is set.\<close>

fun orderly :: "bool \<Rightarrow> goroutine \<Rightarrow> bool" where
  "orderly st [] = True"
| "orderly st (x # k) = (if x = Stopping CancelContext then st \<and> orderly st k else orderly (st \<or> x = Stopping SetStopped) k)"

lemma orderly_True: "orderly True k"
  by (induction k) auto

lemma orderly_mono: "orderly st k \<Longrightarrow> (st \<longrightarrow> st') \<Longrightarrow> orderly st' k"
  by (cases st'; cases st) (auto simp: orderly_True)

lemma exec_orderly:
  "exec x c s = Some (s', k', G) \<Longrightarrow> orderly (ap_stopped s) (x # k) \<Longrightarrow> (ap_cancelled s \<longrightarrow> ap_stopped s) \<Longrightarrow>
   orderly (ap_stopped s') (k' @ k) \<and> (\<forall>g\<in>set G. orderly (ap_stopped s') g) \<and> (ap_cancelled s' \<longrightarrow> ap_stopped s')
     \<and> (ap_stopped s \<longrightarrow> ap_stopped s')"
  by (erule exec_cases; case_tac y; auto simp: op_defs body_defs orderly_True
      split: if_splits option.splits outcome.splits DecisionType.splits)

lemma orderly_step:
  assumes "apply_move m (s, T) = Some (s', T')" "(\<forall>k\<in>set T. orderly (ap_stopped s) k) \<and> (ap_cancelled s \<longrightarrow> ap_stopped s)"
  shows "(\<forall>k\<in>set T'. orderly (ap_stopped s') k) \<and> (ap_cancelled s' \<longrightarrow> ap_stopped s')"
  using assms(1)
proof (cases rule: move_cases)
  case (exec i c x k k' G)
  then have "orderly (ap_stopped s) (x # k)" using assms(2) nth_mem by metis
  note * = exec_orderly [OF exec(4) this]
  have "orderly (ap_stopped s') k1" if "k1 \<in> set T" for k1 using that * assms(2) orderly_mono by blast
  then show ?thesis using exec * assms(2) by (auto dest!: set_update_subset_insert [THEN subsetD])
next
  case (env G)
  have "orderly st (command_body cmd)" for cmd st by (cases cmd) (simp_all add: Pilot_Stop_def)
  then show ?thesis using env assms(2) by (auto simp: kept_def OnPodWaiting_def)
qed

lemma cancelled_stopped: "preach (s, T) \<Longrightarrow> ap_cancelled s \<Longrightarrow> ap_stopped s"
proof -
  assume "preach (s, T)"
  then have "(\<forall>k\<in>set T. orderly (ap_stopped s) k) \<and> (ap_cancelled s \<longrightarrow> ap_stopped s)"
  proof (induction rule: preach_induct)
    case (init maxIter timeout podStatus now s T)
    then show ?case by (auto simp: created_def Pilot_Start_def NewAutopilotController_def)
  qed (rule orderly_step)
  then show "ap_cancelled s \<Longrightarrow> ap_stopped s" by simp
qed

definition is_exec :: "move \<Rightarrow> bool" where "is_exec m \<longleftrightarrow> (\<exists>i c. m = Exec i c)"

definition wakes :: "move \<Rightarrow> bool" where "wakes m \<longleftrightarrow> (\<exists>cmd. m = Command cmd) \<or> (\<exists>st. m = PodNow st)"

lemma work_step:
  assumes "apply_move m (s, T) = Some (s', T')" "ap_cancelled s" "ap_stopped s" "\<not> wakes m"
  shows "load work T' + of_bool (is_exec m) \<le> load work T"
  using assms(1)
proof (cases rule: move_cases)
  case (exec i c x k k' G)
  then show ?thesis using exec_work [OF exec(4) assms(2,3)] load_exec [OF exec(2,3), of work k' G] by (simp add: is_exec_def)
next
  case (env G)
  then have "T' = T" using assms(1,4) by (cases m) (auto simp: wakes_def split: if_splits)
  then show ?thesis using env by (auto simp: is_exec_def)
qed

lemma work_run:
  "run_moves ms (s, T) = Some (s', T') \<Longrightarrow> ap_cancelled s \<Longrightarrow> ap_stopped s \<Longrightarrow> \<forall>m\<in>set ms. \<not> wakes m \<Longrightarrow>
   length (filter is_exec ms) + load work T' \<le> load work T"
proof (induction ms arbitrary: s T)
  case (Cons m ms)
  then obtain s1 T1 where m: "apply_move m (s, T) = Some (s1, T1)" "run_moves ms (s1, T1) = Some (s', T')"
    by (auto split: option.splits)
  have "ap_stopped s1" "ap_cancelled s1" using stopped_step [OF m(1)] Cons.prems by auto
  then show ?case using Cons.IH [OF m(2)] work_step [OF m(1)] Cons.prems by fastforce
qed simp

text \<open>In a cancelled context, a step of a decision cycle is never blocked.\<close>

lemma cycle_enabled:
  assumes "cycle (x # k)" "ap_cancelled s"
  shows "\<exists>c e. exec x c s = Some e"
proof -
  have "x = WgDone \<or> cycle_body x" using cycle_Cons [OF assms(1)] by blast
  then consider "x = WgDone" | y where "x = Send y" | y where "x = Phased y" | it dl y where "x = Control it dl y"
    | it y where "x = Decide it y" by (auto simp: cycle_defs)
  then show ?thesis
  proof cases
    case 1
    then show ?thesis by (auto intro!: exI [of _ Normally])
  next
    case 2
    then show ?thesis by (auto intro!: exI [of _ Normally])
  next
    case (3 y)
    then show ?thesis by (cases y) (auto intro!: exI [of _ Normally])
  next
    case (4 it dl y)
    show ?thesis
    proof (cases "\<exists>ch. y = AwaitDone ch")
      case True
      then show ?thesis using 4 assms(2) by (auto intro!: exI [of _ OnCancel])
    next
      case False
      then show ?thesis using 4 by (cases y) (auto intro!: exI [of _ Normally])
    qed
  next
    case (5 it y)
    show ?thesis
    proof (cases "\<exists>t. y = AwaitRetry t")
      case True
      then show ?thesis using 5 assms(2) by (auto intro!: exI [of _ OnCancel])
    next
      case False
      then show ?thesis using 5 by (cases y) (auto intro!: exI [of _ Normally] split: prod.split)
    qed
  qed
qed


subsection \<open>Runs\<close>

definition steps :: "nat \<Rightarrow> nat \<Rightarrow> move list" where
  "steps n i = replicate n (Exec i Normally)"

text \<open>Start with a waiting pod, and the first decision cycle up to its wait for the control agent.\<close>

definition first_cycle :: "move list" where
  "first_cycle = steps 12 0 @ steps 8 1"

text \<open>A turn of the pod that ends \<open>d\<close> milliseconds later.\<close>

definition pod_turn :: "nat \<Rightarrow> move list" where
  "pod_turn d = [PodNow ''executing'', Elapse d, PodNow ''waiting'']"

definition start_config :: config where
  "start_config = created 10 0 ''waiting'' 100000"

lemma start_reach: "preach start_config"
  unfolding start_config_def by (rule preach.init)

definition overlapping_cycles :: "move list" where
  "overlapping_cycles = first_cycle @ pod_turn 6000 @ steps 7 2 @ steps 8 3 @ [Elapse 2000, Exec 3 TimingOut] @ steps 8 3
     @ [Elapse 4000, Exec 3 TimingOut] @ steps 7 3"


text \<open>The control agent is not restarted after a crash in a cycle: its client stays in the state processing, which
  ensureClientRunning takes for running, so that every later attempt fails.\<close>

definition agent_crash :: "move list" where
  "agent_crash = first_cycle @ [AgentExit] @ steps 7 1 @ [Elapse 2000, Exec 1 TimingOut] @ steps 8 1
     @ [Elapse 4000, Exec 1 TimingOut] @ steps 7 1"

lemma agent_crash_fails_autopilot:
  "case run_moves agent_crash start_config of None \<Rightarrow> False
   | Some (s, T) \<Rightarrow> ap_phase s = PhaseFailed \<and> ap_ctlStarted s \<and> ap_client s = ClProcessing \<and> ap_podStatus s = ''waiting''"
  by code_simp

text \<open>A takeover between two checks of OnPodWaiting does not hold: CanProcessIteration allows the phase user_takeover.\<close>

definition takeover_race :: "move list" where
  "takeover_race = first_cycle @ pod_turn 6000 @ steps 2 2 @ [Command Takeover] @ steps 6 3 @ steps 5 2"

lemma takeover_race_starts_cycle:
  "case run_moves takeover_race start_config of None \<Rightarrow> False
   | Some (s, T) \<Rightarrow> ap_userTakeover s \<and> ap_phase s = PhaseUserTakeover \<and> ap_runs s = [1, 2] \<and> runSingleDecision 2 \<in> set T"
  by code_simp

text \<open>A turn of the pod that ends within five seconds of the last trigger is missed for good: nothing is left to run, the
  phase is running, the pod waits, and iterations are left.\<close>

definition a_decision :: "DecisionType \<Rightarrow> decision" where
  "a_decision d = \<lparr>dec_Type = d, dec_Summary = ''sent'', dec_FilesChanged = []\<rparr>"

definition quick_turn :: "move list" where
  "quick_turn = first_cycle @ [PodNow ''executing'', AgentSays (a_decision DecisionContinue), AgentIdle] @ steps 9 1
     @ [Elapse 4000, PodNow ''waiting''] @ steps 1 2"

lemma quick_turn_missed:
  "case run_moves quick_turn start_config of None \<Rightarrow> False
   | Some (s, T) \<Rightarrow> ap_phase s = PhaseRunning \<and> ap_podStatus s = ''waiting'' \<and> ap_currentIter s < ap_maxIterations s
       \<and> (\<forall>k\<in>set T. k = [])"
  by code_simp

text \<open>A pod in ACP mode that waits for a prompt has the status idle, for which Start sends no prompt.\<close>

lemma idle_pod_gets_no_prompt:
  "case run_moves (steps 8 0) (created 10 0 ''idle'' 0) of None \<Rightarrow> False
   | Some (s, T) \<Rightarrow> ap_phase s = PhaseRunning \<and> ap_runs s = [] \<and> (\<forall>k\<in>set T. k = [])"
  by code_simp

text \<open>A pod that starts to wait between the subscription and the check of Start has iteration 1 run twice.\<close>

definition double_start :: "move list" where
  "double_start = steps 3 0 @ [PodNow ''executing'', PodNow ''waiting''] @ steps 7 1 @ steps 5 0"

lemma double_start_repeats:
  "case run_moves double_start (created 10 0 ''executing'' 0) of None \<Rightarrow> False | Some (s, T) \<Rightarrow> ap_runs s = [1, 1]"
  by code_simp

text \<open>A decision that is being handled when Stop sets the phase overwrites it, and the end is reported twice.\<close>

definition first_decision :: "DecisionType \<Rightarrow> move list" where
  "first_decision d = first_cycle @ [AgentSays (a_decision d), AgentIdle]"

definition stop_race :: "move list" where
  "stop_race = first_decision DecisionCompleted @ steps 5 1 @ [Command Stop] @ steps 2 2 @ steps 9 1 @ steps 9 2"

lemma stop_race_overwrites:
  "case run_moves stop_race start_config of None \<Rightarrow> False
   | Some (s, T) \<Rightarrow> ap_stopped s \<and> ap_phase s = PhaseCompleted
       \<and> filter (\<lambda>r. r \<in> TerminatedEvent ` {''completed'', ''stopped''}) (ap_sent s)
          = [TerminatedEvent ''completed'', TerminatedEvent ''stopped'']"
  by code_simp

subsection \<open>Witnesses\<close>

lemma run_split: "run_moves (ms @ ms') cf = (case run_moves ms cf of None \<Rightarrow> None | Some cf' \<Rightarrow> run_moves ms' cf')"
  by (induction ms arbitrary: cf) (auto split: option.split)

definition after :: "move list \<Rightarrow> config" where
  "after ms = the (run_moves ms start_config)"

lemma after_run: "run_moves ms start_config \<noteq> None \<Longrightarrow> run_moves ms start_config = Some (after ms) \<and> preach (after ms)"
  using run_reach start_reach by (auto simp: after_def)

lemma first_cycle_runs: "run_moves first_cycle start_config \<noteq> None"
  by code_simp

theorem autopilot_iteration_quota_witness:
  "preach (after first_cycle) \<and> count_list (ap_runs (fst (after first_cycle))) 1 \<le> 2"
  using autopilot_iteration_quota [of "fst (after first_cycle)" "snd (after first_cycle)"] after_run [OF first_cycle_runs] by simp

definition taken_over :: "move list" where
  "taken_over = first_cycle @ [Command Takeover] @ steps 6 2"

lemma taken_over_runs: "run_moves taken_over start_config \<noteq> None" "ap_userTakeover (fst (after taken_over))"
  "\<forall>k\<in>set (snd (after taken_over)). list_all inert k"
  "run_moves (pod_turn 6000 @ steps 2 3) (after taken_over) \<noteq> None"
  by code_simp+


definition completed_run :: "move list" where
  "completed_run = first_decision DecisionCompleted @ steps 14 1"

lemma completed_runs: "IsTerminalPhase (ap_phase (fst (after completed_run)))" "\<forall>k\<in>set (snd (after completed_run)). list_all settled k"
  "run_moves (pod_turn 6000 @ steps 3 2) (after completed_run) \<noteq> None"
  by code_simp+

theorem autopilot_terminal_stays_witness:
  "\<exists>s' T'. run_moves (pod_turn 6000 @ steps 3 2) (after completed_run) = Some (s', T') \<and> IsTerminalPhase (ap_phase s')"
proof -
  obtain s' T' where *: "run_moves (pod_turn 6000 @ steps 3 2) (fst (after completed_run), snd (after completed_run)) = Some (s', T')"
    using completed_runs(3) by (cases "run_moves (pod_turn 6000 @ steps 3 2) (after completed_run)") auto
  have "Command Handback \<notin> set (pod_turn 6000 @ steps 3 2)" "Command Takeover \<notin> set (pod_turn 6000 @ steps 3 2)"
    by (simp_all add: pod_turn_def steps_def)
  then show ?thesis using autopilot_terminal_stays [OF * completed_runs(1,2)] * by auto
qed

definition stopping :: "move list" where
  "stopping = first_cycle @ [Command Stop] @ steps 8 2"

definition stopped_run_moves :: "move list" where
  "stopped_run_moves = stopping @ [Exec 1 OnCancel] @ steps 5 1 @ [Exec 1 OnCancel] @ steps 1 1"

lemma stopping_runs: "run_moves stopping start_config \<noteq> None" "ap_cancelled (fst (after stopping))" "ap_wg (fst (after stopping)) \<noteq> 0"
  "run_moves stopped_run_moves start_config \<noteq> None" "ap_stopped (fst (after stopped_run_moves))"
  "ap_wg (fst (after stopped_run_moves)) = 0" "run_moves (pod_turn 6000) (after stopped_run_moves) \<noteq> None"
  by code_simp+


theorem autopilot_stop_quiesces_witness:
  "\<exists>s' T'. run_moves (pod_turn 6000) (after stopped_run_moves) = Some (s', T') \<and> ap_wg s' = 0"
proof -
  obtain s' T' where *: "run_moves (pod_turn 6000) (fst (after stopped_run_moves), snd (after stopped_run_moves)) = Some (s', T')"
    using stopping_runs(7) by (cases "run_moves (pod_turn 6000) (after stopped_run_moves)") auto
  have "preach (fst (after stopped_run_moves), snd (after stopped_run_moves))" using after_run [OF stopping_runs(4)] by simp
  then show ?thesis using autopilot_stop_quiesces [OF _ stopping_runs(5,6) *] * by auto
qed

end
