(* ===== verification/WorkflowRuns.thy ===== *)
theory WorkflowRuns
  imports Prelude
begin

text \<open>
  Workflow runs of the backend: the tables with the statements that the repositories run on them
  (backend/internal/infra/workflow_*.go, agentpod_repo_query.go), and the orchestrator that triggers, starts, finishes and watches runs
  (backend/internal/service/workflow). A function here is one statement or one handler; \<open>WorkflowSteps\<close> lets the
  statements of several handlers interleave. The database behaves as its statements say, and no statement
  fails. Rows refer to each other by key; a JSON column holds the value that it encodes. Times are in seconds.
\<close>

subsection \<open>Statuses (domain/agentpod, domain/workflow)\<close>

definition ActiveStatuses :: "str list" where
  "ActiveStatuses = [''queued'', ''initializing'', ''running'', ''paused'', ''disconnected'']"

definition IsAutopilotPhaseTerminal :: "str \<Rightarrow> bool" where
  "IsAutopilotPhaseTerminal p \<longleftrightarrow> p = ''completed'' \<or> p = ''failed'' \<or> p = ''stopped'' \<or> p = ''max_iterations''"

definition isPodDoneForLoop :: "str \<Rightarrow> bool" where
  "isPodDoneForLoop st \<longleftrightarrow> st = ''completed'' \<or> st = ''terminated'' \<or> st = ''error''"

definition deriveFromPodStatus :: "str \<Rightarrow> str" where
  "deriveFromPodStatus st =
     (if st = ''completed'' then ''completed'' else if st = ''terminated'' then ''cancelled''
      else if st = ''error'' then ''failed'' else ''failed'')"

definition DeriveRunStatus :: "str \<Rightarrow> str \<Rightarrow> str" where
  "DeriveRunStatus podStatus phase =
     (if phase \<noteq> [] then
        (if phase = ''completed'' then ''completed''
         else if phase = ''failed'' then ''failed''
         else if phase = ''stopped'' then ''cancelled''
         else if phase = ''max_iterations'' then ''completed''
         else if isPodDoneForLoop podStatus then deriveFromPodStatus podStatus
         else ''running'')
      else if isPodDoneForLoop podStatus then deriveFromPodStatus podStatus
      else ''running'')"

text \<open>The copy of the repositories.\<close>

definition isPodDone :: "str \<Rightarrow> bool" where
  "isPodDone st \<longleftrightarrow> st = ''completed'' \<or> st = ''terminated'' \<or> st = ''error''"

definition podToRunStatus :: "str \<Rightarrow> str" where
  "podToRunStatus st =
     (if st = ''completed'' then ''completed'' else if st = ''terminated'' then ''cancelled''
      else if st = ''error'' then ''failed'' else ''failed'')"

definition deriveWorkflowRunStatus :: "str \<Rightarrow> str \<Rightarrow> str" where
  "deriveWorkflowRunStatus podStatus phase =
     (if phase \<noteq> [] then
        (if phase = ''completed'' \<or> phase = ''max_iterations'' then ''completed''
         else if phase = ''failed'' then ''failed''
         else if phase = ''stopped'' then ''cancelled''
         else if isPodDone podStatus then podToRunStatus podStatus else ''running'')
      else if isPodDone podStatus then podToRunStatus podStatus
      else ''running'')"

lemma deriveWorkflowRunStatus_same: "deriveWorkflowRunStatus = DeriveRunStatus"
  by (intro ext) (simp add: deriveWorkflowRunStatus_def DeriveRunStatus_def isPodDone_def isPodDoneForLoop_def
      podToRunStatus_def deriveFromPodStatus_def)

subsection \<open>Rows\<close>

record autopilot_config =
  cfg_MaxIterations :: int
  cfg_IterationTimeoutSec :: int
  cfg_NoProgressThreshold :: int
  cfg_SameErrorThreshold :: int
  cfg_ApprovalTimeoutMin :: int

record manifest =
  mf_Version :: int
  mf_OrganizationID :: int
  mf_WorkflowName :: str
  mf_WorkflowSlug :: str
  mf_CreatedByID :: int
  mf_ExecutionMode :: str
  mf_Autopilot :: autopilot_config
  mf_SandboxStrategy :: str
  mf_SessionPersistence :: bool
  mf_SourcePodKey :: str
  mf_CallbackURL :: str
  mf_TicketID :: "int option"
  mf_MaxRetainedRuns :: int
  mf_TimeoutMinutes :: int
  mf_IdleTimeoutSeconds :: int

text \<open>\<open>wf_AutopilotConfig\<close> is what the JSON of the column decodes to, None when it does not.\<close>

record workflow =
  wf_OrganizationID :: int
  wf_Name :: str
  wf_Slug :: str
  wf_CreatedByID :: int
  wf_PromptTemplate :: str
  wf_PromptVariables :: "(str, str) gomap"
  wf_ExecutionMode :: str
  wf_AutopilotConfig :: "autopilot_config option"
  wf_SandboxStrategy :: str
  wf_SessionPersistence :: bool
  wf_CallbackURL :: "str option"
  wf_TicketID :: "int option"
  wf_Status :: str
  wf_ConcurrencyPolicy :: str
  wf_MaxConcurrentRuns :: int
  wf_MaxRetainedRuns :: int
  wf_TimeoutMinutes :: int
  wf_IdleTimeoutSec :: int
  wf_SandboxPath :: "str option"
  wf_LastPodKey :: "str option"
  wf_ResourceID :: "int option"
  wf_ResourceRevision :: "int option"
  wf_SnapshotID :: "int option"
  wf_TotalRuns :: int
  wf_SuccessfulRuns :: int
  wf_FailedRuns :: int
  wf_LastRunAt :: "nat option"

record run =
  run_ID :: int
  run_OrganizationID :: int
  run_WorkflowID :: int
  run_Number :: int
  run_Status :: str
  run_PodKey :: "str option"
  run_AutopilotKey :: "str option"
  run_TriggerType :: str
  run_TriggerSource :: str
  run_ResolvedPrompt :: "str option"
  run_Manifest :: "manifest option"
  run_ResourceID :: "int option"
  run_ResourceRevision :: "int option"
  run_SnapshotID :: "int option"
  run_StartedAt :: "nat option"
  run_FinishedAt :: "nat option"
  run_DurationSec :: "int option"
  run_ErrorMessage :: "str option"
  run_CreatedAt :: nat

record pod =
  pod_Status :: str
  pod_AgentStatus :: str
  pod_WaitingSince :: "nat option"
  pod_LastActivity :: "nat option"
  pod_StartedAt :: "nat option"
  pod_FinishedAt :: "nat option"

record controller =
  ctl_Phase :: str
  ctl_CurrentIteration :: int
  ctl_MaxIterations :: int
  ctl_UserTakeover :: bool
  ctl_StartedAt :: "nat option"
  ctl_LastIterationAt :: "nat option"
  ctl_CompletedAt :: "nat option"
  ctl_ApprovalRequestAt :: "nat option"

record db =
  db_workflows :: "(int, workflow) gomap"
  db_runs :: "run list"
  db_nextRun :: int
  db_pods :: "(str, pod) gomap"
  db_controllers :: "(str, controller) gomap"

definition IsTerminal :: "run \<Rightarrow> bool" where
  "IsTerminal r \<longleftrightarrow> run_Status r \<in> {''completed'', ''failed'', ''timeout'', ''cancelled'', ''skipped''}"

definition positive :: "int option \<Rightarrow> bool" where
  "positive x = (case x of None \<Rightarrow> False | Some i \<Rightarrow> i > 0)"

definition HasCompleteResourceBinding :: "workflow \<Rightarrow> bool" where
  "HasCompleteResourceBinding w \<longleftrightarrow> positive (wf_ResourceID w) \<and> positive (wf_ResourceRevision w) \<and> positive (wf_SnapshotID w)"

subsection \<open>The pinned manifest (workflow_run_execution_manifest.go) and the prompt (prompt_resolution.go)\<close>

datatype run_error = NotFound | WorkflowDisabled | ResourceRequired | ManifestRequired | ManifestCorrupt | BindingCorrupt

definition manifest_valid :: "manifest \<Rightarrow> bool" where
  "manifest_valid m \<longleftrightarrow>
     mf_Version m = 1 \<and> mf_OrganizationID m > 0 \<and> mf_WorkflowName m \<noteq> [] \<and> mf_WorkflowSlug m \<noteq> [] \<and> mf_CreatedByID m > 0
     \<and> mf_MaxRetainedRuns m \<ge> 0 \<and> mf_TimeoutMinutes m > 0 \<and> mf_IdleTimeoutSeconds m \<ge> 0
     \<and> (mf_ExecutionMode m = ''direct'' \<or> mf_ExecutionMode m = ''autopilot'')
     \<and> (mf_SandboxStrategy m = ''fresh'' \<or> mf_SandboxStrategy m = ''persistent'')
     \<and> \<not> (mf_SandboxStrategy m = ''fresh'' \<and> (mf_SessionPersistence m \<or> mf_SourcePodKey m \<noteq> []))
     \<and> (case mf_TicketID m of None \<Rightarrow> True | Some t \<Rightarrow> t > 0)"

definition PinWorkflowRunExecutionManifest :: "workflow \<Rightarrow> run_error + manifest" where
  "PinWorkflowRunExecutionManifest w =
     (case wf_AutopilotConfig w of None \<Rightarrow> Inl ManifestCorrupt
      | Some cfg \<Rightarrow>
          let m = \<lparr>mf_Version = 1, mf_OrganizationID = wf_OrganizationID w, mf_WorkflowName = wf_Name w, mf_WorkflowSlug = wf_Slug w,
                   mf_CreatedByID = wf_CreatedByID w, mf_ExecutionMode = wf_ExecutionMode w, mf_Autopilot = cfg,
                   mf_SandboxStrategy = wf_SandboxStrategy w, mf_SessionPersistence = wf_SessionPersistence w,
                   mf_SourcePodKey = (case wf_LastPodKey w of
                       Some k \<Rightarrow> if wf_SandboxStrategy w = ''persistent'' then k else [] | None \<Rightarrow> []),
                   mf_CallbackURL = (case wf_CallbackURL w of None \<Rightarrow> [] | Some u \<Rightarrow> u), mf_TicketID = wf_TicketID w,
                   mf_MaxRetainedRuns = wf_MaxRetainedRuns w, mf_TimeoutMinutes = wf_TimeoutMinutes w,
                   mf_IdleTimeoutSeconds = wf_IdleTimeoutSec w\<rparr>
          in if manifest_valid m then Inr m else Inl ManifestCorrupt)"

definition PinnedExecution :: "run \<Rightarrow> run_error + manifest" where
  "PinnedExecution r =
     (case run_Manifest r of None \<Rightarrow> Inl ManifestRequired
      | Some m \<Rightarrow> if manifest_valid m then Inr m else Inl ManifestCorrupt)"

text \<open>The variables are what their JSON decodes to, with the values as they are printed (no variables, when it does not); \<open>order\<close> is
  the order in which the loop visits the map.\<close>

type_synonym loop_order = "(str \<times> str) list \<Rightarrow> (str \<times> str) list"

definition ResolvePrompt :: "loop_order \<Rightarrow> str \<Rightarrow> (str, str) gomap \<Rightarrow> (str, str) gomap \<Rightarrow> str" where
  "ResolvePrompt order template defaults overrides =
     fold (\<lambda>(key, value) resolved. strings_replace_all resolved (''{{'' @ key @ ''}}'') value) (order (gm_set_all defaults overrides)) template"

text \<open>A value that contains a placeholder makes the prompt depend on the order of the map.\<close>

lemma ResolvePrompt_order:
  "ResolvePrompt (\<lambda>xs. xs) ''Fix {{a}}'' [(''a'', ''{{b}}'')] [(''b'', ''it'')] = ''Fix it''"
  "ResolvePrompt rev ''Fix {{a}}'' [(''a'', ''{{b}}'')] [(''b'', ''it'')] = ''Fix {{b}}''"
  by code_simp+

subsection \<open>Statements on the tables (infra/workflow_run_repo*.go, workflow_repo*.go)\<close>

definition find_run :: "(run \<Rightarrow> bool) \<Rightarrow> db \<Rightarrow> run option" where
  "find_run p d = find p (db_runs d)"

definition get_run :: "int \<Rightarrow> db \<Rightarrow> run option" where
  "get_run rid d = find_run (\<lambda>r. run_ID r = rid) d"

definition update_runs :: "(run \<Rightarrow> bool) \<Rightarrow> (run \<Rightarrow> run) \<Rightarrow> db \<Rightarrow> db" where
  "update_runs p f d = d\<lparr>db_runs := map (\<lambda>r. if p r then f r else r) (db_runs d)\<rparr>"

definition update_workflow :: "int \<Rightarrow> (workflow \<Rightarrow> workflow) \<Rightarrow> db \<Rightarrow> db" where
  "update_workflow wid f d =
     (case gm_get (db_workflows d) wid of None \<Rightarrow> d
      | Some w \<Rightarrow> d\<lparr>db_workflows := gm_set wid (f w) (db_workflows d)\<rparr>)"

definition active_run :: "db \<Rightarrow> run \<Rightarrow> bool" where
  "active_run d r =
     (case run_PodKey r of
        None \<Rightarrow> run_Status r = ''pending''
      | Some k \<Rightarrow> (case gm_get (db_pods d) k of None \<Rightarrow> False | Some p \<Rightarrow> pod_Status p \<in> set ActiveStatuses))"

definition CountActiveRuns :: "int \<Rightarrow> db \<Rightarrow> nat" where
  "CountActiveRuns wid d = length (filter (\<lambda>r. run_WorkflowID r = wid \<and> active_run d r) (db_runs d))"

definition GetMaxRunNumber :: "int \<Rightarrow> db \<Rightarrow> int" where
  "GetMaxRunNumber wid d = fold max (map run_Number (filter (\<lambda>r. run_WorkflowID r = wid) (db_runs d))) 0"

text \<open>What both branches of TriggerRunAtomic write.\<close>

definition new_run :: "int \<Rightarrow> workflow \<Rightarrow> str \<Rightarrow> str \<Rightarrow> str \<Rightarrow> manifest \<Rightarrow> nat \<Rightarrow> db \<Rightarrow> run" where
  "new_run wid w triggerType triggerSource prompt m now d =
     \<lparr>run_ID = db_nextRun d, run_OrganizationID = wf_OrganizationID w, run_WorkflowID = wid, run_Number = GetMaxRunNumber wid d + 1,
      run_Status = ''pending'', run_PodKey = None, run_AutopilotKey = None, run_TriggerType = triggerType,
      run_TriggerSource = triggerSource, run_ResolvedPrompt = Some prompt, run_Manifest = Some m, run_ResourceID = wf_ResourceID w,
      run_ResourceRevision = wf_ResourceRevision w, run_SnapshotID = wf_SnapshotID w, run_StartedAt = Some now,
      run_FinishedAt = None, run_DurationSec = None, run_ErrorMessage = None, run_CreatedAt = now\<rparr>"

definition create_run :: "run \<Rightarrow> db \<Rightarrow> db" where
  "create_run r d = d\<lparr>db_runs := db_runs d @ [r], db_nextRun := db_nextRun d + 1\<rparr>"

definition handleConcurrencyPolicy :: "workflow \<Rightarrow> run \<Rightarrow> nat \<Rightarrow> db \<Rightarrow> db \<times> run \<times> bool \<times> str" where
  "handleConcurrencyPolicy w r now d =
     (let skipped = r\<lparr>run_Status := ''skipped'', run_StartedAt := None, run_FinishedAt := Some now\<rparr>
      in (create_run skipped d, skipped, True,
          if wf_ConcurrencyPolicy w = ''queue'' then ''queued (not yet implemented)''
          else if wf_ConcurrencyPolicy w = ''replace'' then ''replace (not yet implemented)''
          else ''max concurrent runs reached''))"

text \<open>What a trigger brings for the prompt: the overriding variables, and the order of the visit.\<close>

type_synonym trigger_params = "(str, str) gomap \<times> loop_order"

definition TriggerRunAtomic :: "int \<Rightarrow> str \<Rightarrow> str \<Rightarrow> trigger_params \<Rightarrow> nat \<Rightarrow> db \<Rightarrow> run_error + (db \<times> run \<times> bool \<times> str)" where
  "TriggerRunAtomic wid triggerType triggerSource params now d =
     (case gm_get (db_workflows d) wid of None \<Rightarrow> Inl NotFound
      | Some w \<Rightarrow>
          if wf_Status w \<noteq> ''enabled'' then Inl WorkflowDisabled
          else if \<not> HasCompleteResourceBinding w then Inl ResourceRequired
          else case PinWorkflowRunExecutionManifest w of Inl e \<Rightarrow> Inl e
            | Inr m \<Rightarrow>
                let r = new_run wid w triggerType triggerSource
                      (ResolvePrompt (snd params) (wf_PromptTemplate w) (wf_PromptVariables w) (fst params)) m now d
                in if int (CountActiveRuns wid d) \<ge> wf_MaxConcurrentRuns w then Inr (handleConcurrencyPolicy w r now d)
                   else Inr (create_run r d, r, False, []))"

definition BindPod :: "int \<Rightarrow> str \<Rightarrow> str \<Rightarrow> db \<Rightarrow> db \<times> bool" where
  "BindPod rid podKey autopilotKey d =
     (let p = (\<lambda>r. run_ID r = rid \<and> run_FinishedAt r = None \<and> run_PodKey r = None)
      in (update_runs p (\<lambda>r. r\<lparr>run_PodKey := Some podKey,
              run_AutopilotKey := if autopilotKey \<noteq> [] then Some autopilotKey else run_AutopilotKey r\<rparr>) d,
          find_run p d \<noteq> None))"

definition FinishRun :: "int \<Rightarrow> (run \<Rightarrow> run) \<Rightarrow> db \<Rightarrow> db \<times> bool" where
  "FinishRun rid f d =
     (let p = (\<lambda>r. run_ID r = rid \<and> run_FinishedAt r = None) in (update_runs p f d, find_run p d \<noteq> None))"

definition set_autopilot_key :: "int \<Rightarrow> str \<Rightarrow> db \<Rightarrow> db" where
  "set_autopilot_key rid key d = update_runs (\<lambda>r. run_ID r = rid) (\<lambda>r. r\<lparr>run_AutopilotKey := Some key\<rparr>) d"

definition count_run :: "str \<Rightarrow> nat \<Rightarrow> workflow \<Rightarrow> workflow" where
  "count_run status now w = w\<lparr>wf_TotalRuns := wf_TotalRuns w + 1, wf_LastRunAt := Some now,
     wf_SuccessfulRuns := wf_SuccessfulRuns w + (if status = ''completed'' then 1 else 0),
     wf_FailedRuns := wf_FailedRuns w + (if status \<in> {''failed'', ''timeout'', ''cancelled''} then 1 else 0)\<rparr>"

definition IncrementRunStats :: "int \<Rightarrow> str \<Rightarrow> nat \<Rightarrow> db \<Rightarrow> db" where
  "IncrementRunStats wid status now d = update_workflow wid (count_run status now) d"

text \<open>The ids of the finished runs of a workflow that DeleteOldFinishedRuns keeps: the \<open>keep\<close> largest.\<close>

definition retained :: "int \<Rightarrow> nat \<Rightarrow> db \<Rightarrow> int list" where
  "retained wid keep d =
     take keep (rev (sort (map run_ID (filter (\<lambda>r. run_WorkflowID r = wid \<and> run_FinishedAt r \<noteq> None) (db_runs d)))))"

definition DeleteOldFinishedRuns :: "int \<Rightarrow> int \<Rightarrow> db \<Rightarrow> db" where
  "DeleteOldFinishedRuns wid keep d =
     (if keep \<le> 0 then d
      else d\<lparr>db_runs := filter (\<lambda>r. \<not> (run_WorkflowID r = wid \<and> run_FinishedAt r \<noteq> None
                \<and> run_ID r \<notin> set (retained wid (nat keep) d))) (db_runs d)\<rparr>)"

definition UpdateForResourceRevision :: "int \<Rightarrow> int \<Rightarrow> (workflow \<Rightarrow> workflow) \<Rightarrow> db \<Rightarrow> db" where
  "UpdateForResourceRevision wid revision f d =
     update_workflow wid (\<lambda>w. if wf_ResourceRevision w = Some revision then f w else w) d"

definition GetActiveRunByPodKey :: "str \<Rightarrow> db \<Rightarrow> run option" where
  "GetActiveRunByPodKey key d = find_run (\<lambda>r. run_PodKey r = Some key \<and> run_FinishedAt r = None) d"

definition GetByAutopilotKey :: "str \<Rightarrow> db \<Rightarrow> run option" where
  "GetByAutopilotKey key d = find_run (\<lambda>r. run_AutopilotKey r = Some key \<and> run_FinishedAt r = None) d"

definition pod_of :: "db \<Rightarrow> run \<Rightarrow> pod option" where
  "pod_of d r = (case run_PodKey r of None \<Rightarrow> None | Some k \<Rightarrow> gm_get (db_pods d) k)"

definition GetAutopilotPhase :: "str \<Rightarrow> db \<Rightarrow> str" where
  "GetAutopilotPhase key d = (case gm_get (db_controllers d) key of None \<Rightarrow> [] | Some c \<Rightarrow> ctl_Phase c)"

text \<open>The organizations that the instance serves; none means all.\<close>

definition in_orgs :: "int list \<Rightarrow> run \<Rightarrow> bool" where
  "in_orgs orgs r \<longleftrightarrow> orgs = [] \<or> run_OrganizationID r \<in> set orgs"

definition GetTimedOutRuns :: "int list \<Rightarrow> nat \<Rightarrow> db \<Rightarrow> run list" where
  "GetTimedOutRuns orgs now d = filter (\<lambda>r. in_orgs orgs r \<and> run_FinishedAt r = None \<and>
     (case (pod_of d r, run_Manifest r, run_StartedAt r) of
        (Some p, Some m, Some t) \<Rightarrow> pod_Status p \<in> {''initializing'', ''running'', ''paused''}
           \<and> int t < int now - 60 * mf_TimeoutMinutes m
      | _ \<Rightarrow> False)) (db_runs d)"

definition GetOrphanPendingRuns :: "int list \<Rightarrow> nat \<Rightarrow> db \<Rightarrow> run list" where
  "GetOrphanPendingRuns orgs now d = filter (\<lambda>r. in_orgs orgs r \<and> run_PodKey r = None \<and> run_Status r = ''pending'' \<and> run_FinishedAt r = None
     \<and> run_CreatedAt r + 300 < now) (db_runs d)"

definition GetIdleWorkflowPods :: "int list \<Rightarrow> nat \<Rightarrow> db \<Rightarrow> run list" where
  "GetIdleWorkflowPods orgs now d = filter (\<lambda>r. in_orgs orgs r \<and> run_FinishedAt r = None \<and>
     (case (pod_of d r, run_Manifest r) of
        (Some p, Some m) \<Rightarrow> pod_Status p = ''running'' \<and> pod_AgentStatus p = ''waiting'' \<and> mf_IdleTimeoutSeconds m > 0
          \<and> (case pod_WaitingSince p of None \<Rightarrow> False | Some t \<Rightarrow> int t < int now - mf_IdleTimeoutSeconds m)
      | _ \<Rightarrow> False)) (db_runs d)"

text \<open>ComputeLoopStats: the finished runs by their status, the others by what their pod and autopilot give.\<close>

definition effective_status :: "db \<Rightarrow> run \<Rightarrow> str" where
  "effective_status d r =
     (case run_PodKey r of None \<Rightarrow> run_Status r
      | Some k \<Rightarrow> deriveWorkflowRunStatus (case gm_get (db_pods d) k of None \<Rightarrow> [] | Some p \<Rightarrow> pod_Status p)
                    (case run_AutopilotKey r of None \<Rightarrow> [] | Some a \<Rightarrow> GetAutopilotPhase a d))"

definition count_status :: "(run \<Rightarrow> str) \<Rightarrow> run list \<Rightarrow> int \<times> int \<times> int" where
  "count_status f rs = (int (length rs), int (length (filter (\<lambda>r. f r = ''completed'') rs)),
     int (length (filter (\<lambda>r. f r \<in> {''failed'', ''timeout'', ''cancelled''}) rs)))"

definition finished_stats :: "int \<Rightarrow> db \<Rightarrow> int \<times> int \<times> int" where
  "finished_stats wid d =
     count_status run_Status (filter (\<lambda>r. run_WorkflowID r = wid \<and> run_FinishedAt r \<noteq> None) (db_runs d))"

definition resolveActiveRunStats :: "int \<Rightarrow> db \<Rightarrow> int \<times> int \<times> int" where
  "resolveActiveRunStats wid d =
     count_status (effective_status d) (filter (\<lambda>r. run_WorkflowID r = wid \<and> run_FinishedAt r = None) (db_runs d))"

definition ComputeLoopStats :: "int \<Rightarrow> db \<Rightarrow> int \<times> int \<times> int" where
  "ComputeLoopStats wid d =
     (case finished_stats wid d of (t, sc, fl) \<Rightarrow> case resolveActiveRunStats wid d of (t', sc', fl') \<Rightarrow> (t + t', sc + sc', fl + fl'))"

subsection \<open>Reading a run (workflow_run_resolve.go, workflow_run_status_resolver.go)\<close>

definition ResolveRunStatus :: "run \<Rightarrow> str \<Rightarrow> str \<Rightarrow> nat option \<Rightarrow> run" where
  "ResolveRunStatus r podStatus phase podFinishedAt =
     (if run_PodKey r = None then r
      else let r = r\<lparr>run_Status := DeriveRunStatus podStatus phase\<rparr>
           in case podFinishedAt of None \<Rightarrow> r
              | Some t \<Rightarrow> r\<lparr>run_FinishedAt := Some t,
                  run_DurationSec := (case run_StartedAt r of None \<Rightarrow> run_DurationSec r | Some t0 \<Rightarrow> Some (int t - int t0))\<rparr>)"

definition resolveOneRunStatus :: "db \<Rightarrow> run \<Rightarrow> run" where
  "resolveOneRunStatus d r =
     (if run_PodKey r = None \<or> run_FinishedAt r \<noteq> None then r
      else case pod_of d r of None \<Rightarrow> r\<lparr>run_Status := ''failed''\<rparr>
        | Some p \<Rightarrow> ResolveRunStatus r (pod_Status p)
            (case run_AutopilotKey r of None \<Rightarrow> [] | Some a \<Rightarrow> GetAutopilotPhase a d) (pod_FinishedAt p))"

definition GetByID :: "int \<Rightarrow> db \<Rightarrow> run option" where
  "GetByID rid d = map_option (resolveOneRunStatus d) (get_run rid d)"

end
