(* ===== verification/WorkflowPods.thy ===== *)
theory WorkflowPods
  imports WorkflowRuns
begin

text \<open>
  What changes the rows of pods and of autopilot controllers, and which events it raises: the pod coordinator of the backend
  (backend/internal/service/runner) with the statements of infra/agentpod_repo_query.go. Each function returns the database and
  the status changes that it notifies, which the event bus (cmd/server/eventbus_pod.go) hands to the orchestrator. The
  bookkeeping of runner slots, the router and the messages to the runner are left out.
\<close>

type_synonym notices = "(str \<times> str) list"

subsection \<open>Statements on the pods table (infra/agentpod_repo_query.go)\<close>

definition update_pod :: "(pod \<Rightarrow> bool) \<Rightarrow> str \<Rightarrow> (pod \<Rightarrow> pod) \<Rightarrow> db \<Rightarrow> db \<times> bool" where
  "update_pod guard key f d =
     (case gm_get (db_pods d) key of None \<Rightarrow> (d, False)
      | Some p \<Rightarrow> if guard p then (d\<lparr>db_pods := gm_set key (f p) (db_pods d)\<rparr>, True) else (d, False))"

definition UpdateByKey :: "str \<Rightarrow> (pod \<Rightarrow> pod) \<Rightarrow> db \<Rightarrow> db" where
  "UpdateByKey key f d = fst (update_pod (\<lambda>p. True) key f d)"

definition UpdateByKeyAndStatusCounted :: "str \<Rightarrow> str \<Rightarrow> (pod \<Rightarrow> pod) \<Rightarrow> db \<Rightarrow> db \<times> bool" where
  "UpdateByKeyAndStatusCounted key st f d = update_pod (\<lambda>p. pod_Status p = st) key f d"

definition UpdateByKeyAndActiveStatus :: "str \<Rightarrow> (pod \<Rightarrow> pod) \<Rightarrow> db \<Rightarrow> db \<times> bool" where
  "UpdateByKeyAndActiveStatus key f d = update_pod (\<lambda>p. pod_Status p \<in> set ActiveStatuses) key f d"

definition stale :: "str list \<Rightarrow> nat \<Rightarrow> bool \<Rightarrow> pod \<Rightarrow> bool" where
  "stale statuses threshold or_never p \<longleftrightarrow> pod_Status p \<in> set statuses \<and>
     (case pod_LastActivity p of None \<Rightarrow> or_never | Some t \<Rightarrow> t < threshold)"

definition update_all_pods :: "(pod \<Rightarrow> bool) \<Rightarrow> (pod \<Rightarrow> pod) \<Rightarrow> db \<Rightarrow> db" where
  "update_all_pods guard f d = d\<lparr>db_pods := map (\<lambda>(k, p). (k, if guard p then f p else p)) (db_pods d)\<rparr>"

definition pod_keys :: "(pod \<Rightarrow> bool) \<Rightarrow> db \<Rightarrow> str list" where
  "pod_keys guard d = map fst (filter (\<lambda>(k, p). guard p) (db_pods d))"

subsection \<open>The coordinator (service/runner)\<close>

definition handlePodCreated :: "str \<Rightarrow> nat \<Rightarrow> db \<Rightarrow> db \<times> notices" where
  "handlePodCreated key now d =
     (UpdateByKey key (\<lambda>p. p\<lparr>pod_Status := ''running'', pod_StartedAt := Some now, pod_LastActivity := Some now\<rparr>) d,
      [(key, ''running'')])"

definition close_pod :: "str \<Rightarrow> nat \<Rightarrow> pod \<Rightarrow> pod" where
  "close_pod st now p = p\<lparr>pod_Status := st, pod_AgentStatus := ''idle'', pod_FinishedAt := Some now\<rparr>"

definition handlePodTerminated :: "str \<Rightarrow> str \<Rightarrow> str \<Rightarrow> nat \<Rightarrow> db \<Rightarrow> db \<times> notices" where
  "handlePodTerminated key status errorMessage now d =
     (let st = if status \<noteq> [] then status else if errorMessage \<noteq> [] then ''error'' else ''completed'';
          (d', affected) = UpdateByKeyAndActiveStatus key (close_pod st now) d
      in (d', if affected then [(key, st)] else []))"

definition isTerminalRuntimeError :: "str \<Rightarrow> bool" where
  "isTerminalRuntimeError errCode \<longleftrightarrow> errCode = ''ACP_PROMPT_FAILED'' \<or> errCode = ''ACP_TURN_STALLED''"

definition handlePodError :: "str \<Rightarrow> str \<Rightarrow> nat \<Rightarrow> db \<Rightarrow> db \<times> notices" where
  "handlePodError key errCode now d =
     (if key = [] then (d, [])
      else let (d', affected) = UpdateByKeyAndStatusCounted key ''initializing''
                 (\<lambda>p. p\<lparr>pod_Status := ''error'', pod_FinishedAt := Some now\<rparr>) d
           in if affected then (d', [(key, ''error'')])
              else if isTerminalRuntimeError errCode
              then let (d', affected) = UpdateByKeyAndActiveStatus key (close_pod ''error'' now) d
                   in (d', if affected then [(key, ''error'')] else [])
              else (d, []))"

datatype terminate_error = PodNotFound | ErrPodAlreadyTerminated

definition terminatePod :: "str \<Rightarrow> nat \<Rightarrow> db \<Rightarrow> terminate_error + (db \<times> notices)" where
  "terminatePod key now d =
     (case gm_get (db_pods d) key of None \<Rightarrow> Inl PodNotFound
      | Some p \<Rightarrow>
          if pod_Status p \<notin> set ActiveStatuses then Inl ErrPodAlreadyTerminated
          else let f = (\<lambda>p. p\<lparr>pod_Status := ''completed'', pod_FinishedAt := Some now\<rparr>);
                   (d', affected) = if pod_Status p = ''queued'' then UpdateByKeyAndStatusCounted key ''queued'' f d
                                    else UpdateByKeyAndActiveStatus key f d
               in if affected then Inr (d', [(key, ''completed'')]) else Inl ErrPodAlreadyTerminated)"

definition MarkDisconnected :: "str \<Rightarrow> db \<Rightarrow> db" where
  "MarkDisconnected key d = fst (update_pod (\<lambda>p. pod_Status p = ''running'') key (\<lambda>p. p\<lparr>pod_Status := ''disconnected''\<rparr>) d)"

definition MarkReconnected :: "str \<Rightarrow> nat \<Rightarrow> db \<Rightarrow> db" where
  "MarkReconnected key now d = fst (update_pod (\<lambda>p. pod_Status p = ''disconnected'') key
     (\<lambda>p. p\<lparr>pod_Status := ''running'', pod_LastActivity := Some now\<rparr>) d)"

definition recoverPodStatus :: "str \<Rightarrow> str \<Rightarrow> nat \<Rightarrow> db \<Rightarrow> db \<times> notices" where
  "recoverPodStatus key fromStatus now d =
     (let (d', affected) = UpdateByKeyAndStatusCounted key fromStatus
            (\<lambda>p. p\<lparr>pod_Status := ''running'', pod_LastActivity := Some now,
                  pod_FinishedAt := if fromStatus = ''orphaned'' then None else pod_FinishedAt p,
                  pod_StartedAt := if fromStatus = ''initializing'' then Some now else pod_StartedAt p\<rparr>) d
      in (d', if affected then [(key, ''running'')] else []))"

text \<open>What reconcile does for a pod that a heartbeat reports: an initializing pod is recovered when it has been reported often
  enough.\<close>

definition reconcile_reported :: "str \<Rightarrow> bool \<Rightarrow> nat \<Rightarrow> db \<Rightarrow> db \<times> notices" where
  "reconcile_reported key often now d =
     (case gm_get (db_pods d) key of None \<Rightarrow> (d, [])
      | Some p \<Rightarrow>
          let d = UpdateByKey key (\<lambda>p. p\<lparr>pod_LastActivity := Some now\<rparr>) d
          in if pod_Status p \<in> {''orphaned'', ''disconnected''} \<or> (pod_Status p = ''initializing'' \<and> often)
             then recoverPodStatus key (pod_Status p) now d else (d, []))"

text \<open>What reconcileMissingPods does for an active pod that has been missed often enough.\<close>

definition reconcile_missing :: "str \<Rightarrow> bool \<Rightarrow> nat \<Rightarrow> db \<Rightarrow> db \<times> notices" where
  "reconcile_missing key acp now d =
     (if acp then let (d', affected) = UpdateByKeyAndActiveStatus key (close_pod ''error'' now) d
                  in (d', if affected then [(key, ''error'')] else [])
      else (UpdateByKey key (\<lambda>p. p\<lparr>pod_Status := ''orphaned'', pod_FinishedAt := Some now\<rparr>) d, [(key, ''orphaned'')]))"

definition MarkStaleAsDisconnected :: "nat \<Rightarrow> db \<Rightarrow> db \<times> notices" where
  "MarkStaleAsDisconnected threshold d =
     (let g = stale [''initializing'', ''running''] threshold True
      in (update_all_pods g (\<lambda>p. p\<lparr>pod_Status := ''disconnected''\<rparr>) d, map (\<lambda>k. (k, ''disconnected'')) (pod_keys g d)))"

definition CleanupStaleTerminal :: "nat \<Rightarrow> nat \<Rightarrow> db \<Rightarrow> db \<times> notices" where
  "CleanupStaleTerminal threshold now d =
     (let g = stale [''disconnected'', ''orphaned''] threshold False
      in (update_all_pods g (\<lambda>p. p\<lparr>pod_Status := ''terminated'', pod_FinishedAt := Some now\<rparr>) d,
          map (\<lambda>k. (k, ''terminated'')) (pod_keys g d)))"

subsection \<open>Autopilot controllers (autopilot_status_handler.go)\<close>

definition update_controller :: "str \<Rightarrow> (controller \<Rightarrow> controller) \<Rightarrow> db \<Rightarrow> db" where
  "update_controller key f d =
     (case gm_get (db_controllers d) key of None \<Rightarrow> d
      | Some c \<Rightarrow> d\<lparr>db_controllers := gm_set key (f c) (db_controllers d)\<rparr>)"

text \<open>The callback looks the controller up before it publishes.\<close>

definition autopilot_notice :: "str \<Rightarrow> str \<Rightarrow> db \<Rightarrow> notices" where
  "autopilot_notice key phase d = (if gm_get (db_controllers d) key = None then [] else [(key, phase)])"

definition handleAutopilotControllerStatus :: "str \<Rightarrow> str \<Rightarrow> int \<Rightarrow> int \<Rightarrow> int \<Rightarrow> nat \<Rightarrow> db \<Rightarrow> db \<times> notices" where
  "handleAutopilotControllerStatus key phase iteration startedAt lastIterationAt now d =
     (let d' = update_controller key (\<lambda>c. c\<lparr>ctl_Phase := phase, ctl_CurrentIteration := iteration,
                 ctl_UserTakeover := (phase = ''user_takeover''),
                 ctl_LastIterationAt := (if lastIterationAt > 0 then Some (nat lastIterationAt) else ctl_LastIterationAt c),
                 ctl_StartedAt := (if startedAt > 0 then Some (nat startedAt) else ctl_StartedAt c),
                 ctl_CompletedAt := (if IsAutopilotPhaseTerminal phase then Some now else ctl_CompletedAt c),
                 ctl_ApprovalRequestAt := (if phase = ''waiting_approval'' then Some now else ctl_ApprovalRequestAt c)\<rparr>) d
      in (d', autopilot_notice key phase d'))"

definition handleAutopilotControllerCreated :: "str \<Rightarrow> nat \<Rightarrow> db \<Rightarrow> db \<times> notices" where
  "handleAutopilotControllerCreated key now d =
     (let d' = update_controller key (\<lambda>c. c\<lparr>ctl_Phase := ''running'', ctl_StartedAt := Some now\<rparr>) d
      in (d', autopilot_notice key ''running'' d'))"

definition terminated_phase :: "str \<Rightarrow> str" where
  "terminated_phase reason =
     (if reason = ''completed'' then ''completed'' else if reason = ''failed'' then ''failed''
      else if reason = ''max_iterations'' then ''max_iterations'' else ''stopped'')"

definition handleAutopilotControllerTerminated :: "str \<Rightarrow> str \<Rightarrow> nat \<Rightarrow> db \<Rightarrow> db \<times> notices" where
  "handleAutopilotControllerTerminated key reason now d =
     (let d' = update_controller key (\<lambda>c. c\<lparr>ctl_Phase := terminated_phase reason, ctl_CompletedAt := Some now\<rparr>) d
      in (d', autopilot_notice key (terminated_phase reason) d'))"

end
