(* ===== verification/WorkflowOrchestrator.thy ===== *)
theory WorkflowOrchestrator
  imports WorkflowPods
begin

text \<open>
  The orchestrator of workflow runs (backend/internal/service/workflow): triggering, starting, finishing and watching runs, the
  subscriptions through which the events of pods and autopilots reach it (cmd/server/eventbus_workflow.go), and cancelling a run
  (api/rest/v1/workflow_handler_runs.go). Published run events, the webhook, the ticket comment and the log are left out.
\<close>

subsection \<open>Finishing a run (workflow_orchestrator_completion.go, workflow_orchestrator_completion_effects.go)\<close>

definition finish_terminal :: "str \<Rightarrow> str \<Rightarrow> nat \<Rightarrow> run \<Rightarrow> run" where
  "finish_terminal status msg now r = r\<lparr>run_Status := status, run_FinishedAt := Some now, run_ErrorMessage := Some msg\<rparr>"

definition markRunTerminal :: "int \<Rightarrow> str \<Rightarrow> str \<Rightarrow> nat \<Rightarrow> db \<Rightarrow> db" where
  "markRunTerminal rid status msg now d =
     (let (d', updated) = FinishRun rid (finish_terminal status msg now) d
      in if \<not> updated then d'
         else case GetByID rid d' of None \<Rightarrow> d' | Some r \<Rightarrow> IncrementRunStats (run_WorkflowID r) status now d')"

definition MarkRunFailed :: "int \<Rightarrow> str \<Rightarrow> nat \<Rightarrow> db \<Rightarrow> db" where
  "MarkRunFailed rid msg now d = markRunTerminal rid ''failed'' msg now d"

definition MarkRunCancelled :: "int \<Rightarrow> str \<Rightarrow> nat \<Rightarrow> db \<Rightarrow> db" where
  "MarkRunCancelled rid reason now d = markRunTerminal rid ''cancelled'' reason now d"

definition finish_completed :: "run \<Rightarrow> str \<Rightarrow> nat \<Rightarrow> run \<Rightarrow> run" where
  "finish_completed seen status now r = r\<lparr>run_Status := status, run_FinishedAt := Some now,
     run_DurationSec := (case run_StartedAt seen of None \<Rightarrow> run_DurationSec r | Some t \<Rightarrow> Some (int now - int t))\<rparr>"

definition applyPersistentRuntimeState :: "run \<Rightarrow> str \<Rightarrow> int \<Rightarrow> db \<Rightarrow> db" where
  "applyPersistentRuntimeState r status revision d =
     (if status = ''completed'' then
        (case run_PodKey r of None \<Rightarrow> d
         | Some k \<Rightarrow> UpdateForResourceRevision (run_WorkflowID r) revision (\<lambda>w. w\<lparr>wf_LastPodKey := Some k\<rparr>) d)
      else if status = ''failed'' then
        UpdateForResourceRevision (run_WorkflowID r) revision (\<lambda>w. w\<lparr>wf_SandboxPath := None, wf_LastPodKey := None\<rparr>) d
      else d)"

definition applyRunCompletionEffects :: "run \<Rightarrow> str \<Rightarrow> manifest \<Rightarrow> db \<Rightarrow> db" where
  "applyRunCompletionEffects r status m d =
     (let d' = (case run_ResourceRevision r of
            Some revision \<Rightarrow> if run_PodKey r \<noteq> None \<and> mf_SandboxStrategy m = ''persistent''
                             then applyPersistentRuntimeState r status revision d else d
          | None \<Rightarrow> d)
      in DeleteOldFinishedRuns (run_WorkflowID r) (mf_MaxRetainedRuns m) d')"

text \<open>\<open>seen\<close> is the run as the caller has read it.\<close>

definition HandleRunCompleted :: "run \<Rightarrow> str \<Rightarrow> nat \<Rightarrow> db \<Rightarrow> db" where
  "HandleRunCompleted seen status now d =
     (let (d', updated) = FinishRun (run_ID seen) (finish_completed seen status now) d
      in if \<not> updated then d'
         else let d'' = IncrementRunStats (run_WorkflowID seen) status now d'
              in case PinnedExecution seen of Inl e \<Rightarrow> d'' | Inr m \<Rightarrow> applyRunCompletionEffects seen status m d'')"

subsection \<open>Events (workflow_orchestrator_events.go, eventbus_workflow.go)\<close>

definition HandlePodTerminated :: "str \<Rightarrow> str \<Rightarrow> nat \<Rightarrow> db \<Rightarrow> db" where
  "HandlePodTerminated key podStatus now d =
     (case GetActiveRunByPodKey key d of None \<Rightarrow> d
      | Some r \<Rightarrow>
          let phase = (case run_AutopilotKey r of None \<Rightarrow> [] | Some a \<Rightarrow> GetAutopilotPhase a d);
              status = DeriveRunStatus podStatus phase
          in if status = ''running'' then d else HandleRunCompleted r status now d)"

definition HandleAutopilotTerminated :: "str \<Rightarrow> str \<Rightarrow> nat \<Rightarrow> db \<Rightarrow> db" where
  "HandleAutopilotTerminated key phase now d =
     (if \<not> IsAutopilotPhaseTerminal phase then d
      else case GetByAutopilotKey key d of None \<Rightarrow> d
        | Some r \<Rightarrow> HandleRunCompleted r (DeriveRunStatus [] phase) now d)"

definition on_pod_event :: "nat \<Rightarrow> str \<times> str \<Rightarrow> db \<Rightarrow> db" where
  "on_pod_event now e d =
     (if snd e \<in> {''completed'', ''terminated'', ''error''} then HandlePodTerminated (fst e) (snd e) now d else d)"

definition on_autopilot_event :: "nat \<Rightarrow> str \<times> str \<Rightarrow> db \<Rightarrow> db" where
  "on_autopilot_event now e d =
     (if snd e \<in> {''completed'', ''failed'', ''stopped''} then HandleAutopilotTerminated (fst e) (snd e) now d else d)"

definition with_pod_events :: "nat \<Rightarrow> db \<times> notices \<Rightarrow> db" where
  "with_pod_events now dn = fold (on_pod_event now) (snd dn) (fst dn)"

definition with_autopilot_events :: "nat \<Rightarrow> db \<times> notices \<Rightarrow> db" where
  "with_autopilot_events now dn = fold (on_autopilot_event now) (snd dn) (fst dn)"

definition TerminatePod :: "str \<Rightarrow> nat \<Rightarrow> db \<Rightarrow> db" where
  "TerminatePod key now d = (case terminatePod key now d of Inl e \<Rightarrow> d | Inr dn \<Rightarrow> with_pod_events now dn)"

subsection \<open>Triggering and starting (workflow_orchestrator_trigger.go, workflow_orchestrator_start.go)\<close>

definition TriggerRun :: "int \<Rightarrow> str \<Rightarrow> str \<Rightarrow> trigger_params \<Rightarrow> nat \<Rightarrow> db \<Rightarrow> run_error + (db \<times> run \<times> bool \<times> str)" where
  "TriggerRun wid triggerType triggerSource params now d =
     (case TriggerRunAtomic wid triggerType triggerSource params now d of Inl e \<Rightarrow> Inl e
      | Inr (d', r, skipped, reason) \<Rightarrow>
          Inr (if skipped then IncrementRunStats wid ''skipped'' now d' else d', r, skipped, reason))"

definition validWorkflowRunResourceBinding :: "run \<Rightarrow> run_error + manifest" where
  "validWorkflowRunResourceBinding r =
     (if run_OrganizationID r \<le> 0 \<or> \<not> positive (run_ResourceID r) \<or> \<not> positive (run_ResourceRevision r)
         \<or> \<not> positive (run_SnapshotID r) \<or> run_ResolvedPrompt r = None then Inl BindingCorrupt
      else case PinnedExecution r of Inl e \<Rightarrow> Inl BindingCorrupt
        | Inr m \<Rightarrow> if mf_OrganizationID m \<noteq> run_OrganizationID r then Inl BindingCorrupt else Inr m)"

text \<open>The pod orchestrator and the autopilot service are outside this model: \<open>created\<close> is the key and the status of the pod that
  CreatePod has created, or its error, and \<open>autopilot\<close> likewise for CreateAndStart.\<close>

definition new_pod :: "str \<Rightarrow> pod" where
  "new_pod st = \<lparr>pod_Status = st, pod_AgentStatus = ''idle'', pod_WaitingSince = None, pod_LastActivity = None,
     pod_StartedAt = None, pod_FinishedAt = None\<rparr>"

definition insert_pod :: "str \<Rightarrow> str \<Rightarrow> db \<Rightarrow> db" where
  "insert_pod key st d = d\<lparr>db_pods := gm_set key (new_pod st) (db_pods d)\<rparr>"

definition new_controller :: "int \<Rightarrow> controller" where
  "new_controller maxIterations = \<lparr>ctl_Phase = ''initializing'', ctl_CurrentIteration = 0, ctl_MaxIterations = maxIterations,
     ctl_UserTakeover = False, ctl_StartedAt = None, ctl_LastIterationAt = None, ctl_CompletedAt = None,
     ctl_ApprovalRequestAt = None\<rparr>"

definition insert_controller :: "str \<Rightarrow> int \<Rightarrow> db \<Rightarrow> db" where
  "insert_controller key n d = d\<lparr>db_controllers := gm_set key (new_controller n) (db_controllers d)\<rparr>"

definition start_autopilot :: "int \<Rightarrow> str \<Rightarrow> manifest \<Rightarrow> str + str \<Rightarrow> nat \<Rightarrow> db \<Rightarrow> db" where
  "start_autopilot rid key m autopilot now d =
     (if mf_ExecutionMode m \<noteq> ''autopilot'' then d
      else case autopilot of
        Inl e \<Rightarrow> MarkRunFailed rid (''Autopilot creation failed: '' @ e) now (TerminatePod key now d)
      | Inr a \<Rightarrow> set_autopilot_key rid a (insert_controller a (if cfg_MaxIterations (mf_Autopilot m) = 0 then 10 else cfg_MaxIterations (mf_Autopilot m)) d))"

definition StartRun :: "int \<Rightarrow> str + str \<times> str \<Rightarrow> str + str \<Rightarrow> nat \<Rightarrow> db \<Rightarrow> db" where
  "StartRun rid created autopilot now d =
     (case GetByID rid d of None \<Rightarrow> d
      | Some r \<Rightarrow>
          if run_FinishedAt r \<noteq> None \<or> IsTerminal r then d
          else case validWorkflowRunResourceBinding r of
            Inl e \<Rightarrow> MarkRunFailed rid ''workflow orchestration resource binding is corrupt'' now d
          | Inr m \<Rightarrow> (case created of
              Inl e \<Rightarrow> MarkRunFailed rid (''Pod creation failed: '' @ e) now d
            | Inr (key, st) \<Rightarrow>
                let (d', bound) = BindPod rid key [] (insert_pod key st d)
                in if bound then start_autopilot rid key m autopilot now d' else TerminatePod key now d'))"

subsection \<open>Watching (workflow_orchestrator_monitoring.go) and cancelling (workflow_handler_runs.go)\<close>

definition end_with :: "str \<Rightarrow> nat \<Rightarrow> run \<Rightarrow> db \<Rightarrow> db" where
  "end_with status now r d =
     (let d' = HandleRunCompleted r status now d
      in case run_PodKey r of None \<Rightarrow> d' | Some k \<Rightarrow> TerminatePod k now d')"

definition CheckTimeoutRuns :: "int list \<Rightarrow> nat \<Rightarrow> db \<Rightarrow> db" where
  "CheckTimeoutRuns orgs now d = fold (end_with ''timeout'' now) (GetTimedOutRuns orgs now d) d"

definition CheckIdleLoopPods :: "int list \<Rightarrow> nat \<Rightarrow> db \<Rightarrow> db" where
  "CheckIdleLoopPods orgs now d = fold (end_with ''completed'' now) (GetIdleWorkflowPods orgs now d) d"

definition CleanupOrphanPendingRuns :: "int list \<Rightarrow> nat \<Rightarrow> db \<Rightarrow> db" where
  "CleanupOrphanPendingRuns orgs now d = fold (\<lambda>r. MarkRunFailed (run_ID r)
     ''Orphan pending run: Pod was never created (server restart or StartRun failure)'' now) (GetOrphanPendingRuns orgs now d) d"

datatype cancel_result = RunNotFound | RunAlreadyTerminal | TerminateFailed | RunCancelled

definition CancelRun :: "int \<Rightarrow> int \<Rightarrow> nat \<Rightarrow> db \<Rightarrow> db \<times> cancel_result" where
  "CancelRun wid rid now d =
     (case GetByID rid d of None \<Rightarrow> (d, RunNotFound)
      | Some r \<Rightarrow>
          if run_WorkflowID r \<noteq> wid then (d, RunNotFound)
          else if IsTerminal r then (d, RunAlreadyTerminal)
          else case run_PodKey r of
            None \<Rightarrow> (MarkRunCancelled rid ''Cancelled by user'' now d, RunCancelled)
          | Some k \<Rightarrow> (case terminatePod k now d of Inl e \<Rightarrow> (d, TerminateFailed)
                       | Inr dn \<Rightarrow> (with_pod_events now dn, RunCancelled)))"

definition RefreshLoopStats :: "int \<Rightarrow> db \<Rightarrow> db" where
  "RefreshLoopStats wid d =
     (case ComputeLoopStats wid d of (n, successful, failed) \<Rightarrow>
        update_workflow wid (\<lambda>w. w\<lparr>wf_TotalRuns := n, wf_SuccessfulRuns := successful, wf_FailedRuns := failed\<rparr>) d)"

end
