(* ===== verification/WorkflowSteps.thy ===== *)
theory WorkflowSteps
  imports WorkflowOrchestrator
begin

text \<open>
  The statements that the handlers of workflow runs send to the database, in any interleaving. Finishing a run is the statement of
  FinishRun, and whether a counter update follows is what FinishRun returns. \<open>owed\<close> holds the counter updates that a handler still has
  to make after it has finished a run or after a trigger was skipped (UpdateRunStats is a statement of its own); markRunTerminal reads
  the row again before it updates, which is a statement too, and when retention has deleted the row in between the update is never
  made: \<open>lost\<close> holds these. \<open>trimmed\<close> remembers the rows that retention has deleted. Edits of a workflow change all its columns but
  the counters. A pod key is new when its row is inserted, and a pod is bound by the one StartRun that has created it.
\<close>

datatype pod_stmt = PodCreated str nat | PodTerminated str str str nat | PodError str str nat | PodClosed str nat
  | PodDisconnected str | PodReconnected str nat | PodReported str bool nat | PodMissing str bool nat | PodsStale nat | PodsExpired nat nat

fun pod_handler :: "pod_stmt \<Rightarrow> db \<Rightarrow> db \<times> notices" where
  "pod_handler (PodCreated k now) d = handlePodCreated k now d"
| "pod_handler (PodTerminated k st msg now) d = handlePodTerminated k st msg now d"
| "pod_handler (PodError k errCode now) d = handlePodError k errCode now d"
| "pod_handler (PodClosed k now) d = (case terminatePod k now d of Inl e \<Rightarrow> (d, []) | Inr dn \<Rightarrow> dn)"
| "pod_handler (PodDisconnected k) d = (MarkDisconnected k d, [])"
| "pod_handler (PodReconnected k now) d = (MarkReconnected k now d, [])"
| "pod_handler (PodReported k often now) d = reconcile_reported k often now d"
| "pod_handler (PodMissing k acp now) d = reconcile_missing k acp now d"
| "pod_handler (PodsStale t) d = MarkStaleAsDisconnected t d"
| "pod_handler (PodsExpired t now) d = CleanupStaleTerminal t now d"

definition exec_pod :: "pod_stmt \<Rightarrow> db \<Rightarrow> db" where
  "exec_pod p d = fst (pod_handler p d)"

lemma exec_pod_simps [simp]:
  "exec_pod (PodCreated k now) d = fst (handlePodCreated k now d)"
  "exec_pod (PodTerminated k st msg now) d = fst (handlePodTerminated k st msg now d)"
  "exec_pod (PodError k errCode now) d = fst (handlePodError k errCode now d)"
  "exec_pod (PodClosed k now) d = (case terminatePod k now d of Inl e \<Rightarrow> d | Inr dn \<Rightarrow> fst dn)"
  "exec_pod (PodDisconnected k) d = MarkDisconnected k d"
  "exec_pod (PodReconnected k now) d = MarkReconnected k now d"
  "exec_pod (PodReported k often now) d = fst (reconcile_reported k often now d)"
  "exec_pod (PodMissing k acp now) d = fst (reconcile_missing k acp now d)"
  "exec_pod (PodsStale t) d = fst (MarkStaleAsDisconnected t d)"
  "exec_pod (PodsExpired t now) d = fst (CleanupStaleTerminal t now d)"
  by (simp_all add: exec_pod_def split: sum.split)

datatype sql_stmt = STrigger int str str trigger_params nat
  | SInsertPod str str
  | SBind int str str
  | SComplete int "nat option" str nat
  | STerminal int str str nat
  | SReread nat
  | SStats nat
  | SKey int str
  | SRuntime int int "str option"
  | STrim int int
  | SEdit int workflow
  | SPod pod_stmt
  | SController str controller

text \<open>An update that is owed: the number of the run when its row has to be read again first, the workflow, the status and the time.\<close>

type_synonym debt = "int option \<times> int \<times> str \<times> nat"

record sys =
  the_db :: db
  owed :: "debt list"
  lost :: "debt list"
  trimmed :: "run list"

definition finish_stmt :: "bool \<Rightarrow> int \<Rightarrow> str \<Rightarrow> nat \<Rightarrow> (run \<Rightarrow> run) \<Rightarrow> sys \<Rightarrow> sys" where
  "finish_stmt reread rid status now f s =
     (let (d, updated) = FinishRun rid f (the_db s)
      in s\<lparr>the_db := d,
           owed := owed s @ (if updated
             then (case get_run rid d of None \<Rightarrow> [] | Some r \<Rightarrow> [(if reread then Some rid else None, run_WorkflowID r, status, now)])
             else [])\<rparr>)"

definition keep_counters :: "workflow \<Rightarrow> workflow \<Rightarrow> workflow" where
  "keep_counters w old = w\<lparr>wf_TotalRuns := wf_TotalRuns old, wf_SuccessfulRuns := wf_SuccessfulRuns old, wf_FailedRuns := wf_FailedRuns old\<rparr>"

fun exec_stmt :: "sql_stmt \<Rightarrow> sys \<Rightarrow> sys" where
  "exec_stmt (STrigger wid triggerType triggerSource params now) s =
     (case TriggerRunAtomic wid triggerType triggerSource params now (the_db s) of
        Inl e \<Rightarrow> s
      | Inr (d, r, skipped, reason) \<Rightarrow>
          s\<lparr>the_db := d, owed := owed s @ (if skipped then [(None, wid, ''skipped'', now)] else [])\<rparr>)"
| "exec_stmt (SInsertPod k st) s =
     (if gm_get (db_pods (the_db s)) k = None \<and> find_run (\<lambda>r. run_PodKey r = Some k) (the_db s) = None
      then s\<lparr>the_db := insert_pod k st (the_db s)\<rparr> else s)"
| "exec_stmt (SBind rid k a) s =
     (if find_run (\<lambda>r. run_PodKey r = Some k) (the_db s) = None then s\<lparr>the_db := fst (BindPod rid k a (the_db s))\<rparr> else s)"
| "exec_stmt (SComplete rid started status now) s =
     (if status \<in> {''completed'', ''failed'', ''timeout'', ''cancelled''}
      then finish_stmt False rid status now (\<lambda>r. r\<lparr>run_Status := status, run_FinishedAt := Some now,
             run_DurationSec := (case started of None \<Rightarrow> run_DurationSec r | Some t \<Rightarrow> Some (int now - int t))\<rparr>) s
      else s)"
| "exec_stmt (STerminal rid status msg now) s =
     (if status \<in> {''failed'', ''cancelled''} then finish_stmt True rid status now (finish_terminal status msg now) s else s)"
| "exec_stmt (SReread i) s =
     (if i < length (owed s)
      then case owed s ! i of
          (None, wid, status, now) \<Rightarrow> s
        | (Some rid, wid, status, now) \<Rightarrow>
            (case GetByID rid (the_db s) of
               None \<Rightarrow> s\<lparr>owed := take i (owed s) @ drop (Suc i) (owed s), lost := lost s @ [owed s ! i]\<rparr>
             | Some r \<Rightarrow> s\<lparr>owed := (owed s)[i := (None, run_WorkflowID r, status, now)]\<rparr>)
      else s)"
| "exec_stmt (SStats i) s =
     (if i < length (owed s)
      then case owed s ! i of
          (None, wid, status, now) \<Rightarrow>
            s\<lparr>the_db := IncrementRunStats wid status now (the_db s), owed := take i (owed s) @ drop (Suc i) (owed s)\<rparr>
        | (Some rid, wid, status, now) \<Rightarrow> s
      else s)"
| "exec_stmt (SKey rid a) s = s\<lparr>the_db := set_autopilot_key rid a (the_db s)\<rparr>"
| "exec_stmt (SRuntime wid revision k) s = s\<lparr>the_db := UpdateForResourceRevision wid revision
     (\<lambda>w. case k of None \<Rightarrow> w\<lparr>wf_SandboxPath := None, wf_LastPodKey := None\<rparr> | Some key \<Rightarrow> w\<lparr>wf_LastPodKey := Some key\<rparr>) (the_db s)\<rparr>"
| "exec_stmt (STrim wid keep) s =
     (let d = DeleteOldFinishedRuns wid keep (the_db s)
      in s\<lparr>the_db := d, trimmed := trimmed s @ filter (\<lambda>r. r \<notin> set (db_runs d)) (db_runs (the_db s))\<rparr>)"
| "exec_stmt (SEdit wid w) s = s\<lparr>the_db := update_workflow wid (keep_counters w) (the_db s)\<rparr>"
| "exec_stmt (SPod p) s = s\<lparr>the_db := exec_pod p (the_db s)\<rparr>"
| "exec_stmt (SController k c) s = s\<lparr>the_db := (the_db s)\<lparr>db_controllers := gm_set k c (db_controllers (the_db s))\<rparr>\<rparr>"

definition exec_stmts :: "sql_stmt list \<Rightarrow> sys \<Rightarrow> sys" where
  "exec_stmts ss s = fold exec_stmt ss s"

text \<open>At the beginning there are workflows that have not run yet.\<close>

definition fresh_workflow :: "workflow \<Rightarrow> bool" where
  "fresh_workflow w \<longleftrightarrow> wf_TotalRuns w = 0 \<and> wf_SuccessfulRuns w = 0 \<and> wf_FailedRuns w = 0"

definition fresh_sys :: "(int, workflow) gomap \<Rightarrow> sys" where
  "fresh_sys ws = \<lparr>the_db = \<lparr>db_workflows = ws, db_runs = [], db_nextRun = 1, db_pods = [], db_controllers = []\<rparr>,
     owed = [], lost = [], trimmed = []\<rparr>"

inductive wreach :: "sys \<Rightarrow> bool" where
  init: "\<forall>wid w. gm_get ws wid = Some w \<longrightarrow> fresh_workflow w \<Longrightarrow> wreach (fresh_sys ws)"
| step: "wreach s \<Longrightarrow> wreach (exec_stmt x s)"

subsection \<open>Frames\<close>

lemma update_pod_same [simp]:
  "db_runs (fst (update_pod g k f d)) = db_runs d" "db_workflows (fst (update_pod g k f d)) = db_workflows d"
  "db_nextRun (fst (update_pod g k f d)) = db_nextRun d"
  by (simp_all add: update_pod_def split: option.split)

lemma exec_pod_same [simp]:
  "db_runs (exec_pod p d) = db_runs d \<and> db_workflows (exec_pod p d) = db_workflows d \<and> db_nextRun (exec_pod p d) = db_nextRun d"
proof (cases p)
  case (PodReported k often now)
  then show ?thesis
    by (auto simp: reconcile_reported_def recoverPodStatus_def UpdateByKey_def UpdateByKeyAndStatusCounted_def Let_def case_prod_beta
        split: option.split)
qed (auto simp: handlePodCreated_def handlePodTerminated_def handlePodError_def terminatePod_def MarkDisconnected_def
    MarkReconnected_def reconcile_missing_def MarkStaleAsDisconnected_def CleanupStaleTerminal_def UpdateByKey_def
    UpdateByKeyAndStatusCounted_def UpdateByKeyAndActiveStatus_def update_all_pods_def Let_def case_prod_beta split: option.splits sum.splits)

lemma update_workflow_same [simp]:
  "db_runs (update_workflow wid f d) = db_runs d" "db_pods (update_workflow wid f d) = db_pods d"
  "db_nextRun (update_workflow wid f d) = db_nextRun d"
  by (simp_all add: update_workflow_def split: option.split)

lemma get_update_workflow:
  "gm_get (db_workflows (update_workflow wid f d)) wid' =
     (if wid' = wid then map_option f (gm_get (db_workflows d) wid) else gm_get (db_workflows d) wid')"
  by (simp add: update_workflow_def gomap_simps split: option.split)

lemma update_runs_same [simp]:
  "db_workflows (update_runs p f d) = db_workflows d" "db_pods (update_runs p f d) = db_pods d"
  "db_nextRun (update_runs p f d) = db_nextRun d"
  by (simp_all add: update_runs_def)

lemma db_runs_update: "db_runs (update_runs p f d) = map (\<lambda>r. if p r then f r else r) (db_runs d)"
  by (simp add: update_runs_def)

end
