(* ===== verification/WorkflowProps.thy ===== *)
theory WorkflowProps
  imports WorkflowSteps
begin

text \<open>
  What holds in every state that the statements of \<open>WorkflowSteps\<close> reach, in any order: the counters of a workflow, the result of a
  finished run, the bound on concurrent runs.
\<close>

subsection \<open>The rows of runs\<close>

definition rows_ok :: "sys \<Rightarrow> bool" where
  "rows_ok s \<longleftrightarrow> distinct (map run_ID (db_runs (the_db s) @ trimmed s))
     \<and> (\<forall>r\<in>set (db_runs (the_db s) @ trimmed s). run_ID r < db_nextRun (the_db s))
     \<and> (\<forall>r\<in>set (db_runs (the_db s)). run_FinishedAt r = None \<longleftrightarrow> run_Status r = ''pending'')"

text \<open>What a statement does to the runs: it adds one that is new, changes them row by row, or moves some of them to \<open>trimmed\<close>.\<close>

definition row_change :: "(run \<Rightarrow> run) \<Rightarrow> bool" where
  "row_change f \<longleftrightarrow> (\<forall>r. run_ID (f r) = run_ID r \<and> run_WorkflowID (f r) = run_WorkflowID r
     \<and> ((run_FinishedAt (f r) = run_FinishedAt r \<and> run_Status (f r) = run_Status r)
        \<or> (run_FinishedAt r = None \<and> run_FinishedAt (f r) \<noteq> None \<and> run_Status (f r) \<noteq> ''pending''))
     \<and> (run_FinishedAt r \<noteq> None \<longrightarrow> (f r)\<lparr>run_AutopilotKey := run_AutopilotKey r\<rparr> = r))"

lemma TriggerRunAtomic_runs:
  assumes "TriggerRunAtomic wid tt ts prompt now d = Inr (d', r, skipped, reason)"
  shows "db_runs d' = db_runs d @ [r]" "db_nextRun d' = db_nextRun d + 1" "db_workflows d' = db_workflows d" "db_pods d' = db_pods d"
    "run_ID r = db_nextRun d" "run_WorkflowID r = wid" "run_PodKey r = None"
    "if skipped then run_Status r = ''skipped'' \<and> run_FinishedAt r \<noteq> None else run_Status r = ''pending'' \<and> run_FinishedAt r = None"
    "\<exists>w. gm_get (db_workflows d) wid = Some w \<and> (\<not> skipped \<longrightarrow> int (CountActiveRuns wid d) < wf_MaxConcurrentRuns w)"
  using assms
  by (auto simp: TriggerRunAtomic_def handleConcurrencyPolicy_def create_run_def new_run_def Let_def split: option.splits if_splits sum.splits)

lemma FinishRun_runs: "fst (FinishRun rid f d) = update_runs (\<lambda>r. run_ID r = rid \<and> run_FinishedAt r = None) f d"
  by (simp add: FinishRun_def Let_def)

lemma FinishRun_updated: "snd (FinishRun rid f d) = (find_run (\<lambda>r. run_ID r = rid \<and> run_FinishedAt r = None) d \<noteq> None)"
  by (simp add: FinishRun_def Let_def)

lemma find_run_Some: "find_run p d = Some r \<Longrightarrow> r \<in> set (db_runs d) \<and> p r"
  by (auto simp: find_run_def find_Some_iff)

lemma update_runs_none: "find_run p d = None \<Longrightarrow> update_runs p f d = d"
  by (auto simp: find_run_def find_None_iff update_runs_def intro!: db.equality map_idI)

lemma finish_stmt_same:
  "the_db (finish_stmt reread rid status now f s) = update_runs (\<lambda>r. run_ID r = rid \<and> run_FinishedAt r = None) f (the_db s)"
  "trimmed (finish_stmt reread rid status now f s) = trimmed s" "lost (finish_stmt reread rid status now f s) = lost s"
  by (simp_all add: finish_stmt_def case_prod_beta FinishRun_runs)

lemma BindPod_runs: "fst (BindPod rid k a d) = update_runs (\<lambda>r. run_ID r = rid \<and> run_FinishedAt r = None \<and> run_PodKey r = None)
    (\<lambda>r. r\<lparr>run_PodKey := Some k, run_AutopilotKey := if a \<noteq> [] then Some a else run_AutopilotKey r\<rparr>) d"
  by (simp add: BindPod_def Let_def)

lemma DeleteOldFinishedRuns_same [simp]:
  "db_workflows (DeleteOldFinishedRuns wid keep d) = db_workflows d" "db_pods (DeleteOldFinishedRuns wid keep d) = db_pods d"
  "db_nextRun (DeleteOldFinishedRuns wid keep d) = db_nextRun d"
  by (simp_all add: DeleteOldFinishedRuns_def)

lemma DeleteOldFinishedRuns_runs:
  "\<exists>p. db_runs (DeleteOldFinishedRuns wid keep d) = filter p (db_runs d)
     \<and> (\<forall>r\<in>set (db_runs d). \<not> p r \<longrightarrow> run_FinishedAt r \<noteq> None)"
proof (cases "keep \<le> 0")
  case True
  then show ?thesis by (intro exI [of _ "\<lambda>r. True"]) (simp add: DeleteOldFinishedRuns_def)
next
  case False
  then show ?thesis by (intro exI conjI) (auto simp: DeleteOldFinishedRuns_def)
qed

lemma runs_step_cases [case_names new changed trim]:
  fixes x :: sql_stmt and s :: sys
  assumes "\<And>r. db_runs (the_db (exec_stmt x s)) = db_runs (the_db s) @ [r] \<Longrightarrow> trimmed (exec_stmt x s) = trimmed s
      \<Longrightarrow> run_ID r = db_nextRun (the_db s) \<Longrightarrow> db_nextRun (the_db (exec_stmt x s)) = db_nextRun (the_db s) + 1
      \<Longrightarrow> run_FinishedAt r = None \<longleftrightarrow> run_Status r = ''pending'' \<Longrightarrow> thesis"
    and "\<And>f. row_change f \<Longrightarrow> db_runs (the_db (exec_stmt x s)) = map f (db_runs (the_db s)) \<Longrightarrow> trimmed (exec_stmt x s) = trimmed s
      \<Longrightarrow> db_nextRun (the_db (exec_stmt x s)) = db_nextRun (the_db s) \<Longrightarrow> thesis"
    and "\<And>p. db_runs (the_db (exec_stmt x s)) = filter p (db_runs (the_db s))
      \<Longrightarrow> trimmed (exec_stmt x s) = trimmed s @ filter (\<lambda>r. \<not> p r) (db_runs (the_db s))
      \<Longrightarrow> \<forall>r\<in>set (db_runs (the_db s)). \<not> p r \<longrightarrow> run_FinishedAt r \<noteq> None
      \<Longrightarrow> db_nextRun (the_db (exec_stmt x s)) = db_nextRun (the_db s) \<Longrightarrow> thesis"
  shows thesis
proof -
  have same: thesis if "db_runs (the_db (exec_stmt x s)) = db_runs (the_db s)" "trimmed (exec_stmt x s) = trimmed s"
      "db_nextRun (the_db (exec_stmt x s)) = db_nextRun (the_db s)"
    by (rule assms(2) [of "\<lambda>r. r"]) (simp_all add: that row_change_def)
  have update: thesis if "the_db (exec_stmt x s) = update_runs p f (the_db s)" "trimmed (exec_stmt x s) = trimmed s"
      "row_change (\<lambda>r. if p r then f r else r)" for p f
    by (rule assms(2) [of "\<lambda>r. if p r then f r else r"]) (simp_all add: that db_runs_update)
  show thesis
  proof (cases x)
    case (STrigger wid tt ts prompt now)
    show thesis
    proof (cases "TriggerRunAtomic wid tt ts prompt now (the_db s)")
      case (Inr e)
      obtain d r sk re where e: "e = (d, r, sk, re)" by (cases e) auto
      note t = TriggerRunAtomic_runs [OF Inr [unfolded e]]
      have x: "exec_stmt x s = s\<lparr>the_db := d, owed := owed s @ (if sk then [(None, wid, ''skipped'', now)] else [])\<rparr>"
        by (simp add: STrigger Inr e)
      show thesis by (rule assms(1) [of r]) (use t in \<open>simp_all add: x split: if_splits\<close>)
    qed (auto simp: STrigger intro!: same)
  next
    case (SBind rid k a)
    show thesis
    proof (cases "find_run (\<lambda>r. run_PodKey r = Some k) (the_db s) = None")
      case True
      show thesis by (rule update) (auto simp: SBind True BindPod_runs row_change_def)
    qed (auto simp: SBind intro!: same)
  next
    case (SComplete rid started status now)
    show thesis
    proof (cases "status \<in> {''completed'', ''failed'', ''timeout'', ''cancelled''}")
      case True
      show thesis by (rule update) (use True in \<open>auto simp: SComplete finish_stmt_same row_change_def\<close>)
    qed (auto simp: SComplete intro!: same)
  next
    case (STerminal rid status msg now)
    show thesis
    proof (cases "status \<in> {''failed'', ''cancelled''}")
      case True
      show thesis by (rule update) (use True in \<open>auto simp: STerminal finish_stmt_same finish_terminal_def row_change_def\<close>)
    qed (auto simp: STerminal intro!: same)
  next
    case (STrim wid keep)
    obtain p where p: "db_runs (DeleteOldFinishedRuns wid keep (the_db s)) = filter p (db_runs (the_db s))"
      "\<forall>r\<in>set (db_runs (the_db s)). \<not> p r \<longrightarrow> run_FinishedAt r \<noteq> None"
      using DeleteOldFinishedRuns_runs by blast
    show thesis
      by (rule assms(3) [of p]) (use p in \<open>auto simp: STrim Let_def intro!: filter_cong\<close>)
  next
    case (SKey rid a)
    show thesis by (rule update) (auto simp: SKey set_autopilot_key_def row_change_def)
  qed (auto simp: IncrementRunStats_def UpdateForResourceRevision_def insert_pod_def split: prod.splits option.splits intro!: same)
qed

lemma rows_ok_step: "rows_ok s \<Longrightarrow> rows_ok (exec_stmt x s)"
proof (cases x s rule: runs_step_cases)
  case (new r)
  assume ok: "rows_ok s"
  then have "db_nextRun (the_db s) \<notin> run_ID ` set (db_runs (the_db s) @ trimmed s)" by (fastforce simp: rows_ok_def)
  then show ?thesis using ok new by (auto simp: rows_ok_def intro!: less_imp_le)
next
  case (changed f)
  assume ok: "rows_ok s"
  have f: "run_ID \<circ> f = run_ID" "run_ID (f r) = run_ID r" for r using changed(1) by (auto simp: row_change_def)
  have st: "(run_FinishedAt (f r) = None) = (run_Status (f r) = ''pending'')"
    if "(run_FinishedAt r = None) = (run_Status r = ''pending'')" for r
    using changed(1) that unfolding row_change_def by metis
  show ?thesis using ok by (simp add: rows_ok_def changed(2-) f image_image ball_Un st)
next
  case (trim p)
  assume ok: "rows_ok s"
  let ?old = "db_runs (the_db s) @ trimmed s" and ?new = "db_runs (the_db (exec_stmt x s)) @ trimmed (exec_stmt x s)"
  have same: "set ?new = set ?old" using trim(1,2) by auto
  have "distinct ?old" "inj_on run_ID (set ?old)" using ok unfolding rows_ok_def distinct_map by blast+
  moreover have "distinct ?new" using \<open>distinct ?old\<close> trim(1,2) by auto
  ultimately have "distinct (map run_ID ?new)" using same by (simp only: distinct_map)
  moreover have "\<forall>r\<in>set ?new. run_ID r < db_nextRun (the_db (exec_stmt x s))" using ok unfolding same trim(4) by (simp add: rows_ok_def)
  moreover have "\<forall>r\<in>set (db_runs (the_db (exec_stmt x s))). (run_FinishedAt r = None) = (run_Status r = ''pending'')"
    using ok unfolding trim(1) by (simp add: rows_ok_def)
  ultimately show ?thesis unfolding rows_ok_def by blast
qed

lemma rows_ok_reach: "wreach s \<Longrightarrow> rows_ok s"
  by (induction rule: wreach.induct) (auto intro: rows_ok_step, simp add: rows_ok_def fresh_sys_def)

subsection \<open>A finished run\<close>

definition same_result :: "run \<Rightarrow> run \<Rightarrow> bool" where
  "same_result r r' \<longleftrightarrow> r'\<lparr>run_AutopilotKey := run_AutopilotKey r\<rparr> = r"

lemma same_result_refl [simp]: "same_result r r"
  by (simp add: same_result_def)

lemma finished_step:
  assumes "r \<in> set (db_runs (the_db s) @ trimmed s)" "run_FinishedAt r \<noteq> None"
  shows "\<exists>r'\<in>set (db_runs (the_db (exec_stmt x s)) @ trimmed (exec_stmt x s)). same_result r r'"
  using assms
proof (cases x s rule: runs_step_cases)
  case (changed f)
  then have "same_result r (f r)" using assms(2) by (auto simp: row_change_def same_result_def)
  then show ?thesis using assms(1) changed by (cases "r \<in> set (trimmed s)") (auto intro: bexI [of _ r])
qed (auto intro: bexI [of _ r])

lemma finished_run:
  assumes "r \<in> set (db_runs (the_db s) @ trimmed s)" "run_FinishedAt r \<noteq> None"
  shows "\<exists>r'\<in>set (db_runs (the_db (exec_stmts ss s)) @ trimmed (exec_stmts ss s)). same_result r r'"
  using assms
proof (induction ss arbitrary: r s)
  case (Cons x ss)
  obtain r1 where r1: "r1 \<in> set (db_runs (the_db (exec_stmt x s)) @ trimmed (exec_stmt x s))" "same_result r r1"
    using finished_step [OF Cons.prems] by blast
  then have "run_FinishedAt r1 \<noteq> None" using Cons.prems(2) unfolding same_result_def by (metis run.simps(15) run.ext_inject run.surjective run.update_convs(7))
  then obtain r2 where "r2 \<in> set (db_runs (the_db (exec_stmts (x # ss) s)) @ trimmed (exec_stmts (x # ss) s))" "same_result r1 r2"
    using Cons.IH [OF r1(1)] by (auto simp: exec_stmts_def)
  moreover have "same_result r r2" using r1(2) \<open>same_result r1 r2\<close> by (cases r; cases r1; cases r2) (simp add: same_result_def)
  ultimately show ?case by blast
next
  case Nil
  then show ?case by (auto simp: exec_stmts_def intro: bexI [of _ r])
qed

lemma wreach_stmts: "wreach s \<Longrightarrow> wreach (exec_stmts ss s)"
  by (induction ss arbitrary: s) (auto simp: exec_stmts_def intro: wreach.step)

lemma get_run_Some: "get_run rid d = Some r \<Longrightarrow> r \<in> set (db_runs d) \<and> run_ID r = rid"
  by (auto simp: get_run_def find_run_def find_Some_iff)

lemma get_run_mem: "distinct (map run_ID (db_runs d)) \<Longrightarrow> r \<in> set (db_runs d) \<Longrightarrow> get_run (run_ID r) d = Some r"
  by (auto simp: get_run_def find_run_def find_Some_iff in_set_conv_nth distinct_conv_nth nth_eq_iff_index_eq)

text \<open>C35. The result of a run is final: once a run is finished, no statement of any handler changes its status, times, pod or
  error; it is shown as it was stored until retention deletes the row, and a deleted run keeps that result as well.\<close>

theorem finished_run_final:
  assumes "wreach s" "get_run rid (the_db s) = Some r" "run_FinishedAt r \<noteq> None"
  shows "case GetByID rid (the_db (exec_stmts ss s)) of
      Some r' \<Rightarrow> same_result r r'
    | None \<Rightarrow> \<exists>r'\<in>set (trimmed (exec_stmts ss s)). same_result r r'"
proof -
  define s' where "s' = exec_stmts ss s"
  have r: "r \<in> set (db_runs (the_db s) @ trimmed s)" "run_ID r = rid" using get_run_Some [OF assms(2)] by auto
  obtain r' where r': "r' \<in> set (db_runs (the_db s') @ trimmed s')" "same_result r r'"
    using finished_run [OF r(1) assms(3)] s'_def by blast
  have fin: "run_ID r' = rid" "run_FinishedAt r' \<noteq> None"
    using r'(2) r(2) assms(3) by (cases r; cases r'; auto simp: same_result_def)+
  have ok: "rows_ok s'" unfolding s'_def by (intro rows_ok_reach wreach_stmts assms(1))
  show ?thesis unfolding s'_def [symmetric]
  proof (cases "r' \<in> set (db_runs (the_db s'))")
    case True
    then have "get_run rid (the_db s') = Some r'" using ok fin(1) get_run_mem by (auto simp: rows_ok_def)
    then have "GetByID rid (the_db s') = Some r'" using fin(2) by (simp add: GetByID_def resolveOneRunStatus_def)
    then show "case GetByID rid (the_db s') of Some r' \<Rightarrow> same_result r r' | None \<Rightarrow> \<exists>r'\<in>set (trimmed s'). same_result r r'"
      using r'(2) by simp
  next
    case False
    then have t: "r' \<in> set (trimmed s')" using r'(1) by simp
    then have "get_run rid (the_db s') = None"
      using ok fin(1) by (auto simp: rows_ok_def get_run_def find_run_def find_None_iff)
    then show "case GetByID rid (the_db s') of Some r' \<Rightarrow> same_result r r' | None \<Rightarrow> \<exists>r'\<in>set (trimmed s'). same_result r r'"
      using r'(2) t by (auto simp: GetByID_def)
  qed
qed

subsection \<open>The counters of a workflow\<close>

definition counted :: "int \<Rightarrow> (str \<Rightarrow> bool) \<Rightarrow> run list \<Rightarrow> int" where
  "counted wid counts rs = int (length (filter (\<lambda>r. run_WorkflowID r = wid \<and> run_FinishedAt r \<noteq> None \<and> counts (run_Status r)) rs))"

definition due :: "int \<Rightarrow> (str \<Rightarrow> bool) \<Rightarrow> debt list \<Rightarrow> int" where
  "due wid counts os = int (length (filter (\<lambda>(reread, w, status, now). w = wid \<and> counts status) os))"

lemma counted_simps [simp]:
  "counted wid c [] = 0"
  "counted wid c (r # rs) = of_bool (run_WorkflowID r = wid \<and> run_FinishedAt r \<noteq> None \<and> c (run_Status r)) + counted wid c rs"
  "counted wid c (rs @ rs') = counted wid c rs + counted wid c rs'"
  by (simp_all add: counted_def)

lemma due_simps [simp]:
  "due wid c [] = 0" "due wid c ((reread, w, status, now) # os) = of_bool (w = wid \<and> c status) + due wid c os"
  "due wid c (os @ os') = due wid c os + due wid c os'"
  by (simp_all add: due_def)

lemma counted_map:
  assumes "\<And>r. run_WorkflowID (f r) = run_WorkflowID r \<and> run_FinishedAt (f r) = run_FinishedAt r \<and> run_Status (f r) = run_Status r"
  shows "counted wid c (map f rs) = counted wid c rs"
  by (induction rs) (simp_all add: assms)

lemma counted_split: "counted wid c (filter p rs) + counted wid c (filter (\<lambda>r. \<not> p r) rs) = counted wid c rs"
  by (induction rs) auto

lemma counted_finish:
  assumes "distinct (map run_ID rs)" "find (\<lambda>r. run_ID r = rid \<and> run_FinishedAt r = None) rs = Some r0"
    and "\<And>r. run_WorkflowID (f r) = run_WorkflowID r \<and> run_FinishedAt (f r) \<noteq> None \<and> run_Status (f r) = status"
  shows "counted wid c (map (\<lambda>r. if run_ID r = rid \<and> run_FinishedAt r = None then f r else r) rs)
    = counted wid c rs + of_bool (run_WorkflowID r0 = wid \<and> c status)"
  using assms(1,2)
proof (induction rs)
  case (Cons r rs)
  show ?case
  proof (cases "run_ID r = rid \<and> run_FinishedAt r = None")
    case True
    then have "map (\<lambda>r. if run_ID r = rid \<and> run_FinishedAt r = None then f r else r) rs = rs"
      using Cons.prems(1) by (intro map_idI) (auto simp: image_iff)
    then show ?thesis using True Cons.prems(2) assms(3) [of r] by (auto simp: of_bool_def)
  qed (use Cons in auto)
qed simp

text \<open>What a statement that finishes a run leaves owing, and which runs the debts are about.\<close>

lemma finish_stmt_owed:
  assumes "rows_ok s" "\<And>r. run_ID (f r) = run_ID r \<and> run_WorkflowID (f r) = run_WorkflowID r"
  shows "owed (finish_stmt reread rid status now f s) = owed s @
    (case find_run (\<lambda>r. run_ID r = rid \<and> run_FinishedAt r = None) (the_db s) of None \<Rightarrow> []
     | Some r \<Rightarrow> [(if reread then Some rid else None, run_WorkflowID r, status, now)])"
proof (cases "find_run (\<lambda>r. run_ID r = rid \<and> run_FinishedAt r = None) (the_db s)")
  case None
  then show ?thesis by (simp add: finish_stmt_def case_prod_beta FinishRun_updated)
next
  case (Some r)
  have r: "r \<in> set (db_runs (the_db s))" "run_ID r = rid" "run_FinishedAt r = None" using find_run_Some [OF Some] by auto
  let ?d = "fst (FinishRun rid f (the_db s))"
  have "map run_ID (db_runs ?d) = map run_ID (db_runs (the_db s))" by (simp add: FinishRun_runs db_runs_update assms(2))
  then have "distinct (map run_ID (db_runs ?d))" using assms(1) by (simp add: rows_ok_def)
  moreover have "f r \<in> set (db_runs ?d)" using r by (auto simp: FinishRun_runs db_runs_update image_iff intro!: bexI [of _ r])
  ultimately have "get_run (run_ID (f r)) ?d = Some (f r)" by (rule get_run_mem)
  then show ?thesis by (simp add: finish_stmt_def case_prod_beta FinishRun_updated Some assms(2) r(2))
qed

definition owner :: "debt \<Rightarrow> run list \<Rightarrow> bool" where
  "owner u rs = (case u of (None, wid, status, now) \<Rightarrow> True
     | (Some rid, wid, status, now) \<Rightarrow> \<exists>r\<in>set rs. run_ID r = rid \<and> run_WorkflowID r = wid)"

definition debts_ok :: "sys \<Rightarrow> bool" where
  "debts_ok s \<longleftrightarrow> (\<forall>u\<in>set (owed s). owner u (db_runs (the_db s) @ trimmed s)) \<and> (\<forall>u\<in>set (lost s). fst u \<noteq> None \<and> owner u (trimmed s))"

lemma owner_simps [simp]:
  "owner (None, wid, status, now) rs"
  "owner (Some rid, wid, status, now) rs = (\<exists>r\<in>set rs. run_ID r = rid \<and> run_WorkflowID r = wid)"
  by (simp_all add: owner_def)

lemma owner_step:
  "owner u (db_runs (the_db s) @ trimmed s) \<Longrightarrow> owner u (db_runs (the_db (exec_stmt x s)) @ trimmed (exec_stmt x s))"
  "owner u (trimmed s) \<Longrightarrow> owner u (trimmed (exec_stmt x s))"
proof -
  obtain reread wid status now where u: "u = (reread, wid, status, now)" by (cases u) auto
  have "(owner u (db_runs (the_db s) @ trimmed s) \<longrightarrow> owner u (db_runs (the_db (exec_stmt x s)) @ trimmed (exec_stmt x s)))
      \<and> (owner u (trimmed s) \<longrightarrow> owner u (trimmed (exec_stmt x s)))"
  proof (cases x s rule: runs_step_cases)
    case (changed f)
    then have "run_ID (f r) = run_ID r \<and> run_WorkflowID (f r) = run_WorkflowID r" for r by (simp add: row_change_def)
    then show ?thesis using changed by (cases reread) (auto simp: u image_Un)
  qed (cases reread; auto simp: u)+
  then show "owner u (db_runs (the_db s) @ trimmed s) \<Longrightarrow> owner u (db_runs (the_db (exec_stmt x s)) @ trimmed (exec_stmt x s))"
    "owner u (trimmed s) \<Longrightarrow> owner u (trimmed (exec_stmt x s))" by blast+
qed

lemma resolve_workflow: "run_WorkflowID (resolveOneRunStatus d r) = run_WorkflowID r"
  by (simp add: resolveOneRunStatus_def ResolveRunStatus_def Let_def split: option.split)

lemma GetByID_row: "GetByID rid d = Some r \<Longrightarrow> \<exists>r0\<in>set (db_runs d). run_ID r0 = rid \<and> run_WorkflowID r = run_WorkflowID r0"
  by (auto simp: GetByID_def resolve_workflow dest!: get_run_Some)

lemma GetByID_None: "GetByID rid d = None \<Longrightarrow> r \<in> set (db_runs d) \<Longrightarrow> run_ID r \<noteq> rid"
  by (auto simp: GetByID_def get_run_def find_run_def find_None_iff)

lemma debts_step:
  assumes "rows_ok s" "debts_ok s"
  shows "debts_ok (exec_stmt x s)"
proof -
  let ?rows = "db_runs (the_db s) @ trimmed s"
  have ok: "owner u ?rows" if "u \<in> set (owed s)" for u using assms(2) that by (simp add: debts_ok_def)
  have finish: "owner u ?rows" if in': "u \<in> set (owed (finish_stmt reread rid status now f s))"
      and f: "\<And>r. run_ID (f r) = run_ID r \<and> run_WorkflowID (f r) = run_WorkflowID r" for u reread rid status now f
  proof (cases "u \<in> set (owed s)")
    case False
    then obtain r where "find_run (\<lambda>r. run_ID r = rid \<and> run_FinishedAt r = None) (the_db s) = Some r"
        "u = (if reread then Some rid else None, run_WorkflowID r, status, now)"
      using in' by (cases "find_run (\<lambda>r. run_ID r = rid \<and> run_FinishedAt r = None) (the_db s)")
        (simp_all add: finish_stmt_owed [OF assms(1) f])
    then show ?thesis using find_run_Some by (fastforce simp: owner_def)
  qed (rule ok)
  have "owner u ?rows" if "u \<in> set (owed (exec_stmt x s))" for u
  proof (cases x)
    case (STrigger wid tt ts prompt now)
    then show ?thesis using that by (auto split: sum.splits if_splits intro: ok)
  next
    case (SReread i)
    then show ?thesis using that
      by (auto split: if_splits prod.splits option.splits intro: ok
          dest!: in_set_takeD in_set_dropD set_update_subset_insert [THEN subsetD])
  next
    case (SStats i)
    then show ?thesis using that by (auto split: if_splits prod.splits option.splits intro: ok dest!: in_set_takeD in_set_dropD)
  next
    case (SComplete rid started status now)
    then show ?thesis using that by (auto split: if_splits intro: ok elim!: finish)
  next
    case (STerminal rid status msg now)
    then show ?thesis using that by (auto simp: finish_terminal_def split: if_splits intro: ok elim!: finish)
  qed (use that in \<open>auto simp: Let_def split: if_splits intro: ok\<close>)
  moreover have "fst u \<noteq> None \<and> owner u (trimmed s)" if l: "u \<in> set (lost (exec_stmt x s))" for u
  proof (cases "u \<in> set (lost s)")
    case True
    then show ?thesis using assms(2) by (simp add: debts_ok_def)
  next
    case False
    then obtain i rid wid status now where i: "i < length (owed s)" "owed s ! i = (Some rid, wid, status, now)" "u = owed s ! i"
        "GetByID rid (the_db s) = None"
      using l by (cases x) (auto simp: finish_stmt_same Let_def split: if_splits prod.splits option.splits sum.splits)
    then have "owner u ?rows" by (intro ok) (metis nth_mem)
    then show ?thesis using GetByID_None [OF i(4)] by (auto simp: i(2,3))
  qed
  ultimately show ?thesis unfolding debts_ok_def using owner_step by blast
qed

lemma debts_ok_reach: "wreach s \<Longrightarrow> debts_ok s"
  by (induction rule: wreach.induct) (auto intro: debts_step rows_ok_reach, simp add: debts_ok_def fresh_sys_def)

lemma debt_of_row:
  assumes "rows_ok s" "debts_ok s" "(Some rid, wid, status, now) \<in> set (owed s)" "GetByID rid (the_db s) = Some r"
  shows "run_WorkflowID r = wid"
proof -
  obtain r0 where r0: "r0 \<in> set (db_runs (the_db s))" "run_ID r0 = rid" "run_WorkflowID r = run_WorkflowID r0"
    using GetByID_row [OF assms(4)] by blast
  obtain r1 where r1: "r1 \<in> set (db_runs (the_db s) @ trimmed s)" "run_ID r1 = rid" "run_WorkflowID r1 = wid"
    using assms(2,3) unfolding debts_ok_def by fastforce
  have "inj_on run_ID (set (db_runs (the_db s) @ trimmed s))" using assms(1) unfolding rows_ok_def distinct_map by blast
  moreover have "r0 \<in> set (db_runs (the_db s) @ trimmed s)" using r0(1) by simp
  ultimately have "r0 = r1" using r0(2) r1(1,2) by (metis inj_onD)
  then show ?thesis using r0(3) r1(3) by simp
qed

lemma due_nth:
  assumes "i < length os" "os ! i = (reread, wid, status, now)"
  shows "due w c os = of_bool (wid = w \<and> c status) + due w c (take i os @ drop (Suc i) os)"
    "due w c (os[i := (reread', wid, status, now)]) = due w c os"
proof -
  have "due w c os = due w c (take i os @ (reread, wid, status, now) # drop (Suc i) os)" using id_take_nth_drop [OF assms(1)] assms(2) by simp
  then show d: "due w c os = of_bool (wid = w \<and> c status) + due w c (take i os @ drop (Suc i) os)" by (simp only: due_simps ac_simps)
  show "due w c (os[i := (reread', wid, status, now)]) = due w c os" unfolding d by (simp add: upd_conv_take_nth_drop [OF assms(1)])
qed

text \<open>What the statements need from a counter: it moves with the statuses that it counts, and nothing else writes it.\<close>

locale run_counter =
  fixes counts :: "str \<Rightarrow> bool" and field :: "workflow \<Rightarrow> int"
  assumes count: "field (count_run status now w) = field w + of_bool (counts status)"
    and edit: "field (keep_counters w old) = field old"
    and runtime: "field (w\<lparr>wf_LastPodKey := k\<rparr>) = field w" "field (w\<lparr>wf_SandboxPath := p\<rparr>) = field w"
    and fresh: "fresh_workflow w \<Longrightarrow> field w = 0"
begin

definition exact :: "sys \<Rightarrow> bool" where
  "exact s \<longleftrightarrow> (\<forall>wid w. gm_get (db_workflows (the_db s)) wid = Some w \<longrightarrow>
     counted wid counts (db_runs (the_db s) @ trimmed s) = field w + due wid counts (owed s @ lost s))"

lemma counter_finish:
  assumes "exact s" "rows_ok s"
    and "\<And>r. run_ID (f r) = run_ID r \<and> run_WorkflowID (f r) = run_WorkflowID r \<and> run_FinishedAt (f r) \<noteq> None \<and> run_Status (f r) = status"
  shows "exact (finish_stmt reread rid status now f s)"
proof -
  have f: "\<And>r. run_ID (f r) = run_ID r \<and> run_WorkflowID (f r) = run_WorkflowID r"
    "\<And>r. run_WorkflowID (f r) = run_WorkflowID r \<and> run_FinishedAt (f r) \<noteq> None \<and> run_Status (f r) = status" using assms(3) by blast+
  show ?thesis
  proof (cases "find_run (\<lambda>r. run_ID r = rid \<and> run_FinishedAt r = None) (the_db s)")
    case None
    then show ?thesis using assms(1) by (simp add: exact_def finish_stmt_same finish_stmt_owed [OF assms(2) f(1)] update_runs_none)
  next
    case (Some r0)
    have "distinct (map run_ID (db_runs (the_db s)))" using assms(2) by (simp add: rows_ok_def)
    from counted_finish [OF this Some [unfolded find_run_def] f(2)] show ?thesis
      using assms(1) by (auto simp: exact_def finish_stmt_same finish_stmt_owed [OF assms(2) f(1)] Some db_runs_update)
  qed
qed

lemma counter_edit:
  assumes "exact s" "\<And>w. field (f w) = field w"
  shows "exact (s\<lparr>the_db := update_workflow wid f (the_db s)\<rparr>)"
  using assms by (auto simp: exact_def get_update_workflow)

lemma counter_step:
  assumes "exact s" "rows_ok s" "debts_ok s"
  shows "exact (exec_stmt x s)"
proof (cases x)
  case (STrigger wid tt ts prompt now)
  show ?thesis
  proof (cases "TriggerRunAtomic wid tt ts prompt now (the_db s)")
    case (Inr e)
    obtain d r sk re where e: "e = (d, r, sk, re)" by (cases e) auto
    show ?thesis using assms(1) TriggerRunAtomic_runs [OF Inr [unfolded e]]
      by (auto simp: STrigger Inr e exact_def split: if_splits)
  qed (simp add: STrigger assms)
next
  case (SBind rid k a)
  then show ?thesis using assms(1) by (auto simp: exact_def BindPod_runs db_runs_update counted_map)
next
  case (SKey rid a)
  then show ?thesis using assms(1) by (auto simp: exact_def set_autopilot_key_def db_runs_update counted_map)
next
  case (SReread i)
  show ?thesis
  proof (cases "i < length (owed s)")
    case True
    obtain reread wid status now where u: "owed s ! i = (reread, wid, status, now)" by (cases "owed s ! i") auto
    show ?thesis
    proof (cases reread)
      case (Some rid)
      note u = u [unfolded Some]
      show ?thesis
      proof (cases "GetByID rid (the_db s)")
        case None
        then show ?thesis using assms(1) due_nth(1) [OF True u] by (simp add: SReread True u exact_def)
      next
        case (Some r)
        have "(Some rid, wid, status, now) \<in> set (owed s)" using nth_mem [OF True] u by simp
        then have "run_WorkflowID r = wid" using debt_of_row [OF assms(2,3)] Some by blast
        then show ?thesis using assms(1) due_nth(2) [OF True u] by (simp add: SReread True u exact_def Some)
      qed
    qed (use assms(1) u in \<open>simp add: SReread\<close>)
  qed (simp add: SReread assms)
next
  case (SStats i)
  show ?thesis
  proof (cases "i < length (owed s)")
    case True
    obtain reread wid status now where u: "owed s ! i = (reread, wid, status, now)" by (cases "owed s ! i") auto
    show ?thesis
    proof (cases reread)
      case None
      note u = u [unfolded None]
      show ?thesis using assms(1) by (auto simp: SStats True u exact_def IncrementRunStats_def get_update_workflow count due_nth(1) [OF True u])
    qed (use assms(1) u in \<open>simp add: SStats\<close>)
  qed (simp add: SStats assms)
next
  case (STrim wid keep)
  obtain p where p: "db_runs (DeleteOldFinishedRuns wid keep (the_db s)) = filter p (db_runs (the_db s))"
    using DeleteOldFinishedRuns_runs by blast
  have "filter (\<lambda>r. r \<in> set (db_runs (the_db s)) \<longrightarrow> \<not> p r) (db_runs (the_db s)) = filter (\<lambda>r. \<not> p r) (db_runs (the_db s))"
    by (rule filter_cong) auto
  then have t: "trimmed (exec_stmt x s) = trimmed s @ filter (\<lambda>r. \<not> p r) (db_runs (the_db s))"
      "db_runs (the_db (exec_stmt x s)) = filter p (db_runs (the_db s))"
    by (simp_all add: STrim Let_def p)
  have c: "counted w counts (db_runs (the_db (exec_stmt x s)) @ trimmed (exec_stmt x s)) = counted w counts (db_runs (the_db s) @ trimmed s)" for w
    using counted_split [of w counts p "db_runs (the_db s)"] by (simp only: t counted_simps)
  have "db_workflows (the_db (exec_stmt x s)) = db_workflows (the_db s)" "owed (exec_stmt x s) = owed s" "lost (exec_stmt x s) = lost s"
    by (simp_all add: STrim Let_def)
  then show ?thesis using assms(1) unfolding exact_def c by simp
next
  case (SRuntime wid revision k)
  have "exec_stmt x s = s\<lparr>the_db := update_workflow wid (\<lambda>w. if wf_ResourceRevision w = Some revision then
      case k of None \<Rightarrow> w\<lparr>wf_SandboxPath := None, wf_LastPodKey := None\<rparr> | Some key \<Rightarrow> w\<lparr>wf_LastPodKey := Some key\<rparr> else w) (the_db s)\<rparr>"
    by (simp add: SRuntime UpdateForResourceRevision_def)
  moreover have "exact \<dots>" by (rule counter_edit [OF assms(1)]) (simp add: runtime split: option.split)
  ultimately show ?thesis by simp
next
  case (SEdit wid w)
  then show ?thesis by (simp add: counter_edit assms edit)
next
  case (SInsertPod k st)
  then show ?thesis using assms(1) by (simp add: exact_def insert_pod_def)
qed (use assms in \<open>simp_all add: counter_finish finish_terminal_def, simp_all add: exact_def\<close>)

lemma counter_reach: "wreach s \<Longrightarrow> exact s"
proof (induction rule: wreach.induct)
  case (init ws)
  then show ?case by (auto simp: exact_def fresh_sys_def fresh)
next
  case (step s x)
  then show ?case by (simp add: counter_step rows_ok_reach debts_ok_reach)
qed

end

lemmas counter_defs = count_run_def keep_counters_def fresh_workflow_def

interpretation all_runs: run_counter "\<lambda>status. True" wf_TotalRuns
  by unfold_locales (simp_all add: counter_defs)

interpretation successful_runs: run_counter "\<lambda>status. status = ''completed''" wf_SuccessfulRuns
  by unfold_locales (simp_all add: counter_defs)

interpretation failed_runs: run_counter "\<lambda>status. status \<in> {''failed'', ''timeout'', ''cancelled''}" wf_FailedRuns
  by unfold_locales (simp_all add: counter_defs)


end
