(* ===== verification/WorkflowBound.thy ===== *)
theory WorkflowBound
  imports WorkflowProps
begin

text \<open>
  The bound on concurrent runs. A pod that has ended can come back: a late report that it was created, or a heartbeat that still names
  an orphaned pod. \<open>calm\<close> excludes these statements and edits that lower the limit below the runs that are under way.
\<close>

definition pod_active :: "str \<Rightarrow> db \<Rightarrow> bool" where
  "pod_active k d = (case gm_get (db_pods d) k of None \<Rightarrow> False | Some p \<Rightarrow> pod_Status p \<in> set ActiveStatuses)"

definition calm_pod :: "pod_stmt \<Rightarrow> db \<Rightarrow> bool" where
  "calm_pod p d = (case p of
      PodCreated k now \<Rightarrow> gm_get (db_pods d) k = None \<or> pod_active k d
    | PodReported k often now \<Rightarrow> (case gm_get (db_pods d) k of None \<Rightarrow> True | Some p \<Rightarrow> pod_Status p \<noteq> ''orphaned'')
    | _ \<Rightarrow> True)"

definition calm :: "sql_stmt \<Rightarrow> db \<Rightarrow> bool" where
  "calm x d = (case x of
      SPod p \<Rightarrow> calm_pod p d
    | SEdit wid w \<Rightarrow> (case gm_get (db_workflows d) wid of None \<Rightarrow> True | Some old \<Rightarrow> wf_MaxConcurrentRuns old \<le> wf_MaxConcurrentRuns w)
    | _ \<Rightarrow> True)"

fun calm_run :: "sql_stmt list \<Rightarrow> sys \<Rightarrow> bool" where
  "calm_run [] s = True"
| "calm_run (x # xs) s = (calm x (the_db s) \<and> calm_run xs (exec_stmt x s))"

lemma active_run_alt: "active_run d r = (case run_PodKey r of None \<Rightarrow> run_Status r = ''pending'' | Some k \<Rightarrow> pod_active k d)"
  by (simp add: active_run_def pod_active_def split: option.split)

lemma pod_active_cong: "db_pods d = db_pods d' \<Longrightarrow> pod_active k d = pod_active k d'"
  by (simp add: pod_active_def)

lemma pod_active_update:
  "pod_active k (fst (update_pod g key f d)) \<Longrightarrow>
   (\<And>p. gm_get (db_pods d) key = Some p \<Longrightarrow> g p \<Longrightarrow> pod_Status (f p) \<in> set ActiveStatuses \<Longrightarrow> pod_Status p \<in> set ActiveStatuses)
   \<Longrightarrow> pod_active k d"
  by (auto simp: pod_active_def update_pod_def gomap_simps split: option.splits if_splits)

lemma pod_active_update_all:
  "pod_active k (update_all_pods g f d) \<Longrightarrow>
   (\<And>p. g p \<Longrightarrow> pod_Status (f p) \<in> set ActiveStatuses \<Longrightarrow> pod_Status p \<in> set ActiveStatuses) \<Longrightarrow> pod_active k d"
  by (auto simp: pod_active_def update_all_pods_def gm_get_map split: option.splits if_splits)

lemma no_revival:
  assumes "calm_pod p d" "pod_active k (exec_pod p d)"
  shows "pod_active k d"
proof (cases p)
  case (PodCreated key now)
  then show ?thesis using assms
    by (auto simp: calm_pod_def handlePodCreated_def UpdateByKey_def pod_active_def [of key] elim!: pod_active_update)
next
  case (PodReported key often now)
  show ?thesis
  proof (cases "gm_get (db_pods d) key")
    case (Some q)
    let ?d = "UpdateByKey key (\<lambda>p. p\<lparr>pod_LastActivity := Some now\<rparr>) d"
    have touched: "pod_active k ?d \<Longrightarrow> pod_active k d" unfolding UpdateByKey_def by (erule pod_active_update) simp
    show ?thesis
    proof (cases "pod_Status q = ''disconnected'' \<or> (pod_Status q = ''initializing'' \<and> often)")
      case True
      have "pod_active k (fst (recoverPodStatus key (pod_Status q) now ?d))"
        using assms(2) True Some by (auto simp: PodReported reconcile_reported_def)
      then have "pod_active k ?d"
        using True unfolding recoverPodStatus_def UpdateByKeyAndStatusCounted_def Let_def case_prod_beta fst_conv
        by (elim pod_active_update) (auto simp: ActiveStatuses_def)
      then show ?thesis by (rule touched)
    next
      case False
      then have "exec_pod p d = ?d" using assms(1) Some by (auto simp: PodReported reconcile_reported_def calm_pod_def Let_def)
      then show ?thesis using assms(2) touched by simp
    qed
  qed (use assms(2) in \<open>simp add: PodReported reconcile_reported_def\<close>)
next
  case (PodClosed key now)
  then show ?thesis using assms(2)
    by (auto simp: terminatePod_def UpdateByKeyAndStatusCounted_def UpdateByKeyAndActiveStatus_def Let_def case_prod_beta ActiveStatuses_def
        split: option.splits if_splits elim!: pod_active_update)
next
  case (PodMissing key acp now)
  then show ?thesis using assms(2)
    by (auto simp: reconcile_missing_def UpdateByKey_def UpdateByKeyAndActiveStatus_def close_pod_def Let_def case_prod_beta ActiveStatuses_def
        split: if_splits elim!: pod_active_update)
next
  case (PodError key errCode now)
  then show ?thesis using assms(2)
    by (auto simp: handlePodError_def UpdateByKeyAndStatusCounted_def UpdateByKeyAndActiveStatus_def close_pod_def Let_def case_prod_beta
        ActiveStatuses_def split: if_splits elim!: pod_active_update)
next
  case (PodTerminated key st msg now)
  then show ?thesis using assms(2)
    by (auto simp: handlePodTerminated_def UpdateByKeyAndActiveStatus_def Let_def case_prod_beta elim!: pod_active_update)
next
  case (PodsStale t)
  then show ?thesis using assms(2)
    by (auto simp: MarkStaleAsDisconnected_def Let_def stale_def ActiveStatuses_def elim!: pod_active_update_all)
next
  case (PodsExpired t now)
  then show ?thesis using assms(2)
    by (auto simp: CleanupStaleTerminal_def Let_def ActiveStatuses_def elim!: pod_active_update_all)
next
  case (PodDisconnected key)
  then show ?thesis using assms(2) by (auto simp: MarkDisconnected_def ActiveStatuses_def elim!: pod_active_update)
next
  case (PodReconnected key now)
  then show ?thesis using assms(2) by (auto simp: MarkReconnected_def ActiveStatuses_def elim!: pod_active_update)
qed

lemma count_mono:
  assumes "\<And>r. r \<in> set rs \<Longrightarrow> q (f r) \<Longrightarrow> p r"
  shows "length (filter q (map f rs)) \<le> length (filter p rs)"
  using assms
proof (induction rs)
  case (Cons r rs)
  then have "length (filter q (map f rs)) \<le> length (filter p rs)" "q (f r) \<Longrightarrow> p r" by auto
  then show ?case by (simp add: le_SucI)
qed simp

lemma count_map:
  assumes "db_runs d' = map f (db_runs d)"
    and "\<And>r. r \<in> set (db_runs d) \<Longrightarrow> run_WorkflowID (f r) = run_WorkflowID r \<and> (active_run d' (f r) \<longrightarrow> active_run d r)"
  shows "CountActiveRuns wid d' \<le> CountActiveRuns wid d"
  unfolding CountActiveRuns_def assms(1) by (rule count_mono) (use assms(2) in auto)

lemmas count_same = count_map [where f = "\<lambda>r. r", simplified]

lemma active_run_step:
  "active_run d' r' \<Longrightarrow> run_PodKey r' = run_PodKey r \<Longrightarrow> (run_Status r' = ''pending'' \<Longrightarrow> run_Status r = ''pending'')
   \<Longrightarrow> (\<And>k. run_PodKey r = Some k \<Longrightarrow> pod_active k d' \<Longrightarrow> pod_active k d) \<Longrightarrow> active_run d r"
  by (auto simp: active_run_alt split: option.splits)

lemma count_finish:
  assumes "\<And>r. run_WorkflowID (f r) = run_WorkflowID r \<and> run_PodKey (f r) = run_PodKey r \<and> run_Status (f r) \<noteq> ''pending''"
  shows "CountActiveRuns wid (update_runs p f d) \<le> CountActiveRuns wid d"
  by (rule count_map [OF db_runs_update])
    (use assms in \<open>auto elim!: active_run_step dest: pod_active_cong [of "update_runs p f d" d, OF update_runs_same(2), THEN iffD1]\<close>)

lemma CountActiveRuns_step:
  assumes "rows_ok s" "calm x (the_db s)"
  shows "CountActiveRuns wid (the_db (exec_stmt x s)) \<le> CountActiveRuns wid (the_db s)
    \<or> (\<exists>w. gm_get (db_workflows (the_db s)) wid = Some w \<and> int (CountActiveRuns wid (the_db (exec_stmt x s))) \<le> wf_MaxConcurrentRuns w)"
proof -
  let ?d = "the_db s" and ?d' = "the_db (exec_stmt x s)"
  have same: ?thesis if "db_runs ?d' = db_runs ?d" "\<And>k r. r \<in> set (db_runs ?d) \<Longrightarrow> run_PodKey r = Some k \<Longrightarrow> pod_active k ?d' \<Longrightarrow> pod_active k ?d"
    by (intro disjI1 count_same [OF that(1)]) (use that(2) in \<open>auto elim!: active_run_step\<close>)
  have pods: ?thesis if "db_runs ?d' = db_runs ?d" "db_pods ?d' = db_pods ?d"
    by (rule same) (use that in \<open>auto simp: pod_active_def\<close>)
  have updated: ?thesis if "?d' = update_runs p f ?d"
    "\<And>r. run_WorkflowID (f r) = run_WorkflowID r \<and> run_PodKey (f r) = run_PodKey r \<and> run_Status (f r) \<noteq> ''pending''" for p f
    unfolding that(1) by (rule disjI1, rule count_finish, rule that(2))
  show ?thesis
  proof (cases x)
    case (STrigger w tt ts prompt now)
    show ?thesis
    proof (cases "TriggerRunAtomic w tt ts prompt now ?d")
      case (Inr e)
      obtain d r sk re where e: "e = (d, r, sk, re)" by (cases e) auto
      note t = TriggerRunAtomic_runs [OF Inr [unfolded e]]
      have d': "?d' = d" by (simp add: STrigger Inr e)
      have "active_run d q = active_run ?d q" for q by (simp add: active_run_def t(4) split: option.split)
      then have c: "CountActiveRuns wid d = CountActiveRuns wid ?d + of_bool (w = wid \<and> \<not> sk)"
        using t(6,7,8) by (auto simp: CountActiveRuns_def t(1) active_run_alt of_bool_def split: if_splits)
      show ?thesis
      proof (cases "w = wid \<and> \<not> sk")
        case True
        then show ?thesis using t(9) by (auto simp: d' c)
      qed (auto simp: d' c)
    qed (simp add: STrigger)
  next
    case (SInsertPod k st)
    show ?thesis
    proof (cases "gm_get (db_pods ?d) k = None \<and> find_run (\<lambda>r. run_PodKey r = Some k) ?d = None")
      case True
      then show ?thesis
        by (intro same) (auto simp: SInsertPod insert_pod_def pod_active_def gomap_simps find_run_def find_None_iff)
    qed (intro pods; auto simp: SInsertPod)
  next
    case (SBind rid k a)
    show ?thesis
    proof (cases "find_run (\<lambda>r. run_PodKey r = Some k) ?d = None")
      case True
      have "CountActiveRuns wid (fst (BindPod rid k a ?d)) \<le> CountActiveRuns wid ?d" unfolding BindPod_runs
        by (rule count_map [OF db_runs_update])
          (use assms(1) in \<open>auto simp: rows_ok_def active_run_alt pod_active_def split: option.splits if_splits\<close>)
      then show ?thesis by (simp add: SBind True)
    qed (intro pods; auto simp: SBind)
  next
    case (SComplete rid started status now)
    show ?thesis
    proof (cases "status \<in> {''completed'', ''failed'', ''timeout'', ''cancelled''}")
      case True
      show ?thesis by (rule updated) (use True in \<open>auto simp: SComplete finish_stmt_same\<close>)
    qed (intro pods; auto simp: SComplete)
  next
    case (STerminal rid status msg now)
    show ?thesis
    proof (cases "status \<in> {''failed'', ''cancelled''}")
      case True
      show ?thesis by (rule updated) (use True in \<open>auto simp: STerminal finish_stmt_same finish_terminal_def\<close>)
    qed (intro pods; auto simp: STerminal)
  next
    case (SKey rid a)
    have "CountActiveRuns wid (set_autopilot_key rid a ?d) \<le> CountActiveRuns wid ?d" unfolding set_autopilot_key_def
      by (rule count_map [OF db_runs_update]) (auto simp: active_run_alt pod_active_def split: option.splits if_splits)
    then show ?thesis by (simp add: SKey)
  next
    case (STrim w keep)
    obtain p where p: "db_runs (DeleteOldFinishedRuns w keep ?d) = filter p (db_runs ?d)" using DeleteOldFinishedRuns_runs by blast
    have "active_run ?d' q = active_run ?d q" for q by (simp add: STrim Let_def active_run_def split: option.split)
    then have "CountActiveRuns wid ?d' = length (filter p (filter (\<lambda>r. run_WorkflowID r = wid \<and> active_run ?d r) (db_runs ?d)))"
      by (simp add: CountActiveRuns_def STrim Let_def p conj_commute)
    then have "CountActiveRuns wid ?d' \<le> CountActiveRuns wid ?d" unfolding CountActiveRuns_def [of wid ?d] by (simp only: length_filter_le)
    then show ?thesis by (rule disjI1)
  next
    case (SPod p)
    have "calm_pod p ?d" using assms(2) by (simp add: SPod calm_def)
    then show ?thesis by (intro same) (use no_revival in \<open>auto simp: SPod\<close>)
  qed (intro pods; auto simp: IncrementRunStats_def UpdateForResourceRevision_def split: prod.split option.split)+
qed

lemma limit_step:
  assumes "calm x (the_db s)" "gm_get (db_workflows (the_db (exec_stmt x s))) wid = Some w'"
  shows "\<exists>w. gm_get (db_workflows (the_db s)) wid = Some w \<and> wf_MaxConcurrentRuns w \<le> wf_MaxConcurrentRuns w'"
proof (cases x)
  case (STrigger w tt ts prompt now)
  then show ?thesis using assms(2) TriggerRunAtomic_runs(3) by (auto split: sum.splits prod.splits)
next
  case (SStats i)
  then show ?thesis using assms(2)
    by (auto simp: IncrementRunStats_def get_update_workflow count_run_def split: prod.splits if_splits option.splits)
next
  case (SRuntime w revision k)
  then show ?thesis using assms(2)
    by (auto simp: UpdateForResourceRevision_def get_update_workflow split: if_splits option.splits)
next
  case (SEdit w new)
  then show ?thesis using assms by (auto simp: calm_def get_update_workflow keep_counters_def split: if_splits)
qed (use assms(2) in \<open>auto simp: insert_pod_def finish_stmt_same BindPod_runs set_autopilot_key_def Let_def split: if_splits prod.splits option.splits\<close>)

definition within_limits :: "db \<Rightarrow> bool" where
  "within_limits d \<longleftrightarrow> (\<forall>wid w. gm_get (db_workflows d) wid = Some w \<longrightarrow> int (CountActiveRuns wid d) \<le> max 0 (wf_MaxConcurrentRuns w))"

lemma within_limits_step:
  assumes "rows_ok s" "within_limits (the_db s)" "calm x (the_db s)"
  shows "within_limits (the_db (exec_stmt x s))"
  unfolding within_limits_def
proof (intro allI impI)
  fix wid w' assume "gm_get (db_workflows (the_db (exec_stmt x s))) wid = Some w'"
  then obtain w where w: "gm_get (db_workflows (the_db s)) wid = Some w" "wf_MaxConcurrentRuns w \<le> wf_MaxConcurrentRuns w'"
    using limit_step [OF assms(3)] by blast
  then have "int (CountActiveRuns wid (the_db s)) \<le> max 0 (wf_MaxConcurrentRuns w)" using assms(2) by (simp add: within_limits_def)
  then show "int (CountActiveRuns wid (the_db (exec_stmt x s))) \<le> max 0 (wf_MaxConcurrentRuns w')"
    using CountActiveRuns_step [OF assms(1,3), of wid] w by auto
qed

lemma within_limits_run: "rows_ok s \<Longrightarrow> within_limits (the_db s) \<Longrightarrow> calm_run ss s \<Longrightarrow> within_limits (the_db (exec_stmts ss s))"
  by (induction ss arbitrary: s) (auto simp: exec_stmts_def rows_ok_step within_limits_step)

text \<open>C33. The limit on concurrent runs: whatever triggers, handlers, pod events and clean-ups interleave, a workflow never has more
  runs that are pending or have an active pod than its limit allows, as long as no pod comes back after it has ended and no edit
  lowers the limit.\<close>

theorem workflow_concurrency_bound:
  assumes "calm_run ss (fresh_sys ws)" "gm_get (db_workflows (the_db (exec_stmts ss (fresh_sys ws)))) wid = Some w"
  shows "int (CountActiveRuns wid (the_db (exec_stmts ss (fresh_sys ws)))) \<le> max 0 (wf_MaxConcurrentRuns w)"
proof -
  have "within_limits (the_db (exec_stmts ss (fresh_sys ws)))"
    by (rule within_limits_run [OF _ _ assms(1)]) (simp_all add: rows_ok_def within_limits_def fresh_sys_def CountActiveRuns_def)
  then show ?thesis using assms(2) by (simp add: within_limits_def)
qed

end
