(* ===== verification/WorkflowHandlers.thy ===== *)
theory WorkflowHandlers
  imports WorkflowBound
begin

text \<open>
  Every handler of workflow runs, run as a whole, is a sequence of the statements of \<open>WorkflowSteps\<close>, so that what holds for all
  sequences of statements holds for the handlers, one after the other or interleaved.
\<close>

definition does :: "sys \<Rightarrow> db \<Rightarrow> bool" where
  "does s d \<longleftrightarrow> (\<exists>ss. the_db (exec_stmts ss s) = d \<and> owed (exec_stmts ss s) = owed s)"

lemma does_nothing [intro, simp]: "does s (the_db s)"
  by (auto simp: does_def exec_stmts_def intro: exI [of _ "[]"])

lemma does_stmt: "owed (exec_stmt x s) = owed s \<Longrightarrow> the_db (exec_stmt x s) = d \<Longrightarrow> does s d"
  by (auto simp: does_def exec_stmts_def intro!: exI [of _ "[x]"])

lemma does_then:
  assumes "does s d" "wreach s" "\<And>s1. wreach s1 \<Longrightarrow> the_db s1 = d \<Longrightarrow> does s1 d'"
  shows "does s d'"
proof -
  obtain ss where ss: "the_db (exec_stmts ss s) = d" "owed (exec_stmts ss s) = owed s" using assms(1) by (auto simp: does_def)
  obtain ss' where "the_db (exec_stmts ss' (exec_stmts ss s)) = d'" "owed (exec_stmts ss' (exec_stmts ss s)) = owed (exec_stmts ss s)"
    using assms(3) [OF wreach_stmts [OF assms(2)] ss(1)] by (auto simp: does_def)
  then show ?thesis using ss(2) by (auto simp: does_def exec_stmts_def intro!: exI [of _ "ss @ ss'"])
qed

lemma does_next:
  assumes "does s d" "wreach s" "\<And>s1. wreach s1 \<Longrightarrow> does s1 (g (the_db s1))"
  shows "does s (g d)"
  by (rule does_then [OF assms(1,2)]) (use assms(3) in blast)

text \<open>A run that a handler has read: its number is taken and a row with that number is a row of the same workflow.\<close>

definition knows :: "db \<Rightarrow> run \<Rightarrow> bool" where
  "knows d r \<longleftrightarrow> run_ID r < db_nextRun d \<and> (\<forall>r'\<in>set (db_runs d). run_ID r' = run_ID r \<longrightarrow> run_WorkflowID r' = run_WorkflowID r)"

lemma knows_row: "rows_ok s \<Longrightarrow> r \<in> set (db_runs (the_db s)) \<Longrightarrow> knows (the_db s) r"
  by (auto simp: knows_def rows_ok_def distinct_map inj_on_def)

lemma knows_step: "knows (the_db s) r \<Longrightarrow> knows (the_db (exec_stmt x s)) r"
proof (cases x s rule: runs_step_cases)
  case (changed f)
  then have "run_ID (f q) = run_ID q \<and> run_WorkflowID (f q) = run_WorkflowID q" for q by (simp add: row_change_def)
  then show "knows (the_db s) r \<Longrightarrow> ?thesis" using changed by (auto simp: knows_def)
qed (auto simp: knows_def)

lemma knows_does: "does s d \<Longrightarrow> knows (the_db s) r \<Longrightarrow> knows d r"
proof -
  have "knows (the_db s) r \<Longrightarrow> knows (the_db (exec_stmts ss s)) r" for ss
    by (induction ss arbitrary: s) (auto simp: exec_stmts_def dest: knows_step)
  then show "does s d \<Longrightarrow> knows (the_db s) r \<Longrightarrow> knows d r" by (auto simp: does_def)
qed

subsection \<open>Finishing\<close>

lemma does_stats:
  assumes "owed s = os @ [(None, wid, status, now)]"
  shows "\<exists>ss. the_db (exec_stmts ss s) = IncrementRunStats wid status now (the_db s) \<and> owed (exec_stmts ss s) = os"
  by (intro exI [of _ "[SStats (length os)]"]) (simp add: exec_stmts_def assms)

lemma does_reread:
  assumes "owed s = os @ [(Some rid, wid, status, now)]" "GetByID rid (the_db s) = Some r"
  shows "\<exists>ss. the_db (exec_stmts ss s) = IncrementRunStats (run_WorkflowID r) status now (the_db s) \<and> owed (exec_stmts ss s) = os"
  by (intro exI [of _ "[SReread (length os), SStats (length os)]"]) (simp add: exec_stmts_def assms)

lemma does_finish:
  assumes "wreach s" "find_run (\<lambda>r. run_ID r = rid \<and> run_FinishedAt r = None) (the_db s) = Some r"
    and "exec_stmt x s = finish_stmt reread rid status now f s"
    and "\<And>r. run_ID (f r) = run_ID r \<and> run_WorkflowID (f r) = run_WorkflowID r"
    and "reread \<Longrightarrow> \<exists>r'. GetByID rid (fst (FinishRun rid f (the_db s))) = Some r' \<and> run_WorkflowID r' = run_WorkflowID r"
  shows "does s (IncrementRunStats (run_WorkflowID r) status now (fst (FinishRun rid f (the_db s))))"
proof -
  let ?s = "exec_stmt x s"
  have s1: "the_db ?s = fst (FinishRun rid f (the_db s))"
      "owed ?s = owed s @ [(if reread then Some rid else None, run_WorkflowID r, status, now)]"
    unfolding assms(3) by (simp_all add: finish_stmt_same FinishRun_runs finish_stmt_owed [OF rows_ok_reach [OF assms(1)] assms(4)] assms(2))
  obtain ss where "the_db (exec_stmts ss ?s) = IncrementRunStats (run_WorkflowID r) status now (the_db ?s)" "owed (exec_stmts ss ?s) = owed s"
  proof (cases reread)
    case True
    obtain r' where r': "GetByID rid (the_db ?s) = Some r'" "run_WorkflowID r' = run_WorkflowID r" using assms(5) True s1(1) by auto
    then show ?thesis using that does_reread [OF _ r'(1), of "owed s"] s1(2) True by auto
  next
    case False
    then show ?thesis using that does_stats [of ?s "owed s"] s1 by auto
  qed
  then show ?thesis by (auto simp: does_def exec_stmts_def s1(1) intro!: exI [of _ "x # ss"])
qed

lemma does_effects:
  assumes "wreach s"
  shows "does s (applyRunCompletionEffects r status m (the_db s))"
proof -
  define d' where "d' = (case run_ResourceRevision r of
            Some revision \<Rightarrow> if run_PodKey r \<noteq> None \<and> mf_SandboxStrategy m = ''persistent''
                             then applyPersistentRuntimeState r status revision (the_db s) else the_db s
          | None \<Rightarrow> the_db s)"
  have rt: "does s (UpdateForResourceRevision (run_WorkflowID r) revision (\<lambda>w. w\<lparr>wf_LastPodKey := Some k\<rparr>) (the_db s))"
    "does s (UpdateForResourceRevision (run_WorkflowID r) revision (\<lambda>w. w\<lparr>wf_SandboxPath := None, wf_LastPodKey := None\<rparr>) (the_db s))"
    for revision k
    by (rule does_stmt [of "SRuntime (run_WorkflowID r) revision (Some k)"]; simp)
      (rule does_stmt [of "SRuntime (run_WorkflowID r) revision None"]; simp)
  have start: "does s d'" unfolding d'_def applyPersistentRuntimeState_def using rt by (auto split: option.split)
  have trim: "does s1 (DeleteOldFinishedRuns (run_WorkflowID r) (mf_MaxRetainedRuns m) (the_db s1))" for s1
    by (rule does_stmt [of "STrim (run_WorkflowID r) (mf_MaxRetainedRuns m)"]) (simp_all add: Let_def)
  have "does s (DeleteOldFinishedRuns (run_WorkflowID r) (mf_MaxRetainedRuns m) d')"
    by (rule does_then [OF start assms]) (use trim in blast)
  then show ?thesis by (simp add: applyRunCompletionEffects_def d'_def Let_def)
qed

lemma does_HandleRunCompleted:
  assumes "wreach s" "knows (the_db s) seen" "status \<in> {''completed'', ''failed'', ''timeout'', ''cancelled''}"
  shows "does s (HandleRunCompleted seen status now (the_db s))"
proof (cases "find_run (\<lambda>r. run_ID r = run_ID seen \<and> run_FinishedAt r = None) (the_db s)")
  case None
  then show ?thesis by (simp add: HandleRunCompleted_def case_prod_beta FinishRun_updated Let_def FinishRun_runs update_runs_none)
next
  case (Some r)
  then have w: "run_WorkflowID r = run_WorkflowID seen" using assms(2) find_run_Some [OF Some] by (auto simp: knows_def)
  let ?d = "IncrementRunStats (run_WorkflowID seen) status now (fst (FinishRun (run_ID seen) (finish_completed seen status now) (the_db s)))"
  have x: "exec_stmt (SComplete (run_ID seen) (run_StartedAt seen) status now) s
      = finish_stmt False (run_ID seen) status now (finish_completed seen status now) s"
    using assms(3) by (simp add: finish_completed_def [abs_def])
  have d: "does s ?d" using does_finish [OF assms(1) Some x] w by (simp add: finish_completed_def)
  have "does s (case PinnedExecution seen of Inl e \<Rightarrow> ?d | Inr m \<Rightarrow> applyRunCompletionEffects seen status m ?d)"
  proof (cases "PinnedExecution seen")
    case (Inr m)
    have "does s (applyRunCompletionEffects seen status m ?d)" by (rule does_next [OF d assms(1)]) (rule does_effects)
    then show ?thesis by (simp add: Inr)
  qed (simp add: d)
  then show ?thesis by (simp add: HandleRunCompleted_def case_prod_beta FinishRun_updated Some Let_def)
qed

lemma does_markRunTerminal:
  assumes "wreach s" "status \<in> {''failed'', ''cancelled''}"
  shows "does s (markRunTerminal rid status msg now (the_db s))"
proof (cases "find_run (\<lambda>r. run_ID r = rid \<and> run_FinishedAt r = None) (the_db s)")
  case None
  then show ?thesis by (simp add: markRunTerminal_def case_prod_beta FinishRun_updated Let_def FinishRun_runs update_runs_none)
next
  case (Some r)
  let ?d = "fst (FinishRun rid (finish_terminal status msg now) (the_db s))" and ?r = "finish_terminal status msg now r"
  have r: "r \<in> set (db_runs (the_db s))" "run_ID r = rid" "run_FinishedAt r = None" using find_run_Some [OF Some] by auto
  have ids: "map run_ID (db_runs ?d) = map run_ID (db_runs (the_db s))"
    by (simp add: FinishRun_runs db_runs_update finish_terminal_def)
  have "distinct (map run_ID (db_runs ?d))" using rows_ok_reach [OF assms(1)] unfolding ids by (simp add: rows_ok_def)
  moreover have "?r \<in> set (db_runs ?d)" using r by (auto simp: FinishRun_runs db_runs_update image_iff intro!: bexI [of _ r])
  ultimately have "get_run (run_ID ?r) ?d = Some ?r" by (rule get_run_mem)
  then have "GetByID rid ?d = Some ?r" using r(2) by (simp add: GetByID_def resolveOneRunStatus_def finish_terminal_def)
  then have "markRunTerminal rid status msg now (the_db s) = IncrementRunStats (run_WorkflowID r) status now ?d"
    by (simp add: markRunTerminal_def case_prod_beta FinishRun_updated Some Let_def finish_terminal_def)
  moreover have x: "exec_stmt (STerminal rid status msg now) s = finish_stmt True rid status now (finish_terminal status msg now) s"
    using assms(2) by simp
  moreover have "\<exists>r'. GetByID rid ?d = Some r' \<and> run_WorkflowID r' = run_WorkflowID r"
    using \<open>GetByID rid ?d = Some ?r\<close> by (simp add: finish_terminal_def)
  ultimately show ?thesis using does_finish [OF assms(1) Some x] by (simp add: finish_terminal_def)
qed

subsection \<open>Events\<close>

lemma DeriveRunStatus_cases: "DeriveRunStatus p a \<in> {''running'', ''completed'', ''failed'', ''cancelled''}"
  by (simp add: DeriveRunStatus_def deriveFromPodStatus_def)

lemma does_on_pod_event: "wreach s \<Longrightarrow> does s (on_pod_event now e (the_db s))"
proof (cases "GetActiveRunByPodKey (fst e) (the_db s)")
  case (Some r)
  assume s: "wreach s"
  have "r \<in> set (db_runs (the_db s))" using Some find_run_Some by (auto simp: GetActiveRunByPodKey_def)
  then have k: "knows (the_db s) r" by (rule knows_row [OF rows_ok_reach [OF s]])
  have "does s (HandleRunCompleted r (DeriveRunStatus p a) now (the_db s))" if "DeriveRunStatus p a \<noteq> ''running''" for p a
    by (rule does_HandleRunCompleted [OF s k]) (use that DeriveRunStatus_cases [of p a] in blast)
  then show ?thesis by (simp add: on_pod_event_def HandlePodTerminated_def Some Let_def)
qed (simp add: on_pod_event_def HandlePodTerminated_def)

lemma does_on_autopilot_event: "wreach s \<Longrightarrow> does s (on_autopilot_event now e (the_db s))"
proof (cases "GetByAutopilotKey (fst e) (the_db s)")
  case (Some r)
  assume s: "wreach s"
  have "r \<in> set (db_runs (the_db s))" using Some find_run_Some by (auto simp: GetByAutopilotKey_def)
  then have k: "knows (the_db s) r" by (rule knows_row [OF rows_ok_reach [OF s]])
  show ?thesis
    using does_HandleRunCompleted [OF s k]
    by (auto simp: on_autopilot_event_def HandleAutopilotTerminated_def Some Let_def DeriveRunStatus_def)
qed (simp add: on_autopilot_event_def HandleAutopilotTerminated_def)

text \<open>A handler that does one thing after another for each element of a list.\<close>

lemma does_fold:
  assumes "wreach s" "\<And>x s1. x \<in> set xs \<Longrightarrow> wreach s1 \<Longrightarrow> Q (the_db s1) \<Longrightarrow> does s1 (f x (the_db s1))"
    and "Q (the_db s)" "\<And>s1 d. wreach s1 \<Longrightarrow> does s1 d \<Longrightarrow> Q (the_db s1) \<Longrightarrow> Q d"
  shows "does s (fold f xs (the_db s))"
  using assms(1-3)
proof (induction xs arbitrary: s)
  case (Cons x xs)
  have x: "does s (f x (the_db s))" by (rule Cons.prems(2)) (use Cons.prems in auto)
  have "does s (fold f xs (f x (the_db s)))"
  proof (rule does_then [OF x Cons.prems(1)])
    fix s1 :: sys assume s1: "wreach s1" "the_db s1 = f x (the_db s)"
    have "Q (the_db s1)" unfolding s1(2) using assms(4) [OF Cons.prems(1) x Cons.prems(3)] .
    then have "does s1 (fold f xs (the_db s1))" by (intro Cons.IH s1(1) Cons.prems(2)) simp_all
    then show "does s1 (fold f xs (f x (the_db s)))" by (simp add: s1(2))
  qed
  then show ?case by simp
qed simp

lemma does_pod_events: "wreach s \<Longrightarrow> does s (with_pod_events now (the_db s, ns))"
  unfolding with_pod_events_def fst_conv snd_conv by (rule does_fold [where Q = "\<lambda>d. True"]) (simp_all add: does_on_pod_event)

lemma does_autopilot_events: "wreach s \<Longrightarrow> does s (with_autopilot_events now (the_db s, ns))"
  unfolding with_autopilot_events_def fst_conv snd_conv
  by (rule does_fold [where Q = "\<lambda>d. True"]) (simp_all add: does_on_autopilot_event)

lemma does_pod: "wreach s \<Longrightarrow> does s (with_pod_events now (pod_handler p (the_db s)))"
proof -
  assume s: "wreach s"
  have "does s (exec_pod p (the_db s))" by (rule does_stmt [of "SPod p"]) simp_all
  then have "does s (with_pod_events now (exec_pod p (the_db s), snd (pod_handler p (the_db s))))"
    by (rule does_next [OF _ s]) (rule does_pod_events)
  then show ?thesis by (simp add: exec_pod_def)
qed

lemma does_TerminatePod: "wreach s \<Longrightarrow> does s (TerminatePod k now (the_db s))"
  using does_pod [of s now "PodClosed k now"] by (cases "terminatePod k now (the_db s)") (simp_all add: TerminatePod_def)

lemma does_controller:
  assumes "wreach s"
  shows "does s (with_autopilot_events now (update_controller key f (the_db s), ns))"
proof -
  have "does s (update_controller key f (the_db s))"
  proof (cases "gm_get (db_controllers (the_db s)) key")
    case (Some c)
    then show ?thesis by (intro does_stmt [of "SController key (f c)"]) (simp_all add: update_controller_def)
  qed (simp add: update_controller_def)
  then show ?thesis by (rule does_next [OF _ assms]) (rule does_autopilot_events)
qed

subsection \<open>Requests\<close>

text \<open>A request is what one call of the orchestrator, of the pod coordinator or of the API does.\<close>

datatype request = RTrigger int str str trigger_params | RStart int "str + str \<times> str" "str + str" | RPod pod_stmt
  | RStatus str str int int int | RCreated str | REnded str str | RTimeouts "int list" | RIdle "int list" | ROrphans "int list" | RCancel int int

fun serve_request :: "request \<Rightarrow> nat \<Rightarrow> db \<Rightarrow> db" where
  "serve_request (RTrigger wid tt ts prompt) now d = (case TriggerRun wid tt ts prompt now d of Inl e \<Rightarrow> d | Inr (d', rest) \<Rightarrow> d')"
| "serve_request (RStart rid created autopilot) now d = StartRun rid created autopilot now d"
| "serve_request (RPod p) now d = with_pod_events now (pod_handler p d)"
| "serve_request (RStatus key phase iteration startedAt lastAt) now d =
     with_autopilot_events now (handleAutopilotControllerStatus key phase iteration startedAt lastAt now d)"
| "serve_request (RCreated key) now d = with_autopilot_events now (handleAutopilotControllerCreated key now d)"
| "serve_request (REnded key reason) now d = with_autopilot_events now (handleAutopilotControllerTerminated key reason now d)"
| "serve_request (RTimeouts orgs) now d = CheckTimeoutRuns orgs now d"
| "serve_request (RIdle orgs) now d = CheckIdleLoopPods orgs now d"
| "serve_request (ROrphans orgs) now d = CleanupOrphanPendingRuns orgs now d"
| "serve_request (RCancel wid rid) now d = fst (CancelRun wid rid now d)"

text \<open>The key of a pod that CreatePod has created is new.\<close>

definition fresh_key :: "request \<Rightarrow> db \<Rightarrow> bool" where
  "fresh_key q d = (case q of
      RStart rid created autopilot \<Rightarrow> (case created of Inl e \<Rightarrow> True
        | Inr (key, st) \<Rightarrow> gm_get (db_pods d) key = None \<and> find_run (\<lambda>r. run_PodKey r = Some key) d = None)
    | _ \<Rightarrow> True)"

lemma does_trigger:
  assumes "wreach s"
  shows "does s (serve_request (RTrigger wid tt ts prompt) now (the_db s))"
proof (cases "TriggerRunAtomic wid tt ts prompt now (the_db s)")
  case (Inr e)
  obtain d r sk re where e: "e = (d, r, sk, re)" by (cases e) auto
  show ?thesis
  proof (cases sk)
    case True
    then show ?thesis unfolding does_def
      by (intro exI [of _ "[STrigger wid tt ts prompt now, SStats (length (owed s))]"])
        (simp add: TriggerRun_def Inr e exec_stmts_def)
  next
    case False
    show ?thesis by (rule does_stmt [of "STrigger wid tt ts prompt now"]) (simp_all add: False TriggerRun_def Inr e)
  qed
qed (simp add: TriggerRun_def)

lemma does_end_with:
  assumes "wreach s" "knows (the_db s) r" "status \<in> {''completed'', ''failed'', ''timeout'', ''cancelled''}"
  shows "does s (end_with status now r (the_db s))"
proof (cases "run_PodKey r")
  case None
  then show ?thesis using does_HandleRunCompleted [OF assms] by (simp add: end_with_def)
next
  case (Some k)
  have "does s (TerminatePod k now (HandleRunCompleted r status now (the_db s)))"
    by (rule does_next [OF does_HandleRunCompleted [OF assms, of now] assms(1)]) (rule does_TerminatePod)
  then show ?thesis by (simp add: end_with_def Some)
qed

lemma does_end_all:
  assumes "wreach s" "set rs \<subseteq> set (db_runs (the_db s))" "status \<in> {''completed'', ''failed'', ''timeout'', ''cancelled''}"
  shows "does s (fold (end_with status now) rs (the_db s))"
proof (rule does_fold [where Q = "\<lambda>d. \<forall>r\<in>set rs. knows d r"])
  show "\<forall>r\<in>set rs. knows (the_db s) r" using knows_row [OF rows_ok_reach [OF assms(1)]] assms(2) by blast
next
  fix r and s1 :: sys assume "r \<in> set rs" "wreach s1" "\<forall>r\<in>set rs. knows (the_db s1) r"
  then show "does s1 (end_with status now r (the_db s1))" by (intro does_end_with assms(3)) simp_all
next
  fix s1 :: sys and d assume "does s1 d" "\<forall>r\<in>set rs. knows (the_db s1) r"
  then show "\<forall>r\<in>set rs. knows d r" using knows_does by blast
qed (rule assms(1))

lemma does_MarkRunFailed: "wreach s \<Longrightarrow> does s (MarkRunFailed rid msg now (the_db s))"
  by (simp add: MarkRunFailed_def does_markRunTerminal)

lemma does_start_autopilot:
  assumes "wreach s"
  shows "does s (start_autopilot rid key m autopilot now (the_db s))"
proof (cases "mf_ExecutionMode m = ''autopilot''")
  case True
  show ?thesis
  proof (cases autopilot)
    case (Inl e)
    have "does s (MarkRunFailed rid (''Autopilot creation failed: '' @ e) now (TerminatePod key now (the_db s)))"
      by (rule does_next [OF does_TerminatePod [OF assms] assms]) (rule does_MarkRunFailed)
    then show ?thesis by (simp add: start_autopilot_def True Inl)
  next
    case (Inr a)
    let ?n = "if cfg_MaxIterations (mf_Autopilot m) = 0 then 10 else cfg_MaxIterations (mf_Autopilot m)"
    have "does s (insert_controller a ?n (the_db s))"
      by (rule does_stmt [of "SController a (new_controller ?n)"]) (simp_all add: insert_controller_def)
    then have "does s (set_autopilot_key rid a (insert_controller a ?n (the_db s)))"
    proof (rule does_then [OF _ assms])
      fix s1 :: sys assume "the_db s1 = insert_controller a ?n (the_db s)"
      then show "does s1 (set_autopilot_key rid a (insert_controller a ?n (the_db s)))"
        by (intro does_stmt [of "SKey rid a"]) simp_all
    qed
    then show ?thesis by (simp add: start_autopilot_def True Inr)
  qed
qed (simp add: start_autopilot_def)

lemma BindPod_bound: "snd (BindPod rid k a d) = (find_run (\<lambda>r. run_ID r = rid \<and> run_FinishedAt r = None \<and> run_PodKey r = None) d \<noteq> None)"
  by (simp add: BindPod_def Let_def)

lemma does_bind:
  assumes "wreach s" "fresh_key (RStart rid (Inr (key, st)) autopilot) (the_db s)"
  shows "does s (fst (BindPod rid key [] (insert_pod key st (the_db s))))"
proof -
  have f: "gm_get (db_pods (the_db s)) key = None" "find_run (\<lambda>r. run_PodKey r = Some key) (the_db s) = None"
    using assms(2) by (simp_all add: fresh_key_def)
  have "does s (insert_pod key st (the_db s))" by (rule does_stmt [of "SInsertPod key st"]) (simp_all add: f)
  then show ?thesis
  proof (rule does_then [OF _ assms(1)])
    fix s1 :: sys assume "the_db s1 = insert_pod key st (the_db s)"
    then show "does s1 (fst (BindPod rid key [] (insert_pod key st (the_db s))))"
      using f(2) by (intro does_stmt [of "SBind rid key []"]) (simp_all add: find_run_def insert_pod_def)
  qed
qed

lemma does_start:
  assumes "wreach s" "fresh_key (RStart rid created autopilot) (the_db s)"
  shows "does s (StartRun rid created autopilot now (the_db s))"
proof -
  have fail: "does s (MarkRunFailed rid msg now (the_db s))" for msg
    by (rule does_MarkRunFailed [OF assms(1)])
  have go: "does s (let (d', bound) = BindPod rid key [] (insert_pod key st (the_db s))
      in if bound then start_autopilot rid key m autopilot now d' else TerminatePod key now d')" if "created = Inr (key, st)" for key st m
  proof -
    have b: "does s (fst (BindPod rid key [] (insert_pod key st (the_db s))))" by (rule does_bind [OF assms(1)]) (use assms(2) that in simp)
    have "does s (start_autopilot rid key m autopilot now (fst (BindPod rid key [] (insert_pod key st (the_db s)))))"
      by (rule does_next [OF b assms(1)]) (rule does_start_autopilot)
    moreover have "does s (TerminatePod key now (fst (BindPod rid key [] (insert_pod key st (the_db s)))))"
      by (rule does_next [OF b assms(1)]) (rule does_TerminatePod)
    ultimately show ?thesis by (simp add: case_prod_beta Let_def)
  qed
  show ?thesis unfolding StartRun_def using fail go by (auto split: option.split sum.split)
qed

lemma does_cancel: "wreach s \<Longrightarrow> does s (fst (CancelRun wid rid now (the_db s)))"
proof -
  assume s: "wreach s"
  have "does s (with_pod_events now dn)" if "terminatePod k now (the_db s) = Inr dn" for k dn
    using does_pod [OF s, of now "PodClosed k now"] that by simp
  then show ?thesis
    by (auto simp: CancelRun_def MarkRunCancelled_def does_markRunTerminal s split: option.split sum.split)
qed

text \<open>C34. Each handler is a sequence of statements: for every request, whatever the pod service and the autopilot service answer,
  the whole handler, the events it raises and their handlers included, has the effect of some sequence of the statements
  on every reachable database, and leaves no counter update owing.\<close>

theorem workflow_handlers_refine:
  assumes "wreach s" "fresh_key q (the_db s)"
  shows "\<exists>ss. the_db (exec_stmts ss s) = serve_request q now (the_db s) \<and> owed (exec_stmts ss s) = owed s"
proof -
  have "does s (serve_request q now (the_db s))"
  proof (cases q)
    case (RStart rid created autopilot)
    then show ?thesis using does_start [OF assms(1)] assms(2) by simp
  next
    case (RTimeouts orgs)
    have "does s (CheckTimeoutRuns orgs now (the_db s))" unfolding CheckTimeoutRuns_def
      by (rule does_end_all [OF assms(1)]) (auto simp: GetTimedOutRuns_def)
    then show ?thesis by (simp add: RTimeouts)
  next
    case (RIdle orgs)
    have "does s (CheckIdleLoopPods orgs now (the_db s))" unfolding CheckIdleLoopPods_def
      by (rule does_end_all [OF assms(1)]) (auto simp: GetIdleWorkflowPods_def)
    then show ?thesis by (simp add: RIdle)
  next
    case (ROrphans orgs)
    have "does s (CleanupOrphanPendingRuns orgs now (the_db s))" unfolding CleanupOrphanPendingRuns_def MarkRunFailed_def
      by (rule does_fold [where Q = "\<lambda>d. True"]) (simp_all add: assms(1) does_markRunTerminal)
    then show ?thesis by (simp add: ROrphans)
  qed (simp_all add: does_pod does_cancel does_controller does_trigger [simplified] assms(1) handleAutopilotControllerStatus_def
      handleAutopilotControllerCreated_def handleAutopilotControllerTerminated_def Let_def)
  then show ?thesis by (simp add: does_def)
qed

end
