(* ===== verification/WorkflowExamples.thy ===== *)
theory WorkflowExamples
  imports WorkflowHandlers
begin

text \<open>
  Concrete runs of a workflow: instances of the properties, and runs in which what is recorded differs from what happened.
\<close>

definition config0 :: autopilot_config where
  "config0 = \<lparr>cfg_MaxIterations = 3, cfg_IterationTimeoutSec = 300, cfg_NoProgressThreshold = 3, cfg_SameErrorThreshold = 3,
     cfg_ApprovalTimeoutMin = 30\<rparr>"

definition nightly :: "str \<Rightarrow> workflow" where
  "nightly execution = \<lparr>wf_OrganizationID = 7, wf_Name = ''Nightly'', wf_Slug = ''nightly'', wf_CreatedByID = 2,
     wf_PromptTemplate = ''Fix {{what}}'', wf_PromptVariables = [(''what'', ''the build'')], wf_ExecutionMode = execution,
     wf_AutopilotConfig = Some config0, wf_SandboxStrategy = ''persistent'', wf_SessionPersistence = True, wf_CallbackURL = None,
     wf_TicketID = None, wf_Status = ''enabled'', wf_ConcurrencyPolicy = ''skip'', wf_MaxConcurrentRuns = 1, wf_MaxRetainedRuns = 1,
     wf_TimeoutMinutes = 60, wf_IdleTimeoutSec = 30, wf_SandboxPath = None, wf_LastPodKey = None, wf_ResourceID = Some 4,
     wf_ResourceRevision = Some 1, wf_SnapshotID = Some 9, wf_TotalRuns = 0, wf_SuccessfulRuns = 0, wf_FailedRuns = 0,
     wf_LastRunAt = None\<rparr>"

definition empty_db :: "str \<Rightarrow> db" where
  "empty_db execution = the_db (fresh_sys [(1, nightly execution)])"

definition serve_all :: "(request \<times> nat) list \<Rightarrow> db \<Rightarrow> db" where
  "serve_all qs d = fold (\<lambda>(q, now) d. serve_request q now d) qs d"

definition run_status :: "int \<Rightarrow> db \<Rightarrow> str option" where
  "run_status rid d = map_option run_Status (GetByID rid d)"

definition counters :: "db \<Rightarrow> (int \<times> int \<times> int) option" where
  "counters d = map_option (\<lambda>w. (wf_TotalRuns w, wf_SuccessfulRuns w, wf_FailedRuns w)) (gm_get (db_workflows d) 1)"

definition trigger :: request where
  "trigger = RTrigger 1 ''manual'' ''ui'' ([], \<lambda>xs. xs)"

text \<open>The course of a run that goes well: it is triggered, started, its pod runs and completes.\<close>

lemma completed_run:
  "let d = serve_all [(trigger, 10), (RStart 1 (Inr (''p1'', ''initializing'')) (Inl []), 11), (RPod (PodCreated ''p1'' 12), 12),
        (RPod (PodTerminated ''p1'' ''completed'' [] 60), 60)] (empty_db ''direct'')
   in run_status 1 d = Some ''completed'' \<and> counters d = Some (1, 1, 0) \<and> CountActiveRuns 1 d = 0
      \<and> map_option wf_LastPodKey (gm_get (db_workflows d) 1) = Some (Some ''p1'')"
  by code_simp

text \<open>A run that its user cancels while its pod is active is recorded as completed, and counted as a success: the handler ends
  the pod, and a pod that is ended on request gets the status completed.\<close>

lemma cancelled_run_counts_as_success:
  "let d = serve_all [(trigger, 10), (RStart 1 (Inr (''p1'', ''initializing'')) (Inl []), 11), (RPod (PodCreated ''p1'' 12), 12),
        (RCancel 1 1, 20)] (empty_db ''direct'')
   in run_status 1 d = Some ''completed'' \<and> counters d = Some (1, 1, 0)"
  by code_simp

text \<open>A run whose autopilot cannot be created is recorded as completed too: the pod is ended first, its event completes the run, and
  the failure finds it finished.\<close>

lemma failed_autopilot_counts_as_success:
  "let d = serve_all [(trigger, 10), (RStart 1 (Inr (''p1'', ''initializing'')) (Inl ''no slot''), 11)] (empty_db ''autopilot'')
   in run_status 1 d = Some ''completed'' \<and> counters d = Some (1, 1, 0)"
  by code_simp

text \<open>An autopilot that has used its iterations does not finish its run: the subscription leaves the phase max_iterations out, while
  DeriveRunStatus takes it for completed. When its pod is stopped, the phase becomes stopped, and the run is cancelled.\<close>

definition used_up :: "(request \<times> nat) list" where
  "used_up = [(trigger, 10), (RStart 1 (Inr (''p1'', ''initializing'')) (Inr ''a1''), 11), (RPod (PodCreated ''p1'' 12), 12),
     (RCreated ''a1'', 13), (REnded ''a1'' ''max_iterations'', 50)]"

lemma max_iterations_not_finished:
  "let d = serve_all used_up (empty_db ''autopilot'')
   in run_status 1 d = Some ''completed'' \<and> map_option run_FinishedAt (get_run 1 d) = Some None \<and> counters d = Some (0, 0, 0)
      \<and> CountActiveRuns 1 d = 1"
  "let d = serve_all (used_up @ [(REnded ''a1'' ''stopped'', 60)]) (empty_db ''autopilot'')
   in run_status 1 d = Some ''cancelled'' \<and> counters d = Some (1, 0, 1)"
  by code_simp+

text \<open>A pod that comes back exceeds the limit: the pod of the first run is orphaned, the second run starts, and a heartbeat or a late
  message that the pod was created makes the first active again.\<close>

definition orphaned_then_second :: "(request \<times> nat) list" where
  "orphaned_then_second = [(trigger, 10), (RStart 1 (Inr (''p1'', ''initializing'')) (Inl []), 11), (RPod (PodCreated ''p1'' 12), 12),
     (RPod (PodMissing ''p1'' False 100), 100), (trigger, 110), (RStart 2 (Inr (''p2'', ''initializing'')) (Inl []), 111)]"

lemma recovered_pod_exceeds_limit:
  "CountActiveRuns 1 (serve_all orphaned_then_second (empty_db ''direct'')) = 1"
  "CountActiveRuns 1 (serve_all (orphaned_then_second @ [(RPod (PodReported ''p1'' False 120), 120)]) (empty_db ''direct'')) = 2"
  "CountActiveRuns 1 (serve_all [(trigger, 10), (RStart 1 (Inr (''p1'', ''initializing'')) (Inl []), 11),
      (RPod (PodTerminated ''p1'' ''error'' ''boot'' 12), 12), (trigger, 13), (RStart 2 (Inr (''p2'', ''initializing'')) (Inl []), 14),
      (RPod (PodCreated ''p1'' 15), 15)] (empty_db ''direct'')) = 2"
  by code_simp+

text \<open>RefreshLoopStats counts the runs that are under way as well, which are then counted again when they finish.\<close>

lemma refresh_counts_twice:
  "let d = RefreshLoopStats 1 (serve_all [(trigger, 10), (RStart 1 (Inr (''p1'', ''initializing'')) (Inl []), 11)] (empty_db ''direct''))
   in counters d = Some (1, 0, 0) \<and> counters (serve_all [(RPod (PodTerminated ''p1'' ''completed'' [] 60), 60)] d) = Some (2, 1, 0)"
  by code_simp

text \<open>The workflow of the examples, not yet run.\<close>

definition start :: sys where
  "start = fresh_sys [(1, nightly ''direct'')]"

lemma empty_reach: "wreach start"
  unfolding start_def by (rule wreach.init) (auto simp: gm_get_def nightly_def fresh_workflow_def)

text \<open>An update of the counters that is never made: the first run fails, a second run completes and retention, which keeps one run,
  deletes the row of the first before its handler reads it again. Two runs have finished, the counters say one.\<close>

definition trimmed_too_early :: "sql_stmt list" where
  "trimmed_too_early = [STrigger 1 ''manual'' ''ui'' ([], \<lambda>xs. xs) 10, STerminal 1 ''failed'' ''no pod'' 20,
     STrigger 1 ''manual'' ''ui'' ([], \<lambda>xs. xs) 30, SComplete 2 (Some 30) ''completed'' 60, SStats 1, STrim 1 1, SReread 0]"

lemma trimmed_run_not_counted:
  "let s = exec_stmts trimmed_too_early start
   in counters (the_db s) = Some (1, 1, 0) \<and> owed s = [] \<and> lost s = [(Some 1, 1, ''failed'', 20)]
      \<and> map run_ID (db_runs (the_db s)) = [2] \<and> map run_ID (trimmed s) = [1]"
  by code_simp

subsection \<open>Instances of the properties\<close>

text \<open>The first run completes, the second trigger is skipped; the counters of both are still owing.\<close>

definition course :: "sql_stmt list" where
  "course = [STrigger 1 ''manual'' ''ui'' ([], \<lambda>xs. xs) 10, SInsertPod ''p1'' ''initializing'', SBind 1 ''p1'' [],
     SPod (PodCreated ''p1'' 12), STrigger 1 ''cron'' ''schedule'' ([], \<lambda>xs. xs) 20, SComplete 1 (Some 10) ''completed'' 60]"

text \<open>Afterwards another handler tries to fail the run, the counters are updated, and retention deletes the run.\<close>

definition aftermath :: "sql_stmt list" where
  "aftermath = [STerminal 1 ''failed'' ''late'' 61, SKey 1 ''a1'', SStats 1, SStats 0, STrim 1 1]"

lemma finished_run_final_witness:
  "\<exists>r. get_run 1 (the_db (exec_stmts course start)) = Some r \<and> run_Status r = ''completed''
     \<and> (case GetByID 1 (the_db (exec_stmts aftermath (exec_stmts course start))) of
          Some r' \<Rightarrow> same_result r r'
        | None \<Rightarrow> \<exists>r'\<in>set (trimmed (exec_stmts aftermath (exec_stmts course start))). same_result r r')"
proof -
  have "case get_run 1 (the_db (exec_stmts course start)) of None \<Rightarrow> False
      | Some r \<Rightarrow> run_Status r = ''completed'' \<and> run_FinishedAt r \<noteq> None" by code_simp
  then obtain r where r: "get_run 1 (the_db (exec_stmts course start)) = Some r" "run_Status r = ''completed''" "run_FinishedAt r \<noteq> None"
    by (auto split: option.splits)
  show ?thesis using finished_run_final [OF wreach_stmts [OF empty_reach] r(1,3), of aftermath] r(1,2) by blast
qed


lemma workflow_concurrency_bound_witness:
  "\<exists>w. gm_get (db_workflows (the_db (exec_stmts course start))) 1 = Some w \<and> wf_MaxConcurrentRuns w = 1
     \<and> int (CountActiveRuns 1 (the_db (exec_stmts course start))) \<le> max 0 (wf_MaxConcurrentRuns w)"
proof -
  have c: "calm_run course start" by code_simp
  have "case gm_get (db_workflows (the_db (exec_stmts course start))) 1 of None \<Rightarrow> False | Some w \<Rightarrow> wf_MaxConcurrentRuns w = 1" by code_simp
  then obtain w where w: "gm_get (db_workflows (the_db (exec_stmts course start))) 1 = Some w" "wf_MaxConcurrentRuns w = 1"
    by (auto split: option.splits)
  show ?thesis using workflow_concurrency_bound [OF c [unfolded start_def] w(1) [unfolded start_def]] w by (auto simp: start_def)
qed

lemma workflow_handlers_refine_witness:
  "\<exists>ss. the_db (exec_stmts ss (exec_stmts (take 1 course) start))
        = serve_request (RStart 1 (Inr (''p1'', ''queued'')) (Inl [])) 70 (the_db (exec_stmts (take 1 course) start))
     \<and> owed (exec_stmts ss (exec_stmts (take 1 course) start)) = owed (exec_stmts (take 1 course) start)"
proof -
  have "fresh_key (RStart 1 (Inr (''p1'', ''queued'')) (Inl [])) (the_db (exec_stmts (take 1 course) start))" by code_simp
  then show ?thesis by (rule workflow_handlers_refine [OF wreach_stmts [OF empty_reach]])
qed

end
