(* ===== verification/Spec2Isabelle.thy ===== *)
theory Spec2Isabelle
  imports AgentEvalProps AgentEvalDecls AgentLayerProps AgentRoundtrip RelayChannelProps RelayManagerProps RelayHeaders
    LoopRoundtrip RelayAccess RunnerTarget TunnelProps TunnelLimits TunnelTable TunnelRegistry AutopilotRuns WorkflowExamples
begin

text \<open>
  Agent Cloud: a verification library of its core logic.

  The program. Agent Cloud runs coding agents in pods on runner machines. What a pod runs is written in the
  Agentfile language (agentfile/): a base Agentfile of the agent and layers of the user are parsed, merged,
  resolved and serialized by the backend (backend/internal/service/agentpod), and evaluated by the runner to
  a build result: launch command, arguments, environment, files. A browser watches and drives the
  pod through the relay (relay/): one channel for each pod between the runner's connection (the publisher) and
  the browsers (the subscribers), with a control lease that says which browser may type, and an HTTP tunnel for
  previews of the pod's web servers: the backend signs a token for the pod's port and path, the relay exchanges it for a
  session cookie and forwards the requests, the runner sends them to the pod's loopback address. Loops, agents
  run again and again until a verifier is content, are written in a script language of the backend
  (backend/internal/loopscript), which is parsed, checked, printed canonically and compiled to a launch. On the runner an autopilot
  (runner/internal/autopilot) drives a pod by the decisions of a control agent; workflows of the backend start such pods again
  and again, and keep the result of each run.

  Conventions. A Go struct is a record, an interface with its implementations a datatype, an error return a
  sum or an option, a map that Go iterates a list of pairs with distinct keys (gomap, theory Prelude), a map that is
  only looked up the same. Strings are lists of char, one char for each rune: runes above 255 are not modelled.
  uint32, uint64 and byte values are words, so arithmetic wraps as in Go; int, int64 and time values that the
  code never brings near their limits are int. A method that runs under a mutex is one function from state to
  state; where the code unlocks in the middle, or starts a goroutine or a timer, the parts are separate
  steps of an inductive relation, so that every interleaving of them is a run.

  Part 1, the Agentfile language.
    AgentLexer (agentfile/lexer): the tokens, the reader of each token form, Tokenize, lex_step as one NextToken.
    AgentAst, AgentParser (agentfile/parser): the syntax trees; the recursive descent parser, the Parser struct
      as the tokens left and the errors so far, a function for each parse method. The mutual recursion through
      blocks and expressions takes a bound that Parse computes from the number of tokens; AgentParserTotal
      shows that no call reaches it (Parse_returns), so the bound is not seen in any result.
    AgentCapability (agentfile/capability): the capability axes.
    AgentValues, AgentBuiltins, AgentEval (agentfile/eval): dynamic values and the ten builtins, with encoding/json
      in GoJson and float64 formatting in GoFloat; the evaluation context as a record; evalExpr, one function
      for each statement and declaration, Eval, ApplyRemoves. The order in which Go visits a map is random: it is the
      parameter range_order of the run, and a property that holds for all orders says so.
    AgentMerge (agentfile/merge), AgentSerialize (agentfile/serialize, agentfile/format.go).
    AgentExtract (agentfile/extract, schema, resolve and the pod service's pipeline in
      backend/internal/service/agentpod/agentfile_extract.go and pod_orchestrator_system_config.go).
    Lemmas: AgentTokens (each token form printed is read back), AgentRoundExpr, AgentRoundDecl, AgentRoundParse
      and AgentRoundtrip (Serialize then Parse is the identity up to positions on the programs roundtrip_ok
      describes, and a program on which the printer's missing parentheses break it), AgentMergeProps (merge refines an
      overlay of finite maps, by the locale of the abstract overlay and its interpretation), AgentEvalProps
      (relations on contexts that every statement keeps, as a locale; frame, bound and order independence are its
      interpretations), AgentEvalDecls (environment, MCP servers, removes), AgentLayerProps (the pipeline).

  Part 2, the relay.
    RelayProtocol (relay/internal/protocol, runner/internal/tunnelframe): messages and frames.
    RelayLeaseMsg: the JSON of lease requests and statuses as far as the relay reads and writes it.
    RelayChannel (relay/internal/channel without the manager): the channel's record extends its surroundings,
      that is connections, armed timers, messages sent and callbacks called; one function for each method.
      Broadcast and RemoveSubscriber call each other through the lease: RelayBroadcast shows that the number of
      subscribers plus one is enough calls, so both satisfy the equations of the code (Broadcast_returns).
      RelayLease and RelayLock: relations that every operation keeps, by the locale broadcast_relation; the
      lease as an exclusive lock with expiry (refinement).
    RelaySteps, RelayChannelProps: the step relation of a channel with its timers, readers and the clock, the
      invariant of its reachable states, and what follows: a lease timer never ends a lease early (in a run of
      fewer than a quarter of 2 to the 64 steps, since epochs are 64 bit and a step uses at most four), every
      lease can end, a lost runner is always handled, and two runs that show limits of the code.
    RelayManager, RelayManagerProps (channel_manager.go, _connect.go, _types.go): the tables of channels and
      of connections that wait for their other side; one step for each part between two unlocks; the invariant of
      the reachable states, and the interleaving in which CloseChannel removes a channel it did not close.
    RelayHeaders (relay/internal/proxy/headers.go): what the proxy strips and sets.

  Part 3, loop scripts and slugs.
    Slugkit (backend/pkg/slugkit): the rule of an identifier, sanitizing, the generator, whose check of a candidate is a
      callback that may fail.
    LoopLexer, LoopParser (backend/internal/loopscript, lexer.go, parser*.go): the lexer as a loop over positions, the
      parser's methods over the record of its state (State_Monad). Both are total; the loops take the number of tokens
      left as their measure. The detector of secrets (secretguard) is a parameter.
    LoopScript (validation*.go, formatter.go, compiler.go): the checks, the canonical text, the launch.
    LoopScan (what the lexer makes of a printed text), LoopParses (the parser accepts the tokens of every well-formed
      program), LoopYields (what a parse without diagnostics has made), LoopRoundtrip (the properties).

  Part 4, the preview of a pod.
    GoUrl: net/url and path as far as the code calls them; a char is a byte in this part.
    RelayPreview (relay/internal/auth/preview_path.go, backend/internal/service/relay/preview.go,
      relay/internal/server/handler_preview_route.go and joinPreviewUpstreamPath): canonical paths, the route of a pod, the
      path that a request is forwarded to.
    RelayAccess (token.go, preview_token.go, preview_session_issuer.go, handler_preview*.go): claims, the exchange of a
      bootstrap token, and the handler up to the proxy. Parameters are the JWT library and the backend's answers.
    RunnerTarget (runner/internal/tunnel/local_http.go): the guard on targets, with the URL that net/http makes of them.
    TunnelStream (relay/internal/tunnel/stream.go, relay/internal/proxy/http.go and response.go,
      runner/internal/tunnel/dispatcher.go, credit.go and local_http.go): one exchange over the tunnel; the relation
      tstep has a rule for what each goroutine does between two blocking operations, and for cancellations,
      time-outs and the loss of the connection. Payloads are the values their JSON carries.
    TunnelFlow: ten invariants of the reachable states, each kept by every step; frame lemmas and case rules carry them.
    TunnelProps: flow control, integrity of both bodies, no credit lost, downloads of any length, and two
      limits: uploads beyond the window never end, and a refused target can block the runner's read loop.
    TunnelTable (tunnel.go): the streams of one connection, their numbers, dispatch, heartbeat and Close.
    TunnelRegistry (registry.go, relay/internal/server/handler_tunnel.go): the tunnels of the runners and the takeover
      when a runner connects again. TunnelLimits (limits.go): the places and the queue of a pod's requests.

  Part 5, the autopilot of a pod.
    Autopilot (runner/internal/autopilot with the ACP control process, runner/internal/runner/handler_autopilot.go): the controller's
      fields are one record, each goroutine is the list of steps that it still has to take, a step is what runs between two points
      where another goroutine can get in (exec). A move lets one goroutine take a step, or is a command, a change of the pod, an
      answer or the exit of the control agent, or time that passes; preach are the configurations that any moves reach. What the
      control agent decides is part of the move.
    AutopilotProps: the quota of iterations, quiet after a takeover, terminal phases, what Stop guarantees; each invariant weighs the
      steps that are still to be taken and is kept by every move. AutopilotRuns: the wait of Stop ends, and runs that show the limits
      of the code (overlapping cycles, a crashed control agent, races of Start, Stop and Takeover).

  Part 6, workflow runs of the backend.
    WorkflowRuns (backend/internal/infra/workflow_*.go, domain/workflow, the status derivation of service/workflow): the rows of
      workflows, runs, pods and autopilot controllers as records, the database as their tables, one function for each statement.
      The database does what its statements say and no statement fails.
    WorkflowPods (service/runner, infra/agentpod_repo_query.go): what messages of runners, heartbeats and clean-ups do to pods and
      autopilots, with the changes that they notify. WorkflowOrchestrator (service/workflow, cmd/server/eventbus_workflow.go,
      api/rest/v1/workflow_handler_runs.go): triggering, starting, finishing, watching and cancelling runs; the pod service's and
      the autopilot service's answers are arguments.
    WorkflowSteps: the statements as a datatype and wreach, what they reach in any interleaving; the counter updates that a
      handler still owes and the deleted rows are kept beside the database. WorkflowHandlers: every handler is a sequence of statements
      (refinement), so the invariants hold for handlers that run together.
    WorkflowProps: rows_ok, finished runs, the counters (a locale of what a counter needs, interpreted for the three). WorkflowBound: the
      limit on concurrent runs. WorkflowExamples: instances, and runs in which what is recorded is not what happened.

  Not modelled. Runes above 255 and invalid UTF-8; source positions other than those the tokens carry; the
  texts of error messages and logs (their constructors say which error it is); websockets, TLS, HTTP handlers, the
  database, gRPC and the operating system; metrics and tracing. Of the tunnel the websocket branch
  and the runner's reconnect loop, of the autopilot the texts of its prompts and the parser of the control agent's answers, and of
  workflows the cron scheduler, approval time-outs and webhooks are left out. The other subsystems of the repository (services of the backend, marketplace, runner host, clients) mostly move data between
  APIs, a database and processes; they are listed in the manifest as not modelled.
\<close>

end
